(* ===== verification/Prelude.thy ===== *)
theory Prelude
  imports Main "HOL-Library.Word"
begin

text \<open>
  Shared ground of the development: the byte and machine-word types, Go's slice
  expressions and \<open>copy\<close>, little-endian integers, the error values of package
  \<open>absdb\<close>, and the two result disciplines its functions follow: a pure function
  returns \<open>err + 'a\<close>; a method that changes state is an \<open>op\<close>, which returns its
  result together with the state it leaves behind, on the error paths too.
\<close>

unbundle bit_operations_syntax

named_theorems slc_simps \<open>lengths and reads of slices and splices\<close>
named_theorems le_simps \<open>little-endian encoding and decoding\<close>
named_theorems op_simps \<open>running state operations\<close>

type_synonym byte = "8 word"
type_synonym u16 = "16 word"
type_synonym u32 = "32 word"
type_synonym u64 = "64 word"

section \<open>Errors\<close>

text \<open>
  The sentinel errors of the package. A wrapped error (\<open>fmt.Errorf("%w: ...")\<close>) is
  its sentinel, the text dropped; an error built from text alone is \<open>ErrText\<close>. A Go
  run-time panic (an index outside its slice) is the separate value \<open>GoPanic\<close>, so that
  its absence can be proved. One datatype per group of source files; the names of the
  source are the abbreviations below.
\<close>

datatype file_err =
    NotABS | Truncated | PageOutOfRange | WrongPassword | UnsupportedCipher |
    UnsupportedCipherMode | NoPassword | CipherKeySize

datatype schema_err =
    NoSchema | BadSchema | Compression | NoSuchTable | NoCatalog | CatalogNotWritable |
    LastTable | TableHasBlobPages | PageUnattributed | OutOfSpace | DatabaseTooLarge

datatype record_err =
    NoData | BadLayout | RecordSize | ValueCount | ColumnRange | ValueType | ValueRange |
    StringEncoding | BlobWrite | ColumnNotWritable

datatype index_err =
    NoIndex | KeyNotFound | MalformedIndex | DuplicateKey | IndexTooManyRows |
    MultiColumnIndex | IndexExists | NoSuchIndex | NoSuchColumn | IndexBacksConstraint |
    UnsupportedIndexColumn | SchemaTailNotUnderstood

datatype write_err =
    ReadOnly | WriterClosed | NoRecord | SlotOccupied | TableFull | IndexNotMaintained |
    ConstraintsNotEnforced | BlobReferenceLost | BookkeepingMismatch | NotNullViolated |
    CheckViolated | AutoIncNotMaintained | AutoIncExhausted

datatype ddl_err =
    BadCatalog | AmbiguousTable | TableExists | UnsupportedColumnType | ColumnDefault |
    ColumnAutoIncOptions | ColumnExists | LastColumn | ColumnIndexed | ColumnConstrained |
    RecordWontFit | ConstraintsNotRebuilt | BlobNotFound | BlobTrunc | BlobSize | BlobChain |
    EncryptionUnsupported | BadGeometry

datatype err =
    FileErr file_err | SchemaErr schema_err | RecordErr record_err | IndexErr index_err
  | WriteErr write_err | DdlErr ddl_err | ErrText string | GoPanic

abbreviation ErrNotABS :: err where "ErrNotABS \<equiv> FileErr NotABS"
abbreviation ErrTruncated :: err where "ErrTruncated \<equiv> FileErr Truncated"
abbreviation ErrPageOutOfRange :: err where "ErrPageOutOfRange \<equiv> FileErr PageOutOfRange"
abbreviation ErrWrongPassword :: err where "ErrWrongPassword \<equiv> FileErr WrongPassword"
abbreviation ErrUnsupportedCipher :: err where "ErrUnsupportedCipher \<equiv> FileErr UnsupportedCipher"
abbreviation ErrUnsupportedCipherMode :: err where "ErrUnsupportedCipherMode \<equiv> FileErr UnsupportedCipherMode"
abbreviation ErrNoPassword :: err where "ErrNoPassword \<equiv> FileErr NoPassword"
abbreviation ErrCipherKeySize :: err where "ErrCipherKeySize \<equiv> FileErr CipherKeySize"

abbreviation ErrNoSchema :: err where "ErrNoSchema \<equiv> SchemaErr NoSchema"
abbreviation ErrBadSchema :: err where "ErrBadSchema \<equiv> SchemaErr BadSchema"
abbreviation ErrCompression :: err where "ErrCompression \<equiv> SchemaErr Compression"
abbreviation ErrNoSuchTable :: err where "ErrNoSuchTable \<equiv> SchemaErr NoSuchTable"
abbreviation ErrNoCatalog :: err where "ErrNoCatalog \<equiv> SchemaErr NoCatalog"
abbreviation ErrCatalogNotWritable :: err where "ErrCatalogNotWritable \<equiv> SchemaErr CatalogNotWritable"
abbreviation ErrLastTable :: err where "ErrLastTable \<equiv> SchemaErr LastTable"
abbreviation ErrTableHasBlobPages :: err where "ErrTableHasBlobPages \<equiv> SchemaErr TableHasBlobPages"
abbreviation ErrPageUnattributed :: err where "ErrPageUnattributed \<equiv> SchemaErr PageUnattributed"
abbreviation ErrOutOfSpace :: err where "ErrOutOfSpace \<equiv> SchemaErr OutOfSpace"
abbreviation ErrDatabaseTooLarge :: err where "ErrDatabaseTooLarge \<equiv> SchemaErr DatabaseTooLarge"

abbreviation ErrNoData :: err where "ErrNoData \<equiv> RecordErr NoData"
abbreviation ErrBadLayout :: err where "ErrBadLayout \<equiv> RecordErr BadLayout"
abbreviation ErrRecordSize :: err where "ErrRecordSize \<equiv> RecordErr RecordSize"
abbreviation ErrValueCount :: err where "ErrValueCount \<equiv> RecordErr ValueCount"
abbreviation ErrColumnRange :: err where "ErrColumnRange \<equiv> RecordErr ColumnRange"
abbreviation ErrValueType :: err where "ErrValueType \<equiv> RecordErr ValueType"
abbreviation ErrValueRange :: err where "ErrValueRange \<equiv> RecordErr ValueRange"
abbreviation ErrStringEncoding :: err where "ErrStringEncoding \<equiv> RecordErr StringEncoding"
abbreviation ErrBlobWrite :: err where "ErrBlobWrite \<equiv> RecordErr BlobWrite"
abbreviation ErrColumnNotWritable :: err where "ErrColumnNotWritable \<equiv> RecordErr ColumnNotWritable"

abbreviation ErrNoIndex :: err where "ErrNoIndex \<equiv> IndexErr NoIndex"
abbreviation ErrKeyNotFound :: err where "ErrKeyNotFound \<equiv> IndexErr KeyNotFound"
abbreviation ErrMalformedIndex :: err where "ErrMalformedIndex \<equiv> IndexErr MalformedIndex"
abbreviation ErrDuplicateKey :: err where "ErrDuplicateKey \<equiv> IndexErr DuplicateKey"
abbreviation ErrIndexTooManyRows :: err where "ErrIndexTooManyRows \<equiv> IndexErr IndexTooManyRows"
abbreviation ErrMultiColumnIndex :: err where "ErrMultiColumnIndex \<equiv> IndexErr MultiColumnIndex"
abbreviation ErrIndexExists :: err where "ErrIndexExists \<equiv> IndexErr IndexExists"
abbreviation ErrNoSuchIndex :: err where "ErrNoSuchIndex \<equiv> IndexErr NoSuchIndex"
abbreviation ErrNoSuchColumn :: err where "ErrNoSuchColumn \<equiv> IndexErr NoSuchColumn"
abbreviation ErrIndexBacksConstraint :: err where "ErrIndexBacksConstraint \<equiv> IndexErr IndexBacksConstraint"
abbreviation ErrUnsupportedIndexColumn :: err where "ErrUnsupportedIndexColumn \<equiv> IndexErr UnsupportedIndexColumn"
abbreviation ErrSchemaTailNotUnderstood :: err where "ErrSchemaTailNotUnderstood \<equiv> IndexErr SchemaTailNotUnderstood"

abbreviation ErrReadOnly :: err where "ErrReadOnly \<equiv> WriteErr ReadOnly"
abbreviation ErrWriterClosed :: err where "ErrWriterClosed \<equiv> WriteErr WriterClosed"
abbreviation ErrNoRecord :: err where "ErrNoRecord \<equiv> WriteErr NoRecord"
abbreviation ErrSlotOccupied :: err where "ErrSlotOccupied \<equiv> WriteErr SlotOccupied"
abbreviation ErrTableFull :: err where "ErrTableFull \<equiv> WriteErr TableFull"
abbreviation ErrIndexNotMaintained :: err where "ErrIndexNotMaintained \<equiv> WriteErr IndexNotMaintained"
abbreviation ErrConstraintsNotEnforced :: err where "ErrConstraintsNotEnforced \<equiv> WriteErr ConstraintsNotEnforced"
abbreviation ErrBlobReferenceLost :: err where "ErrBlobReferenceLost \<equiv> WriteErr BlobReferenceLost"
abbreviation ErrBookkeepingMismatch :: err where "ErrBookkeepingMismatch \<equiv> WriteErr BookkeepingMismatch"
abbreviation ErrNotNullViolated :: err where "ErrNotNullViolated \<equiv> WriteErr NotNullViolated"
abbreviation ErrCheckViolated :: err where "ErrCheckViolated \<equiv> WriteErr CheckViolated"
abbreviation ErrAutoIncNotMaintained :: err where "ErrAutoIncNotMaintained \<equiv> WriteErr AutoIncNotMaintained"
abbreviation ErrAutoIncExhausted :: err where "ErrAutoIncExhausted \<equiv> WriteErr AutoIncExhausted"

abbreviation ErrBadCatalog :: err where "ErrBadCatalog \<equiv> DdlErr BadCatalog"
abbreviation ErrAmbiguousTable :: err where "ErrAmbiguousTable \<equiv> DdlErr AmbiguousTable"
abbreviation ErrTableExists :: err where "ErrTableExists \<equiv> DdlErr TableExists"
abbreviation ErrUnsupportedColumnType :: err where "ErrUnsupportedColumnType \<equiv> DdlErr UnsupportedColumnType"
abbreviation ErrColumnDefault :: err where "ErrColumnDefault \<equiv> DdlErr ColumnDefault"
abbreviation ErrColumnAutoIncOptions :: err where "ErrColumnAutoIncOptions \<equiv> DdlErr ColumnAutoIncOptions"
abbreviation ErrColumnExists :: err where "ErrColumnExists \<equiv> DdlErr ColumnExists"
abbreviation ErrLastColumn :: err where "ErrLastColumn \<equiv> DdlErr LastColumn"
abbreviation ErrColumnIndexed :: err where "ErrColumnIndexed \<equiv> DdlErr ColumnIndexed"
abbreviation ErrColumnConstrained :: err where "ErrColumnConstrained \<equiv> DdlErr ColumnConstrained"
abbreviation ErrRecordWontFit :: err where "ErrRecordWontFit \<equiv> DdlErr RecordWontFit"
abbreviation ErrEncryptionUnsupported :: err where "ErrEncryptionUnsupported \<equiv> DdlErr EncryptionUnsupported"
abbreviation ErrBadGeometry :: err where "ErrBadGeometry \<equiv> DdlErr BadGeometry"
abbreviation ErrConstraintsNotRebuilt :: err where "ErrConstraintsNotRebuilt \<equiv> DdlErr ConstraintsNotRebuilt"
abbreviation ErrBlobNotFound :: err where "ErrBlobNotFound \<equiv> DdlErr BlobNotFound"
abbreviation ErrBlobTrunc :: err where "ErrBlobTrunc \<equiv> DdlErr BlobTrunc"
abbreviation ErrBlobSize :: err where "ErrBlobSize \<equiv> DdlErr BlobSize"
abbreviation ErrBlobChain :: err where "ErrBlobChain \<equiv> DdlErr BlobChain"

type_synonym 'a result = "err + 'a"

definition bindR :: "'a result \<Rightarrow> ('a \<Rightarrow> 'b result) \<Rightarrow> 'b result" where
  "bindR r f = (case r of Inl e \<Rightarrow> Inl e | Inr x \<Rightarrow> f x)"

definition guardR :: "bool \<Rightarrow> err \<Rightarrow> unit result" where
  "guardR ok e = (if ok then Inr () else Inl e)"

fun mapR :: "('a \<Rightarrow> 'b result) \<Rightarrow> 'a list \<Rightarrow> 'b list result" where
  "mapR f [] = Inr []"
| "mapR f (x # xs) = bindR (f x) (\<lambda>y. bindR (mapR f xs) (\<lambda>ys. Inr (y # ys)))"

lemma bindR_simps [simp]:
  "bindR (Inl e) f = Inl e"
  "bindR (Inr x) f = f x"
  by (simp_all add: bindR_def)

lemma bindR_eq_Inr [simp]:
  "bindR r f = Inr y \<longleftrightarrow> (\<exists>x. r = Inr x \<and> f x = Inr y)"
  by (cases r) auto

lemma guardR_eq_Inr [simp]: "guardR ok e = Inr u \<longleftrightarrow> ok"
  by (simp add: guardR_def)

lemma guardR_True [simp]: "ok \<Longrightarrow> guardR ok e = Inr ()"
  by (simp add: guardR_def)

lemma guardR_False [simp]: "\<not> ok \<Longrightarrow> guardR ok e = Inl e"
  by (simp add: guardR_def)

lemma length_mapR: "mapR f xs = Inr ys \<Longrightarrow> length ys = length xs"
  by (induction xs arbitrary: ys) auto

section \<open>State operations\<close>

type_synonym ('s, 'a) op = "'s \<Rightarrow> 'a result \<times> 's"

definition retO :: "'a \<Rightarrow> ('s, 'a) op" where
  "retO x s = (Inr x, s)"

definition failO :: "err \<Rightarrow> ('s, 'a) op" where
  "failO e s = (Inl e, s)"

definition bindO :: "('s, 'a) op \<Rightarrow> ('a \<Rightarrow> ('s, 'b) op) \<Rightarrow> ('s, 'b) op" where
  "bindO m f s = (case m s of (Inl e, s') \<Rightarrow> (Inl e, s') | (Inr x, s') \<Rightarrow> f x s')"

definition getO :: "('s \<Rightarrow> 'a) \<Rightarrow> ('s, 'a) op" where
  "getO f s = (Inr (f s), s)"

definition modO :: "('s \<Rightarrow> 's) \<Rightarrow> ('s, unit) op" where
  "modO f s = (Inr (), f s)"

definition liftO :: "'a result \<Rightarrow> ('s, 'a) op" where
  "liftO r s = (r, s)"

definition guardO :: "bool \<Rightarrow> err \<Rightarrow> ('s, unit) op" where
  "guardO ok e s = (if ok then Inr () else Inl e, s)"

fun forO :: "'a list \<Rightarrow> ('a \<Rightarrow> ('s, unit) op) \<Rightarrow> ('s, unit) op" where
  "forO [] f = retO ()"
| "forO (x # xs) f = bindO (f x) (\<lambda>_. forO xs f)"

lemma op_runs [simp, op_simps]:
  "retO x s = (Inr x, s)"
  "failO e s = (Inl e, s)"
  "getO f s = (Inr (f s), s)"
  "modO g s = (Inr (), g s)"
  "liftO r s = (r, s)"
  by (simp_all add: retO_def failO_def getO_def modO_def liftO_def)

lemma guardO_runs [simp, op_simps]:
  "ok \<Longrightarrow> guardO ok e s = (Inr (), s)"
  "\<not> ok \<Longrightarrow> guardO ok e s = (Inl e, s)"
  by (simp_all add: guardO_def)

lemma guardO_eq_Inr [simp]: "guardO ok e s = (Inr u, t) \<longleftrightarrow> ok \<and> t = s"
  by (auto simp: guardO_def)

lemma bindO_Inr [op_simps]: "m s = (Inr x, s') \<Longrightarrow> bindO m f s = f x s'"
  by (simp add: bindO_def)

lemma bindO_Inl [op_simps]: "m s = (Inl e, s') \<Longrightarrow> bindO m f s = (Inl e, s')"
  by (simp add: bindO_def)

lemma bindO_runs [simp]:
  "bindO (retO x) f s = f x s"
  "bindO (failO e) f s = (Inl e, s)"
  "bindO (getO g) f s = f (g s) s"
  "bindO (modO h) k s = k () (h s)"
  by (simp_all add: bindO_def)

lemma bindO_liftO [simp]:
  "bindO (liftO (Inr x)) f s = f x s"
  "bindO (liftO (Inl e)) f s = (Inl e, s)"
  by (simp_all add: bindO_def)

lemma bindO_guardO [simp]:
  "ok \<Longrightarrow> bindO (guardO ok e) f s = f () s"
  "\<not> ok \<Longrightarrow> bindO (guardO ok e) f s = (Inl e, s)"
  by (simp_all add: bindO_def)

lemma bindO_eq_Inr:
  "bindO m f s = (Inr y, t) \<longleftrightarrow> (\<exists>x s'. m s = (Inr x, s') \<and> f x s' = (Inr y, t))"
  by (auto simp: bindO_def split: prod.splits sum.splits)

lemma bindO_InrE [elim]:
  assumes "bindO m f s = (Inr y, t)"
  obtains x s' where "m s = (Inr x, s')" and "f x s' = (Inr y, t)"
  using assms by (auto simp: bindO_eq_Inr)

lemma bindO_eq_Inl:
  "bindO m f s = (Inl e, t) \<longleftrightarrow>
     m s = (Inl e, t) \<or> (\<exists>x s'. m s = (Inr x, s') \<and> f x s' = (Inl e, t))"
  by (auto simp: bindO_def split: prod.splits sum.splits)

lemma forO_runs [simp]:
  "forO [] f s = (Inr (), s)"
  "forO (x # xs) f s = bindO (f x) (\<lambda>_. forO xs f) s"
  by simp_all

text \<open>A loop keeps what its body keeps, on the paths that return and on those that fail.\<close>

lemma forO_invariant:
  assumes "P s" and "\<And>x s. x \<in> set xs \<Longrightarrow> P s \<Longrightarrow> P (snd (f x s))"
  shows "P (snd (forO xs f s))"
  using assms
proof (induction xs arbitrary: s)
  case Nil
  then show ?case by simp
next
  case (Cons x xs)
  have "P (snd (f x s))" using Cons.prems by simp
  then have "P (snd (forO xs f (snd (f x s))))" using Cons by simp
  with \<open>P (snd (f x s))\<close> show ?case
    by (cases "f x s") (auto simp: bindO_def split: sum.splits)
qed

section \<open>Slices\<close>

text \<open>Go's \<open>xs[i:j]\<close>, and \<open>copy(xs[i:], ys)\<close>, which stops at the end of \<open>xs\<close>.\<close>

definition slc :: "nat \<Rightarrow> nat \<Rightarrow> 'a list \<Rightarrow> 'a list" where
  "slc i j xs = take (j - i) (drop i xs)"

definition splice :: "nat \<Rightarrow> 'a list \<Rightarrow> 'a list \<Rightarrow> 'a list" where
  "splice i ys xs = take i xs @ take (length xs - i) ys @ drop (i + length ys) xs"

lemma length_slc [simp, slc_simps]: "length (slc i j xs) = min (j - i) (length xs - i)"
  by (simp add: slc_def min.commute)

lemma length_splice [simp, slc_simps]: "length (splice i ys xs) = length xs"
  by (simp add: splice_def)

lemma nth_slc [slc_simps]: "k < j - i \<Longrightarrow> i + k < length xs \<Longrightarrow> slc i j xs ! k = xs ! (i + k)"
  by (simp add: slc_def)

lemma nth_splice [slc_simps]:
  "k < length xs \<Longrightarrow> splice i ys xs ! k = (if i \<le> k \<and> k < i + length ys then ys ! (k - i) else xs ! k)"
  by (auto simp: splice_def nth_append min_def not_le)

lemma slc_all [simp]: "length xs \<le> j \<Longrightarrow> slc 0 j xs = xs"
  by (simp add: slc_def)

lemma slc_splice_same [simp, slc_simps]:
  assumes "j = i + length ys" and "j \<le> length xs"
  shows "slc i j (splice i ys xs) = ys"
  using assms by (auto intro!: nth_equalityI simp: nth_slc nth_splice)

lemma slc_splice_disjoint [slc_simps]:
  assumes "j \<le> k \<or> k + length ys \<le> i"
  shows "slc i j (splice k ys xs) = slc i j xs"
  using assms by (auto intro!: nth_equalityI simp: nth_slc nth_splice)

lemma slc_slc:
  "j \<le> n \<Longrightarrow> slc i j (slc m (m + n) xs) = slc (m + i) (m + j) xs"
  by (auto intro!: nth_equalityI simp: nth_slc add.assoc min_def split: if_splits)

lemma splice_slc_id: "splice i (slc i j xs) xs = xs"
  by (auto intro!: nth_equalityI simp: nth_splice nth_slc)

lemma drop_splice_0 [simp]: "length ys \<le> length xs \<Longrightarrow> splice 0 ys xs = ys @ drop (length ys) xs"
  by (simp add: splice_def)

lemma splice_append_at:
  "length xs = i \<Longrightarrow> length ys \<le> length zs \<Longrightarrow> splice i ys (xs @ zs) = xs @ ys @ drop (length ys) zs"
  by (simp add: splice_def)

lemma slc_append_left [slc_simps]: "j \<le> length xs \<Longrightarrow> slc i j (xs @ ys) = slc i j xs"
  by (auto intro!: nth_equalityI simp: nth_slc nth_append)

lemma slc_append_right [slc_simps]:
  "length xs \<le> i \<Longrightarrow> slc i j (xs @ ys) = slc (i - length xs) (j - length xs) ys"
  by (auto simp: slc_def)

lemma slc_join: "i \<le> j \<Longrightarrow> j \<le> k \<Longrightarrow> slc i j xs @ slc j k xs = slc i k xs"
  using take_add [of "j - i" "k - j" "drop i xs"] by (simp add: slc_def)

lemma slc_0: "slc 0 j xs = take j xs"
  by (simp add: slc_def)

section \<open>Little-endian integers\<close>

primrec le_val :: "byte list \<Rightarrow> nat" where
  "le_val [] = 0"
| "le_val (b # bs) = unat b + 256 * le_val bs"

primrec putUintLE :: "nat \<Rightarrow> nat \<Rightarrow> byte list" where
  "putUintLE 0 v = []"
| "putUintLE (Suc n) v = word_of_nat v # putUintLE n (v div 256)"

lemma length_putUintLE [simp, le_simps]: "length (putUintLE n v) = n"
  by (induction n arbitrary: v) simp_all

lemma unat_byte_lt [simp]: "unat (b :: byte) < 256"
  using unsigned_less [of b] by (simp add: unsigned_less)

lemma unat_byte_of_nat [simp]: "unat (word_of_nat v :: byte) = v mod 256"
  by (simp add: unat_of_nat)

lemma le_val_putUintLE [simp, le_simps]: "le_val (putUintLE n v) = v mod 256 ^ n"
proof (induction n arbitrary: v)
  case (Suc n)
  have "le_val (putUintLE (Suc n) v) = v mod 256 + 256 * (v div 256 mod 256 ^ n)"
    using Suc.IH by simp
  also have "\<dots> = v mod (256 * 256 ^ n)"
    by (simp add: mod_mult2_eq)
  finally show ?case by simp
qed simp

lemma le_val_less: "le_val bs < 256 ^ length bs"
proof (induction bs)
  case (Cons b bs)
  have "unat b < 256" by simp
  then have "unat b + 256 * le_val bs < 256 * Suc (le_val bs)" by simp
  also have "\<dots> \<le> 256 * 256 ^ length bs"
    using Cons.IH by (intro mult_le_mono2) (simp add: Suc_leI)
  finally show ?case by simp
qed simp

lemma byte_of_nat_low: "(word_of_nat (unat b + 256 * v) :: byte) = b"
  by (simp add: word_unat_eq_iff unat_of_nat del: of_nat_add of_nat_mult)

lemma putUintLE_le_val [simp, le_simps]: "n = length bs \<Longrightarrow> putUintLE n (le_val bs) = bs"
  by (induction bs arbitrary: n) (simp_all add: byte_of_nat_low del: of_nat_add of_nat_mult)

lemma le_val_inj: "length xs = length ys \<Longrightarrow> le_val xs = le_val ys \<Longrightarrow> xs = ys"
  by (metis putUintLE_le_val)

definition getU16 :: "byte list \<Rightarrow> nat \<Rightarrow> u16" where
  "getU16 bs off = word_of_nat (le_val (slc off (off + 2) bs))"

definition getU32 :: "byte list \<Rightarrow> nat \<Rightarrow> u32" where
  "getU32 bs off = word_of_nat (le_val (slc off (off + 4) bs))"

definition getU64 :: "byte list \<Rightarrow> nat \<Rightarrow> u64" where
  "getU64 bs off = word_of_nat (le_val (slc off (off + 8) bs))"

definition leU16 :: "u16 \<Rightarrow> byte list" where
  "leU16 w = putUintLE 2 (unat w)"

definition leU32 :: "u32 \<Rightarrow> byte list" where
  "leU32 w = putUintLE 4 (unat w)"

definition leU64 :: "u64 \<Rightarrow> byte list" where
  "leU64 w = putUintLE 8 (unat w)"

lemma length_leU [simp, le_simps]:
  "length (leU16 a) = 2" "length (leU32 b) = 4" "length (leU64 c) = 8"
  by (simp_all add: leU16_def leU32_def leU64_def)

lemma word_of_nat_unat_mod:
  "LENGTH('a) = n \<Longrightarrow> word_of_nat (unat w mod 2 ^ n) = (w :: 'a::len word)"
  by (metis of_nat_unat unat_of_nat word_nat_cases unsigned_of_nat take_bit_nat_eq_self_iff mod_less unsigned_less)

text \<open>An integer read back from where it was written, and from a place no write touched.\<close>

lemma get_splice_same [simp, le_simps]:
  "off + 2 \<le> length bs \<Longrightarrow> getU16 (splice off (leU16 w) bs) off = w"
  "off + 4 \<le> length bs \<Longrightarrow> getU32 (splice off (leU32 w') bs) off = w'"
  "off + 8 \<le> length bs \<Longrightarrow> getU64 (splice off (leU64 w'') bs) off = w''"
  using word_of_nat_unat_mod [where w = w and n = 16] word_of_nat_unat_mod [where w = w' and n = 32] word_of_nat_unat_mod [where w = w'' and n = 64]
  by (simp_all add: getU16_def getU32_def getU64_def)
    (simp_all add: leU16_def leU32_def leU64_def)

lemma get_splice_disjoint [le_simps]:
  "off + 2 \<le> k \<or> k + length ys \<le> off \<Longrightarrow> getU16 (splice k ys bs) off = getU16 bs off"
  "off + 4 \<le> k \<or> k + length ys \<le> off \<Longrightarrow> getU32 (splice k ys bs) off = getU32 bs off"
  "off + 8 \<le> k \<or> k + length ys \<le> off \<Longrightarrow> getU64 (splice k ys bs) off = getU64 bs off"
  by (simp_all add: getU16_def getU32_def getU64_def slc_splice_disjoint)

lemma get_slc [le_simps]:
  "off + 2 \<le> n \<Longrightarrow> getU16 (slc m (m + n) bs) off = getU16 bs (m + off)"
  "off + 4 \<le> n \<Longrightarrow> getU32 (slc m (m + n) bs) off = getU32 bs (m + off)"
  "off + 8 \<le> n \<Longrightarrow> getU64 (slc m (m + n) bs) off = getU64 bs (m + off)"
  by (simp_all add: getU16_def getU32_def getU64_def slc_slc add.assoc)

lemma get_append [le_simps]:
  "off + 2 \<le> length xs \<Longrightarrow> getU16 (xs @ ys) off = getU16 xs off"
  "off + 4 \<le> length xs \<Longrightarrow> getU32 (xs @ ys) off = getU32 xs off"
  "off + 8 \<le> length xs \<Longrightarrow> getU64 (xs @ ys) off = getU64 xs off"
  "length xs \<le> off \<Longrightarrow> getU16 (xs @ ys) off = getU16 ys (off - length xs)"
  "length xs \<le> off \<Longrightarrow> getU32 (xs @ ys) off = getU32 ys (off - length xs)"
  "length xs \<le> off \<Longrightarrow> getU64 (xs @ ys) off = getU64 ys (off - length xs)"
  by (simp_all add: getU16_def getU32_def getU64_def slc_append_left slc_append_right Suc_diff_le)

lemma get_leU [simp, le_simps]:
  "getU16 (leU16 a) 0 = a" "getU32 (leU32 b) 0 = b" "getU64 (leU64 c) 0 = c"
  using word_of_nat_unat_mod [where w = a and n = 16] word_of_nat_unat_mod [where w = b and n = 32]
    word_of_nat_unat_mod [where w = c and n = 64]
  by (simp_all add: getU16_def getU32_def getU64_def)
    (simp_all add: leU16_def leU32_def leU64_def)

lemma leU_getU [simp, le_simps]:
  "off + 2 \<le> length bs \<Longrightarrow> leU16 (getU16 bs off) = slc off (off + 2) bs"
  "off + 4 \<le> length bs \<Longrightarrow> leU32 (getU32 bs off) = slc off (off + 4) bs"
  "off + 8 \<le> length bs \<Longrightarrow> leU64 (getU64 bs off) = slc off (off + 8) bs"
  using le_val_less [of "slc off (off + 2) bs"] le_val_less [of "slc off (off + 4) bs"]
    le_val_less [of "slc off (off + 8) bs"]
  by (simp_all add: getU16_def getU32_def getU64_def leU16_def leU32_def leU64_def unat_of_nat)

end
