(* ===== verification/Crc.thy ===== *)
theory Crc
  imports Prelude
begin

text \<open>
  The checksum of \<open>crc.go\<close>: the byte-wise table, the table-driven loop, the bitwise
  register it implements, and what the checksum can be relied on to detect.
\<close>

section \<open>The code\<close>

definition absCRCPoly :: u32 where
  "absCRCPoly = 0xEDB88320"

text \<open>The body of the inner loop of \<open>makeAbsCRCTable\<close>, run eight times per entry.\<close>

definition crcStep :: "u32 \<Rightarrow> u32" where
  "crcStep crc = (if crc AND 1 \<noteq> 0 then drop_bit 1 crc XOR absCRCPoly else drop_bit 1 crc)"

definition makeAbsCRCTable :: "u32 list" where
  "makeAbsCRCTable = map (\<lambda>i. (crcStep ^^ 8) (word_of_nat i)) [0..<256]"

definition crcByte :: "u32 \<Rightarrow> byte \<Rightarrow> u32" where
  "crcByte crc b = drop_bit 8 crc XOR makeAbsCRCTable ! unat (ucast crc XOR b)"

definition absCRC32 :: "byte list \<Rightarrow> u32" where
  "absCRC32 data = foldl crcByte 0 data"

section \<open>The register the table implements\<close>

text \<open>The reference: the register is shifted one bit at a time, the byte xored in first.\<close>

definition crcBits :: "u32 \<Rightarrow> byte \<Rightarrow> u32" where
  "crcBits crc b = (crcStep ^^ 8) (crc XOR ucast b)"

lemma and_1_bit: "((x :: 'a::len word) AND 1 \<noteq> 0) = bit x 0"
  by (simp add: and_one_eq odd_iff_mod_2_eq_one bit_0)

lemma crcStep_bit: "crcStep x = drop_bit 1 x XOR (if bit x 0 then absCRCPoly else 0)"
  by (simp add: crcStep_def and_1_bit)

lemma drop_bit_xor_word: "drop_bit n (x XOR y :: 'a::len word) = drop_bit n x XOR drop_bit n y"
  by (rule bit_word_eqI) (simp add: bit_simps)

lemma crcStep_xor: "crcStep (x XOR y) = crcStep x XOR crcStep y"
  by (auto simp: crcStep_bit drop_bit_xor_word bit_xor_iff ac_simps)

lemma crcStep_pow_xor: "(crcStep ^^ n) (x XOR y) = (crcStep ^^ n) x XOR (crcStep ^^ n) y"
  by (induction n) (simp_all add: crcStep_xor)

lemma crcStep_pow_high:
  "(\<And>i. i < n \<Longrightarrow> \<not> bit x i) \<Longrightarrow> (crcStep ^^ n) x = drop_bit n x"
proof (induction n)
  case (Suc n)
  then have "(crcStep ^^ n) x = drop_bit n x" by simp
  moreover have "\<not> bit (drop_bit n x) 0" using Suc.prems [of n] by (simp add: bit_drop_bit_eq)
  ultimately show ?case by (simp add: crcStep_bit [of "drop_bit n x"])
qed simp

lemma nth_makeAbsCRCTable: "makeAbsCRCTable ! unat (b :: byte) = (crcStep ^^ 8) (ucast b)"
  by (simp add: makeAbsCRCTable_def unsigned_ucast_eq)

lemma split_low_byte: "(x :: u32) = push_bit 8 (drop_bit 8 x) XOR ucast (ucast x :: byte)"
  by (rule bit_word_eqI) (auto simp: bit_simps)

lemma crcByte_bits: "crcByte crc b = crcBits crc b"
proof -
  have low: "ucast (ucast crc XOR b :: byte) = (ucast (ucast crc :: byte) XOR ucast b :: u32)"
    by (rule bit_word_eqI) (auto simp: bit_simps)
  have "crcBits crc b = (crcStep ^^ 8) (push_bit 8 (drop_bit 8 crc) XOR (ucast (ucast crc :: byte) XOR ucast b))"
    by (subst split_low_byte [of crc]) (simp add: crcBits_def xor.assoc)
  also have "\<dots> = (crcStep ^^ 8) (push_bit 8 (drop_bit 8 crc)) XOR (crcStep ^^ 8) (ucast (ucast crc XOR b :: byte))"
    by (simp only: crcStep_pow_xor low)
  also have "(crcStep ^^ 8) (push_bit 8 (drop_bit 8 crc)) = drop_bit 8 (push_bit 8 (drop_bit 8 crc))"
    by (rule crcStep_pow_high) (simp add: bit_simps)
  also have "drop_bit 8 (push_bit 8 (drop_bit 8 crc)) = drop_bit 8 crc"
    by (rule bit_word_eqI) (auto simp: bit_simps dest: bit_imp_le_length)
  finally show ?thesis by (simp add: crcByte_def nth_makeAbsCRCTable)
qed

lemma absCRC32_bits: "absCRC32 data = foldl crcBits 0 data"
proof -
  have "crcByte = crcBits" by (intro ext) (rule crcByte_bits)
  then show ?thesis by (simp add: absCRC32_def)
qed

text \<open>C10. The table-driven loop computes the bit-serial register of the reflected polynomial,
  started at zero and never inverted, for every input.\<close>

theorem absCRC32_bitwise: "absCRC32 data = foldl crcBits 0 data"
  by (rule absCRC32_bits)

section \<open>Detection\<close>

lemma xor_cancel_left: "(w :: 'a::len word) XOR x = w XOR y \<Longrightarrow> x = y"
  by (metis xor.assoc xor_self_eq xor.left_neutral)

lemma crcStep_inj: "crcStep x = crcStep y \<Longrightarrow> x = y"
proof -
  assume eq: "crcStep x = crcStep y"
  have top: "bit (crcStep z) 31 = bit z 0" for z
    using bit_imp_le_length [of z 32] by (auto simp: crcStep_bit bit_simps absCRCPoly_def)
  from eq have b0: "bit x 0 = bit y 0" by (metis top)
  have "drop_bit 1 x XOR (if bit x 0 then absCRCPoly else 0)
      = drop_bit 1 y XOR (if bit x 0 then absCRCPoly else 0)"
    using eq b0 by (simp only: crcStep_bit)
  then have "drop_bit 1 x = drop_bit 1 y"
    by (subst (asm) (1 2) xor.commute) (rule xor_cancel_left)
  then have shifted: "bit x (1 + i) = bit y (1 + i)" for i
    by (metis bit_drop_bit_eq comp_apply)
  show "x = y"
  proof (rule bit_word_eqI)
    fix i show "bit x i = bit y i"
      using b0 shifted [of "i - 1"] by (cases i) simp_all
  qed
qed

lemma crcStep_pow_inj: "(crcStep ^^ n) x = (crcStep ^^ n) y \<Longrightarrow> x = y"
  by (induction n arbitrary: x y) (auto dest: crcStep_inj)

lemma foldl_crcBits_state_inj: "foldl crcBits s zs = foldl crcBits t zs \<Longrightarrow> s = t"
proof (induction zs arbitrary: s t)
  case (Cons z zs)
  then have "crcBits s z = crcBits t z" by simp
  then have "ucast z XOR s = (ucast z XOR t :: u32)"
    unfolding crcBits_def by (subst (1 2) xor.commute) (rule crcStep_pow_inj)
  then show ?case by (rule xor_cancel_left)
qed simp

text \<open>Shifting a byte in later is the same as placing it higher in the register first.\<close>

primrec regOf :: "byte list \<Rightarrow> u32" where
  "regOf [] = 0"
| "regOf (b # bs) = ucast b XOR push_bit 8 (regOf bs)"

lemma crcStep_pow_8_push: "drop_bit 8 (push_bit 8 w) = w \<Longrightarrow> (crcStep ^^ 8) (push_bit 8 w) = w"
  by (subst crcStep_pow_high) (auto simp: bit_simps)

lemma regOf_bound: "length bs \<le> 4 \<Longrightarrow> bit (regOf bs) i \<Longrightarrow> i < 8 * length bs"
proof (induction bs arbitrary: i)
  case (Cons b bs)
  then consider "bit b i" | "8 \<le> i" "bit (regOf bs) (i - 8)"
    by (auto simp: bit_simps)
  then show ?case
  proof cases
    case 1
    then show ?thesis using bit_imp_le_length [of b i] by simp
  next
    case 2
    then show ?thesis using Cons by fastforce
  qed
qed simp

lemma foldl_crcBits_regOf:
  "length bs \<le> 4 \<Longrightarrow> foldl crcBits s bs = (crcStep ^^ (8 * length bs)) (s XOR regOf bs)"
proof (induction bs arbitrary: s)
  case (Cons b bs)
  have short: "length bs \<le> 3" using Cons.prems by simp
  have up: "drop_bit 8 (push_bit 8 (regOf bs)) = regOf bs"
    using regOf_bound [of bs] short by (intro bit_word_eqI) (fastforce simp: bit_simps)
  have "foldl crcBits s (b # bs) = (crcStep ^^ (8 * length bs)) (crcBits s b XOR regOf bs)"
    using Cons by simp
  also have "crcBits s b XOR regOf bs = (crcStep ^^ 8) (s XOR regOf (b # bs))"
    using crcStep_pow_8_push [OF up] by (simp add: crcBits_def crcStep_pow_xor ac_simps)
  also have "(crcStep ^^ (8 * length bs)) ((crcStep ^^ 8) (s XOR regOf (b # bs)))
      = (crcStep ^^ (8 * length (b # bs))) (s XOR regOf (b # bs))"
    using funpow_add [of "8 * length bs" 8 crcStep] by (simp add: add.commute)
  finally show ?case .
qed simp

lemma regOf_inj: "length xs = length ys \<Longrightarrow> length xs \<le> 4 \<Longrightarrow> regOf xs = regOf ys \<Longrightarrow> xs = ys"
proof (induction xs arbitrary: ys)
  case (Cons x xs)
  then obtain y ys' where ys: "ys = y # ys'" by (cases ys) auto
  have len: "length xs \<le> 3" "length ys' \<le> 3" using Cons.prems ys by auto
  have bits: "bit (regOf (x # xs)) i = bit (regOf (y # ys')) i" for i
    using Cons.prems ys by simp
  have "x = y"
  proof (rule bit_word_eqI)
    fix i assume "i < LENGTH(8)"
    then show "bit x i = bit y i" using bits [of i] by (simp add: bit_simps)
  qed
  moreover have "regOf xs = regOf ys'"
  proof (rule bit_word_eqI)
    fix i assume "i < LENGTH(32)"
    show "bit (regOf xs) i = bit (regOf ys') i"
    proof (cases "i < 24")
      case True
      then show ?thesis
        using bits [of "i + 8"] bit_imp_le_length [of x "i + 8"] bit_imp_le_length [of y "i + 8"]
        by (auto simp: bit_simps)
    next
      case False
      then show ?thesis using regOf_bound [of xs i] regOf_bound [of ys' i] len by auto
    qed
  qed
  ultimately show ?case using Cons.IH [of ys'] Cons.prems ys by simp
qed simp

text \<open>The bits of the register a short text makes, and the bits of a payload, each byte's low bit first.\<close>

definition payloadBit :: "byte list \<Rightarrow> nat \<Rightarrow> bool" where
  "payloadBit xs j = bit (xs ! (j div 8)) (j mod 8)"

lemma bit_regOf:
  "length bs \<le> 4 \<Longrightarrow> bit (regOf bs) i \<longleftrightarrow> i < 8 * length bs \<and> payloadBit bs i"
proof (induction bs arbitrary: i)
  case Nil
  then show ?case by simp
next
  case (Cons b bs)
  then have len: "8 * length (b # bs) \<le> 32" "length bs \<le> 4" by simp_all
  show ?case
  proof (cases "i < 8")
    case True
    then show ?thesis by (auto simp: bit_simps payloadBit_def)
  next
    case False
    then have "i div 8 = Suc ((i - 8) div 8)" "i mod 8 = (i - 8) mod 8" by (simp_all add: le_div_geq le_mod_geq)
    then have pay: "payloadBit (b # bs) i = payloadBit bs (i - 8)" by (simp add: payloadBit_def)
    have "bit (regOf (b # bs)) i \<longleftrightarrow> i < 32 \<and> bit (regOf bs) (i - 8)"
      using False bit_imp_le_length [of b i] by (auto simp: bit_simps)
    also have "\<dots> \<longleftrightarrow> i < 32 \<and> i - 8 < 8 * length bs \<and> payloadBit (b # bs) i" using Cons.IH len(2) pay by simp
    also have "\<dots> \<longleftrightarrow> i < 8 * length (b # bs) \<and> payloadBit (b # bs) i" using False len(1) by auto
    finally show ?thesis .
  qed
qed

text \<open>
  A burst of 32 bits may begin inside a byte. Its first byte has been shifted out of the register by the time
  the four others are in, and what it left there cannot cancel them.
\<close>

lemma burst_registers:
  fixes D d :: u32
  assumes r: "r < 8" and d: "\<And>k. bit d k \<Longrightarrow> r \<le> k \<and> k < 8" and D: "\<And>k. bit D k \<Longrightarrow> k < 24 + r"
    and eq: "(crcStep ^^ 8) d = D"
  shows "d = 0 \<and> D = 0"
proof -
  have low: "(crcStep ^^ r) d = drop_bit r d" by (rule crcStep_pow_high) (use d in fastforce)
  have up: "(crcStep ^^ (8 - r)) (push_bit (8 - r) D) = D"
  proof -
    have "drop_bit (8 - r) (push_bit (8 - r) D) = D"
      using D r by (intro bit_word_eqI) (fastforce simp: bit_simps)
    then show ?thesis by (subst crcStep_pow_high) (auto simp: bit_simps)
  qed
  have "(crcStep ^^ 8) d = (crcStep ^^ (8 - r)) ((crcStep ^^ r) d)"
    using funpow_add [of "8 - r" r crcStep] r by simp
  then have "(crcStep ^^ (8 - r)) (drop_bit r d) = (crcStep ^^ (8 - r)) (push_bit (8 - r) D)"
    using eq up low by simp
  then have same: "bit (drop_bit r d) k = bit (push_bit (8 - r) D) k" for k
    using crcStep_pow_inj by metis
  have none: "\<not> bit (drop_bit r d) k" for k
  proof
    assume k: "bit (drop_bit r d) k"
    then have "k < 8 - r" using d [of "r + k"] by (auto simp: bit_simps)
    moreover have "8 - r \<le> k" using k same [of k] by (auto simp: bit_simps)
    ultimately show False by simp
  qed
  have "\<not> bit d k" for k using none [of "k - r"] d [of k] by (auto simp: bit_simps)
  then have "d = 0" by (intro bit_word_eqI) simp
  moreover have "\<not> bit D k" for k
  proof
    assume k: "bit D k"
    then have "k + (8 - r) < 32" using D [OF k] r by simp
    then show False using k none [of "k + (8 - r)"] same [of "k + (8 - r)"] by (simp add: bit_simps)
  qed
  ultimately show ?thesis by (auto intro: bit_word_eqI)
qed

lemma burst_five_bytes:
  assumes len: "length xs = length ys" "length ys \<le> 4" and r: "r < 8" and first: "\<forall>k < r. bit x k = bit y k"
    and rest: "\<forall>k < 8 * length ys. 24 + r \<le> k \<longrightarrow> payloadBit xs k = payloadBit ys k"
    and eq: "foldl crcBits s (x # xs) = foldl crcBits s (y # ys)"
  shows "x # xs = y # ys"
proof -
  let ?d = "ucast x XOR ucast y :: u32" and ?D = "regOf xs XOR regOf ys"
  have "(crcStep ^^ (8 * length ys)) (crcBits s x XOR regOf xs) = (crcStep ^^ (8 * length ys)) (crcBits s y XOR regOf ys)"
    using eq foldl_crcBits_regOf [of xs "crcBits s x"] foldl_crcBits_regOf [of ys "crcBits s y"] len by simp
  then have "crcBits s x XOR regOf xs = crcBits s y XOR regOf ys" by (rule crcStep_pow_inj)
  then have "(crcStep ^^ 8) s XOR ((crcStep ^^ 8) (ucast x) XOR regOf xs) = (crcStep ^^ 8) s XOR ((crcStep ^^ 8) (ucast y) XOR regOf ys)"
    by (simp add: crcBits_def crcStep_pow_xor xor.assoc)
  then have cancel: "(crcStep ^^ 8) (ucast x) XOR regOf xs = (crcStep ^^ 8) (ucast y) XOR regOf ys"
    by (metis xor.commute xor_cancel_left)
  have "(crcStep ^^ 8) ?d = ?D"
  proof (rule bit_word_eqI)
    fix k
    have "bit ((crcStep ^^ 8) (ucast x) XOR regOf xs) k = bit ((crcStep ^^ 8) (ucast y) XOR regOf ys) k"
      by (simp only: cancel)
    then show "bit ((crcStep ^^ 8) ?d) k = bit ?D k" by (auto simp: crcStep_pow_xor bit_xor_iff)
  qed
  moreover have "r \<le> k \<and> k < 8" if "bit ?d k" for k
    using that first bit_imp_le_length [of x k] bit_imp_le_length [of y k] by (auto simp: bit_simps not_less [symmetric])
  moreover have "k < 24 + r" if "bit ?D k" for k
    using that rest len by (auto simp: bit_xor_iff bit_regOf not_le [symmetric])
  ultimately have z: "?d = 0 \<and> ?D = 0" using r by (intro burst_registers) auto
  then have "regOf xs = regOf ys" by (metis xor.right_neutral xor_self_eq xor_cancel_left)
  then have "xs = ys" using regOf_inj len by simp
  moreover have "x = y"
  proof (rule bit_word_eqI)
    fix k assume k: "k < LENGTH(8)"
    have "\<not> bit ?d k" using z by (metis bit_0_eq bot_apply bot_bool_def)
    then show "bit x k = bit y k" using k by (simp add: bit_simps)
  qed
  ultimately show ?thesis by simp
qed

lemma bytes_eq_bits:
  assumes "\<forall>j. 8 * lo \<le> j \<and> j < 8 * hi \<longrightarrow> payloadBit xs j = payloadBit ys j" and "lo \<le> p" and "p < hi"
  shows "xs ! p = ys ! p"
proof (rule bit_word_eqI)
  fix k assume k: "k < LENGTH(8)"
  then have "payloadBit xs (8 * p + k) = payloadBit ys (8 * p + k)" using assms by simp
  then show "bit (xs ! p) k = bit (ys ! p) k" using k by (simp add: payloadBit_def)
qed

text \<open>C11. The checksum detects every burst error of at most 32 bits: two payloads of one length whose bits,
  each byte's low bit first, differ somewhere, and only inside a window of 32 bits beginning at any bit, never
  check alike. A change to a single byte, or to four consecutive ones, is such a burst.\<close>

theorem absCRC32_detects_burst:
  assumes len: "length bad = length good" and diff: "bad \<noteq> good"
    and burst: "\<forall>j < 8 * length good. payloadBit bad j \<noteq> payloadBit good j \<longrightarrow> i \<le> j \<and> j < i + 32"
  shows "absCRC32 bad \<noteq> absCRC32 good"
proof
  assume crc: "absCRC32 bad = absCRC32 good"
  define a r where "a = i div 8" and "r = i mod 8"
  have i: "i = 8 * a + r" "r < 8" by (simp_all add: a_def r_def)
  have same: "bad ! p = good ! p" if p: "p < a \<or> a + 5 \<le> p" "p < length good" for p
  proof (rule bytes_eq_bits [of p "p + 1"])
    have "payloadBit bad j = payloadBit good j" if j: "8 * p \<le> j" "j < 8 * (p + 1)" for j
    proof (rule ccontr)
      assume "payloadBit bad j \<noteq> payloadBit good j"
      moreover have "8 * (p + 1) \<le> 8 * length good" using p(2) by simp
      then have "j < 8 * length good" using j(2) by (rule less_le_trans [rotated])
      ultimately have "8 * a \<le> j \<and> j < 8 * a + r + 32" using burst i(1) by fastforce
      then show False using p(1) j i(2) by presburger
    qed
    then show "\<forall>j. 8 * p \<le> j \<and> j < 8 * (p + 1) \<longrightarrow> payloadBit bad j = payloadBit good j" by blast
  qed simp_all
  show False
  proof (cases "a < length good")
    case False
    have "bad = good" by (rule nth_equalityI [OF len]) (use same False len in auto)
    then show ?thesis using diff by simp
  next
    case True
    have pre: "take a bad = take a good" using same len True by (intro nth_equalityI) simp_all
    have post: "drop (a + 5) bad = drop (a + 5) good" using same len by (intro nth_equalityI) simp_all
    have split: "zs = take a zs @ (zs ! a # take 4 (drop (a + 1) zs)) @ drop (a + 5) zs" if "a < length zs" for zs :: "byte list"
      using id_take_nth_drop [OF that] append_take_drop_id [of 4 "drop (a + 1) zs"] by (simp add: add.commute)
    let ?x = "bad ! a" and ?xs = "take 4 (drop (a + 1) bad)" and ?y = "good ! a" and ?ys = "take 4 (drop (a + 1) good)"
    let ?s = "foldl crcBits 0 (take a good)"
    have "foldl crcBits (foldl crcBits ?s (?x # ?xs)) (drop (a + 5) good) = foldl crcBits (foldl crcBits ?s (?y # ?ys)) (drop (a + 5) good)"
      using crc split [of bad] split [of good] True len pre post by (metis absCRC32_bits foldl_append)
    then have eq: "foldl crcBits ?s (?x # ?xs) = foldl crcBits ?s (?y # ?ys)" by (rule foldl_crcBits_state_inj)
    have "payloadBit ?xs k = payloadBit ?ys k" if "k < 8 * length ?ys" "24 + r \<le> k" for k
    proof -
      have j: "8 * (a + 1) + k < 8 * length good" "(8 * (a + 1) + k) div 8 = a + 1 + k div 8" "k div 8 < 4"
        using that(1) by auto
      have m: "(8 * (a + 1) + k) mod 8 = k mod 8" by (rule mod_mult_self4)
      have "payloadBit bad (8 * (a + 1) + k) = payloadBit good (8 * (a + 1) + k)" using burst j(1) that(2) i by auto
      then show ?thesis unfolding payloadBit_def j(2) m using j(1,3) len by simp
    qed
    moreover have "bit ?x k = bit ?y k" if "k < r" for k
    proof -
      have "8 * a + k < 8 * length good" "\<not> i \<le> 8 * a + k" using that i True by simp_all
      then have "payloadBit bad (8 * a + k) = payloadBit good (8 * a + k)" using burst by blast
      then show ?thesis using that i by (simp add: payloadBit_def)
    qed
    ultimately have five: "?x # ?xs = ?y # ?ys" using len i(2) eq by (intro burst_five_bytes [of _ _ r]) auto
    have "bad = take a bad @ (?x # ?xs) @ drop (a + 5) bad" using split True len by simp
    also have "\<dots> = take a good @ (?y # ?ys) @ drop (a + 5) good" by (simp only: pre post five)
    also have "\<dots> = good" using split True by simp
    finally show False using diff by simp
  qed
qed

text \<open>A burst of 32 bits across five bytes, from the middle of the first to the middle of the last.\<close>

lemma absCRC32_detects_burst_witness:
  "absCRC32 [7, 0xF1, 2, 3, 4, 0x0F, 9] \<noteq> absCRC32 [7, 0x01, 1, 0, 9, 0x00, 9]"
proof (rule absCRC32_detects_burst [where i = 12])
  have "\<forall>j \<in> set [0..<56]. payloadBit [7, 0xF1, 2, 3, 4, 0x0F, 9] j \<noteq> payloadBit [7, 0x01, 1, 0, 9, 0x00, 9] j \<longrightarrow> 12 \<le> j \<and> j < 12 + 32"
    by (simp add: payloadBit_def upt_rec bit_simps)
  then show "\<forall>j < 8 * length [7, 0x01, 1, 0, 9, 0x00, 9 :: byte]. payloadBit [7, 0xF1, 2, 3, 4, 0x0F, 9] j \<noteq> payloadBit [7, 0x01, 1, 0, 9, 0x00, 9] j
      \<longrightarrow> 12 \<le> j \<and> j < 12 + 32" by auto
qed simp_all

end
