(* ===== verification/Cipher_Modes.thy ===== *)
theory Cipher_Modes
  imports Prelude
begin

text \<open>
  Go's \<open>cipher.Block\<close> as a record, and the cmCTS mode of \<open>encryptCTS\<close>
  (\<open>cryptowrite.go\<close>) and \<open>decryptCTS\<close> (\<open>crypto.go\<close>): a feedback register that
  accumulates the ciphertext blocks, and a trailing partial block masked with the
  encrypted register. The laws a block cipher must meet are the locale \<open>block_cipher\<close>;
  the mode is shown inverse to itself for every cipher that meets them.
\<close>

record cipher =
  blockSize :: nat
  encrypt :: "byte list \<Rightarrow> byte list"
  decrypt :: "byte list \<Rightarrow> byte list"

definition ivFillByte :: byte where "ivFillByte = 0xFF"

definition xorBytes :: "byte list \<Rightarrow> byte list \<Rightarrow> byte list" where
  "xorBytes xs ys = map2 (XOR) xs ys"

text \<open>
  The loop over the full blocks followed by the trailing partial block; \<open>feedback\<close> is the
  register. (A block size of zero, which no \<open>cipher.Block\<close> has, would divide by zero in
  Go; the loop then does not start.)
\<close>

function ctsEncrypt :: "cipher \<Rightarrow> byte list \<Rightarrow> byte list \<Rightarrow> byte list" where
  "ctsEncrypt c feedback src =
     (if blockSize c = 0 \<or> length src < blockSize c then
        (if src = [] then [] else xorBytes src (encrypt c feedback))
      else
        let plaintext = xorBytes (take (blockSize c) src) feedback;
            ciphertext = encrypt c plaintext
        in ciphertext @ ctsEncrypt c (xorBytes feedback ciphertext) (drop (blockSize c) src))"
  by pat_completeness auto
termination
  by (relation "measure (\<lambda>(c, feedback, src). length src)") auto

function ctsDecrypt :: "cipher \<Rightarrow> byte list \<Rightarrow> byte list \<Rightarrow> byte list" where
  "ctsDecrypt c feedback src =
     (if blockSize c = 0 \<or> length src < blockSize c then
        (if src = [] then [] else xorBytes src (encrypt c feedback))
      else
        let ciphertext = take (blockSize c) src;
            plaintext = decrypt c ciphertext
        in xorBytes plaintext feedback
             @ ctsDecrypt c (xorBytes feedback ciphertext) (drop (blockSize c) src))"
  by pat_completeness auto
termination
  by (relation "measure (\<lambda>(c, feedback, src). length src)") auto

declare ctsEncrypt.simps [simp del] ctsDecrypt.simps [simp del]

definition encryptCTS :: "cipher \<Rightarrow> byte list \<Rightarrow> byte list" where
  "encryptCTS c src = ctsEncrypt c (replicate (blockSize c) ivFillByte) src"

definition decryptCTS :: "cipher \<Rightarrow> byte list \<Rightarrow> byte list" where
  "decryptCTS c src = ctsDecrypt c (replicate (blockSize c) ivFillByte) src"

lemma length_xorBytes [simp]: "length (xorBytes xs ys) = min (length xs) (length ys)"
  by (simp add: xorBytes_def)

lemma xorBytes_Nil [simp]: "xorBytes [] ys = []" "xorBytes xs [] = []"
  by (simp_all add: xorBytes_def)

lemma xorBytes_twice: "length xs \<le> length ys \<Longrightarrow> xorBytes (xorBytes xs ys) ys = xs"
  by (auto intro!: nth_equalityI simp: xorBytes_def xor.assoc)

text \<open>The trailing partial block: masking is its own inverse and keeps the length.\<close>

lemma partial_mask:
  assumes "src \<noteq> []" and "length src < length stream"
  shows "xorBytes src stream \<noteq> []" and "length (xorBytes src stream) = length src"
    and "xorBytes (xorBytes src stream) stream = src"
proof -
  show len: "length (xorBytes src stream) = length src" using assms by simp
  with assms(1) show "xorBytes src stream \<noteq> []" by (metis length_0_conv)
  show "xorBytes (xorBytes src stream) stream = src" using assms by (simp add: xorBytes_twice)
qed

section \<open>What the mode needs of a block cipher\<close>

locale block_cipher =
  fixes c :: cipher
  assumes block_pos: "0 < blockSize c"
    and length_encrypt: "length x = blockSize c \<Longrightarrow> length (encrypt c x) = blockSize c"
    and length_decrypt: "length x = blockSize c \<Longrightarrow> length (decrypt c x) = blockSize c"
    and decrypt_encrypt: "length x = blockSize c \<Longrightarrow> decrypt c (encrypt c x) = x"
    and encrypt_decrypt: "length x = blockSize c \<Longrightarrow> encrypt c (decrypt c x) = x"
begin

lemma length_ctsEncrypt: "length fb = blockSize c \<Longrightarrow> length (ctsEncrypt c fb src) = length src"
proof (induction "length src" arbitrary: fb src rule: less_induct)
  case less
  then show ?case
    using block_pos by (subst ctsEncrypt.simps) (auto simp: Let_def length_encrypt)
qed

lemma length_ctsDecrypt: "length fb = blockSize c \<Longrightarrow> length (ctsDecrypt c fb src) = length src"
proof (induction "length src" arbitrary: fb src rule: less_induct)
  case less
  then show ?case
    using block_pos by (subst ctsDecrypt.simps) (auto simp: Let_def length_encrypt length_decrypt)
qed

lemma cts_decrypt_encrypt:
  "length fb = blockSize c \<Longrightarrow> ctsDecrypt c fb (ctsEncrypt c fb src) = src"
proof (induction "length src" arbitrary: fb src rule: less_induct)
  case less
  show ?case
  proof (cases "length src < blockSize c")
    case True
    moreover have "length (encrypt c fb) = blockSize c"
      using less.prems by (rule length_encrypt)
    ultimately show ?thesis
      using partial_mask [of src "encrypt c fb"]
      by (cases "src = []") (simp_all add: ctsDecrypt.simps [of c fb] ctsEncrypt.simps [of c fb])
  next
    case False
    let ?p = "xorBytes (take (blockSize c) src) fb"
    let ?ct = "encrypt c ?p"
    let ?rest = "ctsEncrypt c (xorBytes fb ?ct) (drop (blockSize c) src)"
    have p: "length ?p = blockSize c" and ct: "length ?ct = blockSize c"
      using False less.prems by (simp_all add: length_encrypt)
    have enc: "ctsEncrypt c fb src = ?ct @ ?rest"
      using False block_pos by (subst ctsEncrypt.simps) (simp add: Let_def)
    have rest: "ctsDecrypt c (xorBytes fb ?ct) ?rest = drop (blockSize c) src"
      using False block_pos less.prems ct by (intro less.hyps) auto
    have "ctsDecrypt c fb (?ct @ ?rest) = xorBytes ?p fb @ drop (blockSize c) src"
      using block_pos ct p rest by (subst ctsDecrypt.simps) (simp add: Let_def decrypt_encrypt)
    then show ?thesis
      using False less.prems by (simp add: enc xorBytes_twice)
  qed
qed

lemma cts_encrypt_decrypt:
  "length fb = blockSize c \<Longrightarrow> ctsEncrypt c fb (ctsDecrypt c fb src) = src"
proof (induction "length src" arbitrary: fb src rule: less_induct)
  case less
  show ?case
  proof (cases "length src < blockSize c")
    case True
    moreover have "length (encrypt c fb) = blockSize c"
      using less.prems by (rule length_encrypt)
    ultimately show ?thesis
      using partial_mask [of src "encrypt c fb"]
      by (cases "src = []") (simp_all add: ctsDecrypt.simps [of c fb] ctsEncrypt.simps [of c fb])
  next
    case False
    let ?ct = "take (blockSize c) src"
    let ?p = "xorBytes (decrypt c ?ct) fb"
    let ?rest = "ctsDecrypt c (xorBytes fb ?ct) (drop (blockSize c) src)"
    have ct: "length ?ct = blockSize c" and p: "length ?p = blockSize c"
      using False less.prems by (simp_all add: length_decrypt)
    have dec: "ctsDecrypt c fb src = ?p @ ?rest"
      using False block_pos by (subst ctsDecrypt.simps) (simp add: Let_def)
    have unmask: "xorBytes ?p fb = decrypt c ?ct"
      using ct less.prems by (intro xorBytes_twice) (simp add: length_decrypt)
    have rest: "ctsEncrypt c (xorBytes fb ?ct) ?rest = drop (blockSize c) src"
      using False block_pos less.prems ct by (intro less.hyps) auto
    have "ctsEncrypt c fb (?p @ ?rest) = ?ct @ drop (blockSize c) src"
      using block_pos ct p rest unmask
      by (subst ctsEncrypt.simps) (simp add: Let_def encrypt_decrypt)
    then show ?thesis
      by (simp add: dec)
  qed
qed

lemma length_encryptCTS: "length (encryptCTS c src) = length src"
  by (simp add: encryptCTS_def length_ctsEncrypt)

lemma length_decryptCTS: "length (decryptCTS c src) = length src"
  by (simp add: decryptCTS_def length_ctsDecrypt)

lemma decryptCTS_encryptCTS: "decryptCTS c (encryptCTS c src) = src"
  by (simp add: encryptCTS_def decryptCTS_def cts_decrypt_encrypt)

lemma encryptCTS_decryptCTS: "encryptCTS c (decryptCTS c src) = src"
  by (simp add: encryptCTS_def decryptCTS_def cts_encrypt_decrypt)

end

end
