(* ===== verification/Twofish.thy ===== *)
theory Twofish
  imports Cipher_Modes
begin

text \<open>
  \<open>internal/deccrypto/twofish.go\<close>: Twofish with the DEC key schedule (the odd subkeys
  are \<open>ROL (A + B shr 1, 9)\<close>). The arrays of the source are lists of the same lengths;
  the permutations \<open>q0\<close> and \<open>q1\<close> are its literal tables, the MDS table is computed as
  the source computes it. Encryption and decryption are inverse to each other for every
  key schedule, because a round only xors a function of one half into the other.
\<close>

section \<open>Tables\<close>

definition twofishBlockSize :: nat where "twofishBlockSize = 16"

definition lowByte :: "u32 \<Rightarrow> byte" where
  "lowByte v = ucast (v AND 0xFF)"

definition twofishQ0 :: "byte list" where
  "twofishQ0 = [
     0xa9, 0x67, 0xb3, 0xe8, 0x04, 0xfd, 0xa3, 0x76, 0x9a, 0x92, 0x80, 0x78, 0xe4, 0xdd, 0xd1, 0x38,
     0x0d, 0xc6, 0x35, 0x98, 0x18, 0xf7, 0xec, 0x6c, 0x43, 0x75, 0x37, 0x26, 0xfa, 0x13, 0x94, 0x48,
     0xf2, 0xd0, 0x8b, 0x30, 0x84, 0x54, 0xdf, 0x23, 0x19, 0x5b, 0x3d, 0x59, 0xf3, 0xae, 0xa2, 0x82,
     0x63, 0x01, 0x83, 0x2e, 0xd9, 0x51, 0x9b, 0x7c, 0xa6, 0xeb, 0xa5, 0xbe, 0x16, 0x0c, 0xe3, 0x61,
     0xc0, 0x8c, 0x3a, 0xf5, 0x73, 0x2c, 0x25, 0x0b, 0xbb, 0x4e, 0x89, 0x6b, 0x53, 0x6a, 0xb4, 0xf1,
     0xe1, 0xe6, 0xbd, 0x45, 0xe2, 0xf4, 0xb6, 0x66, 0xcc, 0x95, 0x03, 0x56, 0xd4, 0x1c, 0x1e, 0xd7,
     0xfb, 0xc3, 0x8e, 0xb5, 0xe9, 0xcf, 0xbf, 0xba, 0xea, 0x77, 0x39, 0xaf, 0x33, 0xc9, 0x62, 0x71,
     0x81, 0x79, 0x09, 0xad, 0x24, 0xcd, 0xf9, 0xd8, 0xe5, 0xc5, 0xb9, 0x4d, 0x44, 0x08, 0x86, 0xe7,
     0xa1, 0x1d, 0xaa, 0xed, 0x06, 0x70, 0xb2, 0xd2, 0x41, 0x7b, 0xa0, 0x11, 0x31, 0xc2, 0x27, 0x90,
     0x20, 0xf6, 0x60, 0xff, 0x96, 0x5c, 0xb1, 0xab, 0x9e, 0x9c, 0x52, 0x1b, 0x5f, 0x93, 0x0a, 0xef,
     0x91, 0x85, 0x49, 0xee, 0x2d, 0x4f, 0x8f, 0x3b, 0x47, 0x87, 0x6d, 0x46, 0xd6, 0x3e, 0x69, 0x64,
     0x2a, 0xce, 0xcb, 0x2f, 0xfc, 0x97, 0x05, 0x7a, 0xac, 0x7f, 0xd5, 0x1a, 0x4b, 0x0e, 0xa7, 0x5a,
     0x28, 0x14, 0x3f, 0x29, 0x88, 0x3c, 0x4c, 0x02, 0xb8, 0xda, 0xb0, 0x17, 0x55, 0x1f, 0x8a, 0x7d,
     0x57, 0xc7, 0x8d, 0x74, 0xb7, 0xc4, 0x9f, 0x72, 0x7e, 0x15, 0x22, 0x12, 0x58, 0x07, 0x99, 0x34,
     0x6e, 0x50, 0xde, 0x68, 0x65, 0xbc, 0xdb, 0xf8, 0xc8, 0xa8, 0x2b, 0x40, 0xdc, 0xfe, 0x32, 0xa4,
     0xca, 0x10, 0x21, 0xf0, 0xd3, 0x5d, 0x0f, 0x00, 0x6f, 0x9d, 0x36, 0x42, 0x4a, 0x5e, 0xc1, 0xe0]"

definition twofishQ1 :: "byte list" where
  "twofishQ1 = [
     0x75, 0xf3, 0xc6, 0xf4, 0xdb, 0x7b, 0xfb, 0xc8, 0x4a, 0xd3, 0xe6, 0x6b, 0x45, 0x7d, 0xe8, 0x4b,
     0xd6, 0x32, 0xd8, 0xfd, 0x37, 0x71, 0xf1, 0xe1, 0x30, 0x0f, 0xf8, 0x1b, 0x87, 0xfa, 0x06, 0x3f,
     0x5e, 0xba, 0xae, 0x5b, 0x8a, 0x00, 0xbc, 0x9d, 0x6d, 0xc1, 0xb1, 0x0e, 0x80, 0x5d, 0xd2, 0xd5,
     0xa0, 0x84, 0x07, 0x14, 0xb5, 0x90, 0x2c, 0xa3, 0xb2, 0x73, 0x4c, 0x54, 0x92, 0x74, 0x36, 0x51,
     0x38, 0xb0, 0xbd, 0x5a, 0xfc, 0x60, 0x62, 0x96, 0x6c, 0x42, 0xf7, 0x10, 0x7c, 0x28, 0x27, 0x8c,
     0x13, 0x95, 0x9c, 0xc7, 0x24, 0x46, 0x3b, 0x70, 0xca, 0xe3, 0x85, 0xcb, 0x11, 0xd0, 0x93, 0xb8,
     0xa6, 0x83, 0x20, 0xff, 0x9f, 0x77, 0xc3, 0xcc, 0x03, 0x6f, 0x08, 0xbf, 0x40, 0xe7, 0x2b, 0xe2,
     0x79, 0x0c, 0xaa, 0x82, 0x41, 0x3a, 0xea, 0xb9, 0xe4, 0x9a, 0xa4, 0x97, 0x7e, 0xda, 0x7a, 0x17,
     0x66, 0x94, 0xa1, 0x1d, 0x3d, 0xf0, 0xde, 0xb3, 0x0b, 0x72, 0xa7, 0x1c, 0xef, 0xd1, 0x53, 0x3e,
     0x8f, 0x33, 0x26, 0x5f, 0xec, 0x76, 0x2a, 0x49, 0x81, 0x88, 0xee, 0x21, 0xc4, 0x1a, 0xeb, 0xd9,
     0xc5, 0x39, 0x99, 0xcd, 0xad, 0x31, 0x8b, 0x01, 0x18, 0x23, 0xdd, 0x1f, 0x4e, 0x2d, 0xf9, 0x48,
     0x4f, 0xf2, 0x65, 0x8e, 0x78, 0x5c, 0x58, 0x19, 0x8d, 0xe5, 0x98, 0x57, 0x67, 0x7f, 0x05, 0x64,
     0xaf, 0x63, 0xb6, 0xfe, 0xf5, 0xb7, 0x3c, 0xa5, 0xce, 0xe9, 0x68, 0x44, 0xe0, 0x4d, 0x43, 0x69,
     0x29, 0x2e, 0xac, 0x15, 0x59, 0xa8, 0x0a, 0x9e, 0x6e, 0x47, 0xdf, 0x34, 0x35, 0x6a, 0xcf, 0xdc,
     0x22, 0xc9, 0xc0, 0x9b, 0x89, 0xd4, 0xed, 0xab, 0x12, 0xa2, 0x0d, 0x52, 0xbb, 0x02, 0x2f, 0xa9,
     0xd7, 0x61, 0x1e, 0xb4, 0x50, 0x04, 0xf6, 0xc2, 0x16, 0x25, 0x86, 0x56, 0x55, 0x09, 0xbe, 0x91]"

definition twofishQ :: "nat \<Rightarrow> byte \<Rightarrow> byte" where
  "twofishQ i x = [twofishQ0, twofishQ1] ! i ! unat x"

definition twofishMDSPolynomial :: u32 where "twofishMDSPolynomial = 0x169"

definition twofishRSPolynomial :: u32 where "twofishRSPolynomial = 0x14d"

text \<open>One step of the loop: the state is \<open>(a, bv[1], result)\<close>.\<close>

definition twofishGFStep :: "u32 \<Rightarrow> byte \<times> u32 \<times> u32 \<Rightarrow> byte \<times> u32 \<times> u32" where
  "twofishGFStep p = (\<lambda>(a, bv1, result).
     (drop_bit 1 a, (if drop_bit 7 bv1 = 0 then 0 else p) XOR push_bit 1 bv1,
      result XOR (if a AND 1 = 0 then 0 else bv1)))"

definition twofishGFMult :: "byte \<Rightarrow> byte \<Rightarrow> u32 \<Rightarrow> byte" where
  "twofishGFMult a b p =
     (case (twofishGFStep p ^^ 7) (a, ucast b, 0) of
        (a', bv1, result) \<Rightarrow> lowByte (result XOR (if a' AND 1 = 0 then 0 else bv1)))"

definition word4 :: "byte \<Rightarrow> byte \<Rightarrow> byte \<Rightarrow> byte \<Rightarrow> u32" where
  "word4 a b c d =
     ucast a OR push_bit 8 (ucast b) OR push_bit 16 (ucast c) OR push_bit 24 (ucast d)"

definition twofishMDSColumn :: "byte \<Rightarrow> nat \<Rightarrow> u32" where
  "twofishMDSColumn x col =
     (let mul01 = x;
          mul5B = twofishGFMult x 0x5B twofishMDSPolynomial;
          mulEF = twofishGFMult x 0xEF twofishMDSPolynomial
      in if col = 0 then word4 mul01 mul5B mulEF mulEF
         else if col = 1 then word4 mulEF mulEF mul5B mul01
         else if col = 2 then word4 mul5B mulEF mul01 mulEF
         else word4 mul5B mul01 mulEF mul5B)"

definition twofishMDS :: "u32 list list" where
  "twofishMDS = map (\<lambda>col. map (\<lambda>z. twofishMDSColumn (twofishQ ([1, 0, 1, 0] ! col) (word_of_nat z)) col)
     [0..<256]) [0..<4]"

section \<open>Key schedule\<close>

definition twofishRSStep :: "u32 \<Rightarrow> u32" where
  "twofishRSStep r =
     (let b = drop_bit 24 r;
          g2 = (if b AND 0x80 \<noteq> 0 then (push_bit 1 b XOR twofishRSPolynomial) AND 0xFF
                else push_bit 1 b AND 0xFF);
          g3 = (if b AND 1 \<noteq> 0
                then ((drop_bit 1 b AND 0x7F) XOR drop_bit 1 twofishRSPolynomial) XOR g2
                else (drop_bit 1 b AND 0x7F) XOR g2)
      in push_bit 8 r XOR push_bit 24 g3 XOR push_bit 16 g2 XOR push_bit 8 g3 XOR b)"

definition twofishRS :: "u32 \<Rightarrow> u32 \<Rightarrow> u32" where
  "twofishRS k0 k1 = (twofishRSStep ^^ 4) ((twofishRSStep ^^ 4) (0 XOR k1) XOR k0)"

definition twofishF32 :: "u32 \<Rightarrow> u32 list \<Rightarrow> nat \<Rightarrow> u32" where
  "twofishF32 x k keyLen =
     (let a0 = lowByte x; b0 = lowByte (drop_bit 8 x);
          c0 = lowByte (drop_bit 16 x); d0 = lowByte (drop_bit 24 x);
          layer = (\<lambda>w (qa, qb, qc, qd) (a, b, c, d).
             (twofishQ qa a XOR lowByte w, twofishQ qb b XOR lowByte (drop_bit 8 w),
              twofishQ qc c XOR lowByte (drop_bit 16 w), twofishQ qd d XOR lowByte (drop_bit 24 w)));
          s0 = (a0, b0, c0, d0);
          s1 = (if keyLen = 32
                then layer (k ! 2) (1, 1, 0, 0) (layer (k ! 3) (1, 0, 0, 1) s0)
                else s0)
      in case layer (k ! 0) (0, 0, 1, 1) (layer (k ! 1) (0, 1, 0, 1) s1) of
           (a, b, c, d) \<Rightarrow>
             twofishMDS ! 0 ! unat a XOR twofishMDS ! 1 ! unat b
             XOR twofishMDS ! 2 ! unat c XOR twofishMDS ! 3 ! unat d)"

record twofishCipher =
  subKey :: "u32 list"
  box :: "u32 list list"

definition xorTable :: "byte list \<Rightarrow> u32 \<Rightarrow> byte list" where
  "xorTable src value = map (\<lambda>s. s XOR lowByte value) src"

definition setupBox128 :: "u32 list \<Rightarrow> u32 list list" where
  "setupBox128 boxKey = map (\<lambda>col.
     let (src, outer) = [(0, 0), (1, 0), (0, 1), (1, 1)] ! col;
         l = xorTable ([twofishQ0, twofishQ1] ! src) (drop_bit (8 * col) (boxKey ! 1));
         a = lowByte (drop_bit (8 * col) (boxKey ! 0))
     in map (\<lambda>i. twofishMDS ! col ! unat (twofishQ outer (l ! i) XOR a)) [0..<256]) [0..<4]"

definition setupBox256 :: "u32 list \<Rightarrow> u32 list list" where
  "setupBox256 boxKey = map (\<lambda>col.
     let (first, second, third, outer) =
           [(1, 1, 0, 0), (0, 1, 1, 0), (0, 0, 0, 1), (1, 0, 1, 1)] ! col;
         shift = 8 * col;
         k = xorTable ([twofishQ0, twofishQ1] ! first) (drop_bit shift (boxKey ! 3));
         l = xorTable (map (\<lambda>i. twofishQ second (k ! i)) [0..<256]) (drop_bit shift (boxKey ! 2));
         a = lowByte (drop_bit shift (boxKey ! 0));
         b = lowByte (drop_bit shift (boxKey ! 1))
     in map (\<lambda>i. twofishMDS ! col ! unat (twofishQ outer (twofishQ third (l ! i) XOR b) XOR a))
          [0..<256]) [0..<4]"

text \<open>Words of the key beyond its length are the zeros of the Go array.\<close>

definition keyWord :: "byte list \<Rightarrow> nat \<Rightarrow> u32" where
  "keyWord key i = (if i < length key div 4 then getU32 key (4 * i) else 0)"

definition newTwofishSchedule :: "byte list \<Rightarrow> twofishCipher" where
  "newTwofishSchedule key =
     (let pairs = length key div 8;
          even = map (\<lambda>i. if i < pairs then keyWord key (2 * i) else 0) [0..<4];
          odd = map (\<lambda>i. if i < pairs then keyWord key (2 * i + 1) else 0) [0..<4];
          boxKey = map (\<lambda>j. if j < pairs then twofishRS (even ! (pairs - 1 - j)) (odd ! (pairs - 1 - j))
                            else 0) [0..<4];
          pair = (\<lambda>i. let x = word_of_nat i * 0x02020202;
                          a = twofishF32 x even (length key);
                          b = word_rotl 8 (twofishF32 (x + 0x01010101) odd (length key))
                      in [a + b, word_rotl 9 (a + drop_bit 1 b)])
      in \<lparr>subKey = concat (map pair [0..<20]),
          box = (if length key = 16 then setupBox128 boxKey else setupBox256 boxKey)\<rparr>)"

section \<open>Rounds\<close>

definition twofishG :: "twofishCipher \<Rightarrow> u32 \<Rightarrow> u32" where
  "twofishG c x = box c ! 0 ! unat (lowByte x) XOR box c ! 1 ! unat (lowByte (drop_bit 8 x))
     XOR box c ! 2 ! unat (lowByte (drop_bit 16 x)) XOR box c ! 3 ! unat (lowByte (drop_bit 24 x))"

definition twofishGRot :: "twofishCipher \<Rightarrow> u32 \<Rightarrow> u32" where
  "twofishGRot c x = box c ! 1 ! unat (lowByte x) XOR box c ! 2 ! unat (lowByte (drop_bit 8 x))
     XOR box c ! 3 ! unat (lowByte (drop_bit 16 x)) XOR box c ! 0 ! unat (lowByte (drop_bit 24 x))"

definition loadWordsLE :: "byte list \<Rightarrow> u32 \<times> u32 \<times> u32 \<times> u32" where
  "loadWordsLE src = (getU32 src 0, getU32 src 4, getU32 src 8, getU32 src 12)"

definition storeWordsLE :: "u32 \<times> u32 \<times> u32 \<times> u32 \<Rightarrow> byte list" where
  "storeWordsLE = (\<lambda>(w0, w1, w2, w3). leU32 w0 @ leU32 w1 @ leU32 w2 @ leU32 w3)"

text \<open>One iteration of each loop, over the words \<open>(a, b, d0, e)\<close> and the four subkeys from
  \<open>base\<close> on.\<close>

definition twofishRound ::
    "twofishCipher \<Rightarrow> nat \<Rightarrow> u32 \<times> u32 \<times> u32 \<times> u32 \<Rightarrow> u32 \<times> u32 \<times> u32 \<times> u32" where
  "twofishRound c base = (\<lambda>(a, b, d0, e).
     let x = twofishG c a; y = twofishGRot c b;
         e1 = word_rotl 1 e;
         d1 = d0 XOR (x + y + subKey c ! base);
         e2 = e1 XOR (x + push_bit 1 y + subKey c ! (base + 1));
         d2 = word_rotr 1 d1;
         x' = twofishG c d2; y' = twofishGRot c e2;
         b1 = word_rotl 1 b;
         a1 = a XOR (x' + y' + subKey c ! (base + 2));
         b2 = b1 XOR (x' + push_bit 1 y' + subKey c ! (base + 3));
         a2 = word_rotr 1 a1
     in (a2, b2, d2, e2))"

definition twofishUnround ::
    "twofishCipher \<Rightarrow> nat \<Rightarrow> u32 \<times> u32 \<times> u32 \<times> u32 \<Rightarrow> u32 \<times> u32 \<times> u32 \<times> u32" where
  "twofishUnround c base = (\<lambda>(a, b, d0, e).
     let x = twofishG c d0; y = twofishGRot c e;
         a1 = word_rotl 1 a;
         b1 = b XOR (x + push_bit 1 y + subKey c ! (base + 3));
         a2 = a1 XOR (x + y + subKey c ! (base + 2));
         b2 = word_rotr 1 b1;
         x' = twofishG c a2; y' = twofishGRot c b2;
         d1 = word_rotl 1 d0;
         e1 = e XOR (x' + push_bit 1 y' + subKey c ! (base + 1));
         d2 = d1 XOR (x' + y' + subKey c ! base);
         e2 = word_rotr 1 e1
     in (a2, b2, d2, e2))"

definition twofishEncrypt :: "twofishCipher \<Rightarrow> byte list \<Rightarrow> byte list" where
  "twofishEncrypt c src =
     (case loadWordsLE src of (w0, w1, w2, w3) \<Rightarrow>
      case fold (\<lambda>r. twofishRound c (8 + 4 * r)) [0..<8]
             (w0 XOR subKey c ! 0, w1 XOR subKey c ! 1, w2 XOR subKey c ! 2, w3 XOR subKey c ! 3) of
        (a, b, d0, e) \<Rightarrow>
          storeWordsLE (d0 XOR subKey c ! 4, e XOR subKey c ! 5, a XOR subKey c ! 6, b XOR subKey c ! 7))"

definition twofishDecrypt :: "twofishCipher \<Rightarrow> byte list \<Rightarrow> byte list" where
  "twofishDecrypt c src =
     (case loadWordsLE src of (w0, w1, w2, w3) \<Rightarrow>
      case fold (\<lambda>r. twofishUnround c (36 - 4 * r)) [0..<8]
             (w2 XOR subKey c ! 6, w3 XOR subKey c ! 7, w0 XOR subKey c ! 4, w1 XOR subKey c ! 5) of
        (a, b, d0, e) \<Rightarrow>
          storeWordsLE (a XOR subKey c ! 0, b XOR subKey c ! 1, d0 XOR subKey c ! 2, e XOR subKey c ! 3))"

definition twofishBlock :: "twofishCipher \<Rightarrow> cipher" where
  "twofishBlock c = \<lparr>blockSize = twofishBlockSize, encrypt = twofishEncrypt c, decrypt = twofishDecrypt c\<rparr>"

definition newTwofish :: "byte list \<Rightarrow> cipher result" where
  "newTwofish key =
     (if length key \<noteq> 16 \<and> length key \<noteq> 32 then Inl ErrCipherKeySize
      else Inr (twofishBlock (newTwofishSchedule key)))"

section \<open>Inverse\<close>

lemma xor_twice [simp]: "((x :: 'a::len word) XOR y) XOR y = x"
  by (simp add: xor.assoc)

lemma twofishUnround_round: "twofishUnround c base (twofishRound c base s) = s"
  by (cases s) (simp add: twofishUnround_def twofishRound_def Let_def)

lemma twofishRound_unround: "twofishRound c base (twofishUnround c base s) = s"
  by (cases s) (simp add: twofishUnround_def twofishRound_def Let_def)

lemma upt_8: "[0..<8] = [0, 1, 2, 3, 4, 5, 6, 7 :: nat]"
  by (simp add: upt_rec)

lemma load_store [simp]: "loadWordsLE (storeWordsLE w) = w"
  by (cases w) (simp add: loadWordsLE_def storeWordsLE_def get_append)

lemma store_load [simp]: "length src = 16 \<Longrightarrow> storeWordsLE (loadWordsLE src) = src"
  by (simp add: loadWordsLE_def storeWordsLE_def slc_join)

lemma twofishDecrypt_encrypt:
  assumes "length src = 16"
  shows "twofishDecrypt c (twofishEncrypt c src) = src"
proof -
  obtain w0 w1 w2 w3 where w: "loadWordsLE src = (w0, w1, w2, w3)" by (metis prod_cases4)
  obtain a b d e where r: "fold (\<lambda>r. twofishRound c (8 + 4 * r)) [0..<8]
      (w0 XOR subKey c ! 0, w1 XOR subKey c ! 1, w2 XOR subKey c ! 2, w3 XOR subKey c ! 3) = (a, b, d, e)"
    by (metis prod_cases4)
  have "fold (\<lambda>r. twofishUnround c (36 - 4 * r)) [0..<8] (a, b, d, e)
      = (w0 XOR subKey c ! 0, w1 XOR subKey c ! 1, w2 XOR subKey c ! 2, w3 XOR subKey c ! 3)"
    by (simp add: r [symmetric] upt_8 twofishUnround_round)
  then show ?thesis
    using assms
    by (simp only: twofishEncrypt_def twofishDecrypt_def w r load_store prod.case xor_twice)
      (simp flip: w)
qed

lemma twofishEncrypt_decrypt:
  assumes "length src = 16"
  shows "twofishEncrypt c (twofishDecrypt c src) = src"
proof -
  obtain w0 w1 w2 w3 where w: "loadWordsLE src = (w0, w1, w2, w3)" by (metis prod_cases4)
  obtain a b d e where r: "fold (\<lambda>r. twofishUnround c (36 - 4 * r)) [0..<8]
      (w2 XOR subKey c ! 6, w3 XOR subKey c ! 7, w0 XOR subKey c ! 4, w1 XOR subKey c ! 5) = (a, b, d, e)"
    by (metis prod_cases4)
  have "fold (\<lambda>r. twofishRound c (8 + 4 * r)) [0..<8] (a, b, d, e)
      = (w2 XOR subKey c ! 6, w3 XOR subKey c ! 7, w0 XOR subKey c ! 4, w1 XOR subKey c ! 5)"
    by (simp add: r [symmetric] upt_8 twofishRound_unround)
  then show ?thesis
    using assms
    by (simp only: twofishEncrypt_def twofishDecrypt_def w r load_store prod.case xor_twice)
      (simp flip: w)
qed

lemma length_storeWordsLE [simp]: "length (storeWordsLE w) = 16"
  by (cases w) (simp add: storeWordsLE_def)

lemma length_twofish [simp]:
  "length (twofishEncrypt c src) = 16" "length (twofishDecrypt c src) = 16"
  by (simp_all add: twofishEncrypt_def twofishDecrypt_def split: prod.splits)

interpretation twofish: block_cipher "twofishBlock c" for c
  by unfold_locales
    (simp_all add: twofishBlock_def twofishBlockSize_def twofishDecrypt_encrypt twofishEncrypt_decrypt)

end
