(* ===== verification/Square.thy ===== *)
theory Square
  imports Twofish
begin

text \<open>
  \<open>internal/deccrypto/square.go\<close>: the Square cipher. The tables are computed as the
  source computes them, including the inverse of the diffusion matrix by Gauss-Jordan
  elimination over GF(2^8). \<open>loadWordsLE\<close>, \<open>storeWordsLE\<close> and \<open>lowByte\<close> are the
  ones of the Twofish theory, as in the package.
\<close>

definition squareBlockSize :: nat where "squareBlockSize = 16"
definition squareKeySize :: nat where "squareKeySize = 16"
definition squarePolynomial :: u32 where "squarePolynomial = 0x1F5"
definition squareRounds :: nat where "squareRounds = 7"

definition squareSE :: "byte list" where
  "squareSE = [
     0xb1, 0xce, 0xc3, 0x95, 0x5a, 0xad, 0xe7, 0x02, 0x4d, 0x44, 0xfb, 0x91, 0x0c, 0x87, 0xa1, 0x50,
     0xcb, 0x67, 0x54, 0xdd, 0x46, 0x8f, 0xe1, 0x4e, 0xf0, 0xfd, 0xfc, 0xeb, 0xf9, 0xc4, 0x1a, 0x6e,
     0x5e, 0xf5, 0xcc, 0x8d, 0x1c, 0x56, 0x43, 0xfe, 0x07, 0x61, 0xf8, 0x75, 0x59, 0xff, 0x03, 0x22,
     0x8a, 0xd1, 0x13, 0xee, 0x88, 0x00, 0x0e, 0x34, 0x15, 0x80, 0x94, 0xe3, 0xed, 0xb5, 0x53, 0x23,
     0x4b, 0x47, 0x17, 0xa7, 0x90, 0x35, 0xab, 0xd8, 0xb8, 0xdf, 0x4f, 0x57, 0x9a, 0x92, 0xdb, 0x1b,
     0x3c, 0xc8, 0x99, 0x04, 0x8e, 0xe0, 0xd7, 0x7d, 0x85, 0xbb, 0x40, 0x2c, 0x3a, 0x45, 0xf1, 0x42,
     0x65, 0x20, 0x41, 0x18, 0x72, 0x25, 0x93, 0x70, 0x36, 0x05, 0xf2, 0x0b, 0xa3, 0x79, 0xec, 0x08,
     0x27, 0x31, 0x32, 0xb6, 0x7c, 0xb0, 0x0a, 0x73, 0x5b, 0x7b, 0xb7, 0x81, 0xd2, 0x0d, 0x6a, 0x26,
     0x9e, 0x58, 0x9c, 0x83, 0x74, 0xb3, 0xac, 0x30, 0x7a, 0x69, 0x77, 0x0f, 0xae, 0x21, 0xde, 0xd0,
     0x2e, 0x97, 0x10, 0xa4, 0x98, 0xa8, 0xd4, 0x68, 0x2d, 0x62, 0x29, 0x6d, 0x16, 0x49, 0x76, 0xc7,
     0xe8, 0xc1, 0x96, 0x37, 0xe5, 0xca, 0xf4, 0xe9, 0x63, 0x12, 0xc2, 0xa6, 0x14, 0xbc, 0xd3, 0x28,
     0xaf, 0x2f, 0xe6, 0x24, 0x52, 0xc6, 0xa0, 0x09, 0xbd, 0x8c, 0xcf, 0x5d, 0x11, 0x5f, 0x01, 0xc5,
     0x9f, 0x3d, 0xa2, 0x9b, 0xc9, 0x3b, 0xbe, 0x51, 0x19, 0x1f, 0x3f, 0x5c, 0xb2, 0xef, 0x4a, 0xcd,
     0xbf, 0xba, 0x6f, 0x64, 0xd9, 0xf3, 0x3e, 0xb4, 0xaa, 0xdc, 0xd5, 0x06, 0xc0, 0x7e, 0xf6, 0x66,
     0x6c, 0x84, 0x71, 0x38, 0xb9, 0x1d, 0x7f, 0x9d, 0x48, 0x8b, 0x2a, 0xda, 0xa5, 0x33, 0x82, 0x39,
     0xd6, 0x78, 0x86, 0xfa, 0xe4, 0x2b, 0xa9, 0x1e, 0x89, 0x60, 0x6b, 0xea, 0x55, 0x4c, 0xf7, 0xe2]"

definition squareDiffusion :: "byte list" where
  "squareDiffusion = [2, 1, 1, 3]"

text \<open>One iteration of the shift-and-add loop; the state is \<open>(product, x)\<close>.\<close>

definition squareGFStep :: "byte \<Rightarrow> nat \<Rightarrow> u32 \<times> u32 \<Rightarrow> u32 \<times> u32" where
  "squareGFStep b shift = (\<lambda>(product, x).
     (if drop_bit shift b AND 1 \<noteq> 0 then product XOR x else product,
      let x' = push_bit 1 x in if x' AND 0x100 \<noteq> 0 then x' XOR squarePolynomial else x'))"

definition squareGFMult :: "byte \<Rightarrow> byte \<Rightarrow> byte" where
  "squareGFMult a b = lowByte (fst (fold (squareGFStep b) [0..<8] (0, ucast a)))"

definition squareGFInverse :: "byte \<Rightarrow> byte" where
  "squareGFInverse a =
     (case find (\<lambda>c. squareGFMult a c = 1) (map word_of_nat [0..<256]) of
        None \<Rightarrow> 0 | Some c \<Rightarrow> c)"

text \<open>The augmented matrix, one column of the elimination, and the first row of the inverse.\<close>

definition squareAugmented :: "byte list list" where
  "squareAugmented = map (\<lambda>i. map (\<lambda>j. squareDiffusion ! ((j + 4 - i) mod 4)) [0..<4]
     @ map (\<lambda>j. if j = i then 1 else 0) [0..<4]) [0..<4]"

definition squareEliminate :: "nat \<Rightarrow> byte list list \<Rightarrow> byte list list option" where
  "squareEliminate col aug =
     (case find (\<lambda>r. aug ! r ! col \<noteq> 0) [col..<4] of
        None \<Rightarrow> None
      | Some pivot \<Rightarrow>
          let swapped = aug[col := aug ! pivot, pivot := aug ! col];
              scale = squareGFInverse (swapped ! col ! col);
              row = map (\<lambda>x. squareGFMult x scale) (swapped ! col);
              scaled = swapped[col := row]
          in Some (map (\<lambda>r. if r = col \<or> scaled ! r ! col = 0 then scaled ! r
                            else map2 (\<lambda>x y. x XOR squareGFMult (scaled ! r ! col) y) (scaled ! r) row)
                     [0..<4]))"

definition squareInverseDiffusion :: "byte list" where
  "squareInverseDiffusion =
     (case fold (\<lambda>col m. Option.bind m (squareEliminate col)) [0..<4] (Some squareAugmented) of
        None \<Rightarrow> replicate 4 0
      | Some aug \<Rightarrow> take 4 (drop 4 (aug ! 0)))"

definition squareColumn :: "byte \<Rightarrow> byte list \<Rightarrow> u32" where
  "squareColumn v coeffs =
     fold (\<lambda>i w. w OR push_bit (8 * i) (ucast (squareGFMult v (coeffs ! i)))) [0..<length coeffs] 0"

definition buildSquareSD :: "byte list" where
  "buildSquareSD = fold (\<lambda>i table. table[unat (squareSE ! i) := word_of_nat i]) [0..<256] (replicate 256 0)"

definition buildSquarePHI :: "u32 list" where
  "buildSquarePHI = map (\<lambda>x. squareColumn (word_of_nat x) squareDiffusion) [0..<256]"

definition buildSquareTable :: "byte list \<Rightarrow> byte list \<Rightarrow> u32 list list" where
  "buildSquareTable sbox coeffs =
     map (\<lambda>j. map (\<lambda>s. word_rotl (8 * j) (squareColumn s coeffs)) sbox) [0..<4]"

definition squarePhiTransform :: "u32 \<Rightarrow> u32" where
  "squarePhiTransform v =
     buildSquarePHI ! unat (lowByte v)
     XOR word_rotl 8 (buildSquarePHI ! unat (lowByte (drop_bit 8 v)))
     XOR word_rotl 16 (buildSquarePHI ! unat (lowByte (drop_bit 16 v)))
     XOR word_rotl 24 (buildSquarePHI ! unat (lowByte (drop_bit 24 v)))"

type_synonym words4 = "u32 \<times> u32 \<times> u32 \<times> u32"

fun map4 :: "(u32 \<Rightarrow> u32) \<Rightarrow> words4 \<Rightarrow> words4" where
  "map4 f (a, b, c, d) = (f a, f b, f c, f d)"

text \<open>Step \<open>t\<close> of the schedule: the new round key goes into both schedules, the previous
  encryption key is diffused in place.\<close>

definition squareKeyStep :: "nat \<Rightarrow> words4 list \<times> words4 list \<Rightarrow> words4 list \<times> words4 list" where
  "squareKeyStep t = (\<lambda>(enc, dec).
     case enc ! (t - 1) of (p0, p1, p2, p3) \<Rightarrow>
       let e0 = p0 XOR word_rotr 8 p3 XOR push_bit (t - 1) 1;
           e1 = p1 XOR e0; e2 = p2 XOR e1; e3 = p3 XOR e2
       in (enc[t := (e0, e1, e2, e3), t - 1 := map4 squarePhiTransform (p0, p1, p2, p3)],
           dec[8 - t := (e0, e1, e2, e3)]))"

definition squareSchedule :: "byte list \<Rightarrow> words4 list \<times> words4 list" where
  "squareSchedule key =
     (case fold squareKeyStep [1..<9]
             ((replicate 9 (0, 0, 0, 0))[0 := loadWordsLE key], replicate 9 (0, 0, 0, 0)) of
        (enc, dec) \<Rightarrow> (enc, dec[8 := enc ! 0]))"

definition squareRound :: "u32 list list \<Rightarrow> words4 \<Rightarrow> words4 \<Rightarrow> words4" where
  "squareRound table k w =
     (case (w, k) of ((a, b, c, d), (k0, k1, k2, k3)) \<Rightarrow>
        let out = (\<lambda>shift. table ! 0 ! unat (lowByte (drop_bit shift a))
              XOR table ! 1 ! unat (lowByte (drop_bit shift b))
              XOR table ! 2 ! unat (lowByte (drop_bit shift c))
              XOR table ! 3 ! unat (lowByte (drop_bit shift d)))
        in (out 0 XOR k0, out 8 XOR k1, out 16 XOR k2, out 24 XOR k3))"

definition squareTransform :: "words4 list \<Rightarrow> u32 list list \<Rightarrow> byte list \<Rightarrow> byte list \<Rightarrow> byte list" where
  "squareTransform keys table sbox src =
     (case (loadWordsLE src, keys ! 0) of ((w0, w1, w2, w3), (k0, k1, k2, k3)) \<Rightarrow>
      case (fold (\<lambda>r. squareRound table (keys ! r)) [1..<squareRounds + 1]
              (w0 XOR k0, w1 XOR k1, w2 XOR k2, w3 XOR k3), keys ! 8) of
        ((a, b, c, d), (l0, l1, l2, l3)) \<Rightarrow>
          let out = (\<lambda>shift. ucast (sbox ! unat (lowByte (drop_bit shift a)))
                XOR push_bit 8 (ucast (sbox ! unat (lowByte (drop_bit shift b))))
                XOR push_bit 16 (ucast (sbox ! unat (lowByte (drop_bit shift c))))
                XOR push_bit 24 (ucast (sbox ! unat (lowByte (drop_bit shift d)))))
          in storeWordsLE (out 0 XOR l0, out 8 XOR l1, out 16 XOR l2, out 24 XOR l3))"

definition newSquare :: "byte list \<Rightarrow> cipher result" where
  "newSquare key =
     (if length key \<noteq> squareKeySize then Inl ErrCipherKeySize
      else case squareSchedule key of (enc, dec) \<Rightarrow>
        Inr \<lparr>blockSize = squareBlockSize,
             encrypt = squareTransform enc (buildSquareTable squareSE squareDiffusion) squareSE,
             decrypt = squareTransform dec (buildSquareTable buildSquareSD squareInverseDiffusion)
                         buildSquareSD\<rparr>)"

lemma length_squareTransform [simp]: "length (squareTransform keys table sbox src) = 16"
  by (simp add: squareTransform_def Let_def split: prod.splits)

end
