(* ===== verification/Rijndael.thy ===== *)
theory Rijndael
  imports Square
begin

text \<open>
  \<open>internal/deccrypto/rijndael.go\<close> and \<open>tdes.go\<close>: DEC's Rijndael with its own 256-bit
  key schedule, and the 24-byte-block Triple DES, which runs each stage of three DES
  ciphers over three sub-blocks. Single DES is \<open>crypto/des\<close>: a cipher handed in.
\<close>

section \<open>Rijndael\<close>

definition rijndaelBlockSize :: nat where "rijndaelBlockSize = 16"
definition rijndaelMaxRounds :: nat where "rijndaelMaxRounds = 14"
definition rijndaelPolynomial :: u32 where "rijndaelPolynomial = 0x11B"

definition rijndaelRcon :: "byte list" where
  "rijndaelRcon = [
    0x01, 0x02, 0x04, 0x08, 0x10, 0x20, 0x40, 0x80, 0x1B, 0x36,
    0x6C, 0xD8, 0xAB, 0x4D, 0x9A, 0x2F, 0x5E, 0xBC, 0x63, 0xC6,
    0x97, 0x35, 0x6A, 0xD4, 0xB3, 0x7D, 0xFA, 0xEF, 0xC5, 0x91]"

definition rijndaelMixColumn :: "byte list" where "rijndaelMixColumn = [2, 1, 1, 3]"
definition rijndaelInvMixColumn :: "byte list" where "rijndaelInvMixColumn = [14, 9, 13, 11]"

definition rijndaelGFStep :: "byte \<Rightarrow> nat \<Rightarrow> u32 \<times> u32 \<Rightarrow> u32 \<times> u32" where
  "rijndaelGFStep b shift = (\<lambda>(product, x).
     (if drop_bit shift b AND 1 \<noteq> 0 then product XOR x else product,
      let x' = push_bit 1 x in if x' AND 0x100 \<noteq> 0 then x' XOR rijndaelPolynomial else x'))"

definition rijndaelGFMult :: "byte \<Rightarrow> byte \<Rightarrow> byte" where
  "rijndaelGFMult a b = lowByte (fst (fold (rijndaelGFStep b) [0..<8] (0, ucast a)))"

definition rijndaelColumn :: "byte \<Rightarrow> byte list \<Rightarrow> u32" where
  "rijndaelColumn v coeffs =
     fold (\<lambda>i w. w OR push_bit (8 * i) (ucast (rijndaelGFMult v (coeffs ! i)))) [0..<length coeffs] 0"

definition rijndaelGFInverse :: "byte \<Rightarrow> byte" where
  "rijndaelGFInverse a =
     (case find (\<lambda>c. rijndaelGFMult a c = 1) (map word_of_nat [0..<256]) of
        None \<Rightarrow> 0 | Some c \<Rightarrow> c)"

definition buildRijndaelSE :: "byte list" where
  "buildRijndaelSE = map (\<lambda>x.
     let s = ucast (rijndaelGFInverse (word_of_nat x)) :: u32;
         b = fold (\<lambda>shift b. b XOR (push_bit shift s OR drop_bit (8 - shift) s)) [1..<5] s
     in lowByte b XOR 0x63) [0..<256]"

definition buildRijndaelSD :: "byte list" where
  "buildRijndaelSD =
     fold (\<lambda>i table. table[unat (buildRijndaelSE ! i) := word_of_nat i]) [0..<256] (replicate 256 0)"

definition buildRijndaelTable :: "byte list \<Rightarrow> byte list \<Rightarrow> u32 list list" where
  "buildRijndaelTable sbox coeffs =
     map (\<lambda>j. map (\<lambda>s. word_rotl (8 * j) (rijndaelColumn s coeffs)) sbox) [0..<4]"

definition buildRijndaelKeyTable :: "u32 list" where
  "buildRijndaelKeyTable = map (\<lambda>x. rijndaelColumn (word_of_nat x) rijndaelInvMixColumn) [0..<256]"

definition rijndaelRoundCount :: "nat \<Rightarrow> nat result" where
  "rijndaelRoundCount keyLen =
     (if keyLen = 16 then Inr 10 else if keyLen = 24 then Inr 12
      else if keyLen = 32 then Inr 14 else Inl ErrCipherKeySize)"

definition rijndaelSubWord :: "u32 \<Rightarrow> u32" where
  "rijndaelSubWord w = word4 (buildRijndaelSE ! unat (lowByte w))
     (buildRijndaelSE ! unat (lowByte (drop_bit 8 w)))
     (buildRijndaelSE ! unat (lowByte (drop_bit 16 w)))
     (buildRijndaelSE ! unat (lowByte (drop_bit 24 w)))"

definition rijndaelChain :: "nat list \<Rightarrow> u32 list \<Rightarrow> u32 list" where
  "rijndaelChain is k = fold (\<lambda>i k. k[i := k ! i XOR k ! (i - 1)]) is k"

text \<open>The body of the expansion loop up to \<open>emit\<close>.\<close>

definition rijndaelKeyStep :: "nat \<Rightarrow> nat \<Rightarrow> u32 list \<Rightarrow> u32 list" where
  "rijndaelKeyStep rounds step k =
     (let nk = rounds - 6;
          k0 = k[0 := k ! 0 XOR (rijndaelSubWord (word_rotr 8 (k ! (nk - 1)))
                                 XOR ucast (rijndaelRcon ! step))]
      in if rounds = rijndaelMaxRounds then
           let k1 = rijndaelChain [1..<8] k0;
               k2 = k1[4 := k1 ! 4 XOR rijndaelSubWord (k1 ! 3)]
           in rijndaelChain [5..<8] k2
         else rijndaelChain [1..<nk] k0)"

text \<open>The loop emits \<open>nk\<close> words per step until \<open>want\<close> are there; the fuel is \<open>want\<close>
  steps, each of which adds a word because \<open>nk\<close> is at least four.\<close>

fun rijndaelExpand :: "nat \<Rightarrow> nat \<Rightarrow> nat \<Rightarrow> nat \<Rightarrow> u32 list \<Rightarrow> u32 list \<Rightarrow> u32 list" where
  "rijndaelExpand 0 rounds want step k expanded = expanded"
| "rijndaelExpand (Suc fuel) rounds want step k expanded =
     (if length expanded < want then
        let k' = rijndaelKeyStep rounds step k
        in rijndaelExpand fuel rounds want (Suc step) k'
             (expanded @ take (min (rounds - 6) (want - length expanded)) k')
      else expanded)"

definition rijndaelExpandKey :: "byte list \<Rightarrow> nat \<Rightarrow> u32 list" where
  "rijndaelExpandKey key rounds =
     (let buf = take 32 (key @ replicate 32 0);
          k = map (\<lambda>i. getU32 buf (4 * i)) [0..<8];
          want = (rounds + 1) * 4
      in rijndaelExpand want rounds want 0 k (take (min (rounds - 6) want) k))"

definition rijndaelInvMix :: "u32 \<Rightarrow> u32" where
  "rijndaelInvMix w =
     buildRijndaelKeyTable ! unat (lowByte w)
     XOR word_rotl 8 (buildRijndaelKeyTable ! unat (lowByte (drop_bit 8 w)))
     XOR word_rotl 16 (buildRijndaelKeyTable ! unat (lowByte (drop_bit 16 w)))
     XOR word_rotl 24 (buildRijndaelKeyTable ! unat (lowByte (drop_bit 24 w)))"

definition rijndaelTransform ::
    "u32 list list \<Rightarrow> nat \<Rightarrow> u32 list list \<Rightarrow> byte list \<Rightarrow> nat \<Rightarrow> byte list \<Rightarrow> byte list" where
  "rijndaelTransform keys rounds table sbox step src =
     (case loadWordsLE src of (w0, w1, w2, w3) \<Rightarrow>
        let start = map2 (XOR) [w0, w1, w2, w3] (keys ! 0);
            byteAt = (\<lambda>state j n. unat (lowByte (drop_bit (8 * n) (state ! ((j + n * step) mod 4)))));
            state = fold (\<lambda>r state. map (\<lambda>j. table ! 0 ! byteAt state j 0 XOR table ! 1 ! byteAt state j 1
                XOR table ! 2 ! byteAt state j 2 XOR table ! 3 ! byteAt state j 3 XOR keys ! r ! j) [0..<4])
              [1..<rounds] start;
            out = map (\<lambda>j. word4 (sbox ! byteAt state j 0) (sbox ! byteAt state j 1)
                (sbox ! byteAt state j 2) (sbox ! byteAt state j 3) XOR keys ! rounds ! j) [0..<4]
        in storeWordsLE (out ! 0, out ! 1, out ! 2, out ! 3))"

definition newRijndael :: "byte list \<Rightarrow> cipher result" where
  "newRijndael key = bindR (rijndaelRoundCount (length key)) (\<lambda>rounds.
     let expanded = rijndaelExpandKey key rounds;
         enc = map (\<lambda>r. take 4 (drop (4 * r) expanded)) [0..<rounds + 1];
         dec = map (\<lambda>r. map (\<lambda>w. if 0 < r \<and> r < rounds then rijndaelInvMix w else w)
                          (take 4 (drop (4 * (rounds - r)) expanded))) [0..<rounds + 1]
     in Inr \<lparr>blockSize = rijndaelBlockSize,
             encrypt = rijndaelTransform enc rounds (buildRijndaelTable buildRijndaelSE rijndaelMixColumn)
                         buildRijndaelSE 1,
             decrypt = rijndaelTransform dec rounds (buildRijndaelTable buildRijndaelSD rijndaelInvMixColumn)
                         buildRijndaelSD 3\<rparr>)"

lemma length_rijndaelTransform [simp]: "length (rijndaelTransform ks r t s st src) = 16"
  by (simp add: rijndaelTransform_def Let_def split: prod.splits)

section \<open>Triple DES\<close>

definition tripleDESBlockSize :: nat where "tripleDESBlockSize = 24"
definition tripleDESKeySize :: nat where "tripleDESKeySize = 24"
definition tripleDESDerivedKeySize :: nat where "tripleDESDerivedKeySize = 16"
definition desBlockSize :: nat where "desBlockSize = 8"

definition tripleDESStage :: "(byte list \<Rightarrow> byte list) \<Rightarrow> byte list \<Rightarrow> byte list" where
  "tripleDESStage f buf = f (slc 0 8 buf) @ f (slc 8 16 buf) @ f (slc 16 24 buf)"

text \<open>Only words 1 and 2 change places: the second half of DEC's exchange writes word 3 twice.\<close>

definition tripleDESSwap :: "byte list \<Rightarrow> byte list" where
  "tripleDESSwap buf = slc 0 4 buf @ slc 8 12 buf @ slc 4 8 buf @ drop 12 buf"

definition tripleDESEncrypt :: "cipher \<Rightarrow> cipher \<Rightarrow> cipher \<Rightarrow> byte list \<Rightarrow> byte list" where
  "tripleDESEncrypt k1 k2 k3 src =
     tripleDESStage (encrypt k3) (tripleDESSwap (tripleDESStage (decrypt k2)
       (tripleDESSwap (tripleDESStage (encrypt k1) src))))"

definition tripleDESDecrypt :: "cipher \<Rightarrow> cipher \<Rightarrow> cipher \<Rightarrow> byte list \<Rightarrow> byte list" where
  "tripleDESDecrypt k1 k2 k3 src =
     tripleDESStage (decrypt k1) (tripleDESSwap (tripleDESStage (encrypt k2)
       (tripleDESSwap (tripleDESStage (decrypt k3) src))))"

definition tripleDESBlock :: "cipher \<Rightarrow> cipher \<Rightarrow> cipher \<Rightarrow> cipher" where
  "tripleDESBlock k1 k2 k3 = \<lparr>blockSize = tripleDESBlockSize,
     encrypt = tripleDESEncrypt k1 k2 k3, decrypt = tripleDESDecrypt k1 k2 k3\<rparr>"

definition newTripleDES :: "(byte list \<Rightarrow> cipher result) \<Rightarrow> byte list \<Rightarrow> cipher result" where
  "newTripleDES des key =
     (if length key \<noteq> tripleDESDerivedKeySize \<and> length key \<noteq> tripleDESKeySize then Inl ErrCipherKeySize
      else let full = take 24 (key @ replicate 24 0)
           in bindR (des (slc 0 8 full)) (\<lambda>k1. bindR (des (slc 8 16 full)) (\<lambda>k2.
              bindR (des (slc 16 24 full)) (\<lambda>k3. Inr (tripleDESBlock k1 k2 k3)))))"

lemma length_tripleDESSwap [simp]: "24 \<le> length buf \<Longrightarrow> length (tripleDESSwap buf) = length buf"
  by (simp add: tripleDESSwap_def)

lemma tripleDESSwap_twice:
  assumes "length buf = 24"
  shows "tripleDESSwap (tripleDESSwap buf) = buf"
proof -
  have "tripleDESSwap (tripleDESSwap buf) = slc 0 4 buf @ slc 4 8 buf @ slc 8 12 buf @ drop 12 buf"
    using assms by (simp add: tripleDESSwap_def slc_append_left slc_append_right)
  also have "\<dots> = slc 0 12 buf @ drop 12 buf"
    by (simp only: append_assoc [symmetric]) (simp add: slc_join)
  finally show ?thesis by (simp add: slc_0)
qed

lemma tripleDESStage_inverse:
  assumes "length buf = 24" and "\<And>x. length x = 8 \<Longrightarrow> length (f x) = 8"
    and "\<And>x. length x = 8 \<Longrightarrow> g (f x) = x"
  shows "tripleDESStage g (tripleDESStage f buf) = buf"
  using assms
  by (simp add: tripleDESStage_def slc_append_left slc_append_right slc_join)

text \<open>Three DES ciphers that meet the contract at DES's block size give one that meets it at 24.\<close>

lemma tripleDES_block_cipher:
  assumes "block_cipher k1" "block_cipher k2" "block_cipher k3"
    and "blockSize k1 = 8" "blockSize k2 = 8" "blockSize k3 = 8"
  shows "block_cipher (tripleDESBlock k1 k2 k3)"
proof -
  note laws = assms(1-3) [unfolded block_cipher_def assms(4-6)]
  have stage: "length buf = 24 \<Longrightarrow> length (tripleDESStage f buf) = 24"
    if "\<And>x. length x = 8 \<Longrightarrow> length (f x) = 8" for f buf
    using that by (simp add: tripleDESStage_def)
  show ?thesis
    by unfold_locales
      (use laws in \<open>auto simp: tripleDESBlock_def tripleDESBlockSize_def tripleDESEncrypt_def
         tripleDESDecrypt_def tripleDESSwap_twice tripleDESStage_inverse stage\<close>)
qed

end
