(* ===== verification/Disk.thy ===== *)
theory Disk
  imports Crc Rijndael
begin

text \<open>
  The file layer: \<open>absdb.go\<close>, the page encryption of \<open>crypto.go\<close> and
  \<open>cryptowrite.go\<close>, and the page writer of \<open>writer.go\<close>. A file is the byte list of
  the operating system's file together with the fields \<open>parseHeader\<close> takes from it.
  Reads and writes of the file itself do not fail; a read past the end is short, a write
  past the end extends the file, as \<open>os.File\<close> does.
\<close>

section \<open>Constants and integers\<close>

definition Magic :: "byte list" where
  "Magic = map (\<lambda>c. word_of_nat (of_char c)) ''ABS0LUTEDATABASE''"

definition diskPageHeaderOffset :: nat where "diskPageHeaderOffset = 380"
definition diskPageHeaderSize :: nat where "diskPageHeaderSize = 40"
definition pageDataOffset :: nat where "pageDataOffset = 420"
definition dbHeaderSize :: nat where "dbHeaderSize = 76"
definition pageStateFree :: u32 where "pageStateFree = 0x7FFFFFFF"
definition noPageNo :: u32 where "noPageNo = 0xFFFFFFFF"

definition PageTypeSystemDir :: u16 where "PageTypeSystemDir = 2"
definition PageTypeFileHdr :: u16 where "PageTypeFileHdr = 3"
definition PageTypeTableList :: u16 where "PageTypeTableList = 6"
definition PageTypeSystem :: u16 where "PageTypeSystem = 7"
definition PageTypeSchema :: u16 where "PageTypeSchema = 8"
definition PageTypeTableInfo :: u16 where "PageTypeTableInfo = 9"
definition PageTypeData :: u16 where "PageTypeData = 10"
definition PageTypeIndex :: u16 where "PageTypeIndex = 12"

definition pageStateOffset :: nat where "pageStateOffset = 384"
definition pageCRCOffset :: nat where "pageCRCOffset = 394"
definition fileStateOffset :: nat where "fileStateOffset = 38"
definition lastUsedPageOffset :: nat where "lastUsedPageOffset = 34"
definition totalPageCountOffset :: nat where "totalPageCountOffset = 30"
definition lastObjectIDOffset :: nat where "lastObjectIDOffset = 376"

lemmas layout_consts = diskPageHeaderOffset_def diskPageHeaderSize_def pageDataOffset_def
  dbHeaderSize_def pageStateOffset_def pageCRCOffset_def fileStateOffset_def
  lastUsedPageOffset_def totalPageCountOffset_def lastObjectIDOffset_def

text \<open>Go's conversions \<open>int32(x)\<close> and \<open>uint32(x)\<close> of an \<open>int\<close>.\<close>

definition int32 :: "int \<Rightarrow> int" where
  "int32 x = sint (word_of_int x :: u32)"

definition uint32 :: "int \<Rightarrow> u32" where
  "uint32 x = word_of_int x"

lemma int32_id: "- (2 ^ 31) \<le> x \<Longrightarrow> x < 2 ^ 31 \<Longrightarrow> int32 x = x"
  by (simp add: int32_def signed_of_int signed_take_bit_int_eq_self)

lemma sint_uint32 [simp]: "sint (uint32 x) = int32 x"
  by (simp add: int32_def uint32_def)

section \<open>The ABSP page header\<close>

record DiskPageHeader =
  State :: u32
  PageType :: u16
  NextPageNo :: u32
  CRC32 :: u32
  CRCType :: byte
  HashType :: byte
  CipherType :: byte
  MACType :: byte
  ObjectID :: u32
  RecPageNo :: u32
  RecItemNo :: u16

definition ABSP :: "byte list" where
  "ABSP = [0x41, 0x42, 0x53, 0x50]"

definition parseDiskPageHeader :: "byte list \<Rightarrow> DiskPageHeader option" where
  "parseDiskPageHeader data =
     (if length data < diskPageHeaderOffset + diskPageHeaderSize then None
      else let off = diskPageHeaderOffset in
        if slc off (off + 4) data \<noteq> ABSP then None
        else Some \<lparr>State = getU32 data (off + 4), PageType = getU16 data (off + 8),
          NextPageNo = getU32 data (off + 10), CRC32 = getU32 data (off + 14),
          CRCType = data ! (off + 18), HashType = data ! (off + 19),
          CipherType = data ! (off + 20), MACType = data ! (off + 21),
          ObjectID = getU32 data (off + 22), RecPageNo = getU32 data (off + 26),
          RecItemNo = getU16 data (off + 30)\<rparr>)"

text \<open>\<open>writeDiskPageHeader\<close> fills the forty bytes it is given: the value it leaves in them.\<close>

definition writeDiskPageHeader :: "u32 \<Rightarrow> u16 \<Rightarrow> u32 \<Rightarrow> byte list" where
  "writeDiskPageHeader state pageType objectID =
     splice 26 (leU32 noPageNo) (splice 22 (leU32 objectID) (splice 10 (leU32 noPageNo)
       (splice 8 (leU16 pageType) (splice 4 (leU32 state) (splice 0 ABSP (replicate 40 0))))))"

lemma length_writeDiskPageHeader [simp]: "length (writeDiskPageHeader s t o') = 40"
  by (simp add: writeDiskPageHeader_def)

section \<open>Page encryption\<close>

text \<open>
  The ciphers that are not under \<open>src/\<close>: \<open>crypto/aes\<close>, \<open>crypto/des\<close> and the Blowfish
  of \<open>golang.org/x/crypto\<close>. They are constructors handed to the model with the file.
\<close>

record cipherLib =
  newAES :: "byte list \<Rightarrow> cipher result"
  newDES :: "byte list \<Rightarrow> cipher result"
  newBlowfish :: "byte list \<Rightarrow> cipher result"

datatype keyHash = hashRipeMD128 | hashRipeMD256

definition CryptoRijndael128 :: byte where "CryptoRijndael128 = 0"
definition CryptoRijndael256 :: byte where "CryptoRijndael256 = 1"
definition CryptoDESSingle :: byte where "CryptoDESSingle = 2"
definition CryptoDESTriple :: byte where "CryptoDESTriple = 3"
definition CryptoBlowfish :: byte where "CryptoBlowfish = 4"
definition CryptoTwofish128 :: byte where "CryptoTwofish128 = 5"
definition CryptoTwofish256 :: byte where "CryptoTwofish256 = 6"
definition CryptoSquare :: byte where "CryptoSquare = 7"

lemmas algorithm_consts = CryptoRijndael128_def CryptoRijndael256_def CryptoDESSingle_def
  CryptoDESTriple_def CryptoBlowfish_def CryptoTwofish128_def CryptoTwofish256_def CryptoSquare_def

definition cipherSpecs ::
    "cipherLib \<Rightarrow> byte \<Rightarrow> (keyHash \<times> nat \<times> (byte list \<Rightarrow> cipher result)) option" where
  "cipherSpecs lib algo =
     (if algo = CryptoRijndael128 then Some (hashRipeMD128, 16, newAES lib)
      else if algo = CryptoRijndael256 then Some (hashRipeMD256, 32, newRijndael)
      else if algo = CryptoDESSingle then Some (hashRipeMD128, 8, newDES lib)
      else if algo = CryptoDESTriple then Some (hashRipeMD128, 16, newTripleDES (newDES lib))
      else if algo = CryptoBlowfish then Some (hashRipeMD256, 32, newBlowfish lib)
      else if algo = CryptoTwofish128 then Some (hashRipeMD128, 16, newTwofish)
      else if algo = CryptoTwofish256 then Some (hashRipeMD256, 32, newTwofish)
      else if algo = CryptoSquare then Some (hashRipeMD128, 16, newSquare)
      else None)"

definition newCipherBlock :: "cipherLib \<Rightarrow> byte \<Rightarrow> byte list \<Rightarrow> cipher result" where
  "newCipherBlock lib algo key =
     (case cipherSpecs lib algo of
        None \<Rightarrow> Inl ErrUnsupportedCipher
      | Some (h, keySize, newBlock) \<Rightarrow>
          if length key \<noteq> keySize then Inl (ErrText ''wrong key length'') else newBlock key)"

definition cryptoHeaderOffset :: nat where "cryptoHeaderOffset = 76"
definition cryptoHeaderSize :: nat where "cryptoHeaderSize = 280"
definition controlBlockSize :: nat where "controlBlockSize = 256"
definition cryptoModeCTS :: byte where "cryptoModeCTS = 0"

record CryptoHeader =
  HeaderSize :: u16
  Algorithm :: byte
  Mode :: byte
  ControlBlock :: "byte list"
  ControlCRC :: u32

definition parseCryptoHeader :: "byte list \<Rightarrow> CryptoHeader option" where
  "parseCryptoHeader page0 =
     (let off = cryptoHeaderOffset in
      if length page0 < off + cryptoHeaderSize then None
      else Some \<lparr>HeaderSize = getU16 page0 off, Algorithm = page0 ! (off + 2),
        Mode = page0 ! (off + 3),
        ControlBlock = slc (off + 4) (off + 4 + controlBlockSize) page0,
        ControlCRC = getU32 page0 (off + 4 + controlBlockSize)\<rparr>)"

section \<open>The file\<close>

record dbfile =
  disk :: "byte list"
  writable :: bool
  headerSize :: u16
  version :: u64
  pageSize :: nat
  pagesInExtent :: nat
  totalPageCount :: int
  lastUsedPageNo :: int
  dbState :: u32
  writeChangeState :: byte
  dbEncrypted :: bool
  lastObjectID :: int
  cryptoHeader :: "CryptoHeader option"
  decryptionKey :: "byte list option"
  cipherlib :: cipherLib

definition readAt :: "nat \<Rightarrow> nat \<Rightarrow> byte list \<Rightarrow> byte list" where
  "readAt len off d = slc off (off + len) d"

definition writeAt :: "byte list \<Rightarrow> nat \<Rightarrow> byte list \<Rightarrow> byte list" where
  "writeAt bs off d = splice off bs (d @ replicate (off + length bs - length d) 0)"

definition truncateTo :: "nat \<Rightarrow> byte list \<Rightarrow> byte list" where
  "truncateTo n d = take n d @ replicate (n - length d) 0"

definition PageCount :: "'a dbfile_scheme \<Rightarrow> int" where
  "PageCount db = totalPageCount db"

definition payloadSize :: "'a dbfile_scheme \<Rightarrow> int" where
  "payloadSize db = int (pageSize db) - int diskPageHeaderSize"

definition pageReadSize :: "'a dbfile_scheme \<Rightarrow> nat" where
  "pageReadSize db = pageSize db + diskPageHeaderOffset"

text \<open>\<open>parseHeader\<close>, with the access mode \<open>openDB\<close> was called with and the libraries.\<close>

definition readLastObjectID :: "byte list \<Rightarrow> int" where
  "readLastObjectID d =
     (if length d < lastObjectIDOffset + 4 then 0 else sint (getU32 d lastObjectIDOffset))"

definition parseHeader :: "cipherLib \<Rightarrow> bool \<Rightarrow> byte list \<Rightarrow> dbfile result" where
  "parseHeader lib rdwr d =
     (let buf = readAt dbHeaderSize 0 d; ps = unat (getU16 buf 26);
          tpc = sint (getU32 buf 30) in
      if length d < dbHeaderSize then Inl ErrTruncated
      else if take 16 buf \<noteq> Magic then Inl ErrNotABS
      else if ps = 0 then Inl (ErrText ''invalid page size 0'')
      else if ps < pageDataOffset then Inl (ErrText ''invalid page size'')
      else if length d < ps then Inl ErrTruncated
      else if tpc < 0 then Inl (ErrText ''invalid total page count'')
      else if tpc * int ps + int diskPageHeaderOffset > int (length d) then Inl ErrTruncated
      else Inr \<lparr>disk = d, writable = rdwr, headerSize = getU16 buf 16, version = getU64 buf 18,
        pageSize = ps, pagesInExtent = unat (getU16 buf 28), totalPageCount = tpc,
        lastUsedPageNo = sint (getU32 buf 34), dbState = getU32 buf 38,
        writeChangeState = buf ! 42, dbEncrypted = (buf ! 43 \<noteq> 0),
        lastObjectID = readLastObjectID d,
        cryptoHeader = (if buf ! 43 \<noteq> 0 then parseCryptoHeader (readAt ps 0 d) else None),
        decryptionKey = None, cipherlib = lib\<rparr>)"

text \<open>What \<open>parseHeader\<close> establishes and every operation keeps.\<close>

definition file_ok :: "'a dbfile_scheme \<Rightarrow> bool" where
  "file_ok db \<longleftrightarrow> pageDataOffset \<le> pageSize db \<and> 0 \<le> totalPageCount db
     \<and> totalPageCount db < 2 ^ 31
     \<and> nat (totalPageCount db) * pageSize db + diskPageHeaderOffset \<le> length (disk db)"

definition payloadCipher :: "'a dbfile_scheme \<Rightarrow> cipher result" where
  "payloadCipher db =
     (case cryptoHeader db of
        None \<Rightarrow> Inl ErrNoPassword
      | Some ch \<Rightarrow>
          if Mode ch \<noteq> cryptoModeCTS then Inl ErrUnsupportedCipherMode
          else newCipherBlock (cipherlib db) (Algorithm ch)
                 (case decryptionKey db of None \<Rightarrow> [] | Some k \<Rightarrow> k))"

definition decryptPayload :: "'a dbfile_scheme \<Rightarrow> byte list \<Rightarrow> byte list result" where
  "decryptPayload db payload = bindR (payloadCipher db) (\<lambda>c. Inr (decryptCTS c payload))"

definition encryptPayload :: "'a dbfile_scheme \<Rightarrow> byte list \<Rightarrow> byte list result" where
  "encryptPayload db payload = bindR (payloadCipher db) (\<lambda>c. Inr (encryptCTS c payload))"

section \<open>Reading pages\<close>

record page =
  Number :: nat
  pageRaw :: "byte list"
  Header :: "DiskPageHeader option"

definition Payload :: "page \<Rightarrow> byte list" where
  "Payload p = drop pageDataOffset (pageRaw p)"

text \<open>\<open>header != nil && header.CRC32 != 0\<close>: the page's payload is stored encrypted.\<close>

definition storedEncrypted :: "DiskPageHeader option \<Rightarrow> bool" where
  "storedEncrypted h = (case h of None \<Rightarrow> False | Some hdr \<Rightarrow> CRC32 hdr \<noteq> 0)"

lemma storedEncrypted_simps [simp]:
  "storedEncrypted None = False" "storedEncrypted (Some h) = (CRC32 h \<noteq> 0)"
  by (simp_all add: storedEncrypted_def)

definition ReadPage :: "'a dbfile_scheme \<Rightarrow> int \<Rightarrow> page result" where
  "ReadPage db n =
     (if n < 0 \<or> n \<ge> PageCount db then Inl ErrPageOutOfRange
      else let buf = readAt (pageReadSize db) (nat n * pageSize db) (disk db) in
        if length buf < pageReadSize db then Inl ErrTruncated
        else let h = parseDiskPageHeader (take (pageSize db) buf) in
          if n > 0 \<and> decryptionKey db \<noteq> None \<and> storedEncrypted h
          then bindR (decryptPayload db (drop pageDataOffset buf)) (\<lambda>plain.
                 Inr \<lparr>Number = nat n, pageRaw = take pageDataOffset buf @ plain, Header = h\<rparr>)
          else Inr \<lparr>Number = nat n, pageRaw = buf, Header = h\<rparr>)"

definition IsEmpty :: "'a dbfile_scheme \<Rightarrow> page \<Rightarrow> bool" where
  "IsEmpty db p = (\<forall>b \<in> set (take (pageSize db) (pageRaw p)). b = 0)"

definition Freed :: "page \<Rightarrow> bool" where
  "Freed p = (case Header p of None \<Rightarrow> False | Some h \<Rightarrow> State h = pageStateFree)"

definition ScanPages :: "'a dbfile_scheme \<Rightarrow> (nat \<times> bool \<times> DiskPageHeader option) list result" where
  "ScanPages db = mapR (\<lambda>i. bindR (ReadPage db (int i)) (\<lambda>p. Inr (i, IsEmpty db p, Header p)))
     [0..<nat (PageCount db)]"

fun findPageFrom :: "'a dbfile_scheme \<Rightarrow> u16 \<Rightarrow> nat list \<Rightarrow> int result" where
  "findPageFrom db t [] = Inr (-1)"
| "findPageFrom db t (i # is) =
     bindR (ReadPage db (int i)) (\<lambda>p.
       case Header p of
         Some h \<Rightarrow> if PageType h = t then Inr (int i) else findPageFrom db t is
       | None \<Rightarrow> findPageFrom db t is)"

definition findPageByType :: "'a dbfile_scheme \<Rightarrow> u16 \<Rightarrow> int result" where
  "findPageByType db t = findPageFrom db t [0..<nat (PageCount db)]"

end
