(* ===== verification/Pages.thy ===== *)
theory Pages
  imports Disk
begin

text \<open>
  Page buffers and their way back to disk (\<open>writer.go\<close>: \<open>bufferPage\<close>,
  \<open>bufferPageFresh\<close>, \<open>writePageBuf\<close>, \<open>bumpPageState\<close>) and the header fields written on
  their own (\<open>bumpFileState\<close>, \<open>setLastUsedPageNo\<close>, \<open>setLastObjectID\<close>,
  \<open>setTotalPageCount\<close>). A page owns the \<open>pageSize\<close> bytes from its ABSP header to the
  next one; these regions tile the file behind its first 380 bytes, which is the
  interface \<open>block_device\<close>: what a page reads depends on its own region alone.
\<close>

section \<open>Regions\<close>

locale block_device =
  fixes get :: "'d \<Rightarrow> nat \<Rightarrow> 'b"
    and put :: "nat \<Rightarrow> 'b \<Rightarrow> 'd \<Rightarrow> 'd"
    and has :: "'d \<Rightarrow> nat \<Rightarrow> bool"
    and fits :: "'b \<Rightarrow> bool"
  assumes get_put: "has d n \<Longrightarrow> fits b \<Longrightarrow> get (put n b d) m = (if m = n then b else get d m)"
    and has_put: "has d n \<Longrightarrow> fits b \<Longrightarrow> has (put n b d) m = has d m"
begin

definition writable_all :: "'d \<Rightarrow> (nat \<times> 'b) list \<Rightarrow> bool" where
  "writable_all d ws \<longleftrightarrow> (\<forall>w \<in> set ws. has d (fst w) \<and> fits (snd w))"

lemma writable_all_Cons [simp]:
  "writable_all d (w # ws) \<longleftrightarrow> has d (fst w) \<and> fits (snd w) \<and> writable_all d ws"
  by (auto simp: writable_all_def)

lemma writable_all_put:
  "has d n \<Longrightarrow> fits b \<Longrightarrow> writable_all (put n b d) ws = writable_all d ws"
  by (simp add: writable_all_def has_put)

text \<open>A run of writes leaves in each block the last one made to it.\<close>

lemma get_fold:
  "writable_all d ws \<Longrightarrow>
   get (fold (\<lambda>w. put (fst w) (snd w)) ws d) m
     = (case map_of (rev ws) m of None \<Rightarrow> get d m | Some b \<Rightarrow> b)"
  by (induction ws arbitrary: d)
    (auto simp: writable_all_put get_put map_add_def split: option.splits)

end

definition regionOf :: "nat \<Rightarrow> byte list \<Rightarrow> nat \<Rightarrow> byte list" where
  "regionOf ps d n = slc (n * ps + diskPageHeaderOffset) (n * ps + diskPageHeaderOffset + ps) d"

definition putRegion :: "nat \<Rightarrow> nat \<Rightarrow> byte list \<Rightarrow> byte list \<Rightarrow> byte list" where
  "putRegion ps n b d = writeAt b (n * ps + diskPageHeaderOffset) d"

definition hasRegion :: "nat \<Rightarrow> byte list \<Rightarrow> nat \<Rightarrow> bool" where
  "hasRegion ps d n \<longleftrightarrow> n * ps + diskPageHeaderOffset + ps \<le> length d"

lemma writeAt_inside: "off + length bs \<le> length d \<Longrightarrow> writeAt bs off d = splice off bs d"
  by (simp add: writeAt_def)

lemma length_writeAt [simp]: "length (writeAt bs off d) = max (length d) (off + length bs)"
  by (simp add: writeAt_def)

interpretation regions: block_device "regionOf ps" "putRegion ps" "hasRegion ps" "\<lambda>b. length b = ps"
  for ps
proof unfold_locales
  fix d n b m
  assume d: "hasRegion ps d n" and b: "length (b :: byte list) = ps"
  then have w: "putRegion ps n b d = splice (n * ps + diskPageHeaderOffset) b d"
    by (simp add: putRegion_def hasRegion_def writeAt_inside)
  show "hasRegion ps (putRegion ps n b d) m = hasRegion ps d m"
    by (simp add: w hasRegion_def)
  show "regionOf ps (putRegion ps n b d) m = (if m = n then b else regionOf ps d m)"
  proof (cases "m = n")
    case True
    with d b show ?thesis by (simp add: w regionOf_def hasRegion_def)
  next
    case False
    then have "Suc m \<le> n \<or> Suc n \<le> m" by auto
    then have "Suc m * ps \<le> n * ps \<or> Suc n * ps \<le> m * ps" by (metis mult_le_mono1)
    then show ?thesis
      using False b by (auto simp: w regionOf_def slc_splice_disjoint)
  qed
qed

section \<open>What a page reads\<close>

text \<open>Payload and header of a page as a function of its region.\<close>

definition viewOf ::
    "'a dbfile_scheme \<Rightarrow> int \<Rightarrow> byte list \<Rightarrow> (byte list \<times> DiskPageHeader option) result" where
  "viewOf db n region =
     (let h = parseDiskPageHeader (replicate diskPageHeaderOffset 0 @ region) in
      if n > 0 \<and> decryptionKey db \<noteq> None \<and> storedEncrypted h
      then bindR (decryptPayload db (drop diskPageHeaderSize region)) (\<lambda>plain. Inr (plain, h))
      else Inr (drop diskPageHeaderSize region, h))"

definition pageView ::
    "'a dbfile_scheme \<Rightarrow> int \<Rightarrow> (byte list \<times> DiskPageHeader option) result" where
  "pageView db n = bindR (ReadPage db n) (\<lambda>p. Inr (Payload p, Header p))"

lemma parseDiskPageHeader_cong:
  assumes "420 \<le> length a" and "420 \<le> length b" and eq: "slc 380 420 a = slc 380 420 b"
  shows "parseDiskPageHeader a = parseDiskPageHeader b"
proof -
  have u32: "getU32 x (380 + i) = getU32 (slc 380 420 x) i" if "i + 4 \<le> 40" for x i
    using get_slc(2) [of i 40 380 x] that by simp
  have u16: "getU16 x (380 + i) = getU16 (slc 380 420 x) i" if "i + 2 \<le> 40" for x i
    using get_slc(1) [of i 40 380 x] that by simp
  have byte: "x ! (380 + i) = slc 380 420 x ! i" if "i < 40" "420 \<le> length x" for x :: "byte list" and i
    using that by (simp add: nth_slc)
  have sig: "slc 380 384 x = slc 0 4 (slc 380 420 x)" for x :: "byte list"
    using slc_slc [of 4 40 0 380 x] by simp
  have sig_eq: "slc 380 384 a = slc 380 384 b" by (simp only: sig eq)
  show ?thesis
    using assms(1,2) sig_eq
      u32 [of 4 a] u32 [of 4 b] u32 [of 10 a] u32 [of 10 b] u32 [of 14 a] u32 [of 14 b]
      u32 [of 22 a] u32 [of 22 b] u32 [of 26 a] u32 [of 26 b] u16 [of 8 a] u16 [of 8 b]
      u16 [of 30 a] u16 [of 30 b] byte [of 18 a] byte [of 18 b] byte [of 19 a] byte [of 19 b]
      byte [of 20 a] byte [of 20 b] byte [of 21 a] byte [of 21 b]
    by (simp add: parseDiskPageHeader_def layout_consts eq)
qed

lemma file_ok_page_end:
  assumes "file_ok db" and "0 \<le> n" and "n < totalPageCount db"
  shows "nat n * pageSize db + pageSize db + 380 \<le> length (disk db)"
proof -
  have "Suc (nat n) * pageSize db \<le> nat (totalPageCount db) * pageSize db"
    using assms by (intro mult_le_mono1) auto
  then show ?thesis using assms(1) by (simp add: file_ok_def layout_consts)
qed

lemma hasRegion_page:
  "file_ok db \<Longrightarrow> 0 \<le> n \<Longrightarrow> n < totalPageCount db \<Longrightarrow> hasRegion (pageSize db) (disk db) (nat n)"
  using file_ok_page_end [of db n] by (simp add: hasRegion_def layout_consts)

lemma ReadPage_buffer:
  assumes "file_ok db" and "0 \<le> n" and "n < totalPageCount db"
  defines "buf \<equiv> readAt (pageReadSize db) (nat n * pageSize db) (disk db)"
  shows "length buf = pageReadSize db"
    and "drop diskPageHeaderOffset buf = regionOf (pageSize db) (disk db) (nat n)"
    and "parseDiskPageHeader (take (pageSize db) buf)
      = parseDiskPageHeader (replicate diskPageHeaderOffset 0 @ regionOf (pageSize db) (disk db) (nat n))"
proof -
  have fits: "nat n * pageSize db + pageSize db + 380 \<le> length (disk db)"
    by (rule file_ok_page_end [OF assms(1-3)])
  show len: "length buf = pageReadSize db"
    using fits by (simp add: buf_def readAt_def pageReadSize_def layout_consts)
  show reg: "drop diskPageHeaderOffset buf = regionOf (pageSize db) (disk db) (nat n)"
    by (simp add: buf_def readAt_def regionOf_def pageReadSize_def slc_def drop_take layout_consts
        add.commute add.left_commute)
  have ps: "420 \<le> pageSize db" using assms(1) by (simp add: file_ok_def layout_consts)
  show "parseDiskPageHeader (take (pageSize db) buf)
      = parseDiskPageHeader (replicate diskPageHeaderOffset 0 @ regionOf (pageSize db) (disk db) (nat n))"
  proof (rule parseDiskPageHeader_cong)
    show "420 \<le> length (take (pageSize db) buf)" using len ps by (simp add: pageReadSize_def)
    show "420 \<le> length (replicate diskPageHeaderOffset 0 @ regionOf (pageSize db) (disk db) (nat n))"
      using fits ps by (simp add: regionOf_def layout_consts)
    have "slc 380 420 (take (pageSize db) buf) = take 40 (drop 380 buf)"
      using ps by (simp add: slc_def drop_take)
    also have "\<dots> = slc 380 420 (replicate diskPageHeaderOffset 0 @ regionOf (pageSize db) (disk db) (nat n))"
      using reg by (simp add: slc_def layout_consts)
    finally show "slc 380 420 (take (pageSize db) buf)
      = slc 380 420 (replicate diskPageHeaderOffset 0 @ regionOf (pageSize db) (disk db) (nat n))" .
  qed
qed

lemma pageView_region:
  assumes "file_ok db" and "0 \<le> n" and "n < totalPageCount db"
  shows "pageView db n = viewOf db n (regionOf (pageSize db) (disk db) (nat n))"
proof -
  note buf = ReadPage_buffer [OF assms]
  have pay: "drop 420 (readAt (pageReadSize db) (nat n * pageSize db) (disk db))
      = drop 40 (regionOf (pageSize db) (disk db) (nat n))"
    unfolding buf(2) [symmetric] by (simp add: layout_consts)
  have "420 \<le> pageSize db" using assms(1) by (simp add: file_ok_def layout_consts)
  then show ?thesis
    using assms buf pay
    by (auto simp: pageView_def ReadPage_def viewOf_def PageCount_def Payload_def Let_def
        layout_consts pageReadSize_def bindR_def split: sum.splits)
qed

text \<open>A page read without error always has the raw length its buffers are built from.\<close>

lemma ReadPage_ok:
  assumes "ReadPage db n = Inr p"
  shows "0 \<le> n" and "n < totalPageCount db" and "Number p = nat n"
  using assms by (auto simp: ReadPage_def PageCount_def Let_def split: if_splits)

section \<open>Buffers\<close>

record pagebuf =
  bufNumber :: nat
  raw :: "byte list"
  bufEncrypted :: bool
  dirty :: bool
  stateBump :: int

definition bufPayload :: "pagebuf \<Rightarrow> byte list" where
  "bufPayload b = drop pageDataOffset (raw b)"

definition setPayload :: "byte list \<Rightarrow> pagebuf \<Rightarrow> pagebuf" where
  "setPayload p b = b\<lparr>raw := take pageDataOffset (raw b) @ p\<rparr>"

lemma bufPayload_setPayload [simp]: "420 \<le> length (raw b) \<Longrightarrow> bufPayload (setPayload p b) = p"
  by (simp add: bufPayload_def setPayload_def layout_consts)

lemma setPayload_fields [simp]:
  "bufNumber (setPayload p b) = bufNumber b" "bufEncrypted (setPayload p b) = bufEncrypted b"
  "dirty (setPayload p b) = dirty b" "stateBump (setPayload p b) = stateBump b"
  by (simp_all add: setPayload_def)

lemma length_setPayload [simp]:
  "length p = length (bufPayload b) \<Longrightarrow> 420 \<le> length (raw b) \<Longrightarrow>
   length (raw (setPayload p b)) = length (raw b)"
  by (simp add: setPayload_def bufPayload_def layout_consts)

definition bufferPage :: "'a dbfile_scheme \<Rightarrow> int \<Rightarrow> pagebuf result" where
  "bufferPage db no = bindR (ReadPage db no) (\<lambda>page.
     case Header page of
       None \<Rightarrow> Inl (ErrText ''page has no ABSP header'')
     | Some h \<Rightarrow> Inr \<lparr>bufNumber = nat no, raw = pageRaw page, bufEncrypted = (CRC32 h \<noteq> 0),
                       dirty = False, stateBump = 1\<rparr>)"

definition bufferPageFresh :: "'a dbfile_scheme \<Rightarrow> int \<Rightarrow> pagebuf result" where
  "bufferPageFresh db no = bindR (ReadPage db no) (\<lambda>page.
     Inr \<lparr>bufNumber = nat no, raw = pageRaw page,
          bufEncrypted = storedEncrypted (Header page),
          dirty = False, stateBump = 1\<rparr>)"

text \<open>
  \<open>writePageBuf\<close> works on the file and on the buffer: for an encrypted page it patches
  the checksum into the buffer and encrypts the buffer's payload in place before writing.
\<close>

definition writeRegion :: "pagebuf \<Rightarrow> 'a dbfile_scheme \<Rightarrow> 'a dbfile_scheme" where
  "writeRegion p db = db\<lparr>disk := writeAt
     (slc diskPageHeaderOffset (diskPageHeaderOffset + pageSize db) (raw p))
     (bufNumber p * pageSize db + diskPageHeaderOffset) (disk db)\<rparr>"

definition writePageBuf :: "('a dbfile_scheme \<times> pagebuf, unit) op" where
  "writePageBuf = (\<lambda>(db, p).
     if \<not> writable db then (Inl ErrReadOnly, (db, p))
     else if bufEncrypted p then
       let crc = absCRC32 (bufPayload p) in
       if crc = 0 then (Inl (ErrText ''payload checksum is zero''), (db, p))
       else let p1 = p\<lparr>raw := splice pageCRCOffset (leU32 crc) (raw p)\<rparr> in
         (case encryptPayload db (bufPayload p1) of
            Inl e \<Rightarrow> (Inl e, (db, p1))
          | Inr ciphertext \<Rightarrow>
              let p2 = setPayload ciphertext p1 in (Inr (), (writeRegion p2 db, p2)))
     else (Inr (), (writeRegion p db, p)))"

definition bumpPageState :: "pagebuf \<Rightarrow> pagebuf" where
  "bumpPageState p =
     (if stateBump p \<le> 0 then p
      else p\<lparr>raw := splice pageStateOffset
               (leU32 (getU32 (raw p) pageStateOffset + uint32 (stateBump p))) (raw p)\<rparr>)"

section \<open>Header fields\<close>

definition setLastUsedPageNo :: "int \<Rightarrow> 'a dbfile_scheme \<Rightarrow> 'a dbfile_scheme" where
  "setLastUsedPageNo lastNo db =
     (if int32 lastNo = lastUsedPageNo db then db
      else db\<lparr>lastUsedPageNo := int32 lastNo,
              disk := writeAt (leU32 (uint32 (int32 lastNo))) lastUsedPageOffset (disk db)\<rparr>)"

definition setLastObjectID :: "int \<Rightarrow> 'a dbfile_scheme \<Rightarrow> 'a dbfile_scheme" where
  "setLastObjectID oid db =
     (if oid = lastObjectID db then db
      else db\<lparr>lastObjectID := oid,
              disk := writeAt (leU32 (uint32 oid)) lastObjectIDOffset (disk db)\<rparr>)"

definition setTotalPageCount :: "int \<Rightarrow> ('a dbfile_scheme, unit) op" where
  "setTotalPageCount count db =
     (if count < 0 \<or> count > 2 ^ 31 - 1 then (Inl (ErrText ''invalid total page count''), db)
      else if int32 count = totalPageCount db then (Inr (), db)
      else (Inr (), db\<lparr>totalPageCount := int32 count,
              disk := writeAt (leU32 (uint32 (int32 count))) totalPageCountOffset (disk db)\<rparr>))"

definition bumpFileState :: "'a dbfile_scheme \<Rightarrow> 'a dbfile_scheme" where
  "bumpFileState db = db\<lparr>dbState := dbState db + 1,
     disk := writeAt (leU32 (dbState db + 1)) fileStateOffset (disk db)\<rparr>"

text \<open>The header fields lie in front of every region, so no page sees them change.\<close>

lemma regionOf_header_write:
  assumes "off + length bs \<le> diskPageHeaderOffset" and "off + length bs \<le> length d"
  shows "regionOf ps (writeAt bs off d) n = regionOf ps d n"
  using assms by (simp add: regionOf_def writeAt_inside slc_splice_disjoint)

lemma file_ok_380: "file_ok db \<Longrightarrow> 380 \<le> length (disk db)"
  by (simp add: file_ok_def layout_consts)

lemma regionOf_setLastUsedPageNo [simp]:
  "file_ok db \<Longrightarrow> regionOf ps (disk (setLastUsedPageNo l db)) n = regionOf ps (disk db) n"
  by (auto simp: setLastUsedPageNo_def regionOf_header_write layout_consts dest: file_ok_380)

lemma regionOf_setLastObjectID [simp]:
  "file_ok db \<Longrightarrow> regionOf ps (disk (setLastObjectID l db)) n = regionOf ps (disk db) n"
  by (auto simp: setLastObjectID_def regionOf_header_write layout_consts dest: file_ok_380)

lemma regionOf_bumpFileState [simp]:
  "file_ok db \<Longrightarrow> regionOf ps (disk (bumpFileState db)) n = regionOf ps (disk db) n"
  by (auto simp: bumpFileState_def regionOf_header_write layout_consts dest: file_ok_380)

lemma file_ok_setters [simp]:
  "file_ok db \<Longrightarrow> file_ok (setLastUsedPageNo l db)"
  "file_ok db \<Longrightarrow> file_ok (setLastObjectID o' db)"
  "file_ok db \<Longrightarrow> file_ok (bumpFileState db)"
  by (auto simp: file_ok_def setLastUsedPageNo_def setLastObjectID_def bumpFileState_def)

lemma setter_fields [simp]:
  "totalPageCount (setLastUsedPageNo l db) = totalPageCount db"
  "pageSize (setLastUsedPageNo l db) = pageSize db"
  "pagesInExtent (setLastUsedPageNo l db) = pagesInExtent db"
  "writable (setLastUsedPageNo l db) = writable db"
  "cryptoHeader (setLastUsedPageNo l db) = cryptoHeader db"
  "decryptionKey (setLastUsedPageNo l db) = decryptionKey db"
  "cipherlib (setLastUsedPageNo l db) = cipherlib db"
  "lastUsedPageNo (setLastUsedPageNo l db) = int32 l"
  "length (disk db) \<ge> 380 \<Longrightarrow> length (disk (setLastUsedPageNo l db)) = length (disk db)"
  by (auto simp: setLastUsedPageNo_def layout_consts)

section \<open>Writing a page and reading it back\<close>

lemma writeRegion_fields [simp]:
  "totalPageCount (writeRegion p db) = totalPageCount db" "pageSize (writeRegion p db) = pageSize db"
  "writable (writeRegion p db) = writable db" "pagesInExtent (writeRegion p db) = pagesInExtent db"
  "cryptoHeader (writeRegion p db) = cryptoHeader db" "decryptionKey (writeRegion p db) = decryptionKey db"
  "cipherlib (writeRegion p db) = cipherlib db" "lastUsedPageNo (writeRegion p db) = lastUsedPageNo db"
  by (simp_all add: writeRegion_def)

lemma payloadCipher_cong:
  "cryptoHeader db = cryptoHeader db' \<Longrightarrow> decryptionKey db = decryptionKey db' \<Longrightarrow>
   cipherlib db = cipherlib db' \<Longrightarrow> payloadCipher db = payloadCipher db'"
  by (simp add: payloadCipher_def split: option.split)

lemma viewOf_cong:
  "cryptoHeader db = cryptoHeader db' \<Longrightarrow> decryptionKey db = decryptionKey db' \<Longrightarrow>
   cipherlib db = cipherlib db' \<Longrightarrow> viewOf db n r = viewOf db' n r"
proof -
  assume "cryptoHeader db = cryptoHeader db'" "decryptionKey db = decryptionKey db'"
    "cipherlib db = cipherlib db'"
  moreover from this have "decryptPayload db = decryptPayload db'"
    by (intro ext) (simp add: decryptPayload_def payloadCipher_cong [of db db'])
  ultimately show ?thesis by (simp add: viewOf_def Let_def cong: if_cong)
qed

definition bufRegion :: "pagebuf \<Rightarrow> byte list" where
  "bufRegion p = drop diskPageHeaderOffset (raw p)"

definition buf_ok :: "'a dbfile_scheme \<Rightarrow> pagebuf \<Rightarrow> bool" where
  "buf_ok db p \<longleftrightarrow> length (raw p) = pageReadSize db \<and> int (bufNumber p) < totalPageCount db"

lemma writeRegion_regions:
  assumes "file_ok db" and "buf_ok db p"
  shows "regionOf (pageSize db) (disk (writeRegion p db)) m
      = (if m = bufNumber p then bufRegion p else regionOf (pageSize db) (disk db) m)"
    and "file_ok (writeRegion p db)"
proof -
  let ?r = "slc diskPageHeaderOffset (diskPageHeaderOffset + pageSize db) (raw p)"
  have len: "length (raw p) = pageSize db + 380"
    using assms(2) by (simp add: buf_ok_def pageReadSize_def layout_consts)
  then have r: "?r = bufRegion p" "length ?r = pageSize db"
    by (simp_all add: bufRegion_def slc_def layout_consts)
  have has: "hasRegion (pageSize db) (disk db) (bufNumber p)"
    using hasRegion_page [OF assms(1), of "int (bufNumber p)"] assms(2) by (simp add: buf_ok_def)
  have put: "disk (writeRegion p db) = putRegion (pageSize db) (bufNumber p) (bufRegion p) (disk db)"
    by (simp add: writeRegion_def putRegion_def r)
  show "regionOf (pageSize db) (disk (writeRegion p db)) m
      = (if m = bufNumber p then bufRegion p else regionOf (pageSize db) (disk db) m)"
    using regions.get_put [OF has] r by (simp add: put)
  show "file_ok (writeRegion p db)"
    using assms(1) by (simp add: file_ok_def writeRegion_def le_max_iff_disj)
qed

lemma parse_bufRegion:
  assumes "file_ok db" and "buf_ok db p"
  shows "parseDiskPageHeader (replicate diskPageHeaderOffset 0 @ bufRegion p) = parseDiskPageHeader (raw p)"
  using assms
  by (intro parseDiskPageHeader_cong)
    (simp_all add: buf_ok_def file_ok_def bufRegion_def pageReadSize_def slc_def layout_consts)

lemma drop_bufRegion: "drop diskPageHeaderSize (bufRegion p) = bufPayload p"
  by (simp add: bufRegion_def bufPayload_def layout_consts)

text \<open>The view a clear buffer produces, and the one an encrypted buffer produces.\<close>

lemma viewOf_clear:
  assumes "file_ok db" and "buf_ok db p"
    and "parseDiskPageHeader (raw p) = Some h" and "CRC32 h = 0"
  shows "viewOf db n (bufRegion p) = Inr (bufPayload p, Some h)"
  using assms parse_bufRegion [OF assms(1,2)] by (simp add: viewOf_def drop_bufRegion Let_def)

lemma parse_patched_crc:
  assumes "parseDiskPageHeader r = Some h"
  shows "parseDiskPageHeader (splice 394 (leU32 crc) r) = Some (h\<lparr>CRC32 := crc\<rparr>)"
proof -
  have "420 \<le> length r" using assms by (simp add: parseDiskPageHeader_def layout_consts split: if_splits)
  then show ?thesis
    using assms
    by (auto simp: parseDiskPageHeader_def layout_consts Let_def get_splice_disjoint
        slc_splice_disjoint nth_splice split: if_splits)
qed

lemma parse_take_420:
  assumes "420 \<le> length r"
  shows "parseDiskPageHeader (take 420 r @ p) = parseDiskPageHeader r"
  using assms by (intro parseDiskPageHeader_cong) (simp_all add: slc_def drop_take)

lemma raw_setPayload: "raw (setPayload p b) = take 420 (raw b) @ p"
  by (simp add: setPayload_def layout_consts)

text \<open>
  What the code leaves in the buffer and on disk after a successful write. The plaintext
  is what the buffer held before; the buffer itself now holds what went to disk.
\<close>

lemma writePageBuf_cases:
  assumes "writePageBuf (db, p) = (Inr (), (db', p'))"
  obtains (clear) "\<not> bufEncrypted p" "p' = p" "db' = writeRegion p db" "writable db"
  | (sealed) c where "bufEncrypted p" "writable db" "absCRC32 (bufPayload p) \<noteq> 0"
      "payloadCipher db = Inr c"
      "p' = setPayload (encryptCTS c (bufPayload (p\<lparr>raw := splice 394 (leU32 (absCRC32 (bufPayload p))) (raw p)\<rparr>)))
              (p\<lparr>raw := splice 394 (leU32 (absCRC32 (bufPayload p))) (raw p)\<rparr>)"
      "db' = writeRegion p' db"
  using assms
  by (auto simp: writePageBuf_def Let_def encryptPayload_def pageCRCOffset_def bindR_def
      split: if_splits sum.splits)

lemma bufPayload_splice_header:
  "i + length bs \<le> 420 \<Longrightarrow> bufPayload (p\<lparr>raw := splice i bs (raw p)\<rparr>) = bufPayload p"
  by (auto intro!: nth_equalityI simp: bufPayload_def layout_consts nth_splice)

lemma writePageBuf_view:
  assumes ok: "file_ok db" "buf_ok db p"
    and w: "writePageBuf (db, p) = (Inr (), (db', p'))"
    and h: "parseDiskPageHeader (raw p) = Some h"
    and mode: "if bufEncrypted p then 0 < bufNumber p \<and> decryptionKey db \<noteq> None
                 \<and> (\<forall>c. payloadCipher db = Inr c \<longrightarrow> block_cipher c)
               else CRC32 h = 0"
  shows "viewOf db (int (bufNumber p)) (bufRegion p')
      = Inr (bufPayload p, Some (if bufEncrypted p then h\<lparr>CRC32 := absCRC32 (bufPayload p)\<rparr> else h))"
    and "buf_ok db p'" and "bufNumber p' = bufNumber p" and "db' = writeRegion p' db"
proof -
  let ?V = "viewOf db (int (bufNumber p)) (bufRegion p')
      = Inr (bufPayload p, Some (if bufEncrypted p then h\<lparr>CRC32 := absCRC32 (bufPayload p)\<rparr> else h))"
  let ?B = "buf_ok db p'" and ?N = "bufNumber p' = bufNumber p" and ?D = "db' = writeRegion p' db"
  have "?V \<and> ?B \<and> ?N \<and> ?D"
    using w
  proof (cases rule: writePageBuf_cases)
    case clear
    with viewOf_clear [OF ok h] mode ok show ?thesis by simp
  next
    case (sealed c)
    let ?crc = "absCRC32 (bufPayload p)"
    let ?p1 = "p\<lparr>raw := splice 394 (leU32 ?crc) (raw p)\<rparr>"
    have lawful: "block_cipher c" using mode sealed by simp
    have long: "420 \<le> length (raw p)"
      using ok by (simp add: buf_ok_def file_ok_def pageReadSize_def layout_consts)
    have pay: "bufPayload ?p1 = bufPayload p" by (rule bufPayload_splice_header) simp
    have p': "p' = setPayload (encryptCTS c (bufPayload p)) ?p1" using sealed pay by simp
    have raw': "raw p' = take 420 (splice 394 (leU32 ?crc) (raw p)) @ encryptCTS c (bufPayload p)"
      by (simp add: p' raw_setPayload)
    have ok': "buf_ok db p'"
      using ok long by (simp add: buf_ok_def raw' block_cipher.length_encryptCTS [OF lawful] bufPayload_def layout_consts)
        (simp add: p')
    have head: "parseDiskPageHeader (raw p') = Some (h\<lparr>CRC32 := ?crc\<rparr>)"
      unfolding raw' using parse_patched_crc [OF h] long by (simp add: parse_take_420)
    have "drop 40 (bufRegion p') = encryptCTS c (bufPayload p)"
      using long by (simp add: bufRegion_def raw' layout_consts)
    then have ?V
      using parse_bufRegion [OF ok(1) ok'] head mode sealed
      by (simp add: viewOf_def Let_def decryptPayload_def block_cipher.decryptCTS_encryptCTS [OF lawful] diskPageHeaderSize_def)
    with ok' sealed(6) show ?thesis by (simp add: p')
  qed
  then show "viewOf db (int (bufNumber p)) (bufRegion p')
      = Inr (bufPayload p, Some (if bufEncrypted p then h\<lparr>CRC32 := absCRC32 (bufPayload p)\<rparr> else h))"
    and "buf_ok db p'" and "bufNumber p' = bufNumber p" and "db' = writeRegion p' db"
    by blast+
qed

end
