(* ===== verification/Edit.thy ===== *)
theory Edit
  imports Pages
begin

text \<open>
  A set of pages held for modification: \<open>pageEdit\<close> of \<open>ddl.go\<close> and the page set a
  \<open>TableWriter\<close> keeps, which share \<open>load\<close>, \<open>loadFresh\<close> and \<open>flushPages\<close>. The Go maps
  of pointers are a map from page numbers to buffers; a \<open>*pageWriteBuf\<close> that is passed
  on is the page's number, so that every alias of a buffer sees a change made through
  another.
\<close>

record edit =
  edDb :: dbfile
  edPages :: "nat \<rightharpoonup> pagebuf"
  edOrder :: "nat list"

definition newPageEdit :: "dbfile \<Rightarrow> edit" where
  "newPageEdit db = \<lparr>edDb = db, edPages = Map.empty, edOrder = []\<rparr>"

definition blankBuf :: pagebuf where
  "blankBuf = \<lparr>bufNumber = 0, raw = [], bufEncrypted = False, dirty = False, stateBump = 0\<rparr>"

text \<open>The buffer a page number stands for, once the page is loaded.\<close>

definition bufAt :: "nat \<Rightarrow> 'x edit_scheme \<Rightarrow> pagebuf" where
  "bufAt k s = (case edPages s k of None \<Rightarrow> blankBuf | Some b \<Rightarrow> b)"

definition putBuf :: "nat \<Rightarrow> pagebuf \<Rightarrow> 'x edit_scheme \<Rightarrow> 'x edit_scheme" where
  "putBuf k b s = s\<lparr>edPages := (edPages s)(k \<mapsto> b)\<rparr>"

definition updBuf :: "nat \<Rightarrow> (pagebuf \<Rightarrow> pagebuf) \<Rightarrow> ('x edit_scheme, unit) op" where
  "updBuf k f = modO (\<lambda>s. putBuf k (f (bufAt k s)) s)"

definition onDb :: "(dbfile, 'a) op \<Rightarrow> ('x edit_scheme, 'a) op" where
  "onDb m s = (case m (edDb s) of (r, db') \<Rightarrow> (r, s\<lparr>edDb := db'\<rparr>))"

definition loadWith ::
    "(dbfile \<Rightarrow> int \<Rightarrow> pagebuf result) \<Rightarrow> int \<Rightarrow> ('x edit_scheme, nat) op" where
  "loadWith fetch no s =
     (case (if 0 \<le> no then edPages s (nat no) else None) of
        Some buf \<Rightarrow> (Inr (nat no), s)
      | None \<Rightarrow> (case fetch (edDb s) no of
          Inl e \<Rightarrow> (Inl e, s)
        | Inr b \<Rightarrow> (Inr (nat no), (putBuf (nat no) b s)\<lparr>edOrder := edOrder s @ [nat no]\<rparr>)))"

definition load :: "int \<Rightarrow> ('x edit_scheme, nat) op" where
  "load = loadWith bufferPage"

definition loadFresh :: "int \<Rightarrow> ('x edit_scheme, nat) op" where
  "loadFresh = loadWith bufferPageFresh"

text \<open>Writing one buffered page now: what is left in the buffer is what \<open>writePageBuf\<close> leaves.\<close>

definition writeBuf :: "nat \<Rightarrow> ('x edit_scheme, unit) op" where
  "writeBuf k s = (case writePageBuf (edDb s, bufAt k s) of
     (r, (db', b')) \<Rightarrow> (r, (putBuf k b' s)\<lparr>edDb := db'\<rparr>))"

definition flushPage :: "nat \<Rightarrow> ('x edit_scheme, unit) op" where
  "flushPage k = bindO (getO (bufAt k)) (\<lambda>b.
     if \<not> dirty b then retO () else bindO (updBuf k bumpPageState) (\<lambda>_. writeBuf k))"

definition flushPages :: "('x edit_scheme, unit) op" where
  "flushPages = bindO (getO edOrder) (\<lambda>order. forO order flushPage)"

section \<open>The well-formed edit\<close>

text \<open>
  What the code relies on of a payload cipher: a constructor reports its errors as values,
  and what it returns is a block cipher with an inverse. The packages outside the
  repository promise it; Twofish is proved to keep it.
\<close>

definition cipher_lawful :: "'a dbfile_scheme \<Rightarrow> bool" where
  "cipher_lawful db \<longleftrightarrow> (case payloadCipher db of Inl e \<Rightarrow> e \<noteq> GoPanic | Inr c \<Rightarrow> block_cipher c)"

definition edit_ok :: "'x edit_scheme \<Rightarrow> bool" where
  "edit_ok s \<longleftrightarrow> file_ok (edDb s) \<and> cipher_lawful (edDb s)
     \<and> (\<forall>k b. edPages s k = Some b \<longrightarrow> buf_ok (edDb s) b \<and> bufNumber b = k)
     \<and> set (edOrder s) = dom (edPages s) \<and> distinct (edOrder s)"

lemma edit_okD:
  assumes "edit_ok s"
  shows "file_ok (edDb s)" and "cipher_lawful (edDb s)"
    and "edPages s k = Some b \<Longrightarrow> buf_ok (edDb s) b"
    and "edPages s k = Some b \<Longrightarrow> bufNumber b = k"
    and "set (edOrder s) = dom (edPages s)" and "distinct (edOrder s)"
  using assms by (auto simp: edit_ok_def)

lemma edit_ok_new: "file_ok db \<Longrightarrow> cipher_lawful db \<Longrightarrow> edit_ok (newPageEdit db)"
  by (simp add: edit_ok_def newPageEdit_def)

lemma bufAt_putBuf [simp]: "bufAt j (putBuf k b s) = (if j = k then b else bufAt j s)"
  by (simp add: bufAt_def putBuf_def)

lemma putBuf_fields [simp]:
  "edDb (putBuf k b s) = edDb s" "edOrder (putBuf k b s) = edOrder s"
  "edPages (putBuf k b s) = (edPages s)(k \<mapsto> b)"
  by (simp_all add: putBuf_def)

lemma bufAt_fields [simp]:
  "bufAt k (s\<lparr>edDb := db\<rparr>) = bufAt k s" "bufAt k (s\<lparr>edOrder := xs\<rparr>) = bufAt k s"
  by (simp_all add: bufAt_def)

lemma bufAt_Some: "edPages s k = Some b \<Longrightarrow> bufAt k s = b"
  by (simp add: bufAt_def)

lemma updBuf_runs [simp, op_simps]: "updBuf k f s = (Inr (), putBuf k (f (bufAt k s)) s)"
  by (simp add: updBuf_def)

lemma bindO_updBuf [simp]: "bindO (updBuf k f) g s = g () (putBuf k (f (bufAt k s)) s)"
  by (simp add: bindO_def)

lemma edit_ok_putBuf:
  "edit_ok s \<Longrightarrow> k \<in> dom (edPages s) \<Longrightarrow> buf_ok (edDb s) b \<Longrightarrow> bufNumber b = k \<Longrightarrow>
   edit_ok (putBuf k b s)"
  by (auto simp: edit_ok_def)

lemma buf_ok_bufAt:
  "edit_ok s \<Longrightarrow> k \<in> dom (edPages s) \<Longrightarrow> buf_ok (edDb s) (bufAt k s) \<and> bufNumber (bufAt k s) = k"
  by (auto simp: edit_ok_def bufAt_def)

lemma loadWith_alt:
  "loadWith fetch no s =
     (if 0 \<le> no \<and> nat no \<in> dom (edPages s) then (Inr (nat no), s)
      else case fetch (edDb s) no of
        Inl e \<Rightarrow> (Inl e, s)
      | Inr b \<Rightarrow> (Inr (nat no), (putBuf (nat no) b s)\<lparr>edOrder := edOrder s @ [nat no]\<rparr>))"
  by (auto simp: loadWith_def split: option.split)

text \<open>A buffer filled from the file is well formed, and holds what the page reads.\<close>

lemma length_payload:
  "file_ok db \<Longrightarrow> buf_ok db b \<Longrightarrow> length (bufPayload b) = pageSize db - 40"
  by (simp add: buf_ok_def file_ok_def bufPayload_def pageReadSize_def layout_consts)

lemma length_raw:
  "file_ok db \<Longrightarrow> buf_ok db b \<Longrightarrow> 420 \<le> length (raw b)"
  by (simp add: buf_ok_def file_ok_def pageReadSize_def layout_consts)

lemma ReadPage_result:
  assumes "file_ok db" and "cipher_lawful db" and "ReadPage db no = Inr p"
  shows "0 \<le> no" and "no < totalPageCount db" and "length (pageRaw p) = pageReadSize db"
proof -
  show r: "0 \<le> no" "no < totalPageCount db"
    using assms(3) by (auto simp: ReadPage_def PageCount_def split: if_splits)
  note buf = ReadPage_buffer [OF assms(1) r]
  have "420 \<le> pageReadSize db" using assms(1) by (simp add: file_ok_def pageReadSize_def layout_consts)
  then show "length (pageRaw p) = pageReadSize db"
    using assms buf(1)
    by (auto simp: ReadPage_def Let_def decryptPayload_def cipher_lawful_def layout_consts
        block_cipher.length_decryptCTS split: if_splits)
qed

lemma bufferPage_ok:
  assumes "file_ok db" and "cipher_lawful db" and "fetch = bufferPage \<or> fetch = bufferPageFresh"
    and "fetch db no = Inr b"
  shows "0 \<le> no" and "no < totalPageCount db" and "buf_ok db b" and "bufNumber b = nat no"
    and "dirty b = False" and "stateBump b = 1"
    and "\<exists>p. ReadPage db no = Inr p \<and> raw b = pageRaw p
           \<and> bufEncrypted b = storedEncrypted (Header p)"
proof -
  obtain p where p: "ReadPage db no = Inr p" and b: "raw b = pageRaw p" "bufNumber b = nat no"
      "dirty b = False" "stateBump b = 1"
      "bufEncrypted b = storedEncrypted (Header p)"
    using assms(3,4) by (auto simp: bufferPage_def bufferPageFresh_def split: option.splits)
  note read = ReadPage_result [OF assms(1,2) p]
  show "0 \<le> no" "no < totalPageCount db" by (fact read)+
  show "buf_ok db b" using read b by (simp add: buf_ok_def)
  show "bufNumber b = nat no" "dirty b = False" "stateBump b = 1" by (fact b)+
  show "\<exists>p. ReadPage db no = Inr p \<and> raw b = pageRaw p
           \<and> bufEncrypted b = storedEncrypted (Header p)"
    using p b by blast
qed

text \<open>The payload of a page as the edit sees it: the buffer when there is one, else the file.\<close>

definition editPayload :: "'x edit_scheme \<Rightarrow> nat \<Rightarrow> byte list result" where
  "editPayload s k = (case edPages s k of
     Some b \<Rightarrow> Inr (bufPayload b)
   | None \<Rightarrow> bindR (ReadPage (edDb s) (int k)) (\<lambda>p. Inr (Payload p)))"

definition loader :: "(int \<Rightarrow> ('x edit_scheme, nat) op) \<Rightarrow> bool" where
  "loader l \<longleftrightarrow> l = load \<or> l = loadFresh"

lemma loader_intros [simp]: "loader load" "loader loadFresh"
  by (simp_all add: loader_def)

text \<open>
  Loading a page, whichever way: the page is buffered afterwards, no buffer that was
  there changes, and the edit sees the payloads it saw before.
\<close>

lemma load_spec:
  assumes ok: "edit_ok s" and l: "loader l" and r: "l no s = (Inr k, s')"
  shows "k = nat no" and "0 \<le> no" and "no < totalPageCount (edDb s)"
    and "edDb s' = edDb s" and "edit_ok s'" and "k \<in> dom (edPages s')"
    and "dom (edPages s') = insert k (dom (edPages s))"
    and "j \<in> dom (edPages s) \<Longrightarrow> bufAt j s' = bufAt j s"
    and "editPayload s' j = editPayload s j"
    and "editPayload s k = Inr (bufPayload (bufAt k s'))"
    and "edOrder s' = edOrder s @ (if k \<in> dom (edPages s) then [] else [k])"
    and "k \<notin> dom (edPages s) \<Longrightarrow> \<not> dirty (bufAt k s') \<and> stateBump (bufAt k s') = 1"
proof -
  obtain fetch where f: "fetch = bufferPage \<or> fetch = bufferPageFresh" and lf: "l = loadWith fetch"
    using l by (auto simp: loader_def load_def loadFresh_def)
  note okD = edit_okD [OF ok]
  have all: "k = nat no \<and> 0 \<le> no \<and> no < totalPageCount (edDb s) \<and> edDb s' = edDb s \<and> edit_ok s'
    \<and> k \<in> dom (edPages s') \<and> dom (edPages s') = insert k (dom (edPages s))
    \<and> (j \<in> dom (edPages s) \<longrightarrow> bufAt j s' = bufAt j s)
    \<and> editPayload s' j = editPayload s j \<and> editPayload s k = Inr (bufPayload (bufAt k s'))
    \<and> edOrder s' = edOrder s @ (if k \<in> dom (edPages s) then [] else [k])
    \<and> (k \<notin> dom (edPages s) \<longrightarrow> \<not> dirty (bufAt k s') \<and> stateBump (bufAt k s') = 1)"
  proof (cases "0 \<le> no \<and> nat no \<in> dom (edPages s)")
    case True
    then obtain b where b: "edPages s (nat no) = Some b" by blast
    have "no < totalPageCount (edDb s)"
      using okD(3,4) [OF b] True by (auto simp: buf_ok_def)
    then show ?thesis
      using True r ok b by (auto simp: lf loadWith_alt editPayload_def bufAt_def)
  next
    case False
    then obtain b where b: "fetch (edDb s) no = Inr b"
      using r by (cases "fetch (edDb s) no") (auto simp: lf loadWith_alt split: if_splits)
    note new = bufferPage_ok [OF okD(1,2) f b]
    obtain p where p: "ReadPage (edDb s) no = Inr p" "raw b = pageRaw p" using new(7) by blast
    have s': "s' = (putBuf (nat no) b s)\<lparr>edOrder := edOrder s @ [nat no]\<rparr>" and k: "k = nat no"
      using False r b by (auto simp: lf loadWith_alt split: if_splits)
    have fresh: "edPages s (nat no) = None" using False new(1) by auto
    have "edit_ok s'"
      using ok new fresh by (auto simp: s' edit_ok_def)
    moreover have "editPayload s (nat no) = Inr (bufPayload b)"
      using fresh p new(1) by (simp add: editPayload_def bufPayload_def Payload_def)
    moreover have "editPayload s' j = editPayload s j"
      using calculation(2) by (auto simp: editPayload_def s' split: option.splits)
    ultimately show ?thesis
      using new fresh by (auto simp: s' k bufAt_def)
  qed
  then show "k = nat no" "0 \<le> no" "no < totalPageCount (edDb s)" "edDb s' = edDb s" "edit_ok s'"
    "k \<in> dom (edPages s')" "dom (edPages s') = insert k (dom (edPages s))"
    "j \<in> dom (edPages s) \<Longrightarrow> bufAt j s' = bufAt j s"
    "editPayload s' j = editPayload s j" "editPayload s k = Inr (bufPayload (bufAt k s'))"
    "edOrder s' = edOrder s @ (if k \<in> dom (edPages s) then [] else [k])"
    "k \<notin> dom (edPages s) \<Longrightarrow> \<not> dirty (bufAt k s') \<and> stateBump (bufAt k s') = 1"
    by blast+
qed

lemma load_failed: "loader l \<Longrightarrow> l no s = (Inl e, s') \<Longrightarrow> s' = s"
  by (auto simp: loader_def load_def loadFresh_def loadWith_alt split: if_splits sum.splits)

section \<open>Flushing\<close>

text \<open>
  A buffer can be written and read back when its header parses and its encryption state is
  one the reader recognises: an encrypted page needs the key and is not page 0, a clear one
  carries a zero checksum.
\<close>

definition buf_mode :: "'a dbfile_scheme \<Rightarrow> pagebuf \<Rightarrow> bool" where
  "buf_mode db b = (case parseDiskPageHeader (raw b) of
     None \<Rightarrow> False
   | Some h \<Rightarrow> if bufEncrypted b then 0 < bufNumber b \<and> decryptionKey db \<noteq> None else CRC32 h = 0)"

text \<open>The header a flushed page carries.\<close>

definition flushedHeader :: "pagebuf \<Rightarrow> DiskPageHeader option" where
  "flushedHeader b = map_option (\<lambda>h.
     h\<lparr>State := (if stateBump b \<le> 0 then State h else State h + uint32 (stateBump b)),
       CRC32 := (if bufEncrypted b then absCRC32 (bufPayload b) else CRC32 h)\<rparr>)
     (parseDiskPageHeader (raw b))"

lemma bump_fields [simp]:
  "bufNumber (bumpPageState b) = bufNumber b" "bufEncrypted (bumpPageState b) = bufEncrypted b"
  "dirty (bumpPageState b) = dirty b" "length (raw (bumpPageState b)) = length (raw b)"
  by (simp_all add: bumpPageState_def)

lemma bufPayload_bump [simp]: "bufPayload (bumpPageState b) = bufPayload b"
  by (simp add: bumpPageState_def bufPayload_splice_header layout_consts)

lemma buf_ok_bump [simp]: "buf_ok db (bumpPageState b) = buf_ok db b"
  by (simp add: buf_ok_def)

lemma parse_patched_state:
  assumes "parseDiskPageHeader r = Some h"
  shows "parseDiskPageHeader (splice 384 (leU32 v) r) = Some (h\<lparr>State := v\<rparr>)"
proof -
  have "420 \<le> length r" using assms by (simp add: parseDiskPageHeader_def layout_consts split: if_splits)
  then show ?thesis
    using assms
    by (auto simp: parseDiskPageHeader_def layout_consts Let_def get_splice_disjoint
        slc_splice_disjoint nth_splice split: if_splits)
qed

lemma getU32_state: "parseDiskPageHeader r = Some h \<Longrightarrow> getU32 r 384 = State h"
  by (auto simp: parseDiskPageHeader_def layout_consts Let_def split: if_splits)

lemma parse_bump:
  "parseDiskPageHeader (raw b) = Some h \<Longrightarrow> parseDiskPageHeader (raw (bumpPageState b))
    = Some (h\<lparr>State := (if stateBump b \<le> 0 then State h else State h + uint32 (stateBump b))\<rparr>)"
  by (simp add: bumpPageState_def layout_consts parse_patched_state getU32_state)

lemma writeBuf_spec:
  assumes ok: "edit_ok s" and k: "k \<in> dom (edPages s)" and mode: "buf_mode (edDb s) (bufAt k s)"
    and run: "bindO (updBuf k bumpPageState) (\<lambda>_. writeBuf k) s = (Inr (), s')"
  shows "edit_ok s'" and "dom (edPages s') = dom (edPages s)" and "edOrder s' = edOrder s"
    and "\<And>j. j \<noteq> k \<Longrightarrow> bufAt j s' = bufAt j s"
    and "totalPageCount (edDb s') = totalPageCount (edDb s)"
    and "decryptionKey (edDb s') = decryptionKey (edDb s)"
    and "\<And>n. 0 \<le> n \<Longrightarrow> n < totalPageCount (edDb s) \<Longrightarrow> pageView (edDb s') n
      = (if n = int k then Inr (bufPayload (bufAt k s), flushedHeader (bufAt k s)) else pageView (edDb s) n)"
proof -
  let ?b = "bufAt k s" and ?db = "edDb s"
  note okD = edit_okD [OF ok]
  have b: "buf_ok ?db ?b" "bufNumber ?b = k" using buf_ok_bufAt [OF ok k] by blast+
  obtain h where h: "parseDiskPageHeader (raw ?b) = Some h"
    using mode by (auto simp: buf_mode_def split: option.splits)
  note h' = parse_bump [OF h]
  obtain db' b' where w: "writePageBuf (?db, bumpPageState ?b) = (Inr (), (db', b'))"
    and s': "s' = (putBuf k b' (putBuf k (bumpPageState ?b) s))\<lparr>edDb := db'\<rparr>"
    using run by (auto simp: writeBuf_def split: prod.splits)
  have lawful: "payloadCipher ?db = Inr c \<Longrightarrow> block_cipher c" for c
    using okD(2) by (simp add: cipher_lawful_def)
  have "if bufEncrypted (bumpPageState ?b) then 0 < bufNumber (bumpPageState ?b) \<and> decryptionKey ?db \<noteq> None
                 \<and> (\<forall>c. payloadCipher ?db = Inr c \<longrightarrow> block_cipher c)
               else CRC32 (h\<lparr>State := (if stateBump ?b \<le> 0 then State h else State h + uint32 (stateBump ?b))\<rparr>) = 0"
    using mode h lawful by (auto simp: buf_mode_def split: if_splits)
  note view = writePageBuf_view [OF okD(1) _ w h' this]
  have v: "viewOf ?db (int k) (bufRegion b') = Inr (bufPayload ?b, flushedHeader ?b)"
    and b': "buf_ok ?db b'" "bufNumber b' = k" and db': "db' = writeRegion b' ?db"
    using view b h by (auto simp: flushedHeader_def)
  note reg = writeRegion_regions [OF okD(1) b'(1)]
  have fields: "edDb s' = writeRegion b' ?db" by (simp add: s' db')
  have same: "cryptoHeader db' = cryptoHeader ?db" "decryptionKey db' = decryptionKey ?db"
    "cipherlib db' = cipherlib ?db" by (simp_all add: db')
  show "edit_ok s'"
    using ok k b' reg(2) payloadCipher_cong [OF same]
    by (auto simp: edit_ok_def fields buf_ok_def cipher_lawful_def pageReadSize_def db' s')
  show "dom (edPages s') = dom (edPages s)" "edOrder s' = edOrder s"
    "\<And>j. j \<noteq> k \<Longrightarrow> bufAt j s' = bufAt j s"
    using k by (auto simp: s')
  show tpc: "totalPageCount (edDb s') = totalPageCount ?db"
    "decryptionKey (edDb s') = decryptionKey ?db" by (simp_all add: fields)
  fix n assume n: "0 \<le> n" "n < totalPageCount ?db"
  have "pageView (edDb s') n = viewOf db' n (regionOf (pageSize ?db) (disk db') (nat n))"
    using pageView_region [of db' n] reg(2) n by (simp add: s' db')
  also have "\<dots> = viewOf ?db n (regionOf (pageSize ?db) (disk db') (nat n))"
    by (rule viewOf_cong) (simp_all add: same)
  also have "\<dots> = (if n = int k then viewOf ?db n (bufRegion b')
      else viewOf ?db n (regionOf (pageSize ?db) (disk ?db) (nat n)))"
    using reg(1) [of "nat n"] b'(2) n by (auto simp: db')
  also have "\<dots> = (if n = int k then Inr (bufPayload ?b, flushedHeader ?b) else pageView ?db n)"
    using v pageView_region [OF okD(1) n] by simp
  finally show "pageView (edDb s') n
      = (if n = int k then Inr (bufPayload ?b, flushedHeader ?b) else pageView ?db n)" .
qed

definition modes_ok :: "'x edit_scheme \<Rightarrow> bool" where
  "modes_ok s \<longleftrightarrow> (\<forall>k \<in> set (edOrder s). dirty (bufAt k s) \<longrightarrow> buf_mode (edDb s) (bufAt k s))"

lemma flush_list:
  assumes "edit_ok s" and "set xs \<subseteq> dom (edPages s)" and "distinct xs"
    and "\<forall>k \<in> set xs. dirty (bufAt k s) \<longrightarrow> buf_mode (edDb s) (bufAt k s)"
    and "forO xs flushPage s = (Inr (), s')"
  shows "edit_ok s' \<and> totalPageCount (edDb s') = totalPageCount (edDb s)
    \<and> (\<forall>n. 0 \<le> n \<longrightarrow> n < totalPageCount (edDb s) \<longrightarrow> pageView (edDb s') n
      = (if nat n \<in> set xs \<and> dirty (bufAt (nat n) s)
         then Inr (bufPayload (bufAt (nat n) s), flushedHeader (bufAt (nat n) s)) else pageView (edDb s) n))"
  using assms
proof (induction xs arbitrary: s)
  case Nil
  then show ?case by simp
next
  case (Cons k xs)
  show ?case
  proof (cases "dirty (bufAt k s)")
    case False
    then have "flushPage k s = (Inr (), s)" by (simp add: flushPage_def)
    then have "forO xs flushPage s = (Inr (), s')"
      using Cons.prems(5) by (simp only: forO.simps bindO_Inr [of "flushPage k" s "()" s])
    with Cons.IH [of s] Cons.prems False show ?thesis by auto
  next
    case True
    obtain t where one: "flushPage k s = (Inr (), t)" and rest: "forO xs flushPage t = (Inr (), s')"
      using Cons.prems(5) by (auto simp: bindO_eq_Inr)
    have t: "bindO (updBuf k bumpPageState) (\<lambda>_. writeBuf k) s = (Inr (), t)"
      using one True by (simp add: flushPage_def)
    have "k \<in> dom (edPages s)" and mode: "buf_mode (edDb s) (bufAt k s)"
      using Cons.prems True by auto
    note step = writeBuf_spec [OF Cons.prems(1) this t]
    have later: "bufAt j t = bufAt j s" if "j \<in> set xs" for j
      using Cons.prems(3) step(4) [of j] that by (cases "j = k") auto
    have "\<forall>j \<in> set xs. dirty (bufAt j t) \<longrightarrow> buf_mode (edDb t) (bufAt j t)"
      using Cons.prems(4) later step(6) by (auto simp: buf_mode_def split: option.splits)
    then have IH: "edit_ok s' \<and> totalPageCount (edDb s') = totalPageCount (edDb t)
      \<and> (\<forall>n. 0 \<le> n \<longrightarrow> n < totalPageCount (edDb t) \<longrightarrow> pageView (edDb s') n
        = (if nat n \<in> set xs \<and> dirty (bufAt (nat n) t)
           then Inr (bufPayload (bufAt (nat n) t), flushedHeader (bufAt (nat n) t)) else pageView (edDb t) n))"
      using Cons.IH [of t] step(1,2) Cons.prems rest by auto
    show ?thesis
    proof (intro conjI allI impI)
      show "edit_ok s'" "totalPageCount (edDb s') = totalPageCount (edDb s)"
        using IH step(5) by auto
      fix n assume n: "0 \<le> n" "n < totalPageCount (edDb s)"
      with IH step(5) have "pageView (edDb s') n
        = (if nat n \<in> set xs \<and> dirty (bufAt (nat n) t)
           then Inr (bufPayload (bufAt (nat n) t), flushedHeader (bufAt (nat n) t)) else pageView (edDb t) n)"
        by simp
      with step(7) [OF n] later [of "nat n"] True n
      show "pageView (edDb s') n
        = (if nat n \<in> set (k # xs) \<and> dirty (bufAt (nat n) s)
           then Inr (bufPayload (bufAt (nat n) s), flushedHeader (bufAt (nat n) s)) else pageView (edDb s) n)"
        by (auto split: if_splits)
    qed
  qed
qed

lemma flushPages_view:
  assumes "edit_ok s" and "modes_ok s" and "flushPages s = (Inr (), s')"
    and "0 \<le> n" and "n < totalPageCount (edDb s)"
  shows "pageView (edDb s') n
      = (if nat n \<in> dom (edPages s) \<and> dirty (bufAt (nat n) s)
         then Inr (bufPayload (bufAt (nat n) s), flushedHeader (bufAt (nat n) s)) else pageView (edDb s) n)"
  using flush_list [of s "edOrder s" s'] assms edit_okD(5,6) [OF assms(1)]
  by (simp add: modes_ok_def flushPages_def)

text \<open>Whatever a write does, it does to its own page.\<close>

lemma writePageBuf_ok:
  assumes ok: "file_ok db" "cipher_lawful db" "buf_ok db p"
    and w: "writePageBuf (db, p) = (Inr (), (db', p'))"
  shows "buf_ok db p'" and "bufNumber p' = bufNumber p" and "db' = writeRegion p' db"
proof -
  have "buf_ok db p' \<and> bufNumber p' = bufNumber p \<and> db' = writeRegion p' db"
    using w
  proof (cases rule: writePageBuf_cases)
    case clear
    with ok show ?thesis by simp
  next
    case (sealed c)
    let ?p1 = "p\<lparr>raw := splice 394 (leU32 (absCRC32 (bufPayload p))) (raw p)\<rparr>"
    have "block_cipher c" using ok(2) sealed by (simp add: cipher_lawful_def)
    then have "length (encryptCTS c (bufPayload ?p1)) = length (bufPayload ?p1)"
      by (rule block_cipher.length_encryptCTS)
    moreover have "420 \<le> length (raw ?p1)" using length_raw [OF ok(1,3)] by simp
    ultimately have "length (raw p') = length (raw p)" using sealed(5) by simp
    with sealed ok(3) show ?thesis by (simp add: buf_ok_def)
  qed
  then show "buf_ok db p'" "bufNumber p' = bufNumber p" "db' = writeRegion p' db" by blast+
qed

lemma writeBuf_frame:
  assumes ok: "edit_ok s" and k: "k \<in> dom (edPages s)" and run: "writeBuf k s = (Inr (), s')"
  shows "edit_ok s'" and "dom (edPages s') = dom (edPages s)" and "edOrder s' = edOrder s"
    and "\<And>j. j \<noteq> k \<Longrightarrow> bufAt j s' = bufAt j s" and "pageSize (edDb s') = pageSize (edDb s)"
    and "\<And>j. j \<noteq> k \<Longrightarrow> regionOf (pageSize (edDb s)) (disk (edDb s')) j
           = regionOf (pageSize (edDb s)) (disk (edDb s)) j"
proof -
  let ?db = "edDb s"
  note okD = edit_okD [OF ok]
  have b: "buf_ok ?db (bufAt k s)" "bufNumber (bufAt k s) = k" using buf_ok_bufAt [OF ok k] by blast+
  obtain db' b' where w: "writePageBuf (?db, bufAt k s) = (Inr (), (db', b'))"
    and s': "s' = (putBuf k b' s)\<lparr>edDb := db'\<rparr>"
    using run by (auto simp: writeBuf_def split: prod.splits)
  note wr = writePageBuf_ok [OF okD(1,2) b(1) w]
  note reg = writeRegion_regions [OF okD(1) wr(1)]
  have same: "cryptoHeader db' = cryptoHeader ?db" "decryptionKey db' = decryptionKey ?db"
    "cipherlib db' = cipherlib ?db" by (simp_all add: wr(3))
  show "edit_ok s'"
    using ok k wr b reg(2) payloadCipher_cong [OF same]
    by (auto simp: edit_ok_def buf_ok_def cipher_lawful_def pageReadSize_def s')
  show "dom (edPages s') = dom (edPages s)" "edOrder s' = edOrder s"
    "\<And>j. j \<noteq> k \<Longrightarrow> bufAt j s' = bufAt j s" "pageSize (edDb s') = pageSize ?db"
    using k by (auto simp: s' wr(3))
  show "\<And>j. j \<noteq> k \<Longrightarrow> regionOf (pageSize ?db) (disk (edDb s')) j = regionOf (pageSize ?db) (disk ?db) j"
    using reg(1) wr b by (simp add: s')
qed

lemma writeBuf_failed: "writeBuf k s = (Inl e, s') \<Longrightarrow> edDb s' = edDb s"
  by (auto simp: writeBuf_def writePageBuf_def Let_def split: prod.splits if_splits sum.splits)

text \<open>A page whose buffer is not dirty is not written, whether the flush succeeds or stops.\<close>

lemma flush_frame:
  assumes "edit_ok s" and "set xs \<subseteq> dom (edPages s)" and "\<not> dirty (bufAt k s)"
  shows "regionOf (pageSize (edDb s)) (disk (edDb (snd (forO xs flushPage s)))) k
      = regionOf (pageSize (edDb s)) (disk (edDb s)) k"
  using assms
proof (induction xs arbitrary: s)
  case (Cons j xs)
  show ?case
  proof (cases "dirty (bufAt j s)")
    case False
    then have "flushPage j s = (Inr (), s)" by (simp add: flushPage_def)
    then have "forO (j # xs) flushPage s = forO xs flushPage s"
      by (simp only: forO.simps bindO_Inr [of "flushPage j" s "()" s])
    with Cons show ?thesis by simp
  next
    case True
    let ?s = "putBuf j (bumpPageState (bufAt j s)) s"
    have j: "j \<in> dom (edPages s)" and jk: "j \<noteq> k" using Cons.prems True by auto
    have ok: "edit_ok ?s"
      using buf_ok_bufAt [OF Cons.prems(1) j] Cons.prems(1) j by (intro edit_ok_putBuf) simp_all
    have run: "flushPage j s = writeBuf j ?s" using True by (simp add: flushPage_def)
    obtain r t where w: "writeBuf j ?s = (r, t)" by (cases "writeBuf j ?s")
    show ?thesis
    proof (cases r)
      case (Inl e)
      then have "snd (forO (j # xs) flushPage s) = t" using w run by (simp add: bindO_Inl)
      moreover have "edDb t = edDb s" using writeBuf_failed [of j ?s e t] w Inl by simp
      ultimately show ?thesis by simp
    next
      case (Inr u)
      then have w': "writeBuf j ?s = (Inr (), t)" using w by simp
      note f = writeBuf_frame [OF ok _ w']
      have "forO (j # xs) flushPage s = forO xs flushPage t"
        using w' run by (simp add: bindO_Inr)
      moreover have "edit_ok t" "set xs \<subseteq> dom (edPages t)" "\<not> dirty (bufAt k t)"
        using f(1,2) f(4) [of k] jk Cons.prems by auto
      ultimately show ?thesis
        using Cons.IH [of t] f(5) f(6) [of k] jk by simp
    qed
  qed
qed simp

lemma flushPages_frame:
  assumes "edit_ok s" and "\<not> dirty (bufAt k s)"
  shows "regionOf (pageSize (edDb s)) (disk (edDb (snd (flushPages s)))) k
      = regionOf (pageSize (edDb s)) (disk (edDb s)) k"
  using flush_frame [OF assms(1) _ assms(2), of "edOrder s"] edit_okD(5) [OF assms(1)]
  by (simp add: flushPages_def)

end
