(* ===== verification/Bitmaps.thy ===== *)
theory Bitmaps
  imports Prelude
begin

text \<open>
  The three bitmaps of the format and the two-bit Extent Allocation Map: the occupancy
  bitmap of a data page (\<open>bitSet\<close>, \<open>setBit\<close>, \<open>clearBit\<close>), the null flags of a record
  (\<open>setNullFlag\<close>), the Page Free Space map (\<open>pfsAllocated\<close> and the statements that set
  and clear its bits). All of them meet the interface \<open>bit_store\<close>, whose lemmas are
  about runs of updates; the EAM meets \<open>entry_store\<close>.
\<close>

section \<open>The interfaces\<close>

locale bit_store =
  fixes test :: "'m \<Rightarrow> nat \<Rightarrow> bool"
    and put :: "bool \<Rightarrow> nat \<Rightarrow> 'm \<Rightarrow> 'm"
    and cap :: "'m \<Rightarrow> nat"
  assumes test_cap: "test m i \<Longrightarrow> i < cap m"
    and test_put: "i < cap m \<Longrightarrow> test (put b i m) j = (if j = i then b else test m j)"
    and cap_put: "cap (put b i m) = cap m"
begin

lemma cap_fold: "cap (fold (put b) xs m) = cap m"
  by (induction xs arbitrary: m) (simp_all add: cap_put)

lemma test_fold:
  "(\<And>i. i \<in> set xs \<Longrightarrow> i < cap m) \<Longrightarrow>
   test (fold (put b) xs m) j = (if j \<in> set xs then b else test m j)"
  by (induction xs arbitrary: m) (auto simp: test_put cap_put)

lemma set_bits_finite: "finite {i. test m i}"
  by (rule finite_subset [of _ "{..<cap m}"]) (auto dest: test_cap)

lemma card_put_True:
  "i < cap m \<Longrightarrow> \<not> test m i \<Longrightarrow> card {j. test (put True i m) j} = Suc (card {j. test m j})"
proof -
  assume i: "i < cap m" "\<not> test m i"
  have "{j. test (put True i m) j} = insert i {j. test m j}"
    using i by (auto simp: test_put)
  then show ?thesis using i set_bits_finite by simp
qed

lemma card_put_False:
  "test m i \<Longrightarrow> card {j. test m j} = Suc (card {j. test (put False i m) j})"
proof -
  assume i: "test m i"
  then have "{j. test m j} = insert i {j. test (put False i m) j}"
    by (auto simp: test_put test_cap)
  then show ?thesis using i set_bits_finite [of "put False i m"] by (simp add: test_put test_cap)
qed

text \<open>Clearing what was just set gives the bits back, when they were clear before.\<close>

lemma test_set_clear:
  assumes "\<And>i. i \<in> set xs \<Longrightarrow> i < cap m \<and> \<not> test m i"
  shows "test (fold (put False) xs (fold (put True) xs m)) j = test m j"
proof (cases "j \<in> set xs")
  case True
  with assms show ?thesis by (simp add: test_fold cap_fold)
next
  case False
  with assms show ?thesis by (simp add: test_fold cap_fold)
qed

end

locale entry_store =
  fixes get :: "'m \<Rightarrow> nat \<Rightarrow> 'v"
    and upd :: "nat \<Rightarrow> 'v \<Rightarrow> 'm \<Rightarrow> 'm"
    and size :: "'m \<Rightarrow> nat"
    and ok :: "'v \<Rightarrow> bool"
  assumes get_upd: "i < size m \<Longrightarrow> ok v \<Longrightarrow> get (upd i v m) j = (if j = i then v else get m j)"
    and size_upd: "size (upd i v m) = size m"
begin

lemma get_fold_upd:
  "(\<And>i. i \<in> set xs \<Longrightarrow> i < size m \<and> ok (f i)) \<Longrightarrow>
   get (fold (\<lambda>i. upd i (f i)) xs m) j = (if j \<in> set xs then f j else get m j)"
  by (induction xs arbitrary: m) (auto simp: get_upd size_upd)

end

section \<open>Bits of a byte list\<close>

text \<open>The mask expressions \<open>data[i/8] & (1 << (i%8))\<close>, \<open>|=\<close> and \<open>&^=\<close> of the code.\<close>

definition bitMask :: "nat \<Rightarrow> byte" where
  "bitMask i = push_bit (i mod 8) 1"

definition testBit :: "byte list \<Rightarrow> nat \<Rightarrow> bool" where
  "testBit data i = (data ! (i div 8) AND bitMask i \<noteq> 0)"

definition orBit :: "nat \<Rightarrow> byte list \<Rightarrow> byte list" where
  "orBit i data = data[i div 8 := data ! (i div 8) OR bitMask i]"

definition andNotBit :: "nat \<Rightarrow> byte list \<Rightarrow> byte list" where
  "andNotBit i data = data[i div 8 := data ! (i div 8) AND NOT (bitMask i)]"

lemma testBit_bit: "testBit data i = bit (data ! (i div 8)) (i mod 8)"
  by (simp add: testBit_def bitMask_def bit_iff_and_push_bit_not_eq_0)

lemma length_orBit [simp]: "length (orBit i data) = length data"
  by (simp add: orBit_def)

lemma length_andNotBit [simp]: "length (andNotBit i data) = length data"
  by (simp add: andNotBit_def)

lemma orBit_Nil [simp]: "orBit i data = [] \<longleftrightarrow> data = []" "andNotBit i data = [] \<longleftrightarrow> data = []"
  by (simp_all add: orBit_def andNotBit_def)

lemma same_bit_index: "i div 8 = j div 8 \<Longrightarrow> i mod 8 = j mod 8 \<longleftrightarrow> i = (j :: nat)"
  by (metis div_mult_mod_eq)

lemma testBit_orBit:
  "i div 8 < length data \<Longrightarrow> testBit (orBit i data) j = (j = i \<or> testBit data j)"
  using same_bit_index [of i j]
  by (cases "i div 8 = j div 8")
    (auto simp: testBit_bit orBit_def bitMask_def bit_simps)

lemma testBit_andNotBit:
  "i div 8 < length data \<Longrightarrow> testBit (andNotBit i data) j = (j \<noteq> i \<and> testBit data j)"
  using same_bit_index [of i j]
  by (cases "i div 8 = j div 8")
    (auto simp: testBit_bit andNotBit_def bitMask_def bit_simps)

section \<open>The occupancy bitmap of a data page\<close>

definition bitSet :: "byte list \<Rightarrow> int \<Rightarrow> nat \<Rightarrow> bool" where
  "bitSet data b bitmapBytes =
     (if b < 0 \<or> nat b div 8 \<ge> bitmapBytes \<or> nat b div 8 \<ge> length data then False
      else testBit data (nat b))"

definition setBit :: "byte list \<Rightarrow> int \<Rightarrow> nat \<Rightarrow> byte list" where
  "setBit data b bitmapBytes =
     (if b < 0 \<or> nat b div 8 \<ge> bitmapBytes \<or> nat b div 8 \<ge> length data then data
      else orBit (nat b) data)"

definition clearBit :: "byte list \<Rightarrow> int \<Rightarrow> nat \<Rightarrow> byte list" where
  "clearBit data b bitmapBytes =
     (if b < 0 \<or> nat b div 8 \<ge> bitmapBytes \<or> nat b div 8 \<ge> length data then data
      else andNotBit (nat b) data)"

lemma length_setBit [simp]: "length (setBit data b n) = length data"
  by (simp add: setBit_def)

lemma length_clearBit [simp]: "length (clearBit data b n) = length data"
  by (simp add: clearBit_def)

definition occ_put :: "nat \<Rightarrow> bool \<Rightarrow> nat \<Rightarrow> byte list \<Rightarrow> byte list" where
  "occ_put n b i data = (if b then setBit data (int i) n else clearBit data (int i) n)"

lemma div_8_less: "(i :: nat) div 8 < n \<longleftrightarrow> i < 8 * n"
  by (simp add: less_mult_imp_div_less div_less_iff_less_mult mult.commute)

interpretation occupancy: bit_store
  "\<lambda>data i. bitSet data (int i) n" "occ_put n" "\<lambda>data. 8 * min n (length data)"
  for n
proof unfold_locales
  fix m :: "byte list" and i j b
  show "bitSet m (int i) n \<Longrightarrow> i < 8 * min n (length m)"
    by (auto simp: bitSet_def not_le div_8_less split: if_splits)
  show "i < 8 * min n (length m) \<Longrightarrow>
    bitSet (occ_put n b i m) (int j) n = (if j = i then b else bitSet m (int j) n)"
    by (auto simp: bitSet_def occ_put_def setBit_def clearBit_def not_le div_8_less
        testBit_orBit testBit_andNotBit)
  show "8 * min n (length (occ_put n b i m)) = 8 * min n (length m)"
    by (simp add: occ_put_def)
qed

text \<open>The bytes behind the bitmap are none of an update's business.\<close>

lemma drop_orBit: "i div 8 < n \<Longrightarrow> drop n (orBit i data) = drop n data"
  by (simp add: orBit_def drop_update_swap)

lemma drop_andNotBit: "i div 8 < n \<Longrightarrow> drop n (andNotBit i data) = drop n data"
  by (simp add: andNotBit_def drop_update_swap)

lemma drop_setBit [simp]: "drop n (setBit data b n) = drop n data"
  by (simp add: setBit_def drop_orBit)

lemma drop_clearBit [simp]: "drop n (clearBit data b n) = drop n data"
  by (simp add: clearBit_def drop_andNotBit)

lemma slc_behind: "n \<le> i \<Longrightarrow> drop n xs = drop n ys \<Longrightarrow> slc i j xs = slc i j ys"
  by (metis drop_drop le_add_diff_inverse2 slc_def)

section \<open>The null flags of a record\<close>

definition setNullFlag :: "byte list \<Rightarrow> nat \<Rightarrow> bool \<Rightarrow> byte list" where
  "setNullFlag flags col null =
     (if col div 8 \<ge> length flags then flags
      else if null then orBit col flags else andNotBit col flags)"

text \<open>What \<open>Record.IsNull\<close> reads: a column beyond the flags is null.\<close>

definition nullFlag :: "byte list \<Rightarrow> nat \<Rightarrow> bool" where
  "nullFlag flags col = (if col div 8 \<ge> length flags then True else testBit flags col)"

lemma length_setNullFlag [simp]: "length (setNullFlag flags col null) = length flags"
  by (simp add: setNullFlag_def)

interpretation nulls: bit_store
  "\<lambda>flags i. i < 8 * length flags \<and> nullFlag flags i" "\<lambda>b i flags. setNullFlag flags i b"
  "\<lambda>flags. 8 * length flags"
  by unfold_locales
    (auto simp: nullFlag_def setNullFlag_def testBit_orBit testBit_andNotBit not_le div_8_less)

section \<open>The Page Free Space map\<close>

definition pfsAllocated :: "byte list \<Rightarrow> int \<Rightarrow> bool" where
  "pfsAllocated pfs pageNo =
     (if pageNo < 0 \<or> nat pageNo div 8 \<ge> length pfs then False else testBit pfs (nat pageNo))"

definition pfs_put :: "bool \<Rightarrow> nat \<Rightarrow> byte list \<Rightarrow> byte list" where
  "pfs_put b no pfs = (if b then orBit no pfs else andNotBit no pfs)"

lemma length_pfs_put [simp]: "length (pfs_put b no pfs) = length pfs"
  by (simp add: pfs_put_def)

interpretation pfs: bit_store "\<lambda>m i. pfsAllocated m (int i)" pfs_put "\<lambda>m. 8 * length m"
  by unfold_locales
    (auto simp: pfsAllocated_def pfs_put_def testBit_orBit testBit_andNotBit not_le div_8_less
      split: if_splits)

section \<open>The Extent Allocation Map\<close>

definition extentFree :: byte where "extentFree = 0"
definition extentPartial :: byte where "extentPartial = 1"
definition extentFull :: byte where "extentFull = 3"

definition eamBitsPerExtent :: nat where "eamBitsPerExtent = 2"

definition extentState :: "byte list \<Rightarrow> nat \<Rightarrow> byte" where
  "extentState eam extent =
     (let b = extent * eamBitsPerExtent
      in if b div 8 \<ge> length eam then extentFree
         else drop_bit (b mod 8) (eam ! (b div 8)) AND 3)"

definition setExtentState :: "byte list \<Rightarrow> nat \<Rightarrow> byte \<Rightarrow> byte list" where
  "setExtentState eam extent state =
     (let b = extent * eamBitsPerExtent
      in if b div 8 \<ge> length eam then eam
         else eam[b div 8 := (eam ! (b div 8) AND NOT (push_bit (b mod 8) 3))
                             OR push_bit (b mod 8) state])"

lemma length_setExtentState [simp]: "length (setExtentState eam e s) = length eam"
  by (simp add: setExtentState_def Let_def)

lemma bit_3: "bit (3 :: byte) n \<longleftrightarrow> n < 2"
  by (auto simp: bit_numeral_rec numeral_3_eq_3 less_2_cases_iff split: nat.splits)
    (simp_all add: bit_1_iff)

text \<open>Two entries share a byte only at bit offsets two apart, so a write stays in its entry.\<close>

lemma entry_offset: "(e * 2) mod 8 \<in> {0, 2, 4, 6 :: nat}"
proof -
  have "(e * 2) mod 8 = 0 \<or> (e * 2) mod 8 = 2 \<or> (e * 2) mod 8 = 4 \<or> (e * 2) mod 8 = 6"
    by presburger
  then show ?thesis by blast
qed

lemma masked_entry_bits:
  fixes w s t :: byte
  assumes t: "\<And>n. bit t n \<longleftrightarrow> n < 2"
    and "p \<in> {0, 2, 4, 6}" and "q \<in> {0, 2, 4, 6}" and "s AND t = s"
  shows "drop_bit q ((w AND NOT (push_bit p t)) OR push_bit p s) AND t
    = (if q = p then s else drop_bit q w AND t)"
proof (rule bit_word_eqI)
  have s: "bit s n \<Longrightarrow> n < 2" for n
    using assms(4) t by (metis bit_and_iff)
  fix n :: nat
  show "bit (drop_bit q ((w AND NOT (push_bit p t)) OR push_bit p s) AND t) n
    = bit (if q = p then s else drop_bit q w AND t) n"
  proof (cases "n < 2")
    case True
    with assms(2,3) show ?thesis
      using s [of "q + n - p"] by (auto simp: bit_simps t)
  next
    case False
    then show ?thesis using s [of n] by (auto simp: bit_and_iff t)
  qed
qed

lemmas entry_bits = masked_entry_bits [OF bit_3]

interpretation eam: entry_store extentState "\<lambda>i v m. setExtentState m i v"
  "\<lambda>m. 4 * length m" "\<lambda>v. v AND 3 = v"
proof unfold_locales
  fix m :: "byte list" and i j v
  show "4 * length (setExtentState m i v) = 4 * length m" by simp
  assume i: "i < 4 * length m" and v: "v AND 3 = v"
  then have byte: "i * 2 div 8 < length m" by (simp add: div_8_less)
  show "extentState (setExtentState m i v) j = (if j = i then v else extentState m j)"
  proof (cases "j * 2 div 8 = i * 2 div 8")
    case True
    then have "(j * 2) mod 8 = (i * 2) mod 8 \<longleftrightarrow> j = i"
      using same_bit_index [of "j * 2" "i * 2"] by simp
    then show ?thesis
      using byte True entry_bits [OF entry_offset [of i] entry_offset [of j] v]
      by (simp add: extentState_def setExtentState_def Let_def eamBitsPerExtent_def)
  next
    case False
    then have "j \<noteq> i" by auto
    with False byte show ?thesis
      by (simp add: extentState_def setExtentState_def Let_def eamBitsPerExtent_def)
  qed
qed

lemma extent_values_ok [simp]:
  "extentFree AND 3 = extentFree" "extentPartial AND 3 = extentPartial" "extentFull AND 3 = extentFull"
  by (simp_all add: extentFree_def extentPartial_def extentFull_def)

lemma extent_values_distinct [simp]:
  "extentFree \<noteq> extentPartial" "extentFree \<noteq> extentFull" "extentPartial \<noteq> extentFull"
  "extentPartial \<noteq> extentFree" "extentFull \<noteq> extentFree" "extentFull \<noteq> extentPartial"
  by (simp_all add: extentFree_def extentPartial_def extentFull_def)

end
