(* ===== verification/Alloc.thy ===== *)
theory Alloc
  imports Edit Bitmaps
begin

text \<open>
  The page allocator (\<open>ddl.go\<close>, \<open>ddl_grow.go\<close>): finding free pages in the Page Free
  Space map on page 0, growing the file when it is short of them, recording the new pages
  in both allocation maps, and giving pages back. The random State a fresh page is
  stamped with (\<open>newPageState\<close>) is the argument \<open>seed\<close>, a value per page number.
\<close>

definition pfsPageNo :: int where "pfsPageNo = 0"
definition eamPageNo :: int where "eamPageNo = 1"

section \<open>Growing the file\<close>

definition mappablePages :: "'a dbfile_scheme \<Rightarrow> int" where
  "mappablePages db =
     (if payloadSize db \<le> 0 \<or> pagesInExtent db = 0 then 0
      else min (payloadSize db * 8)
               (payloadSize db * 8 div int eamBitsPerExtent * int (pagesInExtent db)))"

definition extendFile :: "int \<Rightarrow> ('a dbfile_scheme, unit) op" where
  "extendFile shortfall db =
     (let perExtent = int (pagesInExtent db);
          extents = (shortfall + perExtent - 1) div perExtent;
          total = PageCount db + extents * perExtent in
      if \<not> writable db then (Inl ErrReadOnly, db)
      else if shortfall \<le> 0 then (Inl (ErrText ''cannot extend the file''), db)
      else if perExtent \<le> 0 then (Inl (ErrText ''invalid extent size''), db)
      else if total > mappablePages db then (Inl ErrDatabaseTooLarge, db)
      else setTotalPageCount total
             (db\<lparr>disk := truncateTo (nat total * pageSize db + diskPageHeaderOffset) (disk db)\<rparr>))"

section \<open>The allocation maps\<close>

fun scanFree :: "byte list \<Rightarrow> nat \<Rightarrow> nat list \<Rightarrow> nat list" where
  "scanFree pfs want [] = []"
| "scanFree pfs want (no # nos) =
     (if want = 0 then []
      else if \<not> pfsAllocated pfs (int no) then no # scanFree pfs (want - 1) nos
      else scanFree pfs want nos)"

definition findFreePages :: "byte list \<Rightarrow> int \<Rightarrow> nat \<Rightarrow> nat list" where
  "findFreePages pfs pageCount n = scanFree pfs n [0..<min (nat pageCount) (length pfs * 8)]"

text \<open>\<open>markPagesAllocated\<close> indexes the map with no range check of its own.\<close>

fun markBits :: "nat list \<Rightarrow> byte list \<Rightarrow> byte list result" where
  "markBits [] pfs = Inr pfs"
| "markBits (no # nos) pfs =
     (if no div 8 \<ge> length pfs then Inl GoPanic else markBits nos (orBit no pfs))"

definition markPagesAllocated :: "nat list \<Rightarrow> pagebuf \<Rightarrow> pagebuf result" where
  "markPagesAllocated newPages pfs = bindR (markBits newPages (bufPayload pfs)) (\<lambda>payload.
     Inr ((setPayload payload pfs)\<lparr>
       stateBump := (if dirty pfs then stateBump pfs else 0) + int (length newPages), dirty := True\<rparr>))"

definition computeExtentState :: "byte list \<Rightarrow> nat \<Rightarrow> nat \<Rightarrow> int \<Rightarrow> byte" where
  "computeExtentState pfs extent perExtent pageCount =
     (let allocated = length (filter (\<lambda>no. int no < pageCount \<and> pfsAllocated pfs (int no))
            [extent * perExtent..<(extent + 1) * perExtent]) in
      if allocated = 0 then extentFree
      else if allocated = perExtent then extentFull
      else extentPartial)"

text \<open>The loop over extents of \<open>updateExtentMap\<close>: each extent once, in order of first sight.\<close>

fun updateExtents ::
    "(nat \<Rightarrow> byte) \<Rightarrow> nat \<Rightarrow> nat list \<Rightarrow> nat list \<Rightarrow> byte list \<times> nat \<Rightarrow> byte list \<times> nat" where
  "updateExtents new perExtent [] seen acc = acc"
| "updateExtents new perExtent (no # nos) seen (eam, changed) =
     (let extent = no div perExtent in
      if extent \<in> set seen then updateExtents new perExtent nos seen (eam, changed)
      else if extentState eam extent = new extent
      then updateExtents new perExtent nos (extent # seen) (eam, changed)
      else updateExtents new perExtent nos (extent # seen)
             (setExtentState eam extent (new extent), changed + 1))"

definition updateExtentMap :: "byte list \<Rightarrow> nat list \<Rightarrow> nat \<Rightarrow> int \<Rightarrow> pagebuf \<Rightarrow> pagebuf" where
  "updateExtentMap pfs newPages perExtent pageCount eam =
     (let bump = (if dirty eam then stateBump eam else 0) in
      case updateExtents (\<lambda>extent. computeExtentState pfs extent perExtent pageCount) perExtent
             newPages [] (bufPayload eam, 0) of
        (payload, changed) \<Rightarrow> (setPayload payload eam)\<lparr>stateBump := bump + int changed,
          dirty := (changed > 0 \<or> dirty eam)\<rparr>)"

section \<open>Allocation\<close>

definition initPage :: "u32 \<Rightarrow> u16 \<Rightarrow> u32 \<Rightarrow> pagebuf \<Rightarrow> pagebuf" where
  "initPage state pageType objectID buf =
     buf\<lparr>raw := splice diskPageHeaderOffset (writeDiskPageHeader state pageType objectID) (raw buf),
         stateBump := 0, dirty := True\<rparr>"

definition initNewPages ::
    "(nat \<Rightarrow> u32) \<Rightarrow> nat list \<Rightarrow> u16 \<Rightarrow> u32 \<Rightarrow> ('x edit_scheme, unit) op" where
  "initNewPages seed newPages pageType objectID = forO newPages (\<lambda>no.
     bindO (loadFresh (int no)) (\<lambda>k. updBuf k (initPage (seed no) pageType objectID)))"

definition freePagesOf :: "nat \<Rightarrow> nat \<Rightarrow> 'x edit_scheme \<Rightarrow> nat list" where
  "freePagesOf pfs n s = findFreePages (bufPayload (bufAt pfs s)) (PageCount (edDb s)) n"

text \<open>The part of \<open>allocatePages\<close> that chooses the pages, growing the file when it must.\<close>

definition chooseFreePages :: "nat \<Rightarrow> int \<Rightarrow> ('x edit_scheme, nat list) op" where
  "chooseFreePages pfs n =
     bindO (getO (freePagesOf pfs (nat n))) (\<lambda>found.
     if int (length found) < n
     then bindO (onDb (extendFile (n - int (length found)))) (\<lambda>_.
          bindO (getO (freePagesOf pfs (nat n))) (\<lambda>again.
          if int (length again) < n then failO ErrOutOfSpace else retO again))
     else retO found)"

definition allocatePages ::
    "(nat \<Rightarrow> u32) \<Rightarrow> int \<Rightarrow> u16 \<Rightarrow> u32 \<Rightarrow> ('x edit_scheme, nat list) op" where
  "allocatePages seed n pageType objectID =
     bindO (guardO (n > 0) (ErrText ''cannot allocate'')) (\<lambda>_.
     bindO (load pfsPageNo) (\<lambda>pfs.
     bindO (chooseFreePages pfs n) (\<lambda>newPages.
     bindO (getO (\<lambda>s. markPagesAllocated newPages (bufAt pfs s))) (\<lambda>marked.
     bindO (liftO marked) (\<lambda>b.
     bindO (updBuf pfs (\<lambda>_. b)) (\<lambda>_.
     bindO (load eamPageNo) (\<lambda>eam.
     bindO (getO (\<lambda>s. pagesInExtent (edDb s))) (\<lambda>perExtent.
     bindO (guardO (perExtent > 0) (ErrText ''invalid extent size'')) (\<lambda>_.
     bindO (modO (\<lambda>s. putBuf eam (updateExtentMap (bufPayload (bufAt pfs s)) newPages perExtent
                        (PageCount (edDb s)) (bufAt eam s)) s)) (\<lambda>_.
     bindO (initNewPages seed newPages pageType objectID) (\<lambda>_.
     bindO (modO (\<lambda>s. s\<lparr>edDb := setLastUsedPageNo
              (max (int (last newPages)) (lastUsedPageNo (edDb s))) (edDb s)\<rparr>)) (\<lambda>_.
     retO newPages))))))))))))"

section \<open>Release\<close>

fun clearBits :: "nat list \<Rightarrow> (byte list, unit) op" where
  "clearBits [] pfs = (Inr (), pfs)"
| "clearBits (no # nos) pfs =
     (if \<not> pfsAllocated pfs (int no) then (Inl (ErrText ''page is already free''), pfs)
      else clearBits nos (andNotBit no pfs))"

text \<open>The loop of \<open>releasePages\<close> over extents: only a full one is touched.\<close>

fun downgradeExtents :: "nat \<Rightarrow> nat list \<Rightarrow> nat list \<Rightarrow> byte list \<times> nat \<Rightarrow> byte list \<times> nat" where
  "downgradeExtents perExtent [] seen acc = acc"
| "downgradeExtents perExtent (no # nos) seen (eam, changed) =
     (let extent = no div perExtent in
      if extent \<in> set seen then downgradeExtents perExtent nos seen (eam, changed)
      else if extentState eam extent \<noteq> extentFull
      then downgradeExtents perExtent nos (extent # seen) (eam, changed)
      else downgradeExtents perExtent nos (extent # seen)
             (setExtentState eam extent extentPartial, changed + 1))"

fun lastAllocated :: "byte list \<Rightarrow> nat list \<Rightarrow> int \<Rightarrow> int" where
  "lastAllocated pfs [] l = l"
| "lastAllocated pfs (no # nos) l =
     lastAllocated pfs nos (if pfsAllocated pfs (int no) then int no else l)"

definition clearPages :: "nat \<Rightarrow> nat list \<Rightarrow> ('x edit_scheme, unit) op" where
  "clearPages pfs pages s = (case clearBits pages (bufPayload (bufAt pfs s)) of
     (r, payload) \<Rightarrow> (r, putBuf pfs (setPayload payload (bufAt pfs s)) s))"

definition downgradeMap :: "nat \<Rightarrow> nat list \<Rightarrow> pagebuf \<Rightarrow> pagebuf" where
  "downgradeMap perExtent pages eam =
     (case downgradeExtents perExtent pages [] (bufPayload eam, 0) of
        (payload, changed) \<Rightarrow>
          (setPayload payload eam)\<lparr>stateBump := int changed, dirty := (changed > 0)\<rparr>)"

definition releasePages :: "nat list \<Rightarrow> ('x edit_scheme, int) op" where
  "releasePages pages =
     bindO (load pfsPageNo) (\<lambda>pfs.
     bindO (clearPages pfs pages) (\<lambda>_.
     bindO (updBuf pfs (\<lambda>b. b\<lparr>stateBump := int (length pages), dirty := (length pages > 0)\<rparr>)) (\<lambda>_.
     bindO (load eamPageNo) (\<lambda>eam.
     bindO (getO (\<lambda>s. pagesInExtent (edDb s))) (\<lambda>perExtent.
     bindO (guardO (perExtent > 0) (ErrText ''invalid extent size'')) (\<lambda>_.
     bindO (updBuf eam (downgradeMap perExtent pages)) (\<lambda>_.
     getO (\<lambda>s. lastAllocated (bufPayload (bufAt pfs s)) [0..<nat (PageCount (edDb s))] (-1)))))))))"

section \<open>Page chains\<close>

definition linkChain :: "int \<Rightarrow> int \<Rightarrow> ('x edit_scheme, unit) op" where
  "linkChain no nxt = bindO (load no) (\<lambda>k. updBuf k (\<lambda>b.
     b\<lparr>raw := splice (diskPageHeaderOffset + 10) (leU32 (uint32 (int32 nxt))) (raw b), dirty := True\<rparr>))"

definition tombstone :: "nat list \<Rightarrow> ('x edit_scheme, unit) op" where
  "tombstone pages = forO pages (\<lambda>no. bindO (load (int no)) (\<lambda>k. updBuf k (\<lambda>b.
     b\<lparr>raw := splice pageStateOffset (leU32 pageStateFree) (raw b), stateBump := 0, dirty := True\<rparr>)))"

definition freeChainPages :: "nat list \<Rightarrow> ('x edit_scheme, unit) op" where
  "freeChainPages pages =
     bindO (tombstone pages) (\<lambda>_.
     bindO (releasePages pages) (\<lambda>l.
     modO (\<lambda>s. s\<lparr>edDb := setLastUsedPageNo l (edDb s)\<rparr>)))"

text \<open>
  The growing loop of \<open>resizeChain\<close> appends one page a turn, so it runs as often as
  pages are missing. \<open>pages\<close> is never empty in the code's calls; Go panics on an empty one.
\<close>

fun growChain ::
    "(nat \<Rightarrow> u32) \<Rightarrow> nat \<Rightarrow> u16 \<Rightarrow> u32 \<Rightarrow> nat list \<Rightarrow> ('x edit_scheme, nat list) op" where
  "growChain seed 0 pageType objectID pages = retO pages"
| "growChain seed (Suc missing) pageType objectID pages =
     bindO (allocatePages seed 1 pageType objectID) (\<lambda>added.
     if pages = [] then failO GoPanic
     else bindO (linkChain (int (last pages)) (int (hd added))) (\<lambda>_.
       growChain seed missing pageType objectID (pages @ [hd added])))"

definition resizeChain ::
    "(nat \<Rightarrow> u32) \<Rightarrow> nat list \<Rightarrow> nat \<Rightarrow> u16 \<Rightarrow> u32 \<Rightarrow> ('x edit_scheme, nat list) op" where
  "resizeChain seed pages n pageType objectID =
     bindO (growChain seed (n - length pages) pageType objectID pages) (\<lambda>pages.
     if length pages > n
     then (if n = 0 then failO GoPanic
           else bindO (linkChain (int (last (take n pages))) (-1)) (\<lambda>_.
                bindO (freeChainPages (drop n pages)) (\<lambda>_.
                retO (take n pages))))
     else retO pages)"

section \<open>The loops as functions of the maps\<close>

lemma scanFree_filter: "scanFree pfs want nos = take want (filter (\<lambda>no. \<not> pfsAllocated pfs (int no)) nos)"
  by (induction pfs want nos rule: scanFree.induct) (auto simp: take_Cons')

lemma strict_sorted_take_filter: "sorted_wrt (<) (take n (filter P [a..<b :: nat]))"
  by (simp add: sorted_wrt_filter sorted_wrt_take)

text \<open>The first \<open>n\<close> free pages: those found are free, and none below the last is left out.\<close>

lemma take_filter_prefix:
  assumes "sorted_wrt (<) (filter P xs)" and "x \<in> set (filter P xs)" and "y \<in> set (take n (filter P xs))"
    and "x \<le> (y :: nat)"
  shows "x \<in> set (take n (filter P xs))"
proof -
  obtain i where i: "i < length (filter P xs)" "x = filter P xs ! i" using assms(2) by (metis in_set_conv_nth)
  obtain j where j: "j < n" "j < length (filter P xs)" "y = filter P xs ! j"
    using assms(3) by (fastforce simp: in_set_conv_nth)
  have "i \<le> j"
    using sorted_wrt_nth_less [OF assms(1), of j i] i j assms(4) by (meson leD not_le_imp_less)
  with i j show ?thesis by (auto simp: in_set_conv_nth intro!: exI [of _ i])
qed

lemma findFreePages_spec:
  defines "free \<equiv> \<lambda>pfs pc no. no < 8 * length pfs \<and> int no < pc \<and> \<not> pfsAllocated pfs (int no)"
  shows "sorted_wrt (<) (findFreePages pfs pc n)"
    and "length (findFreePages pfs pc n) \<le> n"
    and "no \<in> set (findFreePages pfs pc n) \<Longrightarrow> free pfs pc no"
    and "free pfs pc no \<Longrightarrow> no \<le> m \<Longrightarrow> m \<in> set (findFreePages pfs pc n) \<Longrightarrow> no \<in> set (findFreePages pfs pc n)"
    and "length (findFreePages pfs pc n) < n \<Longrightarrow> free pfs pc no \<Longrightarrow> no \<in> set (findFreePages pfs pc n)"
proof -
  let ?all = "filter (\<lambda>no. \<not> pfsAllocated pfs (int no)) [0..<min (nat pc) (length pfs * 8)]"
  have eq: "findFreePages pfs pc n = take n ?all" by (simp add: findFreePages_def scanFree_filter)
  have mem: "no \<in> set ?all \<longleftrightarrow> free pfs pc no" for no by (auto simp: free_def)
  show "sorted_wrt (<) (findFreePages pfs pc n)" by (simp add: eq strict_sorted_take_filter)
  show "length (findFreePages pfs pc n) \<le> n" by (simp add: eq)
  show "no \<in> set (findFreePages pfs pc n) \<Longrightarrow> free pfs pc no"
    using mem by (auto simp only: eq dest: in_set_takeD)
  show "free pfs pc no \<Longrightarrow> no \<le> m \<Longrightarrow> m \<in> set (findFreePages pfs pc n) \<Longrightarrow> no \<in> set (findFreePages pfs pc n)"
    using take_filter_prefix [of "\<lambda>no. \<not> pfsAllocated pfs (int no)" "[0..<min (nat pc) (length pfs * 8)]" no m n]
      mem [of no] by (simp add: eq sorted_wrt_filter)
  show "length (findFreePages pfs pc n) < n \<Longrightarrow> free pfs pc no \<Longrightarrow> no \<in> set (findFreePages pfs pc n)"
    using mem [of no] by (simp add: eq)
qed

lemma markBits_fold:
  "(\<And>no. no \<in> set nos \<Longrightarrow> no < 8 * length p) \<Longrightarrow> markBits nos p = Inr (fold (pfs_put True) nos p)"
  by (induction nos p rule: markBits.induct) (simp_all add: pfs_put_def not_le div_8_less)

lemma clearBits_Inr:
  "clearBits nos p = (Inr (), q) \<Longrightarrow>
   q = fold (pfs_put False) nos p \<and> distinct nos
     \<and> (\<forall>no \<in> set nos. pfsAllocated p (int no) \<and> no < 8 * length p)"
proof (induction nos p rule: clearBits.induct)
  case (2 no nos p)
  then have a: "pfsAllocated p (int no)" by (auto split: if_splits)
  then have lt: "no < 8 * length p" by (rule pfs.test_cap)
  from 2 a have IH: "q = fold (pfs_put False) nos (andNotBit no p) \<and> distinct nos
     \<and> (\<forall>j \<in> set nos. pfsAllocated (andNotBit no p) (int j) \<and> j < 8 * length (andNotBit no p))" by simp
  have "pfsAllocated (andNotBit no p) (int j) = (j \<noteq> no \<and> pfsAllocated p (int j))" for j
    using pfs.test_put [OF lt, of False j] by (simp add: pfs_put_def)
  then have "\<forall>j \<in> set nos. j \<noteq> no \<and> pfsAllocated p (int j) \<and> j < 8 * length p"
    using IH by (simp only:) simp
  moreover from this have "no \<notin> set nos" by blast
  ultimately show ?case using IH a lt by (simp add: pfs_put_def [of False no p])
qed simp

lemma clearBits_total:
  assumes "distinct nos" and "\<And>no. no \<in> set nos \<Longrightarrow> pfsAllocated p (int no)"
  shows "clearBits nos p = (Inr (), fold (pfs_put False) nos p)"
  using assms
proof (induction nos p rule: clearBits.induct)
  case (2 no nos p)
  have lt: "no < 8 * length p" using pfs.test_cap 2(3) by simp
  have "pfsAllocated (andNotBit no p) (int j)" if "j \<in> set nos" for j
    using pfs.test_put [OF lt, of False j] 2(2,3) that by (auto simp: pfs_put_def)
  with 2 show ?case by (simp add: pfs_put_def)
qed simp

lemma length_clearBits [simp]: "length (snd (clearBits nos p)) = length p"
  by (induction nos p rule: clearBits.induct) auto

text \<open>Both extent loops: each touched entry of the map is rewritten by its rule, once.\<close>

lemma updateExtents_state:
  assumes "\<And>e. new e AND 3 = new e" and "updateExtents new per nos seen (eam, c) = (eam', c')"
  shows "extentState eam' j = (if j \<in> (\<lambda>no. no div per) ` set nos \<and> j \<notin> set seen \<and> j < 4 * length eam
      then new j else extentState eam j) \<and> length eam' = length eam"
  using assms(2)
proof (induction nos arbitrary: seen eam c)
  case (Cons no nos)
  let ?e = "no div per"
  have out: "setExtentState eam ?e (new ?e) = eam" if "\<not> ?e < 4 * length eam"
    using that div_8_less [of "?e * 2" "length eam"]
    by (simp add: setExtentState_def eamBitsPerExtent_def Let_def)
  have upd: "extentState (setExtentState eam ?e (new ?e)) j
      = (if j = ?e \<and> ?e < 4 * length eam then new ?e else extentState eam j)"
    using eam.get_upd [of ?e eam "new ?e" j] assms(1) out by (cases "?e < 4 * length eam") auto
  show ?case
    using Cons.prems Cons.IH [of seen eam c] Cons.IH [of "?e # seen" eam c]
      Cons.IH [of "?e # seen" "setExtentState eam ?e (new ?e)" "c + 1"] upd
    by (auto simp: Let_def split: if_splits)
qed simp

lemma downgradeExtents_update:
  "downgradeExtents per nos seen (eam, c) = updateExtents
     (\<lambda>e. if extentState eam0 e = extentFull then extentPartial else extentState eam0 e) per nos seen (eam, c)"
  if "\<And>e. e \<notin> set seen \<Longrightarrow> extentState eam e = extentState eam0 e"
  using that
proof (induction nos arbitrary: seen eam c)
  case (Cons no nos)
  let ?e = "no div per"
  have upd: "extentState (setExtentState eam ?e v) e = extentState eam e" if "e \<noteq> ?e" "v AND 3 = v" for v e
  proof (cases "?e < 4 * length eam")
    case True
    with eam.get_upd [OF True that(2), of e] that show ?thesis by simp
  next
    case False
    then show ?thesis using div_8_less [of "?e * 2" "length eam"]
      by (simp add: setExtentState_def eamBitsPerExtent_def Let_def)
  qed
  show ?case
  proof (cases "?e \<in> set seen")
    case True
    then show ?thesis using Cons by simp
  next
    case False
    then have "extentState eam ?e = extentState eam0 ?e" using Cons.prems by simp
    with False Cons.IH [of "?e # seen" eam c] Cons.prems
      Cons.IH [of "?e # seen" "setExtentState eam ?e extentPartial" "c + 1"] upd
    show ?thesis by (auto simp: Let_def)
  qed
qed simp

lemma updateExtents_unchanged:
  "(\<And>no. no \<in> set nos \<Longrightarrow> extentState eam (no div per) = new (no div per)) \<Longrightarrow>
   updateExtents new per nos seen (eam, c) = (eam, c)"
  by (induction nos arbitrary: seen) (simp_all add: Let_def)

lemma lastAllocated_spec:
  "lastAllocated pfs nos l
    = (if \<exists>no \<in> set nos. pfsAllocated pfs (int no)
       then int (last (filter (\<lambda>no. pfsAllocated pfs (int no)) nos)) else l)"
  by (induction pfs nos l rule: lastAllocated.induct) (auto simp: filter_empty_conv)

lemma extent_values_le [simp]: "computeExtentState pfs e per pc AND 3 = computeExtentState pfs e per pc"
  by (simp add: computeExtentState_def Let_def)

text \<open>What the three values of an entry say of the pages of the extent.\<close>

lemma computeExtentState_full:
  assumes "0 < per"
  shows "computeExtentState pfs e per pc = extentFull \<longleftrightarrow>
    (\<forall>no. no div per = e \<longrightarrow> int no < pc \<and> pfsAllocated pfs (int no))"
    and "computeExtentState pfs e per pc = extentFree \<longleftrightarrow>
    (\<forall>no. no div per = e \<longrightarrow> \<not> (int no < pc \<and> pfsAllocated pfs (int no)))"
proof -
  let ?P = "\<lambda>no. int no < pc \<and> pfsAllocated pfs (int no)"
  let ?range = "[e * per..<(e + 1) * per]"
  have mem: "no \<in> set ?range \<longleftrightarrow> no div per = e" for no
    using assms by (auto simp: div_nat_eqI mult.commute div_times_less_eq_dividend dividend_less_times_div)
  have nonempty: "(e * per) div per = e" using assms by simp
  have len: "length (filter ?P ?range) = per \<longleftrightarrow> (\<forall>no \<in> set ?range. ?P no)"
    using sum_length_filter_compl [of ?P ?range] by (auto simp: filter_empty_conv)
  show "computeExtentState pfs e per pc = extentFull \<longleftrightarrow> (\<forall>no. no div per = e \<longrightarrow> ?P no)"
    using len assms mem by (auto simp: computeExtentState_def Let_def filter_empty_conv)
      (rule exI [of _ "e * per"], rule nonempty)
  show "computeExtentState pfs e per pc = extentFree \<longleftrightarrow> (\<forall>no. no div per = e \<longrightarrow> \<not> ?P no)"
    using mem by (auto simp: computeExtentState_def Let_def filter_empty_conv)
qed


section \<open>Growing a well-formed file\<close>

lemma min_floor: "min (a * 8) (a * 8 div 2 * p) \<le> (a * 8 :: int)"
  by simp

lemma ceil_div:
  fixes n p :: int
  assumes "0 < p" and "0 < n"
  shows "n \<le> (n + p - 1) div p * p" and "(n + p - 1) div p * p < n + p"
proof -
  have "(n + p - 1) div p * p + (n + p - 1) mod p = n + p - 1" by simp
  moreover have "0 \<le> (n + p - 1) mod p" "(n + p - 1) mod p < p" using assms by simp_all
  ultimately show "n \<le> (n + p - 1) div p * p" "(n + p - 1) div p * p < n + p" by linarith+
qed

lemma regionOf_truncate:
  assumes "n * ps + diskPageHeaderOffset + ps \<le> m" and "n * ps + diskPageHeaderOffset + ps \<le> length d"
  shows "regionOf ps (truncateTo m d) n = regionOf ps d n"
  using assms by (simp add: regionOf_def truncateTo_def slc_append_left) (simp add: slc_def drop_take)

text \<open>The growth rule: the smallest number of whole extents that covers the shortfall.\<close>

lemma extendFile_spec:
  assumes ok: "file_ok db" and run: "extendFile short db = (Inr (), db')"
  shows "file_ok db'" and "0 < short" and "0 < pagesInExtent db" and "writable db"
    and "totalPageCount db' = totalPageCount db
      + (short + int (pagesInExtent db) - 1) div int (pagesInExtent db) * int (pagesInExtent db)"
    and "totalPageCount db + short \<le> totalPageCount db'"
    and "totalPageCount db' < totalPageCount db + short + int (pagesInExtent db)"
    and "totalPageCount db' \<le> 8 * (int (pageSize db) - 40)"
    and "pageSize db' = pageSize db" and "pagesInExtent db' = pagesInExtent db"
    and "lastUsedPageNo db' = lastUsedPageNo db"
    and "cryptoHeader db' = cryptoHeader db" and "decryptionKey db' = decryptionKey db"
    and "cipherlib db' = cipherlib db"
    and "0 \<le> n \<Longrightarrow> n < totalPageCount db \<Longrightarrow>
      regionOf (pageSize db) (disk db') (nat n) = regionOf (pageSize db) (disk db) (nat n)"
    and "length (disk db') = nat (totalPageCount db') * pageSize db + 380"
proof -
  let ?per = "int (pagesInExtent db)"
  let ?total = "totalPageCount db + (short + ?per - 1) div ?per * ?per"
  let ?db = "db\<lparr>disk := truncateTo (nat ?total * pageSize db + diskPageHeaderOffset) (disk db)\<rparr>"
  have pre: "writable db" "0 < short" "0 < ?per" "?total \<le> mappablePages db"
    and set: "setTotalPageCount ?total ?db = (Inr (), db')"
    using run by (auto simp: extendFile_def Let_def PageCount_def split: if_splits)
  note grow = ceil_div [OF pre(3,2)]
  have tpc: "0 \<le> totalPageCount db" using ok by (simp add: file_ok_def)
  have small: "?total \<le> 2 ^ 31 - 1" using set by (simp add: setTotalPageCount_def split: if_splits)
  have id: "int32 ?total = ?total" using small tpc grow pre(2) by (intro int32_id) linarith+
  have db': "db' = ?db\<lparr>totalPageCount := ?total,
      disk := writeAt (leU32 (uint32 ?total)) totalPageCountOffset (disk ?db)\<rparr>"
    using set id grow pre(2) by (auto simp: setTotalPageCount_def split: if_splits)
  have d: "disk db' = splice 30 (leU32 (uint32 ?total)) (disk ?db)"
    by (simp add: db' writeAt_inside layout_consts truncateTo_def)
  show "0 < short" "0 < pagesInExtent db" "writable db" using pre by auto
  show "totalPageCount db' = ?total" "pageSize db' = pageSize db" "pagesInExtent db' = pagesInExtent db"
    "lastUsedPageNo db' = lastUsedPageNo db" "cryptoHeader db' = cryptoHeader db"
    "decryptionKey db' = decryptionKey db" "cipherlib db' = cipherlib db"
    by (simp_all add: db')
  show "totalPageCount db + short \<le> totalPageCount db'"
    "totalPageCount db' < totalPageCount db + short + ?per"
    using grow by (simp_all add: db')
  have "mappablePages db \<le> 8 * (int (pageSize db) - 40)"
    using ok by (auto simp: mappablePages_def payloadSize_def file_ok_def layout_consts eamBitsPerExtent_def)
  then show "totalPageCount db' \<le> 8 * (int (pageSize db) - 40)" using pre(4) by (simp add: db')
  show len: "length (disk db') = nat (totalPageCount db') * pageSize db + 380"
    by (simp add: d truncateTo_def layout_consts) (simp add: db')
  then show "file_ok db'"
    using ok small tpc grow pre(2) by (simp add: file_ok_def layout_consts db')
  fix n assume n: "0 \<le> n" "n < totalPageCount db"
  have "Suc (nat n) * pageSize db \<le> nat ?total * pageSize db"
    using n grow pre(2) by (intro mult_le_mono1) linarith
  then have "regionOf (pageSize db) (disk ?db) (nat n) = regionOf (pageSize db) (disk db) (nat n)"
    using file_ok_page_end [OF ok n] by (simp add: layout_consts regionOf_truncate)
  then show "regionOf (pageSize db) (disk db') (nat n) = regionOf (pageSize db) (disk db) (nat n)"
    unfolding d by (simp add: regionOf_def layout_consts slc_splice_disjoint)
qed

lemma extendFile_failed:
  "file_ok db \<Longrightarrow> extendFile short db = (Inl e, db') \<Longrightarrow> e \<noteq> GoPanic"
  by (auto simp: extendFile_def setTotalPageCount_def Let_def split: if_splits)

text \<open>Payloads of a file as a function of its regions.\<close>

lemma ReadPage_payload:
  "bindR (ReadPage db n) (\<lambda>p. Inr (Payload p)) = bindR (pageView db n) (\<lambda>v. Inr (fst v))"
  by (cases "ReadPage db n") (simp_all add: pageView_def)

lemma ReadPage_payload_same:
  assumes "file_ok db" and "file_ok db'" and "0 \<le> n" and "n < totalPageCount db" and "n < totalPageCount db'"
    and "pageSize db' = pageSize db" and "cryptoHeader db' = cryptoHeader db"
    and "decryptionKey db' = decryptionKey db" and "cipherlib db' = cipherlib db"
    and "regionOf (pageSize db) (disk db') (nat n) = regionOf (pageSize db) (disk db) (nat n)"
  shows "pageView db' n = pageView db n"
  using assms viewOf_cong [of db' db] by (simp add: pageView_region)

lemma ReadPage_range: "bindR (ReadPage db n) f = Inr y \<Longrightarrow> 0 \<le> n \<and> n < totalPageCount db"
  by (auto simp: ReadPage_def PageCount_def split: if_splits)

text \<open>
  An edit over a file that only grew or only had its header fields rewritten is still well
  formed, and every payload it could read it reads unchanged.
\<close>

definition same_pages :: "dbfile \<Rightarrow> dbfile \<Rightarrow> bool" where
  "same_pages db db' \<longleftrightarrow> file_ok db' \<and> totalPageCount db \<le> totalPageCount db'
     \<and> pageSize db' = pageSize db \<and> cryptoHeader db' = cryptoHeader db
     \<and> decryptionKey db' = decryptionKey db \<and> cipherlib db' = cipherlib db
     \<and> (\<forall>n. 0 \<le> n \<longrightarrow> n < totalPageCount db \<longrightarrow>
          regionOf (pageSize db) (disk db') (nat n) = regionOf (pageSize db) (disk db) (nat n))"

lemma same_pages_edit:
  assumes "edit_ok s" and "same_pages (edDb s) db'"
  shows "edit_ok (s\<lparr>edDb := db'\<rparr>)"
    and "editPayload s k = Inr p \<Longrightarrow> editPayload (s\<lparr>edDb := db'\<rparr>) k = Inr p"
proof -
  note ok = edit_okD [OF assms(1)]
  have "buf_ok db' b" if "edPages s k = Some b" for k b
    using ok(3) [OF that] assms(2) by (auto simp: same_pages_def buf_ok_def pageReadSize_def)
  then show "edit_ok (s\<lparr>edDb := db'\<rparr>)"
    using assms payloadCipher_cong [of db' "edDb s"]
    by (auto simp: edit_ok_def same_pages_def cipher_lawful_def)
  assume "editPayload s k = Inr p"
  then show "editPayload (s\<lparr>edDb := db'\<rparr>) k = Inr p"
  proof (cases "edPages s k")
    case None
    then have p: "bindR (pageView (edDb s) (int k)) (\<lambda>v. Inr (fst v)) = Inr p"
      using \<open>editPayload s k = Inr p\<close> by (simp add: editPayload_def ReadPage_payload)
    then have "int k < totalPageCount (edDb s)" by (simp add: pageView_def) (auto dest: ReadPage_result [OF ok(1,2)])
    then have "pageView db' (int k) = pageView (edDb s) (int k)"
      using assms(2) ok(1) by (intro ReadPage_payload_same) (auto simp: same_pages_def dest: spec [of _ "int k"])
    with None p show ?thesis by (simp add: editPayload_def ReadPage_payload)
  qed (simp add: editPayload_def)
qed

end
