(* ===== verification/Alloc_Spec.thy ===== *)
theory Alloc_Spec
  imports Alloc
begin

text \<open>
  What \<open>allocatePages\<close> and \<open>releasePages\<close> do, as a specification of the two allocation
  maps: which pages are taken, what each map holds afterwards, what a new page is
  stamped with, and that no branch indexes a map outside its bounds.
\<close>

section \<open>The stamped header\<close>

definition freshHeader :: "u32 \<Rightarrow> u16 \<Rightarrow> u32 \<Rightarrow> DiskPageHeader" where
  "freshHeader state pageType objectID = \<lparr>State = state, PageType = pageType, NextPageNo = noPageNo,
     CRC32 = 0, CRCType = 0, HashType = 0, CipherType = 0, MACType = 0, ObjectID = objectID,
     RecPageNo = noPageNo, RecItemNo = 0\<rparr>"

lemma get_zero [simp]: "getU16 (replicate n 0) i = 0" "getU32 (replicate n 0) i = 0"
proof -
  have "le_val (replicate m 0) = 0" for m by (induction m) simp_all
  then show "getU16 (replicate n 0) i = 0" "getU32 (replicate n 0) i = 0"
    by (simp_all add: getU16_def getU32_def slc_def)
qed

text \<open>The parser reads back what \<open>writeDiskPageHeader\<close> writes.\<close>

lemma parse_writeDiskPageHeader:
  assumes "420 \<le> length r"
  shows "parseDiskPageHeader (splice 380 (writeDiskPageHeader st t oid) r) = Some (freshHeader st t oid)"
proof -
  let ?h = "writeDiskPageHeader st t oid" and ?r = "splice 380 (writeDiskPageHeader st t oid) r"
  have h: "slc 380 420 ?r = ?h" using assms by simp
  have u32: "getU32 ?r (380 + i) = getU32 ?h i" if "i + 4 \<le> 40" for i
    using get_slc(2) [of i 40 380 ?r] that h by simp
  have u16: "getU16 ?r (380 + i) = getU16 ?h i" if "i + 2 \<le> 40" for i
    using get_slc(1) [of i 40 380 ?r] that h by simp
  have byte: "?r ! (380 + i) = ?h ! i" if "i < 40" for i
    using assms that by (simp add: nth_splice)
  have sig: "slc 380 384 ?r = slc 0 4 ?h"
    using slc_slc [of 4 40 0 380 ?r] h by simp
  have "length ABSP = 4" by (simp add: ABSP_def)
  then have fields: "slc 0 4 ?h = ABSP" "getU32 ?h 4 = st" "getU16 ?h 8 = t" "getU32 ?h 10 = noPageNo"
    "getU32 ?h 14 = 0" "getU32 ?h 22 = oid" "getU32 ?h 26 = noPageNo" "getU16 ?h 30 = 0"
    "?h ! 18 = 0" "?h ! 19 = 0" "?h ! 20 = 0" "?h ! 21 = 0"
    unfolding writeDiskPageHeader_def
    by (simp_all add: get_splice_disjoint slc_splice_disjoint nth_splice del: drop_splice_0)
  show ?thesis
    using assms fields u32 [of 4] u32 [of 10] u32 [of 14] u32 [of 22] u32 [of 26] u16 [of 8] u16 [of 30]
      byte [of 18] byte [of 19] byte [of 20] byte [of 21] sig
    by (simp add: parseDiskPageHeader_def layout_consts freshHeader_def Let_def)
qed

lemma initPage_fields [simp]:
  "bufNumber (initPage st t oid b) = bufNumber b" "bufEncrypted (initPage st t oid b) = bufEncrypted b"
  "length (raw (initPage st t oid b)) = length (raw b)"
  "dirty (initPage st t oid b) = True" "stateBump (initPage st t oid b) = 0"
  by (simp_all add: initPage_def)

lemma bufPayload_initPage [simp]: "bufPayload (initPage st t oid b) = bufPayload b"
  by (auto intro!: nth_equalityI simp: bufPayload_def initPage_def layout_consts nth_splice)

lemma buf_ok_initPage [simp]: "buf_ok db (initPage st t oid b) = buf_ok db b"
  by (simp add: buf_ok_def)

lemma parse_initPage:
  "420 \<le> length (raw b) \<Longrightarrow> parseDiskPageHeader (raw (initPage st t oid b)) = Some (freshHeader st t oid)"
  by (simp add: initPage_def layout_consts parse_writeDiskPageHeader)

section \<open>Buffers that change\<close>

text \<open>Replacing a loaded buffer by one of the same page and size.\<close>

lemma editPayload_putBuf:
  "editPayload (putBuf k b s) j = (if j = k then Inr (bufPayload b) else editPayload s j)"
  by (simp add: editPayload_def split: option.split)

lemma bufPayload_raw:
  "bufPayload (b\<lparr>stateBump := x, dirty := y\<rparr>) = bufPayload b"
  by (simp add: bufPayload_def)

lemma editPayload_bufAt:
  "k \<in> dom (edPages s) \<Longrightarrow> editPayload s k = Inr (bufPayload (bufAt k s))"
  by (auto simp: editPayload_def bufAt_def)

lemma initNewPages_spec:
  assumes "edit_ok s" and "distinct ns" and "initNewPages seed ns t oid s = (Inr (), s')"
  shows "edit_ok s' \<and> edDb s' = edDb s \<and> (\<forall>j. editPayload s' j = editPayload s j)
    \<and> dom (edPages s') = dom (edPages s) \<union> set ns
    \<and> (\<forall>j. j \<notin> set ns \<longrightarrow> j \<in> dom (edPages s) \<longrightarrow> bufAt j s' = bufAt j s)
    \<and> (\<forall>no \<in> set ns. int no < totalPageCount (edDb s) \<and> dirty (bufAt no s') \<and> stateBump (bufAt no s') = 0
        \<and> parseDiskPageHeader (raw (bufAt no s')) = Some (freshHeader (seed no) t oid))"
  using assms
proof (induction ns arbitrary: s)
  case Nil
  then show ?case by (simp add: initNewPages_def)
next
  case (Cons no ns)
  obtain k u where k: "loadFresh (int no) s = (Inr k, u)"
    and rest: "initNewPages seed ns t oid (putBuf k (initPage (seed no) t oid (bufAt k u)) u) = (Inr (), s')"
    using Cons.prems(3) by (auto simp: initNewPages_def bindO_eq_Inr)
  note ld = load_spec [OF Cons.prems(1) loader_intros(2) k]
  let ?u = "putBuf k (initPage (seed no) t oid (bufAt k u)) u"
  have kno: "k = no" using ld(1) by simp
  have buf: "buf_ok (edDb u) (bufAt k u)" "bufNumber (bufAt k u) = k"
    using buf_ok_bufAt [OF ld(5,6)] by blast+
  have u: "edit_ok ?u" using ld(5,6) buf by (intro edit_ok_putBuf) simp_all
  have parse: "parseDiskPageHeader (raw (bufAt no ?u)) = Some (freshHeader (seed no) t oid)"
    using length_raw [OF edit_okD(1) [OF ld(5)] buf(1)] by (simp add: kno parse_initPage)
  have pay: "editPayload ?u j = editPayload s j" for j
    using ld(9) [of j] editPayload_bufAt [OF ld(6)] by (auto simp: editPayload_putBuf)
  have IH: "edit_ok s' \<and> edDb s' = edDb ?u \<and> (\<forall>j. editPayload s' j = editPayload ?u j)
    \<and> dom (edPages s') = dom (edPages ?u) \<union> set ns
    \<and> (\<forall>j. j \<notin> set ns \<longrightarrow> j \<in> dom (edPages ?u) \<longrightarrow> bufAt j s' = bufAt j ?u)
    \<and> (\<forall>no \<in> set ns. int no < totalPageCount (edDb ?u) \<and> dirty (bufAt no s') \<and> stateBump (bufAt no s') = 0
        \<and> parseDiskPageHeader (raw (bufAt no s')) = Some (freshHeader (seed no) t oid))"
    by (rule Cons.IH [OF u _ rest]) (use Cons.prems(2) in simp)
  have new: "bufAt no s' = bufAt no ?u" using IH Cons.prems(2) kno by auto
  have dirty: "dirty (bufAt no ?u)" "stateBump (bufAt no ?u) = 0" by (simp_all add: kno)
  have old: "bufAt j s' = bufAt j s" if "j \<notin> set (no # ns)" "j \<in> dom (edPages s)" for j
  proof -
    have "bufAt j s' = bufAt j ?u" using IH that ld(7) by (simp add: domIff)
    then show ?thesis using ld(8) [OF that(2)] that(1) kno by simp
  qed
  have db: "edDb s' = edDb s" using IH ld(4) by simp
  have pay': "editPayload s' j = editPayload s j" for j
    using conjunct1 [OF conjunct2 [OF conjunct2 [OF IH]]] pay [of j] by simp
  have ok: "edit_ok s'" by (rule conjunct1 [OF IH])
  show ?case
  proof (intro conjI allI impI ballI)
    show "edit_ok s'" by (fact ok)
    show "edDb s' = edDb s" by (fact db)
    show "editPayload s' j = editPayload s j" for j by (fact pay')
    show "j \<notin> set (no # ns) \<Longrightarrow> j \<in> dom (edPages s) \<Longrightarrow> bufAt j s' = bufAt j s" for j by (fact old)
    have "dom (edPages ?u) = insert no (dom (edPages s))" using ld(7) kno by auto
    with IH show "dom (edPages s') = dom (edPages s) \<union> set (no # ns)" by auto
    fix j assume j: "j \<in> set (no # ns)"
    have "j = no \<or> j \<in> set ns \<and> j \<noteq> no" using j Cons.prems(2) by auto
    then show "int j < totalPageCount (edDb s)" "dirty (bufAt j s')" "stateBump (bufAt j s') = 0"
      "parseDiskPageHeader (raw (bufAt j s')) = Some (freshHeader (seed j) t oid)"
      using IH new dirty parse ld(2,3,4) by auto
  qed
qed

section \<open>Choosing the pages\<close>

text \<open>
  The file stays as it is when nothing is missing; otherwise it grows once, by the
  smallest whole number of extents that covers what is missing.
\<close>

definition grows_for :: "int \<Rightarrow> dbfile \<Rightarrow> dbfile \<Rightarrow> bool" where
  "grows_for missing db db' \<longleftrightarrow> (if missing \<le> 0 then db' = db
     else writable db \<and> 0 < pagesInExtent db \<and> totalPageCount db' \<le> 8 * (int (pageSize db) - 40)
       \<and> totalPageCount db' = totalPageCount db
           + (missing + int (pagesInExtent db) - 1) div int (pagesInExtent db) * int (pagesInExtent db))"

lemma chooseFreePages_spec:
  assumes ok: "edit_ok s" and run: "chooseFreePages p n s = (Inr ns, s')" and n: "0 < n"
  obtains db' where "s' = s\<lparr>edDb := db'\<rparr>" and "same_pages (edDb s) db'"
    and "pagesInExtent db' = pagesInExtent (edDb s)" and "lastUsedPageNo db' = lastUsedPageNo (edDb s)"
    and "grows_for (n - int (length (freePagesOf p (nat n) s))) (edDb s) db'"
    and "ns = findFreePages (bufPayload (bufAt p s)) (totalPageCount db') (nat n)"
    and "int (length ns) = n"
proof -
  have upper: "int (length (freePagesOf p (nat n) t)) \<le> n" for t :: "'x edit_scheme"
    using findFreePages_spec(2) [of "bufPayload (bufAt p t)" "totalPageCount (edDb t)" "nat n"] n
    by (simp add: freePagesOf_def PageCount_def)
  have ok': "file_ok (edDb s)" using edit_okD(1) [OF ok] .
  show ?thesis
  proof (cases "n \<le> int (length (freePagesOf p (nat n) s))")
    case True
    then have res: "s' = s" "ns = freePagesOf p (nat n) s"
      using run by (auto simp: chooseFreePages_def)
    show ?thesis
      by (rule that [of "edDb s"])
        (use True upper [of s] ok' res in \<open>simp_all add: same_pages_def grows_for_def freePagesOf_def PageCount_def\<close>)
  next
    case False
    let ?short = "n - int (length (freePagesOf p (nat n) s))"
    obtain u where u: "onDb (extendFile ?short) s = (Inr (), u)" and ns: "ns = freePagesOf p (nat n) u"
      and len: "\<not> int (length ns) < n" and s'u: "s' = u"
      using run False by (auto simp: chooseFreePages_def bindO_eq_Inr split: if_splits)
    obtain db' where ext: "extendFile ?short (edDb s) = (Inr (), db')" and s': "s' = s\<lparr>edDb := db'\<rparr>"
      using u s'u by (cases "extendFile ?short (edDb s)") (auto simp: onDb_def)
    note e = extendFile_spec [OF ok' ext]
    have same: "same_pages (edDb s) db'" using e(1,2,6,9,12-15) by (simp add: same_pages_def)
    show ?thesis
      by (rule that [of db'])
        (use False upper [of s'] len e(3,4,5,8,9,10,11) s' s'u ns same in
          \<open>simp_all add: grows_for_def freePagesOf_def PageCount_def not_less\<close>)
  qed
qed

section \<open>Allocation\<close>

lemma markPagesAllocated_spec:
  assumes "\<And>no. no \<in> set ns \<Longrightarrow> no < 8 * length (bufPayload b)" and "420 \<le> length (raw b)"
  obtains b' where "markPagesAllocated ns b = Inr b'" and "bufPayload b' = fold (pfs_put True) ns (bufPayload b)"
    and "bufNumber b' = bufNumber b" and "length (raw b') = length (raw b)" and "dirty b'"
    and "stateBump b' = (if dirty b then stateBump b else 0) + int (length ns)"
proof -
  have len: "length (fold (pfs_put True) ns p) = length p" for p
    by (induction ns arbitrary: p) simp_all
  show ?thesis
    by (rule that [of "(setPayload (fold (pfs_put True) ns (bufPayload b)) b)\<lparr>
       stateBump := (if dirty b then stateBump b else 0) + int (length ns), dirty := True\<rparr>"])
      (use assms in \<open>simp_all add: markPagesAllocated_def markBits_fold len bufPayload_raw\<close>)
qed

lemma updateExtentMap_spec:
  assumes "420 \<le> length (raw b)"
  shows "bufNumber (updateExtentMap pfs ns per pc b) = bufNumber b"
    and "length (raw (updateExtentMap pfs ns per pc b)) = length (raw b)"
    and "length (bufPayload (updateExtentMap pfs ns per pc b)) = length (bufPayload b)"
    and "extentState (bufPayload (updateExtentMap pfs ns per pc b)) j
      = (if j \<in> (\<lambda>no. no div per) ` set ns \<and> j < 4 * length (bufPayload b)
         then computeExtentState pfs j per pc else extentState (bufPayload b) j)"
proof -
  obtain p c where u: "updateExtents (\<lambda>e. computeExtentState pfs e per pc) per ns [] (bufPayload b, 0) = (p, c)"
    by (cases "updateExtents (\<lambda>e. computeExtentState pfs e per pc) per ns [] (bufPayload b, 0)") simp
  note st = updateExtents_state [where new = "\<lambda>e. computeExtentState pfs e per pc", OF extent_values_le u]
  have len: "length p = length (bufPayload b)" using st by blast
  show "bufNumber (updateExtentMap pfs ns per pc b) = bufNumber b"
    "length (raw (updateExtentMap pfs ns per pc b)) = length (raw b)"
    "length (bufPayload (updateExtentMap pfs ns per pc b)) = length (bufPayload b)"
    using assms len by (simp_all add: updateExtentMap_def u bufPayload_raw)
  show "extentState (bufPayload (updateExtentMap pfs ns per pc b)) j
      = (if j \<in> (\<lambda>no. no div per) ` set ns \<and> j < 4 * length (bufPayload b)
         then computeExtentState pfs j per pc else extentState (bufPayload b) j)"
    using assms st [of j] by (simp add: updateExtentMap_def u bufPayload_raw)
qed

lemma same_pages_lastUsed: "file_ok db \<Longrightarrow> same_pages db (setLastUsedPageNo l db)"
  by (simp add: same_pages_def)

text \<open>The states \<open>allocatePages\<close> passes through, and its result in terms of the maps.\<close>

lemma allocatePages_run:
  assumes ok: "edit_ok s" and P: "editPayload s 0 = Inr P" and E: "editPayload s 1 = Inr E"
    and run: "allocatePages seed n t oid s = (Inr ns, s')"
  obtains E' where "edit_ok s'" and "0 < n" and "int (length ns) = n"
    and "ns = findFreePages P (totalPageCount (edDb s')) (nat n)"
    and "totalPageCount (edDb s') = (let missing = n - int (length (findFreePages P (totalPageCount (edDb s)) (nat n)));
           per = int (pagesInExtent (edDb s)) in
         if missing \<le> 0 then totalPageCount (edDb s) else totalPageCount (edDb s) + (missing + per - 1) div per * per)"
    and "0 < pagesInExtent (edDb s)" and "pagesInExtent (edDb s') = pagesInExtent (edDb s)"
    and "editPayload s' 0 = Inr (fold (pfs_put True) ns P)"
    and "editPayload s' 1 = Inr E'" and "length E' = length E"
    and "\<And>j. extentState E' j = (if j \<in> (\<lambda>no. no div pagesInExtent (edDb s)) ` set ns \<and> j < 4 * length E
         then computeExtentState (fold (pfs_put True) ns P) j (pagesInExtent (edDb s)) (totalPageCount (edDb s'))
         else extentState E j)"
    and "\<And>k p. k \<noteq> 0 \<Longrightarrow> k \<noteq> 1 \<Longrightarrow> editPayload s k = Inr p \<Longrightarrow> editPayload s' k = Inr p"
    and "\<And>no. no \<in> set ns \<Longrightarrow> parseDiskPageHeader (raw (bufAt no s')) = Some (freshHeader (seed no) t oid)
           \<and> dirty (bufAt no s') \<and> no \<in> dom (edPages s')"
    and "lastUsedPageNo (edDb s') = int32 (max (int (last ns)) (lastUsedPageNo (edDb s)))"
    and "{0, 1} \<subseteq> dom (edPages s')"
proof -
  obtain k1 s1 s2 b s4 k4 s6 where n: "0 < n" and l1: "load pfsPageNo s = (Inr k1, s1)"
    and ch: "chooseFreePages k1 n s1 = (Inr ns, s2)"
    and mk: "markPagesAllocated ns (bufAt k1 s2) = Inr b"
    and l4: "load eamPageNo (putBuf k1 b s2) = (Inr k4, s4)" and per: "0 < pagesInExtent (edDb s4)"
    and init: "initNewPages seed ns t oid (putBuf k4 (updateExtentMap (bufPayload (bufAt k1 s4)) ns
         (pagesInExtent (edDb s4)) (PageCount (edDb s4)) (bufAt k4 s4)) s4) = (Inr (), s6)"
    and s': "s' = s6\<lparr>edDb := setLastUsedPageNo (max (int (last ns)) (lastUsedPageNo (edDb s6))) (edDb s6)\<rparr>"
    using run by (auto simp: allocatePages_def bindO_eq_Inr guardO_def split: if_splits)
  note ld1 = load_spec [OF ok loader_intros(1) l1]
  have k1: "k1 = 0" using ld1(1) by (simp add: pfsPageNo_def)
  have P1: "bufPayload (bufAt 0 s1) = P" using ld1(10) P k1 by simp
  obtain db' where s2: "s2 = s1\<lparr>edDb := db'\<rparr>" and same: "same_pages (edDb s1) db'"
    and pe: "pagesInExtent db' = pagesInExtent (edDb s1)" and lu: "lastUsedPageNo db' = lastUsedPageNo (edDb s1)"
    and grow: "grows_for (n - int (length (freePagesOf k1 (nat n) s1))) (edDb s1) db'"
    and ns: "ns = findFreePages (bufPayload (bufAt k1 s1)) (totalPageCount db') (nat n)"
    and len: "int (length ns) = n"
    using chooseFreePages_spec [OF ld1(5) ch n] by blast
  have ns': "ns = findFreePages P (totalPageCount db') (nat n)" using ns P1 k1 by simp
  note edit2 = same_pages_edit [OF ld1(5) same, folded s2]
  have dom2: "0 \<in> dom (edPages s2)" using ld1(6) k1 by (simp add: s2)
  have b2: "buf_ok (edDb s2) (bufAt 0 s2)" "bufNumber (bufAt 0 s2) = 0"
    using buf_ok_bufAt [OF edit2(1) dom2] by blast+
  note raw2 = length_raw [OF edit_okD(1) [OF edit2(1)] b2(1)]
  have P2: "bufPayload (bufAt 0 s2) = P" using P1 by (simp add: s2)
  have range: "no < 8 * length P" if "no \<in> set ns" for no
    using findFreePages_spec(3) [of no P "totalPageCount db'" "nat n"] that ns' by blast
  obtain b' where "markPagesAllocated ns (bufAt 0 s2) = Inr b'"
    and b': "bufPayload b' = fold (pfs_put True) ns P" "bufNumber b' = 0"
      "length (raw b') = length (raw (bufAt 0 s2))"
    using markPagesAllocated_spec [of ns "bufAt 0 s2"] raw2 range P2 b2(2) by metis
  then have b: "bufPayload b = fold (pfs_put True) ns P" "bufNumber b = 0"
      "length (raw b) = length (raw (bufAt 0 s2))" using mk k1 by simp_all
  let ?s3 = "putBuf 0 b s2"
  have ok3: "edit_ok ?s3"
    using edit2(1) dom2 b b2 by (intro edit_ok_putBuf) (simp_all add: buf_ok_def)
  note ld4 = load_spec [OF ok3 loader_intros(1) l4 [unfolded k1]]
  have k4: "k4 = 1" using ld4(1) by (simp add: eamPageNo_def)
  have b0: "bufAt 0 s4 = b" using ld4(8) [of 0] by simp
  have E4: "bufPayload (bufAt 1 s4) = E"
    using ld4(10) k4 ld1(9) [of 1] edit2(2) [of 1 E] E by (simp add: editPayload_putBuf)
  have b4: "buf_ok (edDb s4) (bufAt 1 s4)" "bufNumber (bufAt 1 s4) = 1"
    using buf_ok_bufAt [OF ld4(5,6)] k4 by simp_all
  note raw4 = length_raw [OF edit_okD(1) [OF ld4(5)] b4(1)]
  note db4 = ld4(4)
  let ?e = "updateExtentMap (fold (pfs_put True) ns P) ns (pagesInExtent (edDb s4)) (totalPageCount (edDb s4)) (bufAt 1 s4)"
  note ue = updateExtentMap_spec [OF raw4, of "fold (pfs_put True) ns P" ns "pagesInExtent (edDb s4)" "totalPageCount (edDb s4)"]
  let ?s5 = "putBuf 1 ?e s4"
  have ok5: "edit_ok ?s5"
    using ld4(5,6) k4 b4 ue by (intro edit_ok_putBuf) (simp_all add: buf_ok_def)
  have init': "initNewPages seed ns t oid ?s5 = (Inr (), s6)"
    using init b0 b(1) by (simp add: k1 k4 PageCount_def)
  have "distinct ns" using findFreePages_spec(1) ns' strict_sorted_iff by metis
  note in6 = initNewPages_spec [OF ok5 this init']
  have ok6: "edit_ok s6" and db6: "edDb s6 = edDb s4" and pay6: "editPayload s6 j = editPayload ?s5 j" for j
    using in6 by simp_all
  have db2: "edDb s4 = db'" using db4 by (simp add: s2)
  note edit7 = same_pages_edit [OF ok6 same_pages_lastUsed [OF edit_okD(1) [OF ok6]], folded s']
  have fok: "file_ok (edDb s6)" using edit_okD(1) [OF ok6] .
  show ?thesis
  proof (rule that [of "bufPayload ?e"])
    show "edit_ok s'" unfolding s' using same_pages_edit(1) [OF ok6 same_pages_lastUsed [OF fok]] .
    show "0 < n" "int (length ns) = n" by fact+
    have tp: "totalPageCount (edDb s') = totalPageCount db'" by (simp add: s' db6 db2)
    show "ns = findFreePages P (totalPageCount (edDb s')) (nat n)" using ns' tp by simp
    show "totalPageCount (edDb s') = (let missing = n - int (length (findFreePages P (totalPageCount (edDb s)) (nat n)));
           per = int (pagesInExtent (edDb s)) in
         if missing \<le> 0 then totalPageCount (edDb s) else totalPageCount (edDb s) + (missing + per - 1) div per * per)"
      using grow P1 tp ld1(4) by (simp add: grows_for_def freePagesOf_def k1 PageCount_def Let_def split: if_splits)
    show "0 < pagesInExtent (edDb s)" "pagesInExtent (edDb s') = pagesInExtent (edDb s)"
      using per pe ld1(4) by (simp_all add: s' db6 db2)
    have keep: "editPayload s6 k = Inr p \<Longrightarrow> editPayload s' k = Inr p" for k p
      unfolding s' using same_pages_edit(2) [OF ok6 same_pages_lastUsed [OF fok]] .
    show "editPayload s' 0 = Inr (fold (pfs_put True) ns P)"
      using editPayload_bufAt [of 0 s4] ld4(7) b(1) b0 by (intro keep) (simp add: pay6 editPayload_putBuf)
    show "editPayload s' 1 = Inr (bufPayload ?e)"
      by (intro keep) (simp add: pay6 editPayload_putBuf)
    show "length (bufPayload ?e) = length E" using ue E4 by simp
    show "extentState (bufPayload ?e) j = (if j \<in> (\<lambda>no. no div pagesInExtent (edDb s)) ` set ns \<and> j < 4 * length E
         then computeExtentState (fold (pfs_put True) ns P) j (pagesInExtent (edDb s)) (totalPageCount (edDb s'))
         else extentState E j)" for j
      using ue(4) [of j] E4 pe ld1(4) tp by (simp add: db2)
    show "editPayload s' k = Inr p" if "k \<noteq> 0" "k \<noteq> 1" "editPayload s k = Inr p" for k p
      using that ld4(9) [of k] ld1(9) [of k] edit2(2) [of k p] by (intro keep) (simp add: pay6 editPayload_putBuf)
    show "parseDiskPageHeader (raw (bufAt no s')) = Some (freshHeader (seed no) t oid)
           \<and> dirty (bufAt no s') \<and> no \<in> dom (edPages s')" if "no \<in> set ns" for no
      using in6 that by (auto simp: s')
    show "lastUsedPageNo (edDb s') = int32 (max (int (last ns)) (lastUsedPageNo (edDb s)))"
      using lu ld1(4) by (simp add: s' db6 db2)
    have "dom (edPages s6) = dom (edPages ?s5) \<union> set ns" using in6 by blast
    then show "{0, 1} \<subseteq> dom (edPages s')" using ld4(7) by (auto simp: s')
  qed
qed

end
