(* ===== verification/Alloc_Total.thy ===== *)
theory Alloc_Total
  imports Alloc_Spec
begin

text \<open>
  When the allocator succeeds, and that it never panics: \<open>allocatePages\<close> returns pages
  whenever the two map pages can be buffered and there are enough free pages or room to
  grow, and \<open>releasePages\<close> whenever the pages it is given are allocated and distinct.
\<close>

section \<open>Reading and loading succeed\<close>

definition unlocked :: "'a dbfile_scheme \<Rightarrow> bool" where
  "unlocked db \<longleftrightarrow> decryptionKey db = None \<or> (case payloadCipher db of Inl e \<Rightarrow> False | Inr c \<Rightarrow> True)"

lemma ReadPage_total:
  assumes "file_ok db" and "unlocked db" and "0 \<le> n" and "n < totalPageCount db"
  shows "\<exists>p. ReadPage db n = Inr p"
  using assms ReadPage_buffer(1) [OF assms(1,3,4)]
  by (auto simp: ReadPage_def PageCount_def Let_def unlocked_def decryptPayload_def split: sum.splits)

definition bufferable :: "'x edit_scheme \<Rightarrow> nat \<Rightarrow> bool" where
  "bufferable s k \<longleftrightarrow> (case edPages s k of Some b \<Rightarrow> True
     | None \<Rightarrow> (case bufferPage (edDb s) (int k) of Inl e \<Rightarrow> False | Inr b \<Rightarrow> True))"

lemma bufferable_iff:
  "bufferable s k \<longleftrightarrow> k \<in> dom (edPages s) \<or> (\<exists>b. bufferPage (edDb s) (int k) = Inr b)"
  by (auto simp: bufferable_def split: option.splits sum.splits)

lemma load_total:
  assumes "bufferable s k"
  obtains s' where "load (int k) s = (Inr k, s')"
  using assms that
  by (auto simp: bufferable_def load_def loadWith_def split: option.splits sum.splits)

lemma bufferPageFresh_total:
  assumes "file_ok db" and "unlocked db" and "0 \<le> n" and "n < totalPageCount db"
  shows "\<exists>b. bufferPageFresh db n = Inr b"
  using ReadPage_total [OF assms] by (auto simp: bufferPageFresh_def)

lemma loadFresh_total:
  assumes "edit_ok s" and "unlocked (edDb s)" and "int k < totalPageCount (edDb s)"
  obtains s' where "loadFresh (int k) s = (Inr k, s')"
  using bufferPageFresh_total [of "edDb s" "int k"] assms(2,3) edit_okD(1) [OF assms(1)] that
  by (cases "edPages s k") (auto simp: loadFresh_def loadWith_def)

lemma initNewPages_total:
  assumes "edit_ok s" and "unlocked (edDb s)" and "distinct ns"
    and "\<forall>no \<in> set ns. int no < totalPageCount (edDb s)"
  shows "\<exists>s'. initNewPages seed ns t oid s = (Inr (), s')"
  using assms
proof (induction ns arbitrary: s)
  case (Cons no ns)
  obtain u where u: "loadFresh (int no) s = (Inr no, u)"
    using loadFresh_total [OF Cons.prems(1,2), of no] Cons.prems(4) by auto
  note ld = load_spec [OF Cons.prems(1) loader_intros(2) u]
  let ?u = "putBuf no (initPage (seed no) t oid (bufAt no u)) u"
  have "buf_ok (edDb u) (bufAt no u)" "bufNumber (bufAt no u) = no"
    using buf_ok_bufAt [OF ld(5,6)] by blast+
  then have "edit_ok ?u" using ld(5,6) by (intro edit_ok_putBuf) simp_all
  moreover have "edDb ?u = edDb s" using ld(4) by simp
  ultimately obtain s' where "initNewPages seed ns t oid ?u = (Inr (), s')"
    using Cons.IH [of ?u] Cons.prems by auto
  then show ?case using u by (auto simp: initNewPages_def bindO_eq_Inr)
qed (simp add: initNewPages_def)

section \<open>Growth succeeds\<close>

text \<open>The number of pages the file has once it has grown to cover what is missing.\<close>

definition grownCount :: "'a dbfile_scheme \<Rightarrow> int \<Rightarrow> int" where
  "grownCount db missing = (if missing \<le> 0 then totalPageCount db else totalPageCount db
     + (missing + int (pagesInExtent db) - 1) div int (pagesInExtent db) * int (pagesInExtent db))"

definition canGrow :: "'a dbfile_scheme \<Rightarrow> int \<Rightarrow> bool" where
  "canGrow db missing \<longleftrightarrow> missing \<le> 0 \<or> (writable db \<and> 0 < pagesInExtent db
     \<and> grownCount db missing \<le> mappablePages db \<and> grownCount db missing < 2 ^ 31)"

lemma extendFile_total:
  assumes "file_ok db" and "0 < missing" and "canGrow db missing"
  obtains db' where "extendFile missing db = (Inr (), db')"
proof -
  have c: "writable db" "0 < pagesInExtent db" "grownCount db missing \<le> mappablePages db"
    "grownCount db missing < 2 ^ 31" using assms by (auto simp: canGrow_def)
  have "0 \<le> totalPageCount db" using assms(1) by (simp add: file_ok_def)
  moreover have "missing \<le> (missing + int (pagesInExtent db) - 1) div int (pagesInExtent db) * int (pagesInExtent db)"
    by (rule ceil_div) (use assms c in simp_all)
  ultimately have "0 \<le> grownCount db missing" using assms(2) by (simp add: grownCount_def)
  then have "fst (extendFile missing db) = Inr ()"
    using assms c
    by (auto simp: extendFile_def grownCount_def Let_def PageCount_def setTotalPageCount_def split: if_splits)
  then show ?thesis using that by (metis prod.collapse)
qed

lemma filter_all_free: "filter P [a..<b] = [a..<b]" if "\<And>i. a \<le> i \<Longrightarrow> P i"
  using that by (simp add: filter_id_conv)

lemma findFreePages_grown:
  assumes f: "length (findFreePages p c n) < n" and c': "int (n - length (findFreePages p c n)) \<le> c' - c"
    and bound: "0 \<le> c" "c' \<le> 8 * int (length p)" and clear: "\<And>no. c \<le> int no \<Longrightarrow> \<not> pfsAllocated p (int no)"
  shows "length (findFreePages p c' n) = n"
proof -
  let ?P = "\<lambda>no. \<not> pfsAllocated p (int no)"
  have le: "nat c \<le> nat c'" using c' by simp
  have short: "min (nat c') (length p * 8) = nat c'" "min (nat c) (length p * 8) = nat c"
    using bound le by linarith+
  have "findFreePages p c n = filter ?P [0..<nat c]"
    using f by (simp add: findFreePages_def scanFree_filter short)
  moreover have "filter ?P [0..<nat c'] = filter ?P [0..<nat c] @ [nat c..<nat c']"
  proof -
    have "[0..<nat c'] = [0..<nat c] @ [nat c..<nat c']"
      using upt_add_eq_append [of 0 "nat c" "nat c' - nat c"] le by simp
    moreover have "filter ?P [nat c..<nat c'] = [nat c..<nat c']"
      by (rule filter_all_free) (use clear bound(1) in \<open>simp add: nat_le_iff\<close>)
    ultimately show ?thesis by simp
  qed
  ultimately have "length (filter ?P [0..<nat c']) = length (findFreePages p c n) + (nat c' - nat c)" by simp
  moreover have "n \<le> length (findFreePages p c n) + (nat c' - nat c)" using c' f bound by linarith
  ultimately show ?thesis by (simp add: findFreePages_def scanFree_filter short)
qed

section \<open>Allocation succeeds\<close>

lemma chooseFreePages_total:
  assumes ok: "edit_ok s" and p: "p \<in> dom (edPages s)" and n: "0 < n"
    and grow: "canGrow (edDb s) (n - int (length (freePagesOf p (nat n) s)))"
    and clear: "\<And>no. totalPageCount (edDb s) \<le> int no \<Longrightarrow> \<not> pfsAllocated (bufPayload (bufAt p s)) (int no)"
  obtains ns s' where "chooseFreePages p n s = (Inr ns, s')"
proof (cases "int (length (freePagesOf p (nat n) s)) < n")
  case False
  then show ?thesis using that by (auto simp: chooseFreePages_def)
next
  case True
  let ?m = "n - int (length (freePagesOf p (nat n) s))"
  have fok: "file_ok (edDb s)" using edit_okD(1) [OF ok] .
  obtain db' where db': "extendFile ?m (edDb s) = (Inr (), db')"
    using extendFile_total [OF fok _ grow] True by auto
  note e = extendFile_spec [OF fok db']
  have "length (bufPayload (bufAt p s)) = pageSize (edDb s) - 40"
    using length_payload [OF fok] buf_ok_bufAt [OF ok p] by blast
  then have "length (findFreePages (bufPayload (bufAt p s)) (totalPageCount db') (nat n)) = nat n"
    using True clear e(6,8) fok n
    by (intro findFreePages_grown [where c = "totalPageCount (edDb s)"])
      (simp_all add: freePagesOf_def PageCount_def file_ok_def layout_consts)
  then have "freePagesOf p (nat n) (s\<lparr>edDb := db'\<rparr>)
      = findFreePages (bufPayload (bufAt p s)) (totalPageCount db') (nat n) \<and>
      chooseFreePages p n s = (Inr (freePagesOf p (nat n) (s\<lparr>edDb := db'\<rparr>)), s\<lparr>edDb := db'\<rparr>)"
    using True n db' by (auto simp: chooseFreePages_def onDb_def bindO_def freePagesOf_def PageCount_def)
  then show ?thesis using that by blast
qed

lemma unlocked_same_pages: "same_pages db db' \<Longrightarrow> unlocked db' = unlocked db"
  by (auto simp: same_pages_def unlocked_def payloadCipher_cong [of db' db])

text \<open>A page that could be buffered still can, after the file grew or another page was buffered.\<close>

lemma ReadPage_same_pages:
  assumes "file_ok db" and "same_pages db db'" and "ReadPage db n = Inr p"
  shows "\<exists>p'. ReadPage db' n = Inr p' \<and> Header p' = Header p"
proof -
  have r: "0 \<le> n" "n < totalPageCount db" using ReadPage_range [of db n Inr] assms(3) by auto
  have "pageView db' n = pageView db n"
    using assms(1,2) r by (intro ReadPage_payload_same) (auto simp: same_pages_def)
  then show ?thesis using assms(3) by (cases "ReadPage db' n") (auto simp: pageView_def)
qed

lemma bufferable_same_pages:
  assumes "edit_ok s" and "same_pages (edDb s) db'" and "bufferable s k"
  shows "bufferable (s\<lparr>edDb := db'\<rparr>) k"
proof (cases "edPages s k")
  case None
  with assms(3) obtain p h where "ReadPage (edDb s) (int k) = Inr p" "Header p = Some h"
    by (auto simp: bufferable_def bufferPage_def bindR_def split: sum.splits option.splits)
  with ReadPage_same_pages [OF edit_okD(1) [OF assms(1)] assms(2), of "int k" p] None
  show ?thesis by (auto simp: bufferable_def bufferPage_def)
qed (simp add: bufferable_def)

lemma bufferable_load:
  assumes "edit_ok s" and "loader l" and "l no s = (Inr k, s')" and "bufferable s j"
  shows "bufferable s' j"
  using load_spec(4,7) [OF assms(1-3)] assms(4) by (auto simp: bufferable_iff)

lemma allocatePages_total:
  assumes ok: "edit_ok s" and un: "unlocked (edDb s)" and b0: "bufferable s 0" and b1: "bufferable s 1"
    and P: "editPayload s 0 = Inr P" and n: "0 < n" and per: "0 < pagesInExtent (edDb s)"
    and grow: "canGrow (edDb s) (n - int (length (findFreePages P (totalPageCount (edDb s)) (nat n))))"
    and clear: "\<And>no. totalPageCount (edDb s) \<le> int no \<Longrightarrow> \<not> pfsAllocated P (int no)"
  shows "\<exists>ns s'. allocatePages seed n t oid s = (Inr ns, s')"
proof -
  obtain s1 where l1: "load pfsPageNo s = (Inr 0, s1)"
    using load_total [OF b0] by (auto simp: pfsPageNo_def)
  note ld1 = load_spec [OF ok loader_intros(1) l1]
  have P1: "bufPayload (bufAt 0 s1) = P" using ld1(10) P by simp
  obtain ns s2 where ch: "chooseFreePages 0 n s1 = (Inr ns, s2)"
    using chooseFreePages_total [OF ld1(5,6) n] grow clear ld1(4)
    by (auto simp: freePagesOf_def PageCount_def P1)
  obtain db' where s2: "s2 = s1\<lparr>edDb := db'\<rparr>" and same: "same_pages (edDb s1) db'"
    and pe: "pagesInExtent db' = pagesInExtent (edDb s1)"
    and ns: "ns = findFreePages (bufPayload (bufAt 0 s1)) (totalPageCount db') (nat n)"
    using chooseFreePages_spec [OF ld1(5) ch n] by metis
  note edit2 = same_pages_edit [OF ld1(5) same, folded s2]
  have dom2: "0 \<in> dom (edPages s2)" using ld1(6) by (simp add: s2)
  have b2: "buf_ok (edDb s2) (bufAt 0 s2)" "bufNumber (bufAt 0 s2) = 0"
    using buf_ok_bufAt [OF edit2(1) dom2] by blast+
  note free = findFreePages_spec(3) [of _ P "totalPageCount db'" "nat n", folded ns [unfolded P1]]
  obtain b where mk: "markPagesAllocated ns (bufAt 0 s2) = Inr b" and b: "bufNumber b = 0"
      "length (raw b) = length (raw (bufAt 0 s2))"
    using markPagesAllocated_spec [of ns "bufAt 0 s2"] length_raw [OF edit_okD(1) [OF edit2(1)] b2(1)]
      free P1 b2(2) by (auto simp: s2)
  let ?s3 = "putBuf 0 b s2"
  have ok3: "edit_ok ?s3"
    using edit2(1) dom2 b b2 by (intro edit_ok_putBuf) (simp_all add: buf_ok_def)
  have "bufferable s2 1"
    using bufferable_same_pages [OF ld1(5) same bufferable_load [OF ok loader_intros(1) l1 b1]] s2 by simp
  then have "bufferable ?s3 1" by (simp add: bufferable_iff)
  then obtain s4 where l4: "load eamPageNo ?s3 = (Inr 1, s4)"
    using load_total [of ?s3 1] by (auto simp: eamPageNo_def)
  note ld4 = load_spec [OF ok3 loader_intros(1) l4]
  have b4: "buf_ok (edDb s4) (bufAt 1 s4)" "bufNumber (bufAt 1 s4) = 1"
    using buf_ok_bufAt [OF ld4(5,6)] by blast+
  let ?s5 = "putBuf 1 (updateExtentMap (bufPayload (bufAt 0 s4)) ns
         (pagesInExtent (edDb s4)) (PageCount (edDb s4)) (bufAt 1 s4)) s4"
  have ok5: "edit_ok ?s5"
    using ld4(5,6) b4 updateExtentMap_spec(1,2) [OF length_raw [OF edit_okD(1) [OF ld4(5)] b4(1)]]
    by (intro edit_ok_putBuf) (simp_all add: buf_ok_def)
  have db5: "edDb ?s5 = db'" using ld4(4) by (simp add: s2)
  have "unlocked (edDb ?s5)"
    using unlocked_same_pages [OF same] un ld1(4) db5 by simp
  moreover have "distinct ns" using findFreePages_spec(1) ns strict_sorted_iff by metis
  moreover have "\<forall>no \<in> set ns. int no < totalPageCount (edDb ?s5)" using free db5 by simp
  ultimately obtain s6 where "initNewPages seed ns t oid ?s5 = (Inr (), s6)"
    using initNewPages_total [OF ok5] by blast
  moreover have "0 < pagesInExtent (edDb s4)" using per pe ld1(4) db5 by simp
  ultimately show ?thesis
    using n l1 ch mk l4 by (simp add: allocatePages_def bindO_Inr)
qed

section \<open>No branch panics\<close>

definition no_panic :: "('s, 'a) op \<Rightarrow> 's \<Rightarrow> bool" where
  "no_panic m s \<longleftrightarrow> fst (m s) \<noteq> Inl GoPanic"

lemma no_panic_bind:
  "no_panic m s \<Longrightarrow> (\<And>x s'. m s = (Inr x, s') \<Longrightarrow> no_panic (f x) s') \<Longrightarrow> no_panic (bindO m f) s"
  by (auto simp: no_panic_def bindO_def split: prod.splits sum.splits)

lemma no_panic_simps [simp]:
  "no_panic (retO x) s" "no_panic (getO f) s" "no_panic (modO g) s" "no_panic (updBuf k h) s"
  "no_panic (failO e) s \<longleftrightarrow> e \<noteq> GoPanic" "no_panic (liftO r) s \<longleftrightarrow> r \<noteq> Inl GoPanic"
  "no_panic (guardO c e) s \<longleftrightarrow> c \<or> e \<noteq> GoPanic"
  by (auto simp: no_panic_def guardO_def)

lemma ReadPage_no_panic: "cipher_lawful db \<Longrightarrow> ReadPage db n \<noteq> Inl GoPanic"
  by (auto simp: ReadPage_def Let_def decryptPayload_def cipher_lawful_def bindR_def split: sum.splits)

lemma load_no_panic: "cipher_lawful (edDb s) \<Longrightarrow> loader l \<Longrightarrow> no_panic (l n) s"
  using ReadPage_no_panic [of "edDb s" n]
  by (auto simp: no_panic_def loader_def load_def loadFresh_def loadWith_def bufferPage_def
      bufferPageFresh_def bindR_def split: sum.splits option.splits)

lemma chooseFreePages_no_panic: "edit_ok s \<Longrightarrow> no_panic (chooseFreePages p n) s"
proof -
  assume ok: "edit_ok s"
  have "no_panic (onDb (extendFile k)) s" for k
    using extendFile_failed [OF edit_okD(1) [OF ok], of k]
    by (cases "extendFile k (edDb s)") (auto simp: no_panic_def onDb_def)
  then show "no_panic (chooseFreePages p n) s"
    unfolding chooseFreePages_def by (auto intro!: no_panic_bind)
qed

lemma initNewPages_no_panic: "edit_ok s \<Longrightarrow> no_panic (initNewPages seed ns t oid) s"
proof (induction ns arbitrary: s)
  case Nil
  then show ?case by (simp add: initNewPages_def no_panic_def)
next
  case (Cons no ns)
  have step: "no_panic (initNewPages seed ns t oid) (putBuf k (initPage (seed no) t oid (bufAt k u)) u)"
    if "loadFresh (int no) s = (Inr k, u)" for k u
  proof -
    note ld = load_spec [OF Cons.prems loader_intros(2) that]
    have "buf_ok (edDb u) (bufAt k u)" "bufNumber (bufAt k u) = k" using buf_ok_bufAt [OF ld(5,6)] by blast+
    then show ?thesis using ld(5,6) by (intro Cons.IH edit_ok_putBuf) simp_all
  qed
  have "no_panic (loadFresh (int no)) s" by (rule load_no_panic [OF edit_okD(2) [OF Cons.prems]]) simp
  then show ?case
    using step unfolding initNewPages_def forO.simps
    by (intro no_panic_bind) (auto simp: bindO_eq_Inr)
qed

lemma marking_ok:
  assumes ok: "edit_ok s" and l: "load pfsPageNo s = (Inr k, s1)" and ch: "chooseFreePages k n s1 = (Inr ns, s2)"
    and n: "0 < n"
  shows "\<exists>b. markPagesAllocated ns (bufAt k s2) = Inr b \<and> edit_ok (putBuf k b s2)"
proof -
  note ld = load_spec [OF ok loader_intros(1) l]
  obtain db' where s2: "s2 = s1\<lparr>edDb := db'\<rparr>" and same: "same_pages (edDb s1) db'"
    and ns: "ns = findFreePages (bufPayload (bufAt k s1)) (totalPageCount db') (nat n)"
    using chooseFreePages_spec [OF ld(5) ch n] by metis
  note ok2 = same_pages_edit(1) [OF ld(5) same, folded s2]
  have k: "k \<in> dom (edPages s2)" using ld(6) by (simp add: s2)
  have b2: "buf_ok (edDb s2) (bufAt k s2)" "bufNumber (bufAt k s2) = k" using buf_ok_bufAt [OF ok2 k] by blast+
  obtain b where "markPagesAllocated ns (bufAt k s2) = Inr b" "bufNumber b = bufNumber (bufAt k s2)"
      "length (raw b) = length (raw (bufAt k s2))"
    using markPagesAllocated_spec [of ns "bufAt k s2"] length_raw [OF edit_okD(1) [OF ok2] b2(1)]
      findFreePages_spec(3) [of _ "bufPayload (bufAt k s1)" "totalPageCount db'" "nat n"] ns
    by (auto simp: s2)
  moreover from this have "edit_ok (putBuf k b s2)"
    using ok2 k b2 by (intro edit_ok_putBuf) (simp_all add: buf_ok_def)
  ultimately show ?thesis by blast
qed

lemma extent_map_ok:
  assumes "edit_ok s" and "loader l" and "l no s = (Inr k, s')"
  shows "edit_ok (putBuf k (updateExtentMap pfs ns per pc (bufAt k s')) s')"
proof -
  note ld = load_spec [OF assms]
  have b: "buf_ok (edDb s') (bufAt k s')" "bufNumber (bufAt k s') = k" using buf_ok_bufAt [OF ld(5,6)] by blast+
  then show ?thesis
    using ld(5,6) updateExtentMap_spec(1,2) [OF length_raw [OF edit_okD(1) [OF ld(5)] b(1)]]
    by (intro edit_ok_putBuf) (simp_all add: buf_ok_def)
qed

lemma load_pfs_no_panic: "edit_ok s \<Longrightarrow> no_panic (load n) s"
  by (rule load_no_panic) (simp_all add: edit_okD)

lemma allocatePages_never_panics:
  assumes ok: "edit_ok s"
  shows "no_panic (allocatePages seed n t oid) s"
proof (cases "0 < n")
  case False
  then show ?thesis by (simp add: allocatePages_def no_panic_def)
next
  case n: True
  show ?thesis
    unfolding allocatePages_def
  proof (intro no_panic_bind; (rule load_pfs_no_panic)?; (simp; fail)?)
    show "edit_ok s'" if "guardO (0 < n) (ErrText ''cannot allocate'') s = (Inr x, s')" for x s'
      using that ok by simp
  next
    fix u s0 k s1
    assume "guardO (0 < n) (ErrText ''cannot allocate'') s = (Inr u, s0)" and l: "load pfsPageNo s0 = (Inr k, s1)"
    then have ok0: "edit_ok s0" using ok by simp
    show "no_panic (chooseFreePages k n) s1"
      by (rule chooseFreePages_no_panic [OF load_spec(5) [OF ok0 loader_intros(1) l]])
  next
    fix u s0 k s1 ns s2 m s3
    assume "guardO (0 < n) (ErrText ''cannot allocate'') s = (Inr u, s0)" and l: "load pfsPageNo s0 = (Inr k, s1)"
      and ch: "chooseFreePages k n s1 = (Inr ns, s2)"
      and m: "getO (\<lambda>s. markPagesAllocated ns (bufAt k s)) s2 = (Inr m, s3)"
    then have ok0: "edit_ok s0" using ok by simp
    show "no_panic (liftO m) s3"
      using marking_ok [OF ok0 l ch n] m by auto
  next
    fix u s0 k s1 ns s2 m s3 b s4 v s5
    assume "guardO (0 < n) (ErrText ''cannot allocate'') s = (Inr u, s0)" and l: "load pfsPageNo s0 = (Inr k, s1)"
      and ch: "chooseFreePages k n s1 = (Inr ns, s2)"
      and m: "getO (\<lambda>s. markPagesAllocated ns (bufAt k s)) s2 = (Inr m, s3)" "liftO m s3 = (Inr b, s4)"
        "updBuf k (\<lambda>_. b) s4 = (Inr v, s5)"
    then have ok0: "edit_ok s0" using ok by simp
    show ok5: "edit_ok s5" using marking_ok [OF ok0 l ch n] m by auto
    fix e s6 per s7 w s8 y s9
    assume l6: "load eamPageNo s5 = (Inr e, s6)" and "getO (\<lambda>s. pagesInExtent (edDb s)) s6 = (Inr per, s7)"
      and "guardO (0 < per) (ErrText ''invalid extent size'') s7 = (Inr w, s8)"
      and "modO (\<lambda>s. putBuf e (updateExtentMap (bufPayload (bufAt k s)) ns per
             (PageCount (edDb s)) (bufAt e s)) s) s8 = (Inr y, s9)"
    then have "edit_ok s9" using extent_map_ok [OF ok5 loader_intros(1) l6] by auto
    then show "no_panic (initNewPages seed ns t oid) s9" by (rule initNewPages_no_panic)
  qed
qed

end
