(* ===== verification/Release.thy ===== *)
theory Release
  imports Alloc_Total
begin

text \<open>
  What \<open>releasePages\<close> does to the two allocation maps and to the bookkeeping of the two
  map buffers, when it succeeds, and what a second release in the same edit does to what
  the first one left to be written.
\<close>

lemma length_fold_pfs [simp]: "length (fold (pfs_put b) ns p) = length p"
  by (induction ns arbitrary: p) simp_all

lemma clearPages_Inr: "clearPages k pages s = (Inr (), s') \<longleftrightarrow>
    (\<exists>p. clearBits pages (bufPayload (bufAt k s)) = (Inr (), p)
       \<and> s' = putBuf k (setPayload p (bufAt k s)) s)"
  by (auto simp: clearPages_def split: prod.splits)

definition downgrade :: "byte list \<Rightarrow> nat \<Rightarrow> byte" where
  "downgrade eam e = (if extentState eam e = extentFull then extentPartial else extentState eam e)"

lemma extentState_le [simp]: "extentState eam e AND 3 = extentState eam e"
  by (simp add: extentState_def Let_def and.assoc extentFree_def)

lemma downgrade_le [simp]: "downgrade eam e AND 3 = downgrade eam e"
  by (simp add: downgrade_def)

lemma downgradeExtents_run:
  assumes "downgradeExtents per nos [] (eam, 0) = (eam', c)"
  shows "extentState eam' j = (if j \<in> (\<lambda>no. no div per) ` set nos then downgrade eam j else extentState eam j)"
    and "length eam' = length eam"
    and "(\<And>no. no \<in> set nos \<Longrightarrow> extentState eam (no div per) \<noteq> extentFull) \<Longrightarrow> eam' = eam \<and> c = 0"
proof -
  have u: "updateExtents (downgrade eam) per nos [] (eam, 0) = (eam', c)"
    using downgradeExtents_update [of "[]" eam eam per nos 0] assms by (simp add: downgrade_def [abs_def])
  have out: "extentState eam j = extentFree" if "\<not> j < 4 * length eam"
    using that div_8_less [of "j * 2" "length eam"] by (simp add: extentState_def eamBitsPerExtent_def Let_def)
  show "extentState eam' j = (if j \<in> (\<lambda>no. no div per) ` set nos then downgrade eam j else extentState eam j)"
    and "length eam' = length eam"
    using updateExtents_state [OF downgrade_le u, of j] out by (auto simp: downgrade_def)
  assume "\<And>no. no \<in> set nos \<Longrightarrow> extentState eam (no div per) \<noteq> extentFull"
  then show "eam' = eam \<and> c = 0"
    using updateExtents_unchanged [of nos eam per "downgrade eam" "[]" 0] u by (simp add: downgrade_def)
qed

lemma lastAllocated_max:
  fixes pfs :: "byte list" and c :: nat
  defines "l \<equiv> lastAllocated pfs [0..<c] (-1)"
  shows "no < c \<Longrightarrow> pfsAllocated pfs (int no) \<Longrightarrow> int no \<le> l"
    and "l = -1 \<or> (\<exists>no < c. l = int no \<and> pfsAllocated pfs (int no))"
proof -
  let ?F = "filter (\<lambda>no. pfsAllocated pfs (int no)) [0..<c]"
  have l: "l = (if ?F = [] then -1 else int (last ?F))"
    by (auto simp: l_def lastAllocated_spec filter_empty_conv)
  have "sorted ?F" by (simp add: sorted_wrt_filter)
  then have "x \<le> last ?F" if "x \<in> set ?F" for x
    using that by (cases ?F rule: rev_cases) (auto simp: sorted_append)
  then show "no < c \<Longrightarrow> pfsAllocated pfs (int no) \<Longrightarrow> int no \<le> l"
    by (auto simp: l filter_empty_conv)
  show "l = -1 \<or> (\<exists>no < c. l = int no \<and> pfsAllocated pfs (int no))"
    using last_in_set [of ?F] by (auto simp: l)
qed

text \<open>The states \<open>releasePages\<close> passes through, and its result in terms of the maps.\<close>

lemma releasePages_run:
  assumes ok: "edit_ok s" and P: "editPayload s 0 = Inr P" and E: "editPayload s 1 = Inr E"
    and run: "releasePages pages s = (Inr l, s')"
  obtains E' c where "edit_ok s'" and "edDb s' = edDb s" and "0 < pagesInExtent (edDb s)"
    and "distinct pages" and "\<And>no. no \<in> set pages \<Longrightarrow> pfsAllocated P (int no)"
    and "editPayload s' 0 = Inr (fold (pfs_put False) pages P)"
    and "editPayload s' 1 = Inr E'"
    and "downgradeExtents (pagesInExtent (edDb s)) pages [] (E, 0) = (E', c)"
    and "l = lastAllocated (fold (pfs_put False) pages P) [0..<nat (totalPageCount (edDb s))] (-1)"
    and "\<And>k. k \<noteq> 0 \<Longrightarrow> k \<noteq> 1 \<Longrightarrow> editPayload s' k = editPayload s k"
    and "\<And>k. k \<noteq> 0 \<Longrightarrow> k \<noteq> 1 \<Longrightarrow> edPages s' k = edPages s k"
    and "{0, 1} \<subseteq> dom (edPages s')"
    and "stateBump (bufAt 0 s') = int (length pages)" and "dirty (bufAt 0 s') = (pages \<noteq> [])"
    and "stateBump (bufAt 1 s') = int c" and "dirty (bufAt 1 s') = (0 < c)"
proof -
  obtain k0 s1 p k1 s3 where l0: "load pfsPageNo s = (Inr k0, s1)"
    and cl: "clearBits pages (bufPayload (bufAt k0 s1)) = (Inr (), p)"
    and l1: "load eamPageNo (putBuf k0 ((setPayload p (bufAt k0 s1))\<lparr>stateBump := int (length pages),
         dirty := (length pages > 0)\<rparr>) (putBuf k0 (setPayload p (bufAt k0 s1)) s1)) = (Inr k1, s3)"
    and per: "0 < pagesInExtent (edDb s3)"
    and s': "s' = putBuf k1 (downgradeMap (pagesInExtent (edDb s3)) pages (bufAt k1 s3)) s3"
    and l: "l = lastAllocated (bufPayload (bufAt k0 s')) [0..<nat (PageCount (edDb s'))] (-1)"
    using run by (auto simp: releasePages_def bindO_eq_Inr clearPages_Inr guardO_def split: if_splits)
  note ld0 = load_spec [OF ok loader_intros(1) l0]
  have k0: "k0 = 0" using ld0(1) by (simp add: pfsPageNo_def)
  have P0: "bufPayload (bufAt 0 s1) = P" using ld0(10) P k0 by simp
  have cl': "p = fold (pfs_put False) pages P" "distinct pages"
    "\<forall>no \<in> set pages. pfsAllocated P (int no)"
    using clearBits_Inr [OF cl] P0 k0 by auto
  have b1: "buf_ok (edDb s1) (bufAt 0 s1)" "bufNumber (bufAt 0 s1) = 0"
    using buf_ok_bufAt [OF ld0(5,6)] k0 by blast+
  note raw1 = length_raw [OF edit_okD(1) [OF ld0(5)] b1(1)]
  let ?b = "(setPayload p (bufAt 0 s1))\<lparr>stateBump := int (length pages), dirty := (length pages > 0)\<rparr>"
  have len_p: "length p = length (bufPayload (bufAt 0 s1))" using cl'(1) P0 by simp
  have pay_b: "bufPayload ?b = p" using raw1 by (simp add: bufPayload_raw)
  let ?s2 = "putBuf 0 ?b s1"
  have same: "putBuf 0 ?b (putBuf 0 (setPayload p (bufAt 0 s1)) s1) = ?s2" by (simp add: putBuf_def)
  have ok2: "edit_ok ?s2"
    using ld0(5,6) b1 raw1 len_p by (intro edit_ok_putBuf) (simp_all add: buf_ok_def k0)
  note ld1 = load_spec [OF ok2 loader_intros(1) l1 [unfolded k0 same]]
  have k1: "k1 = 1" using ld1(1) by (simp add: eamPageNo_def)
  have E1: "bufPayload (bufAt 1 s3) = E"
    using ld1(10) k1 ld0(9) [of 1] E by (simp add: editPayload_putBuf)
  have b3: "buf_ok (edDb s3) (bufAt 1 s3)" "bufNumber (bufAt 1 s3) = 1"
    using buf_ok_bufAt [OF ld1(5,6)] k1 by simp_all
  note raw3 = length_raw [OF edit_okD(1) [OF ld1(5)] b3(1)]
  have db3: "edDb s3 = edDb s" using ld1(4) ld0(4) by simp
  obtain E' c where dg: "downgradeExtents (pagesInExtent (edDb s)) pages [] (E, 0) = (E', c)"
    by (cases "downgradeExtents (pagesInExtent (edDb s)) pages [] (E, 0)") simp
  let ?e = "(setPayload E' (bufAt 1 s3))\<lparr>stateBump := int c, dirty := (c > 0)\<rparr>"
  have s'2: "s' = putBuf 1 ?e s3" using s' E1 k1 db3 dg by (simp add: downgradeMap_def)
  have len_E: "length E' = length (bufPayload (bufAt 1 s3))" using downgradeExtents_run(2) [OF dg] E1 by simp
  have b0: "bufAt 0 s3 = ?b" using ld1(8) [of 0] by simp
  have dom3: "dom (edPages s3) = insert 1 (insert 0 (dom (edPages s1)))" using ld1(7) k1 by simp
  have dom1: "dom (edPages s1) = insert 0 (dom (edPages s))" using ld0(7) k0 by simp
  have pay: "editPayload s' k = (if k = 1 then Inr E' else if k = 0 then Inr p else editPayload s k)" for k
    using ld1(9) [of k] ld0(9) [of k] raw3 pay_b
    by (simp add: s'2 editPayload_putBuf bufPayload_raw)
  have frame: "edPages s' k = edPages s k" if k: "k \<noteq> 0" "k \<noteq> 1" for k
  proof (cases "k \<in> dom (edPages s)")
    case True
    then have "bufAt k s' = bufAt k s"
      using ld1(8) [of k] ld0(8) [of k] k dom1 by (simp add: s'2)
    moreover have "k \<in> dom (edPages s')" using True dom3 dom1 by (simp add: s'2)
    ultimately show ?thesis using True by (auto simp: bufAt_def)
  next
    case False
    then have "k \<notin> dom (edPages s3)" using dom3 dom1 k by simp
    then show ?thesis using False k by (simp add: s'2 domIff)
  qed
  show ?thesis
  proof (rule that)
    show "edit_ok s'"
      unfolding s'2 using ld1(5,6) k1 b3 raw3 len_E by (intro edit_ok_putBuf) (simp_all add: buf_ok_def)
    show "l = lastAllocated (fold (pfs_put False) pages P) [0..<nat (totalPageCount (edDb s))] (-1)"
      using l b0 pay_b cl' by (simp add: k0 s'2 PageCount_def db3)
  qed (use cl' dg per pay frame dom3 in \<open>auto simp: s'2 db3 b0\<close>)
qed

section \<open>When it succeeds\<close>

lemma releasePages_total:
  assumes ok: "edit_ok s" and b: "bufferable s 0" "bufferable s 1" and P: "editPayload s 0 = Inr P"
    and d: "distinct pages" and al: "\<And>no. no \<in> set pages \<Longrightarrow> pfsAllocated P (int no)"
    and per: "0 < pagesInExtent (edDb s)"
  shows "\<exists>l s'. releasePages pages s = (Inr l, s')"
proof -
  obtain s1 where l0: "load pfsPageNo s = (Inr 0, s1)" using load_total [OF b(1)] by (auto simp: pfsPageNo_def)
  note ld0 = load_spec [OF ok loader_intros(1) l0]
  have P0: "bufPayload (bufAt 0 s1) = P" using ld0(10) P by simp
  have cl: "clearBits pages P = (Inr (), fold (pfs_put False) pages P)"
    using clearBits_total [OF d] al by blast
  let ?s2 = "putBuf 0 ((setPayload (fold (pfs_put False) pages P) (bufAt 0 s1))\<lparr>stateBump := int (length pages),
       dirty := (length pages > 0)\<rparr>) (putBuf 0 (setPayload (fold (pfs_put False) pages P) (bufAt 0 s1)) s1)"
  have "bufferable ?s2 1" using bufferable_load [OF ok loader_intros(1) l0 b(2)] by (simp add: bufferable_iff)
  then obtain s3 where l1: "load eamPageNo ?s2 = (Inr 1, s3)"
    using load_total [of ?s2 1] by (auto simp: eamPageNo_def)
  have "bufNumber (bufAt 0 s1) = 0" "buf_ok (edDb s1) (bufAt 0 s1)"
    using buf_ok_bufAt [OF ld0(5,6)] by blast+
  note raw1 = length_raw [OF edit_okD(1) [OF ld0(5)] this(2)]
  have "edDb s3 = edDb s"
    using l1 ld0(4) by (auto simp: load_def loadWith_alt split: if_splits sum.splits)
  then show ?thesis
    using l0 cl l1 per P0 by (simp add: releasePages_def bindO_Inr clearPages_Inr)
qed

end
