(* ===== verification/Samples.thy ===== *)
theory Samples
  imports Release
begin

text \<open>
  Small concrete files on which the properties are instantiated: clear pages of 420 bytes,
  the smallest size the header parser accepts, each a stamped header and a payload.
\<close>

definition noLib :: cipherLib where
  "noLib = \<lparr>newAES = (\<lambda>_. Inl ErrUnsupportedCipher), newDES = (\<lambda>_. Inl ErrUnsupportedCipher),
    newBlowfish = (\<lambda>_. Inl ErrUnsupportedCipher)\<rparr>"

definition padTo :: "nat \<Rightarrow> byte list \<Rightarrow> byte list" where
  "padTo n xs = xs @ replicate (n - length xs) 0"

definition sampleRegion :: "u16 \<Rightarrow> byte list \<Rightarrow> byte list" where
  "sampleRegion t payload = writeDiskPageHeader 7 t 0 @ padTo 380 payload"

definition sampleFile :: "nat \<Rightarrow> (u16 \<times> byte list) list \<Rightarrow> dbfile" where
  "sampleFile perExtent pages = \<lparr>
     disk = replicate 380 0 @ concat (map (\<lambda>p. sampleRegion (fst p) (snd p)) pages),
     writable = True, headerSize = 76, version = 0, pageSize = 420, pagesInExtent = perExtent,
     totalPageCount = int (length pages), lastUsedPageNo = int (length pages) - 1, dbState = 0,
     writeChangeState = 0, dbEncrypted = False, lastObjectID = 0, cryptoHeader = None,
     decryptionKey = None, cipherlib = noLib\<rparr>"

definition samplePages :: "(u16 \<times> byte list) list \<Rightarrow> bool" where
  "samplePages pages \<longleftrightarrow> (\<forall>p \<in> set pages. length (snd p) \<le> 380) \<and> length pages < 1000"

lemma length_padTo [simp]: "length p \<le> n \<Longrightarrow> length (padTo n p) = n"
  by (simp add: padTo_def)

lemma slc_concat:
  assumes "\<forall>x \<in> set xs. length x = m" and "n < length xs"
  shows "slc (n * m) (m + n * m) (concat xs) = xs ! n"
  using assms
proof (induction xs arbitrary: n)
  case (Cons x xs)
  show ?case
  proof (cases n)
    case 0
    then show ?thesis using Cons.prems by (simp add: slc_def)
  next
    case (Suc k)
    then show ?thesis using Cons by (simp add: slc_append_right)
  qed
qed simp

lemma sample_regions:
  assumes "samplePages pages"
  shows "length (concat (map (\<lambda>p. sampleRegion (fst p) (snd p)) pages)) = length pages * 420"
    and "n < length pages \<Longrightarrow> regionOf 420 (disk (sampleFile per pages)) n
      = sampleRegion (fst (pages ! n)) (snd (pages ! n))"
proof -
  have r: "\<forall>x \<in> set (map (\<lambda>p. sampleRegion (fst p) (snd p)) pages). length x = 420"
    using assms by (auto simp: samplePages_def sampleRegion_def)
  then show "length (concat (map (\<lambda>p. sampleRegion (fst p) (snd p)) pages)) = length pages * 420"
    by (induction pages) simp_all
  assume "n < length pages"
  then show "regionOf 420 (disk (sampleFile per pages)) n = sampleRegion (fst (pages ! n)) (snd (pages ! n))"
    using slc_concat [OF r, of n]
    by (simp add: regionOf_def sampleFile_def slc_append_right layout_consts add.commute)
qed

lemma sampleFile_fields [simp]:
  "totalPageCount (sampleFile per pages) = int (length pages)" "pageSize (sampleFile per pages) = 420"
  "pagesInExtent (sampleFile per pages) = per" "writable (sampleFile per pages)"
  "decryptionKey (sampleFile per pages) = None" "cryptoHeader (sampleFile per pages) = None"
  "lastUsedPageNo (sampleFile per pages) = int (length pages) - 1"
  by (simp_all add: sampleFile_def)

lemma sampleFile_file_ok: "samplePages pages \<Longrightarrow> file_ok (sampleFile per pages)"
  using sample_regions(1) [of pages]
  by (simp add: file_ok_def samplePages_def layout_consts) (simp add: sampleFile_def)

lemma sampleFile_lawful: "cipher_lawful (sampleFile per pages)"
  by (simp add: cipher_lawful_def payloadCipher_def)

lemma sampleEdit_ok: "samplePages pages \<Longrightarrow> edit_ok (newPageEdit (sampleFile per pages))"
  by (simp add: edit_ok_new sampleFile_file_ok sampleFile_lawful)

lemma sample_view:
  assumes "samplePages pages" and "n < length pages"
  shows "pageView (sampleFile per pages) (int n)
    = Inr (padTo 380 (snd (pages ! n)), Some (freshHeader 7 (fst (pages ! n)) 0))"
proof -
  have "parseDiskPageHeader (replicate 380 0 @ sampleRegion t p) = Some (freshHeader 7 t 0)" for t p
    using parse_writeDiskPageHeader [of "replicate 380 0 @ replicate 40 0 @ padTo 380 p" 7 t 0]
    by (simp add: sampleRegion_def splice_append_at)
  moreover have "drop 40 (sampleRegion t p) = padTo 380 p" for t p
    by (simp add: sampleRegion_def)
  ultimately show ?thesis
    using assms sampleFile_file_ok [OF assms(1), of per] sample_regions(2) [OF assms, of per]
    by (simp add: pageView_region viewOf_def Let_def layout_consts)
qed

lemma sample_read:
  assumes "samplePages pages" and "n < length pages"
  obtains p where "ReadPage (sampleFile per pages) (int n) = Inr p"
    and "Payload p = padTo 380 (snd (pages ! n))" and "Header p = Some (freshHeader 7 (fst (pages ! n)) 0)"
  using sample_view [OF assms, of per] that
  by (cases "ReadPage (sampleFile per pages) (int n)") (auto simp: pageView_def)

lemma sample_payload:
  assumes "samplePages pages" and "n < length pages"
  shows "editPayload (newPageEdit (sampleFile per pages)) n = Inr (padTo 380 (snd (pages ! n)))"
  using sample_view [OF assms, of per]
  by (simp add: editPayload_def newPageEdit_def ReadPage_payload)

lemma sample_bufferable:
  assumes "samplePages pages" and "n < length pages"
  shows "bufferable (newPageEdit (sampleFile per pages)) n"
proof -
  obtain p where "ReadPage (sampleFile per pages) (int n) = Inr p"
    and "Header p = Some (freshHeader 7 (fst (pages ! n)) 0)"
    using sample_read [OF assms, of per] by blast
  then show ?thesis by (simp add: bufferable_iff newPageEdit_def bufferPage_def)
qed

lemma edDb_newPageEdit [simp]: "edDb (newPageEdit db) = db"
  by (simp add: newPageEdit_def)

lemma sample_unlocked: "unlocked (sampleFile per pages)"
  by (simp add: unlocked_def)

lemmas sample_simps = sampleEdit_ok sample_payload sample_bufferable sample_unlocked

text \<open>Bits of a short map padded with zeros.\<close>

lemma pfs_padTo:
  "pfsAllocated (padTo n p) (int no) = pfsAllocated p (int no)"
  by (auto simp: pfsAllocated_def padTo_def testBit_def nth_append)

section \<open>Two files\<close>

text \<open>Six allocated pages in three full extents of two, and four pages with none allocated past the maps.\<close>

definition fullPages :: "(u16 \<times> byte list) list" where
  "fullPages = [(2, [0x3F]), (2, [0x3F]), (10, []), (10, []), (10, []), (10, [])]"

definition roomyPages :: "(u16 \<times> byte list) list" where
  "roomyPages = [(2, [0x03]), (2, [0x03]), (10, [0x01]), (10, [])]"

lemma sample_pages [simp]: "samplePages fullPages" "samplePages roomyPages"
  by (simp_all add: samplePages_def fullPages_def roomyPages_def)

lemma length_sample_pages [simp]: "length fullPages = 6" "length roomyPages = 4"
  by (simp_all add: fullPages_def roomyPages_def)

abbreviation fullEdit :: edit where "fullEdit \<equiv> newPageEdit (sampleFile 2 fullPages)"
abbreviation roomyEdit :: edit where "roomyEdit \<equiv> newPageEdit (sampleFile 2 roomyPages)"

end
