(* ===== verification/Alloc_Props.thy ===== *)
theory Alloc_Props
  imports Samples
begin

text \<open>
  The allocator's properties: which pages an allocation takes, what both maps hold after
  an allocation and after a release, the invariant between the two maps, when an
  allocation succeeds, and that it never panics.
\<close>

section \<open>The invariant between the two maps\<close>

text \<open>
  No bit is set past the end of the file; an entry is full exactly when all pages of its
  extent are allocated, and free only when none is. A partial entry of an empty extent is
  allowed: a release leaves one behind.
\<close>

definition maps_ok :: "byte list \<Rightarrow> byte list \<Rightarrow> nat \<Rightarrow> int \<Rightarrow> bool" where
  "maps_ok pfs eam per pc \<longleftrightarrow>
     (\<forall>no < 8 * length pfs. pfsAllocated pfs (int no) \<longrightarrow> int no < pc) \<and>
     (\<forall>e < 4 * length eam.
        (extentState eam e = extentFull \<longleftrightarrow> computeExtentState pfs e per pc = extentFull) \<and>
        (extentState eam e = extentFree \<longrightarrow> computeExtentState pfs e per pc = extentFree))"

lemma maps_ok_bit: "maps_ok pfs eam per pc \<Longrightarrow> pfsAllocated pfs (int no) \<Longrightarrow> int no < pc"
  using pfs.test_cap [of pfs no] by (auto simp: maps_ok_def)

lemma computeExtentState_cong:
  assumes "0 < per"
    and "\<And>no. no div per = e \<Longrightarrow> (int no < pc \<and> pfsAllocated p (int no)) = (int no < pc' \<and> pfsAllocated p' (int no))"
  shows "computeExtentState p e per pc = computeExtentState p' e per pc'"
proof -
  have "filter (\<lambda>no. int no < pc \<and> pfsAllocated p (int no)) [e * per..<(e + 1) * per]
      = filter (\<lambda>no. int no < pc' \<and> pfsAllocated p' (int no)) [e * per..<(e + 1) * per]"
    using assms by (intro filter_cong refl) (auto simp: div_nat_eqI mult.commute)
  then show ?thesis by (simp add: computeExtentState_def)
qed

lemma maps_ok_allocate:
  assumes inv: "maps_ok P E per pc" and per: "0 < per" and pc: "pc \<le> pc'"
    and len: "length P' = length P" "length E' = length E"
    and P': "\<And>j. pfsAllocated P' (int j) \<longleftrightarrow> j \<in> set ns \<or> pfsAllocated P (int j)"
    and ns: "\<And>no. no \<in> set ns \<Longrightarrow> int no < pc'"
    and E': "\<And>j. extentState E' j = (if j \<in> (\<lambda>no. no div per) ` set ns \<and> j < 4 * length E
         then computeExtentState P' j per pc' else extentState E j)"
  shows "maps_ok P' E' per pc'"
proof -
  have same: "computeExtentState P e per pc = computeExtentState P' e per pc'"
    if "e \<notin> (\<lambda>no. no div per) ` set ns" for e
    using that P' maps_ok_bit [OF inv] pc by (intro computeExtentState_cong [OF per]) force
  show ?thesis
    unfolding maps_ok_def len
  proof (intro conjI allI impI)
    show "int no < pc'" if "pfsAllocated P' (int no)" for no
      using that P' ns maps_ok_bit [OF inv] pc by force
    fix e assume e: "e < 4 * length E"
    show "extentState E' e = extentFull \<longleftrightarrow> computeExtentState P' e per pc' = extentFull"
      using E' [of e] e same [of e] inv by (auto simp: maps_ok_def)
    show "extentState E' e = extentFree \<Longrightarrow> computeExtentState P' e per pc' = extentFree"
      using E' [of e] e same [of e] inv by (auto simp: maps_ok_def split: if_splits)
  qed
qed

lemma maps_ok_release:
  assumes inv: "maps_ok P E per pc" and per: "0 < per"
    and len: "length P' = length P" "length E' = length E"
    and P': "\<And>j. pfsAllocated P' (int j) \<longleftrightarrow> j \<notin> set ns \<and> pfsAllocated P (int j)"
    and E': "\<And>j. extentState E' j = (if j \<in> (\<lambda>no. no div per) ` set ns then downgrade E j else extentState E j)"
  shows "maps_ok P' E' per pc"
  unfolding maps_ok_def len
proof (intro conjI allI impI)
  note full = computeExtentState_full [OF per]
  show "int no < pc" if "pfsAllocated P' (int no)" for no
    using that P' maps_ok_bit [OF inv] by blast
  fix e assume e: "e < 4 * length E"
  have inv_e: "extentState E e = extentFull \<longleftrightarrow> computeExtentState P e per pc = extentFull"
    "extentState E e = extentFree \<longrightarrow> computeExtentState P e per pc = extentFree"
    using inv e by (auto simp: maps_ok_def)
  have less: "computeExtentState P' e per pc = extentFull \<Longrightarrow> computeExtentState P e per pc = extentFull"
    using full(1) P' by auto
  show "extentState E' e = extentFull \<longleftrightarrow> computeExtentState P' e per pc = extentFull"
  proof (cases "e \<in> (\<lambda>no. no div per) ` set ns")
    case True
    then obtain no where "no \<in> set ns" "no div per = e" by auto
    then have "computeExtentState P' e per pc \<noteq> extentFull" using full(1) P' by blast
    then show ?thesis using True E' [of e] by (simp add: downgrade_def)
  next
    case False
    then have "computeExtentState P' e per pc = computeExtentState P e per pc"
      using P' by (intro computeExtentState_cong [OF per]) force
    then show ?thesis using False E' [of e] inv_e by simp
  qed
  show "computeExtentState P' e per pc = extentFree" if "extentState E' e = extentFree"
  proof -
    have "extentState E e = extentFree"
      using that E' [of e] by (auto simp: downgrade_def split: if_splits)
    then show ?thesis using inv_e full(2) P' by auto
  qed
qed

section \<open>Runs on the sample files\<close>

lemma roomy_payloads [simp]:
  "editPayload roomyEdit 0 = Inr (padTo 380 [0x03])" "editPayload roomyEdit (Suc 0) = Inr (padTo 380 [0x03])"
  by (simp_all add: sample_payload) (simp_all add: roomyPages_def)

lemma full_payloads [simp]:
  "editPayload fullEdit 0 = Inr (padTo 380 [0x3F])" "editPayload fullEdit (Suc 0) = Inr (padTo 380 [0x3F])"
  by (simp_all add: sample_payload) (simp_all add: fullPages_def)

lemma roomy_bits: "pfsAllocated (padTo 380 [0x03]) (int j) \<longleftrightarrow> j < 2"
proof -
  have "pfsAllocated [0x03] (int j) \<longleftrightarrow> j < 2"
    using bit_3 [of j] by (cases "j < 8") (auto simp: pfsAllocated_def testBit_bit)
  then show ?thesis by (simp add: pfs_padTo)
qed

lemma roomy_free: "findFreePages (padTo 380 [0x03]) pc 3 = take 3 [2..<min (nat pc) 3040]"
proof -
  have "filter (\<lambda>no. \<not> no < 2) [0..<k] = [2..<k]" for k :: nat by (induction k) auto
  then show ?thesis by (simp add: findFreePages_def scanFree_filter roomy_bits)
qed

lemma roomy_canGrow:
  "canGrow (sampleFile 2 roomyPages) (3 - int (length (findFreePages (padTo 380 [0x03]) 4 3)))"
  by (simp add: roomy_free canGrow_def grownCount_def mappablePages_def payloadSize_def
      layout_consts eamBitsPerExtent_def)

lemma roomy_run:
  obtains s' where "allocatePages (\<lambda>_. 9) 3 10 5 roomyEdit = (Inr [2, 3, 4], s')"
    and "totalPageCount (edDb s') = 6"
proof -
  obtain ns s' where run: "allocatePages (\<lambda>_. 9) 3 10 5 roomyEdit = (Inr ns, s')"
    using allocatePages_total [of roomyEdit "padTo 380 [0x03]" 3 "\<lambda>_. 9" 10 5] roomy_canGrow
    by (auto simp: sample_simps roomy_bits)
  have "totalPageCount (edDb s') = 6 \<and> ns = findFreePages (padTo 380 [0x03]) (totalPageCount (edDb s')) 3"
    by (rule allocatePages_run [OF _ roomy_payloads(1) _ run]) (simp_all add: sampleEdit_ok roomy_free Let_def)
  then have "totalPageCount (edDb s') = 6" "ns = [2, 3, 4]" by (simp_all add: roomy_free upt_conv_Cons)
  with run show ?thesis using that by blast
qed

section \<open>Properties\<close>

text \<open>C1. A successful \<open>allocatePages\<close> returns exactly \<open>n\<close> page numbers in ascending order, all
  of them free before and inside the file afterwards, and no free page below the highest
  of them is passed over (lowest first). The Page Free Space map gains exactly those bits.\<close>

theorem allocatePages_takes_lowest_free:
  assumes "edit_ok s" and "editPayload s 0 = Inr P" and "editPayload s 1 = Inr E"
    and "allocatePages seed n t oid s = (Inr ns, s')"
  shows "edit_ok s' \<and> int (length ns) = n \<and> sorted_wrt (<) ns
    \<and> (\<forall>no \<in> set ns. \<not> pfsAllocated P (int no) \<and> int no < totalPageCount (edDb s'))
    \<and> (\<forall>no < last ns. \<not> pfsAllocated P (int no) \<longrightarrow> no \<in> set ns)
    \<and> (\<exists>P'. editPayload s' 0 = Inr P' \<and> length P' = length P
        \<and> (\<forall>j. pfsAllocated P' (int j) \<longleftrightarrow> j \<in> set ns \<or> pfsAllocated P (int j)))"
proof -
  obtain E' where r: "edit_ok s'" "0 < n" "int (length ns) = n"
    "ns = findFreePages P (totalPageCount (edDb s')) (nat n)"
    "editPayload s' 0 = Inr (fold (pfs_put True) ns P)"
    using allocatePages_run [OF assms] by metis
  note f = findFreePages_spec [where pfs = P and pc = "totalPageCount (edDb s')" and n = "nat n", folded r(4)]
  have "ns \<noteq> []" using r(2,3) by auto
  then have l: "last ns \<in> set ns" by simp
  have low: "no \<in> set ns" if "no < last ns" "\<not> pfsAllocated P (int no)" for no
    using f(4) [where no = no and m = "last ns"] f(3) [OF l] that l by auto
  have bits: "pfsAllocated (fold (pfs_put True) ns P) (int j) \<longleftrightarrow> j \<in> set ns \<or> pfsAllocated P (int j)" for j
    using pfs.test_fold [of ns P True j] f(3) by auto
  show ?thesis using r f(1,3) low bits by auto
qed

lemma allocatePages_takes_lowest_free_witness:
  "\<exists>s'. allocatePages (\<lambda>_. 9) 3 10 5 roomyEdit = (Inr [2, 3, 4], s') \<and>
     (\<forall>no < last [2, 3, 4]. \<not> pfsAllocated (padTo 380 [0x03]) (int no) \<longrightarrow> no \<in> set [2, 3, 4 :: nat]) \<and>
     (\<exists>P'. editPayload s' 0 = Inr P' \<and> (\<forall>j. pfsAllocated P' (int j) \<longleftrightarrow> j \<in> set [2, 3, 4] \<or> j < 2))"
proof -
  obtain s' where run: "allocatePages (\<lambda>_. 9) 3 10 5 roomyEdit = (Inr [2, 3, 4], s')" by (rule roomy_run)
  have "edit_ok roomyEdit" by (simp add: sampleEdit_ok)
  from allocatePages_takes_lowest_free [OF this roomy_payloads(1) roomy_payloads(2) [folded One_nat_def] run] run
  show ?thesis unfolding roomy_bits by blast
qed

text \<open>C6. After a successful \<open>allocatePages\<close> the Extent Allocation Map entry of every extent
  that holds a new page says what the Page Free Space map says of that extent (free, partial
  or full), and every other entry is as it was.\<close>

theorem allocatePages_extent_map:
  assumes "edit_ok s" and "editPayload s 0 = Inr P" and "editPayload s 1 = Inr E"
    and "allocatePages seed n t oid s = (Inr ns, s')"
  shows "\<exists>P' E'. editPayload s' 0 = Inr P' \<and> editPayload s' 1 = Inr E' \<and> length E' = length E
    \<and> (\<forall>e. extentState E' e =
         (if e \<in> (\<lambda>no. no div pagesInExtent (edDb s)) ` set ns \<and> e < 4 * length E
          then computeExtentState P' e (pagesInExtent (edDb s)) (totalPageCount (edDb s'))
          else extentState E e))"
  by (rule allocatePages_run [OF assms]) blast

lemma allocatePages_extent_map_witness:
  "\<exists>s' E'. allocatePages (\<lambda>_. 9) 3 10 5 roomyEdit = (Inr [2, 3, 4], s') \<and> editPayload s' 1 = Inr E'
     \<and> extentState E' 0 = extentFull"
proof -
  obtain s' where run: "allocatePages (\<lambda>_. 9) 3 10 5 roomyEdit = (Inr [2, 3, 4], s')" by (rule roomy_run)
  have "edit_ok roomyEdit" by (simp add: sampleEdit_ok)
  from allocatePages_extent_map [OF this roomy_payloads(1) roomy_payloads(2) [folded One_nat_def] run]
  obtain E' where "editPayload s' 1 = Inr E'"
    and "extentState E' 0 = extentState (padTo 380 [0x03]) 0" by auto
  moreover have "extentState (padTo 380 [0x03]) 0 = extentFull"
    by (simp add: extentState_def padTo_def extentFull_def eamBitsPerExtent_def)
  ultimately show ?thesis using run by auto
qed

text \<open>C5. \<open>allocatePages\<close> succeeds whenever both map pages can be buffered, the map has no bit
  set past the end of the file, and either enough pages are free or the file may grow by the
  whole extents that cover what is missing: \<open>ErrOutOfSpace\<close> cannot occur on such a file.\<close>

theorem allocatePages_succeeds:
  assumes "edit_ok s" and "unlocked (edDb s)" and "bufferable s 0" and "bufferable s 1"
    and "editPayload s 0 = Inr P" and "0 < n" and "0 < pagesInExtent (edDb s)"
    and "canGrow (edDb s) (n - int (length (findFreePages P (totalPageCount (edDb s)) (nat n))))"
    and "\<And>no. totalPageCount (edDb s) \<le> int no \<Longrightarrow> \<not> pfsAllocated P (int no)"
  shows "\<exists>ns s'. allocatePages seed n t oid s = (Inr ns, s')"
  using assms by (rule allocatePages_total)

lemma allocatePages_succeeds_witness:
  "\<exists>ns s'. allocatePages (\<lambda>_. 1) 3 12 7 roomyEdit = (Inr ns, s')"
  by (rule allocatePages_succeeds [of roomyEdit "padTo 380 [0x03]"])
    (use roomy_canGrow in \<open>auto simp: sample_simps roomy_bits\<close>)

text \<open>No branch of \<open>allocatePages\<close> indexes an allocation map outside its bounds: on a
  well-formed edit it never panics, whatever the maps hold and however short they are.\<close>

theorem allocatePages_no_panic:
  assumes "edit_ok s"
  shows "fst (allocatePages seed n t oid s) \<noteq> Inl GoPanic"
  using allocatePages_never_panics [OF assms] by (simp add: no_panic_def)

lemma allocatePages_no_panic_witness:
  "fst (allocatePages (\<lambda>_. 0) 5000 8 1 roomyEdit) \<noteq> Inl GoPanic"
  by (rule allocatePages_no_panic) (simp add: sampleEdit_ok)

text \<open>C8. The growth rule. An allocation with enough free pages leaves the page count alone;
  one that is short of them grows the file by the smallest number of whole extents that
  covers the shortfall.\<close>

theorem allocatePages_grows_by_extents:
  assumes "edit_ok s" and "editPayload s 0 = Inr P" and "editPayload s 1 = Inr E"
    and "allocatePages seed n t oid s = (Inr ns, s')"
  shows "let missing = n - int (length (findFreePages P (totalPageCount (edDb s)) (nat n)));
             per = int (pagesInExtent (edDb s)); added = totalPageCount (edDb s') - totalPageCount (edDb s)
         in if missing \<le> 0 then added = 0
            else per dvd added \<and> missing \<le> added \<and> added < missing + per"
proof -
  let ?m = "n - int (length (findFreePages P (totalPageCount (edDb s)) (nat n)))"
  let ?per = "int (pagesInExtent (edDb s))"
  have "totalPageCount (edDb s') = (if ?m \<le> 0 then totalPageCount (edDb s)
      else totalPageCount (edDb s) + (?m + ?per - 1) div ?per * ?per) \<and> 0 < ?per"
    by (rule allocatePages_run [OF assms]) (simp add: Let_def)
  then show ?thesis using ceil_div [of ?per ?m] by (auto simp: Let_def)
qed

lemma allocatePages_grows_by_extents_witness:
  "\<exists>s'. allocatePages (\<lambda>_. 9) 3 10 5 roomyEdit = (Inr [2, 3, 4], s')
     \<and> totalPageCount (edDb s') - 4 = 2"
proof -
  obtain s' where run: "allocatePages (\<lambda>_. 9) 3 10 5 roomyEdit = (Inr [2, 3, 4], s')" by (rule roomy_run)
  have "edit_ok roomyEdit" by (simp add: sampleEdit_ok)
  from allocatePages_grows_by_extents [OF this roomy_payloads(1) roomy_payloads(2) [folded One_nat_def] run]
  have "2 dvd totalPageCount (edDb s') - 4 \<and> 1 \<le> totalPageCount (edDb s') - 4 \<and> totalPageCount (edDb s') - 4 < 3"
    by (simp add: roomy_free)
  then have "totalPageCount (edDb s') - 4 = 2" by presburger
  with run show ?thesis by auto
qed

text \<open>C9. Every page \<open>allocatePages\<close> returns is buffered, dirty, and stamped with a complete
  header: its State, type and owner, no successor and no checksum. Payloads of pages other
  than the two maps are left alone, those of reused pages included.\<close>

theorem allocatePages_stamps_pages:
  assumes "edit_ok s" and "editPayload s 0 = Inr P" and "editPayload s 1 = Inr E"
    and "allocatePages seed n t oid s = (Inr ns, s')"
  shows "(\<forall>no \<in> set ns. no \<in> dom (edPages s') \<and> dirty (bufAt no s')
           \<and> parseDiskPageHeader (raw (bufAt no s')) = Some (freshHeader (seed no) t oid))
    \<and> (\<forall>k p. k \<noteq> 0 \<longrightarrow> k \<noteq> 1 \<longrightarrow> editPayload s k = Inr p \<longrightarrow> editPayload s' k = Inr p)"
  by (rule allocatePages_run [OF assms]) blast

lemma allocatePages_stamps_pages_witness:
  "\<exists>s'. allocatePages (\<lambda>_. 9) 3 10 5 roomyEdit = (Inr [2, 3, 4], s')
     \<and> parseDiskPageHeader (raw (bufAt 4 s')) = Some (freshHeader 9 10 5)
     \<and> editPayload s' 2 = Inr (padTo 380 [0x01])"
proof -
  obtain s' where run: "allocatePages (\<lambda>_. 9) 3 10 5 roomyEdit = (Inr [2, 3, 4], s')" by (rule roomy_run)
  have "edit_ok roomyEdit" by (simp add: sampleEdit_ok)
  note r = allocatePages_stamps_pages [OF this roomy_payloads(1) roomy_payloads(2) [folded One_nat_def] run]
  have "editPayload roomyEdit 2 = Inr (padTo 380 [0x01])"
    by (simp add: sample_payload) (simp add: roomyPages_def)
  with r run show ?thesis by auto
qed

end
