(* ===== verification/Release_Props.thy ===== *)
theory Release_Props
  imports Alloc_Props
begin

text \<open>
  Properties of giving pages back: the effect of \<open>releasePages\<close> on both maps, that it
  undoes an allocation, the invariant between the maps over every sequence of allocations
  and releases, and the update a second release in the same edit loses.
\<close>

section \<open>Runs on the sample files\<close>

lemma full_bits: "pfsAllocated (padTo 380 [0x3F]) (int j) \<longleftrightarrow> j < 6"
proof -
  have "bit (0x3F :: byte) j \<longleftrightarrow> j < 6"
    using bit_mask_iff [of 6 j, where 'a = "8 word"] by (auto simp: mask_eq_exp_minus_1)
  then have "pfsAllocated [0x3F] (int j) \<longleftrightarrow> j < 6"
    by (cases "j < 8") (auto simp: pfsAllocated_def testBit_bit)
  then show ?thesis by (simp add: pfs_padTo)
qed

lemma full_extents: "extentState (padTo 380 [0x3F]) e = (if e < 3 then extentFull else extentFree)"
proof (cases "e < 4")
  case True
  then have "e = 0 \<or> e = 1 \<or> e = 2 \<or> e = 3" by auto
  then show ?thesis
    by (auto simp: extentState_def padTo_def extentFull_def extentFree_def eamBitsPerExtent_def)
next
  case False
  then have "padTo 380 [0x3F] ! (e * 2 div 8) = 0" if "e * 2 div 8 < 380"
    using that by (auto simp: padTo_def nth_append)
  with False show ?thesis by (auto simp: extentState_def extentFree_def eamBitsPerExtent_def Let_def padTo_def)
qed

lemma full_run:
  assumes "distinct pages" and "set pages \<subseteq> {..<6}"
  obtains l s' where "releasePages pages fullEdit = (Inr l, s')"
  using releasePages_total [of fullEdit "padTo 380 [0x3F]" pages] assms that
  by (auto simp: sample_simps full_bits)

section \<open>Properties\<close>

text \<open>C3. A successful \<open>releasePages\<close> clears exactly the bits of the pages it was given, all of
  which were set and no two of which were the same page; an entry of the Extent Allocation
  Map that was full and lost a page becomes partial, every other entry is as it was; and
  the result is the highest page still allocated, or -1 when none is.\<close>

theorem releasePages_updates_maps:
  assumes "edit_ok s" and "editPayload s 0 = Inr P" and "editPayload s 1 = Inr E"
    and "releasePages pages s = (Inr l, s')"
  shows "edit_ok s' \<and> distinct pages \<and> (\<forall>no \<in> set pages. pfsAllocated P (int no))
    \<and> (\<exists>P' E'. editPayload s' 0 = Inr P' \<and> editPayload s' 1 = Inr E' \<and> length P' = length P \<and> length E' = length E
        \<and> (\<forall>j. pfsAllocated P' (int j) \<longleftrightarrow> j \<notin> set pages \<and> pfsAllocated P (int j))
        \<and> (\<forall>e. extentState E' e =
             (if e \<in> (\<lambda>no. no div pagesInExtent (edDb s)) ` set pages \<and> extentState E e = extentFull
              then extentPartial else extentState E e))
        \<and> (\<forall>no. int no < totalPageCount (edDb s) \<longrightarrow> pfsAllocated P' (int no) \<longrightarrow> int no \<le> l)
        \<and> (l = -1 \<or> (0 \<le> l \<and> l < totalPageCount (edDb s) \<and> pfsAllocated P' l)))"
proof (rule releasePages_run [OF assms])
  fix E' c
  assume r: "edit_ok s'" "distinct pages" "editPayload s' 0 = Inr (fold (pfs_put False) pages P)"
    "editPayload s' 1 = Inr E'" "downgradeExtents (pagesInExtent (edDb s)) pages [] (E, 0) = (E', c)"
    and l: "l = lastAllocated (fold (pfs_put False) pages P) [0..<nat (totalPageCount (edDb s))] (-1)"
    and al: "\<And>no. no \<in> set pages \<Longrightarrow> pfsAllocated P (int no)"
  note d = downgradeExtents_run [OF r(5)]
  let ?P = "fold (pfs_put False) pages P"
  have bits: "pfsAllocated ?P (int j) \<longleftrightarrow> j \<notin> set pages \<and> pfsAllocated P (int j)" for j
    using pfs.test_fold [of pages P False j] al pfs.test_cap by auto
  have top: "int no \<le> l" if "int no < totalPageCount (edDb s)" "pfsAllocated ?P (int no)" for no
    using lastAllocated_max(1) [of no "nat (totalPageCount (edDb s))" ?P] that l by simp
  have end_l: "l = -1 \<or> (0 \<le> l \<and> l < totalPageCount (edDb s) \<and> pfsAllocated ?P l)"
    using lastAllocated_max(2) [of ?P "nat (totalPageCount (edDb s))"] l by auto
  have ext: "extentState E' e = (if e \<in> (\<lambda>no. no div pagesInExtent (edDb s)) ` set pages \<and> extentState E e = extentFull
              then extentPartial else extentState E e)" for e
    using d(1) [of e] by (simp add: downgrade_def)
  show ?thesis
    using r(1-4) al d(2) bits ext top end_l
    by (intro conjI exI [of _ ?P] exI [of _ E']) auto
qed

lemma releasePages_updates_maps_witness:
  "\<exists>l s' E'. releasePages [4] fullEdit = (Inr l, s') \<and> l = 5 \<and> editPayload s' 1 = Inr E'
     \<and> extentState E' 2 = extentPartial"
proof -
  obtain l s' where run: "releasePages [4] fullEdit = (Inr l, s')" by (rule full_run [of "[4]"]) auto
  have "edit_ok fullEdit" by (simp add: sampleEdit_ok)
  from releasePages_updates_maps [OF this full_payloads(1) full_payloads(2) [folded One_nat_def] run]
  obtain P' E' where bits: "\<forall>j. pfsAllocated P' (int j) \<longleftrightarrow> j \<notin> set [4] \<and> pfsAllocated (padTo 380 [0x3F]) (int j)"
    and E': "editPayload s' 1 = Inr E'"
    and ext: "\<forall>e. extentState E' e = (if e \<in> (\<lambda>no. no div pagesInExtent (edDb fullEdit)) ` set [4]
        \<and> extentState (padTo 380 [0x3F]) e = extentFull then extentPartial else extentState (padTo 380 [0x3F]) e)"
    and max: "\<forall>no. int no < totalPageCount (edDb fullEdit) \<longrightarrow> pfsAllocated P' (int no) \<longrightarrow> int no \<le> l"
    and l: "l = -1 \<or> (0 \<le> l \<and> l < totalPageCount (edDb fullEdit) \<and> pfsAllocated P' l)"
    by blast
  have P': "pfsAllocated P' (int j) \<longleftrightarrow> j \<noteq> 4 \<and> j < 6" for j using bits by (simp add: full_bits)
  have "extentState E' 2 = extentPartial" using ext by (simp add: full_extents)
  moreover have "5 \<le> l" using max [rule_format, of 5] P' [of 5] by simp
  moreover from this l have "l = 5" by auto
  ultimately show ?thesis using run E' by blast
qed

text \<open>C7. Releasing what an allocation took gives the Page Free Space map back bit for bit, at
  its old length: an allocation that is undone leaves no page leaked or doubly freed.\<close>

theorem release_undoes_allocation:
  assumes "edit_ok s" and "editPayload s 0 = Inr P" and "editPayload s 1 = Inr E"
    and "allocatePages seed n t oid s = (Inr ns, s1)" and "releasePages ns s1 = (Inr l, s2)"
  shows "\<exists>P'. editPayload s2 0 = Inr P' \<and> length P' = length P
    \<and> (\<forall>j. pfsAllocated P' (int j) = pfsAllocated P (int j))"
proof (rule allocatePages_run [OF assms(1-4)])
  fix E1
  assume a: "edit_ok s1" "editPayload s1 0 = Inr (fold (pfs_put True) ns P)" "editPayload s1 1 = Inr E1"
    and ns: "ns = findFreePages P (totalPageCount (edDb s1)) (nat n)"
  have free: "no < 8 * length P \<and> \<not> pfsAllocated P (int no)" if "no \<in> set ns" for no
    using findFreePages_spec(3) [of no P "totalPageCount (edDb s1)" "nat n"] that ns by blast
  have "editPayload s2 0 = Inr (fold (pfs_put False) ns (fold (pfs_put True) ns P))"
    by (rule releasePages_run [OF a(1-3) assms(5)]) blast
  moreover have "pfsAllocated (fold (pfs_put False) ns (fold (pfs_put True) ns P)) (int j) = pfsAllocated P (int j)" for j
    using free by (rule pfs.test_set_clear)
  ultimately show ?thesis by simp
qed

lemma release_undoes_allocation_witness:
  "\<exists>s1 l s2 P'. allocatePages (\<lambda>_. 9) 3 10 5 roomyEdit = (Inr [2, 3, 4], s1)
     \<and> releasePages [2, 3, 4] s1 = (Inr l, s2) \<and> editPayload s2 0 = Inr P'
     \<and> (\<forall>j. pfsAllocated P' (int j) \<longleftrightarrow> j < 2)"
proof -
  obtain s1 where run: "allocatePages (\<lambda>_. 9) 3 10 5 roomyEdit = (Inr [2, 3, 4], s1)" by (rule roomy_run)
  have ok: "edit_ok roomyEdit" by (simp add: sampleEdit_ok)
  note pay = roomy_payloads(1) roomy_payloads(2) [folded One_nat_def]
  obtain l s2 where rel: "releasePages [2, 3, 4] s1 = (Inr l, s2)"
  proof (rule allocatePages_run [OF ok pay run])
    assume a: "edit_ok s1" "editPayload s1 0 = Inr (fold (pfs_put True) [2, 3, 4] (padTo 380 [0x03]))"
      "{0, 1} \<subseteq> dom (edPages s1)" "pagesInExtent (edDb s1) = pagesInExtent (edDb roomyEdit)"
    have "pfsAllocated (fold (pfs_put True) [2, 3, 4] (padTo 380 [0x03])) (int no)" if "no \<in> {2, 3, 4}" for no
      by (subst pfs.test_fold) (use that in auto)
    then show thesis
      using releasePages_total [OF a(1) _ _ a(2), of "[2, 3, 4]"] a(3,4) that
      by (auto simp: bufferable_iff)
  qed
  from release_undoes_allocation [OF ok pay run rel] run rel show ?thesis by (auto simp: roomy_bits)
qed

text \<open>The allocator as a transition system over one edit: each step is a call that succeeded.\<close>

inductive alloc_step :: "edit \<Rightarrow> edit \<Rightarrow> bool" where
  allocate: "allocatePages seed n t oid s = (Inr ns, s') \<Longrightarrow> alloc_step s s'"
| release: "releasePages pages s = (Inr l, s') \<Longrightarrow> alloc_step s s'"

definition consistent :: "edit \<Rightarrow> bool" where
  "consistent s \<longleftrightarrow> edit_ok s \<and> (\<exists>P E. editPayload s 0 = Inr P \<and> editPayload s 1 = Inr E
     \<and> maps_ok P E (pagesInExtent (edDb s)) (totalPageCount (edDb s)))"

lemma alloc_step_consistent:
  assumes "alloc_step s s'" and "consistent s"
  shows "consistent s'"
proof -
  obtain P E where ok: "edit_ok s" and P: "editPayload s 0 = Inr P" and E: "editPayload s 1 = Inr E"
    and inv: "maps_ok P E (pagesInExtent (edDb s)) (totalPageCount (edDb s))"
    using assms(2) by (auto simp: consistent_def)
  from assms(1) show ?thesis
  proof cases
    case (allocate seed n t oid ns)
    show ?thesis
    proof (rule allocatePages_run [OF ok P E allocate])
      fix E'
      assume a: "edit_ok s'" "editPayload s' 0 = Inr (fold (pfs_put True) ns P)" "editPayload s' 1 = Inr E'"
        "length E' = length E" "0 < pagesInExtent (edDb s)" "pagesInExtent (edDb s') = pagesInExtent (edDb s)"
        and ns: "ns = findFreePages P (totalPageCount (edDb s')) (nat n)"
        and tpc: "totalPageCount (edDb s') = (let missing = n - int (length (findFreePages P (totalPageCount (edDb s)) (nat n)));
            per = int (pagesInExtent (edDb s)) in
          if missing \<le> 0 then totalPageCount (edDb s) else totalPageCount (edDb s) + (missing + per - 1) div per * per)"
        and E': "\<And>j. extentState E' j = (if j \<in> (\<lambda>no. no div pagesInExtent (edDb s)) ` set ns \<and> j < 4 * length E
          then computeExtentState (fold (pfs_put True) ns P) j (pagesInExtent (edDb s)) (totalPageCount (edDb s'))
          else extentState E j)"
      have free: "no < 8 * length P \<and> int no < totalPageCount (edDb s')" if "no \<in> set ns" for no
        using findFreePages_spec(3) [of no P "totalPageCount (edDb s')" "nat n"] that ns by blast
      have grow: "totalPageCount (edDb s) \<le> totalPageCount (edDb s')"
        using tpc a(5)
          ceil_div(1) [of "int (pagesInExtent (edDb s))" "n - int (length (findFreePages P (totalPageCount (edDb s)) (nat n)))"]
        by (simp add: Let_def split: if_splits)
      have "maps_ok (fold (pfs_put True) ns P) E' (pagesInExtent (edDb s)) (totalPageCount (edDb s'))"
        using inv a(5) grow _ a(4) _ _ E'
      proof (rule maps_ok_allocate)
        show "pfsAllocated (fold (pfs_put True) ns P) (int j) \<longleftrightarrow> j \<in> set ns \<or> pfsAllocated P (int j)" for j
          using pfs.test_fold [of ns P True j] free by auto
      qed (use free in auto)
      then show ?thesis using a by (auto simp: consistent_def)
    qed
  next
    case (release pages l)
    show ?thesis
    proof (rule releasePages_run [OF ok P E release])
      fix E' c
      assume a: "edit_ok s'" "edDb s' = edDb s" "editPayload s' 0 = Inr (fold (pfs_put False) pages P)"
        "editPayload s' 1 = Inr E'" "0 < pagesInExtent (edDb s)"
        and d: "downgradeExtents (pagesInExtent (edDb s)) pages [] (E, 0) = (E', c)"
        and al: "\<And>no. no \<in> set pages \<Longrightarrow> pfsAllocated P (int no)"
      note dg = downgradeExtents_run [OF d]
      have "maps_ok (fold (pfs_put False) pages P) E' (pagesInExtent (edDb s)) (totalPageCount (edDb s))"
        using inv a(5) _ dg(2) _ dg(1)
      proof (rule maps_ok_release)
        show "pfsAllocated (fold (pfs_put False) pages P) (int j) \<longleftrightarrow> j \<notin> set pages \<and> pfsAllocated P (int j)" for j
          using pfs.test_fold [of pages P False j] al pfs.test_cap by auto
      qed simp
      then show ?thesis using a by (auto simp: consistent_def)
    qed
  qed
qed

text \<open>C2. In every state an edit can reach by any sequence of successful allocations and
  releases, the two allocation maps agree: no bit is set past the end of the file, an extent
  is marked full exactly when all its pages are allocated, and is never marked free while
  one of them is.\<close>

theorem reachable_maps_consistent:
  assumes "alloc_step\<^sup>*\<^sup>* s s'" and "consistent s"
  shows "consistent s'"
  using assms by (induction rule: rtranclp_induct) (auto intro: alloc_step_consistent)

lemma roomy_consistent: "consistent roomyEdit"
proof -
  have E: "extentState (padTo 380 [0x03]) e = (if e = 0 then extentFull else extentFree)" for e
  proof (cases "e < 4")
    case True
    then have "e = 0 \<or> e = 1 \<or> e = 2 \<or> e = 3" by auto
    then show ?thesis
      by (auto simp: extentState_def padTo_def extentFull_def extentFree_def eamBitsPerExtent_def)
  next
    case False
    then have "padTo 380 [0x03] ! (e * 2 div 8) = 0" if "e * 2 div 8 < 380"
      using that by (auto simp: padTo_def nth_append)
    with False show ?thesis by (auto simp: extentState_def extentFree_def eamBitsPerExtent_def Let_def padTo_def)
  qed
  have "computeExtentState (padTo 380 [0x03]) e 2 4 = (if e = 0 then extentFull else extentFree)" for e
  proof -
    have "computeExtentState (padTo 380 [0x03]) e 2 4 = extentFull \<longleftrightarrow> e = 0"
      by (subst computeExtentState_full(1)) (auto simp: roomy_bits dest: spec [of _ "e * 2"])
    moreover have "computeExtentState (padTo 380 [0x03]) e 2 4 = extentFree \<longleftrightarrow> e \<noteq> 0"
      by (subst computeExtentState_full(2)) (auto simp: roomy_bits dest: spec [of _ "e * 2"])
    ultimately show ?thesis by auto
  qed
  then have "maps_ok (padTo 380 [0x03]) (padTo 380 [0x03]) 2 4"
    by (simp add: maps_ok_def roomy_bits E)
  then show ?thesis by (simp add: consistent_def sampleEdit_ok)
qed

lemma reachable_maps_consistent_witness:
  "\<exists>s1 l s2. allocatePages (\<lambda>_. 9) 3 10 5 roomyEdit = (Inr [2, 3, 4], s1)
     \<and> releasePages [3] s1 = (Inr l, s2) \<and> consistent s2"
proof -
  obtain s1 where run: "allocatePages (\<lambda>_. 9) 3 10 5 roomyEdit = (Inr [2, 3, 4], s1)" by (rule roomy_run)
  have ok: "edit_ok roomyEdit" by (simp add: sampleEdit_ok)
  note pay = roomy_payloads(1) roomy_payloads(2) [folded One_nat_def]
  obtain l s2 where rel: "releasePages [3] s1 = (Inr l, s2)"
  proof (rule allocatePages_run [OF ok pay run])
    assume a: "edit_ok s1" "editPayload s1 0 = Inr (fold (pfs_put True) [2, 3, 4] (padTo 380 [0x03]))"
      "{0, 1} \<subseteq> dom (edPages s1)" "pagesInExtent (edDb s1) = pagesInExtent (edDb roomyEdit)"
    have "pfsAllocated (fold (pfs_put True) [2, 3, 4] (padTo 380 [0x03])) (int 3)"
      by (subst pfs.test_fold) auto
    then show thesis
      using releasePages_total [OF a(1) _ _ a(2), of "[3]"] a(3,4) that
      by (auto simp: bufferable_iff)
  qed
  have "alloc_step\<^sup>*\<^sup>* roomyEdit s2"
    using alloc_step.allocate [OF run] alloc_step.release [OF rel] by (meson rtranclp.simps)
  from reachable_maps_consistent [OF this roomy_consistent] run rel show ?thesis by blast
qed

section \<open>The update a second release loses\<close>

text \<open>C4. \<open>releasePages\<close> overwrites the dirty mark and the write counter of the Extent
  Allocation Map page instead of adding to them: when an edit has already changed that page
  and a later release touches no full extent, the page is marked clean, and the flush leaves
  the old entries on disk although the edit holds new ones.\<close>

theorem second_release_loses_extent_update:
  assumes "edit_ok s" and "editPayload s 0 = Inr P" and "editPayload s 1 = Inr E"
    and "releasePages pages s = (Inr l, s')"
    and "\<And>no. no \<in> set pages \<Longrightarrow> extentState E (no div pagesInExtent (edDb s)) \<noteq> extentFull"
  shows "editPayload s' 1 = Inr E \<and> \<not> dirty (bufAt 1 s') \<and> stateBump (bufAt 1 s') = 0
    \<and> regionOf (pageSize (edDb s)) (disk (edDb (snd (flushPages s')))) 1
        = regionOf (pageSize (edDb s)) (disk (edDb s)) 1"
proof (rule releasePages_run [OF assms(1-4)])
  fix E' c
  assume r: "edit_ok s'" "edDb s' = edDb s" "editPayload s' 1 = Inr E'"
    "downgradeExtents (pagesInExtent (edDb s)) pages [] (E, 0) = (E', c)"
    "stateBump (bufAt 1 s') = int c" "dirty (bufAt 1 s') = (0 < c)"
  have "E' = E \<and> c = 0" using downgradeExtents_run(3) [OF r(4)] assms(5) by blast
  then show ?thesis using r flushPages_frame [OF r(1), of 1] by simp
qed

lemma second_release_loses_extent_update_witness:
  "\<exists>l1 s1 l2 s2 E. releasePages [4] fullEdit = (Inr l1, s1) \<and> dirty (bufAt 1 s1)
     \<and> releasePages [5] s1 = (Inr l2, s2)
     \<and> editPayload s2 1 = Inr E \<and> extentState E 2 = extentPartial
     \<and> regionOf 420 (disk (edDb (snd (flushPages s2)))) 1 = sampleRegion 2 [0x3F]"
proof -
  obtain l1 s1 where run: "releasePages [4] fullEdit = (Inr l1, s1)" by (rule full_run [of "[4]"]) auto
  have ok: "edit_ok fullEdit" by (simp add: sampleEdit_ok)
  note pay = full_payloads(1) full_payloads(2) [folded One_nat_def]
  show ?thesis
  proof (rule releasePages_run [OF ok pay run])
    fix E c
    assume a: "edit_ok s1" "edDb s1 = edDb fullEdit"
      "editPayload s1 0 = Inr (fold (pfs_put False) [4] (padTo 380 [0x3F]))" "editPayload s1 1 = Inr E"
      and d: "downgradeExtents (pagesInExtent (edDb fullEdit)) [4] [] (padTo 380 [0x3F], 0) = (E, c)"
      and dom: "{0, 1} \<subseteq> dom (edPages s1)" and dirty: "dirty (bufAt 1 s1) = (0 < c)"
    have c: "c = 1" using d by (simp add: Let_def full_extents)
    have E: "extentState E 2 = extentPartial"
      using downgradeExtents_run(1) [OF d, of 2] by (simp add: downgrade_def full_extents)
    have "pfsAllocated (fold (pfs_put False) [4] (padTo 380 [0x3F])) (int 5)"
      using full_bits [of 5] by (subst pfs.test_fold) auto
    then obtain l2 s2 where rel: "releasePages [5] s1 = (Inr l2, s2)"
      using releasePages_total [OF a(1) _ _ a(3), of "[5]"] dom a(2) by (auto simp: bufferable_iff)
    have "editPayload s2 1 = Inr E \<and> \<not> dirty (bufAt 1 s2) \<and> stateBump (bufAt 1 s2) = 0
        \<and> regionOf (pageSize (edDb s1)) (disk (edDb (snd (flushPages s2)))) 1
          = regionOf (pageSize (edDb s1)) (disk (edDb s1)) 1"
      by (rule second_release_loses_extent_update [OF a(1,3,4) rel]) (simp add: a(2) E)
    moreover have "regionOf 420 (disk (sampleFile 2 fullPages)) 1 = sampleRegion 2 [0x3F]"
      by (simp add: sample_regions(2)) (simp add: fullPages_def)
    ultimately show ?thesis using run rel dirty c E a(2) by (simp del: One_nat_def)
  qed
qed

end
