(* ===== verification/Page_Props.thy ===== *)
theory Page_Props
  imports Release_Props
begin

text \<open>
  Properties of the page layer: what is written to a page is read back, in the clear and
  encrypted; a flushed edit is what a later reader sees; and a buffer written twice is
  encrypted twice.
\<close>

section \<open>Writing one page\<close>

lemma writePageBuf_pages:
  assumes ok: "file_ok db" "cipher_lawful db" "buf_ok db p" "buf_mode db p"
    and w: "writePageBuf (db, p) = (Inr (), (db', p'))"
    and n: "0 \<le> n" "n < totalPageCount db"
  shows "pageView db' n = (if n = int (bufNumber p)
      then Inr (bufPayload p, map_option (\<lambda>h. h\<lparr>CRC32 := (if bufEncrypted p then absCRC32 (bufPayload p) else CRC32 h)\<rparr>)
             (parseDiskPageHeader (raw p)))
      else pageView db n)"
    and "file_ok db'"
proof -
  obtain h where h: "parseDiskPageHeader (raw p) = Some h"
    using ok(4) by (auto simp: buf_mode_def split: option.splits)
  have lawful: "payloadCipher db = Inr c \<Longrightarrow> block_cipher c" for c
    using ok(2) by (simp add: cipher_lawful_def)
  have "if bufEncrypted p then 0 < bufNumber p \<and> decryptionKey db \<noteq> None
                 \<and> (\<forall>c. payloadCipher db = Inr c \<longrightarrow> block_cipher c)
               else CRC32 h = 0"
    using ok(4) h lawful by (auto simp: buf_mode_def split: if_splits)
  note view = writePageBuf_view [OF ok(1,3) w h this]
  note reg = writeRegion_regions [OF ok(1) view(2)]
  show fok: "file_ok db'" using reg(2) view(4) by simp
  have same: "cryptoHeader db' = cryptoHeader db" "decryptionKey db' = decryptionKey db"
    "cipherlib db' = cipherlib db" "pageSize db' = pageSize db" "totalPageCount db' = totalPageCount db"
    by (simp_all add: view(4))
  have "pageView db' n = viewOf db n (regionOf (pageSize db) (disk db') (nat n))"
    using pageView_region [OF fok, of n] n viewOf_cong [of db' db] same by simp
  also have "\<dots> = (if n = int (bufNumber p) then viewOf db n (bufRegion p') else pageView db n)"
    using reg(1) [of "nat n"] view(3,4) n pageView_region [OF ok(1) n] by auto
  finally show "pageView db' n = (if n = int (bufNumber p)
      then Inr (bufPayload p, map_option (\<lambda>h. h\<lparr>CRC32 := (if bufEncrypted p then absCRC32 (bufPayload p) else CRC32 h)\<rparr>)
             (parseDiskPageHeader (raw p)))
      else pageView db n)"
    using view(1) h by auto
qed

section \<open>A small encrypted file\<close>

text \<open>A cipher a DES library could return, and a file that uses it.\<close>

definition plainBlock :: cipher where
  "plainBlock = \<lparr>blockSize = 8, encrypt = (\<lambda>x. x), decrypt = (\<lambda>x. x)\<rparr>"

lemma plainBlock_cipher: "block_cipher plainBlock"
  by unfold_locales (simp_all add: plainBlock_def)

definition sealedFile :: dbfile where
  "sealedFile = (sampleFile 2 fullPages)\<lparr>
     cryptoHeader := Some \<lparr>HeaderSize = 0, Algorithm = CryptoDESSingle, Mode = cryptoModeCTS,
       ControlBlock = [], ControlCRC = 0\<rparr>,
     decryptionKey := Some (replicate 8 0),
     cipherlib := noLib\<lparr>newDES := (\<lambda>_. Inr plainBlock)\<rparr>\<rparr>"

definition sealedBuf :: pagebuf where
  "sealedBuf = \<lparr>bufNumber = 2, raw = replicate 380 0 @ sampleRegion 12 [1], bufEncrypted = True,
     dirty = True, stateBump = 1\<rparr>"

lemma sealed_payloadCipher: "payloadCipher sealedFile = Inr plainBlock"
  by (simp add: payloadCipher_def sealedFile_def newCipherBlock_def cipherSpecs_def algorithm_consts
      cryptoModeCTS_def)

lemma sealed_fields [simp]:
  "pageSize sealedFile = 420" "totalPageCount sealedFile = 6" "writable sealedFile"
  "decryptionKey sealedFile = Some (replicate 8 0)"
  by (simp_all add: sealedFile_def)

lemma sealed_ok: "file_ok sealedFile" "cipher_lawful sealedFile" "buf_ok sealedFile sealedBuf"
  "buf_mode sealedFile sealedBuf"
proof -
  show "file_ok sealedFile"
    using sampleFile_file_ok [of fullPages 2] by (simp add: file_ok_def sealedFile_def)
  show "cipher_lawful sealedFile" by (simp add: cipher_lawful_def sealed_payloadCipher plainBlock_cipher)
  show "buf_ok sealedFile sealedBuf"
    by (simp add: buf_ok_def sealedBuf_def pageReadSize_def sampleRegion_def layout_consts)
  have "parseDiskPageHeader (replicate 380 0 @ sampleRegion 12 [1]) = Some (freshHeader 7 12 0)"
    using parse_writeDiskPageHeader [of "replicate 380 0 @ replicate 40 0 @ padTo 380 [1]" 7 12 0]
    by (simp add: sampleRegion_def splice_append_at)
  then show "buf_mode sealedFile sealedBuf" by (simp add: buf_mode_def sealedBuf_def)
qed

lemma sealed_payload: "bufPayload sealedBuf = padTo 380 [1]"
  by (simp add: bufPayload_def sealedBuf_def sampleRegion_def layout_consts)

text \<open>Trailing zero bytes never turn a checksum into zero, or zero into another.\<close>

lemma crcStep_0 [simp]: "(crcStep ^^ n) 0 = 0"
  by (induction n) (simp_all add: crcStep_def)

lemma absCRC32_zeros: "absCRC32 (xs @ replicate n 0) = 0 \<longleftrightarrow> absCRC32 xs = 0"
proof -
  have "foldl crcBits s (replicate n 0) = 0 \<longleftrightarrow> s = 0" for s
  proof (induction n arbitrary: s)
    case (Suc n)
    have "crcBits s 0 = 0 \<longleftrightarrow> s = 0"
      using crcStep_pow_inj [of 8 s 0] by (auto simp: crcBits_def)
    with Suc show ?case by simp
  qed simp
  then show ?thesis by (simp add: absCRC32_bits)
qed

lemma crcBits_steps: "crcBits s b
    = crcStep (crcStep (crcStep (crcStep (crcStep (crcStep (crcStep (crcStep (s XOR ucast b))))))))"
  by (simp add: crcBits_def numeral_eq_Suc)

lemma crc_nonzero:
  "absCRC32 (padTo 380 [1]) \<noteq> 0"
  "absCRC32 ([0xFE, 0xFF, 0xFF, 0xFF, 0xFF, 0xFF, 0xFF, 0xFF, 1] @ replicate 371 0) \<noteq> 0"
proof -
  have "foldl crcBits 0 [1] \<noteq> 0" by (simp add: crcBits_steps crcStep_def absCRCPoly_def)
  then show "absCRC32 (padTo 380 [1]) \<noteq> 0"
    using absCRC32_zeros [of "[1]" 379] by (simp add: padTo_def absCRC32_bits)
  have "foldl crcBits 0 [0xFE, 0xFF, 0xFF, 0xFF, 0xFF, 0xFF, 0xFF, 0xFF, 1] \<noteq> 0"
    by (simp add: crcBits_steps crcStep_def absCRCPoly_def)
  then show "absCRC32 ([0xFE, 0xFF, 0xFF, 0xFF, 0xFF, 0xFF, 0xFF, 0xFF, 1] @ replicate 371 0) \<noteq> 0"
    using absCRC32_zeros [of "[0xFE, 0xFF, 0xFF, 0xFF, 0xFF, 0xFF, 0xFF, 0xFF, 1]" 371]
    by (simp only: absCRC32_bits not_False_eq_True)
qed

text \<open>What the small cipher makes of the payload: the chain cancels after two blocks.\<close>

lemma plain_block:
  "length x = 8 \<Longrightarrow> length fb = 8 \<Longrightarrow> ctsEncrypt plainBlock fb (x @ rest)
    = xorBytes x fb @ ctsEncrypt plainBlock (xorBytes fb (xorBytes x fb)) rest"
  by (subst ctsEncrypt.simps) (simp add: plainBlock_def Let_def)

abbreviation zeros8 :: "byte list" where "zeros8 \<equiv> [0, 0, 0, 0, 0, 0, 0, 0]"

lemma zeros_split: "8 \<le> n \<Longrightarrow> replicate n (0 :: byte) = zeros8 @ replicate (n - 8) 0"
proof -
  have "replicate 8 (0 :: byte) = zeros8" by (simp add: numeral_eq_Suc)
  then show "8 \<le> n \<Longrightarrow> replicate n (0 :: byte) = zeros8 @ replicate (n - 8) 0"
    using replicate_add [of 8 "n - 8" "0 :: byte"] by simp
qed

lemma plain_zeros: "ctsEncrypt plainBlock zeros8 (replicate n 0) = replicate n 0"
proof (induction n rule: less_induct)
  case (less n)
  show ?case
  proof (cases "n < 8")
    case True
    then have "n \<in> {0, 1, 2, 3, 4, 5, 6, 7}" by auto
    then show ?thesis
      by (subst ctsEncrypt.simps) (auto simp: plainBlock_def xorBytes_def numeral_eq_Suc)
  next
    case False
    then have "ctsEncrypt plainBlock zeros8 (replicate (n - 8) 0) = replicate (n - 8) 0"
      using less by simp
    with False show ?thesis
      using plain_block [of zeros8 zeros8 "replicate (n - 8) 0"]
      by (simp add: zeros_split [of n] xorBytes_def)
  qed
qed

lemma seven_zeros: "replicate (n + 7) (0 :: byte) = [0, 0, 0, 0, 0, 0, 0] @ replicate n 0"
  by (simp add: numeral_eq_Suc)

lemma sealed_ciphertext: "encryptCTS plainBlock (padTo 380 [1])
    = [0xFE, 0xFF, 0xFF, 0xFF, 0xFF, 0xFF, 0xFF, 0xFF, 1] @ replicate 371 0"
proof -
  have seven: "1 # replicate (n + 7) 0 = [1, 0, 0, 0, 0, 0, 0, 0 :: byte] @ replicate n 0" for n
    by (simp add: numeral_eq_Suc)
  have "padTo 380 [1] = [1, 0, 0, 0, 0, 0, 0, 0] @ zeros8 @ replicate 364 0"
    using seven [of 372] by (simp add: padTo_def zeros_split)
  moreover have "replicate 8 ivFillByte = [0xFF, 0xFF, 0xFF, 0xFF, 0xFF, 0xFF, 0xFF, 0xFF]"
    by (simp add: numeral_eq_Suc ivFillByte_def)
  moreover have bs: "blockSize plainBlock = 8" by (simp add: plainBlock_def)
  ultimately have "encryptCTS plainBlock (padTo 380 [1])
      = [0xFE, 0xFF, 0xFF, 0xFF, 0xFF, 0xFF, 0xFF, 0xFF] @ [1, 0, 0, 0, 0, 0, 0, 0]
         @ ctsEncrypt plainBlock zeros8 (replicate 364 0)"
    using plain_block [of "[1, 0, 0, 0, 0, 0, 0, 0]" "[0xFF, 0xFF, 0xFF, 0xFF, 0xFF, 0xFF, 0xFF, 0xFF]" "zeros8 @ replicate 364 0"]
      plain_block [of zeros8 "[1, 0, 0, 0, 0, 0, 0, 0]" "replicate 364 0"] bs
    by (simp add: encryptCTS_def xorBytes_def)
  moreover have "replicate 371 (0 :: byte) = [0, 0, 0, 0, 0, 0, 0] @ replicate 364 0"
    using seven_zeros [of 364] by simp
  ultimately show ?thesis by (simp only: plain_zeros) simp
qed

lemma writePageBuf_sealed:
  assumes "writable db" and "bufEncrypted p" and "absCRC32 (bufPayload p) \<noteq> 0" and "payloadCipher db = Inr c"
    and "420 \<le> length (raw p)"
  obtains db' p' where "writePageBuf (db, p) = (Inr (), (db', p'))" and "bufEncrypted p'"
    and "bufPayload p' = encryptCTS c (bufPayload p)" and "db' = writeRegion p' db"
    and "length (encryptCTS c (bufPayload p)) = length (bufPayload p) \<Longrightarrow> length (raw p') = length (raw p)"
proof -
  let ?p1 = "p\<lparr>raw := splice 394 (leU32 (absCRC32 (bufPayload p))) (raw p)\<rparr>"
  let ?p2 = "setPayload (encryptCTS c (bufPayload p)) ?p1"
  have pay: "bufPayload ?p1 = bufPayload p" by (rule bufPayload_splice_header) simp
  show ?thesis
  proof (rule that)
    show "writePageBuf (db, p) = (Inr (), (writeRegion ?p2 db, ?p2))"
      using assms pay by (simp add: writePageBuf_def Let_def encryptPayload_def pageCRCOffset_def)
    show "length (raw ?p2) = length (raw p)"
      if "length (encryptCTS c (bufPayload p)) = length (bufPayload p)"
      using that assms(5) pay by simp
  qed (use assms in simp_all)
qed

section \<open>Properties\<close>

text \<open>C14. What \<open>writePageBuf\<close> writes, \<open>ReadPage\<close> reads: the page's payload in the clear, with
  the header it was written with and, for an encrypted page, the checksum of the plaintext.
  Every other page reads as it did.\<close>

theorem written_page_reads_back:
  assumes "file_ok db" and "cipher_lawful db" and "buf_ok db p" and "buf_mode db p"
    and "writePageBuf (db, p) = (Inr (), (db', p'))"
  shows "pageView db' (int (bufNumber p)) = Inr (bufPayload p, map_option
        (\<lambda>h. h\<lparr>CRC32 := (if bufEncrypted p then absCRC32 (bufPayload p) else CRC32 h)\<rparr>) (parseDiskPageHeader (raw p)))
    \<and> (\<forall>n. 0 \<le> n \<longrightarrow> n < totalPageCount db \<longrightarrow> n \<noteq> int (bufNumber p) \<longrightarrow> pageView db' n = pageView db n)"
  using writePageBuf_pages(1) [OF assms] assms(3) by (auto simp: buf_ok_def)

lemma sealed_long: "420 \<le> length (raw sealedBuf)"
  by (simp add: sealedBuf_def sampleRegion_def)

lemma sealed_enc: "bufEncrypted sealedBuf" "bufNumber sealedBuf = 2"
  by (simp_all add: sealedBuf_def)

lemma written_page_reads_back_witness:
  "\<exists>db' p' h. writePageBuf (sealedFile, sealedBuf) = (Inr (), (db', p')) \<and> bufPayload p' \<noteq> padTo 380 [1]
     \<and> pageView db' 2 = Inr (padTo 380 [1], h)"
proof -
  obtain db' p' where w: "writePageBuf (sealedFile, sealedBuf) = (Inr (), (db', p'))"
    and ct: "bufPayload p' = encryptCTS plainBlock (bufPayload sealedBuf)"
    using writePageBuf_sealed [OF sealed_fields(3) sealed_enc(1) _ sealed_payloadCipher sealed_long]
      crc_nonzero(1) by (metis sealed_payload)
  have "bufPayload p' \<noteq> padTo 380 [1]"
    unfolding ct sealed_payload sealed_ciphertext by (simp add: padTo_def)
  with written_page_reads_back [OF sealed_ok w] w show ?thesis
    by (simp add: sealed_enc sealed_payload)
qed

text \<open>C0. \<open>writePageBuf\<close> encrypts the buffer it is given in place, so a buffer of an encrypted
  page that is written twice is encrypted twice: the second write stores the ciphertext of
  the ciphertext under the checksum of the ciphertext. A reader gets the ciphertext of the
  buffered payload back, and the checksum agrees with it, so that nothing reports the damage.
  \<open>appendRecordPageEntry\<close> writes its buffer at once and leaves it dirty for \<open>Commit\<close>.\<close>

theorem second_write_encrypts_again:
  assumes "file_ok db" and "cipher_lawful db" and "buf_ok db p" and "buf_mode db p" and "bufEncrypted p"
    and "payloadCipher db = Inr c"
    and "writePageBuf (db, p) = (Inr (), (db1, p1))" and "writePageBuf (db1, p1) = (Inr (), (db2, p2))"
  shows "pageView db2 (int (bufNumber p)) = Inr (encryptCTS c (bufPayload p),
    map_option (\<lambda>h. h\<lparr>CRC32 := absCRC32 (encryptCTS c (bufPayload p))\<rparr>) (parseDiskPageHeader (raw p)))"
proof -
  obtain h where h: "parseDiskPageHeader (raw p) = Some h"
    using assms(4) by (auto simp: buf_mode_def split: option.splits)
  note ok1 = writePageBuf_ok [OF assms(1-3,7)]
  note fok1 = writePageBuf_pages(2) [OF assms(1-4,7) order_refl]
  have p1: "p1 = setPayload (encryptCTS c (bufPayload p)) (p\<lparr>raw := splice 394 (leU32 (absCRC32 (bufPayload p))) (raw p)\<rparr>)"
    using assms(7)
  proof (cases rule: writePageBuf_cases)
    case (sealed c')
    then show ?thesis using assms(6) bufPayload_splice_header [of 394 "leU32 (absCRC32 (bufPayload p))" p] by simp
  qed (use assms(5) in simp)
  have long: "420 \<le> length (raw p)" using length_raw [OF assms(1,3)] .
  have pay1: "bufPayload p1 = encryptCTS c (bufPayload p)" and enc1: "bufEncrypted p1"
    using long assms(5) by (simp_all add: p1)
  have head: "parseDiskPageHeader (raw p1) = Some (h\<lparr>CRC32 := absCRC32 (bufPayload p)\<rparr>)"
    using parse_patched_crc [OF h] long by (simp add: p1 raw_setPayload parse_take_420)
  have pos: "0 < totalPageCount db" using assms(3) by (simp add: buf_ok_def)
  have same: "cryptoHeader db1 = cryptoHeader db" "decryptionKey db1 = decryptionKey db"
    "cipherlib db1 = cipherlib db" "pageSize db1 = pageSize db" "totalPageCount db1 = totalPageCount db"
    by (simp_all add: ok1(3))
  have fok: "file_ok db1" by (rule fok1 [OF pos])
  have bok: "buf_ok db1 p1" using ok1(1) by (simp add: buf_ok_def pageReadSize_def same)
  have "cipher_lawful db1" using assms(2) payloadCipher_cong [of db1 db] same by (simp add: cipher_lawful_def)
  moreover have "buf_mode db1 p1"
    using head assms(4,5) enc1 h ok1(2) by (simp add: buf_mode_def same)
  ultimately show ?thesis
    using writePageBuf_pages(1) [OF fok _ bok _ assms(8), of "int (bufNumber p)"] ok1(2) assms(3) same pay1 head h enc1
    by (simp add: buf_ok_def)
qed

lemma second_write_encrypts_again_witness:
  "\<exists>db1 p1 db2 p2. writePageBuf (sealedFile, sealedBuf) = (Inr (), (db1, p1))
     \<and> writePageBuf (db1, p1) = (Inr (), (db2, p2))
     \<and> (\<exists>h. pageView db2 2 = Inr ([0xFE, 0xFF, 0xFF, 0xFF, 0xFF, 0xFF, 0xFF, 0xFF, 1] @ replicate 371 0, h))
     \<and> bufPayload sealedBuf = padTo 380 [1]
     \<and> padTo 380 [1] \<noteq> [0xFE, 0xFF, 0xFF, 0xFF, 0xFF, 0xFF, 0xFF, 0xFF, 1] @ replicate 371 (0 :: byte)"
proof -
  obtain db1 p1 where w: "writePageBuf (sealedFile, sealedBuf) = (Inr (), (db1, p1))"
    and ct: "bufPayload p1 = encryptCTS plainBlock (bufPayload sealedBuf)" and enc: "bufEncrypted p1"
    and db1: "db1 = writeRegion p1 sealedFile"
    and len: "length (encryptCTS plainBlock (bufPayload sealedBuf)) = length (bufPayload sealedBuf)
      \<Longrightarrow> length (raw p1) = length (raw sealedBuf)"
    using writePageBuf_sealed [OF sealed_fields(3) sealed_enc(1) _ sealed_payloadCipher sealed_long]
      crc_nonzero(1) by (metis sealed_payload)
  have "420 \<le> length (raw p1)"
    using len sealed_long block_cipher.length_encryptCTS [OF plainBlock_cipher] by simp
  moreover have "writable db1" by (simp add: db1)
  moreover have "payloadCipher db1 = Inr plainBlock"
    using payloadCipher_cong [of db1 sealedFile] sealed_payloadCipher by (simp add: db1)
  moreover have "absCRC32 (bufPayload p1) \<noteq> 0"
    unfolding ct sealed_payload sealed_ciphertext by (rule crc_nonzero(2))
  ultimately obtain db2 p2 where w2: "writePageBuf (db1, p1) = (Inr (), (db2, p2))"
    using writePageBuf_sealed [of db1 p1 plainBlock] enc by metis
  from second_write_encrypts_again [OF sealed_ok sealed_enc(1) sealed_payloadCipher w w2] w w2
  have "\<exists>h. pageView db2 2 = Inr ([0xFE, 0xFF, 0xFF, 0xFF, 0xFF, 0xFF, 0xFF, 0xFF, 1] @ replicate 371 0, h)"
    by (simp add: sealed_enc sealed_payload sealed_ciphertext)
  then show ?thesis using w w2 by (simp add: sealed_payload) (simp add: padTo_def)
qed

text \<open>C13. A flush that succeeds makes the file say what the edit said: every page that was
  modified, that is, whose buffer is dirty, reads back with the edit's payload and a State
  counter advanced by its number of writes; every other page, one with a clean buffer too,
  reads as before.\<close>

theorem flushed_edit_reads_back:
  assumes "edit_ok s" and "modes_ok s" and "flushPages s = (Inr (), s')"
  shows "\<forall>n. 0 \<le> n \<longrightarrow> n < totalPageCount (edDb s) \<longrightarrow> pageView (edDb s') n
      = (if nat n \<in> dom (edPages s) \<and> dirty (bufAt (nat n) s)
         then Inr (bufPayload (bufAt (nat n) s), flushedHeader (bufAt (nat n) s)) else pageView (edDb s) n)"
  using flushPages_view [OF assms] by blast

definition sealedEdit :: edit where
  "sealedEdit = \<lparr>edDb = sealedFile, edPages = [2 \<mapsto> sealedBuf], edOrder = [2]\<rparr>"

lemma flushed_edit_reads_back_witness:
  "\<exists>s'. flushPages sealedEdit = (Inr (), s')
     \<and> pageView (edDb s') 2 = Inr (padTo 380 [1], flushedHeader sealedBuf)"
proof -
  have ok: "edit_ok sealedEdit"
    using sealed_ok by (simp add: edit_ok_def sealedEdit_def sealed_enc)
  have at2: "bufAt 2 sealedEdit = sealedBuf" by (simp add: bufAt_def sealedEdit_def)
  have "modes_ok sealedEdit"
    using sealed_ok(4) at2 by (simp add: modes_ok_def) (simp add: sealedEdit_def)
  moreover have "dirty sealedBuf" by (simp add: sealedBuf_def)
  moreover obtain s' where "flushPages sealedEdit = (Inr (), s')"
  proof -
    have "absCRC32 (bufPayload (bumpPageState sealedBuf)) \<noteq> 0" using crc_nonzero(1) sealed_payload by simp
    then obtain db' p' where "writePageBuf (sealedFile, bumpPageState sealedBuf) = (Inr (), (db', p'))"
      using writePageBuf_sealed [of sealedFile "bumpPageState sealedBuf" plainBlock] sealed_enc
        sealed_payloadCipher sealed_long by (metis bump_fields(2,4) sealed_fields(3))
    then have "flushPage 2 sealedEdit = (Inr (), (putBuf 2 p' (putBuf 2 (bumpPageState sealedBuf) sealedEdit))\<lparr>edDb := db'\<rparr>)"
      using \<open>dirty sealedBuf\<close> at2 by (simp add: flushPage_def writeBuf_def) (simp add: sealedEdit_def)
    then have "flushPages sealedEdit = (Inr (), (putBuf 2 p' (putBuf 2 (bumpPageState sealedBuf) sealedEdit))\<lparr>edDb := db'\<rparr>)"
      by (simp add: flushPages_def sealedEdit_def bindO_def)
    then show thesis by (rule that)
  qed
  ultimately show ?thesis
    using flushed_edit_reads_back [OF ok, THEN spec [of _ 2]] at2 sealed_payload
    by (auto simp: sealedEdit_def)
qed

end
