(* ===== verification/Layout.thy ===== *)
theory Layout
  imports Page_Props
begin

text \<open>
  Columns and the layout of a record (\<open>schema.go\<close>: the column types; \<open>reader.go\<close>: the
  derivation of offsets, record size, records per page and bitmap size). Nothing of the
  layout is stored in the file; it follows from the columns and the page size.
\<close>

section \<open>Columns\<close>

text \<open>Types are bytes on disk and stay bytes in the code: an unknown value is a value.\<close>

definition BftUnknown :: byte where "BftUnknown = 0"
definition BftChar :: byte where "BftChar = 1"
definition BftWideChar :: byte where "BftWideChar = 2"
definition BftVarchar :: byte where "BftVarchar = 3"
definition BftWideVarchar :: byte where "BftWideVarchar = 4"
definition BftInt8 :: byte where "BftInt8 = 5"
definition BftInt16 :: byte where "BftInt16 = 6"
definition BftInt32 :: byte where "BftInt32 = 7"
definition BftInt64 :: byte where "BftInt64 = 8"
definition BftUint8 :: byte where "BftUint8 = 9"
definition BftUint16 :: byte where "BftUint16 = 10"
definition BftUint32 :: byte where "BftUint32 = 11"
definition BftSingle :: byte where "BftSingle = 12"
definition BftDouble :: byte where "BftDouble = 13"
definition BftExtended :: byte where "BftExtended = 14"
definition BftDate :: byte where "BftDate = 15"
definition BftTime :: byte where "BftTime = 16"
definition BftDateTime :: byte where "BftDateTime = 17"
definition BftBlob :: byte where "BftBlob = 18"
definition BftClob :: byte where "BftClob = 19"
definition BftWideClob :: byte where "BftWideClob = 20"
definition BftLogical :: byte where "BftLogical = 21"
definition BftCurrency :: byte where "BftCurrency = 22"
definition BftBytes :: byte where "BftBytes = 23"
definition BftVarBytes :: byte where "BftVarBytes = 24"

lemmas bft_consts = BftUnknown_def BftChar_def BftWideChar_def BftVarchar_def BftWideVarchar_def BftInt8_def BftInt16_def BftInt32_def BftInt64_def BftUint8_def BftUint16_def BftUint32_def BftSingle_def BftDouble_def BftExtended_def BftDate_def BftTime_def BftDateTime_def BftBlob_def BftClob_def BftWideClob_def BftLogical_def BftCurrency_def BftBytes_def BftVarBytes_def

definition FieldUnknown :: byte where "FieldUnknown = 0"
definition FieldChar :: byte where "FieldChar = 1"
definition FieldString :: byte where "FieldString = 2"
definition FieldInteger :: byte where "FieldInteger = 7"
definition FieldLargeInt :: byte where "FieldLargeInt = 8"
definition FieldAutoInc :: byte where "FieldAutoInc = 12"
definition FieldAutoIncUint32 :: byte where "FieldAutoIncUint32 = 19"
definition FieldTimeStamp :: byte where "FieldTimeStamp = 28"
definition FieldGUID :: byte where "FieldGUID = 36"

record autoIncOptions =
  increment :: int
  initialValue :: int
  minValue :: int
  maxValue :: int
  cycled :: bool
  aiKnown :: bool

record blobSettings =
  blobAlgorithm :: byte
  blobMode :: byte
  blobBlockSize :: u32
  blobKnown :: bool

record Column =
  Name :: "byte list"
  ColID :: u32
  BaseType :: byte
  FieldType :: byte
  Size :: u32
  Position :: nat
  hasDefault :: bool
  autoInc :: autoIncOptions
  blob :: blobSettings
  notNull :: bool
  nullabilityKnown :: bool

definition engineDefault :: "autoIncOptions \<Rightarrow> bool" where
  "engineDefault o' \<longleftrightarrow> \<not> aiKnown o' \<or>
     (increment o' = 1 \<and> initialValue o' = 0 \<and> minValue o' = 0 \<and> maxValue o' = 2 ^ 63 - 1 \<and> \<not> cycled o')"

definition IsBLOB :: "Column \<Rightarrow> bool" where
  "IsBLOB c \<longleftrightarrow> BaseType c = BftBlob \<or> BaseType c = BftClob \<or> BaseType c = BftWideClob"

definition IsAutoInc :: "Column \<Rightarrow> bool" where
  "IsAutoInc c \<longleftrightarrow> FieldAutoInc \<le> FieldType c \<and> FieldType c \<le> FieldAutoIncUint32"

section \<open>Stored sizes\<close>

definition fixedFieldStoreSize :: "byte \<Rightarrow> nat option" where
  "fixedFieldStoreSize t = map_of
     [(BftInt8, 1), (BftUint8, 1), (BftInt16, 2), (BftUint16, 2), (BftInt32, 4), (BftUint32, 4),
      (BftInt64, 8), (BftSingle, 4), (BftDouble, 8), (BftExtended, 10), (BftCurrency, 8),
      (BftLogical, 2), (BftDate, 4), (BftTime, 4), (BftDateTime, 8), (BftBlob, 6), (BftClob, 6),
      (BftWideClob, 6)] t"

definition fieldStoreSize :: "Column \<Rightarrow> nat" where
  "fieldStoreSize c = (case fixedFieldStoreSize (BaseType c) of
     Some n \<Rightarrow> n
   | None \<Rightarrow>
       if BaseType c = BftVarchar \<or> BaseType c = BftChar then unat (Size c) + 1
       else if BaseType c = BftWideVarchar \<or> BaseType c = BftWideChar then (unat (Size c) + 1) * 2
       else if BaseType c = BftVarBytes \<or> BaseType c = BftBytes then unat (Size c) + 1
       else unat (Size c))"

definition integerStorage :: "Column \<Rightarrow> (nat \<times> bool) option" where
  "integerStorage c = (let t = BaseType c in
     if t = BftInt8 then Some (1, True) else if t = BftUint8 then Some (1, False)
     else if t = BftInt16 then Some (2, True) else if t = BftUint16 then Some (2, False)
     else if t = BftInt32 then Some (4, True) else if t = BftUint32 then Some (4, False)
     else if t = BftInt64 then Some (8, True) else None)"

lemma integerStorage_size:
  "integerStorage c = Some (w, s) \<Longrightarrow> fieldStoreSize c = w \<and> w \<in> {1, 2, 4, 8} \<and> (w = 8 \<longrightarrow> s)"
  by (auto simp: integerStorage_def fieldStoreSize_def fixedFieldStoreSize_def bft_consts Let_def
      split: if_splits)

section \<open>The layout\<close>

fun rppLoop :: "nat \<Rightarrow> nat \<Rightarrow> nat \<Rightarrow> nat" where
  "rppLoop payloadLen recSize 0 = 0"
| "rppLoop payloadLen recSize (Suc n) =
     (if (Suc n + 7) div 8 + Suc n * recSize > payloadLen then rppLoop payloadLen recSize n else Suc n)"

definition recordsPerPage :: "int \<Rightarrow> nat \<Rightarrow> nat" where
  "recordsPerPage payloadLen recSize =
     (if recSize = 0 \<or> payloadLen \<le> 0 then 0
      else rppLoop (nat payloadLen) recSize (nat payloadLen div recSize))"

text \<open>The loop of \<open>computeRecordLayout\<close>: each field starts where the one before it ends.\<close>

fun offsetsFrom :: "nat \<Rightarrow> nat list \<Rightarrow> nat list" where
  "offsetsFrom off [] = []"
| "offsetsFrom off (sz # szs) = off # offsetsFrom (off + sz) szs"

record layout =
  columns :: "Column list"
  fieldOffsets :: "nat list"
  fieldStoreSizes :: "nat list"
  nullFlagBytes :: nat
  fieldDataSize :: nat
  recordSize :: nat
  recsPerPage :: nat
  bitmapBytes :: nat

definition computeLayout :: "int \<Rightarrow> Column list \<Rightarrow> layout" where
  "computeLayout payload cols =
     (let sizes = map fieldStoreSize cols; dataSize = sum_list sizes;
          flags = (length cols + 7) div 8; recSize = flags + dataSize;
          perPage = recordsPerPage payload recSize in
      \<lparr>columns = cols, fieldOffsets = offsetsFrom 0 sizes, fieldStoreSizes = sizes,
       nullFlagBytes = flags, fieldDataSize = dataSize, recordSize = recSize,
       recsPerPage = perPage, bitmapBytes = (perPage + 7) div 8\<rparr>)"

text \<open>The payload offset at which a slot's record starts.\<close>

definition slotOffset :: "layout \<Rightarrow> nat \<Rightarrow> nat" where
  "slotOffset l slot = bitmapBytes l + slot * recordSize l"

section \<open>What the layout guarantees\<close>

lemma rppLoop_le: "rppLoop p r n \<le> n"
  by (induction n) auto

lemma rppLoop_fits: "rppLoop p r n \<noteq> 0 \<Longrightarrow> (rppLoop p r n + 7) div 8 + rppLoop p r n * r \<le> p"
  by (induction n) (auto split: if_splits)

lemma rppLoop_max:
  "m \<le> n \<Longrightarrow> (m + 7) div 8 + m * r \<le> p \<Longrightarrow> m \<le> rppLoop p r n"
  by (induction n) (auto simp: le_Suc_eq)

lemma recordsPerPage_fits:
  "recordsPerPage payload r \<noteq> 0 \<Longrightarrow>
   (recordsPerPage payload r + 7) div 8 + recordsPerPage payload r * r \<le> nat payload"
  by (auto simp: recordsPerPage_def rppLoop_fits split: if_splits)

lemma recordsPerPage_max:
  assumes "0 < r" and "(m + 7) div 8 + m * r \<le> nat payload"
  shows "m \<le> recordsPerPage payload r"
proof (cases "payload \<le> 0")
  case True
  then have "m * r = 0" using assms(2) by simp
  then show ?thesis using assms(1) by simp
next
  case False
  have "m \<le> nat payload div r"
    using assms by (simp add: less_eq_div_iff_mult_less_eq)
  then show ?thesis using False assms by (simp add: recordsPerPage_def rppLoop_max)
qed

lemma length_offsetsFrom [simp]: "length (offsetsFrom off sizes) = length sizes"
  by (induction sizes arbitrary: off) simp_all

lemma nth_offsetsFrom: "i < length sizes \<Longrightarrow> offsetsFrom off sizes ! i = off + sum_list (take i sizes)"
proof (induction sizes arbitrary: off i)
  case (Cons s sizes)
  then show ?case by (cases i) simp_all
qed simp

lemma computeLayout_simps [simp]:
  "columns (computeLayout p cols) = cols"
  "fieldStoreSizes (computeLayout p cols) = map fieldStoreSize cols"
  "length (fieldOffsets (computeLayout p cols)) = length cols"
  "fieldDataSize (computeLayout p cols) = sum_list (map fieldStoreSize cols)"
  "nullFlagBytes (computeLayout p cols) = (length cols + 7) div 8"
  "recordSize (computeLayout p cols) = (length cols + 7) div 8 + sum_list (map fieldStoreSize cols)"
  "bitmapBytes (computeLayout p cols) = (recsPerPage (computeLayout p cols) + 7) div 8"
  by (simp_all add: computeLayout_def Let_def)

lemma sum_list_take_le: "sum_list (take i xs) \<le> sum_list (xs :: nat list)"
  by (metis append_take_drop_id le_add1 sum_list_append)

lemma sum_list_take_Suc: "i < length xs \<Longrightarrow> sum_list (take (Suc i) xs) = sum_list (take i xs) + (xs ! i :: nat)"
  by (simp add: take_Suc_conv_app_nth)

text \<open>Fields lie inside the record's field data and one after another.\<close>

lemma field_bounds:
  assumes "i < length cols"
  shows "fieldOffsets (computeLayout p cols) ! i + fieldStoreSize (cols ! i) \<le> fieldDataSize (computeLayout p cols)"
    and "j < i \<Longrightarrow> fieldOffsets (computeLayout p cols) ! j + fieldStoreSize (cols ! j)
           \<le> fieldOffsets (computeLayout p cols) ! i"
proof -
  let ?s = "map fieldStoreSize cols"
  have off: "fieldOffsets (computeLayout p cols) ! k = sum_list (take k ?s)" if "k < length cols" for k
    using that by (simp add: computeLayout_def Let_def nth_offsetsFrom)
  have suc: "sum_list (take (Suc k) ?s) = sum_list (take k ?s) + fieldStoreSize (cols ! k)" if "k < length cols" for k
    using that sum_list_take_Suc [of k ?s] by simp
  show "fieldOffsets (computeLayout p cols) ! i + fieldStoreSize (cols ! i) \<le> fieldDataSize (computeLayout p cols)"
    using assms off [of i] suc [of i] sum_list_take_le [of "Suc i" ?s] by simp
  assume "j < i"
  then have "sum_list (take (Suc j) ?s) \<le> sum_list (take i ?s)"
    using sum_list_take_le [of "Suc j" "take i ?s"] by (simp add: min_absorb1)
  then show "fieldOffsets (computeLayout p cols) ! j + fieldStoreSize (cols ! j)
           \<le> fieldOffsets (computeLayout p cols) ! i"
    using \<open>j < i\<close> assms off suc [of j] by simp
qed

lemma layout_fits:
  "slot < recsPerPage (computeLayout p cols) \<Longrightarrow>
   slotOffset (computeLayout p cols) slot + recordSize (computeLayout p cols) \<le> nat p"
proof -
  let ?l = "computeLayout p cols"
  assume slot: "slot < recsPerPage ?l"
  have rpp: "recsPerPage ?l = recordsPerPage p (recordSize ?l)"
    by (simp add: computeLayout_def Let_def)
  have "(recsPerPage ?l + 7) div 8 + recsPerPage ?l * recordSize ?l \<le> nat p"
    using recordsPerPage_fits [of p "recordSize ?l"] slot by (simp add: rpp)
  moreover have "Suc slot * recordSize ?l \<le> recsPerPage ?l * recordSize ?l"
    using slot by (intro mult_le_mono1) simp
  ultimately show ?thesis by (simp add: slotOffset_def)
qed

text \<open>C20. The derived layout packs a page: every slot's record lies behind the bitmap and inside the payload,
  two slots never overlap, the bitmap has a bit for every slot, and no larger number of records with its
  bitmap would fit the payload.\<close>

theorem layout_packs_page:
  assumes "cols \<noteq> []" and "slot < recsPerPage (computeLayout p cols)"
  shows "bitmapBytes (computeLayout p cols) \<le> slotOffset (computeLayout p cols) slot
    \<and> slotOffset (computeLayout p cols) slot + recordSize (computeLayout p cols) \<le> nat p
    \<and> (\<forall>s < slot. slotOffset (computeLayout p cols) s + recordSize (computeLayout p cols) \<le> slotOffset (computeLayout p cols) slot)
    \<and> slot < 8 * bitmapBytes (computeLayout p cols)
    \<and> (\<forall>n. (n + 7) div 8 + n * recordSize (computeLayout p cols) \<le> nat p \<longrightarrow> n \<le> recsPerPage (computeLayout p cols))"
proof -
  let ?l = "computeLayout p cols"
  have "slotOffset ?l s + recordSize ?l \<le> slotOffset ?l slot" if "s < slot" for s
  proof -
    have "Suc s * recordSize ?l \<le> slot * recordSize ?l" using that by (intro mult_le_mono1) simp
    then show ?thesis by (simp add: slotOffset_def)
  qed
  moreover have "n \<le> recsPerPage ?l" if "(n + 7) div 8 + n * recordSize ?l \<le> nat p" for n
  proof -
    have "1 \<le> length cols" using assms(1) by (cases cols) simp_all
    then have "0 < (length cols + 7) div 8" by (simp add: div_greater_zero_iff)
    then have "0 < recordSize ?l" by simp
    then have "n \<le> recordsPerPage p (recordSize ?l)" using that by (rule recordsPerPage_max)
    then show ?thesis by (simp add: computeLayout_def Let_def)
  qed
  moreover have "slot < 8 * bitmapBytes ?l" using assms(2) by simp
  ultimately show ?thesis using layout_fits [OF assms(2)] by (simp add: slotOffset_def)
qed

lemma layout_packs_page_witness:
  "let c = \<lparr>Name = [65], ColID = 1, BaseType = BftChar, FieldType = FieldString, Size = 180, Position = 0, hasDefault = False,
       autoInc = \<lparr>increment = 1, initialValue = 0, minValue = 0, maxValue = 0, cycled = False, aiKnown = False\<rparr>,
       blob = \<lparr>blobAlgorithm = 0, blobMode = 0, blobBlockSize = 0, blobKnown = False\<rparr>,
       notNull = False, nullabilityKnown = True\<rparr>
   in slotOffset (computeLayout 380 [c]) 1 + 182 \<le> 380"
proof -
  let ?c = "\<lparr>Name = [65], ColID = 1, BaseType = BftChar, FieldType = FieldString, Size = 180, Position = 0, hasDefault = False,
       autoInc = \<lparr>increment = 1, initialValue = 0, minValue = 0, maxValue = 0, cycled = False, aiKnown = False\<rparr>,
       blob = \<lparr>blobAlgorithm = 0, blobMode = 0, blobBlockSize = 0, blobKnown = False\<rparr>,
       notNull = False, nullabilityKnown = True\<rparr>"
  have two: "rppLoop 380 182 2 = 2" unfolding numeral_2_eq_2 by simp
  have "recsPerPage (computeLayout 380 [?c]) = 2" "recordSize (computeLayout 380 [?c]) = 182"
    by (simp_all add: computeLayout_def fieldStoreSize_def fixedFieldStoreSize_def bft_consts recordsPerPage_def Let_def two)
  then show ?thesis using layout_packs_page [of "[?c]" 1 380] by (simp del: computeLayout_simps)
qed

end
