(* ===== verification/Reader.thy ===== *)
theory Reader
  imports Layout
begin

text \<open>
  The record iterator of \<open>reader.go\<close>: \<open>Next\<close>, \<open>seekOccupied\<close>, \<open>recordStart\<close>,
  \<open>Record\<close> and the layout check. A scan is shown to visit exactly the occupied slots.
\<close>

record reader =
  rdDb :: dbfile
  rdLayout :: layout
  dataPages :: "nat list"
  pageIdx :: nat
  pageData :: "byte list"
  recordIdx :: nat
  started :: bool
  rdErr :: "err option"

section \<open>Iteration\<close>

definition recordStart :: "layout \<Rightarrow> byte list \<Rightarrow> nat \<Rightarrow> nat option" where
  "recordStart l data slot =
     (if slot \<ge> recsPerPage l \<or> recordSize l = 0 then None
      else if \<not> bitSet data (int slot) (bitmapBytes l) then None
      else let start = bitmapBytes l + slot * recordSize l in
        if start + recordSize l > length data then None else Some start)"

definition loadPage :: "(reader, unit) op" where
  "loadPage r = (case ReadPage (rdDb r) (int (dataPages r ! pageIdx r)) of
     Inl e \<Rightarrow> (Inl e, r)
   | Inr p \<Rightarrow> (Inr (), r\<lparr>pageData := Payload p, recordIdx := 0\<rparr>))"

lemma loadPage_fields:
  "loadPage r = (x, r') \<Longrightarrow> dataPages r' = dataPages r \<and> pageIdx r' = pageIdx r
     \<and> rdDb r' = rdDb r \<and> rdLayout r' = rdLayout r \<and> started r' = started r \<and> rdErr r' = rdErr r"
  by (auto simp: loadPage_def split: sum.splits)

text \<open>The inner loop: the first slot from \<open>i\<close> on that holds a record.\<close>

function seekSlot :: "layout \<Rightarrow> byte list \<Rightarrow> nat \<Rightarrow> nat" where
  "seekSlot l data i =
     (if i < recsPerPage l then (if recordStart l data i = None then seekSlot l data (Suc i) else i)
      else i)"
  by pat_completeness auto
termination
  by (relation "measure (\<lambda>(l, data, i). recsPerPage l - i)") auto

declare seekSlot.simps [simp del]

function seekOccupied :: "reader \<Rightarrow> bool \<times> reader" where
  "seekOccupied r =
     (let i = seekSlot (rdLayout r) (pageData r) (recordIdx r) in
      if i < recsPerPage (rdLayout r) then (True, r\<lparr>recordIdx := i\<rparr>)
      else let r1 = r\<lparr>recordIdx := i, pageIdx := pageIdx r + 1\<rparr> in
        if pageIdx r1 \<ge> length (dataPages r1) then (False, r1)
        else (case loadPage r1 of
            (Inl e, r2) \<Rightarrow> (False, r2\<lparr>rdErr := Some e\<rparr>)
          | (Inr u, r2) \<Rightarrow> seekOccupied r2))"
  by pat_completeness auto
termination
  by (relation "measure (\<lambda>r. length (dataPages r) - pageIdx r)") (auto dest!: loadPage_fields [OF sym])

declare seekOccupied.simps [simp del]

definition Next :: "reader \<Rightarrow> bool \<times> reader" where
  "Next r =
     (if rdErr r \<noteq> None \<or> dataPages r = [] \<or> recordSize (rdLayout r) = 0 then (False, r)
      else if \<not> started r then
        (case loadPage (r\<lparr>started := True, pageIdx := 0\<rparr>) of
           (Inl e, r1) \<Rightarrow> (False, r1\<lparr>rdErr := Some e\<rparr>)
         | (Inr u, r1) \<Rightarrow> seekOccupied r1)
      else seekOccupied (r\<lparr>recordIdx := recordIdx r + 1\<rparr>))"

text \<open>A record: the null flags and the field data of the current slot.\<close>

record rowbytes =
  nullFlags :: "byte list"
  fieldData :: "byte list"

definition rowAt :: "layout \<Rightarrow> byte list \<Rightarrow> nat \<Rightarrow> rowbytes" where
  "rowAt l data start = \<lparr>nullFlags = slc start (start + nullFlagBytes l) data,
     fieldData = slc (start + nullFlagBytes l) (start + nullFlagBytes l + fieldDataSize l) data\<rparr>"

definition currentRecord :: "reader \<Rightarrow> rowbytes" where
  "currentRecord r = (case recordStart (rdLayout r) (pageData r) (recordIdx r) of
     None \<Rightarrow> \<lparr>nullFlags = [], fieldData = []\<rparr>
   | Some start \<Rightarrow> rowAt (rdLayout r) (pageData r) start)"

definition readerRecordID :: "reader \<Rightarrow> (nat \<times> nat) option" where
  "readerRecordID r =
     (if \<not> started r \<or> pageIdx r \<ge> length (dataPages r) then None
      else case recordStart (rdLayout r) (pageData r) (recordIdx r) of
        None \<Rightarrow> None
      | Some start \<Rightarrow> Some (dataPages r ! pageIdx r, recordIdx r))"

text \<open>The check of the spare null-flag bits against the first row; the reader is rewound.\<close>

definition validateLayout :: "reader \<Rightarrow> err option \<times> reader" where
  "validateLayout r =
     (let spare = nullFlagBytes (rdLayout r) * 8 - length (columns (rdLayout r)) in
      if spare = 0 \<or> dataPages r = [] then (None, r)
      else case Next r of (found, r1) \<Rightarrow>
        let rec = currentRecord r1;
            r2 = r1\<lparr>started := False, pageIdx := 0, recordIdx := 0, pageData := [], rdErr := None\<rparr> in
        if \<not> found \<or> length (nullFlags rec) < nullFlagBytes (rdLayout r) then (rdErr r1, r2)
        else let got = nullFlags rec ! (nullFlagBytes (rdLayout r) - 1);
                 want = push_bit (8 - spare) 0xFF in
          if got AND want \<noteq> want then (Some ErrBadLayout, r2) else (None, r2))"

section \<open>The rows ahead\<close>

definition occupied :: "layout \<Rightarrow> byte list \<Rightarrow> nat \<Rightarrow> bool" where
  "occupied l data slot \<longleftrightarrow> recordStart l data slot \<noteq> None"

definition slotsFrom :: "layout \<Rightarrow> nat \<Rightarrow> byte list \<Rightarrow> nat \<Rightarrow> (nat \<times> nat) list" where
  "slotsFrom l no data i = map (Pair no) (filter (occupied l data) [i..<recsPerPage l])"

lemma seekSlot_spec:
  "slotsFrom l no data i = (let j = seekSlot l data i in
     if j < recsPerPage l then (no, j) # slotsFrom l no data (Suc j) else [])"
proof (induction l data i rule: seekSlot.induct)
  case (1 l data i)
  show ?case
  proof (cases "i < recsPerPage l")
    case False
    then show ?thesis by (simp add: slotsFrom_def seekSlot.simps [of l data i])
  next
    case True
    then have upt: "[i..<recsPerPage l] = i # [Suc i..<recsPerPage l]" by (simp add: upt_rec)
    show ?thesis
      using 1 True by (simp add: seekSlot.simps [of l data i] slotsFrom_def upt occupied_def)
  qed
qed

text \<open>The pages of a reader with their payloads, all of which can be read.\<close>

definition pagesRead :: "reader \<Rightarrow> byte list list \<Rightarrow> bool" where
  "pagesRead r ds \<longleftrightarrow> length ds = length (dataPages r)
     \<and> (\<forall>k < length ds. \<exists>p. ReadPage (rdDb r) (int (dataPages r ! k)) = Inr p \<and> Payload p = ds ! k)"

definition laterRows :: "reader \<Rightarrow> byte list list \<Rightarrow> nat \<Rightarrow> (nat \<times> nat) list" where
  "laterRows r ds k = concat (map (\<lambda>(no, d). slotsFrom (rdLayout r) no d 0) (drop k (zip (dataPages r) ds)))"

lemma laterRows_Suc:
  "length ds = length (dataPages r) \<Longrightarrow> k < length ds \<Longrightarrow>
   laterRows r ds k = slotsFrom (rdLayout r) (dataPages r ! k) (ds ! k) 0 @ laterRows r ds (Suc k)"
  by (simp add: laterRows_def Cons_nth_drop_Suc [symmetric])

definition positioned :: "reader \<Rightarrow> byte list list \<Rightarrow> bool" where
  "positioned r ds \<longleftrightarrow> started r \<and> rdErr r = None \<and> pageIdx r < length ds \<and> pageData r = ds ! pageIdx r"

lemma loadPage_read:
  assumes "pagesRead r ds" and "pageIdx r < length ds"
  shows "loadPage r = (Inr (), r\<lparr>pageData := ds ! pageIdx r, recordIdx := 0\<rparr>)"
  using assms by (auto simp: pagesRead_def loadPage_def)

text \<open>The seek stops at the first row ahead, or at the end when there is none.\<close>

lemma seekOccupied_spec:
  assumes "pagesRead r ds" and "positioned r ds"
    and "slotsFrom (rdLayout r) (dataPages r ! pageIdx r) (pageData r) (recordIdx r)
           @ laterRows r ds (Suc (pageIdx r)) = rows"
  shows "\<exists>r'. seekOccupied r = (rows \<noteq> [], r') \<and> dataPages r' = dataPages r \<and> rdDb r' = rdDb r
    \<and> rdLayout r' = rdLayout r \<and> rdErr r' = None \<and> started r'
    \<and> (rows \<noteq> [] \<longrightarrow> positioned r' ds \<and> (dataPages r' ! pageIdx r', recordIdx r') = hd rows
        \<and> readerRecordID r' = Some (hd rows)
        \<and> slotsFrom (rdLayout r') (dataPages r' ! pageIdx r') (pageData r') (Suc (recordIdx r'))
             @ laterRows r' ds (Suc (pageIdx r')) = tl rows)"
  using assms
proof (induction r rule: seekOccupied.induct)
  case (1 r)
  let ?l = "rdLayout r" and ?i = "seekSlot (rdLayout r) (pageData r) (recordIdx r)"
  note ss = seekSlot_spec [of ?l "dataPages r ! pageIdx r" "pageData r" "recordIdx r"]
  show ?case
  proof (cases "?i < recsPerPage ?l")
    case True
    let ?r' = "r\<lparr>recordIdx := ?i\<rparr>"
    have run: "seekOccupied r = (True, ?r')" using True by (subst seekOccupied.simps) (simp add: Let_def)
    have rows: "rows = (dataPages r ! pageIdx r, ?i) # slotsFrom ?l (dataPages r ! pageIdx r) (pageData r) (Suc ?i)
        @ laterRows r ds (Suc (pageIdx r))"
      using ss True 1(4) by (simp add: Let_def)
    have "?i \<in> set (map snd (slotsFrom ?l (dataPages r ! pageIdx r) (pageData r) (recordIdx r)))"
      using ss True by (simp add: Let_def)
    then have "occupied ?l (pageData r) ?i" by (auto simp: slotsFrom_def)
    then have "readerRecordID ?r' = Some (dataPages r ! pageIdx r, ?i)"
      using 1(2,3) by (auto simp: readerRecordID_def occupied_def pagesRead_def positioned_def)
    then show ?thesis
      using run rows 1(3) by (auto simp: positioned_def laterRows_def)
  next
    case False
    then have none: "slotsFrom ?l (dataPages r ! pageIdx r) (pageData r) (recordIdx r) = []"
      using ss by (simp add: Let_def)
    let ?r1 = "r\<lparr>recordIdx := ?i, pageIdx := pageIdx r + 1\<rparr>"
    show ?thesis
    proof (cases "pageIdx ?r1 \<ge> length (dataPages ?r1)")
      case True
      then have "rows = []"
        using none 1(2,4) by (simp add: laterRows_def pagesRead_def)
      moreover have "seekOccupied r = (False, ?r1)"
        using False True by (subst seekOccupied.simps) (simp add: Let_def)
      ultimately show ?thesis using 1(3) by (simp add: positioned_def)
    next
      case more: False
      have pr: "pagesRead ?r1 ds" using 1(2) by (simp add: pagesRead_def)
      have lt: "pageIdx ?r1 < length ds" using more 1(2) by (simp add: pagesRead_def)
      let ?r2 = "?r1\<lparr>pageData := ds ! pageIdx ?r1, recordIdx := 0\<rparr>"
      have ld: "loadPage ?r1 = (Inr (), ?r2)" by (rule loadPage_read [OF pr lt])
      have run: "seekOccupied r = seekOccupied ?r2"
        using False more ld by (subst seekOccupied.simps) (simp add: Let_def)
      have rest: "slotsFrom (rdLayout ?r2) (dataPages ?r2 ! pageIdx ?r2) (pageData ?r2) (recordIdx ?r2)
          @ laterRows ?r2 ds (Suc (pageIdx ?r2)) = rows"
        using none 1(2,4) lt laterRows_Suc [of ds r "Suc (pageIdx r)"]
        by (simp add: pagesRead_def laterRows_def)
      have pos: "pagesRead ?r2 ds" "positioned ?r2 ds"
        using pr 1(3) lt by (simp_all add: pagesRead_def positioned_def)
      have "\<exists>r'. seekOccupied ?r2 = (rows \<noteq> [], r') \<and> dataPages r' = dataPages ?r2 \<and> rdDb r' = rdDb ?r2
        \<and> rdLayout r' = rdLayout ?r2 \<and> rdErr r' = None \<and> started r'
        \<and> (rows \<noteq> [] \<longrightarrow> positioned r' ds \<and> (dataPages r' ! pageIdx r', recordIdx r') = hd rows
          \<and> readerRecordID r' = Some (hd rows)
          \<and> slotsFrom (rdLayout r') (dataPages r' ! pageIdx r') (pageData r') (Suc (recordIdx r'))
             @ laterRows r' ds (Suc (pageIdx r')) = tl rows)"
        by (rule 1(1) [OF refl False refl more ld [symmetric] refl pos rest])
      then show ?thesis using run by simp
    qed
  qed
qed

section \<open>A whole scan\<close>

text \<open>The loop every caller writes: \<open>for r.Next() { ... r.recordID() ... }\<close>, at most \<open>fuel\<close> times.\<close>

fun visit :: "nat \<Rightarrow> reader \<Rightarrow> (nat \<times> nat) option list \<times> reader" where
  "visit 0 r = ([], r)"
| "visit (Suc fuel) r = (case Next r of
     (False, r1) \<Rightarrow> ([], r1)
   | (True, r1) \<Rightarrow> (case visit fuel r1 of (rows, r2) \<Rightarrow> (readerRecordID r1 # rows, r2)))"

definition ahead :: "reader \<Rightarrow> byte list list \<Rightarrow> (nat \<times> nat) list" where
  "ahead r ds = (if started r
     then slotsFrom (rdLayout r) (dataPages r ! pageIdx r) (pageData r) (Suc (recordIdx r))
       @ laterRows r ds (Suc (pageIdx r))
     else laterRows r ds 0)"

definition readable :: "reader \<Rightarrow> byte list list \<Rightarrow> bool" where
  "readable r ds \<longleftrightarrow> pagesRead r ds \<and> rdErr r = None \<and> recordSize (rdLayout r) \<noteq> 0
     \<and> (started r \<longrightarrow> positioned r ds)"

lemma slotsFrom_ahead: "ahead r ds = rows \<Longrightarrow> started r \<Longrightarrow>
   slotsFrom (rdLayout r) (dataPages r ! pageIdx r) (pageData r) (recordIdx (r\<lparr>recordIdx := recordIdx r + 1\<rparr>))
     @ laterRows r ds (Suc (pageIdx r)) = rows"
  by (simp add: ahead_def)

lemma pagesRead_cong:
  "dataPages r' = dataPages r \<Longrightarrow> rdDb r' = rdDb r \<Longrightarrow> pagesRead r' ds = pagesRead r ds"
  by (simp add: pagesRead_def)

lemma Next_spec:
  assumes "readable r ds"
  shows "\<exists>r'. Next r = (ahead r ds \<noteq> [], r') \<and> rdErr r' = None
    \<and> (ahead r ds \<noteq> [] \<longrightarrow> readable r' ds \<and> readerRecordID r' = Some (hd (ahead r ds))
        \<and> ahead r' ds = tl (ahead r ds))"
proof (cases "dataPages r = []")
  case True
  then have "Next r = (False, r)" and "ds = []"
    using assms by (simp_all add: Next_def readable_def pagesRead_def)
  moreover have "\<not> started r" using assms \<open>ds = []\<close> by (auto simp: readable_def positioned_def)
  ultimately show ?thesis using assms True by (simp add: ahead_def laterRows_def readable_def)
next
  case ne: False
  define r0 where "r0 = (if started r then r\<lparr>recordIdx := recordIdx r + 1\<rparr>
     else r\<lparr>started := True, pageIdx := 0, pageData := ds ! 0, recordIdx := 0\<rparr>)"
  have lt: "0 < length ds" using ne assms by (auto simp: readable_def pagesRead_def)
  have pr: "pagesRead r ds" using assms by (simp add: readable_def)
  have ld: "loadPage (r\<lparr>started := True, pageIdx := 0\<rparr>)
      = (Inr (), r\<lparr>started := True, pageIdx := 0, pageData := ds ! 0, recordIdx := 0\<rparr>)"
    using loadPage_read [of "r\<lparr>started := True, pageIdx := 0\<rparr>" ds] pr lt by (simp add: pagesRead_def)
  have next_run: "Next r = seekOccupied r0"
    using ne assms ld by (simp add: Next_def r0_def readable_def)
  have pr0: "pagesRead r0 ds" using pr by (simp add: r0_def pagesRead_def)
  have pos0: "positioned r0 ds"
    using assms lt by (auto simp: r0_def readable_def positioned_def)
  have "slotsFrom (rdLayout r0) (dataPages r0 ! pageIdx r0) (pageData r0) (recordIdx r0)
           @ laterRows r0 ds (Suc (pageIdx r0)) = ahead r ds"
    using laterRows_Suc [of ds r 0] pr lt by (simp add: r0_def ahead_def laterRows_def pagesRead_def)
  from seekOccupied_spec [OF pr0 pos0 this] next_run
  obtain r' where "Next r = (ahead r ds \<noteq> [], r')" and same: "dataPages r' = dataPages r0" "rdDb r' = rdDb r0"
    "rdLayout r' = rdLayout r0" and "rdErr r' = None" "started r'"
    and rest: "ahead r ds \<noteq> [] \<Longrightarrow> positioned r' ds \<and> readerRecordID r' = Some (hd (ahead r ds))
      \<and> slotsFrom (rdLayout r') (dataPages r' ! pageIdx r') (pageData r') (Suc (recordIdx r'))
             @ laterRows r' ds (Suc (pageIdx r')) = tl (ahead r ds)"
    by auto
  moreover have "recordSize (rdLayout r0) \<noteq> 0" using assms by (simp add: r0_def readable_def)
  ultimately show ?thesis
    using pr0 pagesRead_cong [of r' r0 ds] by (auto simp: readable_def ahead_def)
qed

lemma visit_spec:
  assumes "readable r ds" and "length (ahead r ds) < fuel"
  shows "fst (visit fuel r) = map Some (ahead r ds) \<and> rdErr (snd (visit fuel r)) = None"
  using assms
proof (induction fuel arbitrary: r)
  case (Suc fuel)
  obtain r' where run: "Next r = (ahead r ds \<noteq> [], r')" and err: "rdErr r' = None"
    and rest: "ahead r ds \<noteq> [] \<Longrightarrow> readable r' ds \<and> readerRecordID r' = Some (hd (ahead r ds))
        \<and> ahead r' ds = tl (ahead r ds)"
    using Next_spec [OF Suc.prems(1)] by blast
  show ?case
  proof (cases "ahead r ds")
    case Nil
    then show ?thesis using run err by simp
  next
    case (Cons x xs)
    then show ?thesis
      using run rest Suc.IH [of r'] Suc.prems(2) by (auto split: prod.splits)
  qed
qed simp

text \<open>C16. A scan with \<open>Next\<close> over data pages that can all be read stops after finitely many
  calls without an error, and yields exactly the occupied slots: page after page in the order
  of the table's page list, and on each page in slot order, each once.\<close>

theorem scan_visits_occupied_slots:
  assumes "length ds = length (dataPages r)"
    and "\<forall>k < length ds. \<exists>p. ReadPage (rdDb r) (int (dataPages r ! k)) = Inr p \<and> Payload p = ds ! k"
    and "\<not> started r" and "rdErr r = None" and "recordSize (rdLayout r) \<noteq> 0"
  shows "\<exists>fuel0. \<forall>fuel \<ge> fuel0. \<exists>r'. rdErr r' = None \<and> visit fuel r =
    (concat (map (\<lambda>(no, d). map (\<lambda>slot. Some (no, slot))
       (filter (\<lambda>slot. recordStart (rdLayout r) d slot \<noteq> None) [0..<recsPerPage (rdLayout r)])) (zip (dataPages r) ds)), r')"
proof -
  have ok: "readable r ds" using assms by (simp add: readable_def pagesRead_def)
  have "map Some (ahead r ds) = concat (map (\<lambda>(no, d). map (\<lambda>slot. Some (no, slot))
       (filter (\<lambda>slot. recordStart (rdLayout r) d slot \<noteq> None) [0..<recsPerPage (rdLayout r)])) (zip (dataPages r) ds))"
    using assms(3) by (simp add: ahead_def laterRows_def slotsFrom_def occupied_def [abs_def] map_concat o_def split_def del: not_None_eq)
  then show ?thesis
    using visit_spec [OF ok] by (intro exI [of _ "Suc (length (ahead r ds))"]) (metis less_eq_Suc_le prod.collapse)
qed

definition sampleColumn :: "byte \<Rightarrow> byte \<Rightarrow> byte \<Rightarrow> u32 \<Rightarrow> nat \<Rightarrow> Column" where
  "sampleColumn name t ft sz pos = \<lparr>Name = [name], ColID = of_nat pos, BaseType = t, FieldType = ft, Size = sz,
     Position = pos, hasDefault = False,
     autoInc = \<lparr>increment = 1, initialValue = 0, minValue = 0, maxValue = 0, cycled = False, aiKnown = False\<rparr>,
     blob = \<lparr>blobAlgorithm = 0, blobMode = 0, blobBlockSize = 0, blobKnown = False\<rparr>,
     notNull = False, nullabilityKnown = True\<rparr>"

definition roomyReader :: reader where
  "roomyReader = \<lparr>rdDb = sampleFile 2 [(2, []), (10, [1]), (10, []), (10, [3])], rdLayout = computeLayout 380 [sampleColumn 87 BftChar FieldString 180 1],
     dataPages = [1, 2, 3], pageIdx = 0, pageData = [], recordIdx = 0, started = False, rdErr = None\<rparr>"

lemma scan_visits_occupied_slots_witness:
  "\<exists>fuel r'. visit fuel roomyReader = ([Some (1, 0), Some (3, 0), Some (3, 1)], r') \<and> rdErr r' = None"
proof -
  let ?ps = "[(2, []), (10, [1]), (10, []), (10, [3])] :: (u16 \<times> byte list) list"
  let ?ds = "[padTo 380 [1], padTo 380 [], padTo 380 [3]]"
  have ps: "samplePages ?ps" by (simp add: samplePages_def)
  have four: "length ?ps = 4" by simp
  have read: "\<exists>p. ReadPage (sampleFile 2 ?ps) (int n) = Inr p \<and> Payload p = padTo 380 (snd (?ps ! n))" if "n < 4" for n
    using sample_read [OF ps, of n 2] that by (metis four)
  have "\<forall>k < length ?ds. \<exists>p. ReadPage (rdDb roomyReader) (int (dataPages roomyReader ! k)) = Inr p \<and> Payload p = ?ds ! k"
    using read [of 1] read [of 2] read [of 3] by (auto simp: roomyReader_def less_Suc_eq)
  note scan = scan_visits_occupied_slots [of ?ds roomyReader, OF _ this]
  have two: "rppLoop 380 182 2 = 2" unfolding numeral_2_eq_2 by simp
  have lay: "recordSize (rdLayout roomyReader) = 182" "recsPerPage (rdLayout roomyReader) = 2"
      "bitmapBytes (rdLayout roomyReader) = 1"
    by (simp_all add: roomyReader_def computeLayout_def sampleColumn_def fieldStoreSize_def fixedFieldStoreSize_def
        bft_consts recordsPerPage_def Let_def two)
  have up: "[0..<2] = [0, Suc 0]" by (simp add: upt_rec)
  have fields: "dataPages roomyReader = [1, 2, 3]" "\<not> started roomyReader" "rdErr roomyReader = None"
    by (simp_all add: roomyReader_def)
  have rows: "filter (\<lambda>slot. recordStart (rdLayout roomyReader) d slot \<noteq> None) [0..<recsPerPage (rdLayout roomyReader)]
      = (if testBit d 0 then [0] else []) @ (if testBit d 1 then [1] else [])" if "length d = 380" for d
    using that by (simp add: lay up recordStart_def bitSet_def Let_def)
  have "concat (map (\<lambda>(no, d). map (\<lambda>slot. Some (no, slot))
       (filter (\<lambda>slot. recordStart (rdLayout roomyReader) d slot \<noteq> None) [0..<recsPerPage (rdLayout roomyReader)]))
         (zip (dataPages roomyReader) ?ds)) = [Some (1, 0), Some (3, 0), Some (3, 1)]"
    by (simp only: fields zip_Cons_Cons zip_Nil list.map prod.case) (simp add: rows padTo_def testBit_def bitMask_def del: not_None_eq)
  with scan fields lay show ?thesis by fastforce
qed

end
