(* ===== verification/Go_Floats.thy ===== *)
theory Go_Floats
  imports Prelude
begin

text \<open>
  Go's floating-point numbers as the code handles them: bit patterns (\<open>math.Float64bits\<close>),
  the conversions between \<open>float32\<close>, \<open>float64\<close> and the integers, and when a conversion is exact.
  No arithmetic is needed: the codec only moves and converts values.
\<close>

section \<open>Fields of a bit pattern\<close>

definition f64 :: "bool \<Rightarrow> nat \<Rightarrow> nat \<Rightarrow> u64" where
  "f64 s e m = word_of_nat (of_bool s * 2 ^ 63 + e * 2 ^ 52 + m)"

definition f64Sign :: "u64 \<Rightarrow> bool" where "f64Sign w = (2 ^ 63 \<le> unat w)"
definition f64Exp :: "u64 \<Rightarrow> nat" where "f64Exp w = unat w div 2 ^ 52 mod 2 ^ 11"
definition f64Man :: "u64 \<Rightarrow> nat" where "f64Man w = unat w mod 2 ^ 52"

definition f32 :: "bool \<Rightarrow> nat \<Rightarrow> nat \<Rightarrow> u32" where
  "f32 s e m = word_of_nat (of_bool s * 2 ^ 31 + e * 2 ^ 23 + m)"

definition f32Sign :: "u32 \<Rightarrow> bool" where "f32Sign w = (2 ^ 31 \<le> unat w)"
definition f32Exp :: "u32 \<Rightarrow> nat" where "f32Exp w = unat w div 2 ^ 23 mod 2 ^ 8"
definition f32Man :: "u32 \<Rightarrow> nat" where "f32Man w = unat w mod 2 ^ 23"

definition isNaN64 :: "u64 \<Rightarrow> bool" where "isNaN64 w = (f64Exp w = 2047 \<and> f64Man w \<noteq> 0)"

text \<open>Three fields packed by position, for any radices.\<close>

lemma pack3:
  assumes "(m :: nat) < B" and "e < A"
  shows "(of_bool s * (A * B) + e * B + m) mod B = m" and "(of_bool s * (A * B) + e * B + m) div B mod A = e"
    and "A * B \<le> of_bool s * (A * B) + e * B + m \<longleftrightarrow> s" and "of_bool s * (A * B) + e * B + m < 2 * (A * B)"
proof -
  have eq: "of_bool s * (A * B) + e * B + m = m + (of_bool s * A + e) * B" by (simp add: algebra_simps)
  show "(of_bool s * (A * B) + e * B + m) mod B = m" unfolding eq using assms by simp
  show "(of_bool s * (A * B) + e * B + m) div B mod A = e" unfolding eq using assms by (cases s) auto
  have "e * B + m < (e + 1) * B" using assms(1) by simp
  also have "\<dots> \<le> A * B" using assms(2) by (intro mult_le_mono1) simp
  finally have "e * B + m < A * B" .
  then show "A * B \<le> of_bool s * (A * B) + e * B + m \<longleftrightarrow> s" and "of_bool s * (A * B) + e * B + m < 2 * (A * B)"
    by (cases s; simp)+
qed

lemma unpack3:
  assumes "(n :: nat) < 2 * (A * B)"
  shows "of_bool (A * B \<le> n) * (A * B) + n div B mod A * B + n mod B = n"
proof -
  have "n div B div A = n div (A * B)" by (metis div_mult2_eq mult.commute)
  also have "\<dots> = of_bool (A * B \<le> n)"
    using assms by (cases "A * B \<le> n") (simp_all add: div_nat_eqI)
  finally have "n div B = of_bool (A * B \<le> n) * A + n div B mod A"
    by (metis div_mult_mod_eq)
  then have "n = (of_bool (A * B \<le> n) * A + n div B mod A) * B + n mod B"
    by (metis div_mult_mod_eq)
  then show ?thesis by (simp add: algebra_simps)
qed

lemma pow_split: "(2 :: nat) ^ 11 * 2 ^ 52 = 2 ^ 63" "(2 :: nat) ^ 8 * 2 ^ 23 = 2 ^ 31"
  by (simp_all flip: power_add)

lemma f64_fields:
  assumes "e < 2048" and "m < 2 ^ 52"
  shows "f64Sign (f64 s e m) = s" and "f64Exp (f64 s e m) = e" and "f64Man (f64 s e m) = m"
proof -
  have e: "e < 2 ^ 11" using assms(1) by simp
  note p = pack3 [OF assms(2) e, of s, unfolded pow_split]
  have "unat (f64 s e m) = of_bool s * 2 ^ 63 + e * 2 ^ 52 + m"
    unfolding f64_def unat_of_nat using p(4) by (intro mod_less) simp
  then show "f64Sign (f64 s e m) = s" and "f64Exp (f64 s e m) = e" and "f64Man (f64 s e m) = m"
    unfolding f64Sign_def f64Exp_def f64Man_def using p by simp_all
qed

lemma f64_eta [simp]: "f64 (f64Sign w) (f64Exp w) (f64Man w) = w"
proof -
  have "unat w < 2 * 2 ^ 63" using unsigned_less [of w] by simp
  from unpack3 [of "unat w" "2 ^ 11" "2 ^ 52", unfolded pow_split, OF this] show ?thesis
    unfolding f64_def f64Sign_def f64Exp_def f64Man_def by simp
qed

lemma f64_bounds [simp]: "f64Exp w < 2048" "f64Man w < 2 ^ 52" "f64Man w < 4503599627370496"
  by (simp_all add: f64Exp_def f64Man_def)

lemma f32_fields:
  assumes "e < 256" and "m < 2 ^ 23"
  shows "f32Sign (f32 s e m) = s" and "f32Exp (f32 s e m) = e" and "f32Man (f32 s e m) = m"
proof -
  have e: "e < 2 ^ 8" using assms(1) by simp
  note p = pack3 [OF assms(2) e, of s, unfolded pow_split]
  have "unat (f32 s e m) = of_bool s * 2 ^ 31 + e * 2 ^ 23 + m"
    unfolding f32_def unat_of_nat using p(4) by (intro mod_less) simp
  then show "f32Sign (f32 s e m) = s" and "f32Exp (f32 s e m) = e" and "f32Man (f32 s e m) = m"
    unfolding f32Sign_def f32Exp_def f32Man_def using p by simp_all
qed

section \<open>Conversions\<close>

text \<open>The position of the highest set bit.\<close>

fun topBit :: "nat \<Rightarrow> nat" where
  "topBit n = (if n < 2 then 0 else Suc (topBit (n div 2)))"

declare topBit.simps [simp del]

lemma topBit_eq: "2 ^ k \<le> n \<Longrightarrow> n < 2 ^ Suc k \<Longrightarrow> topBit n = k"
proof (induction k arbitrary: n)
  case 0
  then show ?case by (simp add: topBit.simps [of n])
next
  case (Suc k)
  have "(2 :: nat) ^ Suc k \<ge> 2" by simp
  then have "\<not> n < 2" using Suc.prems(1) by linarith
  moreover have "2 ^ k \<le> n div 2" "n div 2 < 2 ^ Suc k" using Suc.prems by auto
  ultimately show ?case using Suc.IH [of "n div 2"] by (simp add: topBit.simps [of n])
qed

lemma topBit_range: "0 < n \<Longrightarrow> 2 ^ topBit n \<le> n \<and> n < 2 ^ Suc (topBit n)"
proof (induction n rule: topBit.induct)
  case (1 n)
  show ?case
  proof (cases "n < 2")
    case True
    then show ?thesis using 1(2) by (simp add: topBit.simps [of n])
  next
    case False
    then have "2 ^ topBit (n div 2) \<le> n div 2 \<and> n div 2 < 2 ^ Suc (topBit (n div 2))" using 1 by simp
    then show ?thesis using False by (simp add: topBit.simps [of n]) linarith
  qed
qed

text \<open>\<open>float64(x)\<close> of a \<open>float32\<close>: exact, with a subnormal normalised and a NaN made quiet.\<close>

definition widen32 :: "u32 \<Rightarrow> u64" where
  "widen32 w = (let s = f32Sign w; e = f32Exp w; m = f32Man w in
     if e = 255 then f64 s 2047 (if m = 0 then 0 else m * 2 ^ 29 mod 2 ^ 51 + 2 ^ 51)
     else if e = 0 then (if m = 0 then f64 s 0 0
       else let k = topBit m in f64 s (k + 874) (m * 2 ^ (52 - k) - 2 ^ 52))
     else f64 s (e + 896) (m * 2 ^ 29))"

text \<open>\<open>float32(x)\<close> of a \<open>float64\<close> that a \<open>float32\<close> holds exactly, and of a NaN; \<open>None\<close> when it would round.\<close>

definition narrow64 :: "u64 \<Rightarrow> u32 option" where
  "narrow64 w = (let s = f64Sign w; e = f64Exp w; m = f64Man w in
     if e = 2047 then Some (f32 s 255 (if m = 0 then 0 else m div 2 ^ 29 mod 2 ^ 22 + 2 ^ 22))
     else if e = 0 then (if m = 0 then Some (f32 s 0 0) else None)
     else if 897 \<le> e \<and> e \<le> 1150 then (if m mod 2 ^ 29 = 0 then Some (f32 s (e - 896) (m div 2 ^ 29)) else None)
     else if 874 \<le> e \<and> e \<le> 896 then
       (if (2 ^ 52 + m) mod 2 ^ (926 - e) = 0 then Some (f32 s 0 ((2 ^ 52 + m) div 2 ^ (926 - e))) else None)
     else None)"

lemma narrow64_widen:
  assumes "narrow64 w = Some v" and "\<not> isNaN64 w"
  shows "widen32 v = w"
proof -
  let ?s = "f64Sign w" and ?e = "f64Exp w" and ?m = "f64Man w"
  have bound: "?m < 2 ^ 52" by simp
  have w: "w = f64 ?s ?e ?m" by simp
  consider "?e = 2047" | "?e = 0" | "897 \<le> ?e" "?e \<le> 1150" | "874 \<le> ?e" "?e \<le> 896"
    using assms(1) by (fastforce simp: narrow64_def Let_def split: if_splits)
  then show ?thesis
  proof cases
    case 1
    then show ?thesis
      using assms by (subst w) (auto simp: narrow64_def isNaN64_def Let_def widen32_def f32_fields)
  next
    case 2
    then show ?thesis
      using assms(1) by (subst w) (auto simp: narrow64_def Let_def widen32_def f32_fields split: if_splits)
  next
    case 3
    then have v: "v = f32 ?s (?e - 896) (?m div 2 ^ 29)" and m: "?m mod 2 ^ 29 = 0"
      using assms(1) by (auto simp: narrow64_def Let_def split: if_splits)
    have "?m div 2 ^ 29 < 2 ^ 23" using bound by (simp add: less_mult_imp_div_less)
    then show ?thesis
      using 3 m by (subst w) (auto simp: v widen32_def Let_def f32_fields)
  next
    case 4
    define k where "k = ?e - 874"
    have k: "k \<le> 22" "?e = k + 874" "926 - ?e = 52 - k" using 4 by (auto simp: k_def)
    let ?f = "2 ^ 52 + ?m" and ?q = "(2 ^ 52 + ?m) div 2 ^ (52 - k)"
    have v: "v = f32 ?s 0 ?q" and dvd: "?f mod 2 ^ (52 - k) = 0"
      using assms(1) 4 k by (auto simp: narrow64_def Let_def split: if_splits)
    have mult: "?q * 2 ^ (52 - k) = ?f" using dvd by (metis add.right_neutral div_mult_mod_eq)
    have split: "(2 :: nat) ^ 52 = 2 ^ k * 2 ^ (52 - k)" "(2 :: nat) ^ 53 = 2 ^ Suc k * 2 ^ (52 - k)"
      using k(1) by (simp_all flip: power_add)
    have "2 ^ k * 2 ^ (52 - k) \<le> ?q * 2 ^ (52 - k)" unfolding mult split(1) [symmetric] by simp
    then have lo: "2 ^ k \<le> ?q" by simp
    have "?q * 2 ^ (52 - k) < 2 ^ Suc k * 2 ^ (52 - k)" unfolding mult split(2) [symmetric] using bound by simp
    then have hi: "?q < 2 ^ Suc k" by simp
    have "(2 :: nat) ^ Suc k \<le> 2 ^ 23" using k(1) by (intro power_increasing) auto
    then have "?q < 2 ^ 23" using hi by linarith
    moreover have "?q \<noteq> 0" using lo by (metis le_zero_eq power_not_zero zero_neq_numeral)
    ultimately show ?thesis
      using topBit_eq [OF lo hi] mult k by (subst w) (simp add: v widen32_def Let_def f32_fields)
  qed
qed

text \<open>\<open>float64(n)\<close> of an integer: the 53 leading bits, rounded half to even.\<close>

definition roundHalfEven :: "nat \<Rightarrow> nat \<Rightarrow> nat" where
  "roundHalfEven a d = (let q = a div 2 ^ d; r = a mod 2 ^ d in
     if d > 0 \<and> (r > 2 ^ (d - 1) \<or> r = 2 ^ (d - 1) \<and> odd q) then q + 1 else q)"

definition f64OfInt :: "int \<Rightarrow> u64" where
  "f64OfInt n = (let a = nat \<bar>n\<bar>; k = topBit a in
     if a = 0 then 0
     else word_of_nat (of_bool (n < 0) * 2 ^ 63 + (k + 1023) * 2 ^ 52
       + ((if k \<le> 52 then a * 2 ^ (52 - k) else roundHalfEven a (k - 52)) - 2 ^ 52)))"

text \<open>\<open>int64(f)\<close>: truncation; out of range it is the smallest integer, as on amd64.\<close>

definition f64ToInt :: "u64 \<Rightarrow> int" where
  "f64ToInt w = (let e = f64Exp w;
       v = (if e < 1023 then 0 else if e \<le> 1075 then (2 ^ 52 + f64Man w) div 2 ^ (1075 - e)
            else (2 ^ 52 + f64Man w) * 2 ^ (e - 1075));
       n = (if f64Sign w then - int v else int v) in
     if e = 2047 \<or> n < - (2 ^ 63) \<or> 2 ^ 63 \<le> n then - (2 ^ 63) else n)"

lemma f64OfInt_exact:
  assumes "\<bar>n\<bar> < 2 ^ 53"
  shows "f64ToInt (f64OfInt n) = n"
proof (cases "n = 0")
  case True
  then show ?thesis by (simp add: f64OfInt_def f64ToInt_def f64Exp_def f64Sign_def)
next
  case False
  let ?a = "nat \<bar>n\<bar>"
  define k where "k = topBit ?a"
  have a: "0 < ?a" "?a < 2 ^ 53" using False assms by (auto simp: nat_less_iff)
  have rng: "2 ^ k \<le> ?a" "?a < 2 ^ Suc k" using topBit_range [OF a(1)] by (simp_all add: k_def)
  have "(2 :: nat) ^ k < 2 ^ 53" using rng(1) a(2) by linarith
  then have k: "k \<le> 52" using power_less_imp_less_exp [of "2 :: nat" k 53] by simp
  have pw: "(2 :: nat) ^ 52 = 2 ^ k * 2 ^ (52 - k)" "(2 :: nat) ^ 53 = 2 ^ Suc k * 2 ^ (52 - k)"
    using k by (simp_all flip: power_add)
  let ?m = "?a * 2 ^ (52 - k) - 2 ^ 52"
  have lo: "2 ^ 52 \<le> ?a * 2 ^ (52 - k)" unfolding pw(1) using rng(1) by simp
  have "?a * 2 ^ (52 - k) < 2 ^ 53" unfolding pw(2) using rng(2) by simp
  moreover have "x - 2 ^ 52 < 2 ^ 52" if "x < 2 ^ 53" for x :: nat using that by simp
  ultimately have m: "?m < 2 ^ 52" by blast
  have w: "f64OfInt n = f64 (n < 0) (k + 1023) ?m"
    using k a(1) by (simp add: f64OfInt_def Let_def k_def [symmetric] f64_def)
  have flds: "f64Exp (f64OfInt n) = k + 1023" "f64Man (f64OfInt n) = ?m" "f64Sign (f64OfInt n) = (n < 0)"
    unfolding w using f64_fields [of "k + 1023" ?m] m k by auto
  have v: "(2 ^ 52 + ?m) div 2 ^ (1075 - (k + 1023)) = ?a"
    using lo by simp
  have "f64ToInt (f64OfInt n) = (if n < 0 then - int ?a else int ?a)"
    unfolding f64ToInt_def Let_def flds v using k a(2) assms by auto
  then show ?thesis by simp
qed

end
