(* ===== verification/Go_Times.thy ===== *)
theory Go_Times
  imports Prelude
begin

text \<open>
  \<open>time.Time\<close> as the codec uses it: the wall clock (days since 0001-01-01 and nanoseconds of the
  day) and the zone's offset. \<open>Date()\<close> and \<open>time.Date\<close> are the proleptic Gregorian calendar.
\<close>

record gotime =
  wallDay :: int
  wallNs :: int
  zoneOffset :: int

definition nsPerDay :: int where "nsPerDay = 86400 * 10 ^ 9"

definition time_ok :: "gotime \<Rightarrow> bool" where
  "time_ok t \<longleftrightarrow> 0 \<le> wallNs t \<and> wallNs t < nsPerDay"

definition zeroTime :: gotime where "zeroTime = \<lparr>wallDay = 0, wallNs = 0, zoneOffset = 0\<rparr>"

definition IsZero :: "gotime \<Rightarrow> bool" where
  "IsZero t = (wallDay t * nsPerDay + wallNs t = zoneOffset t * 10 ^ 9)"

definition goHour :: "gotime \<Rightarrow> int" where "goHour t = wallNs t div (3600 * 10 ^ 9)"
definition goMinute :: "gotime \<Rightarrow> int" where "goMinute t = wallNs t div (60 * 10 ^ 9) mod 60"
definition goSecond :: "gotime \<Rightarrow> int" where "goSecond t = wallNs t div 10 ^ 9 mod 60"
definition goNano :: "gotime \<Rightarrow> int" where "goNano t = wallNs t mod 10 ^ 9"

definition goAdd :: "int \<Rightarrow> gotime \<Rightarrow> gotime" where
  "goAdd ns t = t\<lparr>wallDay := wallDay t + (wallNs t + ns) div nsPerDay, wallNs := (wallNs t + ns) mod nsPerDay\<rparr>"

lemma time_parts:
  "goHour t * (3600 * 10 ^ 9) + goMinute t * (60 * 10 ^ 9) + goSecond t * 10 ^ 9 + goNano t = wallNs t"
proof -
  have s: "wallNs t = wallNs t div 10 ^ 9 * 10 ^ 9 + goNano t" by (simp add: goNano_def)
  have m: "wallNs t div 10 ^ 9 = wallNs t div (60 * 10 ^ 9) * 60 + goSecond t"
    using zdiv_zmult2_eq [of 60 "wallNs t" "10 ^ 9"] by (simp add: goSecond_def mult.commute)
  have h: "wallNs t div (60 * 10 ^ 9) = goHour t * 60 + goMinute t"
    using zdiv_zmult2_eq [of 60 "wallNs t" "60 * 10 ^ 9"] by (simp add: goHour_def goMinute_def)
  have "wallNs t = ((goHour t * 60 + goMinute t) * 60 + goSecond t) * 10 ^ 9 + goNano t"
    using s unfolding m h .
  then show ?thesis by (simp add: algebra_simps)
qed

section \<open>The calendar\<close>

definition leapYear :: "int \<Rightarrow> bool" where
  "leapYear y = (y mod 4 = 0 \<and> (y mod 100 \<noteq> 0 \<or> y mod 400 = 0))"

definition monthLens :: "int \<Rightarrow> int list" where
  "monthLens y = [31, if leapYear y then 29 else 28, 31, 30, 31, 30, 31, 31, 30, 31, 30, 31]"

definition daysBefore :: "int \<Rightarrow> int" where
  "daysBefore y = 365 * (y - 1) + (y - 1) div 4 - (y - 1) div 100 + (y - 1) div 400"

text \<open>Days from 0001-01-01 to a date; months are 1 to 12.\<close>

definition civilDays :: "int \<Rightarrow> nat \<Rightarrow> int \<Rightarrow> int" where
  "civilDays y m d = daysBefore y + sum_list (take (m - 1) (monthLens y)) + d - 1"

fun monthScan :: "int list \<Rightarrow> int \<Rightarrow> nat \<times> int" where
  "monthScan [] d = (1, d + 1)"
| "monthScan (l # ls) d = (if d < l then (1, d + 1) else case monthScan ls (d - l) of (m, k) \<Rightarrow> (Suc m, k))"

definition civilOf :: "int \<Rightarrow> int \<times> nat \<times> int" where
  "civilOf n =
     (let n400 = n div 146097; r = n mod 146097;
          c = min 3 (r div 36524); r1 = r - c * 36524;
          q = r1 div 1461; r2 = r1 mod 1461;
          a = min 3 (r2 div 365);
          y = 400 * n400 + 100 * c + 4 * q + a + 1 in
      case monthScan (monthLens y) (r2 - a * 365) of (m, d) \<Rightarrow> (y, m, d))"

lemma monthScan_sum: "monthScan ls d = (m, k) \<Longrightarrow> sum_list (take (m - 1) ls) + k - 1 = d \<and> 1 \<le> m"
proof (induction ls arbitrary: d m k)
  case (Cons l ls)
  show ?case
  proof (cases "d < l")
    case True
    then show ?thesis using Cons.prems by auto
  next
    case False
    obtain m' k' where r: "monthScan ls (d - l) = (m', k')" by force
    then have "m = Suc m'" "k = k'" using Cons.prems False by auto
    moreover have "sum_list (take (m' - 1) ls) + k' - 1 = d - l \<and> 1 \<le> m'" by (rule Cons.IH [OF r])
    ultimately show ?thesis by (cases m') auto
  qed
qed auto

text \<open>The capped quotients of the leap-year cycles.\<close>

lemma capped_div:
  fixes r k :: int
  assumes "0 \<le> r" and "r \<le> 4 * k" and "0 < k" and c: "c = min 3 (r div k)"
  shows "0 \<le> c" and "c \<le> 3" and "0 \<le> r - c * k" and "r - c * k \<le> k" and "r - c * k = k \<Longrightarrow> c = 3"
proof -
  have div: "0 \<le> r div k" "r = r div k * k + r mod k" "0 \<le> r mod k" "r mod k < k"
    using assms by (simp_all add: pos_imp_zdiv_nonneg_iff)
  show "0 \<le> c" "c \<le> 3" using div(1) by (simp_all add: c)
  show "0 \<le> r - c * k"
  proof -
    have "c * k \<le> r div k * k" using assms(3) by (intro mult_right_mono) (simp_all add: c)
    then show ?thesis using div by linarith
  qed
  show le: "r - c * k \<le> k"
  proof (cases "r div k \<le> 3")
    case True
    then have "c * k = r div k * k" by (simp add: c)
    then show ?thesis using div by linarith
  next
    case False
    then show ?thesis using assms(2) by (simp add: c)
  qed
  assume full: "r - c * k = k"
  show "c = 3"
  proof (rule ccontr)
    assume "c \<noteq> 3"
    then have "c * k = r div k * k" by (auto simp: c min_def)
    then show False using full div by linarith
  qed
qed

text \<open>A day number in the 400-, 100-, 4- and 1-year cycles, with the day \<open>k\<close> of its year.\<close>

lemma civil_cycles:
  obtains n400 c q a k y where "civilOf n = (case monthScan (monthLens y) k of (m, d) \<Rightarrow> (y, m, d))"
    and "y = 400 * n400 + 100 * c + 4 * q + a + 1" and "n = n400 * 146097 + c * 36524 + q * 1461 + a * 365 + k"
    and "0 \<le> c" "c \<le> 3" "0 \<le> q" "q \<le> 24" "0 \<le> a" "a \<le> 3" "0 \<le> k" "k \<le> 365"
    and "k = 365 \<Longrightarrow> a = 3" and "k = 365 \<Longrightarrow> q = 24 \<Longrightarrow> c = 3"
proof -
  define n400 where "n400 = n div 146097"
  define r where "r = n mod 146097"
  define c where "c = min 3 (r div 36524)"
  define r1 where "r1 = r - c * 36524"
  define q where "q = r1 div 1461"
  define r2 where "r2 = r1 mod 1461"
  define a where "a = min 3 (r2 div 365)"
  define y where "y = 400 * n400 + 100 * c + 4 * q + a + 1"
  have n: "n = n400 * 146097 + r" by (simp add: n400_def r_def)
  have "0 \<le> r" "r \<le> 4 * 36524" by (simp_all add: r_def)
  have k: "(0 :: int) < 36524" "(0 :: int) < 365" by simp_all
  note c = capped_div [OF \<open>0 \<le> r\<close> \<open>r \<le> 4 * 36524\<close> k(1) c_def, folded r1_def]
  have r1: "r1 = q * 1461 + r2" and "0 \<le> r2" "r2 \<le> 4 * 365" by (simp_all add: q_def r2_def)
  note a = capped_div [OF \<open>0 \<le> r2\<close> \<open>r2 \<le> 4 * 365\<close> k(2) a_def]
  have q: "0 \<le> q" "q \<le> 24" using c(3,4) by (simp_all add: q_def pos_imp_zdiv_nonneg_iff)
  show thesis
  proof (rule that [of y "r2 - a * 365" n400 c q a])
    show "civilOf n = (case monthScan (monthLens y) (r2 - a * 365) of (m, d) \<Rightarrow> (y, m, d))"
      by (simp only: civilOf_def Let_def n400_def r_def c_def r1_def q_def r2_def a_def y_def)
    show "n = n400 * 146097 + c * 36524 + q * 1461 + a * 365 + (r2 - a * 365)"
      using n r1 r1_def by linarith
    assume full: "r2 - a * 365 = 365" and "q = 24"
    then have "r2 = 1460" using a(5) by simp
    then have "r1 = 36524" using r1 \<open>q = 24\<close> by simp
    then show "c = 3" by (rule c(5))
  qed (use a c q y_def in blast)+
qed

text \<open>Every day has exactly the date the calendar gives it.\<close>

lemma civilDays_civilOf:
  assumes "civilOf n = (y, m, d)"
  shows "civilDays y m d = n"
proof (rule civil_cycles [of n])
  fix n400 c q a k y'
  assume civ: "civilOf n = (case monthScan (monthLens y') k of (m, d) \<Rightarrow> (y', m, d))"
    and y: "y' = 400 * n400 + 100 * c + 4 * q + a + 1" and n: "n = n400 * 146097 + c * 36524 + q * 1461 + a * 365 + k"
    and cqa: "0 \<le> c" "c \<le> 3" "0 \<le> q" "q \<le> 24" "0 \<le> a" "a \<le> 3"
  have scan: "monthScan (monthLens y) k = (m, d)" and y': "y' = y" using civ assms by (auto split: prod.splits)
  have "(y - 1) div 4 = 100 * n400 + 25 * c + q"
    using cqa y y' by (intro int_div_pos_eq [of _ _ _ a]) auto
  moreover have "(y - 1) div 100 = 4 * n400 + c"
    using cqa y y' by (intro int_div_pos_eq [of _ _ _ "4 * q + a"]) auto
  moreover have "(y - 1) div 400 = n400"
    using cqa y y' by (intro int_div_pos_eq [of _ _ _ "100 * c + 4 * q + a"]) auto
  ultimately have "daysBefore y = n400 * 146097 + c * 36524 + q * 1461 + a * 365"
    using y y' by (simp add: daysBefore_def)
  then show ?thesis using monthScan_sum [OF scan] n by (simp add: civilDays_def)
qed

lemma monthScan_range:
  "monthScan ls d = (m, k) \<Longrightarrow> 0 \<le> d \<Longrightarrow> d < sum_list ls \<Longrightarrow> m \<le> length ls \<and> 1 \<le> k \<and> k \<le> ls ! (m - 1)"
proof (induction ls arbitrary: d m k)
  case (Cons l ls)
  show ?case
  proof (cases "d < l")
    case True
    then show ?thesis using Cons.prems by auto
  next
    case False
    obtain m' k' where r: "monthScan ls (d - l) = (m', k')" by force
    then have mk: "m = Suc m'" "k = k'" using Cons.prems False by auto
    have "m' \<le> length ls \<and> 1 \<le> k' \<and> k' \<le> ls ! (m' - 1)"
      using Cons.IH [OF r] Cons.prems False by auto
    moreover have "1 \<le> m'" using monthScan_sum [OF r] by simp
    ultimately show ?thesis using mk by (cases m') auto
  qed
qed auto

lemma monthLens_le: "m < 12 \<Longrightarrow> monthLens y ! m \<le> 31"
proof -
  assume "m < 12"
  then have "monthLens y ! m \<in> set (monthLens y)" by (intro nth_mem) (simp add: monthLens_def)
  then show ?thesis by (auto simp: monthLens_def)
qed

lemma civilOf_valid:
  assumes "civilOf n = (y, m, d)"
  shows "1 \<le> m" and "m \<le> 12" and "1 \<le> d" and "d \<le> 31"
proof -
  obtain n400 c q a k where scan: "monthScan (monthLens y) k = (m, d)"
    and y: "y = 400 * n400 + 100 * c + 4 * q + a + 1"
    and q: "0 \<le> q" "q \<le> 24" and k: "0 \<le> k" "k \<le> 365" "k = 365 \<Longrightarrow> a = 3" "k = 365 \<Longrightarrow> q = 24 \<Longrightarrow> c = 3"
    using assms by (rule_tac civil_cycles [of n]) (auto split: prod.splits)
  have "leapYear y" if top: "k = 365"
  proof -
    have a3: "a = 3" by (rule k(3) [OF top])
    have y4: "y = 4 * (100 * n400 + 25 * c + q + 1)" by (simp add: y a3)
    have "y mod 400 = 0" if "y mod 100 = 0"
    proof -
      have "y = (4 * q + 4) + (4 * n400 + c) * 100" by (simp add: y a3)
      then have "(4 * q + 4) mod 100 = 0" using that by (metis mod_mult_self1)
      then have "q = 24" using q by presburger
      then have "c = 3" by (rule k(4) [OF top])
      then have "y = 400 * (n400 + 1)" by (simp add: y a3 \<open>q = 24\<close>)
      then show ?thesis by simp
    qed
    then show ?thesis using y4 by (auto simp: leapYear_def)
  qed
  then have "k < sum_list (monthLens y)" using k(2) by (force simp: monthLens_def)
  note rng = monthScan_range [OF scan k(1) this]
  show m: "1 \<le> m" "m \<le> 12" using rng monthScan_sum [OF scan] by (simp_all add: monthLens_def)
  show "1 \<le> d" using rng by simp
  have "d \<le> monthLens y ! (m - 1)" using rng by simp
  also have "\<dots> \<le> 31" using m by (intro monthLens_le) simp
  finally show "d \<le> 31" .
qed

section \<open>Delphi dates\<close>

definition goDate :: "gotime \<Rightarrow> int \<times> nat \<times> int" where "goDate t = civilOf (wallDay t)"

text \<open>\<open>midnight.Unix() / secondsPerDay\<close> of a date: days since 1970-01-01.\<close>

definition unixDays :: "int \<Rightarrow> nat \<Rightarrow> int \<Rightarrow> int" where
  "unixDays y m d = civilDays y m d - 719162"

definition daysToUnixEpoch :: int where "daysToUnixEpoch = 719162"
definition millisPerDay :: int where "millisPerDay = 86400 * 1000"

definition delphiDate :: "gotime \<Rightarrow> int result" where
  "delphiDate t = (case goDate t of (y, m, d) \<Rightarrow>
     let days = unixDays y m d + daysToUnixEpoch + 1 in
     if days < - (2 ^ 31) \<or> days > 2 ^ 31 - 1 then Inl ErrValueRange else Inr days)"

definition delphiTimeOfDay :: "gotime \<Rightarrow> int result" where
  "delphiTimeOfDay t =
     (let ns = goHour t * (3600 * 10 ^ 9) + goMinute t * (60 * 10 ^ 9) + goSecond t * 10 ^ 9 + goNano t in
      if ns mod 10 ^ 6 \<noteq> 0 then Inl ErrValueRange
      else let ms = ns div 10 ^ 6 in
        if ms < 0 \<or> ms \<ge> millisPerDay then Inl ErrValueRange else Inr ms)"

definition delphiDateToTime :: "int \<Rightarrow> gotime" where
  "delphiDateToTime days = zeroTime\<lparr>wallDay := days - 1\<rparr>"

definition delphiTimeToTime :: "int \<Rightarrow> gotime" where
  "delphiTimeToTime ms = goAdd (ms * 10 ^ 6) zeroTime"

lemma delphiDate_Inr: "delphiDate t = Inr days \<Longrightarrow> days = wallDay t + 1 \<and> - (2 ^ 31) \<le> days \<and> days < 2 ^ 31"
  by (auto simp: delphiDate_def goDate_def unixDays_def daysToUnixEpoch_def Let_def civilDays_civilOf
      split: prod.splits if_splits)

lemma delphiTimeOfDay_Inr:
  "delphiTimeOfDay t = Inr ms \<Longrightarrow> ms * 10 ^ 6 = wallNs t \<and> 0 \<le> ms \<and> ms < millisPerDay"
  unfolding delphiTimeOfDay_def time_parts by (auto simp: Let_def split: if_splits)

lemma delphi_back:
  assumes "delphiDate t = Inr days" and "delphiTimeOfDay t = Inr ms"
  shows "goAdd (ms * 10 ^ 6) (delphiDateToTime days) = t\<lparr>zoneOffset := 0\<rparr>"
    and "days = 1 \<Longrightarrow> delphiTimeToTime ms = t\<lparr>zoneOffset := 0\<rparr>"
    and "ms = 0 \<Longrightarrow> delphiDateToTime days = t\<lparr>zoneOffset := 0\<rparr>"
  using delphiDate_Inr [OF assms(1)] delphiTimeOfDay_Inr [OF assms(2)]
  by (simp_all add: goAdd_def delphiDateToTime_def delphiTimeToTime_def zeroTime_def nsPerDay_def millisPerDay_def)

end
