(* ===== verification/Go_Text.thy ===== *)
theory Go_Text
  imports Prelude
begin

text \<open>
  Go's text conversions as the string codec uses them: \<open>utf8.ValidString\<close> with \<open>[]rune(s)\<close>,
  \<open>utf16.Encode\<close>, \<open>utf16.Decode\<close> and \<open>string(runes)\<close>. A string is its bytes; a rune is a natural number.
\<close>

definition contByte :: "byte \<Rightarrow> bool" where
  "contByte b \<longleftrightarrow> 0x80 \<le> unat b \<and> unat b < 0xC0"

definition surrogate :: "nat \<Rightarrow> bool" where
  "surrogate r \<longleftrightarrow> 0xD800 \<le> r \<and> r < 0xE000"

definition validRune :: "nat \<Rightarrow> bool" where
  "validRune r \<longleftrightarrow> r \<le> 0x10FFFF \<and> \<not> surrogate r"

text \<open>The runes of a valid UTF-8 string, \<open>None\<close> for any other.\<close>

fun utf8Runes :: "byte list \<Rightarrow> nat list option" where
  "utf8Runes [] = Some []"
| "utf8Runes (a # bs) =
     (if unat a < 0x80 then map_option (Cons (unat a)) (utf8Runes bs)
      else if unat a < 0xE0 then (case bs of
          b # rest \<Rightarrow> (let r = (unat a - 0xC0) * 64 + (unat b - 0x80) in
            if 0xC0 \<le> unat a \<and> contByte b \<and> 0x80 \<le> r then map_option (Cons r) (utf8Runes rest) else None)
        | _ \<Rightarrow> None)
      else if unat a < 0xF0 then (case bs of
          b # c # rest \<Rightarrow> (let r = (unat a - 0xE0) * 4096 + (unat b - 0x80) * 64 + (unat c - 0x80) in
            if contByte b \<and> contByte c \<and> 0x800 \<le> r \<and> \<not> surrogate r then map_option (Cons r) (utf8Runes rest) else None)
        | _ \<Rightarrow> None)
      else (case bs of
          b # c # d # rest \<Rightarrow> (let r = (unat a - 0xF0) * 262144 + (unat b - 0x80) * 4096 + (unat c - 0x80) * 64 + (unat d - 0x80) in
            if unat a < 0xF8 \<and> contByte b \<and> contByte c \<and> contByte d \<and> 0x10000 \<le> r \<and> r \<le> 0x10FFFF
            then map_option (Cons r) (utf8Runes rest) else None)
        | _ \<Rightarrow> None))"

definition utf8Bytes :: "nat \<Rightarrow> byte list" where
  "utf8Bytes r = map word_of_nat
     (if r < 0x80 then [r]
      else if r < 0x800 then [0xC0 + r div 64, 0x80 + r mod 64]
      else if r < 0x10000 then [0xE0 + r div 4096, 0x80 + r div 64 mod 64, 0x80 + r mod 64]
      else [0xF0 + r div 262144, 0x80 + r div 4096 mod 64, 0x80 + r div 64 mod 64, 0x80 + r mod 64])"

definition utf8String :: "nat list \<Rightarrow> byte list" where
  "utf8String rs = concat (map utf8Bytes rs)"

text \<open>\<open>utf16.Encode\<close> of valid runes, and \<open>utf16.Decode\<close>: an unpaired surrogate becomes U+FFFD.\<close>

definition utf16Units :: "nat \<Rightarrow> nat list" where
  "utf16Units r = (if r < 0x10000 then [r]
     else [0xD800 + (r - 0x10000) div 1024, 0xDC00 + (r - 0x10000) mod 1024])"

definition utf16Encode :: "nat list \<Rightarrow> nat list" where
  "utf16Encode rs = concat (map utf16Units rs)"

fun utf16Decode :: "nat list \<Rightarrow> nat list" where
  "utf16Decode [] = []"
| "utf16Decode (u # us) =
     (if \<not> surrogate u then u # utf16Decode us
      else case us of
        v # rest \<Rightarrow> if u < 0xDC00 \<and> 0xDC00 \<le> v \<and> v < 0xE000
          then (0x10000 + (u - 0xD800) * 1024 + (v - 0xDC00)) # utf16Decode rest
          else 0xFFFD # utf16Decode us
      | [] \<Rightarrow> [0xFFFD])"

section \<open>Round trips\<close>

lemma byte_at: "unat a = x + k \<Longrightarrow> (word_of_nat (k + x) :: byte) = a"
  by (metis add.commute of_nat_unat ucast_id)

lemma digit64: "z < 64 \<Longrightarrow> (w * 64 + z) div 64 = w \<and> (w * 64 + z) mod 64 = (z :: nat)"
  by simp

lemma div_64_64: "(r :: nat) div 4096 = r div 64 div 64" "r div 262144 = r div 64 div 64 div 64"
  by (simp_all add: div_mult2_eq [symmetric])

lemma digits64_3:
  assumes "y < 64" "z < 64" and r: "r = x * 4096 + y * 64 + (z :: nat)"
  shows "r mod 64 = z" "r div 64 mod 64 = y" "r div 4096 = x" "r div 64 = x * 64 + y"
proof -
  have r': "r = (x * 64 + y) * 64 + z" using r by simp
  show "r mod 64 = z" "r div 64 mod 64 = y" "r div 4096 = x" "r div 64 = x * 64 + y"
    unfolding div_64_64 using digit64 [OF assms(2), of "x * 64 + y"] digit64 [OF assms(1), of x]
    by (simp_all add: r' del: div_mult_self3 div_mult_self4)
qed

lemma digits64_4:
  assumes "y < 64" "z < 64" "v < 64" and r: "r = x * 262144 + y * 4096 + z * 64 + (v :: nat)"
  shows "r mod 64 = v" "r div 64 mod 64 = z" "r div 4096 mod 64 = y" "r div 262144 = x"
proof -
  have r': "r = (x * 4096 + y * 64 + z) * 64 + v" using r by simp
  have "r mod 64 = v" "r div 64 = x * 4096 + y * 64 + z"
    using digit64 [OF assms(3), of "x * 4096 + y * 64 + z"] unfolding r' by blast+
  moreover note digits64_3 [OF assms(1,2) this(2)]
  ultimately show "r mod 64 = v" "r div 64 mod 64 = z" "r div 4096 mod 64 = y" "r div 262144 = x"
    unfolding div_64_64 by simp_all
qed

lemma utf8Bytes_2:
  assumes "0xC0 \<le> unat a" "unat a < 0xE0" "contByte b" and "0x80 \<le> (unat a - 0xC0) * 64 + (unat b - 0x80)"
  shows "utf8Bytes ((unat a - 0xC0) * 64 + (unat b - 0x80)) = [a, b]"
proof -
  define x y where "x = unat a - 0xC0" and "y = unat b - 0x80"
  have xy: "unat a = x + 0xC0" "unat b = y + 0x80" "x < 32" "y < 64"
    using assms by (auto simp: x_def y_def contByte_def)
  have "x * 64 + y < 0x800" using xy(3,4) by simp
  then show ?thesis
    using assms(4) digit64 [OF xy(4), of x] byte_at [OF xy(1)] byte_at [OF xy(2)]
    unfolding x_def [symmetric] y_def [symmetric] by (simp add: utf8Bytes_def del: of_nat_add)
qed

lemma utf8Bytes_3:
  assumes "0xE0 \<le> unat a" "unat a < 0xF0" "contByte b" "contByte c"
    and "0x800 \<le> (unat a - 0xE0) * 4096 + (unat b - 0x80) * 64 + (unat c - 0x80)"
  shows "utf8Bytes ((unat a - 0xE0) * 4096 + (unat b - 0x80) * 64 + (unat c - 0x80)) = [a, b, c]"
proof -
  define x y z where "x = unat a - 0xE0" and "y = unat b - 0x80" and "z = unat c - 0x80"
  have xyz: "unat a = x + 0xE0" "unat b = y + 0x80" "unat c = z + 0x80" "x < 16" "y < 64" "z < 64"
    using assms by (auto simp: x_def y_def z_def contByte_def)
  define r where "r = x * 4096 + y * 64 + z"
  have "r < 0x10000" "0x800 \<le> r" using xyz(4-6) assms(5) by (simp_all add: r_def x_def y_def z_def)
  then have "utf8Bytes r = [a, b, c]"
    using byte_at [OF xyz(1)] byte_at [OF xyz(2)] byte_at [OF xyz(3)]
    by (simp add: utf8Bytes_def digits64_3(1-3) [OF xyz(5,6) r_def] del: of_nat_add)
  then show ?thesis by (simp add: r_def x_def y_def z_def)
qed

lemma utf8Bytes_4:
  assumes "0xF0 \<le> unat a" "contByte b" "contByte c" "contByte d"
    and "0x10000 \<le> (unat a - 0xF0) * 262144 + (unat b - 0x80) * 4096 + (unat c - 0x80) * 64 + (unat d - 0x80)"
  shows "utf8Bytes ((unat a - 0xF0) * 262144 + (unat b - 0x80) * 4096 + (unat c - 0x80) * 64 + (unat d - 0x80)) = [a, b, c, d]"
proof -
  define x y z v where "x = unat a - 0xF0" and "y = unat b - 0x80" and "z = unat c - 0x80" and "v = unat d - 0x80"
  have xyz: "unat a = x + 0xF0" "unat b = y + 0x80" "unat c = z + 0x80" "unat d = v + 0x80" "y < 64" "z < 64" "v < 64"
    using assms by (auto simp: x_def y_def z_def v_def contByte_def)
  define r where "r = x * 262144 + y * 4096 + z * 64 + v"
  have "0x10000 \<le> r" using assms(5) by (simp add: r_def x_def y_def z_def v_def)
  then have "utf8Bytes r = [a, b, c, d]"
    using byte_at [OF xyz(1)] byte_at [OF xyz(2)] byte_at [OF xyz(3)] byte_at [OF xyz(4)]
    by (simp add: utf8Bytes_def digits64_4 [OF xyz(5-7) r_def] del: of_nat_add)
  then show ?thesis by (simp add: r_def x_def y_def z_def v_def)
qed

lemma utf8String_Cons: "utf8String (r # rs) = utf8Bytes r @ utf8String rs"
  by (simp add: utf8String_def)

lemma utf8Runes_cases:
  assumes "utf8Runes (a # bs) = Some rs"
  obtains (step) r rest cs where "bs = cs @ rest" "utf8Bytes r = a # cs"
    "map_option (Cons r) (utf8Runes rest) = Some rs" "validRune r"
proof (cases "unat a < 0x80")
  case True
  with assms show thesis
    by (intro step [of "[]" bs "unat a"]) (simp_all add: utf8Bytes_def validRune_def surrogate_def)
next
  case a1: False
  show thesis
  proof (cases "unat a < 0xE0")
    case True
    then obtain b rest where bs: "bs = b # rest" using assms a1 by (auto split: list.splits)
    let ?r = "(unat a - 0xC0) * 64 + (unat b - 0x80)"
    have c: "0xC0 \<le> unat a" "contByte b" "0x80 \<le> ?r" and rs: "map_option (Cons ?r) (utf8Runes rest) = Some rs"
      using assms a1 True bs by (auto simp: Let_def split: if_splits)
    have "?r < 0x800" using c True by (auto simp: contByte_def)
    then have "validRune ?r" by (simp add: validRune_def surrogate_def)
    with rs show thesis
      using utf8Bytes_2 [OF c(1) True c(2,3)] bs by (intro step [of "[b]" rest ?r]) auto
  next
    case a2: False
    show thesis
    proof (cases "unat a < 0xF0")
      case True
      then obtain b c rest where bs: "bs = b # c # rest" using assms a1 a2 by (auto split: list.splits)
      let ?r = "(unat a - 0xE0) * 4096 + (unat b - 0x80) * 64 + (unat c - 0x80)"
      have c: "contByte b" "contByte c" "0x800 \<le> ?r" "\<not> surrogate ?r"
        and rs: "map_option (Cons ?r) (utf8Runes rest) = Some rs"
        using assms a1 a2 True bs by (auto simp: Let_def split: if_splits)
      have "?r < 0x10000" using c True by (auto simp: contByte_def)
      then have "validRune ?r" using c(4) by (simp add: validRune_def)
      with rs show thesis
        using utf8Bytes_3 [OF _ True c(1-3)] a2 bs by (intro step [of "[b, c]" rest ?r]) auto
    next
      case a3: False
      then obtain b c d rest where bs: "bs = b # c # d # rest" using assms a1 a2 by (auto split: list.splits)
      let ?r = "(unat a - 0xF0) * 262144 + (unat b - 0x80) * 4096 + (unat c - 0x80) * 64 + (unat d - 0x80)"
      have c: "contByte b" "contByte c" "contByte d" "0x10000 \<le> ?r" "?r \<le> 0x10FFFF"
        and rs: "map_option (Cons ?r) (utf8Runes rest) = Some rs"
        using assms a1 a2 a3 bs by (auto simp: Let_def split: if_splits)
      have "validRune ?r" using c(4,5) by (simp add: validRune_def surrogate_def)
      with rs show thesis
        using utf8Bytes_4 [OF _ c(1-4)] a3 bs by (intro step [of "[b, c, d]" rest ?r]) auto
    qed
  qed
qed

lemma utf8_roundtrip:
  "utf8Runes s = Some rs \<Longrightarrow> utf8String rs = s \<and> list_all validRune rs"
proof (induction s arbitrary: rs rule: length_induct)
  case (1 s)
  show ?case
  proof (cases s)
    case Nil
    then show ?thesis using 1(2) by (simp add: utf8String_def)
  next
    case (Cons a bs)
    then have "utf8Runes (a # bs) = Some rs" using 1(2) by simp
    then show ?thesis
    proof (cases rule: utf8Runes_cases)
      case (step r rest cs)
      then obtain rs' where rs': "utf8Runes rest = Some rs'" "rs = r # rs'" by auto
      have "length rest < length s" using step(1) Cons by simp
      then have "utf8String rs' = rest \<and> list_all validRune rs'" using 1(1) rs'(1) by blast
      then show ?thesis using step Cons rs' by (simp add: utf8String_Cons)
    qed
  qed
qed

lemma utf16Units_decode:
  "validRune r \<Longrightarrow> utf16Decode (utf16Units r @ us) = r # utf16Decode us"
proof -
  assume r: "validRune r"
  show ?thesis
  proof (cases "r < 0x10000")
    case True
    then show ?thesis using r by (simp add: utf16Units_def validRune_def)
  next
    case False
    define h l where "h = (r - 0x10000) div 1024" and "l = (r - 0x10000) mod 1024"
    have "r = 0x10000 + h * 1024 + l" using False by (simp add: h_def l_def)
    moreover have "h < 1024" "l < 1024" using r by (auto simp: h_def l_def validRune_def)
    ultimately show ?thesis
      using False by (simp add: utf16Units_def surrogate_def h_def [symmetric] l_def [symmetric])
  qed
qed

lemma utf16_roundtrip: "list_all validRune rs \<Longrightarrow> utf16Decode (utf16Encode rs) = rs"
  by (induction rs) (simp_all add: utf16Encode_def utf16Units_decode)

lemma utf16Units_range: "validRune r \<Longrightarrow> u \<in> set (utf16Units r) \<Longrightarrow> u < 0x10000"
proof -
  assume r: "validRune r" and u: "u \<in> set (utf16Units r)"
  have "r - 0x10000 < 1024 * 1024" using r by (auto simp: validRune_def)
  then have "(r - 0x10000) div 1024 < 1024" by (rule less_mult_imp_div_less)
  moreover have "(r - 0x10000) mod 1024 < 1024" by simp
  ultimately show ?thesis using u unfolding utf16Units_def by (simp split: if_splits) linarith
qed

lemma utf16Encode_range: "list_all validRune rs \<Longrightarrow> u \<in> set (utf16Encode rs) \<Longrightarrow> u < 0x10000"
  by (induction rs) (auto simp: utf16Encode_def dest: utf16Units_range)

end
