(* ===== verification/Row.thy ===== *)
theory Row
  imports Reader Go_Floats Go_Times Go_Text
begin

text \<open>
  The decoding of a record's columns (\<open>reader.go\<close>): null flags, the field's bytes, and the typed
  accessors. The third-party Windows-1252 decoder is an argument of the accessors that use it.
\<close>

section \<open>Column access\<close>

definition rowIsNull :: "layout \<Rightarrow> rowbytes \<Rightarrow> int \<Rightarrow> bool" where
  "rowIsNull l rec col =
     (if col < 0 \<or> col \<ge> int (length (columns l)) then True
      else nullFlag (nullFlags rec) (nat col))"

definition fieldOf :: "layout \<Rightarrow> rowbytes \<Rightarrow> int \<Rightarrow> byte list option" where
  "fieldOf l rec col =
     (if col < 0 \<or> col \<ge> int (length (fieldOffsets l)) then None
      else let off = fieldOffsets l ! nat col; sz = fieldStoreSizes l ! nat col in
        if sz = 0 \<or> off + sz > length (fieldData rec) then None
        else Some (slc off (off + sz) (fieldData rec)))"

definition fieldPrefix :: "layout \<Rightarrow> rowbytes \<Rightarrow> int \<Rightarrow> nat \<Rightarrow> byte list option" where
  "fieldPrefix l rec col width = (case fieldOf l rec col of
     None \<Rightarrow> None
   | Some bs \<Rightarrow> if length bs < width then None else Some (take width bs))"

text \<open>Two's complement: the sign bit of the width read extends to 64 bits.\<close>

definition decodeIntegerLE :: "byte list \<Rightarrow> bool \<Rightarrow> int" where
  "decodeIntegerLE bs issigned =
     (let v = word_of_nat (le_val bs) :: u64; bits = length bs * 8 in
      if issigned \<and> length bs < 8 \<and> v AND push_bit (bits - 1) 1 \<noteq> 0
      then sint (v OR push_bit bits (-1)) else sint v)"

definition intValue :: "layout \<Rightarrow> rowbytes \<Rightarrow> int \<Rightarrow> int" where
  "intValue l rec col =
     (if col < 0 \<or> col \<ge> int (length (columns l)) then 0
      else case integerStorage (columns l ! nat col) of
        None \<Rightarrow> 0
      | Some (width, issigned) \<Rightarrow> (case fieldPrefix l rec col width of
          None \<Rightarrow> 0
        | Some bs \<Rightarrow> decodeIntegerLE bs issigned))"

definition narrowed :: "int \<Rightarrow> int \<Rightarrow> int \<Rightarrow> int" where
  "narrowed low high v = (if v < low \<or> v > high then 0 else v)"

definition rowInt :: "layout \<Rightarrow> rowbytes \<Rightarrow> int \<Rightarrow> int" where
  "rowInt l rec col = narrowed (- (2 ^ 31)) (2 ^ 31 - 1) (intValue l rec col)"

definition rowInt16 :: "layout \<Rightarrow> rowbytes \<Rightarrow> int \<Rightarrow> int" where
  "rowInt16 l rec col = narrowed (- (2 ^ 15)) (2 ^ 15 - 1) (intValue l rec col)"

definition rowUint16 :: "layout \<Rightarrow> rowbytes \<Rightarrow> int \<Rightarrow> int" where
  "rowUint16 l rec col = narrowed 0 (2 ^ 16 - 1) (intValue l rec col)"

definition rowUint32 :: "layout \<Rightarrow> rowbytes \<Rightarrow> int \<Rightarrow> int" where
  "rowUint32 l rec col = narrowed 0 (2 ^ 32 - 1) (intValue l rec col)"

definition rowBool :: "layout \<Rightarrow> rowbytes \<Rightarrow> int \<Rightarrow> bool" where
  "rowBool l rec col = (case fieldPrefix l rec col 2 of None \<Rightarrow> False | Some bs \<Rightarrow> getU16 bs 0 \<noteq> 0)"

definition rowBytes :: "layout \<Rightarrow> rowbytes \<Rightarrow> int \<Rightarrow> byte list option" where
  "rowBytes l rec col = fieldOf l rec col"

section \<open>Floats\<close>

text \<open>\<open>math.Ldexp\<close> of a normalised 53-bit significand \<open>m\<close>: the value \<open>m * 2^e\<close> as a \<open>float64\<close>.\<close>

definition scaled64 :: "bool \<Rightarrow> nat \<Rightarrow> int \<Rightarrow> u64" where
  "scaled64 s m e = (let x = e + 1075 in
     if x \<ge> 2047 then f64 s 2047 0
     else if x \<ge> 1 then f64 s (nat x) (m - 2 ^ 52)
     else f64 s 0 (roundHalfEven m (nat (1 - x))))"

definition extendedToFloat :: "byte list \<Rightarrow> u64" where
  "extendedToFloat bs =
     (let a = unat (getU64 bs 0); se = unat (getU16 bs 8); s = 0x8000 \<le> se; e = se mod 0x8000; k = topBit a in
      if e = 0x7FFF then (if a = 2 ^ 63 then f64 s 2047 0 else f64 False 2047 (2 ^ 51 + 1))
      else if a = 0 then f64 s 0 0
      else let m = (if k \<le> 52 then a * 2 ^ (52 - k) else roundHalfEven a (k - 52));
               up = (m = 2 ^ 53) in
        scaled64 s (if up then 2 ^ 52 else m) (int e - 16383 - 63 + int k - 52 + of_bool up))"

definition rowFloat :: "layout \<Rightarrow> rowbytes \<Rightarrow> int \<Rightarrow> u64" where
  "rowFloat l rec col =
     (if col < 0 \<or> col \<ge> int (length (columns l)) then 0
      else let t = BaseType (columns l ! nat col) in
        if t = BftSingle then (case fieldPrefix l rec col 4 of None \<Rightarrow> 0 | Some bs \<Rightarrow> widen32 (getU32 bs 0))
        else if t = BftDouble \<or> t = BftCurrency then (case fieldPrefix l rec col 8 of None \<Rightarrow> 0 | Some bs \<Rightarrow> getU64 bs 0)
        else if t = BftExtended then (case fieldPrefix l rec col 10 of None \<Rightarrow> 0 | Some bs \<Rightarrow> extendedToFloat bs)
        else 0)"

section \<open>Text\<close>

text \<open>Text up to the first NUL, through the Windows-1252 decoder; its failure keeps the bytes.\<close>

definition decodeANSI :: "(byte list \<Rightarrow> byte list option) \<Rightarrow> byte list \<Rightarrow> byte list" where
  "decodeANSI dec bs = (let t = takeWhile (\<lambda>b. b \<noteq> 0) bs in
     if t = [] then [] else case dec t of None \<Rightarrow> t | Some s \<Rightarrow> s)"

text \<open>The code units before a zero one.\<close>

fun utf16Raw :: "byte list \<Rightarrow> nat list" where
  "utf16Raw (a # b # bs) =
     (let u = unat (getU16 [a, b] 0) in if u = 0 then [] else u # utf16Raw bs)"
| "utf16Raw bs = []"

definition decodeUTF16 :: "byte list \<Rightarrow> byte list" where
  "decodeUTF16 bs = (let units = utf16Raw bs in if units = [] then [] else utf8String (utf16Decode units))"

definition rowString :: "(byte list \<Rightarrow> byte list option) \<Rightarrow> layout \<Rightarrow> rowbytes \<Rightarrow> int \<Rightarrow> byte list" where
  "rowString dec l rec col =
     (if col < 0 \<or> col \<ge> int (length (columns l)) then []
      else case fieldOf l rec col of
        None \<Rightarrow> []
      | Some bs \<Rightarrow> let t = BaseType (columns l ! nat col) in
          if bs = [] then []
          else if t = BftChar \<or> t = BftVarchar then decodeANSI dec bs
          else if t = BftWideChar \<or> t = BftWideVarchar then decodeUTF16 bs
          else [])"

section \<open>Times\<close>

definition timeStampSize :: nat where "timeStampSize = 8"

definition timeStampToTime :: "byte list \<Rightarrow> gotime" where
  "timeStampToTime bs =
     (let year = int (unat (getU16 bs 0)); month = int (unat (getU16 bs 2));
          day = int (unat (getU16 bs 4)); hour = int (unat (getU16 bs 6)) in
      if year < 1 \<or> year > 9999 \<or> month < 1 \<or> month > 12 \<or> day < 1 \<or> day > 31 \<or> hour > 23 then zeroTime
      else let t = zeroTime\<lparr>wallDay := civilDays year (nat month) day, wallNs := hour * (3600 * 10 ^ 9)\<rparr> in
        case goDate t of (y, m, d) \<Rightarrow> if d \<noteq> day then zeroTime else t)"

definition rowTime :: "layout \<Rightarrow> rowbytes \<Rightarrow> int \<Rightarrow> gotime" where
  "rowTime l rec col =
     (if col < 0 \<or> col \<ge> int (length (columns l)) then zeroTime
      else let c = columns l ! nat col; t = BaseType c in
        if FieldType c = FieldTimeStamp then
          (case fieldPrefix l rec col timeStampSize of None \<Rightarrow> zeroTime | Some bs \<Rightarrow> timeStampToTime bs)
        else if t = BftDate then
          (case fieldPrefix l rec col 4 of None \<Rightarrow> zeroTime | Some bs \<Rightarrow> delphiDateToTime (sint (getU32 bs 0)))
        else if t = BftTime then
          (case fieldPrefix l rec col 4 of None \<Rightarrow> zeroTime | Some bs \<Rightarrow> delphiTimeToTime (sint (getU32 bs 0)))
        else if t = BftDateTime then
          (case fieldPrefix l rec col 8 of None \<Rightarrow> zeroTime
           | Some bs \<Rightarrow> goAdd (sint (getU32 bs 4) * 10 ^ 6) (delphiDateToTime (sint (getU32 bs 0))))
        else zeroTime)"

end
