(* ===== verification/Encode.thy ===== *)
theory Encode
  imports Row
begin

text \<open>
  The encoder of \<open>encode.go\<close>: a Go value of type \<open>any\<close> becomes the bytes of a column's field, and
  a list of values a record. The third-party Windows-1252 encoder is the argument \<open>enc\<close>.
\<close>

section \<open>Values\<close>

text \<open>The dynamic types the code's type switches tell apart. The narrower integer types are
  \<open>GInt\<close>; \<open>uint\<close>, \<open>uint64\<close> and \<open>uintptr\<close> are \<open>GUint\<close>.\<close>

datatype goval =
    GNil
  | GInt int
  | GUint u64
  | GFloat32 u32
  | GFloat64 u64
  | GString "byte list"
  | GBool bool
  | GBytes "byte list"
  | GTime gotime
  | GOther

definition goval_ok :: "goval \<Rightarrow> bool" where
  "goval_ok v = (case v of GInt n \<Rightarrow> - (2 ^ 63) \<le> n \<and> n < 2 ^ 63 | GTime t \<Rightarrow> time_ok t | _ \<Rightarrow> True)"

definition unsignedValue :: "u64 \<Rightarrow> int \<times> bool \<times> bool" where
  "unsignedValue x = (if unat x > 2 ^ 63 - 1 then (0, True, False) else (uint x, True, True))"

text \<open>The value, whether it is an integer, and whether it has an \<open>int64\<close> form.\<close>

definition integerValue :: "goval \<Rightarrow> int \<times> bool \<times> bool" where
  "integerValue v = (case v of
     GInt n \<Rightarrow> (n, True, True)
   | GUint x \<Rightarrow> unsignedValue x
   | _ \<Rightarrow> (0, False, False))"

definition floatValue :: "goval \<Rightarrow> u64 option" where
  "floatValue v = (case v of
     GFloat32 w \<Rightarrow> Some (widen32 w)
   | GFloat64 w \<Rightarrow> Some w
   | _ \<Rightarrow> (case integerValue v of (n, isInt, inRange) \<Rightarrow>
       if \<not> isInt \<or> \<not> inRange then None
       else let f = f64OfInt n in if f64ToInt f \<noteq> n then None else Some f))"

definition integerBounds :: "nat \<Rightarrow> bool \<Rightarrow> int \<times> int" where
  "integerBounds width issigned =
     (let bits = width * 8 in
      if \<not> issigned then (if bits \<ge> 64 then (0, 2 ^ 63 - 1) else (0, 2 ^ bits - 1))
      else if bits = 0 \<or> bits \<ge> 64 then (- (2 ^ 63), 2 ^ 63 - 1)
      else (- (2 ^ (bits - 1)), 2 ^ (bits - 1) - 1))"

section \<open>One field\<close>

definition zeros :: "nat \<Rightarrow> byte list" where "zeros n = replicate n 0"

definition encodeInteger :: "byte list \<Rightarrow> goval \<Rightarrow> nat \<Rightarrow> bool \<Rightarrow> byte list result" where
  "encodeInteger field v width issigned =
     (case integerValue v of (n, isInt, inRange) \<Rightarrow>
      if \<not> isInt then Inl ErrValueType
      else if \<not> inRange then Inl ErrValueRange
      else case integerBounds width issigned of (low, high) \<Rightarrow>
        if n < low \<or> n > high then Inl ErrValueRange
        else if width > length field then Inl ErrValueRange
        else Inr (splice 0 (putUintLE width (unat (word_of_int n :: u64))) (zeros (length field))))"

text \<open>\<open>field[:8]\<close> of a shorter field panics.\<close>

definition encodeCurrency :: "byte list \<Rightarrow> goval \<Rightarrow> byte list result" where
  "encodeCurrency field v =
     bindR (case floatValue v of
         Some f \<Rightarrow> Inr f
       | None \<Rightarrow> (case integerValue v of (n, isInt, _) \<Rightarrow>
           if isInt then Inr (f64OfInt n) else Inl ErrValueType))
       (\<lambda>f. if length field < 8 then Inl GoPanic else Inr (splice 0 (leU64 f) field))"

definition encodeFloat :: "byte list \<Rightarrow> goval \<Rightarrow> byte list result" where
  "encodeFloat field v = (case floatValue v of
     None \<Rightarrow> Inl ErrValueType
   | Some f \<Rightarrow>
       if length field = 4 then (case narrow64 f of
           None \<Rightarrow> Inl ErrValueRange
         | Some w \<Rightarrow> Inr (leU32 w))
       else if length field = 8 then Inr (leU64 f)
       else Inl ErrBadLayout)"

definition encodeBool :: "byte list \<Rightarrow> goval \<Rightarrow> byte list result" where
  "encodeBool field v = (case v of
     GBool b \<Rightarrow>
       if length field < 2 then Inl ErrBadLayout
       else Inr ((zeros (length field))[0 := of_bool b])
   | _ \<Rightarrow> Inl ErrValueType)"

definition encodeANSI :: "(byte list \<Rightarrow> byte list option) \<Rightarrow> byte list \<Rightarrow> goval \<Rightarrow> byte list result" where
  "encodeANSI enc field v = (case v of
     GString s \<Rightarrow> (case enc s of
         None \<Rightarrow> Inl ErrStringEncoding
       | Some t \<Rightarrow>
           if 0 \<in> set t then Inl ErrStringEncoding
           else if length t \<ge> length field then Inl ErrValueRange
           else Inr (splice 0 t (zeros (length field))))
   | _ \<Rightarrow> Inl ErrValueType)"

definition encodeUTF16 :: "byte list \<Rightarrow> goval \<Rightarrow> byte list result" where
  "encodeUTF16 field v = (case v of
     GString s \<Rightarrow> (case utf8Runes s of
         None \<Rightarrow> Inl ErrStringEncoding
       | Some rs \<Rightarrow> let units = utf16Encode rs in
           if 0 \<in> set units then Inl ErrStringEncoding
           else if (length units + 1) * 2 > length field then Inl ErrValueRange
           else Inr (splice 0 (concat (map (\<lambda>u. leU16 (word_of_nat u)) units)) (zeros (length field))))
   | _ \<Rightarrow> Inl ErrValueType)"

text \<open>The four words of a TimeStamp, one after the other; a part that is no \<open>uint16\<close> is refused.\<close>

fun putParts :: "int list \<Rightarrow> nat \<Rightarrow> byte list \<Rightarrow> byte list result" where
  "putParts [] i field = Inr field"
| "putParts (part # parts) i field =
     (if part < 0 \<or> part > 2 ^ 16 - 1 then Inl ErrValueRange
      else putParts parts (i + 1) (splice (i * 2) (leU16 (word_of_int part)) field))"

definition encodeTimeStamp :: "byte list \<Rightarrow> goval \<Rightarrow> byte list result" where
  "encodeTimeStamp field v = (case v of
     GTime t \<Rightarrow>
       if length field < timeStampSize then Inl ErrBadLayout
       else if IsZero t then Inr (splice 0 (zeros timeStampSize) field)
       else if goMinute t \<noteq> 0 \<or> goSecond t \<noteq> 0 \<or> goNano t \<noteq> 0 then Inl ErrValueRange
       else (case goDate t of (y, m, d) \<Rightarrow>
         if y < 1 \<or> y > 9999 then Inl ErrValueRange
         else putParts [y, int m, d, goHour t] 0 field)
   | _ \<Rightarrow> Inl ErrValueType)"

definition encodeTime :: "byte \<Rightarrow> byte list \<Rightarrow> goval \<Rightarrow> byte list result" where
  "encodeTime base field v = (case v of
     GTime t \<Rightarrow>
       bindR (delphiDate t) (\<lambda>days.
       bindR (delphiTimeOfDay t) (\<lambda>ms.
         if base = BftDate then
           (if ms \<noteq> 0 then Inl ErrValueRange else encodeInteger field (GInt days) 4 True)
         else if base = BftTime then
           (if days \<noteq> 1 then Inl ErrValueRange else encodeInteger field (GInt ms) 4 True)
         else if length field < 8 then Inl ErrBadLayout
         else bindR (encodeInteger (slc 0 4 field) (GInt days) 4 True) (\<lambda>d.
              bindR (encodeInteger (slc 4 8 field) (GInt ms) 4 True) (\<lambda>m.
                Inr (splice 0 (d @ m) field)))))
   | _ \<Rightarrow> Inl ErrValueType)"

definition encodeBytes :: "byte list \<Rightarrow> goval \<Rightarrow> nat \<Rightarrow> byte list result" where
  "encodeBytes field v sz = (case v of
     GBytes b \<Rightarrow> if length b > sz then Inl ErrValueRange
       else Inr (splice 0 (take (length field) b) (zeros (length field)))
   | _ \<Rightarrow> Inl ErrValueType)"

definition encodeField :: "(byte list \<Rightarrow> byte list option) \<Rightarrow> Column \<Rightarrow> byte list \<Rightarrow> goval \<Rightarrow> byte list result" where
  "encodeField enc c field v =
     (let t = BaseType c in
      if FieldType c = FieldTimeStamp then encodeTimeStamp field v
      else if t = BftCurrency then encodeCurrency field v
      else if t = BftSingle \<or> t = BftDouble then encodeFloat field v
      else if t = BftLogical then encodeBool field v
      else if t = BftChar \<or> t = BftVarchar then encodeANSI enc field v
      else if t = BftWideChar \<or> t = BftWideVarchar then encodeUTF16 field v
      else if t = BftDate \<or> t = BftTime \<or> t = BftDateTime then encodeTime t field v
      else if t = BftBytes then encodeBytes field v (unat (Size c))
      else case integerStorage c of
        None \<Rightarrow> Inl ErrColumnNotWritable
      | Some (width, issigned) \<Rightarrow> encodeInteger field v width issigned)"

section \<open>A record\<close>

definition checkLayout :: "layout \<Rightarrow> unit result" where
  "checkLayout l =
     (let cols = length (columns l) in
      guardR (\<not> (recordSize l = 0 \<or> length (fieldOffsets l) \<noteq> cols \<or> length (fieldStoreSizes l) \<noteq> cols)) ErrBadLayout)"

definition flagRecord :: "layout \<Rightarrow> int \<Rightarrow> bool \<Rightarrow> byte list \<Rightarrow> byte list" where
  "flagRecord l col null rec = splice 0 (setNullFlag (take (nullFlagBytes l) rec) (nat col) null) rec"

text \<open>
  The Go method writes into the record it is given. Its one caller, \<open>encodeRecord\<close>, drops that record when a column
  is refused, so what an error leaves in it is not part of the result here.
\<close>

definition encodeInto ::
    "(byte list \<Rightarrow> byte list option) \<Rightarrow> layout \<Rightarrow> byte list \<Rightarrow> int \<Rightarrow> goval \<Rightarrow> byte list result" where
  "encodeInto enc l rec col v =
     bindR (checkLayout l) (\<lambda>_.
     bindR (guardR (length rec = recordSize l) ErrRecordSize) (\<lambda>_.
     bindR (guardR (0 \<le> col \<and> col < int (length (columns l))) ErrColumnRange) (\<lambda>_.
       let c = columns l ! nat col; off = nullFlagBytes l + fieldOffsets l ! nat col;
           sz = fieldStoreSizes l ! nat col in
       bindR (guardR (\<not> (sz = 0 \<or> off + sz > length rec)) ErrBadLayout) (\<lambda>_.
         if v = GNil then Inr (flagRecord l col True (splice off (zeros sz) rec))
         else bindR (guardR (\<not> IsBLOB c) ErrBlobWrite) (\<lambda>_.
              bindR (encodeField enc c (slc off (off + sz) rec) v) (\<lambda>field.
                Inr (flagRecord l col False (splice off field rec))))))))"

definition setSpareNullFlags :: "layout \<Rightarrow> byte list \<Rightarrow> byte list" where
  "setSpareNullFlags l rec =
     (let n = nullFlagBytes l; cols = length (columns l) in
      if n * 8 \<le> cols \<or> n > length rec then rec
      else rec[n - 1 := rec ! (n - 1) OR (if n * 8 - cols > 8 then 0 else push_bit (8 - (n * 8 - cols)) 0xFF)])"

fun encodeColumns ::
    "(byte list \<Rightarrow> byte list option) \<Rightarrow> layout \<Rightarrow> nat \<Rightarrow> goval list \<Rightarrow> byte list \<Rightarrow> byte list result" where
  "encodeColumns enc l col [] rec = Inr rec"
| "encodeColumns enc l col (v # vs) rec =
     bindR (encodeInto enc l rec (int col) v) (encodeColumns enc l (col + 1) vs)"

definition encodeRecord ::
    "(byte list \<Rightarrow> byte list option) \<Rightarrow> layout \<Rightarrow> goval list \<Rightarrow> byte list result" where
  "encodeRecord enc l vs =
     bindR (checkLayout l) (\<lambda>_.
     bindR (guardR (length vs = length (columns l)) ErrValueCount) (\<lambda>_.
       encodeColumns enc l 0 vs (setSpareNullFlags l (zeros (recordSize l)))))"

end
