(* ===== verification/Encode_Props.thy ===== *)
theory Encode_Props
  imports Encode
begin

text \<open>
  What the record encoder guarantees: it fills exactly one field and one null bit, and what it
  stores is what the accessors of \<open>reader.go\<close> read back.
\<close>

lemma length_zeros [simp]: "length (zeros n) = n" by (simp add: zeros_def)

section \<open>Fields keep their width\<close>

lemma length_putParts: "putParts parts i field = Inr f \<Longrightarrow> length f = length field"
  by (induction parts i field rule: putParts.induct) (auto split: if_splits)

lemma encodeInteger_Inr:
  assumes "encodeInteger field v width sg = Inr f"
  obtains n low high where "integerValue v = (n, True, True)" and "integerBounds width sg = (low, high)"
    and "low \<le> n" "n \<le> high" and "width \<le> length field"
    and "f = putUintLE width (unat (word_of_int n :: u64)) @ zeros (length field - width)"
  using assms by (auto simp: encodeInteger_def zeros_def split: prod.splits if_splits)

lemma length_encodeInteger: "encodeInteger field v width sg = Inr f \<Longrightarrow> length f = length field"
  by (auto elim!: encodeInteger_Inr)

lemma length_encodeField:
  assumes "encodeField enc c field v = Inr f"
  shows "length f = length field"
  using assms
  by (auto simp: encodeField_def Let_def encodeTimeStamp_def encodeCurrency_def encodeFloat_def encodeBool_def
      encodeANSI_def encodeUTF16_def encodeTime_def encodeBytes_def bindR_def
      split: if_splits goval.splits option.splits prod.splits sum.splits
      dest!: length_putParts length_encodeInteger)

section \<open>One column of a record\<close>

definition rowOf :: "layout \<Rightarrow> byte list \<Rightarrow> rowbytes" where
  "rowOf l rec = rowAt l rec 0"

lemma encodeInto_Inr:
  assumes "encodeInto enc l rec col v = Inr rec'"
  obtains f where "0 \<le> col" "col < int (length (columns l))" and "length rec = recordSize l"
    and "length (fieldOffsets l) = length (columns l)" "length (fieldStoreSizes l) = length (columns l)"
    and "length f = fieldStoreSizes l ! nat col" "0 < length f"
    and "nullFlagBytes l + fieldOffsets l ! nat col + length f \<le> length rec"
    and "rec' = flagRecord l col (v = GNil) (splice (nullFlagBytes l + fieldOffsets l ! nat col) f rec)"
    and "v = GNil \<Longrightarrow> f = zeros (length f)"
    and "v \<noteq> GNil \<Longrightarrow> \<not> IsBLOB (columns l ! nat col) \<and> (\<exists>field. length field = length f
           \<and> encodeField enc (columns l ! nat col) field v = Inr f)"
proof -
  let ?c = "columns l ! nat col" and ?o = "nullFlagBytes l + fieldOffsets l ! nat col" and ?n = "fieldStoreSizes l ! nat col"
  have ok: "0 \<le> col" "col < int (length (columns l))" "length rec = recordSize l"
    "length (fieldOffsets l) = length (columns l)" "length (fieldStoreSizes l) = length (columns l)"
    "0 < ?n" "?o + ?n \<le> length rec"
    and run: "(if v = GNil then Inr (flagRecord l col True (splice ?o (zeros ?n) rec))
         else bindR (guardR (\<not> IsBLOB ?c) ErrBlobWrite) (\<lambda>_.
              bindR (encodeField enc ?c (slc ?o (?o + ?n) rec) v) (\<lambda>field.
                Inr (flagRecord l col False (splice ?o field rec))))) = Inr rec'"
    using assms by (auto simp: encodeInto_def checkLayout_def Let_def)
  show thesis
  proof (cases "v = GNil")
    case True
    then show thesis using that [of "zeros ?n"] ok run by simp
  next
    case False
    then obtain f where blob: "\<not> IsBLOB ?c" and f: "encodeField enc ?c (slc ?o (?o + ?n) rec) v = Inr f"
      and rec': "rec' = flagRecord l col False (splice ?o f rec)"
      using run by auto
    have len: "length f = ?n" using length_encodeField [OF f] ok by simp
    show thesis
    proof (rule that [of f])
      show "\<not> IsBLOB ?c \<and> (\<exists>field. length field = length f \<and> encodeField enc ?c field v = Inr f)"
        using blob f len ok by (intro conjI exI [of _ "slc ?o (?o + ?n) rec"]) simp_all
    qed (use False ok len rec' in simp_all)
  qed
qed

text \<open>The null flags and the field data lie in separate stretches of the record.\<close>

lemma row_flagRecord:
  assumes "nullFlagBytes l \<le> length rec"
  shows "nullFlags (rowOf l (flagRecord l col b rec)) = setNullFlag (take (nullFlagBytes l) rec) (nat col) b"
    and "fieldData (rowOf l (flagRecord l col b rec)) = fieldData (rowOf l rec)"
  using assms by (simp_all add: rowOf_def rowAt_def flagRecord_def slc_def)

lemma drop_splice: "n \<le> i \<Longrightarrow> drop n (splice i f xs) = splice (i - n) f (drop n xs)"
  by (intro nth_equalityI) (auto simp: nth_splice add.commute)

lemma take_splice: "n \<le> i \<Longrightarrow> take n (splice i f xs) = take n xs"
  by (intro nth_equalityI) (auto simp: nth_splice)

lemma fieldData_rowOf:
  "nullFlagBytes l + fieldDataSize l = length rec \<Longrightarrow> fieldData (rowOf l rec) = drop (nullFlagBytes l) rec"
  by (simp add: rowOf_def rowAt_def slc_def)

lemma row_splice:
  assumes "nullFlagBytes l + fieldDataSize l = length rec"
  shows "take (nullFlagBytes l) (splice (nullFlagBytes l + off) f rec) = take (nullFlagBytes l) rec"
    and "fieldData (rowOf l (splice (nullFlagBytes l + off) f rec)) = splice off f (fieldData (rowOf l rec))"
  using assms by (simp_all add: fieldData_rowOf drop_splice take_splice)

text \<open>A layout computed from the columns, and a record that fits it.\<close>

lemma computed_record:
  "length rec = recordSize (computeLayout p cols) \<Longrightarrow>
   nullFlagBytes (computeLayout p cols) + fieldDataSize (computeLayout p cols) = length rec"
  by simp

lemma fieldOf_computed:
  assumes "j < length cols" "0 < fieldStoreSize (cols ! j)"
    and "length (fieldData row) = fieldDataSize (computeLayout p cols)"
  shows "fieldOf (computeLayout p cols) row (int j) = Some (slc (fieldOffsets (computeLayout p cols) ! j)
    (fieldOffsets (computeLayout p cols) ! j + fieldStoreSize (cols ! j)) (fieldData row))"
  using assms field_bounds(1) [of j cols p] by (simp add: fieldOf_def Let_def)

lemma encodeInto_row:
  assumes "encodeInto enc (computeLayout p cols) rec col v = Inr rec'"
  obtains f where "0 \<le> col" "nat col < length cols" and "length rec = recordSize (computeLayout p cols)"
    and "length rec' = length rec"
    and "length f = fieldStoreSize (cols ! nat col)" "0 < length f"
    and "nullFlags (rowOf (computeLayout p cols) rec')
           = setNullFlag (nullFlags (rowOf (computeLayout p cols) rec)) (nat col) (v = GNil)"
    and "fieldData (rowOf (computeLayout p cols) rec')
           = splice (fieldOffsets (computeLayout p cols) ! nat col) f (fieldData (rowOf (computeLayout p cols) rec))"
    and "fieldOf (computeLayout p cols) (rowOf (computeLayout p cols) rec') col = Some f"
    and "v = GNil \<Longrightarrow> f = zeros (length f)"
    and "v \<noteq> GNil \<Longrightarrow> \<not> IsBLOB (cols ! nat col) \<and> (\<exists>field. length field = length f
           \<and> encodeField enc (cols ! nat col) field v = Inr f)"
  using assms
proof (cases rule: encodeInto_Inr)
  case (1 f)
  let ?l = "computeLayout p cols" and ?o = "fieldOffsets (computeLayout p cols) ! nat col"
  have lc: "nat col < length cols" using 1(1,2) by simp
  have ok: "nullFlagBytes ?l + fieldDataSize ?l = length rec" by (rule computed_record [OF 1(3)])
  have f: "length f = fieldStoreSize (cols ! nat col)" using 1(6) lc by simp
  note spl = row_splice [OF ok, of ?o f]
  have len: "length (splice (nullFlagBytes ?l + ?o) f rec) = length rec" by simp
  have nb: "nullFlagBytes ?l \<le> length (splice (nullFlagBytes ?l + ?o) f rec)"
    unfolding len using ok by linarith
  have data: "fieldData (rowOf ?l rec') = splice ?o f (fieldData (rowOf ?l rec))"
    unfolding 1(9) row_flagRecord(2) [OF nb] spl(2) ..
  have "nullFlags (rowOf ?l rec) = take (nullFlagBytes ?l) rec"
    by (simp add: rowOf_def rowAt_def slc_def del: computeLayout_simps)
  then have flags: "nullFlags (rowOf ?l rec') = setNullFlag (nullFlags (rowOf ?l rec)) (nat col) (v = GNil)"
    unfolding 1(9) row_flagRecord(1) [OF nb] spl(1) by simp
  have dl: "length (fieldData (rowOf ?l rec)) = fieldDataSize ?l"
    using fieldData_rowOf [OF ok] ok by simp
  have "fieldOf ?l (rowOf ?l rec') (int (nat col)) = Some f"
    using fieldOf_computed [OF lc, of "rowOf ?l rec'" p] 1(7) f data dl field_bounds(1) [OF lc, of p]
    by (simp add: slc_splice_same)
  then have "fieldOf ?l (rowOf ?l rec') col = Some f" using 1(1) by simp
  moreover have "length rec' = length rec" by (simp add: 1(9) flagRecord_def)
  ultimately show thesis
    using that [of f] 1(1,3,7,10,11) lc f flags data by simp
qed

text \<open>Nothing of the other columns changes, nor any flag bit but the column's own.\<close>

lemma encodeInto_frame:
  assumes "encodeInto enc (computeLayout p cols) rec col v = Inr rec'"
  defines "l \<equiv> computeLayout p cols"
  shows "i < 8 * nullFlagBytes l \<Longrightarrow>
      nullFlag (nullFlags (rowOf l rec')) i = (if i = nat col then v = GNil else nullFlag (nullFlags (rowOf l rec)) i)"
    and "j \<noteq> col \<Longrightarrow> fieldOf l (rowOf l rec') j = fieldOf l (rowOf l rec) j"
    and "rowIsNull l (rowOf l rec') j = (if j = col then v = GNil else rowIsNull l (rowOf l rec) j)"
  using assms(1)
proof (atomize (full), cases rule: encodeInto_row)
  case (1 f)
  let ?r = "rowOf l rec" and ?r' = "rowOf l rec'"
  note r = 1 [folded l_def]
  have nfb: "length (nullFlags ?r) = nullFlagBytes l"
    using r(3) by (simp add: rowOf_def rowAt_def l_def)
  have flag: "nullFlag (nullFlags ?r') i = (if i = nat col then v = GNil else nullFlag (nullFlags ?r) i)"
    if "i < 8 * nullFlagBytes l" for i
  proof -
    have "i div 8 < length (nullFlags ?r)" using that by (simp add: nfb div_8_less)
    moreover have "nat col < 8 * length (nullFlags ?r)" unfolding nfb using r(2) by (simp add: l_def)
    ultimately show ?thesis
      using nulls.test_put [of "nat col" "nullFlags ?r" i "v = GNil"] by (auto simp: r(7) div_8_less)
  qed
  have cols8: "length cols \<le> 8 * nullFlagBytes l" by (simp add: l_def)
  have other: "fieldOf l ?r' (int j) = fieldOf l ?r (int j)" if j: "j < length cols" "j \<noteq> nat col" for j
  proof -
    let ?o = "fieldOffsets l ! j" and ?oc = "fieldOffsets l ! nat col"
    have "?o + fieldStoreSize (cols ! j) \<le> ?oc \<or> ?oc + length f \<le> ?o"
      using j r(2,5) field_bounds(2) [of j cols "nat col" p] field_bounds(2) [of "nat col" cols j p]
      unfolding l_def by force
    then have "slc ?o (?o + fieldStoreSize (cols ! j)) (fieldData ?r') = slc ?o (?o + fieldStoreSize (cols ! j)) (fieldData ?r)"
      unfolding r(8) by (rule slc_splice_disjoint)
    then show ?thesis using j(1) r(8) by (simp add: fieldOf_def Let_def l_def)
  qed
  have "fieldOf l ?r' j = fieldOf l ?r j" if "j \<noteq> col" for j
  proof (cases "0 \<le> j \<and> nat j < length cols")
    case True
    then show ?thesis using other [of "nat j"] that r(1) by auto
  next
    case False
    then have "j < 0 \<or> j \<ge> int (length cols)" by auto
    then show ?thesis by (simp add: fieldOf_def l_def)
  qed
  moreover have "rowIsNull l ?r' j = (if j = col then v = GNil else rowIsNull l ?r j)" for j
  proof (cases "0 \<le> j \<and> nat j < length cols")
    case True
    then show ?thesis using flag [of "nat j"] cols8 r(1,2) by (auto simp: rowIsNull_def l_def)
  next
    case False
    then show ?thesis using r(1,2) by (auto simp: rowIsNull_def l_def)
  qed
  ultimately show "(i < 8 * nullFlagBytes l \<longrightarrow>
      nullFlag (nullFlags ?r') i = (if i = nat col then v = GNil else nullFlag (nullFlags ?r) i))
    \<and> (j \<noteq> col \<longrightarrow> fieldOf l ?r' j = fieldOf l ?r j)
    \<and> rowIsNull l ?r' j = (if j = col then v = GNil else rowIsNull l ?r j)"
    using flag by blast
qed

text \<open>C21. An \<open>encodeInto\<close> that succeeds writes one column and nothing else: the record keeps its size, the column's
  null flag says whether the value was nil, a nil value leaves zero bytes, and every other column
  keeps its stored bytes and its null flag.\<close>

theorem encodeInto_writes_one_column:
  assumes "encodeInto enc (computeLayout p cols) rec col v = Inr rec'"
  shows "length rec' = length rec
    \<and> rowIsNull (computeLayout p cols) (rowOf (computeLayout p cols) rec') col = (v = GNil)
    \<and> (v = GNil \<longrightarrow> fieldOf (computeLayout p cols) (rowOf (computeLayout p cols) rec') col
          = Some (replicate (fieldStoreSize (cols ! nat col)) 0))
    \<and> (\<forall>j. j \<noteq> col \<longrightarrow>
          fieldOf (computeLayout p cols) (rowOf (computeLayout p cols) rec') j
            = fieldOf (computeLayout p cols) (rowOf (computeLayout p cols) rec) j
        \<and> rowIsNull (computeLayout p cols) (rowOf (computeLayout p cols) rec') j
            = rowIsNull (computeLayout p cols) (rowOf (computeLayout p cols) rec) j)"
  using assms
proof (cases rule: encodeInto_row)
  case (1 f)
  then show ?thesis using encodeInto_frame(2,3) [OF assms] by (simp add: zeros_def)
qed

text \<open>A record of a logical and a small integer column, the first one true.\<close>

definition pairColumns :: "Column list" where
  "pairColumns = [sampleColumn 65 BftLogical FieldUnknown 0 1, sampleColumn 66 BftInt8 FieldUnknown 0 2]"

abbreviation pairLayout :: layout where "pairLayout \<equiv> computeLayout 100 pairColumns"

lemma pair_layout: "recordSize pairLayout = 4" "nullFlagBytes pairLayout = 1" "columns pairLayout = pairColumns"
  "fieldOffsets pairLayout = [0, 2]" "fieldStoreSizes pairLayout = [2, 1]" "fieldDataSize pairLayout = 3"
  "length pairColumns = 2"
  by (simp_all add: computeLayout_def pairColumns_def sampleColumn_def Let_def
      fieldStoreSize_def fixedFieldStoreSize_def bft_consts)

lemma pair_run: "encodeInto enc pairLayout [0xFC, 1, 0, 0] 1 (GInt (- 2)) = Inr [0xFC, 1, 0, 0xFE]"
proof -
  have c: "columns pairLayout ! 1 = sampleColumn 66 BftInt8 FieldUnknown 0 2" by (simp add: pair_layout pairColumns_def)
  have "encodeField enc (sampleColumn 66 BftInt8 FieldUnknown 0 2) [0] (GInt (- 2)) = Inr [0xFE]"
    by (simp add: encodeField_def sampleColumn_def Let_def bft_consts integerStorage_def encodeInteger_def
        integerValue_def integerBounds_def zeros_def FieldTimeStamp_def FieldUnknown_def)
  moreover have "\<not> IsBLOB (sampleColumn 66 BftInt8 FieldUnknown 0 2)" by (simp add: IsBLOB_def sampleColumn_def bft_consts)
  ultimately show ?thesis
    using c by (simp add: encodeInto_def checkLayout_def pair_layout Let_def slc_def splice_def flagRecord_def
        setNullFlag_def andNotBit_def bitMask_def del: computeLayout_simps)
qed

lemma encodeInto_writes_one_column_witness:
  "encodeInto (\<lambda>s. Some s) pairLayout [0xFC, 1, 0, 0] 1 (GInt (- 2)) = Inr [0xFC, 1, 0, 0xFE]
   \<and> fieldOf pairLayout (rowOf pairLayout [0xFC, 1, 0, 0xFE]) 0 = Some [1, 0]
   \<and> \<not> rowIsNull pairLayout (rowOf pairLayout [0xFC, 1, 0, 0xFE]) 1"
proof -
  have "fieldOf pairLayout (rowOf pairLayout [0xFC, 1, 0, 0]) 0 = Some [1, 0]"
    by (simp add: fieldOf_def rowOf_def rowAt_def pair_layout slc_def Let_def del: computeLayout_simps)
  with encodeInto_writes_one_column [OF pair_run] show ?thesis
    by (simp add: pair_run)
qed

end
