(* ===== verification/Alter.thy ===== *)
theory Alter
  imports Encode_Props
begin

text \<open>
  The rewriting of a table's data pages under a new schema (\<open>ddl_alter.go\<close>): every record is
  decoded to Go values, the values are changed, and the record is encoded into the same slot.
\<close>

section \<open>Values of a stored record\<close>

definition decodeColumnValue ::
    "(byte list \<Rightarrow> byte list option) \<Rightarrow> layout \<Rightarrow> Column \<Rightarrow> rowbytes \<Rightarrow> nat \<Rightarrow> goval result" where
  "decodeColumnValue dec l c rec col =
     (let t = BaseType c; i = int col in
      if t = BftCurrency then Inr (GFloat64 (rowFloat l rec i))
      else if t \<in> {BftInt8, BftUint8, BftInt16, BftUint16, BftInt32, BftUint32, BftInt64}
      then Inr (GInt (intValue l rec i))
      else if t = BftSingle \<or> t = BftDouble then Inr (GFloat64 (rowFloat l rec i))
      else if t = BftLogical then Inr (GBool (rowBool l rec i))
      else if t \<in> {BftChar, BftVarchar, BftWideChar, BftWideVarchar} then Inr (GString (rowString dec l rec i))
      else if t \<in> {BftDate, BftTime, BftDateTime} then Inr (GTime (rowTime l rec i))
      else if t = BftBytes then Inr (GBytes (case rowBytes l rec i of None \<Rightarrow> [] | Some b \<Rightarrow> b))
      else Inl ErrColumnNotWritable)"

fun decodeColumns ::
    "(byte list \<Rightarrow> byte list option) \<Rightarrow> layout \<Rightarrow> rowbytes \<Rightarrow> nat \<Rightarrow> Column list \<Rightarrow> goval list result" where
  "decodeColumns dec l rec i [] = Inr []"
| "decodeColumns dec l rec i (c # cs) =
     bindR (if rowIsNull l rec (int i) then Inr GNil else decodeColumnValue dec l c rec i) (\<lambda>v.
     bindR (decodeColumns dec l rec (i + 1) cs) (\<lambda>vs. Inr (v # vs)))"

definition decodeRowValues ::
    "(byte list \<Rightarrow> byte list option) \<Rightarrow> layout \<Rightarrow> rowbytes \<Rightarrow> goval list result" where
  "decodeRowValues dec l rec = decodeColumns dec l rec 0 (columns l)"

section \<open>One data page\<close>

text \<open>\<open>recordSlotStart\<close> is \<open>recordStart\<close> over an explicit payload.\<close>

definition recordSlotStart :: "layout \<Rightarrow> byte list \<Rightarrow> nat \<Rightarrow> nat option" where
  "recordSlotStart l payload slot =
     (if slot \<ge> recsPerPage l \<or> recordSize l = 0 then None
      else if \<not> bitSet payload (int slot) (bitmapBytes l) then None
      else let start = bitmapBytes l + slot * recordSize l in
        if start + recordSize l > length payload then None else Some start)"

definition slotRow :: "layout \<Rightarrow> byte list \<Rightarrow> nat \<Rightarrow> rowbytes" where
  "slotRow l payload start = \<lparr>nullFlags = slc start (start + nullFlagBytes l) payload,
     fieldData = slc (start + nullFlagBytes l) (start + recordSize l) payload\<rparr>"

record codec =
  ansiEncode :: "byte list \<Rightarrow> byte list option"
  ansiDecode :: "byte list \<Rightarrow> byte list option"

fun rewriteSlots ::
    "codec \<Rightarrow> layout \<Rightarrow> layout \<Rightarrow> (goval list \<Rightarrow> goval list) \<Rightarrow> byte list \<Rightarrow> nat list \<Rightarrow> byte list \<Rightarrow> byte list result" where
  "rewriteSlots cd old new transform oldPayload [] newPayload = Inr newPayload"
| "rewriteSlots cd old new transform oldPayload (slot # slots) newPayload =
     (case recordSlotStart old oldPayload slot of
        None \<Rightarrow> rewriteSlots cd old new transform oldPayload slots newPayload
      | Some start \<Rightarrow>
          bindR (decodeRowValues (ansiDecode cd) old (slotRow old oldPayload start)) (\<lambda>oldValues.
          bindR (encodeRecord (ansiEncode cd) new (transform oldValues)) (\<lambda>newRec.
            let newStart = bitmapBytes new + slot * recordSize new in
            if slot \<ge> recsPerPage new \<or> newStart + recordSize new > length newPayload then Inl ErrRecordWontFit
            else rewriteSlots cd old new transform oldPayload slots
                   (setBit (splice newStart newRec newPayload) (int slot) (bitmapBytes new)))))"

definition rewriteDataPage ::
    "codec \<Rightarrow> layout \<Rightarrow> layout \<Rightarrow> (goval list \<Rightarrow> goval list) \<Rightarrow> byte list \<Rightarrow> byte list result" where
  "rewriteDataPage cd old new transform oldPayload =
     rewriteSlots cd old new transform oldPayload [0..<recsPerPage old] (zeros (length oldPayload))"

section \<open>Columns of the new schema\<close>

definition addColumnAt :: "Column \<Rightarrow> Column list \<Rightarrow> Column list" where
  "addColumnAt c cols = cols @ [c\<lparr>Position := length cols\<rparr>]"

fun renumber :: "nat \<Rightarrow> Column list \<Rightarrow> Column list" where
  "renumber n [] = []"
| "renumber n (c # cs) = c\<lparr>Position := n\<rparr> # renumber (n + 1) cs"

definition dropColumnAt :: "Column list \<Rightarrow> nat \<Rightarrow> Column list" where
  "dropColumnAt cols dropIdx = renumber 0 (take dropIdx cols @ drop (dropIdx + 1) cols)"

text \<open>The value transformations that \<open>AddColumn\<close> and \<open>DropColumn\<close> hand to the rewrite.\<close>

definition addNull :: "goval list \<Rightarrow> goval list" where "addNull vs = vs @ [GNil]"

definition dropValue :: "nat \<Rightarrow> goval list \<Rightarrow> goval list" where
  "dropValue i vs = take i vs @ drop (i + 1) vs"

section \<open>Decoding what was encoded\<close>

text \<open>The value a column holds after a value was stored in it, as the accessors give it back.\<close>

definition storedValue :: "Column \<Rightarrow> goval \<Rightarrow> goval" where
  "storedValue c v =
     (if BaseType c \<in> {BftCurrency, BftSingle, BftDouble}
      then GFloat64 (case floatValue v of Some f \<Rightarrow> f | None \<Rightarrow> f64OfInt (fst (integerValue v)))
      else case v of
        GUint x \<Rightarrow> GInt (uint x)
      | GBytes b \<Rightarrow> GBytes (b @ zeros (unat (Size c) + 1 - length b))
      | GTime t \<Rightarrow> GTime (if FieldType c = FieldTimeStamp \<and> IsZero t then zeroTime else t\<lparr>zoneOffset := 0\<rparr>)
      | _ \<Rightarrow> v)"

lemma take_bit_u64: "word_of_nat (unat (w :: u64) mod 2 ^ k) = take_bit k w"
  by (simp add: take_bit_nat_def [symmetric] unsigned_take_bit_eq [symmetric])

lemma sign_extend:
  fixes n :: int
  assumes "0 < k" "k \<le> 64" and "- (2 ^ (k - 1)) \<le> n" "n < 2 ^ (k - 1)"
  defines "v \<equiv> take_bit k (word_of_int n :: u64)"
  shows "(if v AND push_bit (k - 1) 1 \<noteq> 0 then v OR push_bit k (- 1) else v) = word_of_int n"
proof -
  have fix': "signed_take_bit (k - 1) n = n" using assms(3,4) by (simp add: signed_take_bit_int_eq_self_iff)
  have hi: "bit n i = bit n (k - 1)" if "k - 1 \<le> i" for i
    using bit_signed_take_bit_iff [of "k - 1" n i] that fix' by (simp add: min_absorb1)
  have "k - 1 < 64" "k - 1 < k" using assms(1,2) by linarith+
  then have top: "v AND push_bit (k - 1) 1 \<noteq> 0 \<longleftrightarrow> bit n (k - 1)"
    unfolding bit_iff_and_push_bit_not_eq_0 [symmetric] by (simp add: v_def bit_simps)
  have "bit (if bit n (k - 1) then v OR push_bit k (- 1) else v) i = bit (word_of_int n :: u64) i" if "i < 64" for i
    using that hi [of i] assms(1) by (cases "i < k") (auto simp: v_def bit_simps)
  then show ?thesis unfolding top by (intro bit_word_eqI) simp
qed

lemma sint_u64: "- (2 ^ 63) \<le> n \<Longrightarrow> n < 2 ^ 63 \<Longrightarrow> sint (word_of_int n :: u64) = n"
  by (simp add: int_word_sint)

lemma integer_roundtrip:
  assumes "encodeInteger field v width sg = Inr f" and "length field = width" and "width \<in> {1, 2, 4, 8}"
    and "width = 8 \<longrightarrow> sg"
  shows "decodeIntegerLE f sg = fst (integerValue v)"
  using assms(1)
proof (rule encodeInteger_Inr)
  fix n low high
  assume v: "integerValue v = (n, True, True)" and b: "integerBounds width sg = (low, high)" "low \<le> n" "n \<le> high"
    and f: "f = putUintLE width (unat (word_of_int n :: u64)) @ zeros (length field - width)"
  let ?k = "width * 8"
  have k: "0 < ?k" "?k \<le> 64" using assms(3) by auto
  have len: "length f = width" using assms(2) by (simp add: f zeros_def)
  have "(256 :: nat) ^ width = 2 ^ ?k" using power_mult [of "2 :: nat" 8 width] by (simp add: mult.commute)
  then have le: "word_of_nat (le_val f) = take_bit ?k (word_of_int n :: u64)"
    using assms(2) by (simp add: f zeros_def take_bit_u64)
  show ?thesis
  proof (cases sg)
    case True
    then have rng: "- (2 ^ (?k - 1)) \<le> n" "n < 2 ^ (?k - 1)"
      using b assms(3) by (auto simp: integerBounds_def Let_def)
    have "(2 :: int) ^ (?k - 1) \<le> 2 ^ 63" using k by (intro power_increasing) auto
    then have s: "sint (word_of_int n :: u64) = n" using rng by (intro sint_u64) linarith+
    show ?thesis
    proof (cases "width = 8")
      case True
      then have "take_bit ?k (word_of_int n :: u64) = word_of_int n" by (intro bit_word_eqI) (simp add: bit_simps)
      then show ?thesis using len le s True v by (simp add: decodeIntegerLE_def Let_def)
    next
      case False
      then have "length f < 8" using assms(3) len by auto
      then show ?thesis
        using sign_extend [OF k rng] len le s \<open>sg\<close> v
        by (simp add: decodeIntegerLE_def Let_def split: if_splits)
    qed
  next
    case False
    then have w: "width < 8" "0 \<le> n" "n < 2 ^ ?k" using b assms(3,4) by (auto simp: integerBounds_def Let_def)
    have "take_bit ?k n = n" using w by (simp add: take_bit_int_eq_self_iff)
    then have "bit n i \<Longrightarrow> i < ?k" for i by (metis bit_take_bit_iff)
    then have "take_bit ?k (word_of_int n :: u64) = word_of_int n"
      by (intro bit_word_eqI) (auto simp: bit_simps)
    moreover have "(2 :: int) ^ ?k \<le> 2 ^ 63" using w(1) by (intro power_increasing) auto
    then have "sint (word_of_int n :: u64) = n" using w by (intro sint_u64) linarith+
    ultimately show ?thesis using False le v by (simp add: decodeIntegerLE_def Let_def)
  qed
qed

lemma drop_zeros: "drop k (zeros n) = zeros (n - k)" by (simp add: zeros_def)

text \<open>Text.\<close>

lemma takeWhile_text: "0 \<notin> set t \<Longrightarrow> takeWhile (\<lambda>b. b \<noteq> 0) (t @ zeros n) = (t :: byte list)"
  by (induction t) (simp_all add: zeros_def takeWhile_replicate)

lemma utf16Raw_zeros [simp]: "utf16Raw (zeros n) = []"
  unfolding zeros_def by (induction n rule: nat_induct2) (simp_all add: numeral_2_eq_2 getU16_def slc_def)

lemma utf16Raw_text:
  "\<forall>u \<in> set units. 0 < u \<and> u < 65536 \<Longrightarrow>
   utf16Raw (concat (map (\<lambda>u. leU16 (word_of_nat u)) units) @ zeros n) = units"
proof (induction units)
  case (Cons u units)
  have "length (leU16 (word_of_nat u)) = 2" by simp
  then obtain a b where ab: "leU16 (word_of_nat u) = [a, b]"
    by (metis (no_types) One_nat_def Suc_1 length_0_conv length_Suc_conv)
  then have "getU16 [a, b] 0 = word_of_nat u" using get_leU(1) [of "word_of_nat u"] by simp
  moreover have "unat (word_of_nat u :: u16) = u" using Cons.prems by (simp add: unat_of_nat)
  ultimately show ?case using Cons ab by (simp add: Let_def)
qed simp

lemma text_roundtrip:
  assumes law: "\<And>s t. ansiEncode cd s = Some t \<Longrightarrow> ansiDecode cd t = Some s"
  shows "encodeANSI (ansiEncode cd) field (GString s) = Inr f \<Longrightarrow> ansiEncode cd [] = Some [] \<Longrightarrow> decodeANSI (ansiDecode cd) f = s"
    and "encodeUTF16 field (GString s) = Inr f \<Longrightarrow> decodeUTF16 f = s"
proof -
  assume empty: "ansiEncode cd [] = Some []" and "encodeANSI (ansiEncode cd) field (GString s) = Inr f"
  then obtain t where t: "ansiEncode cd s = Some t" "0 \<notin> set t" "length t < length field"
    and f: "f = t @ zeros (length field - length t)"
    by (auto simp: encodeANSI_def zeros_def split: option.splits if_splits)
  then show "decodeANSI (ansiDecode cd) f = s"
    using law [OF t(1)] law [OF empty] by (auto simp: decodeANSI_def takeWhile_text)
next
  assume "encodeUTF16 field (GString s) = Inr f"
  then obtain rs where rs: "utf8Runes s = Some rs" and nz: "0 \<notin> set (utf16Encode rs)"
    and fits: "(length (utf16Encode rs) + 1) * 2 \<le> length field"
    and f: "f = splice 0 (concat (map (\<lambda>u. leU16 (word_of_nat u)) (utf16Encode rs))) (zeros (length field))"
    by (auto simp: encodeUTF16_def Let_def split: option.splits if_splits)
  note rt = utf8_roundtrip [OF rs]
  have len: "length (concat (map (\<lambda>u. leU16 (word_of_nat u)) us)) = 2 * length us" for us
    by (induction us) simp_all
  have "f = concat (map (\<lambda>u. leU16 (word_of_nat u)) (utf16Encode rs)) @ zeros (length field - 2 * length (utf16Encode rs))"
    using f fits len [of "utf16Encode rs"] by (simp add: zeros_def)
  moreover have "\<forall>u \<in> set (utf16Encode rs). 0 < u \<and> u < 65536"
    using nz utf16Encode_range [of rs] rt by (auto intro: gr0I)
  ultimately have raw: "utf16Raw f = utf16Encode rs" by (simp add: utf16Raw_text)
  have "utf8String (utf16Decode (utf16Encode rs)) = s" using rt by (simp add: utf16_roundtrip)
  then show "decodeUTF16 f = s"
    unfolding decodeUTF16_def Let_def raw by (auto simp: utf8String_def)
qed

text \<open>Dates and times: a day number and a count of milliseconds fit 32 bits.\<close>

lemma put32: "putUintLE 4 (unat (word_of_int n :: u64)) = leU32 (word_of_int n)"
proof -
  have "unat (word_of_int n :: u32) = nat (n mod 2 ^ 32)" "unat (word_of_int n :: u64) = nat (n mod 2 ^ 64)"
    by (simp_all add: unat_eq_nat_uint uint_word_of_int)
  moreover have "nat (n mod 2 ^ 64) mod 2 ^ 32 = nat (n mod 2 ^ 32)"
  proof -
    have "nat (n mod 2 ^ 64) mod 2 ^ 32 = nat (n mod 2 ^ 64 mod 2 ^ 32)"
      using nat_mod_distrib [of "n mod 2 ^ 64" "2 ^ 32"] by (simp add: nat_power_eq)
    then show ?thesis by (simp add: mod_mod_cancel)
  qed
  ultimately have "unat (word_of_int n :: u32) = unat (word_of_int n :: u64) mod 256 ^ 4" by simp
  then have "le_val (leU32 (word_of_int n)) = le_val (putUintLE 4 (unat (word_of_int n :: u64)))"
    by (simp add: leU32_def)
  then show ?thesis by (intro le_val_inj) simp_all
qed

lemma sint_u32: "- (2 ^ 31) \<le> n \<Longrightarrow> n < 2 ^ 31 \<Longrightarrow> sint (word_of_int n :: u32) = n"
  by (simp add: int_word_sint)

lemma encodeInteger_days:
  assumes "encodeInteger field (GInt n) 4 True = Inr f" and "length field = 4"
  shows "f = leU32 (word_of_int n)" and "sint (word_of_int n :: u32) = n"
proof -
  obtain low high where b: "integerBounds 4 True = (low, high)" "low \<le> n" "n \<le> high"
    and f: "f = putUintLE 4 (unat (word_of_int n :: u64)) @ zeros (length field - 4)"
    using assms(1) by (rule encodeInteger_Inr) (auto simp: integerValue_def)
  show "f = leU32 (word_of_int n)" using f assms(2) by (simp add: zeros_def put32)
  have "integerBounds 4 True = (- (2 ^ 31), 2 ^ 31 - 1)" by (simp add: integerBounds_def)
  then show "sint (word_of_int n :: u32) = n" using b by (intro sint_u32) auto
qed

text \<open>What \<open>Record.Time\<close> reads from the bytes of a time column.\<close>

definition timeField :: "Column \<Rightarrow> byte list \<Rightarrow> gotime" where
  "timeField c bs =
     (if FieldType c = FieldTimeStamp then timeStampToTime bs
      else if BaseType c = BftDate then delphiDateToTime (sint (getU32 bs 0))
      else if BaseType c = BftTime then delphiTimeToTime (sint (getU32 bs 0))
      else goAdd (sint (getU32 bs 4) * 10 ^ 6) (delphiDateToTime (sint (getU32 bs 0))))"

lemma encodeTime_roundtrip:
  assumes "encodeTime (BaseType c) field (GTime t) = Inr f" and "FieldType c \<noteq> FieldTimeStamp"
    and "length field = (if BaseType c = BftDate \<or> BaseType c = BftTime then 4 else 8)"
  shows "timeField c f = t\<lparr>zoneOffset := 0\<rparr>"
proof -
  obtain days ms where days: "delphiDate t = Inr days" and ms: "delphiTimeOfDay t = Inr ms"
    using assms(1) by (auto simp: encodeTime_def)
  note db = delphi_back [OF days ms]
  have differ: "BftDate \<noteq> BftTime" by (simp add: bft_consts)
  consider "BaseType c = BftDate" | "BaseType c = BftTime" | "BaseType c \<noteq> BftDate" "BaseType c \<noteq> BftTime" by blast
  then show ?thesis
  proof cases
    case 1
    then have "ms = 0" and e: "encodeInteger field (GInt days) 4 True = Inr f"
      using assms(1) days ms by (auto simp: encodeTime_def split: if_splits)
    then show ?thesis using db(3) encodeInteger_days [OF e] assms(2,3) 1 by (simp add: timeField_def)
  next
    case 2
    then have "days = 1" and e: "encodeInteger field (GInt ms) 4 True = Inr f"
      using assms(1) days ms differ by (auto simp: encodeTime_def split: if_splits)
    then show ?thesis using db(2) encodeInteger_days [OF e] assms(2,3) 2 differ by (simp add: timeField_def)
  next
    case 3
    then have len: "length field = 8" using assms(3) by simp
    obtain d m where d: "encodeInteger (slc 0 4 field) (GInt days) 4 True = Inr d"
      and m: "encodeInteger (slc 4 8 field) (GInt ms) 4 True = Inr m" and f: "f = splice 0 (d @ m) field"
      using assms(1) 3 days ms len by (auto simp: encodeTime_def)
    note dd = encodeInteger_days [OF d] and mm = encodeInteger_days [OF m]
    have f': "f = leU32 (word_of_int days) @ leU32 (word_of_int ms)" using f dd(1) mm(1) len by simp
    have "getU32 f 0 = word_of_int days" "getU32 f 4 = word_of_int ms"
      by (simp_all add: f' get_append)
    then show ?thesis using db(1) dd(2) mm(2) len assms(2) 3 by (simp add: timeField_def)
  qed
qed

lemma u16_of_int: "0 \<le> n \<Longrightarrow> n < 65536 \<Longrightarrow> int (unat (word_of_int n :: u16)) = n"
  by (simp add: uint_word_of_int)

lemma encodeTimeStamp_roundtrip:
  assumes "encodeTimeStamp field (GTime t) = Inr f" and "length field = 8" and "time_ok t"
  shows "timeStampToTime f = (if IsZero t then zeroTime else t\<lparr>zoneOffset := 0\<rparr>)"
proof (cases "IsZero t")
  case True
  then have "f = zeros 8" using assms(1,2) by (auto simp: encodeTimeStamp_def timeStampSize_def zeros_def)
  then have "getU16 f 0 = 0" by (simp add: zeros_def getU16_def slc_def numeral_eq_Suc)
  then show ?thesis using True by (simp add: timeStampToTime_def)
next
  case False
  obtain y m d where date: "goDate t = (y, m, d)" by (cases "goDate t")
  have flat: "goMinute t = 0" "goSecond t = 0" "goNano t = 0" and y: "1 \<le> y" "y \<le> 9999"
    and put: "putParts [y, int m, d, goHour t] 0 field = Inr f"
    using assms(1,2) False date by (auto simp: encodeTimeStamp_def timeStampSize_def split: if_splits)
  note v = civilOf_valid [OF date [unfolded goDate_def]]
  have ns: "goHour t * (3600 * 10 ^ 9) = wallNs t" using time_parts [of t] flat by simp
  have h: "0 \<le> goHour t" "goHour t \<le> 23" using ns assms(3) by (auto simp: time_ok_def nsPerDay_def)
  have f: "f = splice 6 (leU16 (word_of_int (goHour t))) (splice 4 (leU16 (word_of_int d))
      (splice 2 (leU16 (word_of_int (int m))) (splice 0 (leU16 (word_of_int y)) field)))"
    using put y v h by (simp del: length_splice drop_splice_0 split: if_splits)
  have get: "getU16 f 0 = word_of_int y" "getU16 f 2 = word_of_int (int m)" "getU16 f 4 = word_of_int d"
    "getU16 f 6 = word_of_int (goHour t)"
    unfolding f using assms(2) by (simp_all add: get_splice_disjoint get_append)
  have nums: "int (unat (getU16 f 0)) = y" "int (unat (getU16 f 2)) = int m" "int (unat (getU16 f 4)) = d"
    "int (unat (getU16 f 6)) = goHour t"
    unfolding get using y v h by (intro u16_of_int; simp)+
  have "civilDays y m d = wallDay t" using civilDays_civilOf [OF date [unfolded goDate_def]] .
  then have "zeroTime\<lparr>wallDay := civilDays y (nat (int m)) d, wallNs := goHour t * (3600 * 10 ^ 9)\<rparr> = t\<lparr>zoneOffset := 0\<rparr>"
    using ns by (simp add: zeroTime_def)
  moreover have "goDate (t\<lparr>zoneOffset := 0\<rparr>) = (y, m, d)" using date by (simp add: goDate_def)
  ultimately show ?thesis
    using y v h False unfolding timeStampToTime_def nums Let_def by (simp del: of_nat_le_iff)
qed

text \<open>The codec round trip of one field, whatever its type.\<close>

definition lawful_codec :: "codec \<Rightarrow> bool" where
  "lawful_codec cd \<longleftrightarrow> ansiEncode cd [] = Some []
     \<and> (\<forall>s t. ansiEncode cd s = Some t \<longrightarrow> ansiDecode cd t = Some s)"

lemma fieldPrefix_of: "fieldOf l row col = Some f \<Longrightarrow> length f = w \<Longrightarrow> fieldPrefix l row col w = Some f"
  by (simp add: fieldPrefix_def)

lemma float_field:
  assumes "encodeField enc c field v = Inr f" and "length field = fieldStoreSize c"
    and "BaseType c \<in> {BftCurrency, BftSingle, BftDouble}" and "FieldType c \<noteq> FieldTimeStamp"
    and "\<And>w. BaseType c = BftSingle \<Longrightarrow> floatValue v = Some w \<Longrightarrow> \<not> isNaN64 w"
  shows "storedValue c v = GFloat64 (if BaseType c = BftSingle then widen32 (getU32 f 0) else getU64 f 0)"
    and "length f = (if BaseType c = BftSingle then 4 else 8)"
proof -
  let ?f = "case floatValue v of Some f \<Rightarrow> f | None \<Rightarrow> f64OfInt (fst (integerValue v))"
  have stored: "storedValue c v = GFloat64 ?f" using assms(3) by (simp add: storedValue_def)
  have sz: "length field = (if BaseType c = BftSingle then 4 else 8)"
    using assms(2,3) by (auto simp: fieldStoreSize_def fixedFieldStoreSize_def bft_consts)
  show "length f = (if BaseType c = BftSingle then 4 else 8)" using length_encodeField [OF assms(1)] sz by simp
  show "storedValue c v = GFloat64 (if BaseType c = BftSingle then widen32 (getU32 f 0) else getU64 f 0)"
  proof (cases "BaseType c = BftSingle")
    case True
    then have "encodeFloat field v = Inr f" using assms(1,4) by (simp add: encodeField_def Let_def bft_consts)
    then obtain w s where "floatValue v = Some w" "narrow64 w = Some s" "f = leU32 s"
      using sz True by (auto simp: encodeFloat_def split: option.splits)
    then show ?thesis using stored narrow64_widen [of w s] assms(5) True by simp
  next
    case False
    then have "encodeCurrency field v = Inr f \<or> encodeFloat field v = Inr f"
      using assms(1,3,4) by (auto simp: encodeField_def Let_def bft_consts)
    then have "f = leU64 ?f"
      using sz False by (auto simp: encodeCurrency_def encodeFloat_def split: option.splits prod.splits if_splits)
    then show ?thesis using stored False by simp
  qed
qed

lemma plain_field:
  assumes enc: "encodeField enc c field v = Inr f" and len: "length field = fieldStoreSize c"
    and nts: "FieldType c \<noteq> FieldTimeStamp"
  shows "BaseType c = BftLogical \<Longrightarrow> v = GBool (getU16 f 0 \<noteq> 0) \<and> length f = 2"
    and "integerStorage c = Some (w, sg) \<Longrightarrow> decodeIntegerLE f sg = fst (integerValue v) \<and> length f = w
      \<and> (\<exists>n. v = GInt n \<or> (\<exists>x. v = GUint x \<and> fst (integerValue v) = uint x))"
    and "BaseType c = BftBytes \<Longrightarrow> \<exists>b. v = GBytes b \<and> f = b @ zeros (unat (Size c) + 1 - length b) \<and> length b \<le> unat (Size c)"
proof -
  note lf = length_encodeField [OF enc]
  show "v = GBool (getU16 f 0 \<noteq> 0) \<and> length f = 2" if t: "BaseType c = BftLogical"
  proof -
    have sz: "length field = 2" using len t by (simp add: fieldStoreSize_def fixedFieldStoreSize_def bft_consts)
    then obtain b where v: "v = GBool b" and f: "f = (zeros 2)[0 := of_bool b]"
      using enc nts t by (auto simp: encodeField_def Let_def bft_consts encodeBool_def split: goval.splits)
    have "f = [of_bool b, 0]" by (simp add: f zeros_def numeral_2_eq_2)
    then show ?thesis using v by (cases b) (simp_all add: getU16_def slc_def)
  qed
  show "decodeIntegerLE f sg = fst (integerValue v) \<and> length f = w
      \<and> (\<exists>n. v = GInt n \<or> (\<exists>x. v = GUint x \<and> fst (integerValue v) = uint x))" if st: "integerStorage c = Some (w, sg)"
  proof -
    have e: "encodeInteger field v w sg = Inr f"
      using enc nts st by (auto simp: encodeField_def Let_def integerStorage_def bft_consts split: if_splits)
    have "decodeIntegerLE f sg = fst (integerValue v)"
      using integerStorage_size [OF st] len by (intro integer_roundtrip [OF e]) auto
    moreover have "\<exists>n. v = GInt n \<or> (\<exists>x. v = GUint x \<and> fst (integerValue v) = uint x)"
      using e by (cases v) (auto simp: encodeInteger_def integerValue_def unsignedValue_def split: if_splits)
    ultimately show ?thesis using lf len integerStorage_size [OF st] by simp
  qed
  show "\<exists>b. v = GBytes b \<and> f = b @ zeros (unat (Size c) + 1 - length b) \<and> length b \<le> unat (Size c)"
    if t: "BaseType c = BftBytes"
  proof -
    have sz: "length field = unat (Size c) + 1" using len t by (simp add: fieldStoreSize_def fixedFieldStoreSize_def bft_consts)
    then show ?thesis
      using enc nts t by (auto simp: encodeField_def Let_def bft_consts encodeBytes_def drop_zeros split: goval.splits if_splits)
  qed
qed

lemma text_field:
  assumes enc: "encodeField (ansiEncode cd) c field v = Inr f" and nts: "FieldType c \<noteq> FieldTimeStamp"
    and law: "lawful_codec cd"
  shows "BaseType c \<in> {BftChar, BftVarchar} \<Longrightarrow> v = GString (decodeANSI (ansiDecode cd) f)"
    and "BaseType c \<in> {BftWideChar, BftWideVarchar} \<Longrightarrow> v = GString (decodeUTF16 f)"
proof -
  have laws: "\<And>s t. ansiEncode cd s = Some t \<Longrightarrow> ansiDecode cd t = Some s" "ansiEncode cd [] = Some []"
    using law by (auto simp: lawful_codec_def)
  show "v = GString (decodeANSI (ansiDecode cd) f)" if t: "BaseType c \<in> {BftChar, BftVarchar}"
  proof -
    have e: "encodeANSI (ansiEncode cd) field v = Inr f"
      using enc nts t by (auto simp: encodeField_def Let_def bft_consts)
    then obtain s where "v = GString s" by (auto simp: encodeANSI_def split: goval.splits)
    with text_roundtrip(1) [of cd, OF laws(1)] e laws(2) show ?thesis by blast
  qed
  show "v = GString (decodeUTF16 f)" if t: "BaseType c \<in> {BftWideChar, BftWideVarchar}"
  proof -
    have e: "encodeUTF16 field v = Inr f"
      using enc nts t by (auto simp: encodeField_def Let_def bft_consts)
    then obtain s where "v = GString s" by (auto simp: encodeUTF16_def split: goval.splits)
    with text_roundtrip(2) [of cd, OF laws(1)] e show ?thesis by blast
  qed
qed

lemma time_field:
  assumes enc: "encodeField (ansiEncode cd) c field v = Inr f" and len: "length field = fieldStoreSize c"
    and t: "BaseType c \<in> {BftDate, BftTime, BftDateTime}"
    and stamp: "FieldType c = FieldTimeStamp \<longrightarrow> BaseType c = BftDateTime" and v: "goval_ok v"
  shows "storedValue c v = GTime (timeField c f)"
    and "length f = (if BaseType c = BftDate \<or> BaseType c = BftTime then 4 else 8)"
proof -
  have sz: "length field = (if BaseType c = BftDate \<or> BaseType c = BftTime then 4 else 8)"
    using len t by (auto simp: fieldStoreSize_def fixedFieldStoreSize_def bft_consts)
  show "length f = (if BaseType c = BftDate \<or> BaseType c = BftTime then 4 else 8)"
    using length_encodeField [OF enc] sz by simp
  have nf: "BaseType c \<notin> {BftCurrency, BftSingle, BftDouble}" using t by (auto simp: bft_consts)
  show "storedValue c v = GTime (timeField c f)"
  proof (cases "FieldType c = FieldTimeStamp")
    case True
    then have e: "encodeTimeStamp field v = Inr f" and "length field = 8"
      using enc sz stamp by (auto simp: encodeField_def Let_def bft_consts)
    moreover from e obtain x where x: "v = GTime x" by (auto simp: encodeTimeStamp_def split: goval.splits)
    ultimately have "timeStampToTime f = (if IsZero x then zeroTime else x\<lparr>zoneOffset := 0\<rparr>)"
      using v encodeTimeStamp_roundtrip [of field x f] by (simp add: goval_ok_def)
    then show ?thesis using True nf x by (simp add: storedValue_def timeField_def)
  next
    case False
    then have e: "encodeTime (BaseType c) field v = Inr f"
      using enc t by (auto simp: encodeField_def Let_def bft_consts)
    then obtain x where x: "v = GTime x" by (auto simp: encodeTime_def split: goval.splits)
    with e have "timeField c f = x\<lparr>zoneOffset := 0\<rparr>"
      using encodeTime_roundtrip [of c field x f] False sz by simp
    then show ?thesis using False nf x by (simp add: storedValue_def)
  qed
qed

lemma decode_of_field:
  assumes "columns l ! j = c" "j < length (columns l)" and at: "fieldOf l row (int j) = Some f" "0 < length f"
  shows "BaseType c \<in> {BftCurrency, BftSingle, BftDouble} \<Longrightarrow> length f = (if BaseType c = BftSingle then 4 else 8) \<Longrightarrow>
      decodeColumnValue dec l c row j = Inr (GFloat64 (if BaseType c = BftSingle then widen32 (getU32 f 0) else getU64 f 0))"
    and "integerStorage c = Some (w, sg) \<Longrightarrow> length f = w \<Longrightarrow> decodeColumnValue dec l c row j = Inr (GInt (decodeIntegerLE f sg))"
    and "BaseType c = BftLogical \<Longrightarrow> length f = 2 \<Longrightarrow> decodeColumnValue dec l c row j = Inr (GBool (getU16 f 0 \<noteq> 0))"
    and "BaseType c \<in> {BftChar, BftVarchar} \<Longrightarrow> decodeColumnValue dec l c row j = Inr (GString (decodeANSI dec f))"
    and "BaseType c \<in> {BftWideChar, BftWideVarchar} \<Longrightarrow> decodeColumnValue dec l c row j = Inr (GString (decodeUTF16 f))"
    and "BaseType c \<in> {BftDate, BftTime, BftDateTime} \<Longrightarrow> FieldType c = FieldTimeStamp \<longrightarrow> BaseType c = BftDateTime \<Longrightarrow>
      length f = (if BaseType c = BftDate \<or> BaseType c = BftTime then 4 else 8) \<Longrightarrow>
      decodeColumnValue dec l c row j = Inr (GTime (timeField c f))"
    and "BaseType c = BftBytes \<Longrightarrow> decodeColumnValue dec l c row j = Inr (GBytes f)"
proof -
  show "decodeColumnValue dec l c row j = Inr (GInt (decodeIntegerLE f sg))"
    if st: "integerStorage c = Some (w, sg)" and w: "length f = w"
  proof -
    have "BaseType c \<noteq> BftCurrency \<and> BaseType c \<in> {BftInt8, BftUint8, BftInt16, BftUint16, BftInt32, BftUint32, BftInt64}"
      using st by (auto simp: integerStorage_def Let_def bft_consts split: if_splits)
    then have "decodeColumnValue dec l c row j = Inr (GInt (intValue l row (int j)))"
      by (simp add: decodeColumnValue_def Let_def)
    moreover have "intValue l row (int j) = decodeIntegerLE f sg"
      using assms st fieldPrefix_of [OF at(1) w] by (simp add: intValue_def)
    ultimately show ?thesis by simp
  qed
qed (use assms in \<open>auto simp: decodeColumnValue_def rowFloat_def Let_def bft_consts fieldPrefix_of
      rowBool_def rowString_def rowTime_def timeField_def timeStampSize_def rowBytes_def split: if_splits\<close>)

text \<open>Bytes columns apart, every value that was stored reads back.\<close>

lemma column_roundtrip:
  assumes enc: "encodeInto (ansiEncode cd) (computeLayout p cols) rec (int j) v = Inr rec'" and nz: "v \<noteq> GNil"
    and law: "lawful_codec cd" and stamp: "FieldType (cols ! j) = FieldTimeStamp \<longrightarrow> BaseType (cols ! j) = BftDateTime"
    and v: "goval_ok v" and nan: "\<And>w. BaseType (cols ! j) = BftSingle \<Longrightarrow> floatValue v = Some w \<Longrightarrow> \<not> isNaN64 w"
  shows "decodeColumnValue (ansiDecode cd) (computeLayout p cols) (cols ! j) (rowOf (computeLayout p cols) rec') j
    = Inr (storedValue (cols ! j) v)"
  using enc
proof (cases rule: encodeInto_row)
  case (1 f)
  let ?l = "computeLayout p cols" and ?c = "cols ! j" and ?row = "rowOf (computeLayout p cols) rec'"
  have j: "j < length cols" using 1(2) by simp
  obtain field where len: "length field = fieldStoreSize ?c" and e: "encodeField (ansiEncode cd) ?c field v = Inr f"
    using 1(5,11) nz by auto
  have at: "columns ?l ! j = ?c" "j < length (columns ?l)" "fieldOf ?l ?row (int j) = Some f" "0 < length f"
    using j 1(6,9) by simp_all
  note dec = decode_of_field [OF at, where dec = "ansiDecode cd"]
  consider (flt) "BaseType ?c \<in> {BftCurrency, BftSingle, BftDouble}" | (int) "integerStorage ?c \<noteq> None"
    | (bool) "BaseType ?c = BftLogical" | (ansi) "BaseType ?c \<in> {BftChar, BftVarchar}"
    | (wide) "BaseType ?c \<in> {BftWideChar, BftWideVarchar}" | (time) "BaseType ?c \<in> {BftDate, BftTime, BftDateTime}"
    | (bytes) "BaseType ?c = BftBytes"
    using e stamp by (auto simp: encodeField_def Let_def split: if_splits option.splits)
  then show ?thesis
  proof cases
    case flt
    then have nts: "FieldType ?c \<noteq> FieldTimeStamp" using stamp by (auto simp: bft_consts)
    show ?thesis using float_field [OF e len flt nts nan] dec(1) [OF flt] by simp
  next
    case int
    then obtain w sg where st: "integerStorage ?c = Some (w, sg)" by auto
    then have nts: "FieldType ?c \<noteq> FieldTimeStamp" and nf: "BaseType ?c \<notin> {BftCurrency, BftSingle, BftDouble}"
      using stamp by (auto simp: integerStorage_def bft_consts Let_def)
    show ?thesis
      using plain_field(2) [OF e len nts st] dec(2) [OF st] nf
      by (auto simp: storedValue_def integerValue_def)
  next
    case bool
    then have nts: "FieldType ?c \<noteq> FieldTimeStamp" and nf: "BaseType ?c \<notin> {BftCurrency, BftSingle, BftDouble}"
      using stamp by (auto simp: bft_consts)
    show ?thesis using plain_field(1) [OF e len nts bool] dec(3) [OF bool] nf by (auto simp: storedValue_def)
  next
    case ansi
    then have nts: "FieldType ?c \<noteq> FieldTimeStamp" and nf: "BaseType ?c \<notin> {BftCurrency, BftSingle, BftDouble}"
      using stamp by (auto simp: bft_consts)
    show ?thesis using text_field(1) [OF e nts law ansi] dec(4) [OF ansi] nf by (auto simp: storedValue_def)
  next
    case wide
    then have nts: "FieldType ?c \<noteq> FieldTimeStamp" and nf: "BaseType ?c \<notin> {BftCurrency, BftSingle, BftDouble}"
      using stamp by (auto simp: bft_consts)
    show ?thesis using text_field(2) [OF e nts law wide] dec(5) [OF wide] nf by (auto simp: storedValue_def)
  next
    case time
    show ?thesis using time_field [OF e len time stamp v] dec(6) [OF time stamp] by simp
  next
    case bytes
    then have nts: "FieldType ?c \<noteq> FieldTimeStamp" and nf: "BaseType ?c \<notin> {BftCurrency, BftSingle, BftDouble}"
      using stamp by (auto simp: bft_consts)
    show ?thesis using plain_field(3) [OF e len nts bytes] dec(7) [OF bytes] nf by (auto simp: storedValue_def)
  qed
qed

end
