(* ===== verification/Record_Props.thy ===== *)
theory Record_Props
  imports Alter
begin

text \<open>
  Whole records: what \<open>encodeRecord\<close> stores, \<open>decodeRowValues\<close> reads back, and the spare null flags
  that \<open>validateLayout\<close> requires are set. The slots of a rewritten page keep their records.
\<close>

section \<open>Records read back\<close>

definition storedRow :: "Column list \<Rightarrow> goval list \<Rightarrow> goval list" where
  "storedRow cols vs = map2 (\<lambda>c v. if v = GNil then GNil else storedValue c v) cols vs"

text \<open>What the values of a row may be: \<open>int64\<close> integers, times of day, no NaN in a Single.\<close>

definition nanFree :: "Column list \<Rightarrow> goval list \<Rightarrow> bool" where
  "nanFree cols vs \<longleftrightarrow> (\<forall>j < length vs. BaseType (cols ! j) = BftSingle \<longrightarrow>
          (case floatValue (vs ! j) of None \<Rightarrow> True | Some w \<Rightarrow> \<not> isNaN64 w))"

definition stampColumns :: "Column list \<Rightarrow> bool" where
  "stampColumns cols \<longleftrightarrow> (\<forall>c \<in> set cols. FieldType c = FieldTimeStamp \<longrightarrow> BaseType c = BftDateTime)"

definition row_ok :: "Column list \<Rightarrow> goval list \<Rightarrow> bool" where
  "row_ok cols vs \<longleftrightarrow> stampColumns cols \<and> (\<forall>v \<in> set vs. goval_ok v) \<and> nanFree cols vs"

lemma decodeColumnValue_cong:
  assumes "fieldOf l r (int j) = fieldOf l r' (int j)"
  shows "decodeColumnValue dec l c r j = decodeColumnValue dec l c r' j"
proof -
  have "fieldPrefix l r (int j) = fieldPrefix l r' (int j)"
    using assms by (simp add: fieldPrefix_def fun_eq_iff)
  then have "rowFloat l r (int j) = rowFloat l r' (int j)" "intValue l r (int j) = intValue l r' (int j)"
    "rowBool l r (int j) = rowBool l r' (int j)" "rowTime l r (int j) = rowTime l r' (int j)"
    "rowString dec l r (int j) = rowString dec l r' (int j)" "rowBytes l r (int j) = rowBytes l r' (int j)"
    using assms by (simp_all only: rowFloat_def intValue_def rowBool_def rowTime_def rowString_def rowBytes_def)
  then show ?thesis by (simp only: decodeColumnValue_def Let_def)
qed

text \<open>The columns encoded so far hold their values; the others are as they were.\<close>

lemma encodeColumns_spec:
  assumes "encodeColumns (ansiEncode cd) (computeLayout p cols) k vs rec = Inr rec'"
    and "lawful_codec cd" and "k + length vs = length cols"
    and "\<forall>c \<in> set cols. FieldType c = FieldTimeStamp \<longrightarrow> BaseType c = BftDateTime"
    and "\<forall>v \<in> set vs. goval_ok v"
    and "\<forall>j < length vs. BaseType (cols ! (k + j)) = BftSingle \<longrightarrow>
          (case floatValue (vs ! j) of None \<Rightarrow> True | Some w \<Rightarrow> \<not> isNaN64 w)"
  defines "l \<equiv> computeLayout p cols"
  shows "length rec' = length rec"
    and "\<forall>i < 8 * nullFlagBytes l. nullFlag (nullFlags (rowOf l rec')) i
       = (if k \<le> i \<and> i < length cols then vs ! (i - k) = GNil else nullFlag (nullFlags (rowOf l rec)) i)"
    and "\<forall>j < k. fieldOf l (rowOf l rec') (int j) = fieldOf l (rowOf l rec) (int j)"
    and "\<forall>j < length vs. vs ! j \<noteq> GNil \<longrightarrow>
       decodeColumnValue (ansiDecode cd) l (cols ! (k + j)) (rowOf l rec') (k + j) = Inr (storedValue (cols ! (k + j)) (vs ! j))"
  using assms(1,3,5,6)
proof (atomize (full), induction vs arbitrary: k rec)
  case Nil
  then show ?case by auto
next
  case (Cons v vs)
  obtain rec1 where e1: "encodeInto (ansiEncode cd) (computeLayout p cols) rec (int k) v = Inr rec1"
    and e2: "encodeColumns (ansiEncode cd) (computeLayout p cols) (Suc k) vs rec1 = Inr rec'"
    using Cons.prems(1) by auto
  have k: "k < length cols" using Cons.prems(2) by simp
  have shifted: "\<forall>j < length vs. BaseType (cols ! (Suc k + j)) = BftSingle \<longrightarrow>
          (case floatValue (vs ! j) of None \<Rightarrow> True | Some w \<Rightarrow> \<not> isNaN64 w)"
  proof (intro allI impI)
    fix j assume "j < length vs" "BaseType (cols ! (Suc k + j)) = BftSingle"
    then show "case floatValue (vs ! j) of None \<Rightarrow> True | Some w \<Rightarrow> \<not> isNaN64 w"
      using spec [OF Cons.prems(4), of "Suc j"] by simp
  qed
  have IH: "length rec' = length rec1"
    "\<forall>i < 8 * nullFlagBytes l. nullFlag (nullFlags (rowOf l rec')) i
       = (if Suc k \<le> i \<and> i < length cols then vs ! (i - Suc k) = GNil else nullFlag (nullFlags (rowOf l rec1)) i)"
    "\<forall>j < Suc k. fieldOf l (rowOf l rec') (int j) = fieldOf l (rowOf l rec1) (int j)"
    "\<forall>j < length vs. vs ! j \<noteq> GNil \<longrightarrow>
       decodeColumnValue (ansiDecode cd) l (cols ! (Suc k + j)) (rowOf l rec') (Suc k + j)
       = Inr (storedValue (cols ! (Suc k + j)) (vs ! j))"
    using Cons.IH [OF e2 _ _ shifted] Cons.prems(2,3) by simp_all
  note fr = encodeInto_frame [OF e1, folded l_def]
  have len1: "length rec1 = length rec" using e1 by (rule encodeInto_row)
  have nan: "\<not> isNaN64 w" if "BaseType (cols ! k) = BftSingle" "floatValue v = Some w" for w
    using spec [OF Cons.prems(4), of 0] that by simp
  have head: "decodeColumnValue (ansiDecode cd) l (cols ! k) (rowOf l rec') k = Inr (storedValue (cols ! k) v)" if "v \<noteq> GNil"
  proof -
    have "decodeColumnValue (ansiDecode cd) l (cols ! k) (rowOf l rec1) k = Inr (storedValue (cols ! k) v)"
      unfolding l_def using column_roundtrip [OF e1 that assms(2)] assms(4) Cons.prems(3) k nan by simp
    then show ?thesis using decodeColumnValue_cong [of l "rowOf l rec'" k "rowOf l rec1"] IH(3) by simp
  qed
  have vals: "decodeColumnValue (ansiDecode cd) l (cols ! (k + j)) (rowOf l rec') (k + j)
      = Inr (storedValue (cols ! (k + j)) ((v # vs) ! j))" if "j < length (v # vs)" "(v # vs) ! j \<noteq> GNil" for j
    using that head IH(4) by (cases j) auto
  have flags: "nullFlag (nullFlags (rowOf l rec')) i
       = (if k \<le> i \<and> i < length cols then (v # vs) ! (i - k) = GNil else nullFlag (nullFlags (rowOf l rec)) i)"
    if "i < 8 * nullFlagBytes l" for i
    using that fr(1) [of i] IH(2) k by (auto simp: nth_Cons' not_le less_Suc_eq Suc_le_eq)
  have before: "fieldOf l (rowOf l rec') (int j) = fieldOf l (rowOf l rec) (int j)" if "j < k" for j
    using that fr(2) [of "int j"] IH(3) by simp
  show ?case
    using IH(1) len1 by (intro conjI allI impI vals flags before) simp_all
qed

lemma decodeColumns_spec:
  assumes "k + length cs = length (columns l)" and "length vs = length cs"
    and "\<forall>j < length cs. rowIsNull l row (int (k + j)) = (vs ! j = GNil)
      \<and> (vs ! j \<noteq> GNil \<longrightarrow> decodeColumnValue dec l (cs ! j) row (k + j) = Inr (storedValue (cs ! j) (vs ! j)))"
  shows "decodeColumns dec l row k cs = Inr (storedRow cs vs)"
  using assms
proof (induction cs arbitrary: k vs)
  case (Cons c cs)
  obtain v vs' where vs: "vs = v # vs'" using Cons.prems(2) by (cases vs) auto
  have "\<forall>j < length cs. rowIsNull l row (int (Suc k + j)) = (vs' ! j = GNil)
      \<and> (vs' ! j \<noteq> GNil \<longrightarrow> decodeColumnValue dec l (cs ! j) row (Suc k + j) = Inr (storedValue (cs ! j) (vs' ! j)))"
  proof (intro allI impI)
    fix j assume "j < length cs"
    then show "rowIsNull l row (int (Suc k + j)) = (vs' ! j = GNil)
      \<and> (vs' ! j \<noteq> GNil \<longrightarrow> decodeColumnValue dec l (cs ! j) row (Suc k + j) = Inr (storedValue (cs ! j) (vs' ! j)))"
      using spec [OF Cons.prems(3), of "Suc j"] by (simp add: vs)
  qed
  then have "decodeColumns dec l row (Suc k) cs = Inr (storedRow cs vs')"
    using Cons.prems(1,2) vs by (intro Cons.IH) simp_all
  then show ?case using spec [OF Cons.prems(3), of 0] by (auto simp: vs storedRow_def)
qed (simp add: storedRow_def)

text \<open>The fresh record and its null flags.\<close>

definition freshRecord :: "layout \<Rightarrow> byte list" where
  "freshRecord l = setSpareNullFlags l (zeros (recordSize l))"

lemma bit_FF: "bit (0xFF :: int) n \<longleftrightarrow> n < 8"
  using bit_mask_iff [of 8 n, where 'a = int] by (simp add: mask_eq_exp_minus_1)

lemma freshRecord_flags:
  fixes p cols
  defines "l \<equiv> computeLayout p cols"
  assumes "i < 8 * nullFlagBytes l"
  shows "nullFlag (nullFlags (rowOf l (freshRecord l))) i = (length cols \<le> i)"
proof -
  let ?n = "nullFlagBytes l" and ?spare = "nullFlagBytes l * 8 - length cols"
  have n: "?n = (length cols + 7) div 8" and pos: "0 < ?n" and rs: "?n \<le> recordSize l"
    using assms(2) by (auto simp: l_def)
  have flags: "nullFlags (rowOf l rec) = take ?n rec" for rec
    by (simp add: rowOf_def rowAt_def slc_def)
  have sp: "?spare \<le> 7" "length cols \<le> ?n * 8" using n by simp_all
  have idx: "i div 8 < ?n" using assms(2) by (simp add: div_8_less)
  show ?thesis
  proof (cases "?n * 8 \<le> length cols")
    case True
    then have "freshRecord l = zeros (recordSize l)" by (simp add: freshRecord_def setSpareNullFlags_def Let_def l_def)
    then show ?thesis
      using True idx rs assms(2) unfolding flags by (simp add: nullFlag_def testBit_bit zeros_def)
  next
    case False
    then have fr: "freshRecord l = (zeros (recordSize l))[?n - 1 := push_bit (8 - ?spare) 0xFF]"
      using sp rs by (simp add: freshRecord_def setSpareNullFlags_def Let_def l_def zeros_def)
    have "bit (take ?n (freshRecord l) ! (i div 8)) (i mod 8) \<longleftrightarrow> length cols \<le> i"
    proof (cases "i div 8 = ?n - 1")
      case True
      have "i = (?n - 1) * 8 + i mod 8" using True by (metis div_mult_mod_eq)
      moreover have "8 - ?spare = length cols - (?n - 1) * 8" using sp pos by (simp add: algebra_simps)
      ultimately have "8 - ?spare \<le> i mod 8 \<longleftrightarrow> length cols \<le> i" using sp pos by linarith
      then show ?thesis using True pos rs by (simp add: fr bit_push_bit_iff bit_FF zeros_def) auto
    next
      case no: False
      then have "i < (?n - 1) * 8" using idx by (simp add: div_8_less [symmetric] mult.commute)
      then have "i < length cols" using sp pos by linarith
      then show ?thesis using no idx rs by (simp add: fr zeros_def)
    qed
    then show ?thesis using idx rs unfolding flags
      by (simp add: nullFlag_def testBit_bit freshRecord_def setSpareNullFlags_def Let_def zeros_def)
  qed
qed

lemma encodeRecord_Inr:
  assumes "encodeRecord enc l vs = Inr rec"
  shows "encodeColumns enc l 0 vs (freshRecord l) = Inr rec" and "length vs = length (columns l)"
  using assms by (auto simp: encodeRecord_def freshRecord_def)

lemma length_freshRecord [simp]: "length (freshRecord l) = recordSize l"
  by (simp add: freshRecord_def setSpareNullFlags_def Let_def)

lemma encodeRecord_spec:
  assumes "encodeRecord (ansiEncode cd) (computeLayout p cols) vs = Inr rec"
    and "lawful_codec cd" and ok: "row_ok cols vs"
  defines "l \<equiv> computeLayout p cols"
  shows "length rec = recordSize l"
    and "i < 8 * nullFlagBytes l \<Longrightarrow> nullFlag (nullFlags (rowOf l rec)) i = (if i < length cols then vs ! i = GNil else True)"
    and "decodeRowValues (ansiDecode cd) l (rowOf l rec) = Inr (storedRow cols vs)"
proof -
  note run = encodeRecord_Inr(1) [OF assms(1)]
  have vs: "length vs = length cols" using encodeRecord_Inr(2) [OF assms(1)] by simp
  note spec = encodeColumns_spec [OF run assms(2), folded l_def]
  have h: "\<forall>c \<in> set cols. FieldType c = FieldTimeStamp \<longrightarrow> BaseType c = BftDateTime" "\<forall>v \<in> set vs. goval_ok v"
    "\<forall>j < length vs. BaseType (cols ! (0 + j)) = BftSingle \<longrightarrow>
          (case floatValue (vs ! j) of None \<Rightarrow> True | Some w \<Rightarrow> \<not> isNaN64 w)"
    using ok by (simp_all add: row_ok_def stampColumns_def nanFree_def)
  note sp = spec [OF _ h, simplified vs, simplified]
  show "length rec = recordSize l" using sp(1) by (simp add: l_def)
  show fl: "nullFlag (nullFlags (rowOf l rec)) i = (if i < length cols then vs ! i = GNil else True)"
    if "i < 8 * nullFlagBytes l" for i
    using that sp(2) freshRecord_flags [of i p cols] by (simp add: l_def)
  have "length cols \<le> 8 * nullFlagBytes l" by (simp add: l_def)
  then have "rowIsNull l (rowOf l rec) (int j) = (vs ! j = GNil)" if "j < length cols" for j
    using that fl [of j] by (simp add: rowIsNull_def l_def)
  then have "decodeColumns (ansiDecode cd) l (rowOf l rec) 0 cols = Inr (storedRow cols vs)"
    using sp(4) vs by (intro decodeColumns_spec) (simp_all add: l_def)
  then show "decodeRowValues (ansiDecode cd) l (rowOf l rec) = Inr (storedRow cols vs)"
    by (simp add: decodeRowValues_def l_def)
qed

end
