(* ===== verification/Alter_Props.thy ===== *)
theory Alter_Props
  imports Record_Props
begin

text \<open>
  The rewrite of a data page: every occupied slot keeps its place and its values, which is what
  keeps record identifiers and index entries valid across \<open>AddColumn\<close> and \<open>DropColumn\<close>.
\<close>

section \<open>The rewrite, slot by slot\<close>

definition slotBytes :: "layout \<Rightarrow> byte list \<Rightarrow> nat \<Rightarrow> byte list" where
  "slotBytes l payload slot = slc (slotOffset l slot) (slotOffset l slot + recordSize l) payload"

lemma length_encodeColumns: "encodeColumns enc l k vs rec = Inr rec' \<Longrightarrow> length rec' = length rec"
proof (induction vs arbitrary: k rec)
  case (Cons v vs)
  then obtain rec1 where "encodeInto enc l rec (int k) v = Inr rec1" "encodeColumns enc l (k + 1) vs rec1 = Inr rec'"
    by auto
  then show ?case using Cons.IH by (auto elim!: encodeInto_Inr simp: flagRecord_def)
qed simp

lemma length_encodeRecord: "encodeRecord enc l vs = Inr rec \<Longrightarrow> length rec = recordSize l"
  using length_encodeColumns [OF encodeRecord_Inr(1)] by fastforce

lemma slotBytes_setBit:
  "bitmapBytes l \<le> n \<Longrightarrow> slotBytes l (setBit data b (bitmapBytes l)) s = slotBytes l data s"
  unfolding slotBytes_def by (rule slc_behind [of "bitmapBytes l"]) (simp_all add: slotOffset_def)

lemma slotBytes_splice:
  assumes "length rec = recordSize l" and "s \<noteq> slot"
  shows "slotBytes l (splice (slotOffset l slot) rec data) s = slotBytes l data s"
  unfolding slotBytes_def
proof (rule slc_splice_disjoint)
  have "Suc s * recordSize l \<le> slot * recordSize l \<or> Suc slot * recordSize l \<le> s * recordSize l"
    using assms(2) by (cases "s < slot") (auto simp del: mult_Suc intro: mult_le_mono1)
  then show "slotOffset l s + recordSize l \<le> slotOffset l slot
      \<or> slotOffset l slot + length rec \<le> slotOffset l s"
    using assms(1) by (auto simp: slotOffset_def)
qed

lemma bitSet_splice:
  "n \<le> off \<Longrightarrow> bitSet (splice off rec data) b n = bitSet data b n"
  by (auto simp: bitSet_def testBit_def nth_splice)

lemma rewriteSlots_spec:
  assumes "rewriteSlots cd old new tr payload slots newP = Inr out" and "distinct slots"
    and "bitmapBytes new * 8 \<ge> recsPerPage new" and "bitmapBytes new \<le> length newP"
  shows "length out = length newP"
    and "\<forall>s. bitSet out (int s) (bitmapBytes new)
       = (bitSet newP (int s) (bitmapBytes new) \<or> s \<in> set slots \<and> recordSlotStart old payload s \<noteq> None)"
    and "\<forall>s. s \<notin> set slots \<or> recordSlotStart old payload s = None \<longrightarrow> slotBytes new out s = slotBytes new newP s"
    and "\<forall>s \<in> set slots. \<forall>start. recordSlotStart old payload s = Some start \<longrightarrow>
       s < recsPerPage new \<and> slotOffset new s + recordSize new \<le> length newP
       \<and> (\<exists>vs. decodeRowValues (ansiDecode cd) old (slotRow old payload start) = Inr vs
            \<and> encodeRecord (ansiEncode cd) new (tr vs) = Inr (slotBytes new out s))"
  using assms(1,2,4)
proof (atomize (full), induction slots arbitrary: newP)
  case Nil
  then show ?case by simp
next
  case (Cons slot slots)
  show ?case
  proof (cases "recordSlotStart old payload slot")
    case None
    then show ?thesis using Cons.IH [of newP] Cons.prems by auto
  next
    case (Some start)
    let ?o = "slotOffset new slot"
    obtain vs rec where dec: "decodeRowValues (ansiDecode cd) old (slotRow old payload start) = Inr vs"
      and enc: "encodeRecord (ansiEncode cd) new (tr vs) = Inr rec"
      and fits: "slot < recsPerPage new" "?o + recordSize new \<le> length newP"
      and run: "rewriteSlots cd old new tr payload slots (setBit (splice ?o rec newP) (int slot) (bitmapBytes new)) = Inr out"
      using Cons.prems(1) Some by (auto simp: Let_def slotOffset_def not_le split: if_splits)
    let ?p = "setBit (splice ?o rec newP) (int slot) (bitmapBytes new)"
    have len: "length rec = recordSize new" by (rule length_encodeRecord [OF enc])
    have plen: "length ?p = length newP" by (simp add: setBit_def)
    have bits: "bitSet ?p (int s) (bitmapBytes new) = (bitSet newP (int s) (bitmapBytes new) \<or> s = slot)" for s
    proof -
      have "slot < 8 * min (bitmapBytes new) (length (splice ?o rec newP))"
        using fits(1) assms(3) Cons.prems(3) by simp
      then show ?thesis
        using occupancy.test_put [of slot "bitmapBytes new" "splice ?o rec newP" True s]
          bitSet_splice [of "bitmapBytes new" ?o rec newP "int s"]
        by (auto simp: occ_put_def slotOffset_def)
    qed
    have same: "slotBytes new ?p s = slotBytes new newP s" if "s \<noteq> slot" for s
      using slotBytes_setBit [OF order_refl] slotBytes_splice [OF len that] by simp
    have here: "slotBytes new ?p slot = rec"
      using slotBytes_setBit [OF order_refl] fits(2) len by (simp add: slotBytes_def slc_splice_same)
    note IH = Cons.IH [OF run]
    have nin: "slot \<notin> set slots" and dis: "distinct slots" using Cons.prems(2) by simp_all
    have IHs: "length out = length newP"
      "\<forall>s. bitSet out (int s) (bitmapBytes new)
       = (bitSet ?p (int s) (bitmapBytes new) \<or> s \<in> set slots \<and> recordSlotStart old payload s \<noteq> None)"
      "\<forall>s. s \<notin> set slots \<or> recordSlotStart old payload s = None \<longrightarrow> slotBytes new out s = slotBytes new ?p s"
      "\<forall>s \<in> set slots. \<forall>start. recordSlotStart old payload s = Some start \<longrightarrow>
       s < recsPerPage new \<and> slotOffset new s + recordSize new \<le> length newP
       \<and> (\<exists>vs. decodeRowValues (ansiDecode cd) old (slotRow old payload start) = Inr vs
            \<and> encodeRecord (ansiEncode cd) new (tr vs) = Inr (slotBytes new out s))"
      using IH dis Cons.prems(3) unfolding plen by blast+
    have out_here: "slotBytes new out slot = rec" using IHs(3) nin here by simp
    show ?thesis
    proof (intro conjI)
      show "length out = length newP" by (rule IHs(1))
      show "\<forall>s. bitSet out (int s) (bitmapBytes new)
       = (bitSet newP (int s) (bitmapBytes new) \<or> s \<in> set (slot # slots) \<and> recordSlotStart old payload s \<noteq> None)"
        using IHs(2) bits Some by auto
      show "\<forall>s. s \<notin> set (slot # slots) \<or> recordSlotStart old payload s = None \<longrightarrow> slotBytes new out s = slotBytes new newP s"
        using IHs(3) same Some by (metis list.set_intros option.distinct(1))
      show "\<forall>s \<in> set (slot # slots). \<forall>start. recordSlotStart old payload s = Some start \<longrightarrow>
       s < recsPerPage new \<and> slotOffset new s + recordSize new \<le> length newP
       \<and> (\<exists>vs. decodeRowValues (ansiDecode cd) old (slotRow old payload start) = Inr vs
            \<and> encodeRecord (ansiEncode cd) new (tr vs) = Inr (slotBytes new out s))"
        using IHs(4) fits dec enc out_here Some by auto
    qed
  qed
qed

section \<open>Decoded values\<close>

lemma decodeIntegerLE_range: "- (2 ^ 63) \<le> decodeIntegerLE bs sg" "decodeIntegerLE bs sg < 2 ^ 63"
proof -
  have "- (2 ^ 63) \<le> sint (w :: u64)" "sint (w :: u64) < 2 ^ 63" for w
    using sint_ge [of w] sint_lt [of w] by simp_all
  then show "- (2 ^ 63) \<le> decodeIntegerLE bs sg" "decodeIntegerLE bs sg < 2 ^ 63"
    by (simp_all add: decodeIntegerLE_def Let_def del: of_nat_add)
qed

lemma intValue_range: "- (2 ^ 63) \<le> intValue l row j \<and> intValue l row j < 2 ^ 63"
  using decodeIntegerLE_range by (auto simp: intValue_def split: option.splits prod.splits)

lemma time_ok_simps: "time_ok zeroTime" "time_ok (goAdd n t)" "time_ok (delphiDateToTime d)" "time_ok (delphiTimeToTime m)"
  "zoneOffset (goAdd n t) = zoneOffset t" "zoneOffset zeroTime = 0" "zoneOffset (delphiDateToTime d) = 0"
  "zoneOffset (delphiTimeToTime m) = 0"
  by (simp_all add: time_ok_def zeroTime_def goAdd_def nsPerDay_def delphiDateToTime_def delphiTimeToTime_def)

lemma timeStamp_ok: "time_ok (timeStampToTime bs) \<and> zoneOffset (timeStampToTime bs) = 0"
  using time_ok_simps(1,6)
  by (auto simp: timeStampToTime_def Let_def time_ok_def zeroTime_def nsPerDay_def split: prod.splits)

lemma rowTime_ok: "time_ok (rowTime l row j) \<and> zoneOffset (rowTime l row j) = 0"
  using time_ok_simps timeStamp_ok by (auto simp: rowTime_def Let_def split: option.splits)

lemma zero_instant: "time_ok t \<Longrightarrow> zoneOffset t = 0 \<Longrightarrow> IsZero t \<Longrightarrow> t = zeroTime"
proof -
  assume t: "time_ok t" "zoneOffset t = 0" "IsZero t"
  then have "wallDay t * nsPerDay + wallNs t = 0" by (simp add: IsZero_def)
  moreover from t have "0 \<le> wallNs t" "wallNs t < nsPerDay" by (simp_all add: time_ok_def)
  moreover have "0 < nsPerDay" by (simp add: nsPerDay_def)
  ultimately have "wallDay t = 0 \<and> wallNs t = 0"
    by (metis add.commute add_cancel_right_left div_mult_self1 div_pos_pos_trivial div_0 mult_zero_left add_0 less_irrefl)
  then show ?thesis using t(2) by (simp add: zeroTime_def)
qed

text \<open>A decoded value is stored as it is; only a Bytes column gives back more than it takes.\<close>

lemma decoded_canonical:
  assumes "decodeColumnValue dec l c row j = Inr v"
  shows "goval_ok v" and "v \<noteq> GNil" and "BaseType c \<noteq> BftBytes \<Longrightarrow> storedValue c v = v"
proof -
  note tm = rowTime_ok [of l row "int j"]
  show "goval_ok v" "v \<noteq> GNil"
    using assms intValue_range [of l row "int j"] tm
    by (auto simp: decodeColumnValue_def Let_def goval_ok_def split: if_splits)
  assume nb: "BaseType c \<noteq> BftBytes"
  show "storedValue c v = v"
  proof (cases "BaseType c \<in> {BftCurrency, BftSingle, BftDouble}")
    case True
    then obtain w where "v = GFloat64 w" using assms by (auto simp: decodeColumnValue_def Let_def bft_consts split: if_splits)
    then show ?thesis using True by (simp add: storedValue_def floatValue_def)
  next
    case False
    have "v = GTime (rowTime l row (int j)) \<or> (\<exists>n. v = GInt n) \<or> (\<exists>b. v = GBool b) \<or> (\<exists>s. v = GString s)"
      using assms nb False by (auto simp: decodeColumnValue_def Let_def split: if_splits)
    moreover have "(rowTime l row (int j))\<lparr>zoneOffset := 0\<rparr> = rowTime l row (int j)" using tm by simp
    moreover have "IsZero (rowTime l row (int j)) \<Longrightarrow> rowTime l row (int j) = zeroTime" using tm zero_instant by blast
    ultimately show ?thesis using False by (auto simp: storedValue_def)
  qed
qed

lemma encodeColumns_fields:
  assumes "encodeColumns enc (computeLayout p cols) k vs rec = Inr rec'" and "j < length vs" and "vs ! j \<noteq> GNil"
  shows "\<exists>field f. length field = fieldStoreSize (cols ! (k + j)) \<and> encodeField enc (cols ! (k + j)) field (vs ! j) = Inr f"
  using assms
proof (induction vs arbitrary: k rec j)
  case (Cons v vs)
  then obtain rec1 where e: "encodeInto enc (computeLayout p cols) rec (int k) v = Inr rec1"
    and rest: "encodeColumns enc (computeLayout p cols) (Suc k) vs rec1 = Inr rec'"
    by auto
  show ?case
  proof (cases j)
    case 0
    from e show ?thesis
    proof (cases rule: encodeInto_row)
      case (1 f)
      then show ?thesis using Cons.prems(3) 0 by auto
    qed
  next
    case (Suc i)
    then show ?thesis using Cons.IH [OF rest, of i] Cons.prems(2,3) by simp
  qed
qed simp

lemma decodeColumns_nth:
  assumes "decodeColumns dec l row k cs = Inr vs"
  shows "length vs = length cs"
    and "\<forall>j < length cs. (if rowIsNull l row (int (k + j)) then vs ! j = GNil
          else decodeColumnValue dec l (cs ! j) row (k + j) = Inr (vs ! j))"
  using assms
proof (atomize (full), induction cs arbitrary: k vs)
  case (Cons c cs)
  then obtain v vs' where vs: "vs = v # vs'" and v: "(if rowIsNull l row (int k) then v = GNil
      else decodeColumnValue dec l c row k = Inr v)" and r: "decodeColumns dec l row (Suc k) cs = Inr vs'"
    by (auto split: if_splits)
  have "if rowIsNull l row (int (k + j)) then (v # vs') ! j = GNil
      else decodeColumnValue dec l ((c # cs) ! j) row (k + j) = Inr ((v # vs') ! j)" if "j < length (c # cs)" for j
  proof (cases j)
    case 0
    then show ?thesis using v by simp
  next
    case (Suc i)
    then have "i < length cs" using that by simp
    then show ?thesis using Cons.IH [OF r] unfolding Suc nth_Cons_Suc add_Suc_right add_Suc [symmetric] by blast
  qed
  then show ?case using Cons.IH [OF r] by (simp add: vs)
qed simp

text \<open>A Bytes value comes back one byte longer than the column's size, which the encoder refuses.\<close>

lemma bytes_refused:
  assumes "BaseType c = BftBytes" and "FieldType c \<noteq> FieldTimeStamp" and "length b = unat (Size c) + 1"
  shows "encodeField enc c field (GBytes b) = Inl ErrValueRange"
  using assms by (simp add: encodeField_def Let_def bft_consts encodeBytes_def)

section \<open>A page before and after\<close>

text \<open>The row in a slot of a page: absent, or the values it decodes to.\<close>

definition pageRow :: "codec \<Rightarrow> layout \<Rightarrow> byte list \<Rightarrow> nat \<Rightarrow> goval list result option" where
  "pageRow cd l payload slot =
     map_option (\<lambda>start. decodeRowValues (ansiDecode cd) l (slotRow l payload start)) (recordSlotStart l payload slot)"

text \<open>A transformation that only drops values and adds NULLs, column types kept.\<close>

definition movesValues :: "Column list \<Rightarrow> Column list \<Rightarrow> (goval list \<Rightarrow> goval list) \<Rightarrow> bool" where
  "movesValues cols cols' tr \<longleftrightarrow> (\<forall>vs. length vs = length cols \<longrightarrow> length (tr vs) = length cols'
     \<and> (\<forall>j < length cols'. tr vs ! j = GNil \<or> (\<exists>i < length cols. tr vs ! j = vs ! i
          \<and> BaseType (cols' ! j) = BaseType (cols ! i) \<and> FieldType (cols' ! j) = FieldType (cols ! i)
          \<and> Size (cols' ! j) = Size (cols ! i))))"

lemma slotRow_bytes:
  "recordSize l = nullFlagBytes l + fieldDataSize l \<Longrightarrow>
   slotRow l payload (slotOffset l slot) = rowOf l (slotBytes l payload slot)"
  by (simp add: slotRow_def rowOf_def rowAt_def slotBytes_def slc_slc [where i = 0, simplified] slc_slc add.assoc)

lemma recordSlotStart_Some:
  "recordSlotStart l payload slot = Some start \<longleftrightarrow> start = slotOffset l slot \<and> slot < recsPerPage l
     \<and> recordSize l \<noteq> 0 \<and> bitSet payload (int slot) (bitmapBytes l) \<and> start + recordSize l \<le> length payload"
  by (auto simp: recordSlotStart_def slotOffset_def Let_def)

lemma storedValue_cong:
  "BaseType c = BaseType c' \<Longrightarrow> FieldType c = FieldType c' \<Longrightarrow> Size c = Size c' \<Longrightarrow> storedValue c v = storedValue c' v"
  by (simp only: storedValue_def)

lemma bytes_full:
  assumes "decodeColumnValue dec (computeLayout p cols) (cols ! i) row i = Inr v" and "i < length cols"
    and "BaseType (cols ! i) = BftBytes" and "length (fieldData row) = fieldDataSize (computeLayout p cols)"
  shows "\<exists>b. v = GBytes b \<and> length b = unat (Size (cols ! i)) + 1"
proof -
  have sz: "fieldStoreSize (cols ! i) = unat (Size (cols ! i)) + 1"
    using assms(3) by (simp add: fieldStoreSize_def fixedFieldStoreSize_def bft_consts)
  show ?thesis
    using assms(1,3) fieldOf_computed [OF assms(2) _ assms(4)] sz field_bounds(1) [OF assms(2), of p] assms(4)
    by (auto simp: decodeColumnValue_def Let_def bft_consts rowBytes_def)
qed

text \<open>One row: what was decoded, moved and encoded decodes to what was moved.\<close>

lemma moved_row:
  fixes p p' cols cols'
  defines "old \<equiv> computeLayout p cols" and "new \<equiv> computeLayout p' cols'"
  assumes dec: "decodeRowValues (ansiDecode cd) old row = Inr vs" and enc: "encodeRecord (ansiEncode cd) new (tr vs) = Inr rec"
    and law: "lawful_codec cd" and stamp: "stampColumns cols'" and moves: "movesValues cols cols' tr"
    and nan: "nanFree cols vs" and data: "length (fieldData row) = fieldDataSize old"
  shows "decodeRowValues (ansiDecode cd) new (rowOf new rec) = Inr (tr vs)"
proof -
  have d: "decodeColumns (ansiDecode cd) old row 0 cols = Inr vs" using dec by (simp add: decodeRowValues_def old_def)
  note nth = decodeColumns_nth [OF d, simplified]
  have len: "length (tr vs) = length cols'" and from': "\<And>j. j < length cols' \<Longrightarrow> tr vs ! j = GNil \<or> (\<exists>i < length cols. tr vs ! j = vs ! i
          \<and> BaseType (cols' ! j) = BaseType (cols ! i) \<and> FieldType (cols' ! j) = FieldType (cols ! i)
          \<and> Size (cols' ! j) = Size (cols ! i))"
    using moves nth(1) by (auto simp: movesValues_def)
  have val: "goval_ok (tr vs ! j) \<and> (tr vs ! j \<noteq> GNil \<longrightarrow> storedValue (cols' ! j) (tr vs ! j) = tr vs ! j)
      \<and> (BaseType (cols' ! j) = BftSingle \<longrightarrow>
          (case floatValue (tr vs ! j) of None \<Rightarrow> True | Some w \<Rightarrow> \<not> isNaN64 w))" if j: "j < length cols'" for j
  proof (cases "tr vs ! j = GNil")
    case True
    then show ?thesis by (simp add: goval_ok_def floatValue_def integerValue_def)
  next
    case False
    then obtain i where i: "i < length cols" "tr vs ! j = vs ! i" and same: "BaseType (cols' ! j) = BaseType (cols ! i)"
      "FieldType (cols' ! j) = FieldType (cols ! i)" "Size (cols' ! j) = Size (cols ! i)"
      using from' [OF j] by auto
    have di: "decodeColumnValue (ansiDecode cd) old (cols ! i) row i = Inr (vs ! i)"
      using nth(2) i False by (auto split: if_splits)
    note can = decoded_canonical [OF di]
    have nb: "BaseType (cols ! i) \<noteq> BftBytes"
    proof
      assume b: "BaseType (cols ! i) = BftBytes"
      obtain f where f: "vs ! i = GBytes f" "length f = unat (Size (cols ! i)) + 1"
        using bytes_full [OF di [unfolded old_def] i(1) b data [unfolded old_def]] by blast
      have "encodeColumns (ansiEncode cd) new 0 (tr vs) (freshRecord new) = Inr rec" by (rule encodeRecord_Inr(1) [OF enc])
      then obtain field g where "encodeField (ansiEncode cd) (cols' ! j) field (tr vs ! j) = Inr g"
        using encodeColumns_fields [of "ansiEncode cd" p' cols' 0 "tr vs" _ rec j] len j False
        unfolding new_def add_0 by metis
      moreover have "FieldType (cols' ! j) \<noteq> FieldTimeStamp"
        using stamp j b same by (auto simp: stampColumns_def bft_consts)
      ultimately show False
        using bytes_refused [of "cols' ! j" f "ansiEncode cd" field] b same f i by simp
    qed
    have "BaseType (cols ! i) = BftSingle \<longrightarrow> (case floatValue (vs ! i) of None \<Rightarrow> True | Some w \<Rightarrow> \<not> isNaN64 w)"
      using nan i nth(1) by (simp add: nanFree_def)
    then show ?thesis using can(1) can(3) [OF nb] same i storedValue_cong [OF same] by simp
  qed
  have "row_ok cols' (tr vs)"
    using val len stamp by (auto simp: row_ok_def nanFree_def in_set_conv_nth)
  moreover have "storedRow cols' (tr vs) = tr vs"
    using val len by (intro nth_equalityI) (auto simp: storedRow_def)
  ultimately show ?thesis
    using encodeRecord_spec(3) [OF enc [unfolded new_def] law] by (simp add: new_def)
qed

lemma rewritten_page:
  fixes p p' cols cols'
  defines "old \<equiv> computeLayout p cols" and "new \<equiv> computeLayout p' cols'"
  assumes run: "rewriteDataPage cd old new tr payload = Inr out" and law: "lawful_codec cd"
    and stamp: "stampColumns cols'" and moves: "movesValues cols cols' tr"
    and nan: "\<forall>slot vs. pageRow cd old payload slot = Some (Inr vs) \<longrightarrow> nanFree cols vs"
    and room: "bitmapBytes new \<le> length payload"
  shows "length out = length payload"
    and "case pageRow cd old payload slot of
        None \<Rightarrow> pageRow cd new out slot = None
      | Some r \<Rightarrow> \<exists>vs. r = Inr vs \<and> pageRow cd new out slot = Some (Inr (tr vs))"
proof -
  have sizes: "recordSize old = nullFlagBytes old + fieldDataSize old" "recordSize new = nullFlagBytes new + fieldDataSize new"
    by (simp_all add: old_def new_def)
  have "bitmapBytes new * 8 \<ge> recsPerPage new" by (simp add: new_def)
  note sp = rewriteSlots_spec [OF run [unfolded rewriteDataPage_def] distinct_upt this, simplified]
  have room': "bitmapBytes new \<le> length payload" by (rule room)
  show "length out = length payload" using sp(1) room by simp
  have unset: "\<not> bitSet (zeros n) s m" for n s m by (auto simp: bitSet_def testBit_def zeros_def)
  show "case pageRow cd old payload slot of
        None \<Rightarrow> pageRow cd new out slot = None
      | Some r \<Rightarrow> \<exists>vs. r = Inr vs \<and> pageRow cd new out slot = Some (Inr (tr vs))"
  proof (cases "recordSlotStart old payload slot")
    case None
    then have "\<not> bitSet out (int slot) (bitmapBytes new)" using sp(2) room unset by simp
    then have "recordSlotStart new out slot = None" by (simp add: recordSlotStart_def)
    then show ?thesis using None by (simp add: pageRow_def)
  next
    case (Some start)
    then have slot: "slot < recsPerPage old" "start = slotOffset old slot" "start + recordSize old \<le> length payload"
      by (auto simp: recordSlotStart_Some)
    then obtain vs where fits: "slot < recsPerPage new" "slotOffset new slot + recordSize new \<le> length payload"
      and vs: "decodeRowValues (ansiDecode cd) old (slotRow old payload start) = Inr vs"
      and enc: "encodeRecord (ansiEncode cd) new (tr vs) = Inr (slotBytes new out slot)"
      using bspec [OF sp(4) [OF room], of slot] Some by auto
    have row: "pageRow cd old payload slot = Some (Inr vs)" using Some vs by (simp add: pageRow_def)
    have "length (fieldData (slotRow old payload start)) = fieldDataSize old"
      using slot sizes by (simp add: slotRow_def)
    then have "decodeRowValues (ansiDecode cd) new (rowOf new (slotBytes new out slot)) = Inr (tr vs)"
      using moved_row [of cd p cols "slotRow old payload start" vs p' cols' tr "slotBytes new out slot"]
        vs enc law stamp moves nan row by (simp add: old_def new_def)
    moreover have "bitSet out (int slot) (bitmapBytes new)" using sp(2) room slot Some by simp
    moreover have "recordSize new \<noteq> 0" using enc by (auto simp: encodeRecord_def checkLayout_def Let_def)
    ultimately have "pageRow cd new out slot = Some (Inr (tr vs))"
      using fits sp(1) room recordSlotStart_Some [of new out slot "slotOffset new slot"] slotRow_bytes [OF sizes(2)]
      by (simp add: pageRow_def)
    then show ?thesis using row by simp
  qed
qed

lemma bitmap_room: "bitmapBytes (computeLayout (int n) cols) \<le> n"
proof (cases "recsPerPage (computeLayout (int n) cols) = 0")
  case False
  have "recsPerPage (computeLayout (int n) cols) = recordsPerPage (int n) (recordSize (computeLayout (int n) cols))"
    by (simp add: computeLayout_def Let_def)
  then show ?thesis using False recordsPerPage_fits [of "int n" "recordSize (computeLayout (int n) cols)"] by simp
qed simp

lemma moves_addNull: "movesValues cols (addColumnAt c cols) addNull"
  by (auto simp: movesValues_def addColumnAt_def addNull_def nth_append less_Suc_eq)

lemma length_renumber [simp]: "length (renumber n cs) = length cs"
  by (induction cs arbitrary: n) simp_all

lemma nth_renumber: "j < length cs \<Longrightarrow> renumber n cs ! j = (cs ! j)\<lparr>Position := n + j\<rparr>"
  by (induction cs arbitrary: n j) (auto simp: nth_Cons split: nat.splits)

lemma renumber_types: "c' \<in> set (renumber n cs) \<Longrightarrow> \<exists>c \<in> set cs. BaseType c' = BaseType c \<and> FieldType c' = FieldType c"
  by (induction cs arbitrary: n) auto

lemma moves_dropValue:
  assumes "i < length cols"
  shows "movesValues cols (dropColumnAt cols i) (dropValue i)"
proof -
  have nth: "(take i xs @ drop (i + 1) xs) ! j = xs ! (if j < i then j else j + 1)"
    if "length xs = length cols" "j < length cols - 1" for xs :: "'a list" and j
    using that assms by (auto simp: nth_append)
  have "\<exists>k < length cols. dropValue i vs ! j = vs ! k \<and> BaseType (dropColumnAt cols i ! j) = BaseType (cols ! k)
      \<and> FieldType (dropColumnAt cols i ! j) = FieldType (cols ! k) \<and> Size (dropColumnAt cols i ! j) = Size (cols ! k)"
    if "length vs = length cols" "j < length cols - 1" for vs j
    using that assms nth [of vs j]
    by (intro exI [of _ "if j < i then j else j + 1"])
      (auto simp: dropValue_def dropColumnAt_def nth_renumber nth_append)
  then show ?thesis using assms by (auto simp: movesValues_def dropColumnAt_def dropValue_def)
qed

section \<open>A small page\<close>

text \<open>Two slots of the columns of \<open>pairColumns\<close> on a payload of nine bytes, the first one taken.\<close>

lemma pair_fields: 
  "encodeField enc (sampleColumn 66 BftInt8 FieldUnknown 0 n) [b] (GInt (- 2)) = Inr [0xFE]"
  "encodeField enc (sampleColumn 65 BftLogical FieldUnknown 0 n) [b, c] (GBool True) = Inr [1, 0]"
  "\<not> IsBLOB (sampleColumn 66 BftInt8 FieldUnknown 0 n)" "\<not> IsBLOB (sampleColumn 65 BftLogical FieldUnknown 0 n)"
  by (simp_all add: encodeField_def sampleColumn_def Let_def bft_consts integerStorage_def encodeInteger_def encodeBool_def
        integerValue_def integerBounds_def zeros_def FieldTimeStamp_def FieldUnknown_def IsBLOB_def)

lemma two_slots: "rppLoop 9 4 2 = 2" unfolding numeral_2_eq_2 by simp

lemma small_layout: "recordSize (computeLayout 9 pairColumns) = 4" "nullFlagBytes (computeLayout 9 pairColumns) = 1"
  "columns (computeLayout 9 pairColumns) = pairColumns" "bitmapBytes (computeLayout 9 pairColumns) = 1"
  "fieldOffsets (computeLayout 9 pairColumns) = [0, 2]" "fieldStoreSizes (computeLayout 9 pairColumns) = [2, 1]"
  "fieldDataSize (computeLayout 9 pairColumns) = 3" "recsPerPage (computeLayout 9 pairColumns) = 2"
  by (simp_all add: computeLayout_def pairColumns_def sampleColumn_def Let_def two_slots recordsPerPage_def
      fieldStoreSize_def fixedFieldStoreSize_def bft_consts)

lemma pair_nth: "pairColumns ! 0 = sampleColumn 65 BftLogical FieldUnknown 0 1"
  "pairColumns ! Suc 0 = sampleColumn 66 BftInt8 FieldUnknown 0 2" "length pairColumns = 2"
  by (simp_all add: pairColumns_def)

lemma zeros4: "zeros 4 = [0, 0, 0, 0]" by (simp add: zeros_def numeral_eq_Suc)

lemma pair_record: "encodeRecord enc (computeLayout 9 pairColumns) [GBool True, GInt (- 2)] = Inr [0xFC, 1, 0, 0xFE]"
proof -
  have fr: "setSpareNullFlags (computeLayout 9 pairColumns) (zeros 4) = [0xFC, 0, 0, 0]"
    by (simp add: setSpareNullFlags_def small_layout pair_nth zeros4 Let_def del: computeLayout_simps)
  show ?thesis
    by (simp add: encodeRecord_def checkLayout_def small_layout fr Let_def encodeInto_def pair_nth pair_fields [simplified] slc_def splice_def
        flagRecord_def setNullFlag_def andNotBit_def bitMask_def del: computeLayout_simps)
qed

definition smallPage :: "byte list" where "smallPage = [1, 0xFC, 1, 0, 0xFE, 0, 0, 0, 0]"

definition plainCodec :: codec where "plainCodec = \<lparr>ansiEncode = Some, ansiDecode = Some\<rparr>"

lemma plainCodec_lawful: "lawful_codec plainCodec"
  by (simp add: lawful_codec_def plainCodec_def)

lemma pair_stamp: "stampColumns pairColumns" "FieldUnknown \<noteq> FieldTimeStamp"
  by (simp_all add: stampColumns_def pairColumns_def sampleColumn_def FieldTimeStamp_def FieldUnknown_def)

lemma pair_nanFree: "length vs \<le> 2 \<Longrightarrow> nanFree pairColumns vs"
proof -
  assume "length vs \<le> 2"
  then have "BaseType (pairColumns ! j) \<noteq> BftSingle" if "j < length vs" for j
    using that less_2_cases [of j] by (auto simp: pair_nth sampleColumn_def bft_consts)
  then show ?thesis by (simp add: nanFree_def)
qed

lemma pair_rows_nanFree: "pageRow cd (computeLayout p pairColumns) payload slot = Some (Inr vs) \<Longrightarrow> nanFree pairColumns vs"
  using decodeColumns_nth(1) by (intro pair_nanFree) (fastforce simp: pageRow_def decodeRowValues_def pair_nth)

definition wideColumns :: "Column list" where
  "wideColumns = addColumnAt (sampleColumn 67 BftLogical FieldUnknown 0 1) pairColumns"

lemma wide_nth: "wideColumns ! 0 = sampleColumn 65 BftLogical FieldUnknown 0 1"
  "wideColumns ! Suc 0 = sampleColumn 66 BftInt8 FieldUnknown 0 2"
  "wideColumns ! 2 = sampleColumn 67 BftLogical FieldUnknown 0 1\<lparr>Position := 2\<rparr>" "length wideColumns = 3"
  by (simp_all add: wideColumns_def addColumnAt_def pairColumns_def)

lemma one_slot: "rppLoop 9 6 (Suc 0) = 1" by simp

lemma wide_layout: "recordSize (computeLayout 9 wideColumns) = 6" "nullFlagBytes (computeLayout 9 wideColumns) = 1"
  "columns (computeLayout 9 wideColumns) = wideColumns" "bitmapBytes (computeLayout 9 wideColumns) = 1"
  "fieldOffsets (computeLayout 9 wideColumns) = [0, 2, 3]" "fieldStoreSizes (computeLayout 9 wideColumns) = [2, 1, 2]"
  "recsPerPage (computeLayout 9 wideColumns) = 1"
  by (simp_all add: computeLayout_def wideColumns_def addColumnAt_def pairColumns_def sampleColumn_def Let_def one_slot recordsPerPage_def
      fieldStoreSize_def fixedFieldStoreSize_def bft_consts)

lemma zeros_small: "zeros 2 = [0, 0]" "zeros 6 = [0, 0, 0, 0, 0, 0]" "zeros 9 = [0, 0, 0, 0, 0, 0, 0, 0, 0]"
  by (simp_all add: zeros_def numeral_eq_Suc)

lemma wide_record: "encodeRecord enc (computeLayout 9 wideColumns) [GBool True, GInt (- 2), GNil] = Inr [0xFC, 1, 0, 0xFE, 0, 0]"
proof -
  have fr: "setSpareNullFlags (computeLayout 9 wideColumns) (zeros 6) = [0xF8, 0, 0, 0, 0, 0]"
    by (simp add: setSpareNullFlags_def wide_layout wide_nth zeros_small Let_def del: computeLayout_simps)
  have put: "encodeInto enc (computeLayout 9 wideColumns) [0xF8, 0, 0, 0, 0, 0] 0 (GBool True) = Inr [0xF8, 1, 0, 0, 0, 0]"
    "encodeInto enc (computeLayout 9 wideColumns) [0xF8, 1, 0, 0, 0, 0] 1 (GInt (- 2)) = Inr [0xF8, 1, 0, 0xFE, 0, 0]"
    "encodeInto enc (computeLayout 9 wideColumns) [0xF8, 1, 0, 0xFE, 0, 0] 2 GNil = Inr [0xFC, 1, 0, 0xFE, 0, 0]"
    by (simp_all add: checkLayout_def wide_layout Let_def encodeInto_def wide_nth pair_fields [simplified] slc_def splice_def
        flagRecord_def setNullFlag_def andNotBit_def orBit_def bitMask_def zeros_small del: computeLayout_simps)
  then show ?thesis
    by (simp add: encodeRecord_def checkLayout_def wide_layout fr wide_nth del: computeLayout_simps)
qed

lemma small_start: "recordSlotStart (computeLayout 9 pairColumns) smallPage slot = (if slot = 0 then Some 1 else None)"
proof -
  have "slot \<noteq> 0 \<Longrightarrow> slot \<noteq> 1 \<Longrightarrow> \<not> slot < 2" by simp
  then show ?thesis
    by (cases "slot = 0"; cases "slot = 1")
      (simp_all add: recordSlotStart_def small_layout smallPage_def bitSet_def testBit_def bitMask_def Let_def del: computeLayout_simps)
qed

lemma small_row: "decodeRowValues (ansiDecode plainCodec) (computeLayout 9 pairColumns) (slotRow (computeLayout 9 pairColumns) smallPage 1)
    = Inr [GBool True, GInt (- 2)]"
proof -
  have "row_ok pairColumns [GBool True, GInt (- 2)]"
    by (simp add: row_ok_def pair_stamp pair_nanFree goval_ok_def)
  from encodeRecord_spec(3) [OF pair_record plainCodec_lawful this]
  have "decodeRowValues (ansiDecode plainCodec) (computeLayout 9 pairColumns) (rowOf (computeLayout 9 pairColumns) [0xFC, 1, 0, 0xFE])
      = Inr [GBool True, GInt (- 2)]"
    by (simp add: storedRow_def pairColumns_def storedValue_def sampleColumn_def bft_consts)
  moreover have "slotRow (computeLayout 9 pairColumns) smallPage 1 = rowOf (computeLayout 9 pairColumns) [0xFC, 1, 0, 0xFE]"
    by (simp add: slotRow_def rowOf_def rowAt_def small_layout smallPage_def slc_def numeral_3_eq_3 del: computeLayout_simps)
  ultimately show ?thesis by simp
qed

lemma small_added: "rewriteDataPage plainCodec (computeLayout 9 pairColumns) (computeLayout 9 wideColumns) addNull smallPage
    = Inr [1, 0xFC, 1, 0, 0xFE, 0, 0, 0, 0]"
proof -
  have "[0..<2] = [0, 1]" by (simp add: upt_rec)
  moreover have "length smallPage = 9" by (simp add: smallPage_def)
  ultimately show ?thesis
    by (simp add: rewriteDataPage_def small_layout small_start small_row addNull_def wide_record wide_layout Let_def
       zeros_small take_Cons' splice_def setBit_def orBit_def bitMask_def del: computeLayout_simps One_nat_def)
qed





lemma drop_columns: "dropColumnAt pairColumns 0 = [sampleColumn 66 BftInt8 FieldUnknown 0 2\<lparr>Position := 0\<rparr>]"
  by (simp add: dropColumnAt_def pairColumns_def)

definition narrowColumns :: "Column list" where "narrowColumns = dropColumnAt pairColumns 0"

lemma four_slots: "rppLoop 9 (Suc (Suc 0)) (9 div Suc (Suc 0)) = 4"
proof -
  have "(9 :: nat) div Suc (Suc 0) = Suc (Suc (Suc (Suc 0)))" by (intro div_nat_eqI) simp_all
  then show ?thesis by (simp only: rppLoop.simps) simp
qed

lemma narrow_layout: "recordSize (computeLayout 9 narrowColumns) = 2" "nullFlagBytes (computeLayout 9 narrowColumns) = 1"
  "columns (computeLayout 9 narrowColumns) = narrowColumns" "bitmapBytes (computeLayout 9 narrowColumns) = 1"
  "fieldOffsets (computeLayout 9 narrowColumns) = [0]" "fieldStoreSizes (computeLayout 9 narrowColumns) = [1]"
  "recsPerPage (computeLayout 9 narrowColumns) = 4" "length narrowColumns = 1"
  "narrowColumns ! 0 = sampleColumn 66 BftInt8 FieldUnknown 0 2\<lparr>Position := 0\<rparr>"
  by (simp_all add: computeLayout_def narrowColumns_def drop_columns sampleColumn_def Let_def four_slots recordsPerPage_def
      fieldStoreSize_def fixedFieldStoreSize_def bft_consts)

lemma narrow_field: "encodeField enc (sampleColumn 66 BftInt8 FieldUnknown 0 n\<lparr>Position := 0\<rparr>) [b] (GInt (- 2)) = Inr [0xFE]"
  "\<not> IsBLOB (sampleColumn 66 BftInt8 FieldUnknown 0 n\<lparr>Position := 0\<rparr>)"
  by (simp_all add: encodeField_def sampleColumn_def Let_def bft_consts integerStorage_def encodeInteger_def
        integerValue_def integerBounds_def zeros_def FieldTimeStamp_def FieldUnknown_def IsBLOB_def)

lemma narrow_record: "encodeRecord enc (computeLayout 9 narrowColumns) [GInt (- 2)] = Inr [0xFE, 0xFE]"
proof -
  have fr: "setSpareNullFlags (computeLayout 9 narrowColumns) (zeros 2) = [0xFE, 0]"
    by (simp add: setSpareNullFlags_def narrow_layout zeros_small Let_def del: computeLayout_simps)
  show ?thesis
    by (simp add: encodeRecord_def checkLayout_def narrow_layout fr Let_def encodeInto_def narrow_field slc_def splice_def
        flagRecord_def setNullFlag_def andNotBit_def bitMask_def del: computeLayout_simps)
qed

lemma small_dropped: "rewriteDataPage plainCodec (computeLayout 9 pairColumns) (computeLayout 9 narrowColumns) (dropValue 0) smallPage
    = Inr [1, 0xFE, 0xFE, 0, 0, 0, 0, 0, 0]"
proof -
  have "[0..<2] = [0, 1]" by (simp add: upt_rec)
  moreover have "length smallPage = 9" by (simp add: smallPage_def)
  ultimately show ?thesis
    by (simp add: rewriteDataPage_def small_layout small_start small_row dropValue_def narrow_record narrow_layout Let_def
       zeros_small take_Cons' drop_Cons' splice_def setBit_def orBit_def bitMask_def del: computeLayout_simps One_nat_def)
qed

lemma small_before: "length smallPage = 9"
  "pageRow plainCodec (computeLayout 9 pairColumns) smallPage 0 = Some (Inr [GBool True, GInt (- 2)])"
  using small_row by (simp add: smallPage_def, simp add: pageRow_def small_start)







section \<open>Properties\<close>

text \<open>C0. A record that \<open>encodeRecord\<close> accepts reads back: \<open>decodeRowValues\<close> gives every column's value as
  the column stores it (an unsigned integer as an integer, a float widened, a time without its zone), NULL for
  nil; the record has the layout's size. The text codec is assumed to decode what it encodes.\<close>

theorem encoded_record_reads_back:
  assumes "encodeRecord (ansiEncode cd) (computeLayout p cols) vs = Inr rec" and "lawful_codec cd" and "row_ok cols vs"
  shows "length rec = recordSize (computeLayout p cols)
    \<and> decodeRowValues (ansiDecode cd) (computeLayout p cols) (rowOf (computeLayout p cols) rec)
      = Inr (map2 (\<lambda>c v. if v = GNil then GNil else storedValue c v) cols vs)"
  using encodeRecord_spec [OF assms] by (simp add: storedRow_def)

lemma encoded_record_reads_back_witness:
  "encodeRecord (ansiEncode plainCodec) (computeLayout 9 pairColumns) [GBool True, GInt (- 2)] = Inr [0xFC, 1, 0, 0xFE]
   \<and> decodeRowValues (ansiDecode plainCodec) (computeLayout 9 pairColumns) (rowOf (computeLayout 9 pairColumns) [0xFC, 1, 0, 0xFE])
     = Inr [GBool True, GInt (- 2)]"
proof -
  have "row_ok pairColumns [GBool True, GInt (- 2)]"
    by (simp add: row_ok_def pair_stamp pair_nanFree goval_ok_def)
  from encoded_record_reads_back [OF pair_record plainCodec_lawful this]
  have "decodeRowValues (ansiDecode plainCodec) (computeLayout 9 pairColumns) (rowOf (computeLayout 9 pairColumns) [0xFC, 1, 0, 0xFE])
      = Inr (map2 (\<lambda>c v. if v = GNil then GNil else storedValue c v) pairColumns [GBool True, GInt (- 2)])" ..
  moreover have "map2 (\<lambda>c v. if v = GNil then GNil else storedValue c v) pairColumns [GBool True, GInt (- 2)] = [GBool True, GInt (- 2)]"
    by (simp add: pairColumns_def storedValue_def sampleColumn_def bft_consts)
  ultimately show ?thesis using pair_record by simp
qed

text \<open>C18. \<open>rewriteDataPage\<close>, run with the new schema of \<open>AddColumn\<close>, keeps every record in its slot:
  the slots that are taken stay taken, the free ones stay free, and each row reads back under the new layout
  as it read under the old one with a NULL appended. Rows with a NaN in a Single column are left out.\<close>

theorem add_column_keeps_rows:
  assumes "rewriteDataPage cd (computeLayout (int (length payload)) cols)
      (computeLayout (int (length payload)) (addColumnAt c cols)) addNull payload = Inr out"
    and "lawful_codec cd" and "stampColumns (c # cols)"
    and "\<forall>slot vs. pageRow cd (computeLayout (int (length payload)) cols) payload slot = Some (Inr vs) \<longrightarrow> nanFree cols vs"
  shows "length out = length payload
    \<and> (case pageRow cd (computeLayout (int (length payload)) cols) payload slot of
        None \<Rightarrow> pageRow cd (computeLayout (int (length payload)) (addColumnAt c cols)) out slot = None
      | Some r \<Rightarrow> \<exists>vs. r = Inr vs
          \<and> pageRow cd (computeLayout (int (length payload)) (addColumnAt c cols)) out slot = Some (Inr (vs @ [GNil])))"
proof -
  have "stampColumns (addColumnAt c cols)" using assms(3) by (auto simp: stampColumns_def addColumnAt_def)
  note page = rewritten_page [OF assms(1,2) this moves_addNull assms(4) bitmap_room]
  show ?thesis using page(1) page(2) [of slot] unfolding addNull_def by (rule conjI)
qed

lemma add_column_keeps_rows_witness:
  "rewriteDataPage plainCodec (computeLayout 9 pairColumns) (computeLayout 9 wideColumns) addNull smallPage
     = Inr [1, 0xFC, 1, 0, 0xFE, 0, 0, 0, 0]
   \<and> pageRow plainCodec (computeLayout 9 wideColumns) [1, 0xFC, 1, 0, 0xFE, 0, 0, 0, 0] 0
     = Some (Inr [GBool True, GInt (- 2), GNil])"
proof -
  have n: "int (length smallPage) = 9" by (simp add: small_before)
  have "stampColumns (sampleColumn 67 BftLogical FieldUnknown 0 1 # pairColumns)"
    using pair_stamp by (simp add: stampColumns_def sampleColumn_def)
  from add_column_keeps_rows [of plainCodec smallPage pairColumns "sampleColumn 67 BftLogical FieldUnknown 0 1", unfolded n,
      folded wideColumns_def, OF small_added plainCodec_lawful this, of 0]
  show ?thesis using small_added small_before(2) pair_rows_nanFree by auto
qed

text \<open>C19. The same for \<open>DropColumn\<close>: every record keeps its slot and every remaining column its value.\<close>

theorem drop_column_keeps_rows:
  assumes "rewriteDataPage cd (computeLayout (int (length payload)) cols)
      (computeLayout (int (length payload)) (dropColumnAt cols i)) (dropValue i) payload = Inr out"
    and "i < length cols" and "lawful_codec cd" and "stampColumns cols"
    and "\<forall>slot vs. pageRow cd (computeLayout (int (length payload)) cols) payload slot = Some (Inr vs) \<longrightarrow> nanFree cols vs"
  shows "length out = length payload
    \<and> (case pageRow cd (computeLayout (int (length payload)) cols) payload slot of
        None \<Rightarrow> pageRow cd (computeLayout (int (length payload)) (dropColumnAt cols i)) out slot = None
      | Some r \<Rightarrow> \<exists>vs. r = Inr vs
          \<and> pageRow cd (computeLayout (int (length payload)) (dropColumnAt cols i)) out slot
            = Some (Inr (take i vs @ drop (i + 1) vs)))"
proof -
  have "stampColumns (dropColumnAt cols i)"
    using assms(4) renumber_types [of _ 0 "take i cols @ drop (i + 1) cols"] set_take_subset [of i cols] set_drop_subset [of "i + 1" cols]
    unfolding stampColumns_def dropColumnAt_def by fastforce
  note page = rewritten_page [OF assms(1,3) this moves_dropValue [OF assms(2)] assms(5) bitmap_room]
  show ?thesis using page(1) page(2) [of slot] unfolding dropValue_def by (rule conjI)
qed

lemma drop_column_keeps_rows_witness:
  "rewriteDataPage plainCodec (computeLayout 9 pairColumns) (computeLayout 9 narrowColumns) (dropValue 0) smallPage
     = Inr [1, 0xFE, 0xFE, 0, 0, 0, 0, 0, 0]
   \<and> pageRow plainCodec (computeLayout 9 narrowColumns) [1, 0xFE, 0xFE, 0, 0, 0, 0, 0, 0] 0 = Some (Inr [GInt (- 2)])"
proof -
  have n: "int (length smallPage) = 9" by (simp add: small_before)
  from drop_column_keeps_rows [of plainCodec smallPage pairColumns 0, unfolded n,
      folded narrowColumns_def, OF small_dropped _ plainCodec_lawful pair_stamp(1), of 0]
  show ?thesis using small_dropped small_before(2) pair_rows_nanFree pair_nth(3) by auto
qed








end
