(* ===== verification/Parsers.thy ===== *)
theory Parsers
  imports Prelude
begin

text \<open>
  The shape of the stream readers of \<open>schema.go\<close>, \<open>ddl_index.go\<close> and
  \<open>ddl_constraint.go\<close>: a function takes the bytes and a position and returns a value with
  the position after it, or an error. \<open>bindP\<close> is their \<open>x, pos, err = read(data, pos)\<close>
  followed by \<open>if err != nil\<close>. Indexing and slicing panic out of range, as Go's do, so that
  the absence of panics is a theorem about the readers.

  Three notions carry the proofs. \<open>reads m x bs\<close>: wherever the bytes \<open>bs\<close> stand, \<open>m\<close>
  reads \<open>x\<close> and stops behind them. \<open>safe m\<close>: \<open>m\<close> does not panic and stays inside the
  stream. \<open>exact m put\<close>: the bytes \<open>m\<close> consumed are the bytes \<open>put\<close> writes for its value.
\<close>

type_synonym 'a scan = "byte list \<Rightarrow> nat \<Rightarrow> ('a \<times> nat) result"

definition retP :: "'a \<Rightarrow> 'a scan" where
  "retP x data pos = Inr (x, pos)"

definition failP :: "err \<Rightarrow> 'a scan" where
  "failP e data pos = Inl e"

definition bindP :: "'a scan \<Rightarrow> ('a \<Rightarrow> 'b scan) \<Rightarrow> 'b scan" where
  "bindP m f data pos = (case m data pos of Inl e \<Rightarrow> Inl e | Inr (x, pos') \<Rightarrow> f x data pos')"

text \<open>\<open>if !ok { return err }\<close>, and the guards on what is left of the stream.\<close>

definition guardP :: "bool \<Rightarrow> err \<Rightarrow> unit scan" where
  "guardP ok e data pos = (if ok then Inr ((), pos) else Inl e)"

definition roomP :: "nat \<Rightarrow> err \<Rightarrow> unit scan" where
  "roomP n e data pos = (if pos + n > length data then Inl e else Inr ((), pos))"

text \<open>\<open>data[pos]\<close> and \<open>data[pos : pos+n]\<close> with the position moved behind them.\<close>

definition byteP :: "byte scan" where
  "byteP data pos = (if pos < length data then Inr (data ! pos, pos + 1) else Inl GoPanic)"

definition bytesP :: "nat \<Rightarrow> byte list scan" where
  "bytesP n data pos =
     (if pos + n \<le> length data then Inr (slc pos (pos + n) data, pos + n) else Inl GoPanic)"

text \<open>The two as the code guards them: an error when the stream ends before.\<close>

definition nextByte :: "err \<Rightarrow> byte scan" where
  "nextByte e = bindP (roomP 1 e) (\<lambda>_. byteP)"

definition nextBytes :: "nat \<Rightarrow> err \<Rightarrow> byte list scan" where
  "nextBytes n e = bindP (roomP n e) (\<lambda>_. bytesP n)"

definition posP :: "nat scan" where
  "posP data pos = Inr (pos, pos)"

text \<open>An error wrapped with \<open>%w\<close> in another one: the outer one is reported. A panic is not caught.\<close>

definition wrapP :: "err \<Rightarrow> 'a scan \<Rightarrow> 'a scan" where
  "wrapP e m data pos = (case m data pos of Inl e' \<Rightarrow> Inl (if e' = GoPanic then GoPanic else e) | Inr r \<Rightarrow> Inr r)"

definition liftP :: "'a result \<Rightarrow> 'a scan" where
  "liftP r data pos = (case r of Inl e \<Rightarrow> Inl e | Inr x \<Rightarrow> Inr (x, pos))"

text \<open>\<open>for i := range n\<close> over records that follow one another.\<close>

fun manyP :: "(nat \<Rightarrow> 'a scan) \<Rightarrow> nat \<Rightarrow> nat \<Rightarrow> 'a list scan" where
  "manyP m i 0 = retP []"
| "manyP m i (Suc n) = bindP (m i) (\<lambda>x. bindP (manyP m (Suc i) n) (\<lambda>xs. retP (x # xs)))"

lemma bindP_runs [simp]:
  "bindP (retP x) f = f x"
  "bindP (failP e) f = failP e"
  by (auto simp: bindP_def retP_def failP_def fun_eq_iff)

lemma bindP_eq_Inr [simp]:
  "bindP m f data pos = Inr r \<longleftrightarrow> (\<exists>x p. m data pos = Inr (x, p) \<and> f x data p = Inr r)"
  by (auto simp: bindP_def split: sum.splits prod.splits)

lemma prim_eq_Inr [simp]:
  "retP x data pos = Inr r \<longleftrightarrow> r = (x, pos)"
  "\<not> failP e data pos = Inr r"
  "guardP ok e data pos = Inr u \<longleftrightarrow> ok \<and> u = ((), pos)"
  "roomP n e data pos = Inr u \<longleftrightarrow> pos + n \<le> length data \<and> u = ((), pos)"
  "byteP data pos = Inr s \<longleftrightarrow> pos < length data \<and> s = (data ! pos, pos + 1)"
  "bytesP n data pos = Inr t \<longleftrightarrow> pos + n \<le> length data \<and> t = (slc pos (pos + n) data, pos + n)"
  "posP data pos = Inr q \<longleftrightarrow> q = (pos, pos)"
  "nextByte e data pos = Inr s \<longleftrightarrow> pos < length data \<and> s = (data ! pos, pos + 1)"
  "nextBytes n e data pos = Inr t \<longleftrightarrow> pos + n \<le> length data \<and> t = (slc pos (pos + n) data, pos + n)"
  "wrapP e' m data pos = Inr v \<longleftrightarrow> m data pos = Inr v"
  "liftP y data pos = Inr z \<longleftrightarrow> (\<exists>x. y = Inr x \<and> z = (x, pos))"
  by (auto simp: retP_def failP_def guardP_def roomP_def byteP_def bytesP_def posP_def nextByte_def
      nextBytes_def wrapP_def liftP_def bindP_def split: sum.splits)

lemma length_manyP: "manyP m i n data pos = Inr (xs, p) \<Longrightarrow> length xs = n"
  by (induction n arbitrary: i pos xs) auto

section \<open>Reading what was written\<close>

definition reads :: "'a scan \<Rightarrow> 'a \<Rightarrow> byte list \<Rightarrow> bool" where
  "reads m x bs \<longleftrightarrow> (\<forall>pre post. m (pre @ bs @ post) (length pre) = Inr (x, length pre + length bs))"

named_theorems reads_intros

lemma readsD: "reads m x bs \<Longrightarrow> m (pre @ bs @ post) (length pre) = Inr (x, length pre + length bs)"
  by (simp add: reads_def)

lemma reads_ret [reads_intros]: "reads (retP x) x []"
  by (simp add: reads_def)

lemma reads_bind [reads_intros]:
  assumes "reads m x a" and "reads (f x) y b"
  shows "reads (bindP m f) y (a @ b)"
  unfolding reads_def
proof (intro allI)
  fix pre post
  have "m (pre @ a @ b @ post) (length pre) = Inr (x, length (pre @ a))" using readsD [OF assms(1)] by simp
  moreover have "f x ((pre @ a) @ b @ post) (length (pre @ a)) = Inr (y, length (pre @ a) + length b)"
    by (rule readsD [OF assms(2)])
  ultimately show "bindP m f (pre @ (a @ b) @ post) (length pre) = Inr (y, length pre + length (a @ b))"
    by (simp add: bindP_def add.assoc)
qed

lemma reads_last: "reads m x a \<Longrightarrow> reads (f x) y [] \<Longrightarrow> reads (bindP m f) y a"
  using reads_bind [of m x a f y "[]"] by simp

lemma reads_guard [reads_intros]: "ok \<Longrightarrow> reads (f ()) y b \<Longrightarrow> reads (bindP (guardP ok e) f) y b"
  using reads_bind [of "guardP ok e" "()" "[]" f y b] by (simp add: reads_def)

lemma reads_room [reads_intros]:
  assumes "n \<le> length b" and "reads (f ()) y b"
  shows "reads (bindP (roomP n e) f) y b"
  using assms by (simp add: reads_def bindP_def roomP_def)

lemma reads_byte [reads_intros]: "reads (nextByte e) b [b]"
  by (simp add: reads_def)

lemma reads_bytes [reads_intros]: "n = length bs \<Longrightarrow> reads (nextBytes n e) bs bs"
  by (simp add: reads_def slc_def)

lemma reads_wrap [reads_intros]: "reads m x bs \<Longrightarrow> reads (wrapP e m) x bs"
  by (simp add: reads_def)

lemma reads_lift [reads_intros]: "r = Inr x \<Longrightarrow> reads (liftP r) x []"
  by (simp add: reads_def)

lemma reads_many:
  assumes "\<And>k. k < length xs \<Longrightarrow> reads (m (i + k)) (xs ! k) (bss ! k)" and "length bss = length xs"
  shows "reads (manyP m i (length xs)) xs (concat bss)"
  using assms
proof (induction xs arbitrary: i bss)
  case (Cons x xs)
  then obtain b bs where bss: "bss = b # bs" by (cases bss) auto
  have hd: "reads (m i) x b" using Cons.prems(1) [of 0] bss by simp
  have "reads (manyP m (Suc i) (length xs)) xs (concat bs)"
    using Cons.prems(2) Cons.prems(1) [of "Suc k" for k] bss by (intro Cons.IH) simp_all
  from reads_bind [OF hd, OF reads_bind [OF this, OF reads_ret]]
  have "reads (manyP m i (Suc (length xs))) (x # xs) (b @ concat bs @ [])" by simp
  then show ?case by (simp add: bss)
qed (simp add: reads_ret)

section \<open>Staying inside the stream\<close>

definition safe :: "'a scan \<Rightarrow> bool" where
  "safe m \<longleftrightarrow> (\<forall>data pos. pos \<le> length data \<longrightarrow>
     (case m data pos of Inl e \<Rightarrow> e \<noteq> GoPanic | Inr (x, p) \<Rightarrow> pos \<le> p \<and> p \<le> length data))"

named_theorems safe_intros

lemma safeD:
  assumes "safe m" and "pos \<le> length data"
  shows "m data pos \<noteq> Inl GoPanic" and "m data pos = Inr (x, p) \<Longrightarrow> pos \<le> p \<and> p \<le> length data"
proof -
  have "case m data pos of Inl e \<Rightarrow> e \<noteq> GoPanic | Inr (x, p) \<Rightarrow> pos \<le> p \<and> p \<le> length data"
    using assms by (simp add: safe_def)
  then show "m data pos \<noteq> Inl GoPanic" and "m data pos = Inr (x, p) \<Longrightarrow> pos \<le> p \<and> p \<le> length data" by auto
qed

lemma safe_ret [safe_intros]: "safe (retP x)"
  by (simp add: safe_def retP_def)

lemma safe_fail [safe_intros]: "e \<noteq> GoPanic \<Longrightarrow> safe (failP e)"
  by (simp add: safe_def failP_def)

lemma safe_guard [safe_intros]: "e \<noteq> GoPanic \<Longrightarrow> safe (guardP ok e)"
  by (simp add: safe_def guardP_def)

lemma safe_pos [safe_intros]: "safe posP"
  by (simp add: safe_def posP_def)

lemma safe_bind_within:
  assumes "pos \<le> length data" and "case m data pos of Inl e \<Rightarrow> e \<noteq> GoPanic | Inr (x, q) \<Rightarrow> pos \<le> q \<and> q \<le> length data"
    and "\<And>x q. m data pos = Inr (x, q) \<Longrightarrow> pos \<le> q \<Longrightarrow> q \<le> length data \<Longrightarrow>
      (case f x data q of Inl e \<Rightarrow> e \<noteq> GoPanic | Inr (y, p) \<Rightarrow> q \<le> p \<and> p \<le> length data)"
  shows "case bindP m f data pos of Inl e \<Rightarrow> e \<noteq> GoPanic | Inr (y, p) \<Rightarrow> pos \<le> p \<and> p \<le> length data"
proof (cases "m data pos")
  case (Inl e)
  then show ?thesis using assms(2) by (simp add: bindP_def)
next
  case (Inr r)
  obtain x q where r: "r = (x, q)" by (cases r)
  then have "pos \<le> q" "q \<le> length data" using assms(2) Inr by auto
  with assms(3) [of x q] Inr r show ?thesis
    by (cases "f x data q") (auto simp: bindP_def)
qed

lemma safe_bind [safe_intros]: "safe m \<Longrightarrow> (\<And>x. safe (f x)) \<Longrightarrow> safe (bindP m f)"
  unfolding safe_def by (intro allI impI safe_bind_within) blast+

lemma next_runs:
  "roomP n e data pos = (if pos + n \<le> length data then Inr ((), pos) else Inl e)"
  "nextByte e data pos = (if pos < length data then Inr (data ! pos, pos + 1) else Inl e)"
  "nextBytes n e data pos = (if pos + n \<le> length data then Inr (slc pos (pos + n) data, pos + n) else Inl e)"
  by (simp_all add: nextByte_def nextBytes_def bindP_def roomP_def byteP_def bytesP_def)

lemma safe_next [safe_intros]:
  "e \<noteq> GoPanic \<Longrightarrow> safe (roomP n e)"
  "e \<noteq> GoPanic \<Longrightarrow> safe (nextByte e)"
  "e \<noteq> GoPanic \<Longrightarrow> safe (nextBytes n e)"
  by (simp_all add: safe_def next_runs)

lemma safe_lift [safe_intros]: "r \<noteq> Inl GoPanic \<Longrightarrow> safe (liftP r)"
  by (cases r) (simp_all add: safe_def liftP_def)

lemma safe_wrap [safe_intros]: "safe m \<Longrightarrow> e \<noteq> GoPanic \<Longrightarrow> safe (wrapP e m)"
  unfolding safe_def
proof (intro allI impI)
  fix data :: "byte list" and pos
  assume m: "\<forall>data pos. pos \<le> length data \<longrightarrow>
     (case m data pos of Inl e \<Rightarrow> e \<noteq> GoPanic | Inr (x, p) \<Rightarrow> pos \<le> p \<and> p \<le> length data)"
    and e: "e \<noteq> GoPanic" and le: "pos \<le> length data"
  show "case wrapP e m data pos of Inl e \<Rightarrow> e \<noteq> GoPanic | Inr (x, p) \<Rightarrow> pos \<le> p \<and> p \<le> length data"
    using m [rule_format, OF le] e by (cases "m data pos") (simp_all add: wrapP_def)
qed

lemma safe_many [safe_intros]: "(\<And>i. safe (m i)) \<Longrightarrow> safe (manyP m i n)"
  by (induction n arbitrary: i) (auto intro!: safe_intros)

lemma safe_if [safe_intros]:
  "(b \<Longrightarrow> safe m) \<Longrightarrow> (\<not> b \<Longrightarrow> safe k) \<Longrightarrow> safe (if b then m else k)"
  by simp

section \<open>What was consumed\<close>

text \<open>
  \<open>consumes m R\<close>: whenever \<open>m\<close> succeeds, \<open>R\<close> relates its value to the bytes it stepped
  over. The relation of a composed reader is computed from those of its parts, so a reader's
  format is read off its definition.
\<close>

definition consumes :: "'a scan \<Rightarrow> ('a \<Rightarrow> byte list \<Rightarrow> bool) \<Rightarrow> bool" where
  "consumes m R \<longleftrightarrow> (\<forall>data pos x p. pos \<le> length data \<longrightarrow> m data pos = Inr (x, p) \<longrightarrow>
     pos \<le> p \<and> p \<le> length data \<and> R x (slc pos p data))"

named_theorems consumes_intros

lemma consumesD:
  assumes "consumes m R" and "m data pos = Inr (x, p)" and "pos \<le> length data"
  shows "pos \<le> p" and "p \<le> length data" and "R x (slc pos p data)"
  using assms unfolding consumes_def by blast+

lemma slc_one: "pos < length data \<Longrightarrow> slc pos (pos + 1) data = [data ! pos]"
  by (simp add: slc_def Cons_nth_drop_Suc [symmetric])

lemma consumes_prims [consumes_intros]:
  "consumes (retP x) (\<lambda>y bs. y = x \<and> bs = [])"
  "consumes (failP e) (\<lambda>y bs. False)"
  "consumes (guardP ok e) (\<lambda>y bs. ok \<and> bs = [])"
  "consumes (roomP n e) (\<lambda>y bs. bs = [])"
  "consumes (nextByte e) (\<lambda>b bs. bs = [b])"
  "consumes (nextBytes n e) (\<lambda>y bs. bs = y \<and> length y = n)"
  "consumes posP (\<lambda>y bs. bs = [])"
  "consumes (liftP r) (\<lambda>y bs. r = Inr y \<and> bs = [])"
  unfolding consumes_def by (simp_all add: slc_one [simplified], simp_all add: slc_def)

lemma consumes_bind [consumes_intros]:
  assumes "consumes m R" and "\<And>x. consumes (f x) (S x)"
  shows "consumes (bindP m f) (\<lambda>y bs. \<exists>x a b. bs = a @ b \<and> R x a \<and> S x y b)"
  unfolding consumes_def
proof (intro allI impI)
  fix data :: "byte list" and pos y p assume le: "pos \<le> length data" and "bindP m f data pos = Inr (y, p)"
  then obtain x q where m: "m data pos = Inr (x, q)" and f: "f x data q = Inr (y, p)" by auto
  note 1 = consumesD [OF assms(1) m le]
  note 2 = consumesD [OF assms(2) f 1(2)]
  have "slc pos p data = slc pos q data @ slc q p data" using 1 2 slc_join by metis
  then show "pos \<le> p \<and> p \<le> length data \<and> (\<exists>x a b. slc pos p data = a @ b \<and> R x a \<and> S x y b)"
    using 1 2 by (meson order_trans)
qed

lemma consumes_if [consumes_intros]:
  "consumes m R \<Longrightarrow> consumes k S \<Longrightarrow>
   consumes (if c then m else k) (\<lambda>x bs. if c then R x bs else S x bs)"
  by simp

lemma consumes_wrap [consumes_intros]: "consumes m R \<Longrightarrow> consumes (wrapP e m) R"
  unfolding consumes_def prim_eq_Inr .

lemma consumes_weaken: "consumes m R \<Longrightarrow> (\<And>x bs. R x bs \<Longrightarrow> S x bs) \<Longrightarrow> consumes m S"
  unfolding consumes_def by blast

text \<open>Records that follow one another: the bytes are the concatenation of theirs.\<close>

lemma consumes_many [consumes_intros]:
  assumes "\<And>i. consumes (m i) (R i)"
  shows "consumes (manyP m i n) (\<lambda>xs bs. length xs = n \<and>
    (\<exists>bss. length bss = n \<and> bs = concat bss \<and> (\<forall>k < n. R (i + k) (xs ! k) (bss ! k))))"
proof (induction n arbitrary: i)
  case (Suc n)
  show ?case unfolding manyP.simps
  proof (rule consumes_weaken [OF consumes_bind [OF assms consumes_bind [OF Suc.IH consumes_prims(1)]]], elim exE conjE)
    fix ys bs y a b xs c d bss
    assume "bs = a @ b" "R i y a" "b = c @ d" "length xs = n" "length bss = n" "c = concat bss"
      "\<forall>k<n. R (Suc i + k) (xs ! k) (bss ! k)" "ys = y # xs" "d = []"
    then show "length ys = Suc n \<and> (\<exists>bss. length bss = Suc n \<and> bs = concat bss \<and> (\<forall>k<Suc n. R (i + k) (ys ! k) (bss ! k)))"
      by (intro conjI exI [of _ "a # bss"]) (auto simp: nth_Cons split: nat.splits)
  qed
qed (auto intro: consumes_weaken [OF consumes_prims(1)])

section \<open>Reading only what is consumed\<close>

text \<open>
  \<open>local m\<close>: a successful run of \<open>m\<close> depends on nothing but the bytes it steps over, so it
  succeeds with the same value wherever those bytes are moved to.
\<close>

definition local :: "'a scan \<Rightarrow> bool" where
  "local m \<longleftrightarrow> consumes m (reads m)"

named_theorems local_intros

lemma localD:
  assumes "local m" and "m data pos = Inr (x, p)" and "pos \<le> length data"
  shows "reads m x (slc pos p data)" and "pos \<le> p" and "p \<le> length data"
  using consumesD [of m "reads m"] assms by (auto simp: local_def)

lemma local_prims [local_intros]:
  "local (retP x)" "local (failP e)" "local (guardP ok e)" "local (nextByte e)" "local (nextBytes n e)"
  "local (liftP r)"
  unfolding local_def
  by (rule consumes_weaken [OF consumes_prims(1)] consumes_weaken [OF consumes_prims(2)]
      consumes_weaken [OF consumes_prims(3)] consumes_weaken [OF consumes_prims(5)]
      consumes_weaken [OF consumes_prims(6)] consumes_weaken [OF consumes_prims(8)];
    auto simp: reads_def slc_def)+

lemma local_wrap [local_intros]: "local m \<Longrightarrow> local (wrapP e m)"
  unfolding local_def by (rule consumes_weaken [OF consumes_wrap]) (assumption, rule reads_wrap)

lemma local_if [local_intros]: "local m \<Longrightarrow> local k \<Longrightarrow> local (if b then m else k)"
  by simp

lemma local_bind [local_intros]:
  assumes "local m" and "\<And>x. local (f x)"
  shows "local (bindP m f)"
  unfolding local_def
  by (rule consumes_weaken [OF consumes_bind])
    (use assms in \<open>auto simp: local_def intro: reads_bind\<close>)

text \<open>A check on what is left of the stream, made before at least that much is read.\<close>

lemma local_room:
  assumes "local (f ())" and "consumes (f ()) (\<lambda>x bs. n \<le> length bs)"
  shows "local (bindP (roomP n e) f)"
  unfolding local_def consumes_def
proof (intro allI impI)
  fix data :: "byte list" and pos x p assume le: "pos \<le> length data" and "bindP (roomP n e) f data pos = Inr (x, p)"
  then have f: "f () data pos = Inr (x, p)" by auto
  show "pos \<le> p \<and> p \<le> length data \<and> reads (bindP (roomP n e) f) x (slc pos p data)"
    using localD [OF assms(1) f le] consumesD(3) [OF assms(2) f le] by (blast intro: reads_room)
qed

lemma local_many [local_intros]: "(\<And>i. local (m i)) \<Longrightarrow> local (manyP m i n)"
  by (induction n arbitrary: i) (auto intro!: local_intros)

section \<open>An array of records\<close>

text \<open>
  The index and constraint arrays keep with each record the range of the stream it was read
  from, so that a caller can cut it out. \<open>spanP\<close> is that loop body; \<open>placed\<close> says which
  ranges records of given lengths occupy.
\<close>

definition spanP :: "(nat \<Rightarrow> nat \<Rightarrow> 'a \<Rightarrow> 'a) \<Rightarrow> 'a scan \<Rightarrow> 'a scan" where
  "spanP place m = bindP posP (\<lambda>s. bindP m (\<lambda>x. bindP posP (\<lambda>e. retP (place s e x))))"

fun placed :: "(nat \<Rightarrow> nat \<Rightarrow> 'a \<Rightarrow> 'a) \<Rightarrow> nat \<Rightarrow> 'a list \<Rightarrow> byte list list \<Rightarrow> 'a list" where
  "placed place pos (x # xs) (bs # bss) = place pos (pos + length bs) x # placed place (pos + length bs) xs bss"
| "placed place pos xs bss = []"

lemma length_placed [simp]: "length bss = length xs \<Longrightarrow> length (placed place pos xs bss) = length xs"
  by (induction place pos xs bss rule: placed.induct) auto

lemma safe_span [safe_intros]: "safe m \<Longrightarrow> safe (spanP place m)"
  unfolding spanP_def by (auto intro!: safe_intros)

locale record_array =
  fixes get :: "'a scan" and place :: "nat \<Rightarrow> nat \<Rightarrow> 'a \<Rightarrow> 'a"
  assumes get_local: "local get"
    and place_place: "place s e (place s' e' x) = place s e x"
begin

abbreviation getAll :: "nat \<Rightarrow> 'a list scan" where
  "getAll n \<equiv> manyP (\<lambda>i. spanP place get) 0 n"

text \<open>Records are read where they stand, and each is given its range.\<close>

lemma read_array:
  assumes "list_all2 (reads get) xs bss"
  shows "manyP (\<lambda>i. spanP place get) i (length xs) (pre @ concat bss @ post) (length pre)
    = Inr (placed place (length pre) xs bss, length pre + length (concat bss))"
  using assms
proof (induction xs bss arbitrary: pre i rule: list_all2_induct)
  case (Cons x xs bs bss)
  have "get (pre @ bs @ concat bss @ post) (length pre) = Inr (x, length pre + length bs)"
    by (rule readsD) fact
  moreover have "manyP (\<lambda>i. spanP place get) (Suc i) (length xs) (pre @ bs @ concat bss @ post) (length pre + length bs)
    = Inr (placed place (length pre + length bs) xs bss, length pre + length bs + length (concat bss))"
    using Cons.IH [of "Suc i" "pre @ bs"] by simp
  ultimately show ?case by (simp add: spanP_def add.assoc)
qed simp

text \<open>An array that was read decomposes into the bytes of its records.\<close>

lemma array_parts:
  assumes "manyP (\<lambda>i. spanP place get) i n data pos = Inr (xs, p)" and "pos \<le> length data"
  obtains ys bss where "list_all2 (reads get) ys bss" and "concat bss = slc pos p data" and "pos \<le> p"
    and "p \<le> length data" and "length ys = n" and "xs = placed place pos ys bss"
  using assms
proof (induction n arbitrary: i pos xs thesis)
  case 0
  then show ?case by (auto intro: 0(1) [of "[]" "[]"] simp: slc_def)
next
  case (Suc n)
  from Suc.prems(2) obtain y q zs where g: "get data pos = Inr (y, q)"
    and rest: "manyP (\<lambda>i. spanP place get) (Suc i) n data q = Inr (zs, p)" and xs: "xs = place pos q y # zs"
    by (auto simp: spanP_def)
  note 1 = localD [OF get_local g Suc.prems(3)]
  obtain ys bss where 2: "list_all2 (reads get) ys bss" "concat bss = slc q p data" "q \<le> p" "p \<le> length data"
    "length ys = n" "zs = placed place q ys bss"
    using Suc.IH [OF _ rest] 1(3) by blast
  have "slc pos p data = slc pos q data @ slc q p data" using 1 2 slc_join by metis
  then show ?case
    using 1 2 by (intro Suc.prems(1) [of "y # ys" "slc pos q data # bss"]) (auto simp: xs)
qed

end

end
