(* ===== verification/Streams.thy ===== *)
theory Streams
  imports Parsers Alter
begin

text \<open>
  The pieces of the schema stream: Windows-1252 names behind a length byte, little-endian
  integers, and the doubly counted strings of the constraint records, with their writers
  (\<open>readPascalString\<close>, \<open>readUint32\<close>, \<open>encodePascalName\<close> of \<open>ddl_index.go\<close>;
  \<open>readSizedString32\<close>, \<open>skipZeroBytes\<close> of \<open>ddl_constraint.go\<close>; \<open>appendSized32\<close> of
  \<open>ddl_constraint_write.go\<close>). The Windows-1252 tables are the record \<open>codec\<close>.
\<close>

section \<open>Names\<close>

text \<open>
  \<open>strings.EqualFold\<close> compares the runes of two strings up to Unicode's simple case folding,
  an invalid byte counting as U+FFFD. The folding table is Unicode data: \<open>foldRune\<close> gives the
  representative of a rune's folding class.
\<close>

function goRunes :: "byte list \<Rightarrow> nat list" where
  "goRunes [] = []"
| "goRunes (a # bs) =
     (let k = (if unat a < 0x80 then 1 else if unat a < 0xE0 then 2 else if unat a < 0xF0 then 3 else 4) in
      case utf8Runes (take k (a # bs)) of
        Some [r] \<Rightarrow> r # goRunes (drop (k - 1) bs)
      | _ \<Rightarrow> 0xFFFD # goRunes bs)"
  by pat_completeness auto
termination
  by (relation "measure length") auto

definition EqualFold :: "(nat \<Rightarrow> nat) \<Rightarrow> byte list \<Rightarrow> byte list \<Rightarrow> bool" where
  "EqualFold foldRune s t \<longleftrightarrow> map foldRune (goRunes s) = map foldRune (goRunes t)"

lemma EqualFold_equiv [simp]:
  "EqualFold f s s" "EqualFold f s t \<Longrightarrow> EqualFold f t s"
  "EqualFold f s t \<Longrightarrow> EqualFold f t u \<Longrightarrow> EqualFold f s u"
  by (auto simp: EqualFold_def)

section \<open>Readers\<close>

definition readPascalString :: "codec \<Rightarrow> byte list scan" where
  "readPascalString cd =
     bindP (nextByte (ErrText ''truncated length'')) (\<lambda>n.
     bindP (nextBytes (unat n) (ErrText ''string extends beyond data'')) (\<lambda>raw.
     retP (decodeANSI (ansiDecode cd) raw)))"

definition readUint32 :: "u32 scan" where
  "readUint32 = bindP (nextBytes 4 (ErrText ''truncated integer'')) (\<lambda>b. retP (getU32 b 0))"

definition skipZeroBytes :: "nat \<Rightarrow> unit scan" where
  "skipZeroBytes n =
     bindP (nextBytes n (ErrText ''truncated field'')) (\<lambda>b.
     guardP (\<forall>x \<in> set b. x = 0) (ErrText ''want 0''))"

text \<open>
  The size field counts the string and its length byte, and has to agree with it.
\<close>

definition readSizedStringBody :: "codec \<Rightarrow> nat \<Rightarrow> byte list scan" where
  "readSizedStringBody cd size' data pos =
     (case readPascalString cd data pos of
        Inl e \<Rightarrow> Inl e
      | Inr (s, nxt) \<Rightarrow>
          if size' \<noteq> nxt - pos then Inl (ErrText ''size disagrees with the string'') else Inr (s, nxt))"

definition readSizedString32 :: "codec \<Rightarrow> byte list scan" where
  "readSizedString32 cd = bindP readUint32 (\<lambda>n. readSizedStringBody cd (unat n))"

definition readSizedString8 :: "codec \<Rightarrow> byte list scan" where
  "readSizedString8 cd =
     bindP (nextByte (ErrText ''truncated size'')) (\<lambda>n. readSizedStringBody cd (unat n))"

section \<open>Writers\<close>

definition encodeOptionalPascalName :: "codec \<Rightarrow> byte list \<Rightarrow> byte list result" where
  "encodeOptionalPascalName cd name = (case ansiEncode cd name of
     None \<Rightarrow> Inl ErrStringEncoding
   | Some t \<Rightarrow> if length t > 255 then Inl ErrValueRange else Inr t)"

definition encodePascalName :: "codec \<Rightarrow> byte list \<Rightarrow> byte list result" where
  "encodePascalName cd name =
     bindR (encodeOptionalPascalName cd name) (\<lambda>t. if t = [] then Inl ErrValueRange else Inr t)"

definition appendPascalString :: "byte list \<Rightarrow> byte list \<Rightarrow> byte list" where
  "appendPascalString out t = out @ word_of_nat (length t) # t"

definition appendSized32 :: "byte list \<Rightarrow> byte list \<Rightarrow> byte list" where
  "appendSized32 out t = appendPascalString (out @ leU32 (word_of_nat (length t + 1))) t"

definition appendSizedString32 :: "codec \<Rightarrow> byte list \<Rightarrow> byte list \<Rightarrow> byte list result" where
  "appendSizedString32 cd out name = bindR (encodePascalName cd name) (\<lambda>t. Inr (appendSized32 out t))"

definition appendOptionalSizedString32 :: "codec \<Rightarrow> byte list \<Rightarrow> byte list \<Rightarrow> byte list result" where
  "appendOptionalSizedString32 cd out name =
     bindR (encodeOptionalPascalName cd name) (\<lambda>t. Inr (appendSized32 out t))"

definition appendSizedString8 :: "codec \<Rightarrow> byte list \<Rightarrow> byte list \<Rightarrow> byte list result" where
  "appendSizedString8 cd out name =
     bindR (encodePascalName cd name) (\<lambda>t. Inr (appendPascalString (out @ [word_of_nat (length t + 1)]) t))"

section \<open>Reading what was written\<close>

text \<open>
  A name the format can hold: its encoding has no NUL, which \<open>decodeANSI\<close> would take for the
  end of the text. \<open>limit\<close> is what the counting field leaves room for.
\<close>

definition storable :: "codec \<Rightarrow> nat \<Rightarrow> byte list \<Rightarrow> bool" where
  "storable cd limit name \<longleftrightarrow>
     (\<exists>t. ansiEncode cd name = Some t \<and> 0 \<notin> set t \<and> length t \<le> limit)"

lemma decodeANSI_encoded:
  assumes "lawful_codec cd" and "ansiEncode cd s = Some t" and "0 \<notin> set t"
  shows "decodeANSI (ansiDecode cd) t = s"
proof -
  have tw: "takeWhile (\<lambda>b. b \<noteq> 0) t = t" using assms(3) by (auto simp: takeWhile_eq_all_conv)
  have dec: "ansiDecode cd t = Some s" and nil: "ansiEncode cd [] = Some []" and nil': "ansiDecode cd [] = Some []"
    using assms(1,2) by (auto simp: lawful_codec_def)
  have "t = [] \<Longrightarrow> s = []" using dec nil' by simp
  then show ?thesis unfolding decodeANSI_def Let_def tw using dec by auto
qed

lemma unat_byte_len: "n \<le> 255 \<Longrightarrow> unat (word_of_nat n :: byte) = n"
  by simp

lemma unat_u32_len: "n < 2 ^ 32 \<Longrightarrow> unat (word_of_nat n :: u32) = n"
  by (simp add: unat_of_nat)

text \<open>\<open>named cd s t\<close>: the text \<open>t\<close> is stored for the name \<open>s\<close> and gives it back.\<close>

definition named :: "codec \<Rightarrow> byte list \<Rightarrow> byte list \<Rightarrow> bool" where
  "named cd s t \<longleftrightarrow> decodeANSI (ansiDecode cd) t = s \<and> length t < 256"

lemma named_encode:
  assumes "lawful_codec cd" and "storable cd limit s"
  shows "encodeOptionalPascalName cd s = Inr t \<Longrightarrow> named cd s t \<and> length t \<le> limit"
    and "encodePascalName cd s = Inr t \<Longrightarrow> named cd s t \<and> length t \<le> limit \<and> t \<noteq> []"
  using assms decodeANSI_encoded [OF assms(1)]
  by (auto simp: storable_def named_def encodePascalName_def encodeOptionalPascalName_def split: if_splits option.splits)

lemma reads_cons: "reads m x (b # bs) \<longleftrightarrow> reads m x ([b] @ bs)"
  by simp

lemma reads_pascal:
  assumes "named cd s t"
  shows "reads (readPascalString cd) s (word_of_nat (length t) # t)"
proof -
  have n: "unat (word_of_nat (length t) :: byte) = length t" and d: "s = decodeANSI (ansiDecode cd) t"
    using assms by (simp_all add: named_def)
  have "reads (readPascalString cd) s ([word_of_nat (length t)] @ t)"
    unfolding readPascalString_def d
    by (rule reads_bind [OF reads_byte reads_last [OF reads_bytes reads_ret]]) (rule n)
  then show ?thesis by simp
qed

lemma reads_u32 [reads_intros]: "reads readUint32 w (leU32 w)"
  unfolding readUint32_def
  by (rule reads_last [OF reads_bytes [where bs = "leU32 w"]]) (simp_all add: reads_def)

lemma reads_zeros [reads_intros]:
  "n = length bs \<Longrightarrow> (\<And>x. x \<in> set bs \<Longrightarrow> x = 0) \<Longrightarrow> reads (skipZeroBytes n) () bs"
  unfolding skipZeroBytes_def
  by (rule reads_last [OF reads_bytes [where bs = bs]]) (simp_all add: reads_def)

lemma reads_sized_body:
  "reads (readPascalString cd) s bs \<Longrightarrow> n = length bs \<Longrightarrow> reads (readSizedStringBody cd n) s bs"
  by (simp add: reads_def readSizedStringBody_def)

lemma reads_sized32:
  assumes "named cd s t"
  shows "reads (readSizedString32 cd) s (leU32 (word_of_nat (length t + 1)) @ word_of_nat (length t) # t)"
  unfolding readSizedString32_def
  using assms unat_u32_len [of "length t + 1"]
  by (intro reads_bind [OF reads_u32] reads_sized_body [OF reads_pascal]) (auto simp: named_def)

text \<open>With a single counting byte the string may have 254 bytes, not 255.\<close>

lemma reads_sized8:
  assumes "named cd s t" and "length t \<le> 254"
  shows "reads (readSizedString8 cd) s (word_of_nat (length t + 1) # word_of_nat (length t) # t)"
proof -
  have "reads (readSizedString8 cd) s ([word_of_nat (length t + 1)] @ word_of_nat (length t) # t)"
    unfolding readSizedString8_def
    using assms unat_byte_len [of "length t + 1"]
    by (intro reads_bind [OF reads_byte] reads_sized_body [OF reads_pascal]) auto
  then show ?thesis by simp
qed

section \<open>The readers stay inside the stream and read only what they consume\<close>

lemma sized_body_Inr [simp]:
  "readSizedStringBody cd n data pos = Inr r \<longleftrightarrow> readPascalString cd data pos = Inr r \<and> n = snd r - pos"
  by (cases r) (auto simp: readSizedStringBody_def split: sum.splits prod.splits if_splits)

lemma safe_pascal [safe_intros]: "safe (readPascalString cd)"
  and safe_u32 [safe_intros]: "safe readUint32"
  and safe_zeros [safe_intros]: "safe (skipZeroBytes n)"
  unfolding readPascalString_def readUint32_def skipZeroBytes_def by (auto intro!: safe_intros)

lemma safe_sized_body [safe_intros]: "safe (readSizedStringBody cd n)"
  unfolding safe_def
proof (intro allI impI)
  fix data :: "byte list" and pos assume le: "pos \<le> length data"
  show "case readSizedStringBody cd n data pos of Inl e \<Rightarrow> e \<noteq> GoPanic | Inr (x, p) \<Rightarrow> pos \<le> p \<and> p \<le> length data"
    using safeD [OF safe_pascal le, of cd]
    by (cases "readPascalString cd data pos") (auto simp: readSizedStringBody_def)
qed

lemma safe_sized [safe_intros]: "safe (readSizedString32 cd)" "safe (readSizedString8 cd)"
  unfolding readSizedString32_def readSizedString8_def by (auto intro!: safe_intros)

lemma local_pascal [local_intros]: "local (readPascalString cd)"
  and local_u32 [local_intros]: "local readUint32"
  and local_zeros [local_intros]: "local (skipZeroBytes n)"
  unfolding readPascalString_def readUint32_def skipZeroBytes_def by (auto intro!: local_intros)

lemma local_sized_body [local_intros]: "local (readSizedStringBody cd n)"
  unfolding local_def consumes_def
proof (intro allI impI)
  fix data :: "byte list" and pos x p assume le: "pos \<le> length data" and "readSizedStringBody cd n data pos = Inr (x, p)"
  then have r: "readPascalString cd data pos = Inr (x, p)" and n: "n = p - pos" by auto
  note 1 = localD [OF local_pascal r le]
  show "pos \<le> p \<and> p \<le> length data \<and> reads (readSizedStringBody cd n) x (slc pos p data)"
    using 1 n by (auto intro: reads_sized_body)
qed

lemma local_sized [local_intros]: "local (readSizedString32 cd)" "local (readSizedString8 cd)"
  unfolding readSizedString32_def readSizedString8_def by (auto intro!: local_intros)

end
