(* ===== verification/Index_Records.thy ===== *)
theory Index_Records
  imports Streams
begin

text \<open>
  The index-definition array of the schema stream (\<open>ddl_index.go\<close>): its records, their parser
  and their serializer. The parser accepts what the serializer writes, keeps inside the stream
  and never panics; \<open>record_array\<close> is interpreted for it, which gives the array facts.
\<close>

definition maxSchemaColumns :: nat where "maxSchemaColumns = 65000"
definition indexRecordFlagsSize :: nat where "indexRecordFlagsSize = 3"
definition indexColumnMaxIndexedSize :: u32 where "indexColumnMaxIndexedSize = 0x14"
definition indexFlagTrue :: byte where "indexFlagTrue = 0xFF"

record indexColumn =
  icName :: "byte list"
  descending :: bool
  caseInsensitive :: bool
  maxIndexedSize :: u32

record indexRecord =
  irName :: "byte list"
  irObjectID :: u32
  irUnique :: bool
  irPrimary :: bool
  rootPageNo :: u32
  irColumns :: "indexColumn list"
  irStart :: nat
  irEnd :: nat

definition singleColumn :: "indexRecord \<Rightarrow> indexColumn option" where
  "singleColumn r = (case irColumns r of [c] \<Rightarrow> Some c | _ \<Rightarrow> None)"

definition coversColumn :: "(nat \<Rightarrow> nat) \<Rightarrow> indexRecord \<Rightarrow> byte list \<Rightarrow> bool" where
  "coversColumn fold' r name \<longleftrightarrow> (\<exists>c \<in> set (irColumns r). EqualFold fold' (icName c) name)"

section \<open>Parsing\<close>

definition indexFlagBool :: "byte \<Rightarrow> bool result" where
  "indexFlagBool b =
     (if b = 0 then Inr False else if b = indexFlagTrue then Inr True
      else Inl (ErrText ''flag is neither 0x00 nor 0xFF''))"

definition parseIndexRecordFlags :: "(bool \<times> bool) scan" where
  "parseIndexRecordFlags =
     bindP (nextBytes indexRecordFlagsSize (ErrText ''truncated flags'')) (\<lambda>b.
     bindP (guardP (b ! 0 = 0) (ErrText ''index flag byte 0'')) (\<lambda>_.
     bindP (liftP (indexFlagBool (b ! 1))) (\<lambda>uniq.
     bindP (liftP (indexFlagBool (b ! 2))) (\<lambda>prim.
     retP (uniq, prim)))))"

definition parseIndexColumn :: "codec \<Rightarrow> indexColumn scan" where
  "parseIndexColumn cd =
     bindP (readPascalString cd) (\<lambda>name.
     bindP (nextBytes 2 (ErrText ''truncated column flags'')) (\<lambda>b.
     bindP (liftP (indexFlagBool (b ! 0))) (\<lambda>desc.
     bindP (liftP (indexFlagBool (b ! 1))) (\<lambda>nocase.
     bindP readUint32 (\<lambda>size'.
     bindP (guardP (size' = indexColumnMaxIndexedSize) (ErrText ''maximum indexed size'')) (\<lambda>_.
     retP \<lparr>icName = name, descending = desc, caseInsensitive = nocase, maxIndexedSize = size'\<rparr>))))))"

definition parseIndexRecord :: "codec \<Rightarrow> indexRecord scan" where
  "parseIndexRecord cd =
     bindP (readPascalString cd) (\<lambda>name.
     bindP readUint32 (\<lambda>oid.
     bindP parseIndexRecordFlags (\<lambda>(uniq, prim).
     bindP readUint32 (\<lambda>n.
     bindP (guardP (n \<noteq> 0 \<and> unat n \<le> maxSchemaColumns) (ErrText ''coveredColumnCount'')) (\<lambda>_.
     bindP (roomP (unat n) (ErrText ''coveredColumnCount'')) (\<lambda>_.
     bindP readUint32 (\<lambda>root.
     bindP (manyP (\<lambda>i. parseIndexColumn cd) 0 (unat n)) (\<lambda>cols.
     retP \<lparr>irName = name, irObjectID = oid, irUnique = uniq, irPrimary = prim, rootPageNo = root,
       irColumns = cols, irStart = 0, irEnd = 0\<rparr>))))))))"

definition placeIndex :: "nat \<Rightarrow> nat \<Rightarrow> indexRecord \<Rightarrow> indexRecord" where
  "placeIndex s e r = r\<lparr>irStart := s, irEnd := e\<rparr>"

definition parseIndexRecords :: "codec \<Rightarrow> nat \<Rightarrow> indexRecord list scan" where
  "parseIndexRecords cd count = manyP (\<lambda>i. spanP placeIndex (parseIndexRecord cd)) 0 count"

section \<open>Serializing\<close>

definition indexFlagByte :: "bool \<Rightarrow> byte" where
  "indexFlagByte b = (if b then indexFlagTrue else 0)"

definition serializeIndexColumn :: "indexColumn \<Rightarrow> byte list \<Rightarrow> byte list" where
  "serializeIndexColumn c rawColumn =
     word_of_nat (length rawColumn) # rawColumn
       @ [indexFlagByte (descending c), indexFlagByte (caseInsensitive c)] @ leU32 indexColumnMaxIndexedSize"

definition serializeIndexRecord :: "codec \<Rightarrow> indexRecord \<Rightarrow> byte list result" where
  "serializeIndexRecord cd r =
     bindR (encodePascalName cd (irName r)) (\<lambda>rawName.
     bindR (guardR (irColumns r \<noteq> [] \<and> length (irColumns r) \<le> maxSchemaColumns) ErrValueRange) (\<lambda>_.
     bindR (mapR (\<lambda>c. encodePascalName cd (icName c)) (irColumns r)) (\<lambda>rawColumns.
     Inr (word_of_nat (length rawName) # rawName @ leU32 (irObjectID r)
       @ [0, indexFlagByte (irUnique r), indexFlagByte (irPrimary r)]
       @ leU32 (word_of_nat (length (irColumns r))) @ leU32 (rootPageNo r)
       @ concat (map2 serializeIndexColumn (irColumns r) rawColumns)))))"

definition serializeIndexArray :: "codec \<Rightarrow> indexRecord list \<Rightarrow> byte list result" where
  "serializeIndexArray cd rs =
     bindR (mapR (serializeIndexRecord cd) rs) (\<lambda>raws. Inr (leU32 (word_of_nat (length rs)) @ concat raws))"

section \<open>The parser's frame\<close>

lemma indexFlag_roundtrip [simp]: "indexFlagBool (indexFlagByte b) = Inr b"
  by (simp add: indexFlagBool_def indexFlagByte_def indexFlagTrue_def)

lemma indexFlagBool_no_panic [simp]: "indexFlagBool b \<noteq> Inl GoPanic"
  by (simp add: indexFlagBool_def)

lemma safe_flags [safe_intros]: "safe parseIndexRecordFlags"
  and safe_index_column [safe_intros]: "safe (parseIndexColumn cd)"
  unfolding parseIndexRecordFlags_def parseIndexColumn_def by (auto intro!: safe_intros)

lemma safe_index_record [safe_intros]: "safe (parseIndexRecord cd)"
  unfolding parseIndexRecord_def by (auto intro!: safe_intros split: prod.splits)

lemma local_flags [local_intros]: "local parseIndexRecordFlags"
  and local_index_column [local_intros]: "local (parseIndexColumn cd)"
  unfolding parseIndexRecordFlags_def parseIndexColumn_def by (auto intro!: local_intros)

text \<open>Every covered column takes at least its length byte, so the room check is implied by the reads.\<close>

lemma consumes_long:
  "consumes m R \<Longrightarrow> (\<And>x bs. R x bs \<Longrightarrow> k \<le> length bs) \<Longrightarrow> consumes m (\<lambda>x bs. k \<le> length bs)"
  by (rule consumes_weaken)

lemma consumes_safe: "safe m \<Longrightarrow> consumes m (\<lambda>x bs. True)"
  unfolding consumes_def by (metis safeD(2))

lemma consumes_then:
  "consumes m (\<lambda>x bs. j \<le> length bs) \<Longrightarrow> (\<And>x. consumes (f x) (\<lambda>y bs. k \<le> length bs)) \<Longrightarrow>
   consumes (bindP m f) (\<lambda>y bs. j + k \<le> length bs)"
  by (rule consumes_weaken [OF consumes_bind]) auto

lemma consumes_pascal: "consumes (readPascalString cd) (\<lambda>x bs. 1 \<le> length bs)"
  unfolding readPascalString_def
  by (rule consumes_weaken [OF consumes_bind [OF consumes_prims(5) consumes_bind [OF consumes_prims(6) consumes_prims(1)]]])
    auto

lemma length_concat_ge: "\<forall>b \<in> set bss. 1 \<le> length b \<Longrightarrow> length bss \<le> length (concat bss)"
proof (induction bss)
  case (Cons b bss)
  then have "1 \<le> length b" "length bss \<le> length (concat bss)" by simp_all
  then show ?case by simp
qed simp

lemma consumes_many_long:
  assumes "\<And>i. consumes (m i) (\<lambda>x bs. 1 \<le> length bs)"
  shows "consumes (manyP m i n) (\<lambda>xs bs. n \<le> length bs)"
  by (rule consumes_weaken [OF consumes_many [where R = "\<lambda>i x bs. 1 \<le> length bs", OF assms]])
    (metis in_set_conv_nth length_concat_ge add_0)

lemma consumes_safe_then:
  "safe m \<Longrightarrow> (\<And>x. consumes (f x) (\<lambda>y bs. k \<le> length bs)) \<Longrightarrow> consumes (bindP m f) (\<lambda>y bs. k \<le> length bs)"
  by (rule consumes_weaken [OF consumes_bind [OF consumes_safe]]) auto

lemma consumes_index_column: "consumes (parseIndexColumn cd) (\<lambda>x bs. 1 \<le> length bs)"
proof -
  have "consumes (parseIndexColumn cd) (\<lambda>x bs. 1 + 0 \<le> length bs)"
    unfolding parseIndexColumn_def
    by (rule consumes_then [OF consumes_pascal], rule consumes_weaken [OF consumes_safe])
      (auto intro!: safe_intros)
  then show ?thesis by simp
qed

lemma local_covered_columns:
  "local (bindP (roomP n e) (\<lambda>_. bindP readUint32 (\<lambda>root. bindP (manyP (\<lambda>i. parseIndexColumn cd) 0 n) (\<lambda>cols.
     retP (f root cols)))))"
proof (rule local_room)
  have cols: "consumes (bindP (manyP (\<lambda>i. parseIndexColumn cd) 0 n) (\<lambda>cols. retP (f root cols))) (\<lambda>y bs. n + 0 \<le> length bs)" for root
    by (rule consumes_then [OF consumes_many_long [OF consumes_index_column]])
      (auto intro: consumes_weaken [OF consumes_prims(1)])
  show "consumes (bindP readUint32 (\<lambda>root. bindP (manyP (\<lambda>i. parseIndexColumn cd) 0 n) (\<lambda>cols. retP (f root cols))))
      (\<lambda>y bs. n \<le> length bs)"
    by (rule consumes_safe_then [OF safe_u32], rule cols [unfolded add_0_right])
qed (intro local_intros)

lemma local_index_record [local_intros]: "local (parseIndexRecord cd)"
  unfolding parseIndexRecord_def
  by (auto intro!: local_pascal local_u32 local_flags local_prims local_covered_columns local_bind)

interpretation index_array: record_array "parseIndexRecord cd" placeIndex for cd
  by unfold_locales (simp_all add: local_index_record placeIndex_def)

section \<open>The round trip\<close>

text \<open>An index record the format can hold, and what the parser makes of it.\<close>

definition index_ok :: "codec \<Rightarrow> indexRecord \<Rightarrow> bool" where
  "index_ok cd r \<longleftrightarrow> storable cd 255 (irName r) \<and>
     (\<forall>c \<in> set (irColumns r). storable cd 255 (icName c) \<and> maxIndexedSize c = indexColumnMaxIndexedSize)"

lemma reads_index_column:
  assumes "named cd (icName c) t" and "maxIndexedSize c = indexColumnMaxIndexedSize"
  shows "reads (parseIndexColumn cd) c (serializeIndexColumn c t)"
proof -
  let ?fl = "[indexFlagByte (descending c), indexFlagByte (caseInsensitive c)]"
  have c: "c = \<lparr>icName = icName c, descending = descending c, caseInsensitive = caseInsensitive c,
      maxIndexedSize = indexColumnMaxIndexedSize\<rparr>"
    using assms(2) by simp
  have "reads (parseIndexColumn cd) c ((word_of_nat (length t) # t) @ ?fl @ [] @ [] @ leU32 indexColumnMaxIndexedSize @ [] @ [])"
    unfolding parseIndexColumn_def
    by (subst c, rule reads_bind [OF reads_pascal [OF assms(1)]], rule reads_bind [OF reads_bytes],
        simp, rule reads_bind [OF reads_lift], simp, rule reads_bind [OF reads_lift], simp,
        rule reads_bind [OF reads_u32], rule reads_guard, simp, simp add: reads_ret)
  then show ?thesis by (simp add: serializeIndexColumn_def)
qed

lemma reads_flags [reads_intros]:
  "reads parseIndexRecordFlags (u, p) [0, indexFlagByte u, indexFlagByte p]"
  by (simp add: reads_def parseIndexRecordFlags_def indexRecordFlagsSize_def bindP_def next_runs slc_def
      guardP_def liftP_def retP_def)

lemma mapR_Inr: "mapR f xs = Inr ys \<longleftrightarrow> list_all2 (\<lambda>x y. f x = Inr y) xs ys"
  by (induction xs arbitrary: ys) (auto simp: list_all2_Cons1)

lemma index_columns_read:
  assumes "lawful_codec cd" and "\<forall>c \<in> set cs. storable cd 255 (icName c) \<and> maxIndexedSize c = indexColumnMaxIndexedSize"
    and "mapR (\<lambda>c. encodePascalName cd (icName c)) cs = Inr ts"
  shows "reads (manyP (\<lambda>i. parseIndexColumn cd) 0 (length cs)) cs (concat (map2 serializeIndexColumn cs ts))"
proof -
  have enc: "list_all2 (\<lambda>c t. encodePascalName cd (icName c) = Inr t) cs ts" using assms(3) by (simp add: mapR_Inr)
  then have len: "length ts = length cs" by (simp add: list_all2_lengthD)
  have "reads (parseIndexColumn cd) (cs ! k) (serializeIndexColumn (cs ! k) (ts ! k))" if "k < length cs" for k
    using assms(1,2) that named_encode(2) [OF assms(1), of 255 "icName (cs ! k)" "ts ! k"] list_all2_nthD [OF enc that]
    by (intro reads_index_column) auto
  then show ?thesis using len by (intro reads_many) auto
qed

theorem index_record_reads:
  assumes "lawful_codec cd" and "index_ok cd r" and "serializeIndexRecord cd r = Inr bs"
  shows "reads (parseIndexRecord cd) (placeIndex 0 0 r) bs"
proof -
  obtain t ts where t: "encodePascalName cd (irName r) = Inr t" and n: "irColumns r \<noteq> []" "length (irColumns r) \<le> maxSchemaColumns"
    and ts: "mapR (\<lambda>c. encodePascalName cd (icName c)) (irColumns r) = Inr ts"
    and bs: "bs = (word_of_nat (length t) # t) @ leU32 (irObjectID r) @ [0, indexFlagByte (irUnique r), indexFlagByte (irPrimary r)]
       @ leU32 (word_of_nat (length (irColumns r))) @ leU32 (rootPageNo r) @ concat (map2 serializeIndexColumn (irColumns r) ts) @ []"
    using assms(3) by (auto simp: serializeIndexRecord_def)
  have nm: "named cd (irName r) t" using named_encode(2) [OF assms(1)] assms(2) t by (auto simp: index_ok_def)
  let ?n = "word_of_nat (length (irColumns r)) :: u32"
  have un: "unat ?n = length (irColumns r)" using n(2) by (intro unat_u32_len) (simp add: maxSchemaColumns_def)
  have n0: "?n \<noteq> 0" using un n(1) by (metis length_0_conv unat_0)
  have cols: "reads (manyP (\<lambda>i. parseIndexColumn cd) 0 (unat ?n)) (irColumns r) (concat (map2 serializeIndexColumn (irColumns r) ts))"
    unfolding un using assms(2) ts by (intro index_columns_read [OF assms(1)]) (auto simp: index_ok_def)
  have room: "unat ?n \<le> length (leU32 (rootPageNo r) @ concat (map2 serializeIndexColumn (irColumns r) ts) @ [])"
  proof -
    have "length ts = length (irColumns r)" using length_mapR [OF ts] .
    moreover have "length cs \<le> length (concat (map2 serializeIndexColumn cs ts))" if "length ts = length cs" for cs ts
      using that by (induction cs ts rule: list_induct2') (auto simp: serializeIndexColumn_def)
    ultimately show ?thesis using un by (simp add: trans_le_add2)
  qed
  have r: "placeIndex 0 0 r = \<lparr>irName = irName r, irObjectID = irObjectID r, irUnique = irUnique r, irPrimary = irPrimary r,
      rootPageNo = rootPageNo r, irColumns = irColumns r, irStart = 0, irEnd = 0\<rparr>"
    by (simp add: placeIndex_def)
  show ?thesis
    unfolding parseIndexRecord_def bs r
    by (rule reads_bind [OF reads_pascal [OF nm]] reads_bind [OF reads_u32] reads_bind [OF reads_flags] prod.case [THEN iffD2]
        | simp only: prod.case
        | rule reads_guard reads_room [OF room] reads_bind [OF cols] reads_ret
        | use n n0 un in simp)+
qed

end
