(* ===== verification/Constraint_Records.thy ===== *)
theory Constraint_Records
  imports Index_Records
begin

text \<open>
  The constraint array of the schema stream: the records of \<open>ddl_constraint.go\<close> and their
  parser, and the serializer of \<open>ddl_constraint_write.go\<close>. A record has one of two bodies:
  key-shaped records (PRIMARY KEY, UNIQUE) count with four bytes, column-shaped ones
  (NOT NULL, CHECK) with one.
\<close>

definition constraintPrimaryKey :: byte where "constraintPrimaryKey = 0"
definition constraintUnique :: byte where "constraintUnique = 2"
definition constraintNotNull :: byte where "constraintNotNull = 3"
definition constraintCheck :: byte where "constraintCheck = 4"

definition constraintReservedSize :: nat where "constraintReservedSize = 8"
definition constraintBodyCount :: nat where "constraintBodyCount = 1"
definition typedValueAbsent :: byte where "typedValueAbsent = 0xFF"
definition typedValuePresent :: byte where "typedValuePresent = 0"
definition maxTypedValueSize :: nat where "maxTypedValueSize = 65535"

lemmas constraint_consts = constraintPrimaryKey_def constraintUnique_def constraintNotNull_def
  constraintCheck_def constraintReservedSize_def constraintBodyCount_def typedValueAbsent_def
  typedValuePresent_def maxTypedValueSize_def

record constraintColumn =
  ccName :: "byte list"
  ccObjectID :: u32

record typedValue =
  tvBase :: byte
  tvPresent :: bool
  tvData :: "byte list"

record constraintRecord =
  crKind :: byte
  crName :: "byte list"
  crObjectID :: u32
  crOwnerID :: u32
  crTable :: "byte list"
  crIndex :: "byte list"
  crColumns :: "constraintColumn list"
  crMin :: typedValue
  crMax :: typedValue
  crStart :: nat
  crEnd :: nat

definition noValue :: typedValue where
  "noValue = \<lparr>tvBase = 0, tvPresent = False, tvData = []\<rparr>"

definition namesColumn :: "(nat \<Rightarrow> nat) \<Rightarrow> constraintRecord \<Rightarrow> byte list \<Rightarrow> bool" where
  "namesColumn fold' r column \<longleftrightarrow> (\<exists>c \<in> set (crColumns r). EqualFold fold' (ccName c) column)"

definition keyKind :: "byte \<Rightarrow> bool" where
  "keyKind k \<longleftrightarrow> k = constraintPrimaryKey \<or> k = constraintUnique"

definition columnKind :: "byte \<Rightarrow> bool" where
  "columnKind k \<longleftrightarrow> k = constraintNotNull \<or> k = constraintCheck"

section \<open>Parsing\<close>

definition readTypedValue :: "typedValue scan" where
  "readTypedValue =
     bindP (nextBytes 2 (ErrText ''truncated typed value header'')) (\<lambda>b.
     if b ! 1 = typedValueAbsent then retP \<lparr>tvBase = b ! 0, tvPresent = False, tvData = []\<rparr>
     else if b ! 1 = typedValuePresent then
       bindP readUint32 (\<lambda>n.
       bindP (nextBytes (unat n) (ErrText ''typed value exceeds the stream'')) (\<lambda>d.
       retP \<lparr>tvBase = b ! 0, tvPresent = True, tvData = d\<rparr>))
     else failP (ErrText ''typed value flag''))"

definition parseConstraintColumn :: "codec \<Rightarrow> constraintColumn scan" where
  "parseConstraintColumn cd =
     bindP readUint32 (\<lambda>oid. bindP (readSizedString32 cd) (\<lambda>name.
     retP \<lparr>ccName = name, ccObjectID = oid\<rparr>))"

definition parseKeyConstraintBody :: "codec \<Rightarrow> constraintRecord \<Rightarrow> constraintRecord scan" where
  "parseKeyConstraintBody cd r =
     bindP readUint32 (\<lambda>count.
     bindP (guardP (unat count = constraintBodyCount) (ErrText ''body count'')) (\<lambda>_.
     bindP (skipZeroBytes 1) (\<lambda>_.
     bindP (readSizedString32 cd) (\<lambda>table.
     bindP (readSizedString32 cd) (\<lambda>index.
     bindP readUint32 (\<lambda>n.
     bindP (guardP (unat n \<le> maxSchemaColumns) (ErrText ''column count'')) (\<lambda>_.
     bindP (roomP (unat n) (ErrText ''column count'')) (\<lambda>_.
     bindP (manyP (\<lambda>i. parseConstraintColumn cd) 0 (unat n)) (\<lambda>cols.
     retP (r\<lparr>crTable := table, crIndex := index, crColumns := cols\<rparr>))))))))))"

definition parseColumnConstraintBody :: "codec \<Rightarrow> constraintRecord \<Rightarrow> constraintRecord scan" where
  "parseColumnConstraintBody cd r =
     bindP (nextByte (ErrText ''truncated body count'')) (\<lambda>count.
     bindP (guardP (unat count = constraintBodyCount) (ErrText ''body count'')) (\<lambda>_.
     bindP (skipZeroBytes 1) (\<lambda>_.
     bindP (readSizedString8 cd) (\<lambda>table.
     bindP (readSizedString8 cd) (\<lambda>name.
     let r' = r\<lparr>crTable := table, crColumns := [\<lparr>ccName = name, ccObjectID = 0\<rparr>]\<rparr> in
     if crKind r \<noteq> constraintCheck then retP r'
     else bindP readTypedValue (\<lambda>lo. bindP readTypedValue (\<lambda>hi.
          retP (r'\<lparr>crMin := lo, crMax := hi\<rparr>))))))))"

definition parseConstraintRecord :: "codec \<Rightarrow> constraintRecord scan" where
  "parseConstraintRecord cd =
     bindP (nextByte (ErrText ''truncated kind'')) (\<lambda>kind.
     bindP (readPascalString cd) (\<lambda>name.
     bindP readUint32 (\<lambda>oid.
     bindP (skipZeroBytes constraintReservedSize) (\<lambda>_.
     bindP readUint32 (\<lambda>owner.
     let r = \<lparr>crKind = kind, crName = name, crObjectID = oid, crOwnerID = owner, crTable = [], crIndex = [],
       crColumns = [], crMin = noValue, crMax = noValue, crStart = 0, crEnd = 0\<rparr> in
     if keyKind kind then parseKeyConstraintBody cd r
     else if columnKind kind then parseColumnConstraintBody cd r
     else failP (ErrText ''unsupported constraint kind''))))))"

definition placeConstraint :: "nat \<Rightarrow> nat \<Rightarrow> constraintRecord \<Rightarrow> constraintRecord" where
  "placeConstraint s e r = r\<lparr>crStart := s, crEnd := e\<rparr>"

definition parseConstraintRecords :: "codec \<Rightarrow> nat \<Rightarrow> constraintRecord list scan" where
  "parseConstraintRecords cd count = manyP (\<lambda>i. spanP placeConstraint (parseConstraintRecord cd)) 0 count"

section \<open>Serializing\<close>

definition appendTypedValue :: "byte list \<Rightarrow> typedValue \<Rightarrow> byte list result" where
  "appendTypedValue out v =
     (if \<not> tvPresent v then Inr (out @ [tvBase v, typedValueAbsent])
      else if length (tvData v) > maxTypedValueSize then Inl ErrValueRange
      else Inr (out @ [tvBase v, typedValuePresent] @ leU32 (word_of_nat (length (tvData v))) @ tvData v))"

fun appendKeyColumns :: "codec \<Rightarrow> constraintColumn list \<Rightarrow> byte list \<Rightarrow> byte list result" where
  "appendKeyColumns cd [] out = Inr out"
| "appendKeyColumns cd (c # cs) out =
     bindR (appendSizedString32 cd (out @ leU32 (ccObjectID c)) (ccName c)) (appendKeyColumns cd cs)"

definition appendKeyConstraintBody :: "codec \<Rightarrow> byte list \<Rightarrow> constraintRecord \<Rightarrow> byte list result" where
  "appendKeyConstraintBody cd out r =
     bindR (guardR (length (crColumns r) \<le> maxSchemaColumns) (ErrText ''covered columns'')) (\<lambda>_.
     bindR (appendOptionalSizedString32 cd (out @ leU32 (word_of_nat constraintBodyCount) @ [0]) (crTable r)) (\<lambda>out.
     bindR (appendSizedString32 cd out (crIndex r)) (\<lambda>out.
     appendKeyColumns cd (crColumns r) (out @ leU32 (word_of_nat (length (crColumns r)))))))"

definition appendColumnConstraintBody :: "codec \<Rightarrow> byte list \<Rightarrow> constraintRecord \<Rightarrow> byte list result" where
  "appendColumnConstraintBody cd out r =
     bindR (guardR (length (crColumns r) = 1) (ErrText ''covered columns'')) (\<lambda>_.
     bindR (appendSizedString8 cd (out @ [word_of_nat constraintBodyCount, 0]) (crTable r)) (\<lambda>out.
     bindR (appendSizedString8 cd out (ccName (crColumns r ! 0))) (\<lambda>out.
     if crKind r \<noteq> constraintCheck then Inr out
     else bindR (appendTypedValue out (crMin r)) (\<lambda>out. appendTypedValue out (crMax r)))))"

definition serializeConstraintRecord :: "codec \<Rightarrow> constraintRecord \<Rightarrow> byte list result" where
  "serializeConstraintRecord cd r =
     bindR (encodePascalName cd (crName r)) (\<lambda>name.
     let out = appendPascalString [crKind r] name @ leU32 (crObjectID r)
       @ replicate constraintReservedSize 0 @ leU32 (crOwnerID r) in
     if keyKind (crKind r) then appendKeyConstraintBody cd out r
     else if columnKind (crKind r) then appendColumnConstraintBody cd out r
     else Inl (ErrText ''unsupported constraint kind''))"

definition serializeConstraintArray :: "codec \<Rightarrow> constraintRecord list \<Rightarrow> byte list result" where
  "serializeConstraintArray cd rs =
     bindR (guardR (length rs \<le> maxSchemaColumns) ErrBadSchema) (\<lambda>_.
     bindR (mapR (serializeConstraintRecord cd) rs) (\<lambda>raws.
     Inr (leU32 (word_of_nat (length rs)) @ concat raws)))"

section \<open>The parser's frame\<close>

lemma safe_typed [safe_intros]: "safe readTypedValue"
  and safe_constraint_column [safe_intros]: "safe (parseConstraintColumn cd)"
  unfolding readTypedValue_def parseConstraintColumn_def by (auto intro!: safe_intros)

lemma safe_bodies [safe_intros]:
  "safe (parseKeyConstraintBody cd r)" "safe (parseColumnConstraintBody cd r)"
  unfolding parseKeyConstraintBody_def parseColumnConstraintBody_def Let_def by (auto intro!: safe_intros)

lemma safe_constraint_record [safe_intros]: "safe (parseConstraintRecord cd)"
  unfolding parseConstraintRecord_def Let_def by (auto intro!: safe_intros)

lemma local_typed [local_intros]: "local readTypedValue"
  and local_constraint_column [local_intros]: "local (parseConstraintColumn cd)"
  unfolding readTypedValue_def parseConstraintColumn_def by (auto intro!: local_intros)

lemma consumes_u32: "consumes readUint32 (\<lambda>x bs. 1 \<le> length bs)"
  unfolding readUint32_def by (rule consumes_weaken [OF consumes_bind [OF consumes_prims(6) consumes_prims(1)]]) auto

lemma consumes_constraint_column: "consumes (parseConstraintColumn cd) (\<lambda>x bs. 1 \<le> length bs)"
proof -
  have "consumes (parseConstraintColumn cd) (\<lambda>x bs. 1 + 0 \<le> length bs)"
    unfolding parseConstraintColumn_def
    by (rule consumes_then [OF consumes_u32], rule consumes_weaken [OF consumes_safe]) (auto intro!: safe_intros)
  then show ?thesis by simp
qed

lemma local_bodies [local_intros]:
  "local (parseKeyConstraintBody cd r)" "local (parseColumnConstraintBody cd r)"
proof -
  show "local (parseColumnConstraintBody cd r)"
    unfolding parseColumnConstraintBody_def Let_def by (auto intro!: local_intros)
  have "consumes (bindP (manyP (\<lambda>i. parseConstraintColumn cd) 0 n) (\<lambda>cols. retP (f cols))) (\<lambda>y bs. n + 0 \<le> length bs)"
    for n and f :: "constraintColumn list \<Rightarrow> constraintRecord"
    by (rule consumes_then [OF consumes_many_long [OF consumes_constraint_column]])
      (auto intro: consumes_weaken [OF consumes_prims(1)])
  then show "local (parseKeyConstraintBody cd r)"
    unfolding parseKeyConstraintBody_def
    by (intro local_bind local_u32 local_prims local_zeros local_sized local_room local_many local_constraint_column) simp
qed

lemma local_constraint_record [local_intros]: "local (parseConstraintRecord cd)"
  unfolding parseConstraintRecord_def Let_def by (auto intro!: local_intros)

interpretation constraint_array: record_array "parseConstraintRecord cd" placeConstraint for cd
  by unfold_locales (simp_all add: local_constraint_record placeConstraint_def)

end
