(* ===== verification/Constraint_Trips.thy ===== *)
theory Constraint_Trips
  imports Constraint_Records
begin

text \<open>
  The constraint array read back as written: each body's round trip, the record's, and the
  one length its single-byte counts cannot hold.
\<close>

section \<open>Values and names\<close>

definition value_ok :: "typedValue \<Rightarrow> bool" where
  "value_ok v \<longleftrightarrow> (tvPresent v \<or> tvData v = [])"

lemma reads_typed:
  assumes "value_ok v" and "appendTypedValue out v = Inr bs"
  obtains b where "bs = out @ b" and "reads readTypedValue v b"
proof (cases "tvPresent v")
  case False
  then have v: "\<lparr>tvBase = tvBase v, tvPresent = False, tvData = []\<rparr> = v" using assms(1) by (simp add: value_ok_def)
  have "reads readTypedValue \<lparr>tvBase = tvBase v, tvPresent = False, tvData = []\<rparr> ([tvBase v, typedValueAbsent] @ [])"
    unfolding readTypedValue_def
    by (rule reads_bind [OF reads_bytes]) (simp_all add: reads_ret)
  then show thesis unfolding v using that [of "[tvBase v, typedValueAbsent]"] assms(2) False by (auto simp: appendTypedValue_def)
next
  case True
  let ?d = "tvData v" let ?n = "word_of_nat (length ?d) :: u32"
  have v: "\<lparr>tvBase = tvBase v, tvPresent = True, tvData = ?d\<rparr> = v" using True by simp
  have len: "length ?d \<le> maxTypedValueSize" and bs: "bs = out @ [tvBase v, typedValuePresent] @ leU32 ?n @ ?d"
    using assms(2) True by (auto simp: appendTypedValue_def split: if_splits)
  have n: "unat ?n = length ?d" using len by (intro unat_u32_len) (simp add: maxTypedValueSize_def)
  have "reads readTypedValue \<lparr>tvBase = tvBase v, tvPresent = True, tvData = ?d\<rparr> ([tvBase v, typedValuePresent] @ leU32 ?n @ ?d @ [])"
    unfolding readTypedValue_def
    by (rule reads_bind [OF reads_bytes], simp,
        simp add: constraint_consts, rule reads_bind [OF reads_u32], rule reads_last [OF reads_bytes], rule n, rule reads_ret)
  then show thesis unfolding v using that bs by simp
qed

lemma reads_sizedstring32:
  assumes "lawful_codec cd" and "storable cd 255 s"
  shows "appendSizedString32 cd out s = Inr bs \<Longrightarrow> \<exists>b. bs = out @ b \<and> reads (readSizedString32 cd) s b \<and> 1 \<le> length b"
    and "appendOptionalSizedString32 cd out s = Inr bs \<Longrightarrow> \<exists>b. bs = out @ b \<and> reads (readSizedString32 cd) s b"
  using named_encode [OF assms]
  by (auto simp: appendSizedString32_def appendOptionalSizedString32_def appendSized32_def appendPascalString_def
      intro!: reads_sized32 [simplified])

lemma reads_sizedstring8:
  assumes "lawful_codec cd" and "storable cd 254 s" and "appendSizedString8 cd out s = Inr bs"
  shows "\<exists>b. bs = out @ b \<and> reads (readSizedString8 cd) s b"
  using named_encode(2) [OF assms(1,2)] assms(3)
  by (auto simp: appendSizedString8_def appendPascalString_def intro!: reads_sized8 [simplified])

section \<open>Bodies\<close>

lemma reads_constraint_column:
  assumes "reads (readSizedString32 cd) (ccName c) b"
  shows "reads (parseConstraintColumn cd) c (leU32 (ccObjectID c) @ b)"
proof -
  have "reads (parseConstraintColumn cd) \<lparr>ccName = ccName c, ccObjectID = ccObjectID c\<rparr> (leU32 (ccObjectID c) @ b @ [])"
    unfolding parseConstraintColumn_def
    by (rule reads_bind [OF reads_u32], rule reads_bind [OF assms], rule reads_ret)
  then show ?thesis by (cases c) simp
qed

lemma reads_key_columns:
  assumes "lawful_codec cd" and "\<forall>c \<in> set cs. storable cd 255 (ccName c)" and "appendKeyColumns cd cs out = Inr bs"
  shows "\<exists>b. bs = out @ b \<and> reads (manyP (\<lambda>i. parseConstraintColumn cd) i (length cs)) cs b \<and> length cs \<le> length b"
  using assms(2,3)
proof (induction cs arbitrary: out i)
  case (Cons c cs)
  then obtain out' where o: "appendSizedString32 cd (out @ leU32 (ccObjectID c)) (ccName c) = Inr out'"
    and rest: "appendKeyColumns cd cs out' = Inr bs" by auto
  obtain b where b: "out' = (out @ leU32 (ccObjectID c)) @ b" "reads (readSizedString32 cd) (ccName c) b" "1 \<le> length b"
    using reads_sizedstring32(1) [OF assms(1) _ o] Cons.prems(1) by auto
  obtain d where d: "bs = out' @ d" "reads (manyP (\<lambda>i. parseConstraintColumn cd) (Suc i) (length cs)) cs d" "length cs \<le> length d"
    using Cons.IH [OF _ rest, of "Suc i"] Cons.prems(1) by auto
  have "reads (manyP (\<lambda>i. parseConstraintColumn cd) i (Suc (length cs))) (c # cs) ((leU32 (ccObjectID c) @ b) @ d @ [])"
    unfolding manyP.simps
    by (rule reads_bind [OF reads_constraint_column [OF b(2)]], rule reads_bind [OF d(2)], rule reads_ret)
  then show ?case using b d by (intro exI [of _ "(leU32 (ccObjectID c) @ b) @ d"]) simp
qed (simp add: reads_ret)

text \<open>The fields a key-shaped record has, and those a column-shaped one has.\<close>

definition key_ok :: "codec \<Rightarrow> constraintRecord \<Rightarrow> bool" where
  "key_ok cd r \<longleftrightarrow> storable cd 255 (crTable r) \<and> storable cd 255 (crIndex r)
     \<and> (\<forall>c \<in> set (crColumns r). storable cd 255 (ccName c)) \<and> crMin r = noValue \<and> crMax r = noValue"

definition column_ok :: "codec \<Rightarrow> constraintRecord \<Rightarrow> bool" where
  "column_ok cd r \<longleftrightarrow> storable cd 254 (crTable r) \<and> crIndex r = []
     \<and> (\<forall>c \<in> set (crColumns r). storable cd 254 (ccName c) \<and> ccObjectID c = 0)
     \<and> value_ok (crMin r) \<and> value_ok (crMax r)
     \<and> (crKind r \<noteq> constraintCheck \<longrightarrow> crMin r = noValue \<and> crMax r = noValue)"

definition constraint_ok :: "codec \<Rightarrow> constraintRecord \<Rightarrow> bool" where
  "constraint_ok cd r \<longleftrightarrow> storable cd 255 (crName r) \<and> (if keyKind (crKind r) then key_ok cd r else column_ok cd r)"

text \<open>What the header of a record leaves for the body to fill in.\<close>

definition headOf :: "constraintRecord \<Rightarrow> constraintRecord" where
  "headOf r = \<lparr>crKind = crKind r, crName = crName r, crObjectID = crObjectID r, crOwnerID = crOwnerID r, crTable = [],
     crIndex = [], crColumns = [], crMin = noValue, crMax = noValue, crStart = 0, crEnd = 0\<rparr>"

lemma reads_key_body:
  assumes "lawful_codec cd" and "key_ok cd r" and "appendKeyConstraintBody cd out r = Inr bs"
  shows "\<exists>b. bs = out @ b \<and> reads (parseKeyConstraintBody cd (headOf r)) (placeConstraint 0 0 r) b"
proof -
  let ?n = "word_of_nat (length (crColumns r)) :: u32" let ?one = "word_of_nat constraintBodyCount :: u32"
  obtain o1 o2 where n: "length (crColumns r) \<le> maxSchemaColumns"
    and o1: "appendOptionalSizedString32 cd (out @ leU32 ?one @ [0]) (crTable r) = Inr o1"
    and o2: "appendSizedString32 cd o1 (crIndex r) = Inr o2"
    and bs: "appendKeyColumns cd (crColumns r) (o2 @ leU32 ?n) = Inr bs"
    using assms(3) by (auto simp: appendKeyConstraintBody_def)
  obtain t where t: "o1 = (out @ leU32 ?one @ [0]) @ t" "reads (readSizedString32 cd) (crTable r) t"
    using reads_sizedstring32(2) [OF assms(1) _ o1] assms(2) by (auto simp: key_ok_def)
  obtain x where x: "o2 = o1 @ x" "reads (readSizedString32 cd) (crIndex r) x"
    using reads_sizedstring32(1) [OF assms(1) _ o2] assms(2) by (auto simp: key_ok_def)
  obtain c where c: "bs = (o2 @ leU32 ?n) @ c" "length (crColumns r) \<le> length c"
      "reads (manyP (\<lambda>i. parseConstraintColumn cd) 0 (length (crColumns r))) (crColumns r) c"
    using reads_key_columns [OF assms(1) _ bs] assms(2) by (auto simp: key_ok_def)
  have un: "unat ?n = length (crColumns r)" using n by (intro unat_u32_len) (simp add: maxSchemaColumns_def)
  have cols: "reads (manyP (\<lambda>i. parseConstraintColumn cd) 0 (unat ?n)) (crColumns r) c" unfolding un by (rule c(3))
  have room: "unat ?n \<le> length (c @ [])" using c(2) un by simp
  have ub: "unat ?one = constraintBodyCount" by (simp add: constraintBodyCount_def)
  have r: "placeConstraint 0 0 r = (headOf r)\<lparr>crTable := crTable r, crIndex := crIndex r, crColumns := crColumns r\<rparr>"
    using assms(2) by (simp add: placeConstraint_def headOf_def key_ok_def)
  have "reads (parseKeyConstraintBody cd (headOf r)) (placeConstraint 0 0 r)
      (leU32 ?one @ [0] @ t @ x @ leU32 ?n @ c @ [])"
    unfolding parseKeyConstraintBody_def
    by (subst r, rule reads_bind [OF reads_u32], rule reads_guard, rule ub, rule reads_bind [OF reads_zeros], simp, simp,
        rule reads_bind [OF t(2)], rule reads_bind [OF x(2)], rule reads_bind [OF reads_u32], rule reads_guard,
        simp only: un n, rule reads_room [OF room], rule reads_bind [OF cols], rule reads_ret)
  then show ?thesis using t x c by auto
qed

lemma reads_column_body:
  assumes "lawful_codec cd" and "column_ok cd r" and "appendColumnConstraintBody cd out r = Inr bs"
  shows "\<exists>b. bs = out @ b \<and> reads (parseColumnConstraintBody cd (headOf r)) (placeConstraint 0 0 r) b"
proof -
  obtain o1 o2 where n: "length (crColumns r) = 1"
    and o1: "appendSizedString8 cd (out @ [word_of_nat constraintBodyCount, 0]) (crTable r) = Inr o1"
    and o2: "appendSizedString8 cd o1 (ccName (crColumns r ! 0)) = Inr o2"
    and bs: "(if crKind r \<noteq> constraintCheck then Inr o2
       else bindR (appendTypedValue o2 (crMin r)) (\<lambda>out. appendTypedValue out (crMax r))) = Inr bs"
    using assms(3) unfolding appendColumnConstraintBody_def bindR_eq_Inr guardR_eq_Inr by blast
  obtain c where c: "crColumns r = [c]" using n by (auto simp: length_Suc_conv)
  have cc: "storable cd 254 (ccName c)" "\<lparr>ccName = ccName c, ccObjectID = 0\<rparr> = c"
    using assms(2) c by (auto simp: column_ok_def)
  obtain t where t: "o1 = (out @ [word_of_nat constraintBodyCount, 0]) @ t" "reads (readSizedString8 cd) (crTable r) t"
    using reads_sizedstring8 [OF assms(1) _ o1] assms(2) by (auto simp: column_ok_def)
  obtain x where x: "o2 = o1 @ x" "reads (readSizedString8 cd) (ccName c) x"
    using reads_sizedstring8 [OF assms(1) _ o2] cc(1) c by auto
  let ?r = "(headOf r)\<lparr>crTable := crTable r, crColumns := [c]\<rparr>"
  let ?tail = "if crKind (headOf r) \<noteq> constraintCheck then retP ?r
     else bindP readTypedValue (\<lambda>lo. bindP readTypedValue (\<lambda>hi. retP (?r\<lparr>crMin := lo, crMax := hi\<rparr>)))"
  have k: "crKind (headOf r) = crKind r" by (simp add: headOf_def)
  obtain v where v: "bs = o2 @ v" "reads ?tail (placeConstraint 0 0 r) v"
  proof (cases "crKind r = constraintCheck")
    case False
    have "placeConstraint 0 0 r = ?r" using assms(2) False c by (simp add: placeConstraint_def headOf_def column_ok_def)
    then show thesis using that [of "[]"] False bs k by (simp add: reads_ret)
  next
    case True
    then obtain o3 where o3: "appendTypedValue o2 (crMin r) = Inr o3" "appendTypedValue o3 (crMax r) = Inr bs" using bs by auto
    have ok: "value_ok (crMin r)" "value_ok (crMax r)" using assms(2) by (simp_all add: column_ok_def)
    obtain a where a: "o3 = o2 @ a" "reads readTypedValue (crMin r) a" using reads_typed [OF ok(1) o3(1)] .
    obtain b where b: "bs = o3 @ b" "reads readTypedValue (crMax r) b" using reads_typed [OF ok(2) o3(2)] .
    have r: "placeConstraint 0 0 r = ?r\<lparr>crMin := crMin r, crMax := crMax r\<rparr>"
      using assms(2) c by (simp add: placeConstraint_def headOf_def column_ok_def)
    have "reads ?tail (placeConstraint 0 0 r) (a @ b @ [])"
      unfolding r using True k by (simp, intro reads_bind [OF a(2)] reads_bind [OF b(2), simplified] reads_last [OF b(2)] reads_ret)
    then show thesis using that [of "a @ b"] a b by simp
  qed
  have one: "unat (word_of_nat constraintBodyCount :: byte) = constraintBodyCount" by (simp add: constraintBodyCount_def)
  have "reads (parseColumnConstraintBody cd (headOf r)) (placeConstraint 0 0 r)
      ([word_of_nat constraintBodyCount] @ [0] @ t @ x @ v)"
    unfolding parseColumnConstraintBody_def Let_def
    by (rule reads_bind [OF reads_byte], rule reads_guard, rule one, rule reads_bind [OF reads_zeros], simp, simp,
        rule reads_bind [OF t(2)], rule reads_bind [OF x(2)], unfold cc(2), rule v(2))
  then show ?thesis using t x v by auto
qed

theorem constraint_record_reads:
  assumes "lawful_codec cd" and "constraint_ok cd r" and "serializeConstraintRecord cd r = Inr bs"
  shows "reads (parseConstraintRecord cd) (placeConstraint 0 0 r) bs"
proof -
  obtain t where t: "encodePascalName cd (crName r) = Inr t" using assms(3) by (auto simp: serializeConstraintRecord_def)
  have nm: "named cd (crName r) t" using named_encode(2) [OF assms(1)] assms(2) t by (auto simp: constraint_ok_def)
  let ?zeros = "replicate constraintReservedSize 0 :: byte list"
  let ?out = "appendPascalString [crKind r] t @ leU32 (crObjectID r) @ ?zeros @ leU32 (crOwnerID r)"
  let ?tail = "\<lambda>r'. if keyKind (crKind r) then parseKeyConstraintBody cd r'
     else if columnKind (crKind r) then parseColumnConstraintBody cd r' else failP (ErrText ''unsupported constraint kind'')"
  obtain b where b: "bs = ?out @ b" "reads (?tail (headOf r)) (placeConstraint 0 0 r) b"
    using assms(2,3) t reads_key_body [OF assms(1), of r ?out bs] reads_column_body [OF assms(1), of r ?out bs]
    by (cases "keyKind (crKind r)"; cases "columnKind (crKind r)")
      (auto simp: serializeConstraintRecord_def Let_def constraint_ok_def)
  have "reads (parseConstraintRecord cd) (placeConstraint 0 0 r)
      ([crKind r] @ (word_of_nat (length t) # t) @ leU32 (crObjectID r) @ ?zeros @ leU32 (crOwnerID r) @ b)"
    unfolding parseConstraintRecord_def Let_def
    by (rule reads_bind [OF reads_byte], rule reads_bind [OF reads_pascal [OF nm]], rule reads_bind [OF reads_u32],
        rule reads_bind [OF reads_zeros], simp, simp, rule reads_bind [OF reads_u32], rule b(2) [unfolded headOf_def])
  then show ?thesis using b(1) by (simp add: appendPascalString_def)
qed

end
