(* ===== verification/Schema_Stream.thy ===== *)
theory Schema_Stream
  imports Constraint_Trips
begin

text \<open>
  The column-definition stream of a table: the column array (\<open>parseColumnDef\<close>, \<open>parseSchema\<close>
  of \<open>schema.go\<close>; \<open>serializeColumnDef\<close> of \<open>ddl_create.go\<close>), the tail with the two record
  arrays (\<open>parseSchemaTail\<close> of \<open>ddl_index.go\<close>), and the splices that edit the stream in place.
\<close>

definition autoIncBlockSize :: nat where "autoIncBlockSize = 33"
definition blobSettingsSize :: nat where "blobSettingsSize = 6"
definition minColumnDefSize :: nat where "minColumnDefSize = 1 + 4 + 2 + 4 + autoIncBlockSize + 2"
definition systemIndexRootsSize :: nat where "systemIndexRootsSize = 8"

section \<open>Column definitions\<close>

definition noBlob :: blobSettings where
  "noBlob = \<lparr>blobAlgorithm = 0, blobMode = 0, blobBlockSize = 0, blobKnown = False\<rparr>"

definition columnDefaultEnd :: "bool scan" where
  "columnDefaultEnd =
     bindP (nextByte (ErrText ''malformed default value'')) (\<lambda>b.
     if b = typedValueAbsent then retP False
     else if b = typedValuePresent then
       bindP (nextBytes 4 (ErrText ''malformed default value'')) (\<lambda>n.
       bindP (nextBytes (unat (getU32 n 0)) (ErrText ''malformed default value'')) (\<lambda>_. retP True))
     else failP (ErrText ''malformed default value''))"

definition blobSettingsP :: "byte \<Rightarrow> blobSettings scan" where
  "blobSettingsP base =
     (if base = BftBlob \<or> base = BftClob \<or> base = BftWideClob
      then bindP (nextBytes blobSettingsSize (ErrText ''truncated BLOB settings'')) (\<lambda>b.
        retP \<lparr>blobAlgorithm = b ! 0, blobMode = b ! 1, blobBlockSize = getU32 b 2, blobKnown = True\<rparr>)
      else retP noBlob)"

definition parseColumnDef :: "codec \<Rightarrow> nat \<Rightarrow> Column scan" where
  "parseColumnDef cd index =
     bindP (nextByte (ErrText ''unexpected end of data'')) (\<lambda>nameLen.
     bindP (nextBytes (unat nameLen) (ErrText ''name extends beyond data'')) (\<lambda>name.
     bindP (nextBytes 4 (ErrText ''truncated column ID'')) (\<lambda>colID.
     bindP (nextBytes 2 (ErrText ''truncated field types'')) (\<lambda>types.
     bindP (nextBytes 4 (ErrText ''truncated size'')) (\<lambda>size'.
     bindP (blobSettingsP (types ! 0)) (\<lambda>bl.
     bindP (nextBytes autoIncBlockSize (ErrText ''truncated autoinc options'')) (\<lambda>a.
     bindP (nextByte (ErrText ''truncated default value tag'')) (\<lambda>_.
     bindP columnDefaultEnd (\<lambda>present.
     retP \<lparr>Name = decodeANSI (ansiDecode cd) name, ColID = getU32 colID 0, BaseType = types ! 0,
       FieldType = types ! 1, Size = getU32 size' 0, Position = index, hasDefault = present,
       autoInc = \<lparr>increment = sint (getU64 a 0), initialValue = sint (getU64 a 8), minValue = sint (getU64 a 16),
         maxValue = sint (getU64 a 24), cycled = (a ! 32 \<noteq> 0), aiKnown = True\<rparr>,
       blob = bl, notNull = False, nullabilityKnown = False\<rparr>)))))))))"

text \<open>The column count is bounded by the data before anything is allocated for it.\<close>

definition schemaColumnCount :: "byte list \<Rightarrow> nat result" where
  "schemaColumnCount data =
     (if length data < 4 then Inl ErrBadSchema
      else let n = unat (getU32 data 0) in
        if n > maxSchemaColumns \<or> n > length data div minColumnDefSize then Inl ErrBadSchema else Inr n)"

definition parseSchema :: "codec \<Rightarrow> byte list \<Rightarrow> Column list result" where
  "parseSchema cd data = bindR (schemaColumnCount data) (\<lambda>n.
     bindR (wrapP ErrBadSchema (manyP (parseColumnDef cd) 0 n) data 4) (\<lambda>(cols, pos). Inr cols))"

definition schemaColumnsEnd :: "codec \<Rightarrow> byte list \<Rightarrow> nat result" where
  "schemaColumnsEnd cd data = bindR (schemaColumnCount data) (\<lambda>n.
     bindR (wrapP ErrBadSchema (manyP (parseColumnDef cd) 0 n) data 4) (\<lambda>(cols, pos). Inr pos))"

definition columnSpanP :: "codec \<Rightarrow> nat \<Rightarrow> (nat \<times> nat) scan" where
  "columnSpanP cd i = bindP posP (\<lambda>s. bindP (parseColumnDef cd i) (\<lambda>_. bindP posP (\<lambda>e. retP (s, e))))"

definition schemaColumnSpans :: "codec \<Rightarrow> byte list \<Rightarrow> ((nat \<times> nat) list \<times> nat) result" where
  "schemaColumnSpans cd data = bindR (schemaColumnCount data) (\<lambda>n.
     wrapP ErrBadSchema (manyP (columnSpanP cd) 0 n) data 4)"

section \<open>The tail\<close>

definition readArrayCount :: "nat scan" where
  "readArrayCount =
     bindP (nextBytes 4 ErrBadSchema) (\<lambda>b.
     let count = sint (getU32 b 0) in
     bindP (guardP (0 \<le> count) ErrBadSchema) (\<lambda>_.
     bindP (roomP (nat count) ErrBadSchema) (\<lambda>_. retP (nat count))))"

definition remainingP :: "nat \<Rightarrow> err \<Rightarrow> unit scan" where
  "remainingP n e data pos = (if length data - pos = n then Inr ((), pos) else Inl e)"

definition schemaTailP :: "codec \<Rightarrow> (nat \<times> indexRecord list \<times> constraintRecord list \<times> nat) scan" where
  "schemaTailP cd =
     bindP readArrayCount (\<lambda>n.
     bindP (wrapP ErrSchemaTailNotUnderstood (parseIndexRecords cd n)) (\<lambda>records.
     bindP posP (\<lambda>tailStart.
     bindP readArrayCount (\<lambda>m.
     bindP (wrapP ErrSchemaTailNotUnderstood (parseConstraintRecords cd m)) (\<lambda>constraints.
     bindP (remainingP systemIndexRootsSize ErrSchemaTailNotUnderstood) (\<lambda>_.
     retP (n, records, constraints, tailStart)))))))"

definition parseSchemaTail ::
    "codec \<Rightarrow> byte list \<Rightarrow> (nat \<times> nat \<times> indexRecord list \<times> constraintRecord list \<times> nat) result" where
  "parseSchemaTail cd data =
     bindR (schemaColumnsEnd cd data) (\<lambda>colsEnd.
     bindR (schemaTailP cd data colsEnd) (\<lambda>((n, records, constraints, tailStart), _).
     Inr (colsEnd, n, records, constraints, tailStart)))"

definition tailConstraints :: "codec \<Rightarrow> byte list \<Rightarrow> constraintRecord list option" where
  "tailConstraints cd stream = (case parseSchemaTail cd stream of
     Inl e \<Rightarrow> None | Inr (_, _, _, constraints, _) \<Rightarrow> Some constraints)"

text \<open>\<open>applyNullability\<close>: what the constraint array says of each column.\<close>

definition applyNullability :: "codec \<Rightarrow> (nat \<Rightarrow> nat) \<Rightarrow> Column list \<Rightarrow> byte list \<Rightarrow> Column list" where
  "applyNullability cd fold' cols stream = (case tailConstraints cd stream of
     None \<Rightarrow> cols
   | Some cs \<Rightarrow> map (\<lambda>c. c\<lparr>nullabilityKnown := True,
       notNull := (notNull c \<or> (\<exists>r \<in> set cs. crKind r = constraintNotNull \<and> namesColumn fold' r (Name c)))\<rparr>) cols)"

section \<open>Writing the stream\<close>

definition knownColumnTypes :: "byte \<Rightarrow> byte list" where
  "knownColumnTypes t =
     (if t = BftInt32 then [FieldInteger, FieldAutoInc] else if t = BftVarchar then [FieldString] else [])"

definition knownColumnType :: "Column \<Rightarrow> bool" where
  "knownColumnType c \<longleftrightarrow> \<not> IsBLOB c \<and> FieldType c \<in> set (knownColumnTypes (BaseType c))"

definition serializeColumnDef :: "codec \<Rightarrow> Column \<Rightarrow> byte list result" where
  "serializeColumnDef cd c =
     bindR (guardR (knownColumnType c) ErrUnsupportedColumnType) (\<lambda>_.
     bindR (guardR (\<not> hasDefault c) ErrColumnDefault) (\<lambda>_.
     bindR (guardR (engineDefault (autoInc c)) ErrColumnAutoIncOptions) (\<lambda>_.
     case ansiEncode cd (Name c) of
       None \<Rightarrow> Inl ErrStringEncoding
     | Some t \<Rightarrow>
         if length t = 0 \<or> length t > 255 then Inl ErrValueRange
         else Inr (word_of_nat (length t) # t @ leU32 (ColID c) @ [BaseType c, FieldType c] @ leU32 (Size c)
           @ concat (map (\<lambda>v. leU64 (word_of_int v)) [1, 0, 0, 2 ^ 63 - 1]) @ [0] @ [BaseType c, typedValueAbsent]))))"

definition serializeColumnDefs :: "codec \<Rightarrow> Column list \<Rightarrow> byte list result" where
  "serializeColumnDefs cd cols =
     bindR (guardR (length cols \<le> maxSchemaColumns) ErrBadSchema) (\<lambda>_.
     bindR (mapR (serializeColumnDef cd) cols) (\<lambda>defs.
     Inr (leU32 (word_of_nat (length cols)) @ concat defs)))"

definition buildSchemaFile :: "byte list \<Rightarrow> byte list \<Rightarrow> byte list \<Rightarrow> int \<Rightarrow> byte list" where
  "buildSchemaFile colDefs indexes constraints recordIndexRoot =
     colDefs @ indexes @ constraints @ leU32 (uint32 (int32 recordIndexRoot)) @ leU32 noPageNo"

definition spliceIndexRecord :: "byte list \<Rightarrow> nat \<Rightarrow> int \<Rightarrow> byte list list \<Rightarrow> byte list" where
  "spliceIndexRecord data colsEnd newCount parts =
     take colsEnd data @ leU32 (uint32 newCount) @ concat parts"

text \<open>
  The stream edit of \<open>DropIndex\<close>, that of \<open>createIndexPlan.splice\<close>, and the one
  \<open>spliceSchemaColumns\<close> makes between reading the stream and writing it back.
\<close>

definition dropIndexStream :: "byte list \<Rightarrow> nat \<Rightarrow> nat \<Rightarrow> nat \<Rightarrow> indexRecord \<Rightarrow> byte list" where
  "dropIndexStream data colsEnd indexCount tailStart r =
     spliceIndexRecord data colsEnd (int indexCount - 1)
       [slc (colsEnd + 4) (irStart r) data, [], slc (irEnd r) tailStart data, drop tailStart data]"

definition createIndexSplice ::
    "byte list \<Rightarrow> nat \<Rightarrow> nat \<Rightarrow> nat \<Rightarrow> nat \<Rightarrow> byte list \<Rightarrow> byte list option \<Rightarrow> byte list" where
  "createIndexSplice data colsEnd indexCount tailStart constraintCount recd constr =
     (let indexArray = slc (colsEnd + 4) tailStart data in
      case constr of
        None \<Rightarrow> spliceIndexRecord data colsEnd (int indexCount + 1) [indexArray, recd, drop tailStart data]
      | Some c \<Rightarrow>
          let trailerStart = length data - systemIndexRootsSize in
          spliceIndexRecord data colsEnd (int indexCount + 1)
            [indexArray, recd, leU32 (word_of_nat (constraintCount + 1)),
             slc (tailStart + 4) trailerStart data, c, drop trailerStart data])"

definition spliceColumns :: "codec \<Rightarrow> byte list \<Rightarrow> int \<Rightarrow> byte list option \<Rightarrow> byte list result" where
  "spliceColumns cd data dropIndex addColDef =
     bindR (schemaColumnSpans cd data) (\<lambda>(spans, tailStart).
     bindR (guardR (dropIndex < int (length spans)) ErrBadSchema) (\<lambda>_.
     let kept = (if dropIndex \<ge> 0
           then slc 4 (fst (spans ! nat dropIndex)) data @ slc (snd (spans ! nat dropIndex)) tailStart data
           else slc 4 tailStart data);
         count = (if dropIndex \<ge> 0 then length spans - 1 else length spans)
     in (case addColDef of
           None \<Rightarrow> Inr (leU32 (word_of_nat count) @ kept @ drop tailStart data)
         | Some d \<Rightarrow> Inr (leU32 (word_of_nat (count + 1)) @ kept @ d @ drop tailStart data))))"

section \<open>The column parser's frame\<close>

lemma safe_column [safe_intros]: "safe columnDefaultEnd" "safe (blobSettingsP b)" "safe (parseColumnDef cd i)"
  unfolding parseColumnDef_def columnDefaultEnd_def blobSettingsP_def by (auto intro!: safe_intros)

lemma local_column [local_intros]: "local columnDefaultEnd" "local (blobSettingsP b)" "local (parseColumnDef cd i)"
  unfolding parseColumnDef_def columnDefaultEnd_def blobSettingsP_def by (auto intro!: local_intros)

lemma consumes_at_least:
  "consumes (nextByte e) (\<lambda>x bs. 1 \<le> length bs)" "consumes (nextBytes n e) (\<lambda>x bs. n \<le> length bs)"
  "safe m \<Longrightarrow> consumes m (\<lambda>x bs. 0 \<le> length bs)"
  by (auto intro: consumes_weaken [OF consumes_prims(5)] consumes_weaken [OF consumes_prims(6)]
      consumes_weaken [OF consumes_safe])

lemma consumes_default: "consumes columnDefaultEnd (\<lambda>x bs. 1 + 0 \<le> length bs)"
  unfolding columnDefaultEnd_def
  by (rule consumes_then [OF consumes_at_least(1)], rule consumes_at_least(3)) (auto intro!: safe_intros)

lemma consumes_column: "consumes (parseColumnDef cd i) (\<lambda>x bs. minColumnDefSize \<le> length bs)"
proof -
  have "consumes (parseColumnDef cd i) (\<lambda>x bs. 1 + (0 + (4 + (2 + (4 + (0 + (autoIncBlockSize + (1 + ((1 + 0) + 0)))))))) \<le> length bs)"
    unfolding parseColumnDef_def
    by (intro consumes_then consumes_at_least(1,2) consumes_default;
        (rule consumes_at_least(3), auto intro!: safe_intros)?)
  then show ?thesis by (rule consumes_weaken) (simp add: minColumnDefSize_def)
qed

end
