(* ===== verification/Internal_Files.thy ===== *)
theory Internal_Files
  imports Schema_Stream
begin

text \<open>
  Internal files (\<open>schema.go\<close>: the header and its compression; \<open>catalog.go\<close>: the page chains they
  are stored in; \<open>blob.go\<close>: the bounds on what a stream may inflate to) and the schema stream
  functions of \<open>ddl_index.go\<close>. \<open>zlibRead n\<close> gives the first \<open>n\<close> bytes that \<open>compress/zlib\<close>
  reads out of a stream, \<open>None\<close> when it reports an error; \<open>zlibCompress\<close> is \<open>zlib1.Compress\<close>.
\<close>

record zlib =
  zlibCompress :: "byte list \<Rightarrow> byte list"
  zlibRead :: "nat \<Rightarrow> byte list \<Rightarrow> byte list option"

definition internalFileHeaderSize :: nat where "internalFileHeaderSize = 10"
definition maxCatalogPages :: nat where "maxCatalogPages = 64"

section \<open>Inflating\<close>

record inflateBounds =
  ratio :: int
  floorSize :: int
  hardMax :: int

definition maxDecompressedSize :: int where "maxDecompressedSize = 268435456"
definition decompressSlack :: int where "decompressSlack = 4096"

definition blobInflateBounds :: inflateBounds where
  "blobInflateBounds = \<lparr>ratio = 1000, floorSize = 1048576, hardMax = maxDecompressedSize\<rparr>"

definition internalFileInflateBounds :: inflateBounds where
  "internalFileInflateBounds = \<lparr>ratio = 64, floorSize = 65536, hardMax = 16777216\<rparr>"

definition inflateLimit :: "nat \<Rightarrow> int \<Rightarrow> inflateBounds \<Rightarrow> int result" where
  "inflateLimit compressedLen declared b =
     (let ceiling' = min (max (int compressedLen * ratio b) (floorSize b)) (hardMax b) in
      if declared < 0 then Inl (ErrText ''negative uncompressed size'')
      else if declared > ceiling' then Inl (ErrText ''declared size exceeds limit'')
      else Inr (min (declared + decompressSlack) ceiling'))"

definition inflateLimited :: "zlib \<Rightarrow> byte list \<Rightarrow> int \<Rightarrow> inflateBounds \<Rightarrow> byte list result" where
  "inflateLimited z compressed declared b =
     bindR (inflateLimit (length compressed) declared b) (\<lambda>limit.
       case zlibRead z (nat (limit + 1)) compressed of
         None \<Rightarrow> Inl (ErrText ''zlib'')
       | Some r \<Rightarrow> if int (length r) > limit then Inl (ErrText ''stream yields more than declared'') else Inr r)"

section \<open>The internal file header\<close>

definition decompressInternalFile :: "zlib \<Rightarrow> byte list \<Rightarrow> byte list result" where
  "decompressInternalFile z data =
     (if length data < internalFileHeaderSize then Inl ErrBadSchema
      else let fileHdrSize = unat (data ! 0); compressedSize = unat (getU32 data 1);
               decompressedSize = uint (getU32 data 5); algo = data ! 9 in
        if fileHdrSize < internalFileHeaderSize \<or> fileHdrSize + compressedSize > length data then Inl ErrBadSchema
        else let compressed = slc fileHdrSize (fileHdrSize + compressedSize) data in
          if algo = 0 then Inr compressed
          else if algo = 1 then (case inflateLimited z compressed decompressedSize internalFileInflateBounds of
              Inl e \<Rightarrow> Inl ErrCompression
            | Inr r \<Rightarrow> Inr r)
          else Inl ErrCompression)"

definition compressInternalFile :: "zlib \<Rightarrow> byte list \<Rightarrow> byte \<Rightarrow> byte list result" where
  "compressInternalFile z content algo =
     bindR (if algo = 0 then Inr content else if algo = 1 then Inr (zlibCompress z content) else Inl ErrCompression) (\<lambda>payload.
       if length payload > 2 ^ 31 - 1 \<or> length content > 2 ^ 31 - 1 then Inl ErrCompression
       else Inr ([word_of_nat internalFileHeaderSize] @ leU32 (word_of_nat (length payload))
         @ leU32 (word_of_nat (length content)) @ [algo] @ payload))"

section \<open>Page chains of the file\<close>

definition nextPageNo :: "page \<Rightarrow> int" where
  "nextPageNo p = (case Header p of None \<Rightarrow> -1 | Some h \<Rightarrow> sint (NextPageNo h))"

text \<open>The loop of \<open>readInternalFilePages\<close>; the map of visited pages is the list of their numbers.\<close>

function gatherChain :: "dbfile \<Rightarrow> int \<Rightarrow> int list \<Rightarrow> byte list \<Rightarrow> int \<Rightarrow> byte list result" where
  "gatherChain db want visited out nxt =
     (if int (length out) < want \<and> nxt \<ge> 0 then
        if nxt \<in> set visited then Inl ErrBadCatalog
        else if length visited \<ge> maxCatalogPages then Inl ErrBadCatalog
        else (case ReadPage db nxt of
            Inl e \<Rightarrow> Inl e
          | Inr p \<Rightarrow> gatherChain db want (nxt # visited) (out @ Payload p) (nextPageNo p))
      else Inr out)"
  by pat_completeness auto
termination
  by (relation "measure (\<lambda>(db, want, visited, out, nxt). maxCatalogPages - length visited)") auto

declare gatherChain.simps [simp del]

definition readInternalFilePages :: "dbfile \<Rightarrow> int \<Rightarrow> byte list result" where
  "readInternalFilePages db first =
     bindR (ReadPage db first) (\<lambda>p. let data = Payload p in
       if length data < internalFileHeaderSize then Inl ErrBadCatalog
       else gatherChain db (int (unat (data ! 0)) + uint (getU32 data 1)) [first] data (nextPageNo p))"

text \<open>\<open>internalFilePages\<close>: the pages of the chain, the last one at the end of the list.\<close>

function chainPages :: "dbfile \<Rightarrow> int list \<Rightarrow> int list result" where
  "chainPages db pages =
     (case ReadPage db (last pages) of
        Inl e \<Rightarrow> Inl e
      | Inr p \<Rightarrow> let nxt = nextPageNo p in
          if nxt < 0 then Inr pages
          else if nxt \<in> set pages then Inl (ErrText ''visits page twice'')
          else if length pages \<ge> maxCatalogPages then Inl (ErrText ''longer than maxCatalogPages'')
          else chainPages db (pages @ [nxt]))"
  by pat_completeness auto
termination
  by (relation "measure (\<lambda>(db, pages). maxCatalogPages - length pages)") auto

declare chainPages.simps [simp del]

definition internalFilePages :: "dbfile \<Rightarrow> int \<Rightarrow> int list result" where
  "internalFilePages db first = chainPages db [first]"

definition readSchemaStream :: "zlib \<Rightarrow> dbfile \<Rightarrow> int \<Rightarrow> byte list result" where
  "readSchemaStream z db schemaPageNo =
     bindR (ReadPage db schemaPageNo) (\<lambda>p.
       if length (Payload p) < internalFileHeaderSize then Inl ErrBadSchema
       else decompressInternalFile z (Payload p))"

section \<open>Page chains of an edit\<close>

definition bufNext :: "nat \<Rightarrow> 'x edit_scheme \<Rightarrow> int" where
  "bufNext k s = sint (getU32 (raw (bufAt k s)) (diskPageHeaderOffset + 10))"

text \<open>
  \<open>internalFilePageChain\<close>, over the buffers: \<open>fuel\<close> is how many pages the chain may still
  grow by, which is what the length check of the code counts.
\<close>

fun chainBufs :: "nat \<Rightarrow> nat list \<Rightarrow> ('x edit_scheme, nat list) op" where
  "chainBufs fuel pages = bindO (load (int (last pages))) (\<lambda>k. bindO (getO (bufNext k)) (\<lambda>nxt.
     if nxt < 0 then retO pages
     else if nat nxt \<in> set pages then failO (ErrText ''visits page twice'')
     else (case fuel of
         0 \<Rightarrow> failO (ErrText ''longer than maxCatalogPages'')
       | Suc fuel' \<Rightarrow> chainBufs fuel' (pages @ [nat nxt]))))"

declare chainBufs.simps [simp del]

definition internalFilePageChain :: "nat \<Rightarrow> ('x edit_scheme, nat list) op" where
  "internalFilePageChain first = chainBufs (maxCatalogPages - 1) [first]"

fun writeChunks :: "nat \<Rightarrow> byte list \<Rightarrow> nat list \<Rightarrow> ('x edit_scheme, unit) op" where
  "writeChunks capacity rest [] = retO ()"
| "writeChunks capacity rest (no # nos) =
     bindO (load (int no)) (\<lambda>k.
     bindO (updBuf k (\<lambda>b. (setPayload (splice 0 (take capacity rest) (bufPayload b)) b)\<lparr>dirty := True\<rparr>)) (\<lambda>_.
     writeChunks capacity (drop capacity rest) nos))"

definition writeInternalFilePages ::
    "(nat \<Rightarrow> u32) \<Rightarrow> int \<Rightarrow> byte list \<Rightarrow> ('x edit_scheme, unit) op" where
  "writeInternalFilePages seed first data =
     bindO (load first) (\<lambda>head'.
     bindO (getO (bufAt head')) (\<lambda>b.
       let pageType = getU16 (raw b) (diskPageHeaderOffset + 8); objectID = getU32 (raw b) (diskPageHeaderOffset + 22);
           capacity = length (bufPayload b) in
       if capacity = 0 then failO ErrBadCatalog
       else bindO (internalFilePageChain head') (\<lambda>pages.
            bindO (resizeChain seed pages (max ((length data + capacity - 1) div capacity) 1) pageType objectID) (\<lambda>pages.
            writeChunks capacity data pages))))"

definition writeSchemaStream ::
    "zlib \<Rightarrow> (nat \<Rightarrow> u32) \<Rightarrow> int \<Rightarrow> byte list \<Rightarrow> ('x edit_scheme, unit) op" where
  "writeSchemaStream z seed schemaPageNo content =
     bindO (liftO (compressInternalFile z content 1)) (\<lambda>compressed.
     writeInternalFilePages seed schemaPageNo compressed)"

section \<open>Compressing and decompressing\<close>

text \<open>
  What the format relies on of zlib: reading a compressed stream gives the content back, a
  bounded read its first bytes. Deflate does not expand by more than the bounds allow for the
  contents the package writes, which is stated where it is used.
\<close>

definition zlib_lawful :: "zlib \<Rightarrow> bool" where
  "zlib_lawful z \<longleftrightarrow> (\<forall>content n. zlibRead z n (zlibCompress z content) = Some (take n content))"

lemma compress_header:
  assumes "compressInternalFile z content algo = Inr out"
  obtains payload where "out = [10] @ leU32 (word_of_nat (length payload)) @ leU32 (word_of_nat (length content)) @ [algo] @ payload"
    and "length payload < 2 ^ 31" "length content < 2 ^ 31"
    and "algo = 0 \<and> payload = content \<or> algo = 1 \<and> payload = zlibCompress z content"
  using assms by (auto simp: compressInternalFile_def internalFileHeaderSize_def not_less split: if_splits)

lemma header_fields:
  assumes "out = [10] @ leU32 (word_of_nat n) @ leU32 (word_of_nat m) @ [algo] @ payload" and "n < 2 ^ 31" "m < 2 ^ 31"
  shows "out ! 0 = 10" "unat (getU32 out 1) = n" "uint (getU32 out 5) = int m" "out ! 9 = algo" "length out = 10 + length payload"
    and "slc 10 (10 + length payload) out = payload"
proof -
  have 1: "out = ([10] @ leU32 (word_of_nat n)) @ leU32 (word_of_nat m) @ [algo] @ payload" using assms(1) by simp
  have 2: "out = ([10] @ leU32 (word_of_nat n) @ leU32 (word_of_nat m)) @ [algo] @ payload" using assms(1) by simp
  have 3: "out = ([10] @ leU32 (word_of_nat n) @ leU32 (word_of_nat m) @ [algo]) @ payload" using assms(1) by simp
  show "out ! 0 = 10" using assms(1) by simp
  have "getU32 out 1 = word_of_nat n" unfolding assms(1) by (simp add: get_append del: append.append_Cons)
  then show "unat (getU32 out 1) = n" using assms(2) by (simp add: unat_of_nat)
  have "getU32 out 5 = word_of_nat m" unfolding 1 by (simp add: get_append del: append.append_Cons append_assoc)
  then show "uint (getU32 out 5) = int m" using assms(3) by (simp add: uint_nat unat_of_nat)
  show "out ! 9 = algo" unfolding 2 by (simp add: nth_append del: append.append_Cons)
  show "length out = 10 + length payload" using assms(1) by simp
  show "slc 10 (10 + length payload) out = payload" unfolding 3 by (simp add: slc_append_right del: append.append_Cons append_assoc)
qed

end
