(* ===== verification/Internal_Trips.thy ===== *)
theory Internal_Trips
  imports Internal_Files Samples
begin

text \<open>
  An internal file written over a chain of pages and read back: by the chain reader the whole
  content returns; by the schema functions, which look at the first page only, it returns exactly
  when it fits in one page.
\<close>

section \<open>The stream\<close>

definition expands :: "zlib \<Rightarrow> byte list \<Rightarrow> bool" where
  "expands z content \<longleftrightarrow> int (length content) \<le>
     min (max (int (length (zlibCompress z content)) * 64) 65536) 16777216"

lemma compressed_reads_back:
  assumes law: "zlib_lawful z" and ex: "expands z content" and out: "compressInternalFile z content 1 = Inr out"
  shows "decompressInternalFile z (out @ rest) = Inr content" and "10 \<le> n \<Longrightarrow> n < length out \<Longrightarrow> decompressInternalFile z (take n out) = Inl ErrBadSchema"
proof -
  from out obtain payload where eq: "out = [10] @ leU32 (word_of_nat (length payload)) @ leU32 (word_of_nat (length content)) @ [1] @ payload"
    and len: "length payload < 2 ^ 31" "length content < 2 ^ 31" and p: "payload = zlibCompress z content"
    by (rule compress_header) auto
  note f = header_fields [OF eq len]
  have u5: "getU32 (out @ rest) 5 = getU32 out 5" "getU32 (out @ rest) 1 = getU32 out 1"
    using f(5) by (simp_all add: get_append)
  have sl: "slc 10 (10 + length payload) (out @ rest) = payload" using f(5,6) by (simp add: slc_append_left)
  have "\<exists>L. inflateLimit (length payload) (int (length content)) internalFileInflateBounds = Inr L \<and> int (length content) \<le> L"
    using ex p by (auto simp: inflateLimit_def internalFileInflateBounds_def expands_def decompressSlack_def Let_def not_less)
  then obtain L where lim: "inflateLimit (length payload) (int (length content)) internalFileInflateBounds = Inr L"
    and le: "int (length content) \<le> L" by blast
  have rd: "zlibRead z n payload = Some (take n content)" for n using law p by (simp add: zlib_lawful_def)
  have "take (nat (L + 1)) content = content" using le by simp
  then have inf: "inflateLimited z payload (int (length content)) internalFileInflateBounds = Inr content"
    using le by (simp add: inflateLimited_def lim rd)
  show "decompressInternalFile z (out @ rest) = Inr content"
    using f inf u5 sl by (simp add: decompressInternalFile_def internalFileHeaderSize_def nth_append Let_def)
  assume n: "10 \<le> n" "n < length out"
  have "getU32 (take n out) 1 = getU32 out 1" using n by (simp add: getU32_def slc_def take_drop min_def)
  then show "decompressInternalFile z (take n out) = Inl ErrBadSchema"
    using n f by (simp add: decompressInternalFile_def internalFileHeaderSize_def Let_def)
qed

section \<open>Writing the chunks\<close>

lemma load_loaded: "k \<in> dom (edPages s) \<Longrightarrow> load (int k) s = (Inr k, s)"
  by (auto simp: load_def loadWith_def)

lemma writeChunks_spec:
  assumes "edit_ok s" and "set ps \<subseteq> dom (edPages s)" and "distinct ps"
    and "\<forall>k \<in> set ps. length (bufPayload (bufAt k s)) = capacity"
  shows "\<exists>s'. writeChunks capacity data ps s = (Inr (), s') \<and> edit_ok s' \<and> edDb s' = edDb s \<and> edOrder s' = edOrder s
    \<and> dom (edPages s') = dom (edPages s)
    \<and> (\<forall>k. k \<notin> set ps \<longrightarrow> bufAt k s' = bufAt k s)
    \<and> (\<forall>i < length ps. bufPayload (bufAt (ps ! i) s') = splice 0 (take capacity (drop (i * capacity) data)) (bufPayload (bufAt (ps ! i) s))
        \<and> take 420 (raw (bufAt (ps ! i) s')) = take 420 (raw (bufAt (ps ! i) s))
        \<and> dirty (bufAt (ps ! i) s') \<and> bufEncrypted (bufAt (ps ! i) s') = bufEncrypted (bufAt (ps ! i) s))"
  using assms
proof (induction ps arbitrary: s data)
  case Nil
  then show ?case by simp
next
  case (Cons p ps)
  let ?new = "splice 0 (take capacity data) (bufPayload (bufAt p s))"
  let ?b = "(setPayload ?new (bufAt p s))\<lparr>dirty := True\<rparr>" and ?u = "putBuf p ((setPayload (splice 0 (take capacity data) (bufPayload (bufAt p s))) (bufAt p s))\<lparr>dirty := True\<rparr>) s"
  have p: "p \<in> dom (edPages s)" using Cons.prems(2) by simp
  note b = buf_ok_bufAt [OF Cons.prems(1) p]
  have long: "420 \<le> length (raw (bufAt p s))" using length_raw [OF edit_okD(1) [OF Cons.prems(1)]] b by blast
  have raw: "length (raw ?b) = length (raw (bufAt p s))" using long by simp
  have u: "edit_ok ?u" using b raw by (intro edit_ok_putBuf [OF Cons.prems(1) p]) (simp_all add: buf_ok_def)
  have dom: "dom (edPages ?u) = dom (edPages s)" using p by auto
  have "\<forall>k \<in> set ps. length (bufPayload (bufAt k ?u)) = capacity" using Cons.prems(3,4) by auto
  from Cons.IH [OF u _ _ this, of "drop capacity data"] obtain s' where
    run: "writeChunks capacity (drop capacity data) ps ?u = (Inr (), s')" and ok: "edit_ok s'" "edDb s' = edDb s" "edOrder s' = edOrder s"
    "dom (edPages s') = dom (edPages s)" and frame: "\<And>k. k \<notin> set ps \<Longrightarrow> bufAt k s' = bufAt k ?u"
    and IH: "\<And>i. i < length ps \<Longrightarrow> bufPayload (bufAt (ps ! i) s') = splice 0 (take capacity (drop (i * capacity) (drop capacity data))) (bufPayload (bufAt (ps ! i) ?u))
        \<and> take 420 (raw (bufAt (ps ! i) s')) = take 420 (raw (bufAt (ps ! i) ?u))
        \<and> dirty (bufAt (ps ! i) s') \<and> bufEncrypted (bufAt (ps ! i) s') = bufEncrypted (bufAt (ps ! i) ?u)"
    using Cons.prems(2,3) dom by (simp only: putBuf_fields) auto
  have "writeChunks capacity data (p # ps) s = (Inr (), s')"
    using run load_loaded [OF p] by (simp add: bindO_Inr)
  moreover have "bufAt k s' = bufAt k s" if "k \<notin> set (p # ps)" for k using frame that by simp
  moreover have "bufPayload (bufAt ((p # ps) ! i) s') = splice 0 (take capacity (drop (i * capacity) data)) (bufPayload (bufAt ((p # ps) ! i) s))
        \<and> take 420 (raw (bufAt ((p # ps) ! i) s')) = take 420 (raw (bufAt ((p # ps) ! i) s))
        \<and> dirty (bufAt ((p # ps) ! i) s') \<and> bufEncrypted (bufAt ((p # ps) ! i) s') = bufEncrypted (bufAt ((p # ps) ! i) s)" if i: "i < length (p # ps)" for i
  proof (cases i)
    case 0
    then show ?thesis
      using frame [of p] Cons.prems(3) long bufPayload_setPayload [OF long, of ?new] by (simp add: raw_setPayload bufPayload_def [of "bufAt p s"])
        (simp add: bufPayload_def setPayload_def layout_consts)
  next
    case (Suc j)
    have "ps ! j \<noteq> p" using Cons.prems(3) i Suc by (auto simp: in_set_conv_nth)
    then show ?thesis using IH [of j] i Suc by (simp add: add.commute)
  qed
  ultimately show ?case using ok by blast
qed

section \<open>The chain\<close>

lemma chainBufs_spec:
  assumes "edit_ok s" and "chainBufs fuel pages s = (Inr ps, s')" and "distinct pages" and "pages \<noteq> []"
  shows "edit_ok s' \<and> edDb s' = edDb s \<and> (\<forall>j \<in> dom (edPages s). bufAt j s' = bufAt j s) \<and> dom (edPages s) \<subseteq> dom (edPages s')
    \<and> distinct ps \<and> (\<exists>more. ps = pages @ more \<and> length more \<le> fuel \<and> set more \<subseteq> dom (edPages s'))
    \<and> last pages \<in> dom (edPages s')
    \<and> (\<forall>i. length pages \<le> Suc i \<longrightarrow> Suc i < length ps \<longrightarrow> bufNext (ps ! i) s' = int (ps ! Suc i))
    \<and> bufNext (last ps) s' < 0"
  using assms
proof (induction fuel arbitrary: pages s)
  case (0 pages s)
  obtain k t where ld: "load (int (last pages)) s = (Inr k, t)" using 0(2) by (auto simp: chainBufs.simps bindO_eq_Inr)
  have "bufNext k t < 0" by (rule ccontr) (use 0(2) ld in \<open>simp add: chainBufs.simps bindO_Inr split: if_splits\<close>)
  moreover from this have "ps = pages" "s' = t" using 0(2) ld by (auto simp: chainBufs.simps bindO_Inr)
  moreover note neg = calculation
  note l = load_spec [OF 0(1) loader_intros(1) ld]
  have "k = last pages" using l(1) by simp
  then show ?case using l(4-8) neg 0(3) by auto
next
  case (Suc fuel pages s)
  obtain k t where ld: "load (int (last pages)) s = (Inr k, t)" using Suc.prems(2) by (auto simp: chainBufs.simps bindO_eq_Inr)
  note l = load_spec [OF Suc.prems(1) loader_intros(1) ld]
  have k: "k = last pages" using l(1) by simp
  show ?case
  proof (cases "bufNext k t < 0")
    case True
    then have "ps = pages" "s' = t" using Suc.prems(2) ld by (auto simp: chainBufs.simps bindO_Inr)
    then show ?thesis using l(4-8) k True Suc.prems(3) by auto
  next
    case False
    let ?n = "nat (bufNext k t)"
    have rest: "?n \<notin> set pages" "chainBufs fuel (pages @ [?n]) t = (Inr ps, s')"
      using Suc.prems(2) ld False by (auto simp: chainBufs.simps bindO_Inr split: if_splits)
    from Suc.IH [OF l(5) rest(2)] Suc.prems(3) rest(1) obtain more where
      IH: "edit_ok s'" "edDb s' = edDb t" "\<And>j. j \<in> dom (edPages t) \<Longrightarrow> bufAt j s' = bufAt j t" "dom (edPages t) \<subseteq> dom (edPages s')"
      "distinct ps" "ps = (pages @ [?n]) @ more" "length more \<le> fuel" "set more \<subseteq> dom (edPages s')" "?n \<in> dom (edPages s')"
      "\<And>i. length (pages @ [?n]) \<le> Suc i \<Longrightarrow> Suc i < length ps \<Longrightarrow> bufNext (ps ! i) s' = int (ps ! Suc i)" "bufNext (last ps) s' < 0"
      by auto
    have link: "bufNext (ps ! i) s' = int (ps ! Suc i)" if i: "length pages \<le> Suc i" "Suc i < length ps" for i
    proof (cases "length pages = Suc i")
      case True
      then have "ps ! i = last pages" "ps ! Suc i = ?n" using IH(6) Suc.prems(4) by (simp_all add: nth_append last_conv_nth)
      moreover have "bufNext k s' = bufNext k t" using IH(3) [OF l(6)] by (simp add: bufNext_def)
      ultimately show ?thesis using k False by simp
    next
      case False
      then show ?thesis using IH(10) [of i] i by simp
    qed
    have "bufAt j s' = bufAt j s" if "j \<in> dom (edPages s)" for j using IH(3) [of j] l(7,8) that by auto
    moreover have "last pages \<in> dom (edPages s')" using l(6) IH(4) k by blast
    moreover have "dom (edPages s) \<subseteq> dom (edPages s')" using l(7) IH(4) by blast
    ultimately show ?thesis
      using IH(1,2,5,6,7,8,9,11) link l(4) by (intro conjI exI [of _ "?n # more"]) auto
  qed
qed

text \<open>The reader follows the chain until it has the bytes the header announces, or the chain ends.\<close>

lemma gather_spec:
  assumes pages: "\<forall>i < length ps. \<exists>p. ReadPage db (int (ps ! i)) = Inr p \<and> Payload p = pays ! i
        \<and> nextPageNo p = (if Suc i < length ps then int (ps ! Suc i) else nx)"
    and nx: "nx < 0" and len: "length pays = length ps" "length ps \<le> maxCatalogPages" and ps: "distinct ps"
    and k: "k \<le> length ps"
  shows "\<exists>j. gatherChain db want (rev (map int (take k ps))) out (if k < length ps then int (ps ! k) else nx)
      = Inr (out @ concat (take j (drop k pays))) \<and> (want \<le> int (length (out @ concat (take j (drop k pays)))) \<or> k + j = length ps)"
  using k
proof (induction "length ps - k" arbitrary: k out)
  case 0
  then have "k = length ps" by simp
  then show ?case using nx by (intro exI [of _ 0]) (simp add: gatherChain.simps)
next
  case (Suc d)
  then have k: "k < length ps" by simp
  show ?case
  proof (cases "want \<le> int (length out)")
    case True
    then show ?thesis by (intro exI [of _ 0]) (simp add: gatherChain.simps)
  next
    case False
    obtain p where p: "ReadPage db (int (ps ! k)) = Inr p" "Payload p = pays ! k"
      "nextPageNo p = (if Suc k < length ps then int (ps ! Suc k) else nx)" using pages k by blast
    have new: "int (ps ! k) \<notin> set (rev (map int (take k ps)))"
    proof
      assume "int (ps ! k) \<in> set (rev (map int (take k ps)))"
      then have "ps ! k \<in> set (take k ps)" by (simp add: image_iff)
      then obtain i where "i < k" "ps ! k = ps ! i" by (auto simp: in_set_conv_nth)
      then show False using nth_eq_iff_index_eq [OF ps k, of i] k by simp
    qed
    have vis: "rev (map int (take (Suc k) ps)) = int (ps ! k) # rev (map int (take k ps))"
      using k by (simp add: take_Suc_conv_app_nth)
    have step: "gatherChain db want (rev (map int (take k ps))) out (int (ps ! k))
        = gatherChain db want (rev (map int (take (Suc k) ps))) (out @ pays ! k) (if Suc k < length ps then int (ps ! Suc k) else nx)"
      using False new p k len by (subst gatherChain.simps) (simp add: vis)
    have d: "d = length ps - Suc k" using Suc.hyps(2) by simp
    obtain j where j: "gatherChain db want (rev (map int (take (Suc k) ps))) (out @ pays ! k) (if Suc k < length ps then int (ps ! Suc k) else nx)
        = Inr ((out @ pays ! k) @ concat (take j (drop (Suc k) pays)))"
      "want \<le> int (length ((out @ pays ! k) @ concat (take j (drop (Suc k) pays)))) \<or> Suc k + j = length ps"
      using Suc.hyps(1) [OF d, of "out @ pays ! k"] k by (auto simp del: append_assoc)
    have "drop k pays = pays ! k # drop (Suc k) pays" using k len by (simp add: Cons_nth_drop_Suc)
    then show ?thesis using j step k by (intro exI [of _ "Suc j"]) simp
  qed
qed

text \<open>The chunks of a file, laid over payloads that hold them, one after another.\<close>

lemma chunked_payloads:
  assumes "\<forall>i < n. length (old i) = c" and "0 < c" and "length data \<le> n * c"
  shows "take (length data) (concat (map (\<lambda>i. splice 0 (take c (drop (i * c) data)) (old i)) [0..<n])) = data"
  using assms
proof (induction n arbitrary: data old)
  case (Suc n)
  let ?f = "\<lambda>i. splice 0 (take c (drop (i * c) data)) (old i)"
  have up: "map ?f [0..<Suc n] = ?f 0 # map (\<lambda>i. splice 0 (take c (drop (i * c) (drop c data))) (old (Suc i))) [0..<n]"
    unfolding upt_conv_Cons [OF zero_less_Suc] map_Suc_upt [symmetric] by (simp add: comp_def add.commute)
  have old0: "length (old 0) = c" using Suc.prems(1) by simp
  have IH: "take (length (drop c data)) (concat (map (\<lambda>i. splice 0 (take c (drop (i * c) (drop c data))) (old (Suc i))) [0..<n])) = drop c data"
    using Suc.prems by (intro Suc.IH) auto
  show ?case
  proof (cases "length data \<le> c")
    case True
    then show ?thesis using old0 by (simp only: up) simp
  next
    case False
    then have "?f 0 = take c data" using old0 by simp
    then have "take (length data) (concat (map ?f [0..<Suc n])) = take c data @ take (length data - c)
        (concat (map (\<lambda>i. splice 0 (take c (drop (i * c) (drop c data))) (old (Suc i))) [0..<n]))"
      using False by (simp only: up concat.simps) simp
    then show ?thesis using IH by (simp only: length_drop) simp
  qed
qed simp

section \<open>Written and read\<close>

lemma ceil_cover: "0 < c \<Longrightarrow> n \<le> (n + c - 1) div c * (c :: nat)"
  using dividend_less_div_times [of c "n + c - 1"] by linarith

lemma bufNext_prefix: "take 420 (raw (bufAt k s')) = take 420 (raw (bufAt k s)) \<Longrightarrow> bufNext k s' = bufNext k s"
proof -
  have "getU32 (raw (bufAt k t)) 390 = getU32 (take 420 (raw (bufAt k t))) 390" for t
    by (simp add: getU32_def slc_def take_drop min_def)
  moreover assume "take 420 (raw (bufAt k s')) = take 420 (raw (bufAt k s))"
  ultimately have "getU32 (raw (bufAt k s')) 390 = getU32 (raw (bufAt k s)) 390" by metis
  then show "bufNext k s' = bufNext k s" by (simp add: bufNext_def layout_consts)
qed

lemma flushed_next:
  assumes "buf_mode db (bufAt k s)"
  shows "\<exists>h. flushedHeader (bufAt k s) = Some h \<and> sint (NextPageNo h) = bufNext k s"
  using assms by (auto simp: buf_mode_def flushedHeader_def bufNext_def parseDiskPageHeader_def Let_def split: option.splits if_splits)

lemma same_header:
  assumes "take (min c (length d)) x = take c d" and "10 \<le> c" and "10 \<le> length (d :: byte list)"
  shows "x ! 0 = d ! 0" "getU32 x 1 = getU32 d 1"
proof -
  have "10 \<le> min c (length d)" using assms(2,3) by simp
  then have "take 10 x = take 10 (take (min c (length d)) x)" by (simp add: min_absorb1)
  also have "\<dots> = take 10 d" unfolding assms(1) using assms(2) by (simp add: min_absorb1)
  finally have t: "take 10 x = take 10 d" .
  have "getU32 xs 1 = getU32 (take 10 xs) 1" for xs :: "byte list" by (simp add: getU32_def slc_def take_drop)
  then show "getU32 x 1 = getU32 d 1" using t by metis
  show "x ! 0 = d ! 0" using t by (metis nth_take zero_less_numeral)
qed

lemma take_whole: "take (length d) x = d \<Longrightarrow> length d \<le> length x"
  by (metis length_take min.cobounded1)

lemma take_shorter: "take n xs = d \<Longrightarrow> xs = ys @ zs \<Longrightarrow> n \<le> length ys \<Longrightarrow> take n ys = d"
  by simp

lemma taken_prefix:
  assumes "take n x = d"
  obtains more where "x = d @ more"
  using assms append_take_drop_id [of n x] by metis

lemma concat_parts:
  assumes "xs \<noteq> []"
  shows "concat xs = (xs ! 0 @ concat (take j (drop 1 xs))) @ concat (drop j (drop 1 xs))"
proof -
  have "concat (take j (drop 1 xs)) @ concat (drop j (drop 1 xs)) = concat (drop 1 xs)"
    by (simp only: concat_append [symmetric] append_take_drop_id)
  moreover have "xs = xs ! 0 # drop 1 xs" using assms by (cases xs) simp_all
  ultimately show ?thesis by (metis append_assoc concat.simps(2))
qed

lemma chunked_chain:
  assumes "edit_ok s" and chain: "bindO (load first) internalFilePageChain s = (Inr ps, s1)"
    and need: "length ps = max ((length data + capacity - 1) div capacity) 1" and cap: "capacity = pageSize (edDb s) - 40"
  shows "\<exists>s2. writeInternalFilePages seed first data s = (Inr (), s2) \<and> edit_ok s2 \<and> edDb s2 = edDb s
    \<and> ps ! 0 = nat first \<and> 0 \<le> first \<and> ps \<noteq> [] \<and> distinct ps \<and> length ps \<le> maxCatalogPages
    \<and> (\<forall>i < length ps. length (bufPayload (bufAt (ps ! i) s1)) = capacity \<and> ps ! i \<in> dom (edPages s2) \<and> dirty (bufAt (ps ! i) s2)
        \<and> bufPayload (bufAt (ps ! i) s2) = splice 0 (take capacity (drop (i * capacity) data)) (bufPayload (bufAt (ps ! i) s1))
        \<and> int (ps ! i) < totalPageCount (edDb s)
        \<and> bufNext (ps ! i) s2 = (if Suc i < length ps then int (ps ! Suc i) else bufNext (last ps) s2))
    \<and> bufNext (last ps) s2 < 0"
proof -
  obtain k t where ld: "load first s = (Inr k, t)" and ch: "internalFilePageChain k t = (Inr ps, s1)"
    using chain by (auto simp: bindO_eq_Inr)
  note l = load_spec [OF assms(1) loader_intros(1) ld]
  have len: "length (bufPayload (bufAt j u)) = capacity" if "edit_ok u" "edDb u = edDb s" "j \<in> dom (edPages u)" for j u
    using length_payload [OF edit_okD(1) [OF that(1)]] buf_ok_bufAt [OF that(1,3)] that(2) cap by simp
  have c0: "0 < capacity" using edit_okD(1) [OF assms(1)] cap by (simp add: file_ok_def layout_consts)
  from chainBufs_spec [OF l(5) ch [unfolded internalFilePageChain_def]] obtain more where
    c: "edit_ok s1" "edDb s1 = edDb t" "distinct ps" "ps = [k] @ more" "length more \<le> maxCatalogPages - 1"
    "set more \<subseteq> dom (edPages s1)" "k \<in> dom (edPages s1)"
    "\<And>i. Suc i < length ps \<Longrightarrow> bufNext (ps ! i) s1 = int (ps ! Suc i)" "bufNext (last ps) s1 < 0" by auto
  have sub: "set ps \<subseteq> dom (edPages s1)" using c(4,6,7) by auto
  have pay: "\<forall>j \<in> set ps. length (bufPayload (bufAt j s1)) = capacity" using sub len [OF c(1)] c(2) l(4) by auto
  from writeChunks_spec [OF c(1) sub c(3) pay, of data] obtain s2 where
    w: "writeChunks capacity data ps s1 = (Inr (), s2)" "edit_ok s2" "edDb s2 = edDb s1" "dom (edPages s2) = dom (edPages s1)"
    "\<And>i. i < length ps \<Longrightarrow> bufPayload (bufAt (ps ! i) s2) = splice 0 (take capacity (drop (i * capacity) data)) (bufPayload (bufAt (ps ! i) s1))
        \<and> take 420 (raw (bufAt (ps ! i) s2)) = take 420 (raw (bufAt (ps ! i) s1)) \<and> dirty (bufAt (ps ! i) s2)" by blast
  have nxt: "bufNext (ps ! i) s2 = bufNext (ps ! i) s1" if "i < length ps" for i
    using w(5) [OF that] by (intro bufNext_prefix) blast
  have lst: "ps ! (length ps - 1) = last ps" "ps \<noteq> []" using c(4) by (simp_all add: last_conv_nth)
  have resize: "resizeChain seed ps (length ps) pt oid u = (Inr ps, u)" for pt oid u
    by (simp add: resizeChain_def)
  have capk: "length (bufPayload (bufAt k t)) = capacity" using len [OF l(5,4,6)] .
  have "bufPayload (bufAt k t) \<noteq> []" using capk c0 by auto
  then have run: "writeInternalFilePages seed first data s = (Inr (), s2)"
    using ld ch w(1)
    by (auto simp: writeInternalFilePages_def bindO_Inr capk need [symmetric, simplified] resize Let_def)
  have range: "int j < totalPageCount (edDb s)" if "j \<in> set ps" for j
  proof -
    have "j \<in> dom (edPages s1)" using sub that by blast
    from buf_ok_bufAt [OF c(1) this] show ?thesis using c(2) l(4) by (simp add: buf_ok_def)
  qed
  have last2: "bufNext (last ps) s2 = bufNext (last ps) s1" using nxt [of "length ps - 1"] lst by simp
  have chain2: "bufNext (ps ! i) s2 = (if Suc i < length ps then int (ps ! Suc i) else bufNext (last ps) s2)" if i: "i < length ps" for i
  proof (cases "Suc i < length ps")
    case True
    then show ?thesis using nxt [OF i] c(8) by simp
  next
    case False
    then have "i = length ps - 1" using i by simp
    then show ?thesis using lst i by simp
  qed
  have "ps ! 0 = nat first" "length ps \<le> maxCatalogPages" using c(4,5) l(1) by (simp_all add: maxCatalogPages_def)
  moreover have "\<forall>i < length ps. length (bufPayload (bufAt (ps ! i) s1)) = capacity \<and> ps ! i \<in> dom (edPages s2) \<and> dirty (bufAt (ps ! i) s2)
        \<and> bufPayload (bufAt (ps ! i) s2) = splice 0 (take capacity (drop (i * capacity) data)) (bufPayload (bufAt (ps ! i) s1))
        \<and> int (ps ! i) < totalPageCount (edDb s)
        \<and> bufNext (ps ! i) s2 = (if Suc i < length ps then int (ps ! Suc i) else bufNext (last ps) s2)"
    using pay sub w(4,5) range chain2 by (metis nth_mem subsetD)
  ultimately show ?thesis
    using run w(2,3) c(2,3,9) l(2,4) lst(2) last2 by (intro exI [of _ s2]) simp
qed

text \<open>C35. Writing an internal file over a chain of as many pages as it takes, and flushing, stores it: the
  chain reader followed by the decompression gives the content back. The functions that read a table's
  schema look at the first page only, so they give the content back exactly when the compressed file fits
  in one page, and otherwise report a malformed schema.\<close>

theorem chained_file_reads_back:
  assumes ok: "edit_ok s" and z: "zlib_lawful z" "expands z content" and file': "compressInternalFile z content 1 = Inr data"
    and chain: "bindO (load first) internalFilePageChain s = (Inr ps, s1)"
    and capacity: "capacity = pageSize (edDb s) - 40" and need: "length ps = max ((length data + capacity - 1) div capacity) 1"
    and run: "writeInternalFilePages seed first data s = (Inr (), s2)" and modes: "modes_ok s2"
    and flush: "flushPages s2 = (Inr (), s3)"
  shows "\<exists>out. readInternalFilePages (edDb s3) first = Inr out \<and> decompressInternalFile z out = Inr content
    \<and> readSchemaStream z (edDb s3) first = (if length data \<le> capacity then Inr content else Inl ErrBadSchema)"
proof -
  from chunked_chain [OF ok chain need capacity, of seed] run obtain
    ok2: "edit_ok s2" and db: "edDb s2 = edDb s" and ps: "ps ! 0 = nat first" "0 \<le> first" "ps \<noteq> []" "distinct ps" "length ps \<le> maxCatalogPages"
    and at: "\<And>i. i < length ps \<Longrightarrow> length (bufPayload (bufAt (ps ! i) s1)) = capacity \<and> ps ! i \<in> dom (edPages s2) \<and> dirty (bufAt (ps ! i) s2)
        \<and> bufPayload (bufAt (ps ! i) s2) = splice 0 (take capacity (drop (i * capacity) data)) (bufPayload (bufAt (ps ! i) s1))
        \<and> int (ps ! i) < totalPageCount (edDb s)
        \<and> bufNext (ps ! i) s2 = (if Suc i < length ps then int (ps ! Suc i) else bufNext (last ps) s2)"
    and neg: "bufNext (last ps) s2 < 0" by auto
  let ?pays = "map (\<lambda>i. splice 0 (take capacity (drop (i * capacity) data)) (bufPayload (bufAt (ps ! i) s1))) [0..<length ps]"
  have "420 \<le> pageSize (edDb s)" using edit_okD(1) [OF ok] by (simp add: file_ok_def layout_consts)
  then have cap: "380 \<le> capacity" unfolding capacity by linarith
  have read: "\<exists>p. ReadPage (edDb s3) (int (ps ! i)) = Inr p \<and> Payload p = ?pays ! i
      \<and> nextPageNo p = (if Suc i < length ps then int (ps ! Suc i) else bufNext (last ps) s2)" if i: "i < length ps" for i
  proof -
    note a = at [OF i]
    have "pageView (edDb s3) (int (ps ! i)) = Inr (bufPayload (bufAt (ps ! i) s2), flushedHeader (bufAt (ps ! i) s2))"
      using flushPages_view [OF ok2 modes flush] a db by simp
    moreover have "ps ! i \<in> set (edOrder s2)" using a edit_okD(5) [OF ok2] by simp
    then have "buf_mode (edDb s2) (bufAt (ps ! i) s2)" using modes a by (simp add: modes_ok_def)
    ultimately show ?thesis
      using flushed_next [of "edDb s2" "ps ! i" s2] a i
      by (auto simp: pageView_def nextPageNo_def bindR_def split: sum.splits)
  qed
  have lens: "length data \<le> length ps * capacity"
  proof -
    have "(length data + capacity - 1) div capacity \<le> length ps" using need by simp
    then have "(length data + capacity - 1) div capacity * capacity \<le> length ps * capacity" by (rule mult_le_mono1)
    then show ?thesis using ceil_cover [of capacity "length data"] cap by linarith
  qed
  have head: "\<And>i. i < length ps \<Longrightarrow> length (bufPayload (bufAt (ps ! i) s1)) = capacity" using at by blast
  have whole: "take (length data) (concat ?pays) = data"
    using chunked_payloads [of "length ps" "\<lambda>i. bufPayload (bufAt (ps ! i) s1)" capacity data] head cap lens by simp
  from file' obtain payload where eq: "data = [10] @ leU32 (word_of_nat (length payload)) @ leU32 (word_of_nat (length content)) @ [1] @ payload"
    and small: "length payload < 2 ^ 31" "length content < 2 ^ 31" by (rule compress_header) auto
  note f = header_fields [OF eq small]
  have pays0: "?pays ! 0 = splice 0 (take capacity data) (bufPayload (bufAt (ps ! 0) s1))" "length (?pays ! 0) = capacity"
    using ps(3) head by simp_all
  have first: "take (min capacity (length data)) (?pays ! 0) = take capacity data"
    using pays0 head [of 0] ps(3) by (simp add: min_def)
  have low: "?pays ! 0 ! 0 = data ! 0" "getU32 (?pays ! 0) 1 = getU32 data 1"
    using same_header [OF first] cap f(5) by simp_all
  obtain p where p: "ReadPage (edDb s3) first = Inr p" "Payload p = ?pays ! 0"
    "nextPageNo p = (if 1 < length ps then int (ps ! 1) else bufNext (last ps) s2)"
    using read [of 0] ps(1-3) by auto
  have want: "int (unat (data ! 0)) + uint (getU32 data 1) = int (length data)"
    using f(1,2,5) by (simp add: uint_nat)
  have pages: "\<forall>i < length ps. \<exists>p. ReadPage (edDb s3) (int (ps ! i)) = Inr p \<and> Payload p = ?pays ! i
      \<and> nextPageNo p = (if Suc i < length ps then int (ps ! Suc i) else bufNext (last ps) s2)" using read by blast
  have l1: "length ?pays = length ps" by simp
  have k1: "1 \<le> length ps" using ps(3) by (cases ps) simp_all
  obtain j where j: "gatherChain (edDb s3) (int (length data)) (rev (map int (take 1 ps))) (?pays ! 0)
      (if 1 < length ps then int (ps ! 1) else bufNext (last ps) s2) = Inr (?pays ! 0 @ concat (take j (drop 1 ?pays)))"
    "int (length data) \<le> int (length (?pays ! 0 @ concat (take j (drop 1 ?pays)))) \<or> 1 + j = length ps"
    by (rule exE [OF gather_spec [OF pages neg l1 ps(5,4) k1, of "int (length data)" "?pays ! 0"]], elim conjE, rule that)
  let ?out = "?pays ! 0 @ concat (take j (drop 1 ?pays))"
  have ne: "?pays \<noteq> []" using ps(3) by simp
  have parts: "concat ?pays = ?out @ concat (drop j (drop 1 ?pays))" by (rule concat_parts [OF ne])
  have len: "length data \<le> length ?out"
  proof (cases "1 + j = length ps")
    case True
    then have "length (drop 1 ?pays) \<le> j" by (simp only: length_drop l1)
    then have "concat (drop j (drop 1 ?pays)) = []" by (simp only: drop_all concat.simps)
    then have "?out = concat ?pays" by (simp only: parts append_Nil2)
    then show ?thesis using take_whole [OF whole] by (simp only:)
  next
    case False
    then show ?thesis using j(2) by linarith
  qed
  have "take (length data) ?out = data" by (rule take_shorter [OF whole parts len])
  then obtain more where out: "?out = data @ more" by (rule taken_prefix)
  have "rev (map int (take 1 ps)) = [first]" using ps(1-3) by (cases ps) simp_all
  then have "gatherChain (edDb s3) (int (length data)) [first] (?pays ! 0) (nextPageNo p) = Inr ?out"
    using j(1) p(3) by (simp only:)
  moreover have "\<not> length (?pays ! 0) < 10" using pays0(2) cap by linarith
  ultimately have "readInternalFilePages (edDb s3) first = Inr ?out"
    by (simp only: readInternalFilePages_def internalFileHeaderSize_def p(1,2) low want bindR_simps Let_def if_False)
  moreover have "decompressInternalFile z ?out = Inr content"
    unfolding out by (rule compressed_reads_back(1) [OF z file'])
  moreover have "readSchemaStream z (edDb s3) first = (if length data \<le> capacity then Inr content else Inl ErrBadSchema)"
  proof (cases "length data \<le> capacity")
    case True
    then have "?pays ! 0 = data @ drop (length data) (bufPayload (bufAt (ps ! 0) s1))"
      using pays0 head [of 0] ps(3) by simp
    then have "decompressInternalFile z (?pays ! 0) = Inr content"
      using compressed_reads_back(1) [OF z file'] by simp
    then show ?thesis using p True pays0(2) cap by (simp add: readSchemaStream_def internalFileHeaderSize_def)
  next
    case False
    then have "?pays ! 0 = take capacity data" using pays0 head [of 0] ps(3) by simp
    then have "decompressInternalFile z (?pays ! 0) = Inl ErrBadSchema"
      using compressed_reads_back(2) [OF z file', of capacity] False cap by simp
    then show ?thesis using p False pays0(2) cap by (simp add: readSchemaStream_def internalFileHeaderSize_def)
  qed
  ultimately show ?thesis by blast
qed

text \<open>Two linked pages of a small file, and a compressor that stores.\<close>

definition storeLib :: zlib where
  "storeLib = \<lparr>zlibCompress = (\<lambda>content. content), zlibRead = (\<lambda>n c. Some (take n c))\<rparr>"

definition linkedRaw :: "u32 \<Rightarrow> byte list" where
  "linkedRaw nxt = replicate 380 0 @ (ABSP @ leU32 7 @ leU16 10) @ leU32 nxt @ replicate 26 0"

definition linkedBuf :: "nat \<Rightarrow> u32 \<Rightarrow> byte list \<Rightarrow> bool \<Rightarrow> pagebuf" where
  "linkedBuf n nxt payload d = \<lparr>bufNumber = n, raw = linkedRaw nxt @ payload, bufEncrypted = False, dirty = d, stateBump = 1\<rparr>"

definition linkedEdit :: "byte list \<Rightarrow> byte list \<Rightarrow> bool \<Rightarrow> edit" where
  "linkedEdit a b d = \<lparr>edDb = sampleFile 2 fullPages,
     edPages = [4 \<mapsto> linkedBuf 4 5 a d, 5 \<mapsto> linkedBuf 5 noPageNo b d], edOrder = [4, 5]\<rparr>"

lemma length_linkedRaw [simp]: "length (linkedRaw nxt) = 420"
  by (simp add: linkedRaw_def ABSP_def)

lemma linked_payload [simp]: "bufPayload (linkedBuf n nxt p d) = p"
  "setPayload q (linkedBuf n nxt p d) = linkedBuf n nxt q d" "(linkedBuf n nxt p d)\<lparr>dirty := e\<rparr> = linkedBuf n nxt p e"
  by (simp_all add: linkedBuf_def bufPayload_def setPayload_def layout_consts)

lemma linked_next: "getU32 (linkedRaw nxt @ p) 390 = nxt"
proof -
  have "linkedRaw nxt @ p = (replicate 380 0 @ ABSP @ leU32 7 @ leU16 10) @ leU32 nxt @ replicate 26 0 @ p"
    by (simp add: linkedRaw_def)
  then show ?thesis by (simp add: get_append ABSP_def del: append.append_Cons append_assoc)
qed

lemma linked_mode: "\<exists>h. parseDiskPageHeader (linkedRaw nxt @ p) = Some h \<and> CRC32 h = 0"
proof -
  have "linkedRaw nxt @ p = (replicate 380 0 @ ABSP @ leU32 7 @ leU16 10 @ leU32 nxt) @ replicate 26 0 @ p"
    by (simp add: linkedRaw_def)
  then have "getU32 (linkedRaw nxt @ p) 394 = 0"
    by (simp add: get_append ABSP_def getU32_def slc_def numeral_eq_Suc del: append.append_Cons append_assoc)
  moreover have "slc 380 384 (linkedRaw nxt @ p) = ABSP"
    by (simp add: linkedRaw_def slc_def ABSP_def)
  ultimately show ?thesis by (simp add: parseDiskPageHeader_def layout_consts Let_def)
qed

lemma linked_ok:
  assumes "length a = 380" and "length b = 380"
  shows "edit_ok (linkedEdit a b d)" and "modes_ok (linkedEdit a b d)"
  using assms linked_mode [of 5 a] linked_mode [of noPageNo b] sampleFile_file_ok [of fullPages 2] sampleFile_lawful [of 2 fullPages]
  by (auto simp: edit_ok_def modes_ok_def linkedEdit_def buf_ok_def linkedBuf_def pageReadSize_def layout_consts bufAt_def buf_mode_def)

lemma linked_runs [simp]:
  "load 4 (linkedEdit a b d) = (Inr 4, linkedEdit a b d)" "load 5 (linkedEdit a b d) = (Inr 5, linkedEdit a b d)"
  "bufAt 4 (linkedEdit a b d) = linkedBuf 4 5 a d" "bufAt 5 (linkedEdit a b d) = linkedBuf 5 noPageNo b d"
  "bufNext 4 (linkedEdit a b d) = 5" "bufNext 5 (linkedEdit a b d) = -1"
  by (simp_all add: load_def loadWith_def linkedEdit_def bufAt_def bufNext_def layout_consts)
    (simp_all add: linkedBuf_def linked_next noPageNo_def)

lemma linked_chain: "internalFilePageChain 4 (linkedEdit a b d) = (Inr [4, 5], linkedEdit a b d)"
proof -
  have "maxCatalogPages - 1 = Suc (Suc 61)" by (simp add: maxCatalogPages_def)
  moreover have "chainBufs (Suc (Suc f)) [4] (linkedEdit a b d) = (Inr [4, 5], linkedEdit a b d)" for f
    by (simp add: chainBufs.simps bindO_Inr)
  ultimately show ?thesis by (simp only: internalFilePageChain_def)
qed

lemma linked_upd [simp]:
  "updBuf 4 f (linkedEdit a b d) = (Inr (), putBuf 4 (f (linkedBuf 4 5 a d)) (linkedEdit a b d))"
  "load 5 (putBuf 4 p (linkedEdit a b d)) = (Inr 5, putBuf 4 p (linkedEdit a b d))"
  "updBuf 5 f (putBuf 4 p (linkedEdit a b d)) = (Inr (), putBuf 5 (f (linkedBuf 5 noPageNo b d)) (putBuf 4 p (linkedEdit a b d)))"
  "putBuf 5 (linkedBuf 5 noPageNo b' True) (putBuf 4 (linkedBuf 4 5 a' True) (linkedEdit a b d)) = linkedEdit a' b' True"
  by (simp_all add: updBuf_def putBuf_def linkedEdit_def bufAt_def load_def loadWith_def fun_upd_twist)

lemma linked_write:
  assumes "length data = 410" and "length a = 380" and "length b = 380"
  shows "writeInternalFilePages seed 4 data (linkedEdit a b d) = (Inr (), linkedEdit (take 380 data) (splice 0 (drop 380 data) b) True)"
proof -
  have "a \<noteq> []" using assms by auto
  have "writeChunks 380 data [4, 5] (linkedEdit a b d) = (Inr (), linkedEdit (take 380 data) (splice 0 (drop 380 data) b) True)"
    using assms by (simp add: bindO_Inr)
  then show ?thesis using assms \<open>a \<noteq> []\<close> by (simp add: writeInternalFilePages_def bindO_Inr linked_chain resizeChain_def Let_def)
qed

lemma clear_flush: "\<not> bufEncrypted (bufAt k s) \<Longrightarrow> writable (edDb s) \<Longrightarrow> dirty (bufAt k s)
    \<Longrightarrow> \<exists>s'. flushPage k s = (Inr (), s') \<and> writable (edDb s') \<and> (\<forall>j. j \<noteq> k \<longrightarrow> bufAt j s' = bufAt j s)"
  by (simp add: flushPage_def writeBuf_def writePageBuf_def updBuf_def bindO_Inr bumpPageState_def writeRegion_def)

lemma linked_fields: "writable (edDb (linkedEdit a b d))" "edOrder (linkedEdit a b d) = [4, 5]"
  by (simp_all add: linkedEdit_def)

lemma linked_flush: "\<exists>s'. flushPages (linkedEdit a b True) = (Inr (), s')"
proof -
  obtain s1 where 1: "flushPage 4 (linkedEdit a b True) = (Inr (), s1)" "writable (edDb s1)" "bufAt 5 s1 = linkedBuf 5 noPageNo b True"
    using clear_flush [of 4 "linkedEdit a b True"] linked_fields by (auto simp: linkedBuf_def)
  then obtain s2 where "flushPage 5 s1 = (Inr (), s2)" using clear_flush [of 5 s1] by (auto simp: linkedBuf_def)
  then show ?thesis using 1(1) by (simp add: flushPages_def bindO_Inr linked_fields)
qed

lemma chained_file_reads_back_witness:
  "\<exists>s2 s3. writeInternalFilePages (\<lambda>_. 0) 4 ([10] @ leU32 400 @ leU32 400 @ [1] @ replicate 400 9) (linkedEdit (replicate 380 0) (replicate 380 0) False) = (Inr (), s2)
     \<and> flushPages s2 = (Inr (), s3) \<and> bindR (readInternalFilePages (edDb s3) 4) (decompressInternalFile storeLib) = Inr (replicate 400 9)
     \<and> readSchemaStream storeLib (edDb s3) 4 = Inl ErrBadSchema"
proof -
  let ?data = "[10] @ leU32 400 @ leU32 400 @ [1] @ replicate 400 9" and ?s = "linkedEdit (replicate 380 0) (replicate 380 0) False"
  let ?t = "linkedEdit (take 380 ?data) (splice 0 (drop 380 ?data) (replicate 380 0)) True"
  have len: "length ?data = 410" by simp
  note wr = linked_write [OF len length_replicate length_replicate, of "\<lambda>_. 0" 0 0 False]
  obtain s3 where flush: "flushPages ?t = (Inr (), s3)" using linked_flush by blast
  have z: "zlib_lawful storeLib" "expands storeLib (replicate 400 9)"
    by (simp_all add: zlib_lawful_def expands_def storeLib_def)
  have file': "compressInternalFile storeLib (replicate 400 9) 1 = Inr ?data"
    by (simp add: compressInternalFile_def storeLib_def internalFileHeaderSize_def)
  have ok: "edit_ok ?s" by (rule linked_ok) simp_all
  have modes: "modes_ok ?t" by (rule linked_ok) simp_all
  have chain: "bindO (load 4) internalFilePageChain ?s = (Inr [4, 5], ?s)" by (simp add: bindO_Inr linked_chain)
  have "380 = pageSize (edDb ?s) - 40" by (simp add: linkedEdit_def)
  then have "\<exists>out. readInternalFilePages (edDb s3) 4 = Inr out \<and> decompressInternalFile storeLib out = Inr (replicate 400 9)
    \<and> readSchemaStream storeLib (edDb s3) 4 = (if length ?data \<le> 380 then Inr (replicate 400 9) else Inl ErrBadSchema)"
    by (rule chained_file_reads_back [OF ok z file' chain _ _ wr modes flush]) simp
  then show ?thesis using wr flush len by auto
qed

end
