(* ===== verification/Blobs.thy ===== *)
theory Blobs
  imports Internal_Trips Row
begin

text \<open>
  BLOB pages (\<open>blob.go\<close>): the reference a record holds, the header of a BLOB page, the chain of
  pages a BLOB continues on, and \<open>ReadBlob\<close>.
\<close>

definition PageTypeBlob :: u16 where "PageTypeBlob = 11"
definition blobPageHeaderSize :: nat where "blobPageHeaderSize = 24"
definition blobRefSize :: nat where "blobRefSize = 6"
definition maxBlobChainPages :: nat where "maxBlobChainPages = 65536"

record blobPageHeader =
  ItemCount :: int
  CompressedSize :: int
  UncompressedSize :: int

definition readBlobPageHeader :: "byte list \<Rightarrow> blobPageHeader result" where
  "readBlobPageHeader data =
     (if length data < blobPageHeaderSize then Inl ErrBlobTrunc
      else Inr \<lparr>ItemCount = sint (getU64 data 0), CompressedSize = sint (getU64 data 8), UncompressedSize = sint (getU64 data 16)\<rparr>)"

record BlobRef =
  brPageNo :: int
  brItemNo :: u16

definition nullRef :: BlobRef where "nullRef = \<lparr>brPageNo = 0, brItemNo = 0\<rparr>"

definition readBlobRef :: "byte list \<Rightarrow> BlobRef" where
  "readBlobRef data =
     (if length data < blobRefSize then nullRef else \<lparr>brPageNo = sint (getU32 data 0), brItemNo = getU16 data 4\<rparr>)"

definition blobRefIsNull :: "BlobRef \<Rightarrow> bool" where
  "blobRefIsNull ref \<longleftrightarrow> brPageNo ref = 0 \<and> brItemNo ref = 0"

definition rowBlobRef :: "layout \<Rightarrow> rowbytes \<Rightarrow> int \<Rightarrow> BlobRef" where
  "rowBlobRef l row col =
     (if col < 0 \<or> col \<ge> int (length (fieldOffsets l)) then nullRef
      else let off = fieldOffsets l ! nat col in
        if int off > int (length (fieldData row)) - int blobRefSize then nullRef
        else readBlobRef (slc off (off + blobRefSize) (fieldData row)))"

section \<open>The chain of pages\<close>

text \<open>The loop of \<open>readBlobChain\<close>; the visited pages are the list of their numbers.\<close>

function blobChainLoop :: "dbfile \<Rightarrow> int \<Rightarrow> int list \<Rightarrow> byte list \<Rightarrow> int \<Rightarrow> byte list result" where
  "blobChainLoop db totalSize visited out nxt =
     (if int (length out) < totalSize \<and> nxt \<ge> 0 then
        if nxt \<in> set visited then Inl ErrBlobChain
        else if length visited \<ge> maxBlobChainPages then Inl ErrBlobChain
        else (case ReadPage db nxt of
            Inl e \<Rightarrow> Inl e
          | Inr p \<Rightarrow> (case Header p of
              None \<Rightarrow> Inl ErrBlobChain
            | Some h \<Rightarrow> blobChainLoop db totalSize (nxt # visited) (out @ Payload p) (sint (NextPageNo h))))
      else Inr out)"
  by pat_completeness auto
termination
  by (relation "measure (\<lambda>(db, totalSize, visited, out, nxt). maxBlobChainPages - length visited)") auto

declare blobChainLoop.simps [simp del]

definition readBlobChain :: "dbfile \<Rightarrow> page \<Rightarrow> int \<Rightarrow> byte list result" where
  "readBlobChain db firstPage totalSize = (case Header firstPage of
     None \<Rightarrow> Inl ErrBlobChain
   | Some h \<Rightarrow>
       if totalSize < 0 then Inl ErrBlobSize
       else let firstData = Payload firstPage in
         if length firstData < blobPageHeaderSize then Inl ErrBlobTrunc
         else bindR (blobChainLoop db totalSize [int (Number firstPage)] (drop blobPageHeaderSize firstData) (sint (NextPageNo h)))
           (\<lambda>out. if int (length out) < totalSize then Inl ErrBlobTrunc else Inr (take (nat totalSize) out)))"

definition validateBlobHeader :: "dbfile \<Rightarrow> blobPageHeader \<Rightarrow> unit result" where
  "validateBlobHeader db hdr =
     (let maxOnDisk = PageCount db * payloadSize db in
      if CompressedSize hdr < 0 \<or> CompressedSize hdr > maxOnDisk then Inl ErrBlobSize
      else if UncompressedSize hdr < 0 \<or> UncompressedSize hdr > maxDecompressedSize then Inl ErrBlobSize
      else Inr ())"

definition blobPayload :: "dbfile \<Rightarrow> page \<Rightarrow> blobPageHeader \<Rightarrow> byte list result" where
  "blobPayload db p hdr =
     (let data = Payload p in
      if length data < blobPageHeaderSize then Inl ErrBlobTrunc
      else let payload = drop blobPageHeaderSize data in
        if int (length payload) \<ge> CompressedSize hdr then Inr (take (nat (CompressedSize hdr)) payload)
        else if (case Header p of None \<Rightarrow> False | Some h \<Rightarrow> sint (NextPageNo h) \<ge> 0) then readBlobChain db p (CompressedSize hdr)
        else Inr payload)"

definition decompressBlob :: "zlib \<Rightarrow> byte list \<Rightarrow> int \<Rightarrow> byte list result" where
  "decompressBlob z compressed uncompressedSize = inflateLimited z compressed uncompressedSize blobInflateBounds"

section \<open>Reading a BLOB\<close>

text \<open>A null reference has no data: \<open>None\<close>, where the code returns nil.\<close>

definition ReadBlob :: "zlib \<Rightarrow> dbfile \<Rightarrow> BlobRef \<Rightarrow> byte list option result" where
  "ReadBlob z db ref =
     (if blobRefIsNull ref then Inr None
      else if brPageNo ref < 0 \<or> brPageNo ref \<ge> PageCount db then Inl ErrBlobNotFound
      else bindR (ReadPage db (brPageNo ref)) (\<lambda>p.
        case Header p of
          None \<Rightarrow> Inl ErrBlobNotFound
        | Some h \<Rightarrow>
            if PageType h \<noteq> PageTypeBlob then Inl ErrBlobNotFound
            else bindR (readBlobPageHeader (Payload p)) (\<lambda>hdr.
              if ItemCount hdr < 1 then Inl ErrBlobNotFound
              else bindR (validateBlobHeader db hdr) (\<lambda>_.
                bindR (blobPayload db p hdr) (\<lambda>compressed.
                  if CompressedSize hdr = UncompressedSize hdr then Inr (Some compressed)
                  else bindR (decompressBlob z compressed (UncompressedSize hdr)) (\<lambda>out. Inr (Some out)))))))"

definition rowBlob :: "zlib \<Rightarrow> dbfile \<Rightarrow> layout \<Rightarrow> rowbytes \<Rightarrow> int \<Rightarrow> byte list option result" where
  "rowBlob z db l row col =
     (if rowIsNull l row col then Inr None
      else let ref = rowBlobRef l row col in
        if blobRefIsNull ref then Inr None else ReadBlob z db ref)"

definition rowMemo :: "zlib \<Rightarrow> dbfile \<Rightarrow> layout \<Rightarrow> rowbytes \<Rightarrow> int \<Rightarrow> byte list result" where
  "rowMemo z db l row col = bindR (rowBlob z db l row col) (\<lambda>data.
     Inr (case data of None \<Rightarrow> [] | Some bytes \<Rightarrow> bytes))"

section \<open>Bounds\<close>

lemma blobPayload_bound:
  assumes "blobPayload db p hdr = Inr out" and "0 \<le> CompressedSize hdr"
  shows "int (length out) \<le> CompressedSize hdr"
  using assms
  by (auto simp: blobPayload_def readBlobChain_def Let_def split: if_splits option.splits)

lemma inflateLimited_bound:
  assumes "inflateLimited z compressed declared b = Inr out" and "0 \<le> hardMax b"
  shows "int (length out) \<le> hardMax b" and "declared \<le> hardMax b" and "int (length out) \<le> declared + decompressSlack"
  using assms by (auto simp: inflateLimited_def inflateLimit_def Let_def split: if_splits option.splits)

text \<open>C37. Whatever the file declares, a BLOB that is read has at most 256 MiB, at most the declared size
  and the slack of 4096 bytes, and, when it is stored uncompressed, no more than the file can hold.\<close>

theorem blob_size_bounded:
  assumes "ReadBlob z db ref = Inr (Some out)"
  shows "\<exists>p hdr. ReadPage db (brPageNo ref) = Inr p \<and> readBlobPageHeader (Payload p) = Inr hdr
    \<and> int (length out) \<le> maxDecompressedSize \<and> int (length out) \<le> UncompressedSize hdr + decompressSlack
    \<and> (CompressedSize hdr = UncompressedSize hdr \<longrightarrow> int (length out) \<le> min (CompressedSize hdr) (PageCount db * payloadSize db))"
proof -
  have hm: "hardMax blobInflateBounds = maxDecompressedSize" "0 \<le> maxDecompressedSize"
    by (simp_all add: blobInflateBounds_def maxDecompressedSize_def)
  obtain p hdr compressed where p: "ReadPage db (brPageNo ref) = Inr p" "readBlobPageHeader (Payload p) = Inr hdr"
    and v: "validateBlobHeader db hdr = Inr ()" and c: "blobPayload db p hdr = Inr compressed"
    and out: "if CompressedSize hdr = UncompressedSize hdr then out = compressed else decompressBlob z compressed (UncompressedSize hdr) = Inr out"
    using assms by (auto simp: ReadBlob_def split: if_splits option.splits)
  have sizes: "0 \<le> CompressedSize hdr" "CompressedSize hdr \<le> PageCount db * payloadSize db" "UncompressedSize hdr \<le> maxDecompressedSize"
    using v by (auto simp: validateBlobHeader_def Let_def split: if_splits)
  note len = blobPayload_bound [OF c sizes(1)]
  show ?thesis
  proof (cases "CompressedSize hdr = UncompressedSize hdr")
    case True
    then show ?thesis using p out sizes len by (intro exI conjI) (auto simp: decompressSlack_def)
  next
    case False
    then have "inflateLimited z compressed (UncompressedSize hdr) blobInflateBounds = Inr out"
      using out by (simp add: decompressBlob_def)
    note b = inflateLimited_bound [OF this]
    then show ?thesis using p False hm by (intro exI conjI) auto
  qed
qed

definition blobFile :: dbfile where
  "blobFile = sampleFile 2 [(2, []), (2, []), (11, leU64 1 @ leU64 2 @ leU64 2 @ [7, 8])]"

lemma blob_size_bounded_witness:
  "ReadBlob storeLib blobFile \<lparr>brPageNo = 2, brItemNo = 0\<rparr> = Inr (Some [7, 8])
     \<and> int (length [7, 8 :: byte]) \<le> maxDecompressedSize"
proof -
  let ?ps = "[(2, []), (2, []), (11, leU64 1 @ leU64 2 @ leU64 2 @ [7, 8])] :: (u16 \<times> byte list) list"
  have ps: "samplePages ?ps" by (simp add: samplePages_def)
  have two: "2 < length ?ps" by simp
  obtain p where p: "ReadPage blobFile 2 = Inr p"
    "Payload p = padTo 380 (leU64 1 @ leU64 2 @ leU64 2 @ [7, 8])" "Header p = Some (freshHeader 7 11 0)"
    using sample_read [OF ps two, of 2] by (auto simp: blobFile_def)
  let ?d = "leU64 1 @ leU64 2 @ leU64 2 @ [7, 8] @ replicate 354 0"
  have d: "Payload p = ?d" unfolding p(2) by (simp add: padTo_def)
  have "getU64 ?d 0 = 1" "getU64 ?d 8 = 2" "getU64 ?d 16 = 2" by (simp_all add: get_append)
  then have hdr: "readBlobPageHeader (Payload p) = Inr \<lparr>ItemCount = 1, CompressedSize = 2, UncompressedSize = 2\<rparr>"
    unfolding d by (simp add: readBlobPageHeader_def blobPageHeaderSize_def)
  have valid: "validateBlobHeader blobFile \<lparr>ItemCount = 1, CompressedSize = 2, UncompressedSize = 2\<rparr> = Inr ()"
    by (simp add: validateBlobHeader_def blobFile_def PageCount_def payloadSize_def layout_consts maxDecompressedSize_def)
  have pay: "blobPayload blobFile p \<lparr>ItemCount = 1, CompressedSize = 2, UncompressedSize = 2\<rparr> = Inr [7, 8]"
    unfolding blobPayload_def d by (simp add: blobPageHeaderSize_def)
  have run: "ReadBlob storeLib blobFile \<lparr>brPageNo = 2, brItemNo = 0\<rparr> = Inr (Some [7, 8])"
    using p(1,3) hdr valid pay
    by (simp add: ReadBlob_def blobRefIsNull_def PageTypeBlob_def freshHeader_def) (simp add: blobFile_def PageCount_def)
  then show ?thesis using blob_size_bounded [OF run] by auto
qed

end
