(* ===== verification/Catalog.thy ===== *)
theory Catalog
  imports Internal_Files Reader
begin

text \<open>
  The table catalog (\<open>catalog.go\<close>: its entries, reading them, adding one, and the table handles
  built from them; \<open>ddl.go\<close>: removing one; \<open>schema.go\<close>: the columns of a table). A table handle
  keeps the file out of its record: the functions that use it take the file as an argument.
\<close>

definition tableListEntrySize :: nat where "tableListEntrySize = 272"
definition tableNameFieldSize :: nat where "tableNameFieldSize = 256"
definition maxCatalogTables :: nat where "maxCatalogTables = 4096"
definition anyTableID :: int where "anyTableID = -1"

record TableInfo =
  tiName :: "byte list"
  tiID :: int
  SchemaPageNo :: int
  InfoPageNo :: int
  systemPageNo :: int

section \<open>Entries\<close>

definition getI32 :: "byte list \<Rightarrow> nat \<Rightarrow> int" where
  "getI32 xs i = sint (getU32 xs i)"

definition tableEntry :: "codec \<Rightarrow> byte list \<Rightarrow> TableInfo" where
  "tableEntry cd entry =
     (let nameLen = unat (entry ! 0); fields = drop tableNameFieldSize entry in
      \<lparr>tiName = decodeANSI (ansiDecode cd) (slc 1 (1 + nameLen) entry), tiID = getI32 fields 0,
       SchemaPageNo = getI32 fields 4, InfoPageNo = getI32 fields 8, systemPageNo = getI32 fields 12\<rparr>)"

definition entryBytes :: "byte list \<Rightarrow> nat \<Rightarrow> byte list" where
  "entryBytes content i = slc (i * tableListEntrySize) ((i + 1) * tableListEntrySize) content"

definition parseTableList :: "codec \<Rightarrow> byte list \<Rightarrow> TableInfo list result" where
  "parseTableList cd content =
     (if length content mod tableListEntrySize \<noteq> 0 then Inl ErrBadCatalog
      else let count = length content div tableListEntrySize in
        if count > maxCatalogTables then Inl ErrBadCatalog
        else Inr (map (\<lambda>i. tableEntry cd (entryBytes content i)) [0..<count]))"

definition putLens :: "u32 \<Rightarrow> byte list \<Rightarrow> byte list" where
  "putLens n payload = splice 5 (leU32 n) (splice 1 (leU32 n) payload)"

definition appendCatalogEntry :: "codec \<Rightarrow> TableInfo \<Rightarrow> byte list \<Rightarrow> byte list result" where
  "appendCatalogEntry cd info payload =
     (if length payload < internalFileHeaderSize then Inl ErrCatalogNotWritable
      else let hdr = unat (payload ! 0); stored = getI32 payload 1; decompressed = getI32 payload 5; algorithm = payload ! 9 in
        if algorithm \<noteq> 0 \<or> stored \<noteq> decompressed then Inl ErrCatalogNotWritable
        else if hdr < internalFileHeaderSize \<or> stored < 0 \<or> stored mod int tableListEntrySize \<noteq> 0 then Inl ErrCatalogNotWritable
        else if int hdr + stored + int tableListEntrySize > int (length payload) then Inl ErrCatalogNotWritable
        else (case ansiEncode cd (tiName info) of
            None \<Rightarrow> Inl ErrStringEncoding
          | Some name \<Rightarrow>
              if length name \<ge> tableNameFieldSize then Inl ErrValueRange
              else let at = hdr + nat stored; fields = at + tableNameFieldSize;
                  entry = splice (at + 1) name (splice at [word_of_nat (length name)] payload);
                  numbered = splice fields (leU32 (word_of_int (tiID info)) @ leU32 (word_of_int (SchemaPageNo info))
                    @ leU32 (word_of_int (InfoPageNo info)) @ leU32 (word_of_int (systemPageNo info))) entry in
                Inr (putLens (word_of_int (stored + int tableListEntrySize)) numbered)))"

definition removeCatalogEntry :: "int \<Rightarrow> byte list \<Rightarrow> byte list result" where
  "removeCatalogEntry position payload =
     (if length payload < internalFileHeaderSize then Inl ErrCatalogNotWritable
      else let hdr = unat (payload ! 0); stored = getI32 payload 1; decompressed = getI32 payload 5; algorithm = payload ! 9 in
        if algorithm \<noteq> 0 \<or> stored \<noteq> decompressed then Inl ErrCatalogNotWritable
        else if hdr < internalFileHeaderSize \<or> stored \<le> 0 \<or> stored mod int tableListEntrySize \<noteq> 0 then Inl ErrCatalogNotWritable
        else if int hdr + stored > int (length payload) then Inl ErrCatalogNotWritable
        else if position < 0 \<or> position \<ge> stored div int tableListEntrySize then Inl ErrNoSuchTable
        else let at = hdr + nat position * tableListEntrySize;
            moved = slc (at + tableListEntrySize) (hdr + nat stored) payload in
          Inr (putLens (word_of_int (stored - int tableListEntrySize)) (splice at moved payload)))"

section \<open>Reading the catalog\<close>

definition readCatalog :: "zlib \<Rightarrow> dbfile \<Rightarrow> byte list result" where
  "readCatalog z db =
     bindR (findPageByType db PageTypeTableList) (\<lambda>pageNo.
       if pageNo < 0 then Inl ErrNoCatalog
       else bindR (readInternalFilePages db pageNo) (\<lambda>data.
            (case decompressInternalFile z data of Inl e \<Rightarrow> Inl ErrBadCatalog | Inr content \<Rightarrow> Inr content)))"

definition Tables :: "zlib \<Rightarrow> codec \<Rightarrow> dbfile \<Rightarrow> TableInfo list result" where
  "Tables z cd db = bindR (readCatalog z db) (parseTableList cd)"

section \<open>Table handles\<close>

record Table =
  tblInfo :: TableInfo
  sole :: bool
  unlisted :: bool

definition noInfo :: TableInfo where
  "noInfo = \<lparr>tiName = [], tiID = anyTableID, SchemaPageNo = -1, InfoPageNo = -1, systemPageNo = 0\<rparr>"

definition fileTable :: "zlib \<Rightarrow> codec \<Rightarrow> (nat \<Rightarrow> nat) \<Rightarrow> dbfile \<Rightarrow> byte list \<Rightarrow> Table result" where
  "fileTable z cd foldRune db name = (case Tables z cd db of
     Inl e \<Rightarrow> if name = [] \<and> (e = ErrNoCatalog \<or> e = ErrBadCatalog)
       then Inr \<lparr>tblInfo = noInfo, sole = False, unlisted = True\<rparr> else Inl e
   | Inr tables \<Rightarrow>
       if name = [] then (case tables of
           [] \<Rightarrow> Inl ErrNoSuchTable
         | [t] \<Rightarrow> Inr \<lparr>tblInfo = t, sole = True, unlisted = False\<rparr>
         | _ \<Rightarrow> Inl ErrAmbiguousTable)
       else (case find (\<lambda>t. EqualFold foldRune (tiName t) name) tables of
           Some t \<Rightarrow> Inr \<lparr>tblInfo = t, sole = (length tables = 1), unlisted = False\<rparr>
         | None \<Rightarrow> Inl ErrNoSuchTable))"

definition owns :: "Table \<Rightarrow> page \<Rightarrow> bool" where
  "owns t p = (case Header p of
     None \<Rightarrow> False
   | Some h \<Rightarrow> tiID (tblInfo t) = anyTableID \<or> sint (ObjectID h) = tiID (tblInfo t))"

definition ownDataPage :: "Table \<Rightarrow> page \<Rightarrow> bool" where
  "ownDataPage t p = (case Header p of
     None \<Rightarrow> False
   | Some h \<Rightarrow> PageType h = PageTypeData \<and> owns t p \<and> \<not> Freed p)"

fun dataPagesFrom :: "dbfile \<Rightarrow> Table \<Rightarrow> nat list \<Rightarrow> nat list result" where
  "dataPagesFrom db t [] = Inr []"
| "dataPagesFrom db t (i # is') =
     bindR (ReadPage db (int i)) (\<lambda>p.
     bindR (dataPagesFrom db t is') (\<lambda>pages.
       Inr (if ownDataPage t p then i # pages else pages)))"

definition tableDataPages :: "dbfile \<Rightarrow> Table \<Rightarrow> nat list result" where
  "tableDataPages db t = dataPagesFrom db t [0..<nat (PageCount db)]"

definition infoPageNo :: "dbfile \<Rightarrow> Table \<Rightarrow> int result" where
  "infoPageNo db t = (if \<not> unlisted t then Inr (InfoPageNo (tblInfo t)) else findPageByType db PageTypeTableInfo)"

definition schemaPageNo :: "dbfile \<Rightarrow> Table \<Rightarrow> int result" where
  "schemaPageNo db t =
     (if \<not> unlisted t then Inr (SchemaPageNo (tblInfo t))
      else bindR (findPageByType db PageTypeSchema) (\<lambda>no. if no < 0 then Inl ErrNoSchema else Inr no))"

definition tableSchema :: "zlib \<Rightarrow> codec \<Rightarrow> (nat \<Rightarrow> nat) \<Rightarrow> dbfile \<Rightarrow> Table \<Rightarrow> Column list result" where
  "tableSchema z cd foldRune db t =
     bindR (schemaPageNo db t) (\<lambda>no.
     bindR (ReadPage db no) (\<lambda>p.
       if length (Payload p) < internalFileHeaderSize then Inl ErrBadSchema
       else bindR (decompressInternalFile z (Payload p)) (\<lambda>stream.
            bindR (parseSchema cd stream) (\<lambda>cols. Inr (applyNullability cd foldRune cols stream)))))"

definition fileSchema :: "zlib \<Rightarrow> codec \<Rightarrow> (nat \<Rightarrow> nat) \<Rightarrow> dbfile \<Rightarrow> Column list result" where
  "fileSchema z cd foldRune db = bindR (fileTable z cd foldRune db []) (tableSchema z cd foldRune db)"

section \<open>Opening a table for reading\<close>

definition newLayoutReader :: "dbfile \<Rightarrow> Column list \<Rightarrow> nat list \<Rightarrow> reader" where
  "newLayoutReader db cols pages = \<lparr>rdDb = db, rdLayout = computeLayout (payloadSize db) cols,
     dataPages = pages, pageIdx = 0, pageData = [], recordIdx = 0, started = False, rdErr = None\<rparr>"

definition openTable :: "zlib \<Rightarrow> codec \<Rightarrow> (nat \<Rightarrow> nat) \<Rightarrow> dbfile \<Rightarrow> Table \<Rightarrow> reader result" where
  "openTable z cd foldRune db t =
     bindR (tableSchema z cd foldRune db t) (\<lambda>cols.
     bindR (tableDataPages db t) (\<lambda>pages.
       (case validateLayout (newLayoutReader db cols pages) of
          (Some e, r) \<Rightarrow> Inl e
        | (None, r) \<Rightarrow> Inr r)))"

definition OpenTable :: "zlib \<Rightarrow> codec \<Rightarrow> (nat \<Rightarrow> nat) \<Rightarrow> dbfile \<Rightarrow> reader result" where
  "OpenTable z cd foldRune db = bindR (fileTable z cd foldRune db []) (openTable z cd foldRune db)"

lemmas catalog_sizes = tableListEntrySize_def tableNameFieldSize_def maxCatalogTables_def internalFileHeaderSize_def

end
