(* ===== verification/Column_Changes.thy ===== *)
theory Column_Changes
  imports Catalog Encode
begin

text \<open>
  ALTER TABLE ADD COLUMN and DROP COLUMN (\<open>ddl_alter.go\<close>) as whole operations: the refusals, the splice
  of the schema stream, the rewriting of the data pages, and the commit.
\<close>

section \<open>What the stored schema says\<close>

definition schemaContent :: "zlib \<Rightarrow> dbfile \<Rightarrow> int \<Rightarrow> byte list result" where
  "schemaContent z db schemaPage = bindR (readInternalFilePages db schemaPage) (decompressInternalFile z)"

definition schemaBlobIndexRoot :: "zlib \<Rightarrow> dbfile \<Rightarrow> int \<Rightarrow> int result" where
  "schemaBlobIndexRoot z db schemaPage =
     bindR (schemaContent z db schemaPage) (\<lambda>content.
       if length content < systemIndexRootsSize then Inl ErrBadSchema
       else Inr (getI32 (drop (length content - systemIndexRootsSize) content) 4))"

definition refuseBlobPages :: "zlib \<Rightarrow> dbfile \<Rightarrow> int \<Rightarrow> unit result" where
  "refuseBlobPages z db schemaPage =
     bindR (schemaBlobIndexRoot z db schemaPage) (\<lambda>root. guardR (root < 0) ErrTableHasBlobPages)"

definition readSchemaTailStart :: "zlib \<Rightarrow> codec \<Rightarrow> dbfile \<Rightarrow> int \<Rightarrow> (byte list \<times> nat) result" where
  "readSchemaTailStart z cd db schemaPage =
     bindR (schemaContent z db schemaPage) (\<lambda>content.
     bindR (schemaColumnSpans cd content) (\<lambda>(spans, tailStart). Inr (content, tailStart)))"

definition columnCoveredByIndex ::
    "zlib \<Rightarrow> codec \<Rightarrow> (nat \<Rightarrow> nat) \<Rightarrow> dbfile \<Rightarrow> int \<Rightarrow> byte list \<Rightarrow> bool result" where
  "columnCoveredByIndex z cd foldRune db schemaPage name =
     bindR (readSchemaTailStart z cd db schemaPage) (\<lambda>(content, tailStart).
       if tailStart + 4 > length content then Inl ErrBadSchema
       else let count = getI32 content tailStart in
         if count < 0 then Inl ErrBadSchema
         else (case parseIndexRecords cd (nat count) content (tailStart + 4) of
             Inl e \<Rightarrow> Inl ErrBadSchema
           | Inr (records, _) \<Rightarrow> Inr (list_ex (\<lambda>r. coversColumn foldRune r name) records)))"

section \<open>The scan for constraint names\<close>

definition isConstraintTextByte :: "byte \<Rightarrow> bool" where
  "isConstraintTextByte b \<longleftrightarrow> (65 \<le> b \<and> b \<le> 90) \<or> (97 \<le> b \<and> b \<le> 122) \<or> (48 \<le> b \<and> b \<le> 57) \<or> b = 36 \<or> b = 46 \<or> b = 95"

text \<open>\<open>strings.SplitSeq(marker, "$")\<close>: the parts between the dollar signs, at least one.\<close>

fun splitDollar :: "byte list \<Rightarrow> byte list list" where
  "splitDollar [] = [[]]"
| "splitDollar (b # bs) = (if b = 36 then [] # splitDollar bs
     else (case splitDollar bs of [] \<Rightarrow> [[b]] | t # ts \<Rightarrow> (b # t) # ts))"

text \<open>The printable run around the anchor at \<open>i\<close>.\<close>

definition markerAt :: "byte list \<Rightarrow> nat \<Rightarrow> byte list" where
  "markerAt tail i = rev (takeWhile isConstraintTextByte (rev (take i tail))) @ slc i (i + 2) tail
     @ takeWhile isConstraintTextByte (drop (i + 2) tail)"

definition scanConstraintMarkers :: "(nat \<Rightarrow> nat) \<Rightarrow> byte list \<Rightarrow> byte list \<Rightarrow> bool" where
  "scanConstraintMarkers foldRune tail name =
     list_ex (\<lambda>i. \<not> (i + 1 \<ge> length tail \<or> tail ! i \<noteq> 67 \<or> tail ! (i + 1) \<noteq> 95)
       \<and> list_ex (\<lambda>tok. EqualFold foldRune tok name) (splitDollar (markerAt tail i))) [0..<length tail]"

definition columnNamedByConstraint ::
    "zlib \<Rightarrow> codec \<Rightarrow> (nat \<Rightarrow> nat) \<Rightarrow> dbfile \<Rightarrow> int \<Rightarrow> byte list \<Rightarrow> bool result" where
  "columnNamedByConstraint z cd foldRune db schemaPage name =
     bindR (readSchemaTailStart z cd db schemaPage) (\<lambda>(content, tailStart).
       case tailConstraints cd content of
         None \<Rightarrow> Inr (scanConstraintMarkers foldRune (drop tailStart content) name)
       | Some constraints \<Rightarrow> Inr (list_ex (\<lambda>c. namesColumn foldRune c name) constraints))"

section \<open>The columns of the new schema\<close>

definition prepareNewColumn :: "codec \<Rightarrow> (nat \<Rightarrow> nat) \<Rightarrow> int \<Rightarrow> Column list \<Rightarrow> Column \<Rightarrow> (Column \<times> byte list) result" where
  "prepareNewColumn cd foldRune lastID cols column =
     (if list_ex (\<lambda>c. EqualFold foldRune (Name c) (Name column)) cols then Inl ErrColumnExists
      else let c = column\<lparr>ColID := word_of_int (lastID + 1), Position := length cols\<rparr> in
        bindR (serializeColumnDef cd c) (\<lambda>def. Inr (c, def)))"

definition columnToDrop :: "(nat \<Rightarrow> nat) \<Rightarrow> Column list \<Rightarrow> byte list \<Rightarrow> nat result" where
  "columnToDrop foldRune cols name =
     (case find (\<lambda>i. EqualFold foldRune (Name (cols ! i)) name) [0..<length cols] of
        None \<Rightarrow> Inl ErrNoSuchColumn
      | Some i \<Rightarrow> if length cols = 1 then Inl ErrLastColumn else Inr i)"

section \<open>Editing the pages\<close>

definition spliceSchemaColumns ::
    "zlib \<Rightarrow> codec \<Rightarrow> (nat \<Rightarrow> u32) \<Rightarrow> int \<Rightarrow> int \<Rightarrow> byte list option \<Rightarrow> (edit, unit) op" where
  "spliceSchemaColumns z cd seed schemaPage dropIndex addColDef =
     bindO (getO (\<lambda>s. bindR (schemaContent z (edDb s) schemaPage) (\<lambda>content.
        bindR (spliceColumns cd content dropIndex addColDef) (\<lambda>spliced. compressInternalFile z spliced 1)))) (\<lambda>r.
     bindO (liftO r) (\<lambda>compressed. writeInternalFilePages seed schemaPage compressed))"

definition rewriteDataPages ::
    "codec \<Rightarrow> Table \<Rightarrow> Column list \<Rightarrow> Column list \<Rightarrow> (goval list \<Rightarrow> goval list) \<Rightarrow> (edit, unit) op" where
  "rewriteDataPages cd t oldCols newCols transform =
     bindO (getO (\<lambda>s. tableDataPages (edDb s) t)) (\<lambda>r.
     bindO (liftO r) (\<lambda>pages.
     bindO (getO (\<lambda>s. (computeLayout (payloadSize (edDb s)) oldCols, computeLayout (payloadSize (edDb s)) newCols))) (\<lambda>(old, new).
     forO pages (\<lambda>no.
       bindO (load (int no)) (\<lambda>k.
       bindO (getO (\<lambda>s. rewriteDataPage cd old new transform (bufPayload (bufAt k s)))) (\<lambda>r.
       bindO (liftO r) (\<lambda>payload.
       updBuf k (\<lambda>b. (setPayload (splice 0 payload (bufPayload b)) b)\<lparr>dirty := True\<rparr>))))))))"

definition commitAlter :: "(edit, unit) op" where
  "commitAlter = bindO flushPages (\<lambda>_. modO (\<lambda>s. s\<lparr>edDb := bumpFileState (edDb s)\<rparr>))"

section \<open>The operations\<close>

definition alterPages ::
    "zlib \<Rightarrow> codec \<Rightarrow> (nat \<Rightarrow> u32) \<Rightarrow> Table \<Rightarrow> int \<Rightarrow> Column list \<Rightarrow> Column list \<Rightarrow> int \<Rightarrow> byte list option
     \<Rightarrow> (goval list \<Rightarrow> goval list) \<Rightarrow> (dbfile, unit) op" where
  "alterPages z cd seed t schemaPage oldCols newCols dropIndex def transform db =
     (case bindO (spliceSchemaColumns z cd seed schemaPage dropIndex def) (\<lambda>_.
           bindO (rewriteDataPages cd t oldCols newCols transform) (\<lambda>_. commitAlter)) (newPageEdit db) of
        (r, s) \<Rightarrow> (r, edDb s))"

definition AddColumn ::
    "zlib \<Rightarrow> codec \<Rightarrow> (nat \<Rightarrow> nat) \<Rightarrow> (nat \<Rightarrow> u32) \<Rightarrow> byte list \<Rightarrow> Column \<Rightarrow> (dbfile, unit) op" where
  "AddColumn z cd foldRune seed table column =
     bindO (getO writable) (\<lambda>ok.
     if \<not> ok then failO ErrReadOnly
     else bindO (getO (\<lambda>db.
            bindR (fileTable z cd foldRune db table) (\<lambda>t.
            bindR (schemaPageNo db t) (\<lambda>schemaPage.
            bindR (refuseBlobPages z db schemaPage) (\<lambda>_.
            bindR (tableSchema z cd foldRune db t) (\<lambda>cols.
            bindR (prepareNewColumn cd foldRune (lastObjectID db) cols column) (\<lambda>(c, def).
              Inr (t, schemaPage, cols, c, def)))))))) (\<lambda>r.
          bindO (liftO r) (\<lambda>(t, schemaPage, cols, c, def).
          bindO (alterPages z cd seed t schemaPage cols (cols @ [c]) (-1) (Some def) addNull) (\<lambda>_.
          modO (setLastObjectID (sint (ColID c)))))))"

definition DropColumn ::
    "zlib \<Rightarrow> codec \<Rightarrow> (nat \<Rightarrow> nat) \<Rightarrow> (nat \<Rightarrow> u32) \<Rightarrow> byte list \<Rightarrow> byte list \<Rightarrow> (dbfile, unit) op" where
  "DropColumn z cd foldRune seed table column =
     bindO (getO writable) (\<lambda>ok.
     if \<not> ok then failO ErrReadOnly
     else bindO (getO (\<lambda>db.
            bindR (fileTable z cd foldRune db table) (\<lambda>t.
            bindR (schemaPageNo db t) (\<lambda>schemaPage.
            bindR (refuseBlobPages z db schemaPage) (\<lambda>_.
            bindR (columnCoveredByIndex z cd foldRune db schemaPage column) (\<lambda>covered.
            bindR (guardR (\<not> covered) ErrColumnIndexed) (\<lambda>_.
            bindR (columnNamedByConstraint z cd foldRune db schemaPage column) (\<lambda>constrained.
            bindR (guardR (\<not> constrained) ErrColumnConstrained) (\<lambda>_.
            bindR (tableSchema z cd foldRune db t) (\<lambda>cols.
            bindR (columnToDrop foldRune cols column) (\<lambda>dropIdx.
              Inr (t, schemaPage, cols, dropIdx)))))))))))) (\<lambda>r.
          bindO (liftO r) (\<lambda>(t, schemaPage, cols, dropIdx).
          alterPages z cd seed t schemaPage cols (dropColumnAt cols dropIdx) (int dropIdx) None (dropValue dropIdx))))"

end
