(* ===== verification/Index_Keys.thy ===== *)
theory Index_Keys
  imports Schema_Stream
begin

text \<open>
  Index keys (\<open>index.go\<close>; \<open>indexKeyOf\<close> and \<open>compoundKeyHasNull\<close> of \<open>writer_index.go\<close>): the
  fixed-width components of a key, their comparison, and the key of a record. The comparison is
  shown to be a total preorder on the keys of an index, which is what the sorted leaves and
  the binary search rely on: the locale \<open>key_order\<close> states it and holds what follows from it,
  and every comparator of the code is an interpretation.
\<close>

definition systemKeySize :: nat where "systemKeySize = 4"
definition primaryKeySize :: nat where "primaryKeySize = 5"
definition indexKeySize :: nat where "indexKeySize = 5"

text \<open>
  The text packages of \<open>golang.org/x/text\<close>: the Windows-1252 tables and the collator, whose
  \<open>CompareString\<close> of two UTF-8 strings is given for the case-sensitive collation and
  (\<open>True\<close>) for the one made with \<open>collate.IgnoreCase\<close>.
\<close>

record textlib =
  textCodec :: codec
  collateText :: "bool \<Rightarrow> byte list \<Rightarrow> byte list \<Rightarrow> int"

section \<open>Comparators\<close>

text \<open>\<open>bytes.Compare\<close> of the standard library.\<close>

fun bytesCompare :: "byte list \<Rightarrow> byte list \<Rightarrow> int" where
  "bytesCompare [] [] = 0"
| "bytesCompare [] (b # bs) = -1"
| "bytesCompare (a # as) [] = 1"
| "bytesCompare (a # as) (b # bs) = (if a < b then -1 else if a > b then 1 else bytesCompare as bs)"

definition compareInt32Keys :: "byte list \<Rightarrow> byte list \<Rightarrow> int" where
  "compareInt32Keys a b =
     (if length a < primaryKeySize \<or> length b < primaryKeySize then bytesCompare a b
      else if (a ! 0 = 0) \<noteq> (b ! 0 = 0) then (if a ! 0 \<noteq> 0 then -1 else 1)
      else let av = sint (getU32 a 1); bv = sint (getU32 b 1) in
        if av < bv then -1 else if av > bv then 1 else 0)"

definition compareStringKeys :: "textlib \<Rightarrow> byte list \<Rightarrow> byte list \<Rightarrow> bool \<Rightarrow> int" where
  "compareStringKeys lib a b nocase =
     (if length a = 0 \<or> length b = 0 then bytesCompare a b
      else let aNull = (a ! 0 \<noteq> 0); bNull = (b ! 0 \<noteq> 0) in
        if aNull \<noteq> bNull then (if aNull then -1 else 1)
        else if aNull then 0
        else collateText lib nocase (decodeANSI (ansiDecode (textCodec lib)) (drop 1 a))
               (decodeANSI (ansiDecode (textCodec lib)) (drop 1 b)))"

datatype indexKeyKind = indexKeyInt32 | indexKeyString

record indexKeyComponent =
  kcCol :: nat
  kcSize :: nat
  kcKind :: indexKeyKind
  kcNoCase :: bool

definition compareComponent :: "textlib \<Rightarrow> indexKeyComponent \<Rightarrow> byte list \<Rightarrow> byte list \<Rightarrow> int" where
  "compareComponent lib c a b = (case kcKind c of
     indexKeyInt32 \<Rightarrow> compareInt32Keys a b
   | indexKeyString \<Rightarrow> compareStringKeys lib a b (kcNoCase c))"

fun compareFrom :: "textlib \<Rightarrow> byte list \<Rightarrow> byte list \<Rightarrow> nat \<Rightarrow> indexKeyComponent list \<Rightarrow> int" where
  "compareFrom lib a b off [] = bytesCompare (drop off a) (drop off b)"
| "compareFrom lib a b off (c # cs) =
     (let end' = off + kcSize c in
      if end' > length a \<or> end' > length b then bytesCompare a b
      else let cmp = compareComponent lib c (slc off end' a) (slc off end' b) in
        if cmp \<noteq> 0 then cmp else compareFrom lib a b end' cs)"

definition compareIndexKeys :: "textlib \<Rightarrow> byte list \<Rightarrow> byte list \<Rightarrow> indexKeyComponent list \<Rightarrow> int" where
  "compareIndexKeys lib a b cs = compareFrom lib a b 0 cs"

section \<open>The key of a record\<close>

definition indexKeyComponentFor :: "nat \<Rightarrow> Column \<Rightarrow> indexKeyComponent option" where
  "indexKeyComponentFor colIdx col =
     (if BaseType col = BftInt32 \<and> (FieldType col = FieldInteger \<or> FieldType col = FieldAutoInc)
      then Some \<lparr>kcCol = colIdx, kcSize = indexKeySize, kcKind = indexKeyInt32, kcNoCase = False\<rparr>
      else if BaseType col = BftVarchar \<and> FieldType col = FieldString \<and> Size col > 0
      then Some \<lparr>kcCol = colIdx,
        kcSize = (if Size col > indexColumnMaxIndexedSize then unat indexColumnMaxIndexedSize + 3 else unat (Size col) + 2),
        kcKind = indexKeyString, kcNoCase = False\<rparr>
      else None)"

definition indexableKeyColumn :: "Column \<Rightarrow> bool" where
  "indexableKeyColumn col \<longleftrightarrow> indexKeyComponentFor 0 col \<noteq> None"

definition componentKey :: "layout \<Rightarrow> rowbytes \<Rightarrow> indexKeyComponent \<Rightarrow> byte list" where
  "componentKey l rec c =
     (let field = zeros (kcSize c); col = int (kcCol c) in
      if rowIsNull l rec col then field[0 := 1]
      else case kcKind c of
        indexKeyInt32 \<Rightarrow> splice 1 (leU32 (word_of_int (rowInt l rec col))) field
      | indexKeyString \<Rightarrow>
          let bs = (case fieldOf l rec col of None \<Rightarrow> [] | Some bs \<Rightarrow> bs);
              textSize = min (length field - 2) (unat indexColumnMaxIndexedSize) in
          splice 1 (take textSize bs) field)"

definition indexKeyOf :: "layout \<Rightarrow> rowbytes \<Rightarrow> indexKeyComponent list \<Rightarrow> byte list" where
  "indexKeyOf l rec cs = concat (map (componentKey l rec) cs)"

fun keyHasNullFrom :: "nat \<Rightarrow> byte list \<Rightarrow> indexKeyComponent list \<Rightarrow> bool" where
  "keyHasNullFrom off key [] = False"
| "keyHasNullFrom off key (c # cs) =
     (if off \<ge> length key \<or> key ! off \<noteq> 0 then True else keyHasNullFrom (off + kcSize c) key cs)"

definition compoundKeyHasNull :: "byte list \<Rightarrow> indexKeyComponent list \<Rightarrow> bool" where
  "compoundKeyHasNull key cs = keyHasNullFrom 0 key cs"

definition makeStringKey :: "textlib \<Rightarrow> byte list \<Rightarrow> nat \<Rightarrow> byte list result" where
  "makeStringKey lib v keySize =
     (if keySize < 2 then Inl ErrMalformedIndex
      else case ansiEncode (textCodec lib) v of
        None \<Rightarrow> Inl ErrStringEncoding
      | Some bs \<Rightarrow> if 0 \<in> set bs then Inl ErrStringEncoding
          else Inr (splice 1 (take (min (keySize - 2) (unat indexColumnMaxIndexedSize)) bs) (zeros keySize)))"

lemma length_componentKey [simp]: "length (componentKey l rec c) = kcSize c"
  by (simp add: componentKey_def Let_def split: indexKeyKind.split)

definition keyWidth :: "indexKeyComponent list \<Rightarrow> nat" where
  "keyWidth cs = sum_list (map kcSize cs)"

lemma keyWidth_simps [simp]: "keyWidth [] = 0" "keyWidth (c # cs) = kcSize c + keyWidth cs"
  by (simp_all add: keyWidth_def)

lemma length_indexKeyOf [simp]: "length (indexKeyOf l rec cs) = keyWidth cs"
  by (induction cs) (simp_all add: indexKeyOf_def)

section \<open>Total preorders\<close>

locale key_order =
  fixes cmp :: "'k \<Rightarrow> 'k \<Rightarrow> int" and valid :: "'k \<Rightarrow> bool"
  assumes same: "valid a \<Longrightarrow> cmp a a = 0"
    and flip: "valid a \<Longrightarrow> valid b \<Longrightarrow> cmp b a = - cmp a b"
    and trans: "valid a \<Longrightarrow> valid b \<Longrightarrow> valid c \<Longrightarrow> cmp a b \<le> 0 \<Longrightarrow> cmp b c \<le> 0 \<Longrightarrow> cmp a c \<le> 0"

text \<open>Entries in key order, and the place of a new key: after every key that is not greater.\<close>

definition inKeyOrder :: "('k \<Rightarrow> 'k \<Rightarrow> int) \<Rightarrow> ('k \<times> 'r) list \<Rightarrow> bool" where
  "inKeyOrder cmp es = sorted_wrt (\<lambda>a b. cmp a b \<le> 0) (map fst es)"

definition insertEntry :: "('k \<Rightarrow> 'k \<Rightarrow> int) \<Rightarrow> 'k \<times> 'r \<Rightarrow> ('k \<times> 'r) list \<Rightarrow> ('k \<times> 'r) list" where
  "insertEntry cmp e es = (let low = takeWhile (\<lambda>x. cmp (fst x) (fst e) \<le> 0) es in
     low @ e # drop (length low) es)"

lemma insertEntry_parts:
  "insertEntry cmp e es = takeWhile (\<lambda>x. cmp (fst x) (fst e) \<le> 0) es @ e # dropWhile (\<lambda>x. cmp (fst x) (fst e) \<le> 0) es"
  by (simp add: insertEntry_def dropWhile_eq_drop Let_def)

lemma insertEntry_simps [simp]:
  "insertEntry cmp e [] = [e]"
  "insertEntry cmp e (x # xs) = (if cmp (fst x) (fst e) \<le> 0 then x # insertEntry cmp e xs else e # x # xs)"
  by (simp_all add: insertEntry_parts)

lemma set_insertEntry [simp]: "set (insertEntry cmp e es) = insert e (set es)"
  by (induction es) auto

context key_order
begin

lemma cmp_0: "valid a \<Longrightarrow> valid b \<Longrightarrow> cmp a b = 0 \<longleftrightarrow> cmp a b \<le> 0 \<and> cmp b a \<le> 0"
  using flip [of a b] by auto

lemma cmp_less: "valid a \<Longrightarrow> valid b \<Longrightarrow> cmp a b > 0 \<Longrightarrow> cmp b a \<le> 0"
  using flip [of a b] by simp

lemma cmp_0_left: "valid a \<Longrightarrow> valid b \<Longrightarrow> valid c \<Longrightarrow> cmp a b = 0 \<Longrightarrow> cmp a c \<le> 0 \<longleftrightarrow> cmp b c \<le> 0"
  using trans [of a b c] trans [of b a c] flip [of a b] by auto

text \<open>Inserting keeps the order, and ties are kept in the order of insertion.\<close>

lemma insert_keeps_order:
  assumes "inKeyOrder cmp es" and "valid (fst e)" and "\<forall>x \<in> set es. valid (fst x)"
  shows "inKeyOrder cmp (insertEntry cmp e es)"
  using assms
proof (induction es)
  case Nil
  then show ?case by (simp add: inKeyOrder_def)
next
  case (Cons x xs)
  have ord: "\<forall>y \<in> set xs. cmp (fst x) (fst y) \<le> 0" "inKeyOrder cmp xs" and v: "valid (fst x)" "valid (fst e)"
    using Cons.prems by (auto simp: inKeyOrder_def)
  show ?case
  proof (cases "cmp (fst x) (fst e) \<le> 0")
    case True
    then show ?thesis using Cons ord by (auto simp: inKeyOrder_def)
  next
    case False
    then have "cmp (fst e) (fst x) \<le> 0" using flip [OF v] by simp
    then have "\<forall>y \<in> set xs. cmp (fst e) (fst y) \<le> 0"
      using ord(1) Cons.prems trans v by (metis list.set_intros(2))
    with \<open>cmp (fst e) (fst x) \<le> 0\<close> show ?thesis using Cons.prems False by (auto simp: inKeyOrder_def)
  qed
qed

lemma insertEntry_split:
  assumes "inKeyOrder cmp es" and "valid (fst e)" and "\<forall>x \<in> set es. valid (fst x)"
  shows "\<exists>low high. es = low @ high \<and> insertEntry cmp e es = low @ e # high
    \<and> (\<forall>x \<in> set low. cmp (fst x) (fst e) \<le> 0) \<and> (\<forall>x \<in> set high. cmp (fst x) (fst e) > 0)"
  using assms
proof (induction es)
  case Nil
  then show ?case by simp
next
  case (Cons x xs)
  have ord: "\<forall>y \<in> set xs. cmp (fst x) (fst y) \<le> 0" "inKeyOrder cmp xs" and v: "valid (fst x)" "valid (fst e)"
    using Cons.prems by (auto simp: inKeyOrder_def)
  show ?case
  proof (cases "cmp (fst x) (fst e) \<le> 0")
    case True
    obtain low high where "xs = low @ high" "insertEntry cmp e xs = low @ e # high"
      "\<forall>x \<in> set low. cmp (fst x) (fst e) \<le> 0" "\<forall>x \<in> set high. cmp (fst x) (fst e) > 0"
      using Cons.IH [OF ord(2) v(2)] Cons.prems(3) by auto
    then show ?thesis using True by (intro exI [of _ "x # low"] exI [of _ high]) simp
  next
    case False
    have "cmp (fst y) (fst e) > 0" if "y \<in> set xs" for y
      using trans [of "fst x" "fst y" "fst e"] ord(1) that v Cons.prems(3) False by (metis linorder_not_less list.set_intros(2))
    then show ?thesis using False by (intro exI [of _ "[]"] exI [of _ "x # xs"]) simp
  qed
qed

lemma drop_keeps_order: "inKeyOrder cmp (xs @ x # ys) \<Longrightarrow> inKeyOrder cmp (xs @ ys)"
  by (auto simp: inKeyOrder_def sorted_wrt_append)

end

section \<open>The comparators are total preorders\<close>

text \<open>Comparing ranks in a linear order, the generic instance.\<close>

definition compareRank :: "('k \<Rightarrow> 'o :: linorder) \<Rightarrow> 'k \<Rightarrow> 'k \<Rightarrow> int" where
  "compareRank f a b = (if f a < f b then -1 else if f a > f b then 1 else 0)"

lemma compareRank_order: "key_order (compareRank f) valid"
  by unfold_locales (auto simp: compareRank_def split: if_splits)

lemma key_order_cong:
  assumes "key_order cmp valid" and "\<And>a b. valid' a \<Longrightarrow> valid' b \<Longrightarrow> cmp' a b = cmp a b" and "\<And>a. valid' a \<Longrightarrow> valid a"
  shows "key_order cmp' valid'"
proof
  note law = key_order.same [OF assms(1)] key_order.flip [OF assms(1)] key_order.trans [OF assms(1)]
  fix a b c
  assume "valid' a" "valid' b"
  then show "cmp' a a = 0" and "cmp' b a = - cmp' a b"
    using assms(2,3) law(1,2) by (metis, metis)
  assume "valid' c" "cmp' a b \<le> 0" "cmp' b c \<le> 0"
  then show "cmp' a c \<le> 0"
    using assms(2,3) law(3) \<open>valid' a\<close> \<open>valid' b\<close> by metis
qed

lemma bytesCompare_same: "bytesCompare a a = 0"
  by (induction a) auto

lemma bytesCompare_eq: "bytesCompare a b = 0 \<longleftrightarrow> a = b"
  by (induction a b rule: bytesCompare.induct) auto

definition int32Rank :: "byte list \<Rightarrow> int" where
  "int32Rank k = (if k ! 0 \<noteq> 0 then 0 else 2 ^ 33) + sint (getU32 k 1)"

lemma sint32_bounds: "- (2 ^ 31) \<le> sint (w :: u32)" "sint (w :: u32) < 2 ^ 31"
  using sint_range_size [of w] by (simp_all add: word_size)

lemma compareInt32Keys_rank:
  assumes "5 \<le> length a" and "5 \<le> length b"
  shows "compareInt32Keys a b = compareRank int32Rank a b"
  using assms sint32_bounds [of "getU32 a 1"] sint32_bounds [of "getU32 b 1"]
  by (auto simp: compareInt32Keys_def compareRank_def int32Rank_def primaryKeySize_def Let_def)

interpretation int32Keys: key_order compareInt32Keys "\<lambda>k. 5 \<le> length k"
  by (rule key_order_cong [OF compareRank_order [of int32Rank]]) (simp_all add: compareInt32Keys_rank)

text \<open>
  What \<open>CompareString\<close> promises: it compares by the collation order of the strings, \<open>0\<close>,
  \<open>-1\<close> or \<open>1\<close>; the two arguments exchanged give the opposite sign.
\<close>

definition collates :: "textlib \<Rightarrow> bool" where
  "collates lib \<longleftrightarrow> (\<forall>nocase. (\<forall>a. collateText lib nocase a a = 0)
     \<and> (\<forall>a b. collateText lib nocase b a = - collateText lib nocase a b)
     \<and> (\<forall>a b c. collateText lib nocase a b \<le> 0 \<longrightarrow> collateText lib nocase b c \<le> 0 \<longrightarrow> collateText lib nocase a c \<le> 0))"

lemma collated_order:
  assumes "collates lib"
  shows "key_order (\<lambda>a b. compareStringKeys lib a b nocase) (\<lambda>k. k \<noteq> [])"
proof -
  let ?d = "\<lambda>k. decodeANSI (ansiDecode (textCodec lib)) (drop 1 k)"
  have t: "\<And>a b c. collateText lib nocase a b \<le> 0 \<Longrightarrow> collateText lib nocase b c \<le> 0 \<Longrightarrow> collateText lib nocase a c \<le> 0"
    and f: "\<And>a b. collateText lib nocase b a = - collateText lib nocase a b"
    and r: "\<And>a. collateText lib nocase a a = 0"
    using assms unfolding collates_def by blast+
  show ?thesis
  proof
    fix a b c :: "byte list"
    assume ne: "a \<noteq> []" "b \<noteq> []"
    have ab: "compareStringKeys lib x y nocase =
        (if (x ! 0 \<noteq> 0) \<noteq> (y ! 0 \<noteq> 0) then (if x ! 0 \<noteq> 0 then -1 else 1) else if x ! 0 \<noteq> 0 then 0
         else collateText lib nocase (?d x) (?d y))" if "x \<noteq> []" "y \<noteq> []" for x y
      using that by (simp add: compareStringKeys_def Let_def)
    show "compareStringKeys lib a a nocase = 0" using ne r by (simp add: ab)
    show "compareStringKeys lib b a nocase = - compareStringKeys lib a b nocase"
      using ne f [of "?d a" "?d b"] by (simp add: ab)
    assume c: "c \<noteq> []" and le: "compareStringKeys lib a b nocase \<le> 0" "compareStringKeys lib b c nocase \<le> 0"
    show "compareStringKeys lib a c nocase \<le> 0"
    proof (cases "a ! 0 = 0 \<and> b ! 0 = 0 \<and> c ! 0 = 0")
      case True
      then show ?thesis using le t [of "?d a" "?d b" "?d c"] ne c by (simp add: ab)
    next
      case False
      have "a ! 0 = 0 \<longrightarrow> b ! 0 = 0" and "b ! 0 = 0 \<longrightarrow> c ! 0 = 0"
        using le False ne c by (simp_all add: ab split: if_splits)
      then show ?thesis using ne c False by (auto simp: ab)
    qed
  qed
qed

definition wide_component :: "indexKeyComponent \<Rightarrow> bool" where
  "wide_component c \<longleftrightarrow> (case kcKind c of indexKeyInt32 \<Rightarrow> kcSize c = 5 | indexKeyString \<Rightarrow> kcSize c > 2)"

lemma component_wide: "indexKeyComponentFor i col = Some c \<Longrightarrow> wide_component c"
  by (auto simp: indexKeyComponentFor_def wide_component_def indexKeySize_def indexColumnMaxIndexedSize_def unat_gt_0 word_less_nat_alt
      split: if_splits)

lemma component_order:
  assumes "collates lib" and "wide_component c"
  shows "key_order (compareComponent lib c) (\<lambda>k. length k = kcSize c)"
proof (cases "kcKind c")
  case indexKeyInt32
  then show ?thesis
    using assms(2) by (intro key_order_cong [OF int32Keys.key_order_axioms]) (simp_all add: compareComponent_def wide_component_def)
next
  case indexKeyString
  then show ?thesis
    using assms(2) by (intro key_order_cong [OF collated_order [OF assms(1), of "kcNoCase c"]])
      (auto simp: compareComponent_def wide_component_def)
qed

lemma lexicographic_order:
  assumes "key_order c1 v1" and "key_order c2 v2" and "\<And>a. v a \<Longrightarrow> v1 (p a) \<and> v2 a"
  shows "key_order (\<lambda>a b. if c1 (p a) (p b) \<noteq> 0 then c1 (p a) (p b) else c2 a b) v"
proof
  fix a b c
  assume va: "v a" and vb: "v b"
  note v = assms(3) [OF va] assms(3) [OF vb]
  show "(if c1 (p a) (p a) \<noteq> 0 then c1 (p a) (p a) else c2 a a) = 0"
    using v key_order.same [OF assms(1), of "p a"] key_order.same [OF assms(2), of a] by simp
  show "(if c1 (p b) (p a) \<noteq> 0 then c1 (p b) (p a) else c2 b a) = - (if c1 (p a) (p b) \<noteq> 0 then c1 (p a) (p b) else c2 a b)"
    using v key_order.flip [OF assms(1), of "p a" "p b"] key_order.flip [OF assms(2), of a b] by simp
  assume "v c" and le: "(if c1 (p a) (p b) \<noteq> 0 then c1 (p a) (p b) else c2 a b) \<le> 0"
    "(if c1 (p b) (p c) \<noteq> 0 then c1 (p b) (p c) else c2 b c) \<le> 0"
  note w = v assms(3) [OF \<open>v c\<close>]
  show "(if c1 (p a) (p c) \<noteq> 0 then c1 (p a) (p c) else c2 a c) \<le> 0"
  proof -
    have one: "c1 (p a) (p b) \<le> 0" "c1 (p b) (p c) \<le> 0" using le by (auto split: if_splits)
    then have ac: "c1 (p a) (p c) \<le> 0" using w key_order.trans [OF assms(1)] by blast
    have flips: "c1 (p b) (p a) = - c1 (p a) (p b)" "c1 (p c) (p b) = - c1 (p b) (p c)" "c1 (p c) (p a) = - c1 (p a) (p c)"
      using w key_order.flip [OF assms(1)] by blast+
    show ?thesis
    proof (cases "c1 (p a) (p c) = 0")
      case True
      then have "c1 (p b) (p a) \<le> 0" "c1 (p c) (p b) \<le> 0"
        using one flips w key_order.trans [OF assms(1), of "p b" "p c" "p a"] key_order.trans [OF assms(1), of "p c" "p a" "p b"] by simp_all
      then have "c1 (p a) (p b) = 0" "c1 (p b) (p c) = 0" using one flips by simp_all
      then have "c2 a b \<le> 0" "c2 b c \<le> 0" using le by simp_all
      then have "c2 a c \<le> 0" using w key_order.trans [OF assms(2)] by blast
      then show ?thesis using True by simp
    qed (simp add: ac)
  qed
qed

text \<open>The keys of an index: as wide as its components, under a collator that collates.\<close>

definition indexKey :: "textlib \<Rightarrow> indexKeyComponent list \<Rightarrow> byte list \<Rightarrow> bool" where
  "indexKey lib cs k \<longleftrightarrow> collates lib \<and> (\<forall>c \<in> set cs. wide_component c) \<and> length k = keyWidth cs"

lemma compareFrom_order:
  assumes "collates lib" and "\<forall>c \<in> set cs. wide_component c"
  shows "key_order (\<lambda>a b. compareFrom lib a b off cs) (\<lambda>k. length k = off + keyWidth cs)"
  using assms(2)
proof (induction cs arbitrary: off)
  case Nil
  show ?case by (unfold_locales; simp)
next
  case (Cons c cs)
  let ?p = "slc off (off + kcSize c)"
  have "key_order (\<lambda>a b. if compareComponent lib c (?p a) (?p b) \<noteq> 0 then compareComponent lib c (?p a) (?p b)
      else compareFrom lib a b (off + kcSize c) cs) (\<lambda>k. length k = off + keyWidth (c # cs))"
    by (rule lexicographic_order [OF component_order [OF assms(1)] Cons.IH]) (use Cons.prems in auto)
  then show ?case
    by (rule key_order_cong) (simp_all add: Let_def)
qed

interpretation indexKeys: key_order "\<lambda>a b. compareIndexKeys lib a b cs" "indexKey lib cs" for lib cs
proof (cases "collates lib \<and> (\<forall>c \<in> set cs. wide_component c)")
  case True
  then show "key_order (\<lambda>a b. compareIndexKeys lib a b cs) (indexKey lib cs)"
    by (intro key_order_cong [OF compareFrom_order [of lib cs 0]]) (simp_all add: compareIndexKeys_def indexKey_def)
next
  case False
  then show "key_order (\<lambda>a b. compareIndexKeys lib a b cs) (indexKey lib cs)"
    by unfold_locales (auto simp: indexKey_def)
qed

end
