(* ===== verification/Index_Leaf.thy ===== *)
theory Index_Leaf
  imports Index_Keys
begin

text \<open>
  An index page and its entries (\<open>index.go\<close>: \<open>parseBTreeHeader\<close>, \<open>readBTreeEntries\<close>;
  \<open>writer_index.go\<close>: \<open>indexLeaf\<close> and its methods). The methods are functions of the payload they
  edit. A leaf's payload is related to the list of its entries, and inserting and removing are
  shown to be the list operations.
\<close>

definition btreeHeaderSize :: nat where "btreeHeaderSize = 18"
definition leafEntrySuffixSize :: nat where "leafEntrySuffixSize = 6"
definition internalEntrySuffixSize :: nat where "internalEntrySuffixSize = 4"

section \<open>Pages\<close>

record BTreePageHeader =
  IsRoot :: bool
  IsLeaf :: bool
  LeftPageNo :: int
  RightPageNo :: int
  HasKeys :: bool
  HasSuffixes :: bool
  KeyPrefixSize :: u16
  EntryCount :: u16
  PagePrefixSize :: u16

record BTreeEntry =
  Key :: "byte list"
  PageNo :: int
  ItemNo :: u16

definition parseBTreeHeader :: "byte list \<Rightarrow> BTreePageHeader result" where
  "parseBTreeHeader data =
     (if length data < btreeHeaderSize then Inl ErrMalformedIndex
      else Inr \<lparr>IsRoot = (data ! 0 \<noteq> 0), IsLeaf = (data ! 1 \<noteq> 0),
        LeftPageNo = sint (getU32 data 2), RightPageNo = sint (getU32 data 6),
        HasKeys = (data ! 10 \<noteq> 0), HasSuffixes = (data ! 11 \<noteq> 0),
        KeyPrefixSize = getU16 data 12, EntryCount = getU16 data 14, PagePrefixSize = getU16 data 16\<rparr>)"

definition entryStride :: "BTreePageHeader \<Rightarrow> nat" where
  "entryStride hdr = unat (KeyPrefixSize hdr) + (if IsLeaf hdr then leafEntrySuffixSize else internalEntrySuffixSize)"

definition readBTreeEntries :: "byte list \<Rightarrow> BTreePageHeader \<Rightarrow> BTreeEntry list result" where
  "readBTreeEntries data hdr =
     (let keySize = unat (KeyPrefixSize hdr); stride = entryStride hdr in
      if length data < btreeHeaderSize then Inl ErrMalformedIndex
      else if keySize = 0 then Inl ErrMalformedIndex
      else let count = min (unat (EntryCount hdr)) ((length data - btreeHeaderSize) div stride) in
        Inr (map (\<lambda>i. let off = btreeHeaderSize + i * stride in
          \<lparr>Key = slc off (off + keySize) data, PageNo = sint (getU32 data (off + keySize)),
           ItemNo = (if IsLeaf hdr then getU16 data (off + keySize + 4) else 0)\<rparr>) [0..<count]))"

section \<open>The leaf a writer edits\<close>

record RecordID =
  ridPage :: int
  ridSlot :: int

record indexLeaf =
  leafBuf :: nat
  leafStride :: nat
  leafKeySize :: nat
  leafComponents :: "indexKeyComponent list"

definition leafCount :: "byte list \<Rightarrow> nat" where
  "leafCount p = unat (getU16 p 14)"

definition leafEnd :: "indexLeaf \<Rightarrow> byte list \<Rightarrow> nat" where
  "leafEnd l p = btreeHeaderSize + leafCount p * leafStride l"

definition leafOffset :: "indexLeaf \<Rightarrow> nat \<Rightarrow> nat" where
  "leafOffset l i = btreeHeaderSize + i * leafStride l"

definition leafKey :: "indexLeaf \<Rightarrow> byte list \<Rightarrow> nat \<Rightarrow> byte list" where
  "leafKey l p i = (let off = leafOffset l i in slc off (off + leafKeySize l) p)"

definition leafRef :: "indexLeaf \<Rightarrow> byte list \<Rightarrow> nat \<Rightarrow> RecordID" where
  "leafRef l p i = (let off = leafOffset l i + leafKeySize l in
     \<lparr>ridPage = sint (getU32 p off), ridSlot = uint (getU16 p (off + 4))\<rparr>)"

definition hasKey :: "textlib \<Rightarrow> indexLeaf \<Rightarrow> byte list \<Rightarrow> byte list \<Rightarrow> bool" where
  "hasKey lib l p key = list_ex (\<lambda>i. compareIndexKeys lib (leafKey l p i) key (leafComponents l) = 0) [0..<leafCount p]"

definition setCount :: "nat \<Rightarrow> byte list \<Rightarrow> byte list" where
  "setCount n p = splice 14 (leU16 (word_of_nat n)) p"

definition leafRoom :: "indexLeaf \<Rightarrow> byte list \<Rightarrow> unit result" where
  "leafRoom l p = guardR (leafEnd l p + leafStride l \<le> length p) ErrIndexTooManyRows"

definition leafInsert :: "textlib \<Rightarrow> indexLeaf \<Rightarrow> byte list \<Rightarrow> RecordID \<Rightarrow> byte list \<Rightarrow> byte list result" where
  "leafInsert lib l key rid p =
     bindR (leafRoom l p) (\<lambda>_.
     bindR (guardR (0 \<le> ridPage rid \<and> ridPage rid \<le> 2 ^ 31 - 1) ErrBookkeepingMismatch) (\<lambda>_.
     bindR (guardR (0 \<le> ridSlot rid \<and> ridSlot rid \<le> 2 ^ 16 - 1) ErrBookkeepingMismatch) (\<lambda>_.
       let count = leafCount p;
           pos = (case find (\<lambda>i. compareIndexKeys lib (leafKey l p i) key (leafComponents l) > 0) [0..<count] of
                    None \<Rightarrow> count | Some i \<Rightarrow> i);
           off = leafOffset l pos; end' = leafEnd l p;
           p1 = splice (off + leafStride l) (slc off end' p) p;
           p2 = splice off (take (leafKeySize l) key) p1;
           p3 = splice (off + leafKeySize l) (leU32 (uint32 (ridPage rid))) p2;
           p4 = splice (off + leafKeySize l + 4) (leU16 (word_of_int (ridSlot rid))) p3 in
       Inr (setCount (count + 1) p4))))"

definition leafRemove :: "indexLeaf \<Rightarrow> RecordID \<Rightarrow> byte list \<Rightarrow> byte list result" where
  "leafRemove l rid p =
     (let count = leafCount p in
      case find (\<lambda>i. leafRef l p i = rid) [0..<count] of
        None \<Rightarrow> Inl ErrBookkeepingMismatch
      | Some pos \<Rightarrow> let off = leafOffset l pos; end' = leafEnd l p in
          Inr (setCount (count - 1) (splice off (slc (off + leafStride l) end' p) p)))"

section \<open>Uniform blocks\<close>

definition chunks :: "nat \<Rightarrow> nat \<Rightarrow> 'a list \<Rightarrow> 'a list list" where
  "chunks st n xs = map (\<lambda>i. slc (i * st) (i * st + st) xs) [0..<n]"

lemma length_chunks [simp]: "length (chunks st n xs) = n"
  by (simp add: chunks_def)

lemma chunks_Suc: "chunks st (Suc n) xs = take st xs # chunks st n (drop st xs)"
proof -
  have "chunks st (Suc n) xs = take st xs # map (\<lambda>i. slc (Suc i * st) (Suc i * st + st) xs) [0..<n]"
    unfolding chunks_def upt_conv_Cons [OF zero_less_Suc] map_Suc_upt [symmetric] by (simp add: slc_def comp_def)
  then show ?thesis by (simp add: chunks_def slc_def add.commute)
qed

lemma concat_chunks: "n * st \<le> length xs \<Longrightarrow> concat (chunks st n xs) = take (n * st) xs"
proof (induction n arbitrary: xs)
  case (Suc n)
  then show ?case by (simp add: chunks_Suc take_add)
qed (simp add: chunks_def)

lemma chunks_concat: "\<forall>b \<in> set bs. length b = st \<Longrightarrow> chunks st (length bs) (concat bs @ rest) = bs"
proof (induction bs)
  case (Cons b bs)
  then show ?case by (simp add: chunks_Suc)
qed (simp add: chunks_def)

lemma chunk_length: "n * st \<le> length xs \<Longrightarrow> b \<in> set (chunks st n xs) \<Longrightarrow> length b = st"
proof -
  assume "n * st \<le> length xs" "b \<in> set (chunks st n xs)"
  then obtain i where i: "i < n" "b = slc (i * st) (i * st + st) xs" by (auto simp: chunks_def)
  then have "Suc i * st \<le> n * st" by (intro mult_le_mono1) simp
  then show ?thesis using i \<open>n * st \<le> length xs\<close> by simp
qed

lemma take_chunks: "k \<le> n \<Longrightarrow> take k (chunks st n xs) = chunks st k xs"
  by (simp add: chunks_def take_map)

lemma drop_chunks: "k \<le> n \<Longrightarrow> drop k (chunks st n xs) = chunks st (n - k) (drop (k * st) xs)"
proof (induction k arbitrary: n xs)
  case (Suc k)
  then obtain m where "n = Suc m" by (cases n) auto
  then show ?case using Suc by (simp add: chunks_Suc add.commute)
qed simp

lemma splice_at: "i + length ys \<le> length xs \<Longrightarrow> splice i ys xs = take i xs @ ys @ drop (i + length ys) xs"
  by (simp add: splice_def)

lemma splice_adjacent:
  assumes "k = i + length ys" and "k + length zs \<le> length xs"
  shows "splice k zs (splice i ys xs) = splice i (ys @ zs) xs" "splice i ys (splice k zs xs) = splice i (ys @ zs) xs"
  using assms by (auto intro!: nth_equalityI simp: nth_splice nth_append)

text \<open>Splicing a block into, and out of, an array of blocks.\<close>

lemma chunks_insert:
  assumes "pos \<le> n" and "Suc n * st \<le> length xs" and "length e = st"
  shows "chunks st (Suc n) (splice (pos * st) (e @ slc (pos * st) (n * st) xs) xs)
       = take pos (chunks st n xs) @ e # drop pos (chunks st n xs)"
proof -
  let ?c = "take pos (chunks st n xs) @ e # drop pos (chunks st n xs)"
  have le: "pos * st \<le> n * st" "n * st \<le> length xs" using assms(1,2) by auto
  have low: "pos * st \<le> length xs" using le by (rule order_trans)
  have "slc (pos * st) (n * st) xs = concat (drop pos (chunks st n xs))"
    using assms(1) le by (simp add: drop_chunks concat_chunks slc_def diff_mult_distrib)
  moreover have "take (pos * st) xs = concat (take pos (chunks st n xs))"
    using assms(1) low by (simp add: take_chunks concat_chunks)
  moreover have "splice (pos * st) (e @ slc (pos * st) (n * st) xs) xs
      = take (pos * st) xs @ (e @ slc (pos * st) (n * st) xs) @ drop (pos * st + (st + (n * st - pos * st))) xs"
    using assms le low by (subst splice_at) simp_all
  ultimately have "splice (pos * st) (e @ slc (pos * st) (n * st) xs) xs
      = concat ?c @ drop (pos * st + (st + (n * st - pos * st))) xs"
    by simp
  moreover have "\<forall>b \<in> set ?c. length b = st"
    using chunk_length [OF le(2)] assms(3) by (auto dest: in_set_takeD in_set_dropD)
  moreover have "length ?c = Suc n" using assms(1) by simp
  ultimately show ?thesis using chunks_concat [of ?c st] by metis
qed

lemma chunks_remove:
  assumes "pos < n" and "n * st \<le> length xs"
  shows "chunks st (n - 1) (splice (pos * st) (slc (pos * st + st) (n * st) xs) xs)
       = take pos (chunks st n xs) @ drop (Suc pos) (chunks st n xs)"
proof -
  let ?c = "take pos (chunks st n xs) @ drop (Suc pos) (chunks st n xs)"
  have "Suc pos * st \<le> n * st" using assms(1) by (intro mult_le_mono1) simp
  then have le: "pos * st + st \<le> n * st" by simp
  have low: "pos * st \<le> length xs" using le assms(2) by linarith
  have "slc (pos * st + st) (n * st) xs = concat (drop (Suc pos) (chunks st n xs))"
    using assms le by (simp add: drop_chunks concat_chunks slc_def diff_mult_distrib add.commute)
  moreover have "take (pos * st) xs = concat (take pos (chunks st n xs))"
    using assms low by (simp add: take_chunks concat_chunks)
  moreover have "splice (pos * st) (slc (pos * st + st) (n * st) xs) xs
      = take (pos * st) xs @ slc (pos * st + st) (n * st) xs @ drop (pos * st + (n * st - (pos * st + st))) xs"
    using assms le low by (subst splice_at) simp_all
  ultimately have "splice (pos * st) (slc (pos * st + st) (n * st) xs) xs
      = concat ?c @ drop (pos * st + (n * st - (pos * st + st))) xs"
    by simp
  moreover have "\<forall>b \<in> set ?c. length b = st"
    using chunk_length [OF assms(2)] by (auto dest: in_set_takeD in_set_dropD)
  moreover have "length ?c = n - 1" using assms(1) by simp
  ultimately show ?thesis using chunks_concat [of ?c st] by metis
qed

end
