(* ===== verification/Leaf_Spec.thy ===== *)
theory Leaf_Spec
  imports Index_Leaf
begin

text \<open>
  What the leaf operations do to the list of entries a leaf holds: an insertion puts the entry
  behind every key that is not greater and leaves the others alone, a removal takes out the first
  entry with that reference, and both keep the leaf in key order.
\<close>

definition leafEntries :: "indexLeaf \<Rightarrow> byte list \<Rightarrow> (byte list \<times> RecordID) list" where
  "leafEntries l p = map (\<lambda>i. (leafKey l p i, leafRef l p i)) [0..<leafCount p]"

definition leafEntry :: "nat \<Rightarrow> byte list \<Rightarrow> byte list \<times> RecordID" where
  "leafEntry ks b = (take ks b, \<lparr>ridPage = sint (getU32 b ks), ridSlot = uint (getU16 b (ks + 4))\<rparr>)"

definition entryBytes :: "byte list \<Rightarrow> RecordID \<Rightarrow> byte list" where
  "entryBytes key rid = key @ leU32 (uint32 (ridPage rid)) @ leU16 (word_of_int (ridSlot rid))"

definition storable_ref :: "RecordID \<Rightarrow> bool" where
  "storable_ref rid \<longleftrightarrow> 0 \<le> ridPage rid \<and> ridPage rid < 2 ^ 31 \<and> 0 \<le> ridSlot rid \<and> ridSlot rid < 2 ^ 16"

definition leaf_ok :: "indexLeaf \<Rightarrow> byte list \<Rightarrow> bool" where
  "leaf_ok l p \<longleftrightarrow> leafStride l = leafKeySize l + leafEntrySuffixSize \<and> leafKeySize l = keyWidth (leafComponents l)
     \<and> leafEnd l p \<le> length p \<and> length p < 2 ^ 16"

lemma entry_reads_back:
  assumes "length key = ks" and "storable_ref rid"
  shows "leafEntry ks (entryBytes key rid) = (key, rid)"
proof -
  have "sint (uint32 (ridPage rid)) = ridPage rid" using assms(2) by (simp add: int32_id storable_ref_def)
  moreover have "uint (word_of_int (ridSlot rid) :: u16) = ridSlot rid"
    using assms(2) by (simp add: storable_ref_def uint_word_of_int)
  ultimately show ?thesis
    using assms(1) by (simp add: leafEntry_def entryBytes_def get_append)
qed

lemma count_bound: "leaf_ok l p \<Longrightarrow> leafCount p * leafStride l + 18 \<le> length p"
  by (auto simp: leaf_ok_def leafEnd_def btreeHeaderSize_def)

lemma leaf_ok_count:
  "leaf_ok l p \<Longrightarrow> length p' = length p \<Longrightarrow> 18 + leafCount p' * leafStride l \<le> length p \<Longrightarrow> leaf_ok l p'"
  by (simp add: leaf_ok_def leafEnd_def btreeHeaderSize_def)

lemma count_small: "leaf_ok l p \<Longrightarrow> Suc (leafCount p) < 2 ^ 16"
proof -
  assume ok: "leaf_ok l p"
  have "leafCount p * 1 \<le> leafCount p * leafStride l"
    using ok by (intro mult_le_mono2) (simp add: leaf_ok_def leafEntrySuffixSize_def)
  then show ?thesis using count_bound [OF ok] ok unfolding leaf_ok_def by linarith
qed

lemma leafEntries_chunks:
  assumes "leaf_ok l p"
  shows "leafEntries l p = map (leafEntry (leafKeySize l)) (chunks (leafStride l) (leafCount p) (drop 18 p))"
proof -
  have "(leafKey l p i, leafRef l p i) = leafEntry (leafKeySize l) (slc (i * leafStride l) (i * leafStride l + leafStride l) (drop 18 p))"
    if i: "i < leafCount p" for i
  proof -
    let ?m = "18 + i * leafStride l"
    have b: "slc (i * leafStride l) (i * leafStride l + leafStride l) (drop 18 p) = slc ?m (?m + leafStride l) p"
      by (simp add: slc_def add.commute)
    have st: "leafStride l = leafKeySize l + 6" using assms by (simp add: leaf_ok_def leafEntrySuffixSize_def)
    have "take (leafKeySize l) (slc ?m (?m + leafStride l) p) = slc ?m (?m + leafKeySize l) p"
      using st by (simp add: slc_def)
    moreover have "getU32 (slc ?m (?m + leafStride l) p) (leafKeySize l) = getU32 p (?m + leafKeySize l)"
      "getU16 (slc ?m (?m + leafStride l) p) (leafKeySize l + 4) = getU16 p (?m + (leafKeySize l + 4))"
      using st by (intro get_slc; simp)+
    ultimately show ?thesis
      unfolding b by (simp add: leafEntry_def leafKey_def leafRef_def leafOffset_def btreeHeaderSize_def Let_def add.assoc)
  qed
  then show ?thesis by (simp add: leafEntries_def chunks_def)
qed

lemma leafEntries_of:
  "leaf_ok l p \<Longrightarrow> leafCount p = n \<Longrightarrow> chunks (leafStride l) n (drop 18 p) = c \<Longrightarrow> leafEntries l p = map (leafEntry (leafKeySize l)) c"
  using leafEntries_chunks [of l p] by simp

lemma slc_drop: "slc a b (drop k xs) = slc (k + a) (k + b) xs"
  by (simp add: slc_def add.commute)

lemma length_leafEntries [simp]: "length (leafEntries l p) = leafCount p"
  by (simp add: leafEntries_def)

lemma nth_leafEntries: "i < leafCount p \<Longrightarrow> leafEntries l p ! i = (leafKey l p i, leafRef l p i)"
  by (simp add: leafEntries_def)

lemma hasKey_entries:
  "hasKey lib l p key \<longleftrightarrow> (\<exists>x \<in> set (leafEntries l p). compareIndexKeys lib (fst x) key (leafComponents l) = 0)"
  by (auto simp: hasKey_def leafEntries_def list_ex_iff)

text \<open>A loop that stops at the first entry with a property stops behind the entries without it.\<close>

lemma find_first:
  assumes "\<And>i. i < length xs \<Longrightarrow> f i \<longleftrightarrow> P (xs ! i)"
  shows "find f [0..<length xs] = (let k = length (takeWhile (\<lambda>x. \<not> P x) xs) in if k < length xs then Some k else None)"
proof -
  let ?k = "length (takeWhile (\<lambda>x. \<not> P x) xs)"
  show ?thesis
  proof (cases "?k < length xs")
    case True
    have "f ?k" using assms [OF True] nth_length_takeWhile [OF True] by simp
    moreover have "\<not> f j" if "j < ?k" for j
      using that assms [of j] True by (metis (lifting) nth_mem order_less_trans set_takeWhileD takeWhile_nth)
    ultimately show ?thesis
      using True by (auto simp: find_Some_iff intro!: exI [of _ ?k])
  next
    case False
    then have "takeWhile (\<lambda>x. \<not> P x) xs = xs"
      by (metis length_takeWhile_le linorder_not_less order.antisym takeWhile_eq_take take_all)
    then have "\<forall>x \<in> set xs. \<not> P x" by (metis set_takeWhileD)
    then have "\<forall>i < length xs. \<not> f i" using assms by simp
    then show ?thesis using False by (simp add: find_None_iff)
  qed
qed

lemma count_setCount: "16 \<le> length p \<Longrightarrow> n < 2 ^ 16 \<Longrightarrow> leafCount (setCount n p) = n"
  by (simp add: leafCount_def setCount_def unat_of_nat)

lemma drop_setCount: "drop 18 (setCount n p) = drop 18 p"
  by (rule nth_equalityI) (simp_all add: setCount_def nth_splice)

lemma length_setCount [simp]: "length (setCount n p) = length p"
  by (simp add: setCount_def)

lemma drop_splice_behind: "k \<le> i \<Longrightarrow> drop k (splice i ys xs) = splice (i - k) ys (drop k xs)"
  by (rule nth_equalityI) (auto simp: nth_splice add.commute)

lemma splice_entry:
  assumes "length key = ks" and "off + ks + 6 \<le> length p"
  shows "splice (off + ks + 4) (leU16 w) (splice (off + ks) (leU32 v) (splice off key p)) = splice off (key @ leU32 v @ leU16 w) p"
proof -
  have "splice (off + ks) (leU32 v) (splice off key p) = splice off (key @ leU32 v) p"
    using assms by (intro splice_adjacent(1)) simp_all
  moreover have "splice (off + ks + 4) (leU16 w) (splice off (key @ leU32 v) p) = splice off ((key @ leU32 v) @ leU16 w) p"
    using assms by (intro splice_adjacent(1)) simp_all
  ultimately show ?thesis by simp
qed

lemma leafInsert_run:
  assumes ok: "leaf_ok l p" and room: "leafEnd l p + leafStride l \<le> length p"
    and key: "length key = leafKeySize l" and rid: "storable_ref rid"
  shows "leafInsert lib l key rid p = (let n = leafCount p; st = leafStride l;
      pos = length (takeWhile (\<lambda>x. compareIndexKeys lib (fst x) key (leafComponents l) \<le> 0) (leafEntries l p)) in
    Inr (setCount (Suc n) (splice (18 + pos * st) (entryBytes key rid @ slc (18 + pos * st) (18 + n * st) p) p)))"
proof -
  let ?st = "leafStride l" and ?n = "leafCount p" and ?xs = "drop 18 p" and ?e = "entryBytes key rid"
  let ?cmp = "\<lambda>a b. compareIndexKeys lib a b (leafComponents l)"
  let ?low = "takeWhile (\<lambda>x. ?cmp (fst x) key \<le> 0) (leafEntries l p)"
  let ?pos = "length ?low" and ?c = "chunks ?st ?n ?xs"
  let ?off = "18 + ?pos * ?st" and ?stop = "18 + ?n * ?st"
  have pos: "?pos \<le> ?n" using length_takeWhile_le [of _ "leafEntries l p"] by simp
  have "find (\<lambda>i. ?cmp (leafKey l p i) key > 0) [0..<?n] = (if ?pos < ?n then Some ?pos else None)"
    using find_first [of "leafEntries l p" "\<lambda>i. ?cmp (leafKey l p i) key > 0" "\<lambda>x. ?cmp (fst x) key > 0"]
    by (simp add: nth_leafEntries Let_def not_less)
  then have find: "(case find (\<lambda>i. ?cmp (leafKey l p i) key > 0) [0..<?n] of None \<Rightarrow> ?n | Some i \<Rightarrow> i) = ?pos"
    using pos by auto
  have st: "?st = leafKeySize l + 6" and e: "length ?e = ?st"
    using ok key by (auto simp: leaf_ok_def leafEntrySuffixSize_def entryBytes_def)
  have len: "18 + ?n * ?st + ?st \<le> length p" "?pos * ?st \<le> ?n * ?st"
    using room pos by (simp_all add: leafEnd_def btreeHeaderSize_def)
  let ?q = "splice ?off (?e @ slc ?off ?stop p) p"
  let ?p' = "setCount (Suc ?n) ?q"
  have q: "splice (?off + leafKeySize l + 4) (leU16 (word_of_int (ridSlot rid)))
      (splice (?off + leafKeySize l) (leU32 (uint32 (ridPage rid)))
      (splice ?off key (splice (?off + ?st) (slc ?off ?stop p) p))) = ?q"
  proof (rule trans [OF splice_entry [OF key]])
    show "?off + leafKeySize l + 6 \<le> length (splice (?off + ?st) (slc ?off ?stop p) p)"
      unfolding length_splice using len st by linarith
    show "splice ?off (key @ leU32 (uint32 (ridPage rid)) @ leU16 (word_of_int (ridSlot rid))) (splice (?off + ?st) (slc ?off ?stop p) p) = ?q"
      using len unfolding entryBytes_def [symmetric] by (intro splice_adjacent(2)) (simp_all add: e)
  qed
  show ?thesis
    using room rid key q find
    by (simp add: leafInsert_def leafRoom_def storable_ref_def leafOffset_def leafEnd_def btreeHeaderSize_def Let_def)
qed

theorem leafInsert_entries:
  assumes ok: "leaf_ok l p" and room: "leafEnd l p + leafStride l \<le> length p"
    and key: "length key = leafKeySize l" and rid: "storable_ref rid"
  shows "\<exists>p'. leafInsert lib l key rid p = Inr p' \<and> length p' = length p \<and> leaf_ok l p'
    \<and> leafEntries l p' = insertEntry (\<lambda>a b. compareIndexKeys lib a b (leafComponents l)) (key, rid) (leafEntries l p)
    \<and> take 14 p' = take 14 p \<and> slc 16 18 p' = slc 16 18 p"
proof -
  let ?st = "leafStride l" and ?n = "leafCount p" and ?xs = "drop 18 p" and ?e = "entryBytes key rid"
  let ?cmp = "\<lambda>a b. compareIndexKeys lib a b (leafComponents l)"
  let ?low = "takeWhile (\<lambda>x. ?cmp (fst x) key \<le> 0) (leafEntries l p)"
  let ?pos = "length ?low" and ?c = "chunks ?st ?n ?xs"
  let ?off = "18 + ?pos * ?st" and ?stop = "18 + ?n * ?st"
  have pos: "?pos \<le> ?n" using length_takeWhile_le [of _ "leafEntries l p"] by simp
  have st: "?st = leafKeySize l + 6" and e: "length ?e = ?st"
    using ok key by (auto simp: leaf_ok_def leafEntrySuffixSize_def entryBytes_def)
  have len: "18 + ?n * ?st + ?st \<le> length p" "?pos * ?st \<le> ?n * ?st"
    using room pos by (simp_all add: leafEnd_def btreeHeaderSize_def)
  let ?p' = "setCount (Suc ?n) (splice ?off (?e @ slc ?off ?stop p) p)"
  have run: "leafInsert lib l key rid p = Inr ?p'"
    using leafInsert_run [OF assms] by (simp only: Let_def)
  have cnt: "leafCount ?p' = Suc ?n"
    using count_small [OF ok] len by (intro count_setCount) simp_all
  have ok': "leaf_ok l ?p'"
    using len by (intro leaf_ok_count [OF ok]) (simp, unfold cnt, simp)
  have "drop 18 ?p' = splice (?pos * ?st) (?e @ slc (?pos * ?st) (?n * ?st) ?xs) ?xs"
    unfolding drop_setCount slc_drop by (subst drop_splice_behind) simp_all
  then have "chunks ?st (Suc ?n) (drop 18 ?p') = take ?pos ?c @ ?e # drop ?pos ?c"
    using chunks_insert [OF pos _ e, of ?xs] len by simp
  from leafEntries_of [OF ok' cnt this]
  have "leafEntries l ?p' = take ?pos (map (leafEntry (leafKeySize l)) ?c) @ (key, rid) # drop ?pos (map (leafEntry (leafKeySize l)) ?c)"
    using entry_reads_back [OF key rid] by (simp add: take_map drop_map)
  then have "leafEntries l ?p' = take ?pos (leafEntries l p) @ (key, rid) # drop ?pos (leafEntries l p)"
    unfolding leafEntries_chunks [OF ok, symmetric] .
  also have "\<dots> = insertEntry ?cmp (key, rid) (leafEntries l p)"
    by (simp add: insertEntry_def takeWhile_eq_take [symmetric] Let_def)
  finally have entries: "leafEntries l ?p' = insertEntry ?cmp (key, rid) (leafEntries l p)" .
  have "take 14 ?p' = take 14 p" "slc 16 18 ?p' = slc 16 18 p"
    by (auto intro!: nth_equalityI simp: setCount_def nth_splice nth_slc)
  then show ?thesis using run ok' entries by simp
qed

theorem leafRemove_entries:
  assumes ok: "leaf_ok l p" and es: "leafEntries l p = low @ (key, rid) # high" and new: "rid \<notin> snd ` set low"
  shows "\<exists>p'. leafRemove l rid p = Inr p' \<and> length p' = length p \<and> leaf_ok l p' \<and> leafEntries l p' = low @ high
    \<and> take 14 p' = take 14 p \<and> slc 16 18 p' = slc 16 18 p"
proof -
  let ?st = "leafStride l" and ?n = "leafCount p" and ?xs = "drop 18 p" and ?pos = "length low"
  let ?c = "chunks ?st ?n ?xs" and ?off = "18 + length low * leafStride l" and ?stop = "18 + leafCount p * leafStride l"
  have n: "?n = Suc (length low + length high)" using length_leafEntries [of l p] es by simp
  then have pos: "?pos < ?n" by simp
  have low: "takeWhile (\<lambda>x. snd x \<noteq> rid) (leafEntries l p) = low"
    using new by (simp add: es takeWhile_append) (metis (mono_tags, lifting) image_eqI takeWhile_eq_all_conv)
  have find: "find (\<lambda>i. leafRef l p i = rid) [0..<?n] = Some ?pos"
    using find_first [of "leafEntries l p" "\<lambda>i. leafRef l p i = rid" "\<lambda>x. snd x = rid"] low pos
    by (simp add: nth_leafEntries Let_def)
  have "Suc ?pos * ?st \<le> ?n * ?st" using pos by (intro mult_le_mono1) simp
  then have len: "?stop \<le> length p" "?pos * ?st + ?st \<le> ?n * ?st"
    using count_bound [OF ok] by simp_all
  let ?q = "splice ?off (slc (?off + ?st) ?stop p) p"
  let ?p' = "setCount (?n - 1) ?q"
  have run: "leafRemove l rid p = Inr ?p'"
    by (simp add: leafRemove_def find leafOffset_def leafEnd_def btreeHeaderSize_def Let_def)
  have cnt: "leafCount ?p' = ?n - 1"
    using count_small [OF ok] len by (intro count_setCount) simp_all
  have "(?n - 1) * ?st \<le> ?n * ?st" by (intro mult_le_mono1) simp
  then have ok': "leaf_ok l ?p'"
    using len(1) by (intro leaf_ok_count [OF ok]) (simp, unfold cnt, linarith)
  have "drop 18 ?p' = splice (?pos * ?st) (slc (?pos * ?st + ?st) (?n * ?st) ?xs) ?xs"
    unfolding drop_setCount slc_drop by (subst drop_splice_behind) (simp_all add: add.assoc)
  then have "chunks ?st (?n - 1) (drop 18 ?p') = take ?pos ?c @ drop (Suc ?pos) ?c"
    using chunks_remove [OF pos, of ?st ?xs] len by simp
  from leafEntries_of [OF ok' cnt this]
  have "leafEntries l ?p' = take ?pos (map (leafEntry (leafKeySize l)) ?c) @ drop (Suc ?pos) (map (leafEntry (leafKeySize l)) ?c)"
    by (simp add: take_map drop_map)
  then have "leafEntries l ?p' = take ?pos (leafEntries l p) @ drop (Suc ?pos) (leafEntries l p)"
    unfolding leafEntries_chunks [OF ok, symmetric] .
  then have entries: "leafEntries l ?p' = low @ high" by (simp add: es)
  have "take 14 ?p' = take 14 p" "slc 16 18 ?p' = slc 16 18 p"
    by (auto intro!: nth_equalityI simp: setCount_def nth_splice nth_slc)
  then show ?thesis using run ok' entries by simp
qed

end
