(* ===== verification/Tree_Search.thy ===== *)
theory Tree_Search
  imports Index_Tree
begin

text \<open>
  Well-formed index trees, the search on them, and the scan of their leaves.
\<close>

section \<open>Binary search\<close>

lemma sortSearch_spec:
  assumes "\<forall>m m'. m \<le> m' \<longrightarrow> m' < j \<longrightarrow> f m \<longrightarrow> f m'" and "i \<le> j"
  shows "i \<le> sortSearch f i j \<and> sortSearch f i j \<le> j
    \<and> (\<forall>m. i \<le> m \<longrightarrow> m < sortSearch f i j \<longrightarrow> \<not> f m) \<and> (\<forall>m. sortSearch f i j \<le> m \<longrightarrow> m < j \<longrightarrow> f m)"
  using assms
proof (induction f i j rule: sortSearch.induct)
  case (1 f i j)
  let ?h = "(i + j) div 2"
  show ?case
  proof (cases "i < j")
    case False
    then show ?thesis using 1(4) by (simp add: sortSearch.simps [of f j j])
  next
    case True
    then have h: "i \<le> ?h" "?h < j" by simp_all
    show ?thesis
    proof (cases "f ?h")
      case True
      have run: "sortSearch f i j = sortSearch f i ?h"
        using True \<open>i < j\<close> by (simp add: sortSearch.simps [of f i j] Let_def)
      have "\<forall>m m'. m \<le> m' \<longrightarrow> m' < ?h \<longrightarrow> f m \<longrightarrow> f m'"
        using 1(3) h(2) by (meson order_less_trans)
      note ih = "1.IH"(2) [OF \<open>i < j\<close> refl _ this h(1)]
      have "f m" if "?h \<le> m" "m < j" for m using 1(3) that True by blast
      then have "f m" if "sortSearch f i ?h \<le> m" "m < j" for m using ih True that by (meson leI)
      then show ?thesis unfolding run using ih True h by (meson less_imp_le order_trans)
    next
      case False
      have run: "sortSearch f i j = sortSearch f (?h + 1) j"
        using False \<open>i < j\<close> by (simp add: sortSearch.simps [of f i j] Let_def)
      have "?h + 1 \<le> j" using h by simp
      note ih = "1.IH"(1) [OF \<open>i < j\<close> refl False 1(3) this]
      have "\<not> f m" if "m \<le> ?h" for m using 1(3) that h(2) False by blast
      then have "\<not> f m" if "m < sortSearch f (?h + 1) j" for m
        using ih that by (cases "m \<le> ?h") simp_all
      then show ?thesis unfolding run using ih h by (meson le_add1 order_trans)
    qed
  qed
qed

lemma search_spec:
  assumes "\<forall>m m'. m \<le> m' \<longrightarrow> m' < n \<longrightarrow> f m \<longrightarrow> f m'"
  shows "search n f \<le> n" "m < search n f \<Longrightarrow> \<not> f m" "search n f \<le> m \<Longrightarrow> m < n \<Longrightarrow> f m"
  using sortSearch_spec [of n f 0] assms unfolding search_def by blast+

section \<open>Trees\<close>

definition entriesInOrder :: "(byte list \<Rightarrow> byte list \<Rightarrow> int) \<Rightarrow> BTreeEntry list \<Rightarrow> bool" where
  "entriesInOrder cmp es \<longleftrightarrow> sorted_wrt (\<lambda>a b. cmp (Key a) (Key b) \<le> 0) es"

text \<open>
  The pages below an index page: a leaf holds entries in key order; the keys of an internal
  node separate the subtrees its entries point at, the key of an entry being at most every key
  below it and greater than every key below the entries before it.
\<close>

inductive indexTree ::
    "dbfile \<Rightarrow> (byte list \<Rightarrow> byte list \<Rightarrow> int) \<Rightarrow> (byte list \<Rightarrow> bool) \<Rightarrow> nat \<Rightarrow> int \<Rightarrow> BTreeEntry list \<Rightarrow> bool"
  for db cmp valid where
  leaf: "indexPage db no = Inr (d, hdr) \<Longrightarrow> IsLeaf hdr \<Longrightarrow> readBTreeEntries d hdr = Inr es \<Longrightarrow>
    entriesInOrder cmp es \<Longrightarrow> \<forall>e \<in> set es. valid (Key e) \<Longrightarrow> indexTree db cmp valid 1 no es"
| node: "indexPage db no = Inr (d, hdr) \<Longrightarrow> \<not> IsLeaf hdr \<Longrightarrow> readBTreeEntries d hdr = Inr seps \<Longrightarrow>
    seps \<noteq> [] \<Longrightarrow> entriesInOrder cmp seps \<Longrightarrow> \<forall>e \<in> set seps. valid (Key e) \<Longrightarrow> length subs = length seps \<Longrightarrow>
    \<forall>i < length seps. indexTree db cmp valid n (PageNo (seps ! i)) (subs ! i) \<Longrightarrow>
    \<forall>i < length seps. \<forall>e \<in> set (subs ! i). valid (Key e)
      \<and> (i > 0 \<longrightarrow> cmp (Key (seps ! i)) (Key e) \<le> 0)
      \<and> (Suc i < length seps \<longrightarrow> cmp (Key (seps ! Suc i)) (Key e) > 0) \<Longrightarrow>
    indexTree db cmp valid (Suc n) no (concat subs)"

lemma tree_valid: "indexTree db cmp valid n no es \<Longrightarrow> \<forall>e \<in> set es. valid (Key e)"
proof (induction rule: indexTree.induct)
  case (node no d hdr seps subs n)
  then show ?case by (fastforce simp: in_set_conv_nth [of _ subs])
qed simp

lemma maxTreeDepth_value: "maxTreeDepth = 64"
  by (simp add: maxTreeDepth_def)

definition lookupKey :: "(byte list \<Rightarrow> byte list \<Rightarrow> int) \<Rightarrow> byte list \<Rightarrow> BTreeEntry list \<Rightarrow> BTreeEntry result" where
  "lookupKey cmp key es = (case find (\<lambda>e. cmp (Key e) key = 0) es of Some e \<Rightarrow> Inr e | None \<Rightarrow> Inl ErrKeyNotFound)"

lemma lookupKey_skip: "\<forall>e \<in> set xs. cmp (Key e) key \<noteq> 0 \<Longrightarrow> lookupKey cmp key (xs @ ys) = lookupKey cmp key ys"
  by (induction xs) (simp_all add: lookupKey_def)

lemma lookupKey_first: "\<forall>e \<in> set ys. cmp (Key e) key \<noteq> 0 \<Longrightarrow> lookupKey cmp key (xs @ ys) = lookupKey cmp key xs"
proof (induction xs)
  case Nil
  then show ?case using lookupKey_skip [of ys cmp key "[]"] by (simp add: lookupKey_def)
qed (simp add: lookupKey_def)

context key_order
begin

lemma in_order_mono:
  assumes "sorted_wrt (\<lambda>a b. cmp (k a) (k b) \<le> 0) es" and "\<forall>e \<in> set es. valid (k e)" and "valid key"
    and "m \<le> m'" "m' < length es"
  shows "cmp (k (es ! m)) key \<ge> 0 \<Longrightarrow> cmp (k (es ! m')) key \<ge> 0"
    and "cmp (k (es ! m)) key > 0 \<Longrightarrow> cmp (k (es ! m')) key > 0"
proof -
  have v: "valid (k (es ! m))" "valid (k (es ! m'))" using assms by auto
  have "cmp (k (es ! m)) (k (es ! m')) \<le> 0"
    using assms(1,4,5) v same by (cases "m = m'") (auto simp: sorted_wrt_iff_nth_less)
  note le = trans [OF assms(3) v _ this] trans [OF v assms(3) this]
  have f: "cmp key (k (es ! m)) = - cmp (k (es ! m)) key" "cmp key (k (es ! m')) = - cmp (k (es ! m')) key"
    by (rule flip [OF v(1) assms(3)], rule flip [OF v(2) assms(3)])
  show "cmp (k (es ! m)) key \<ge> 0 \<Longrightarrow> cmp (k (es ! m')) key \<ge> 0" using le(1) f by simp
  show "cmp (k (es ! m)) key > 0 \<Longrightarrow> cmp (k (es ! m')) key > 0" using le(2) by linarith
qed

end

locale search_order = key_order cmp valid
  for cmp :: "byte list \<Rightarrow> byte list \<Rightarrow> int" and valid :: "byte list \<Rightarrow> bool"
begin

text \<open>The binary search of a leaf gives its first entry with the key.\<close>

lemma leaf_lookup:
  assumes ord: "entriesInOrder cmp es" and v: "\<forall>e \<in> set es. valid (Key e)" and key: "valid key"
  shows "findInLeaf es key cmp = lookupKey cmp key es"
proof -
  let ?f = "\<lambda>i. cmp (Key (es ! i)) key \<ge> 0" and ?i = "search (length es) (\<lambda>i. cmp (Key (es ! i)) key \<ge> 0)"
  have mono: "\<forall>m m'. m \<le> m' \<longrightarrow> m' < length es \<longrightarrow> ?f m \<longrightarrow> ?f m'"
    using in_order_mono(1) [OF ord [unfolded entriesInOrder_def] v key] by blast
  note s = search_spec [of "length es" ?f, OF mono]
  have low: "cmp (Key (es ! m)) key \<noteq> 0" if "m < ?i" for m using s(2) [OF that] by simp
  show ?thesis
  proof (cases "?i < length es \<and> cmp (Key (es ! ?i)) key = 0")
    case True
    then have "find (\<lambda>e. cmp (Key e) key = 0) es = Some (es ! ?i)"
      using low by (subst find_Some_iff) blast
    then show ?thesis using True by (simp add: findInLeaf_def lookupKey_def Let_def)
  next
    case False
    have "cmp (Key (es ! m)) key \<noteq> 0" if m: "m < length es" for m
    proof (cases "m < ?i")
      case False
      then have i: "?i \<le> m" "?i < length es" using m by simp_all
      then have "cmp (Key (es ! ?i)) key > 0"
        using s(3) [of ?i] \<open>\<not> (?i < length es \<and> cmp (Key (es ! ?i)) key = 0)\<close> by simp
      then show ?thesis using in_order_mono(2) [OF ord [unfolded entriesInOrder_def] v key i(1) m] by simp
    qed (rule low)
    then have "find (\<lambda>e. cmp (Key e) key = 0) es = None" by (auto simp: find_None_iff in_set_conv_nth)
    then show ?thesis using False by (auto simp: findInLeaf_def lookupKey_def Let_def)
  qed
qed

text \<open>The child chosen is the only one below which the key can be.\<close>

lemma child_spec:
  assumes ord: "entriesInOrder cmp seps" and v: "\<forall>e \<in> set seps. valid (Key e)" and key: "valid key" and ne: "seps \<noteq> []"
  obtains j where "j < length seps" "childPageNo seps key cmp = PageNo (seps ! j)"
    "j > 0 \<Longrightarrow> cmp (Key (seps ! j)) key \<le> 0" "\<And>i. j < i \<Longrightarrow> i < length seps \<Longrightarrow> cmp (Key (seps ! i)) key > 0"
proof -
  let ?f = "\<lambda>i. cmp (Key (seps ! i)) key > 0" and ?i = "search (length seps) (\<lambda>i. cmp (Key (seps ! i)) key > 0)"
  have mono: "\<forall>m m'. m \<le> m' \<longrightarrow> m' < length seps \<longrightarrow> ?f m \<longrightarrow> ?f m'"
    using in_order_mono(2) [OF ord [unfolded entriesInOrder_def] v key] by blast
  note s = search_spec [of "length seps" ?f, OF mono]
  have "0 < length seps" using ne by simp
  then have "?i - 1 < length seps" using s(1) by linarith
  then show ?thesis
  proof (rule that)
    show "childPageNo seps key cmp = PageNo (seps ! (?i - 1))"
      by (simp add: childPageNo_def Let_def)
    show "?i - 1 > 0 \<Longrightarrow> cmp (Key (seps ! (?i - 1))) key \<le> 0" using s(2) [of "?i - 1"] by simp
    show "cmp (Key (seps ! i)) key > 0" if "?i - 1 < i" "i < length seps" for i using s(3) [of i] that by linarith
  qed
qed

lemma tree_lookup:
  assumes "indexTree db cmp valid n no es" and "valid key" and "n \<le> m"
  shows "searchFrom m db key cmp no = lookupKey cmp key es"
  using assms(1,3)
proof (induction n no es arbitrary: m rule: indexTree.induct)
  case (leaf no d hdr es)
  then obtain k where "m = Suc k" by (cases m) auto
  then show ?case using leaf leaf_lookup [OF leaf(4,5) assms(2)] by simp
next
  case (node no d hdr seps subs n)
  obtain k where m: "m = Suc k" "n \<le> k" using node.prems by (cases m) auto
  obtain j where j: "j < length seps" "childPageNo seps key cmp = PageNo (seps ! j)"
    "j > 0 \<Longrightarrow> cmp (Key (seps ! j)) key \<le> 0" "\<And>i. j < i \<Longrightarrow> i < length seps \<Longrightarrow> cmp (Key (seps ! i)) key > 0"
    using child_spec [OF node.hyps(5,6) assms(2) node.hyps(4)] by metis
  have vs: "valid (Key (seps ! i))" if "i < length seps" for i using node.hyps(6) that by simp
  have sep: "valid (Key e)" "i > 0 \<Longrightarrow> cmp (Key (seps ! i)) (Key e) \<le> 0"
    "Suc i < length seps \<Longrightarrow> cmp (Key (seps ! Suc i)) (Key e) > 0"
    if "i < length seps" "e \<in> set (subs ! i)" for i e
    using node.hyps(8) [rule_format, OF that] by simp_all
  have other: "cmp (Key e) key \<noteq> 0" if i: "i < length seps" "i \<noteq> j" and e: "e \<in> set (subs ! i)" for i e
  proof (cases "i < j")
    case True
    then have "cmp (Key (seps ! Suc i)) (Key (seps ! j)) \<le> 0"
      using node.hyps(5) j(1) same vs by (cases "Suc i = j") (auto simp: entriesInOrder_def sorted_wrt_iff_nth_less)
    moreover have "Suc i < length seps" "cmp (Key (seps ! j)) key \<le> 0" using True j(1,3) by simp_all
    ultimately have "cmp (Key (seps ! Suc i)) key \<le> 0" "cmp (Key (seps ! Suc i)) (Key e) > 0"
      using trans [OF vs vs assms(2)] j(1) sep(3) [OF i(1) e] by blast+
    then have "\<not> cmp key (Key e) \<le> 0"
      using trans [OF vs [OF \<open>Suc i < length seps\<close>] assms(2) sep(1) [OF i(1) e]] by linarith
    then show ?thesis using flip [OF assms(2) sep(1) [OF i(1) e]] by linarith
  next
    case False
    then have "cmp (Key (seps ! i)) key > 0" "cmp (Key (seps ! i)) (Key e) \<le> 0"
      using j(4) [of i] sep(2) [OF i(1) e] i by auto
    then show ?thesis using trans [OF vs [OF i(1)] sep(1) [OF i(1) e] assms(2)] by linarith
  qed
  have "concat subs = concat (take j subs) @ subs ! j @ concat (drop (Suc j) subs)"
    using j(1) node.hyps(7) by (metis concat.simps(2) concat_append id_take_nth_drop)
  moreover have "cmp (Key e) key \<noteq> 0" if e: "e \<in> set (concat (take j subs))" for e
  proof -
    from e obtain i where "i < j" "e \<in> set (subs ! i)" by (auto simp: in_set_conv_nth [of _ "take j subs"])
    then show ?thesis using other [of i e] j(1) by simp
  qed
  moreover have "cmp (Key e) key \<noteq> 0" if e: "e \<in> set (concat (drop (Suc j) subs))" for e
  proof -
    from e obtain i where i: "i < length subs - Suc j" "e \<in> set (subs ! (Suc j + i))"
      by (auto simp: in_set_conv_nth [of _ "drop (Suc j) subs"])
    have "Suc j + i < length seps" "Suc j + i \<noteq> j" using i(1) node.hyps(7) by simp_all
    from other [OF this i(2)] show ?thesis .
  qed
  ultimately have "lookupKey cmp key (concat subs) = lookupKey cmp key (subs ! j)"
    by (simp add: lookupKey_skip lookupKey_first)
  moreover have "searchFrom k db key cmp (PageNo (seps ! j)) = lookupKey cmp key (subs ! j)"
    using node.IH j(1) m(2) by simp
  ultimately show ?case using node.hyps(2) j(2) by (simp add: m(1) node.hyps(1,3,4))
qed

end

interpretation int32Search: search_order compareInt32Keys "\<lambda>k. 5 \<le> length k"
  by (rule search_order.intro [OF int32Keys.key_order_axioms])

interpretation stringSearch: search_order "\<lambda>a b. compareStringKeys lib a b nocase" "\<lambda>k. collates lib \<and> k \<noteq> []" for lib nocase
proof (rule search_order.intro)
  show "key_order (\<lambda>a b. compareStringKeys lib a b nocase) (\<lambda>k. collates lib \<and> k \<noteq> [])"
  proof (cases "collates lib")
    case True
    then show ?thesis using collated_order [OF True, of nocase] by simp
  qed (unfold_locales, simp_all)
qed

end
