(* ===== verification/Index_Build.thy ===== *)
theory Index_Build
  imports Tree_Search
begin

text \<open>
  Building an index from the rows of a table (\<open>buildIndexLeafEntries\<close>,
  \<open>writeIndexLeafOfSize\<close> and \<open>refuseDuplicateEntries\<close> of \<open>ddl_index.go\<close>), and what it has in
  common with inserting the rows one after another: the leaf is the same, byte for byte.
\<close>

section \<open>The rows' keys\<close>

fun indexRows :: "nat \<Rightarrow> indexKeyComponent list \<Rightarrow> reader \<Rightarrow> (BTreeEntry list \<times> reader) result" where
  "indexRows 0 cs r = Inr ([], r)"
| "indexRows (Suc fuel) cs r = (case Next r of
     (False, r1) \<Rightarrow> Inr ([], r1)
   | (True, r1) \<Rightarrow> (case readerRecordID r1 of
         None \<Rightarrow> Inl ErrBadLayout
       | Some (no, slot) \<Rightarrow> bindR (indexRows fuel cs r1) (\<lambda>(es, r2).
           Inr (\<lparr>Key = indexKeyOf (rdLayout r1) (currentRecord r1) cs, PageNo = int32 (int no),
             ItemNo = word_of_nat slot\<rparr> # es, r2))))"

text \<open>\<open>sort.SliceStable\<close>: an element goes behind those it is not less than, in the order of the slice.\<close>

fun insertStable :: "('a \<Rightarrow> 'a \<Rightarrow> bool) \<Rightarrow> 'a \<Rightarrow> 'a list \<Rightarrow> 'a list" where
  "insertStable before x [] = [x]"
| "insertStable before x (y # ys) = (if before x y then x # y # ys else y # insertStable before x ys)"

definition sortStable :: "('a \<Rightarrow> 'a \<Rightarrow> bool) \<Rightarrow> 'a list \<Rightarrow> 'a list" where
  "sortStable before xs = fold (insertStable before) xs []"

definition keyLess :: "textlib \<Rightarrow> indexKeyComponent list \<Rightarrow> BTreeEntry \<Rightarrow> BTreeEntry \<Rightarrow> bool" where
  "keyLess lib cs a b \<longleftrightarrow> compareIndexKeys lib (Key a) (Key b) cs < 0"

text \<open>The loop over \<open>Next\<close> returns at most one row per slot of every page, and then ends.\<close>

definition buildIndexLeafEntries :: "textlib \<Rightarrow> indexKeyComponent list \<Rightarrow> reader \<Rightarrow> BTreeEntry list result" where
  "buildIndexLeafEntries lib cs r =
     bindR (indexRows (Suc (length (dataPages r) * recsPerPage (rdLayout r))) cs r) (\<lambda>(es, r').
       case rdErr r' of Some e \<Rightarrow> Inl e | None \<Rightarrow> Inr (sortStable (keyLess lib cs) es))"

fun refuseDuplicateEntries :: "textlib \<Rightarrow> indexKeyComponent list \<Rightarrow> BTreeEntry list \<Rightarrow> unit result" where
  "refuseDuplicateEntries lib cs (a # b # es) =
     (if compareIndexKeys lib (Key a) (Key b) cs = 0 then Inl ErrDuplicateKey
      else refuseDuplicateEntries lib cs (b # es))"
| "refuseDuplicateEntries lib cs es = Inr ()"

section \<open>The leaf page\<close>

definition leafHeader :: "nat \<Rightarrow> nat \<Rightarrow> byte list" where
  "leafHeader keySize n = [1, 1] @ leU32 noPageNo @ leU32 noPageNo @ [1, 0]
     @ leU16 (word_of_nat keySize) @ leU16 (word_of_nat n) @ leU16 0"

fun putEntries :: "nat \<Rightarrow> nat \<Rightarrow> BTreeEntry list \<Rightarrow> byte list \<Rightarrow> byte list" where
  "putEntries keySize i [] p = p"
| "putEntries keySize i (e # es) p =
     (let off = btreeHeaderSize + i * (keySize + leafEntrySuffixSize);
          p1 = splice off (take keySize (Key e)) p;
          p2 = splice (off + keySize) (leU32 (uint32 (PageNo e))) p1 in
      putEntries keySize (Suc i) es (splice (off + keySize + 4) (leU16 (ItemNo e)) p2))"

definition leafPayload :: "nat \<Rightarrow> BTreeEntry list \<Rightarrow> byte list \<Rightarrow> byte list result" where
  "leafPayload keySize entries p =
     (if btreeHeaderSize + length entries * (keySize + leafEntrySuffixSize) > length p then Inl ErrIndexTooManyRows
      else Inr (putEntries keySize 0 entries (splice 0 (leafHeader keySize (length entries)) p)))"

text \<open>Editing the payload of a loaded page; the page is dirty when the edit succeeded.\<close>

definition onPayload :: "nat \<Rightarrow> (byte list \<Rightarrow> byte list result) \<Rightarrow> ('x edit_scheme, unit) op" where
  "onPayload k f = bindO (getO (bufAt k)) (\<lambda>b.
     bindO (liftO (f (bufPayload b))) (\<lambda>p. updBuf k (\<lambda>b. (setPayload p b)\<lparr>dirty := True\<rparr>)))"

definition writeIndexLeafOfSize :: "int \<Rightarrow> nat \<Rightarrow> BTreeEntry list \<Rightarrow> ('x edit_scheme, unit) op" where
  "writeIndexLeafOfSize pageNo keySize entries =
     bindO (load pageNo) (\<lambda>k. onPayload k (leafPayload keySize entries))"

section \<open>A leaf is its header and its entries\<close>

lemma length_leafHeader [simp]: "length (leafHeader ks n) = 18"
  by (simp add: leafHeader_def)

definition refOf :: "BTreeEntry \<Rightarrow> RecordID" where
  "refOf e = \<lparr>ridPage = PageNo e, ridSlot = uint (ItemNo e)\<rparr>"

definition bytesOf :: "BTreeEntry \<Rightarrow> byte list" where
  "bytesOf e = entryBytes (Key e) (refOf e)"

lemma bytesOf_alt: "bytesOf e = Key e @ leU32 (uint32 (PageNo e)) @ leU16 (ItemNo e)"
  by (simp add: bytesOf_def entryBytes_def refOf_def)

lemma putEntries_bytes:
  assumes "\<forall>e \<in> set es. length (Key e) = ks" and "18 + (i + length es) * (ks + 6) \<le> length p"
  shows "putEntries ks i es p = splice (18 + i * (ks + 6)) (concat (map bytesOf es)) p"
  using assms
proof (induction es arbitrary: i p)
  case Nil
  then show ?case by (simp add: splice_def)
next
  case (Cons e es)
  let ?off = "18 + i * (ks + 6)"
  have len: "length (bytesOf e) = ks + 6" using Cons.prems(1) by (simp add: bytesOf_alt)
  have tail: "length (concat (map bytesOf es)) = length es * (ks + 6)"
    using Cons.prems(1) by (induction es) (simp_all add: bytesOf_alt)
  have room: "?off + (ks + 6) + length es * (ks + 6) \<le> length p"
    using Cons.prems(2) by (simp add: algebra_simps)
  have one: "splice (?off + ks + 4) (leU16 (ItemNo e)) (splice (?off + ks) (leU32 (uint32 (PageNo e))) (splice ?off (Key e) p))
      = splice ?off (bytesOf e) p"
    unfolding bytesOf_alt using Cons.prems(1) room by (intro splice_entry) simp_all
  have "putEntries ks i (e # es) p = putEntries ks (Suc i) es (splice ?off (bytesOf e) p)"
    using Cons.prems(1) one by (simp add: Let_def btreeHeaderSize_def leafEntrySuffixSize_def)
  also have "\<dots> = splice (18 + Suc i * (ks + 6)) (concat (map bytesOf es)) (splice ?off (bytesOf e) p)"
    using Cons.prems room by (intro Cons.IH) (simp_all add: algebra_simps)
  also have "\<dots> = splice ?off (bytesOf e @ concat (map bytesOf es)) p"
    using room tail by (intro splice_adjacent(1)) (simp_all add: len)
  finally show ?case by simp
qed

lemma leafPayload_bytes:
  assumes "\<forall>e \<in> set es. length (Key e) = ks" and "18 + length es * (ks + 6) \<le> length p"
  shows "leafPayload ks es p = Inr (leafHeader ks (length es) @ concat (map bytesOf es) @ drop (18 + length es * (ks + 6)) p)"
proof -
  have tail: "length (concat (map bytesOf es)) = length es * (ks + 6)"
    using assms(1) by (induction es) (simp_all add: bytesOf_alt)
  have "putEntries ks 0 es (splice 0 (leafHeader ks (length es)) p)
      = splice 18 (concat (map bytesOf es)) (splice 0 (leafHeader ks (length es)) p)"
    using putEntries_bytes [OF assms(1), of 0 "splice 0 (leafHeader ks (length es)) p"] assms(2) by simp
  also have "\<dots> = leafHeader ks (length es) @ concat (map bytesOf es) @ drop (18 + length es * (ks + 6)) p"
    using assms(2) tail by (subst splice_at) (simp_all add: add.commute)
  finally show ?thesis
    using assms(2) by (simp add: leafPayload_def btreeHeaderSize_def leafEntrySuffixSize_def)
qed

text \<open>The payload of a leaf that holds these entries, in front of whatever the page held behind them.\<close>

definition leafBytes :: "nat \<Rightarrow> BTreeEntry list \<Rightarrow> byte list \<Rightarrow> byte list" where
  "leafBytes ks es rest = leafHeader ks (length es) @ concat (map bytesOf es) @ rest"

definition sized :: "nat \<Rightarrow> BTreeEntry list \<Rightarrow> bool" where
  "sized ks es \<longleftrightarrow> (\<forall>e \<in> set es. length (Key e) = ks \<and> storable_ref (refOf e))"

lemma sized_simps [simp]:
  "sized ks []" "sized ks (e # es) \<longleftrightarrow> length (Key e) = ks \<and> storable_ref (refOf e) \<and> sized ks es"
  "sized ks (xs @ ys) \<longleftrightarrow> sized ks xs \<and> sized ks ys"
  by (auto simp: sized_def)

lemma length_blocks: "sized ks es \<Longrightarrow> length (concat (map bytesOf es)) = length es * (ks + 6)"
  by (induction es) (simp_all add: bytesOf_alt)

definition leafFixed :: "nat \<Rightarrow> byte list" where
  "leafFixed ks = [1, 1] @ leU32 noPageNo @ leU32 noPageNo @ [1, 0] @ leU16 (word_of_nat ks)"

lemma leafHeader_split: "leafHeader ks n = leafFixed ks @ leU16 (word_of_nat n) @ leU16 0" "length (leafFixed ks) = 14"
  by (simp_all add: leafHeader_def leafFixed_def)

lemma leafBytes_count:
  assumes "length es < 2 ^ 16"
  shows "leafCount (leafBytes ks es rest) = length es"
proof -
  have "getU16 (leafBytes ks es rest) 14 = getU16 (leafHeader ks (length es)) 14"
    by (simp add: leafBytes_def get_append)
  also have "\<dots> = word_of_nat (length es)"
    by (simp add: leafHeader_split get_append)
  finally show ?thesis using assms by (simp add: leafCount_def unat_of_nat)
qed

lemma leafBytes_setCount:
  "setCount (length es') (leafHeader ks (length es) @ xs) = leafHeader ks (length es') @ xs"
  by (simp add: setCount_def leafHeader_split splice_at)

lemma leafBytes_ok:
  assumes "sized ks es" and "length (leafBytes ks es rest) < 2 ^ 16"
    and "leafStride l = ks + 6" "leafKeySize l = ks" "ks = keyWidth (leafComponents l)"
  shows "leaf_ok l (leafBytes ks es rest)" and "leafCount (leafBytes ks es rest) = length es"
    and "leafEntries l (leafBytes ks es rest) = map (\<lambda>e. (Key e, refOf e)) es"
proof -
  have len: "18 + length es * (ks + 6) \<le> length (leafBytes ks es rest)"
    using length_blocks [OF assms(1)] by (simp add: leafBytes_def)
  moreover have "length es * 1 \<le> length es * (ks + 6)" by (intro mult_le_mono2) simp
  ultimately show cnt: "leafCount (leafBytes ks es rest) = length es"
    using assms(2) by (intro leafBytes_count) linarith
  show ok: "leaf_ok l (leafBytes ks es rest)"
    using len assms cnt by (simp add: leaf_ok_def leafEnd_def btreeHeaderSize_def leafEntrySuffixSize_def)
  have "\<forall>b \<in> set (map bytesOf es). length b = ks + 6"
    using assms(1) by (auto simp: sized_def bytesOf_alt)
  from chunks_concat [OF this, of rest]
  have "chunks (ks + 6) (length es) (drop 18 (leafBytes ks es rest)) = map bytesOf es"
    by (simp add: leafBytes_def)
  then have "leafEntries l (leafBytes ks es rest) = map (leafEntry ks) (map bytesOf es)"
    using leafEntries_of [OF ok cnt] assms(3,4) by simp
  also have "\<dots> = map (\<lambda>e. (Key e, refOf e)) es"
    using assms(1) by (auto simp: sized_def bytesOf_def entry_reads_back)
  finally show "leafEntries l (leafBytes ks es rest) = map (\<lambda>e. (Key e, refOf e)) es" .
qed

text \<open>Inserting into such a payload gives the payload of the longer list.\<close>

lemma bytesOf_ref: "storable_ref rid \<Longrightarrow> bytesOf \<lparr>Key = key, PageNo = ridPage rid, ItemNo = word_of_int (ridSlot rid)\<rparr> = entryBytes key rid"
  by (simp add: bytesOf_alt entryBytes_def)

lemma insertStable_parts:
  "insertStable before x xs = takeWhile (\<lambda>y. \<not> before x y) xs @ x # dropWhile (\<lambda>y. \<not> before x y) xs"
  by (induction xs) auto

lemma leafInsert_bytes:
  assumes es: "sized ks es" and e: "length (Key e) = ks" "storable_ref (refOf e)" and rest: "ks + 6 \<le> length rest"
    and len: "length (leafBytes ks es rest) < 2 ^ 16"
    and l: "leafStride l = ks + 6" "leafKeySize l = ks" "ks = keyWidth (leafComponents l)"
    and ord: "\<forall>x \<in> set es. keyLess lib (leafComponents l) e x \<longleftrightarrow> compareIndexKeys lib (Key x) (Key e) (leafComponents l) > 0"
  shows "leafInsert lib l (Key e) (refOf e) (leafBytes ks es rest)
    = Inr (leafBytes ks (insertStable (keyLess lib (leafComponents l)) e es) (drop (ks + 6) rest))"
proof -
  let ?p = "leafBytes ks es rest" and ?low = "takeWhile (\<lambda>y. \<not> keyLess lib (leafComponents l) e y) es"
  let ?high = "dropWhile (\<lambda>y. \<not> keyLess lib (leafComponents l) e y) es"
  note ok = leafBytes_ok [OF es len l]
  have "takeWhile (\<lambda>x. compareIndexKeys lib (fst x) (Key e) (leafComponents l) \<le> 0) (leafEntries l ?p)
      = map (\<lambda>e. (Key e, refOf e)) (takeWhile (\<lambda>x. compareIndexKeys lib (Key x) (Key e) (leafComponents l) \<le> 0) es)"
    unfolding ok(3) by (simp add: takeWhile_map comp_def)
  also have "takeWhile (\<lambda>x. compareIndexKeys lib (Key x) (Key e) (leafComponents l) \<le> 0) es = ?low"
    by (rule takeWhile_cong [OF refl]) (simp only: bspec [OF ord] not_less)
  finally have pos: "length (takeWhile (\<lambda>x. compareIndexKeys lib (fst x) (Key e) (leafComponents l) \<le> 0) (leafEntries l ?p)) = length ?low"
    by simp
  have s: "sized ks ?low" "sized ks ?high"
    using es by (auto simp: sized_def dest: set_takeWhileD set_dropWhileD)
  have n: "length ?low + length ?high = length es" by (metis length_append takeWhile_dropWhile_id)
  let ?c = "\<lambda>xs. concat (map bytesOf xs)"
  have split: "?p = (leafHeader ks (length es) @ ?c ?low) @ ?c ?high @ rest"
    unfolding leafBytes_def by (metis append_assoc concat_append map_append takeWhile_dropWhile_id)
  have at: "length (leafHeader ks (length es) @ ?c ?low) = 18 + length ?low * (ks + 6)"
    using length_blocks [OF s(1)] by simp
  have end': "18 + length es * (ks + 6) = 18 + length ?low * (ks + 6) + length (?c ?high)"
    using length_blocks [OF s(2)] n by (metis add.assoc add_mult_distrib)
  have tail: "slc (18 + length ?low * (ks + 6)) (18 + length es * (ks + 6)) ?p = ?c ?high"
    unfolding split end' using at by (simp add: slc_append_right) (simp add: slc_def)
  have key: "length (Key e) = leafKeySize l" using e(1) l(2) by simp
  have room: "leafEnd l ?p + leafStride l \<le> length ?p"
    using rest length_blocks [OF es] ok(2) l by (simp add: leafEnd_def btreeHeaderSize_def leafBytes_def)
  have "leafInsert lib l (Key e) (refOf e) ?p
      = Inr (setCount (Suc (length es)) (splice (18 + length ?low * (ks + 6)) (bytesOf e @ ?c ?high) ?p))"
    using leafInsert_run [OF ok(1) room key e(2), of lib] unfolding Let_def pos ok(2) l(1) tail bytesOf_def [symmetric] .
  also have "splice (18 + length ?low * (ks + 6)) (bytesOf e @ ?c ?high) ?p
      = (leafHeader ks (length es) @ ?c ?low) @ (bytesOf e @ ?c ?high) @ drop (ks + 6) rest"
    unfolding split using at rest e(1) by (subst splice_append_at) (simp_all add: bytesOf_alt)
  also have "setCount (Suc (length es)) \<dots> = leafHeader ks (Suc (length es)) @ ?c ?low @ bytesOf e @ ?c ?high @ drop (ks + 6) rest"
    using leafBytes_setCount [of "e # es" ks es] by simp
  also have "\<dots> = leafBytes ks (insertStable (keyLess lib (leafComponents l)) e es) (drop (ks + 6) rest)"
    using n by (simp add: leafBytes_def insertStable_parts)
  finally show ?thesis .
qed

end
