(* ===== verification/Ownership.thy ===== *)
theory Ownership
  imports Catalog Index_Tree
begin

text \<open>
  Which pages belong to which table, and dropping a table (\<open>ddl.go\<close>), with the two \<open>OpenIndex\<close>
  functions of \<open>index.go\<close> the attribution rests on. A Go map from pages to owners is the list of
  its entries, the latest first.
\<close>

definition pageTypeSystemFileDir :: u16 where "pageTypeSystemFileDir = 4"
definition pageTypeConnectionTable :: u16 where "pageTypeConnectionTable = 5"
definition systemIndexRootsSize :: nat where "systemIndexRootsSize = 8"
definition systemOwner :: int where "systemOwner = -2"

definition databasePageTypes :: "u16 \<Rightarrow> bool" where
  "databasePageTypes t \<longleftrightarrow> t \<in> {PageTypeFileHdr, PageTypeSystemDir, pageTypeSystemFileDir, pageTypeConnectionTable, PageTypeTableList}"

section \<open>Opening the indexes\<close>

text \<open>The page scan of \<open>OpenIndex\<close>: the roots and the schema pages, in page order.\<close>

definition newIndexRoot :: "nat \<Rightarrow> BTreePageHeader \<Rightarrow> indexRoot" where
  "newIndexRoot no hdr = \<lparr>irtPageNo = no, irtHeader = hdr, irtKeySize = unat (KeyPrefixSize hdr), irtName = [],
     irtColumns = [], irtPrimary = False, irtNoCase = False\<rparr>"

fun scanIndexPages :: "dbfile \<Rightarrow> nat list \<Rightarrow> (indexRoot list \<times> nat list) result" where
  "scanIndexPages db [] = Inr ([], [])"
| "scanIndexPages db (no # nos) =
     bindR (ReadPage db (int no)) (\<lambda>p.
     bindR (scanIndexPages db nos) (\<lambda>(roots, schemaPages).
       Inr (case Header p of
          None \<Rightarrow> (roots, schemaPages)
        | Some h \<Rightarrow>
            if PageType h \<noteq> PageTypeIndex then (roots, if PageType h = PageTypeSchema then no # schemaPages else schemaPages)
            else (case parseBTreeHeader (Payload p) of
                Inl e \<Rightarrow> (roots, schemaPages)
              | Inr hdr \<Rightarrow> (if IsRoot hdr then newIndexRoot no hdr # roots else roots, schemaPages)))))"

definition applyRecord :: "indexRecord \<Rightarrow> indexRoot list \<Rightarrow> indexRoot list" where
  "applyRecord rec = map (\<lambda>r. if int (irtPageNo r) = sint (rootPageNo rec) then applyDefinition rec r else r)"

definition indexRecords :: "zlib \<Rightarrow> codec \<Rightarrow> dbfile \<Rightarrow> int \<Rightarrow> indexRecord list result" where
  "indexRecords z cd db no =
     bindR (readSchemaStream z db no) (\<lambda>content.
     bindR (parseSchemaTail cd content) (\<lambda>(colsEnd, n, records, constraints, tailStart). Inr records))"

fun applySchemas :: "zlib \<Rightarrow> codec \<Rightarrow> dbfile \<Rightarrow> nat list \<Rightarrow> indexRoot list \<Rightarrow> indexRoot list" where
  "applySchemas z cd db [] roots = roots"
| "applySchemas z cd db (no # nos) roots = applySchemas z cd db nos
     (case indexRecords z cd db (int no) of
        Inl e \<Rightarrow> roots
      | Inr records \<Rightarrow> fold applyRecord records roots)"

definition OpenIndex :: "zlib \<Rightarrow> codec \<Rightarrow> dbfile \<Rightarrow> indexRoot list result" where
  "OpenIndex z cd db =
     bindR (scanIndexPages db [0..<nat (PageCount db)]) (\<lambda>(roots, schemaPages).
       Inr (applySchemas z cd db schemaPages (sort_key irtPageNo roots)))"

text \<open>Of two definitions of the same root the later one is kept.\<close>

definition definitionAt :: "indexRecord list \<Rightarrow> int \<Rightarrow> indexRecord option" where
  "definitionAt records no = find (\<lambda>rec. sint (rootPageNo rec) = no) (rev records)"

fun keepRoots :: "dbfile \<Rightarrow> indexRecord list \<Rightarrow> int set \<Rightarrow> indexRoot list \<Rightarrow> indexRoot list result" where
  "keepRoots db records own [] = Inr []"
| "keepRoots db records own (root # roots) =
     bindR (if definitionAt records (int (irtPageNo root)) \<noteq> None then Inr True else rootReferences db root own) (\<lambda>ok.
     bindR (keepRoots db records own roots) (\<lambda>kept. Inr (if ok then root # kept else kept)))"

definition tableDefinitions :: "zlib \<Rightarrow> codec \<Rightarrow> dbfile \<Rightarrow> Table \<Rightarrow> indexRecord list" where
  "tableDefinitions z cd db t = (case bindR (schemaPageNo db t) (indexRecords z cd db) of
     Inl e \<Rightarrow> [] | Inr records \<Rightarrow> records)"

definition tableOpenIndex :: "zlib \<Rightarrow> codec \<Rightarrow> dbfile \<Rightarrow> Table \<Rightarrow> indexRoot list result" where
  "tableOpenIndex z cd db t =
     bindR (OpenIndex z cd db) (\<lambda>roots.
       let records = tableDefinitions z cd db t;
           named = map (\<lambda>r. case definitionAt records (int (irtPageNo r)) of None \<Rightarrow> r | Some rec \<Rightarrow> applyDefinition rec r) roots in
       if sole t \<or> unlisted t then Inr named
       else bindR (tableDataPages db t) (\<lambda>pages. keepRoots db records (int ` set pages) named))"

section \<open>The pages of a table\<close>

text \<open>\<open>indexTreePages\<close>, breadth first. A page marked as visited is listed unless the walk fails,
  so the list of pages is the set of visited ones.\<close>

function treePages :: "dbfile \<Rightarrow> int list \<Rightarrow> int list \<Rightarrow> int list result" where
  "treePages db pages [] = Inr (sort pages)"
| "treePages db pages (no # queue) =
     (if no \<in> set pages then treePages db pages queue
      else case ReadPage db no of
        Inl e \<Rightarrow> Inl e
      | Inr p \<Rightarrow>
          if (case Header p of None \<Rightarrow> True | Some h \<Rightarrow> PageType h \<noteq> PageTypeIndex) then Inl ErrMalformedIndex
          else if int (length (pages @ [no])) > PageCount db then Inl ErrMalformedIndex
          else (case parseBTreeHeader (Payload p) of
              Inl e \<Rightarrow> Inl e
            | Inr hdr \<Rightarrow>
                if IsLeaf hdr then treePages db (pages @ [no]) queue
                else (case readBTreeEntries (Payload p) hdr of
                    Inl e \<Rightarrow> Inl e
                  | Inr entries \<Rightarrow> treePages db (pages @ [no]) (queue @ map PageNo entries))))"
  by pat_completeness auto
termination
  by (relation "measures [\<lambda>(db, pages, queue). nat (PageCount db + 1) - length pages, \<lambda>(db, pages, queue). length queue]") auto

definition indexTreePages :: "dbfile \<Rightarrow> int \<Rightarrow> int list result" where
  "indexTreePages db root = treePages db [] [root]"

definition addInternalFiles :: "dbfile \<Rightarrow> TableInfo \<Rightarrow> int list result" where
  "addInternalFiles db info =
     bindR (mapR (internalFilePages db) (filter (\<lambda>start. 0 \<le> start) [systemPageNo info, SchemaPageNo info, InfoPageNo info]))
       (\<lambda>chains. Inr (concat chains))"

definition systemIndexRoots :: "zlib \<Rightarrow> codec \<Rightarrow> (nat \<Rightarrow> nat) \<Rightarrow> dbfile \<Rightarrow> TableInfo \<Rightarrow> (int \<times> int) result" where
  "systemIndexRoots z cd foldRune db info =
     bindR (fileTable z cd foldRune db (tiName info)) (\<lambda>t.
     bindR (schemaPageNo db t) (\<lambda>no.
     bindR (ReadPage db no) (\<lambda>p.
     bindR (decompressInternalFile z (Payload p)) (\<lambda>content.
       if length content < systemIndexRootsSize then Inl ErrBadSchema
       else let tail = drop (length content - systemIndexRootsSize) content in Inr (getI32 tail 0, getI32 tail 4)))))"

definition addIndexTrees ::
    "zlib \<Rightarrow> codec \<Rightarrow> (nat \<Rightarrow> nat) \<Rightarrow> dbfile \<Rightarrow> TableInfo \<Rightarrow> int \<Rightarrow> int \<Rightarrow> int list result" where
  "addIndexTrees z cd foldRune db info recordIndexRoot blobIndexRoot =
     bindR (fileTable z cd foldRune db (tiName info)) (\<lambda>t.
     bindR (case tableOpenIndex z cd db t of
         Inr indexes \<Rightarrow> Inr (map (\<lambda>i. int (iiRootPageNo i)) (Indexes indexes))
       | Inl e \<Rightarrow> if e = ErrNoIndex then Inr [] else Inl e) (\<lambda>more.
     bindR (mapR (indexTreePages db) (filter (\<lambda>root. \<not> (root < 0 \<or> root = blobIndexRoot)) (recordIndexRoot # more)))
       (\<lambda>trees. Inr (concat trees))))"

fun addDataPagesFrom :: "dbfile \<Rightarrow> int \<Rightarrow> nat list \<Rightarrow> int list result" where
  "addDataPagesFrom db tableID [] = Inr []"
| "addDataPagesFrom db tableID (no # nos) =
     bindR (ReadPage db (int no)) (\<lambda>p.
     bindR (addDataPagesFrom db tableID nos) (\<lambda>pages.
       Inr (if (case Header p of None \<Rightarrow> False
                | Some h \<Rightarrow> PageType h = PageTypeData \<and> \<not> Freed p \<and> sint (ObjectID h) = tableID)
            then int no # pages else pages)))"

definition addDataPages :: "dbfile \<Rightarrow> TableInfo \<Rightarrow> int list result" where
  "addDataPages db info = addDataPagesFrom db (tiID info) [0..<nat (PageCount db)]"

definition tablePages :: "zlib \<Rightarrow> codec \<Rightarrow> (nat \<Rightarrow> nat) \<Rightarrow> dbfile \<Rightarrow> TableInfo \<Rightarrow> (int list \<times> int) result" where
  "tablePages z cd foldRune db info =
     bindR (addInternalFiles db info) (\<lambda>files.
     bindR (systemIndexRoots z cd foldRune db info) (\<lambda>(recordIndexRoot, blobIndexRoot).
     bindR (addIndexTrees z cd foldRune db info recordIndexRoot blobIndexRoot) (\<lambda>trees.
     bindR (addDataPages db info) (\<lambda>datas.
       Inr (sort (remdups (files @ trees @ datas)), blobIndexRoot)))))"

section \<open>The owners of a file's pages\<close>

record pageOwnership =
  owner :: "(int \<times> int) list"
  unattributed :: "int list"
  blobIndexRoots :: "(int \<times> int) list"

definition ownedBy :: "pageOwnership \<Rightarrow> int \<Rightarrow> int list" where
  "ownedBy o' tableID = sort (remdups (filter (\<lambda>no. map_of (owner o') no = Some tableID) (map fst (owner o'))))"

fun claimPages :: "int \<Rightarrow> int list \<Rightarrow> (int \<times> int) list \<Rightarrow> (int \<times> int) list result" where
  "claimPages tableID [] owners = Inr owners"
| "claimPages tableID (no # nos) owners =
     (if map_of owners no \<noteq> None \<and> map_of owners no \<noteq> Some tableID then Inl (ErrText ''claimed by two tables'')
      else claimPages tableID nos ((no, tableID) # owners))"

fun claimTables :: "zlib \<Rightarrow> codec \<Rightarrow> (nat \<Rightarrow> nat) \<Rightarrow> dbfile \<Rightarrow> TableInfo list \<Rightarrow> pageOwnership \<Rightarrow> pageOwnership result" where
  "claimTables z cd foldRune db [] out = Inr out"
| "claimTables z cd foldRune db (info # tables) out =
     bindR (tablePages z cd foldRune db info) (\<lambda>(pages, blobRoot).
     bindR (claimPages (tiID info) pages (owner out)) (\<lambda>owners.
       claimTables z cd foldRune db tables
         (out\<lparr>owner := owners, blobIndexRoots := (tiID info, blobRoot) # blobIndexRoots out\<rparr>)))"

fun attributePages :: "dbfile \<Rightarrow> nat list \<Rightarrow> pageOwnership \<Rightarrow> pageOwnership result" where
  "attributePages db [] out = Inr out"
| "attributePages db (no # nos) out =
     bindR (ReadPage db (int no)) (\<lambda>p.
       attributePages db nos
         (case Header p of
            None \<Rightarrow> out
          | Some h \<Rightarrow>
              if Freed p then out
              else if databasePageTypes (PageType h) then out\<lparr>owner := (int no, systemOwner) # owner out\<rparr>
              else if map_of (owner out) (int no) = None then out\<lparr>unattributed := unattributed out @ [int no]\<rparr>
              else out))"

definition ownedPages :: "zlib \<Rightarrow> codec \<Rightarrow> (nat \<Rightarrow> nat) \<Rightarrow> dbfile \<Rightarrow> TableInfo list \<Rightarrow> pageOwnership result" where
  "ownedPages z cd foldRune db tables =
     bindR (claimTables z cd foldRune db tables \<lparr>owner = [], unattributed = [], blobIndexRoots = []\<rparr>)
       (attributePages db [0..<nat (PageCount db)])"

section \<open>Dropping a table\<close>

text \<open>Every owned page has been read, so its number is natural. The tombstones are those of
  \<open>freeChainPages\<close>: \<open>tombstone\<close>.\<close>

definition dropCatalogEntry :: "int \<Rightarrow> (edit, unit) op" where
  "dropCatalogEntry position =
     bindO (getO edDb) (\<lambda>db.
     bindO (liftO (findPageByType db PageTypeTableList)) (\<lambda>pageNo.
       if pageNo < 0 then failO ErrNoCatalog
       else bindO (load pageNo) (\<lambda>k.
            bindO (getO (bufAt k)) (\<lambda>b.
            bindO (liftO (removeCatalogEntry position (bufPayload b))) (\<lambda>payload.
            updBuf k (\<lambda>b. (setPayload payload b)\<lparr>dirty := True\<rparr>))))))"

definition applyDrop :: "int \<Rightarrow> nat list \<Rightarrow> (dbfile, unit) op" where
  "applyDrop position pages db =
     (case bindO (tombstone pages) (\<lambda>_.
           bindO (dropCatalogEntry position) (\<lambda>_.
           bindO (releasePages pages) (\<lambda>lastUsed.
           bindO flushPages (\<lambda>_.
           modO (\<lambda>s. s\<lparr>edDb := bumpFileState (setLastUsedPageNo lastUsed (edDb s))\<rparr>)))))
         (newPageEdit db) of (r, s) \<Rightarrow> (r, edDb s))"

definition DropTable :: "zlib \<Rightarrow> codec \<Rightarrow> (nat \<Rightarrow> nat) \<Rightarrow> byte list \<Rightarrow> (dbfile, unit) op" where
  "DropTable z cd foldRune name db =
     (if \<not> writable db then (Inl ErrReadOnly, db)
      else case Tables z cd db of
        Inl e \<Rightarrow> (Inl e, db)
      | Inr tables \<Rightarrow>
          (case find (\<lambda>i. EqualFold foldRune (tiName (tables ! i)) name) [0..<length tables] of
             None \<Rightarrow> (Inl ErrNoSuchTable, db)
           | Some position \<Rightarrow>
               (case ownedPages z cd foldRune db tables of
                  Inl e \<Rightarrow> (Inl e, db)
                | Inr owned \<Rightarrow>
                    let tableID = tiID (tables ! position) in
                    if (case map_of (blobIndexRoots owned) tableID of None \<Rightarrow> 0 | Some r \<Rightarrow> r) \<ge> 0 then (Inl ErrTableHasBlobPages, db)
                    else if unattributed owned \<noteq> [] then (Inl ErrPageUnattributed, db)
                    else if length tables = 1 then (Inl ErrLastTable, db)
                    else applyDrop (int position) (map nat (ownedBy owned tableID)) db)))"

end
