(* ===== verification/Writer.thy ===== *)
theory Writer
  imports Ownership
begin

text \<open>
  The state of a \<open>TableWriter\<close> (\<open>writer.go\<close>), the pages and record slots it reaches, and the growth
  of a table by one data page. The page set is that of \<open>Edit\<close>; a \<open>*pageWriteBuf\<close> is the number of its
  page, so \<open>slot\<close> returns a page number and an offset. Names that only reach error texts are left out.
\<close>

section \<open>State\<close>

text \<open>What lies outside the module: \<open>compress/zlib\<close>, the text packages, Unicode folding, and the random
  State values of new pages.\<close>

record wenv =
  weZlib :: zlib
  weText :: textlib
  weFold :: "nat \<Rightarrow> nat"
  weSeed :: "nat \<Rightarrow> u32"

abbreviation weCodec :: "wenv \<Rightarrow> codec" where "weCodec e \<equiv> textCodec (weText e)"

record maintainedIndex =
  miObjectID :: u32
  miRootPageNo :: int
  miColIdxs :: "nat list"
  miComponents :: "indexKeyComponent list"
  miKeySize :: nat
  miUnique :: bool
  miPrimary :: bool

record boundsCheck =
  bcCol :: nat
  bcMin :: "int option"
  bcMax :: "int option"

record constraintChecks =
  ckNotNull :: "nat list"
  ckBounds :: "boundsCheck list"

record autoIncCounter =
  acCol :: nat
  acOff :: nat
  acValue :: int
  acIncrement :: int
  acMax :: int
  acRaised :: bool

text \<open>
  \<open>wIndexes\<close> and \<open>wAutoInc\<close> are the memoised results with their errors, \<open>None\<close> before the first use;
  \<open>wDelta\<close> is the entries of the Go map; \<open>wGone\<close> holds after \<open>Rollback\<close>, when the page map is nil:
  reading it finds nothing, and adding to it panics.
\<close>

record tableWriter = edit +
  wTable :: Table
  wLayout :: layout
  wDataPages :: "nat list"
  wDelta :: "(int \<times> int) list"
  wIndexes :: "maintainedIndex list result option"
  wChecks :: constraintChecks
  wAutoInc :: "autoIncCounter list result option"
  wTouched :: int
  wClosed :: bool
  wGone :: bool

definition OpenWriter :: "wenv \<Rightarrow> dbfile \<Rightarrow> Table \<Rightarrow> tableWriter result" where
  "OpenWriter e db t =
     (if \<not> writable db then Inl ErrReadOnly
      else bindR (openTable (weZlib e) (weCodec e) (weFold e) db t) (\<lambda>r.
        Inr \<lparr>edDb = db, edPages = Map.empty, edOrder = [], wTable = t, wLayout = rdLayout r,
          wDataPages = dataPages r, wDelta = [], wIndexes = None, wChecks = \<lparr>ckNotNull = [], ckBounds = []\<rparr>,
          wAutoInc = None, wTouched = 0, wClosed = False, wGone = False\<rparr>))"

definition OpenTableWriter :: "wenv \<Rightarrow> dbfile \<Rightarrow> tableWriter result" where
  "OpenTableWriter e db = bindR (fileTable (weZlib e) (weCodec e) (weFold e) db []) (OpenWriter e db)"

definition Rollback :: "tableWriter \<Rightarrow> tableWriter" where
  "Rollback w = w\<lparr>wClosed := True, wGone := True, edPages := Map.empty, edOrder := [], wDelta := []\<rparr>"

definition Close :: "tableWriter \<Rightarrow> tableWriter" where
  "Close w = (if \<not> wClosed w then Rollback w else w)"

definition modified :: "tableWriter \<Rightarrow> bool" where
  "modified w = list_ex (\<lambda>k. dirty (bufAt k w)) (edOrder w)"

definition deltaOf :: "(int \<times> int) list \<Rightarrow> int \<Rightarrow> int" where
  "deltaOf d no = (case map_of d no of None \<Rightarrow> 0 | Some n \<Rightarrow> n)"

definition bumpDelta :: "int \<Rightarrow> int \<Rightarrow> (int \<times> int) list \<Rightarrow> (int \<times> int) list" where
  "bumpDelta no n d = (no, deltaOf d no + n) # filter (\<lambda>(k, _). k \<noteq> no) d"

section \<open>Pages and slots\<close>

definition writerLoadPage :: "int \<Rightarrow> (tableWriter, nat) op" where
  "writerLoadPage no w =
     (if wGone w then (case bufferPage (edDb w) no of Inl e \<Rightarrow> (Inl e, w) | Inr b \<Rightarrow> (Inl GoPanic, w))
      else load no w)"

definition isDataPage :: "int \<Rightarrow> tableWriter \<Rightarrow> bool" where
  "isDataPage no w \<longleftrightarrow> 0 \<le> no \<and> nat no \<in> set (wDataPages w)"

definition dataPage :: "int \<Rightarrow> (tableWriter, nat) op" where
  "dataPage no = bindO (getO (isDataPage no)) (\<lambda>own.
     if \<not> own then failO ErrNoRecord else writerLoadPage no)"

definition wPayload :: "nat \<Rightarrow> tableWriter \<Rightarrow> byte list" where
  "wPayload k w = bufPayload (bufAt k w)"

text \<open>A change of a buffer's payload through a pointer, which marks the page.\<close>

definition putPayload :: "nat \<Rightarrow> byte list \<Rightarrow> (tableWriter, unit) op" where
  "putPayload k p = updBuf k (\<lambda>b. (setPayload p b)\<lparr>dirty := True\<rparr>)"

definition slot :: "RecordID \<Rightarrow> bool \<Rightarrow> (tableWriter, nat \<times> nat) op" where
  "slot rid mustExist =
     bindO (getO wClosed) (\<lambda>closed.
     bindO (getO wLayout) (\<lambda>l.
     if closed then failO ErrWriterClosed
     else if ridSlot rid < 0 \<or> ridSlot rid \<ge> int (recsPerPage l) then failO ErrNoRecord
     else bindO (dataPage (ridPage rid)) (\<lambda>k.
          bindO (getO (wPayload k)) (\<lambda>p.
          let start = bitmapBytes l + nat (ridSlot rid) * recordSize l in
          if start + recordSize l > length p then failO ErrNoRecord
          else if mustExist \<and> \<not> bitSet p (ridSlot rid) (bitmapBytes l) then failO ErrNoRecord
          else retO (k, start)))))"

text \<open>The record as it is when \<open>Record\<close> returns; Go's value goes on reading the buffer.\<close>

definition writerRecord :: "RecordID \<Rightarrow> (tableWriter, rowbytes) op" where
  "writerRecord rid = bindO (slot rid True) (\<lambda>(k, start). getO (\<lambda>w. rowAt (wLayout w) (wPayload k w) start))"

definition occupiedSlots :: "int \<Rightarrow> (tableWriter, int) op" where
  "occupiedSlots pageNo = bindO (dataPage pageNo) (\<lambda>k.
     getO (\<lambda>w. int (length (filter (\<lambda>i. bitSet (wPayload k w) (int i) (bitmapBytes (wLayout w))) [0..<recsPerPage (wLayout w)]))))"

section \<open>Growing the table\<close>

definition recordPageEntrySize :: nat where "recordPageEntrySize = systemKeySize + 2"

text \<open>\<open>pageNo\<close> comes from the allocator and is not negative.\<close>

definition appendRecordPageEntry :: "wenv \<Rightarrow> nat \<Rightarrow> (tableWriter, unit) op" where
  "appendRecordPageEntry e pageNo =
     bindO (getO (\<lambda>w. systemIndexRoots (weZlib e) (weCodec e) (weFold e) (edDb w) (tblInfo (wTable w)))) (\<lambda>r.
     bindO (liftO r) (\<lambda>(root, _).
     bindO (writerLoadPage root) (\<lambda>k.
     bindO (getO (wPayload k)) (\<lambda>p.
     if length p < btreeHeaderSize then failO ErrBookkeepingMismatch
     else let count = leafCount p; off = btreeHeaderSize + count * recordPageEntrySize in
       if off + recordPageEntrySize > length p then failO ErrTableFull
       else if pageNo > 2 ^ 31 - 1 then failO ErrBookkeepingMismatch
       else let p1 = splice (off + 4) (leU16 0) (splice off (leU32 (word_of_nat pageNo)) p) in
         bindO (updBuf k (setPayload p1)) (\<lambda>_.
         if count + 1 > 2 ^ 16 - 1 then failO ErrBookkeepingMismatch
         else bindO (putPayload k (setCount (count + 1) p1)) (\<lambda>_. writeBuf k))))))"

text \<open>The allocator fills the page set through \<open>load\<close> and \<open>loadFresh\<close>; its first page is the
  Page Free Space map, and with a nil page map it gets no further.\<close>

definition writerAllocate :: "wenv \<Rightarrow> int \<Rightarrow> (tableWriter, nat list) op" where
  "writerAllocate e tableID = bindO (getO wGone) (\<lambda>gone.
     if gone then bindO (writerLoadPage pfsPageNo) (\<lambda>_. failO GoPanic)
     else allocatePages (weSeed e) 1 PageTypeData (word_of_int tableID))"

definition growTable :: "wenv \<Rightarrow> (tableWriter, nat) op" where
  "growTable e =
     bindO (getO (\<lambda>w. writable (edDb w))) (\<lambda>ok.
     if \<not> ok then failO ErrReadOnly
     else bindO (getO (\<lambda>w. tiID (tblInfo (wTable w)))) (\<lambda>tableID.
          bindO (writerAllocate e tableID) (\<lambda>pages.
          bindO (writerLoadPage (int (hd pages))) (\<lambda>k.
          bindO (writeBuf k) (\<lambda>_.
          bindO (appendRecordPageEntry e (hd pages)) (\<lambda>_.
          bindO (modO (\<lambda>w. w\<lparr>wDataPages := wDataPages w @ [hd pages]\<rparr>)) (\<lambda>_.
          retO (hd pages))))))))"

section \<open>A free slot\<close>

definition freeIn :: "layout \<Rightarrow> byte list \<Rightarrow> nat option" where
  "freeIn l p = find (\<lambda>i. \<not> bitSet p (int i) (bitmapBytes l) \<and> bitmapBytes l + (i + 1) * recordSize l \<le> length p)
     [0..<recsPerPage l]"

fun freeSlotIn :: "nat list \<Rightarrow> (tableWriter, RecordID option) op" where
  "freeSlotIn [] = retO None"
| "freeSlotIn (no # nos) = bindO (dataPage (int no)) (\<lambda>k.
     bindO (getO (\<lambda>w. freeIn (wLayout w) (wPayload k w))) (\<lambda>found.
       case found of Some i \<Rightarrow> retO (Some \<lparr>ridPage = int no, ridSlot = int i\<rparr>) | None \<Rightarrow> freeSlotIn nos))"

definition freeSlot :: "wenv \<Rightarrow> (tableWriter, RecordID) op" where
  "freeSlot e =
     bindO (getO wDataPages) (\<lambda>pages.
     bindO (freeSlotIn pages) (\<lambda>found.
     case found of
       Some rid \<Rightarrow> retO rid
     | None \<Rightarrow> bindO (getO (\<lambda>w. recsPerPage (wLayout w))) (\<lambda>n.
         if n \<le> 0 then failO ErrTableFull
         else bindO (growTable e) (\<lambda>no. retO \<lparr>ridPage = int no, ridSlot = 0\<rparr>))))"

end
