(* ===== verification/Writer_Checks.thy ===== *)
theory Writer_Checks
  imports Writer Encode
begin

text \<open>
  The indexes, constraints and counters a table writer keeps (\<open>writer_index.go\<close>, \<open>writer_constraint.go\<close>,
  \<open>writer_autoinc.go\<close>): finding out what they are, and the checks and edits of a write.
\<close>

fun mapO :: "('a \<Rightarrow> ('s, 'b) op) \<Rightarrow> 'a list \<Rightarrow> ('s, 'b list) op" where
  "mapO f [] = retO []"
| "mapO f (x # xs) = bindO (f x) (\<lambda>y. bindO (mapO f xs) (\<lambda>ys. retO (y # ys)))"

definition wrapErr :: "err \<Rightarrow> 'a result \<Rightarrow> 'a result" where
  "wrapErr e r = (case r of Inl _ \<Rightarrow> Inl e | Inr x \<Rightarrow> Inr x)"

definition findColumnIndex :: "(nat \<Rightarrow> nat) \<Rightarrow> Column list \<Rightarrow> byte list \<Rightarrow> nat result" where
  "findColumnIndex foldRune cols name = (case find (\<lambda>i. EqualFold foldRune (Name (cols ! i)) name) [0..<length cols] of
     None \<Rightarrow> Inl ErrNoSuchColumn | Some i \<Rightarrow> Inr i)"

section \<open>The leaf of an index\<close>

definition writerIndexLeaf :: "maintainedIndex \<Rightarrow> (tableWriter, indexLeaf) op" where
  "writerIndexLeaf idx =
     bindO (writerLoadPage (miRootPageNo idx)) (\<lambda>k.
     bindO (getO (wPayload k)) (\<lambda>p.
     case parseBTreeHeader p of
       Inl e \<Rightarrow> failO ErrIndexNotMaintained
     | Inr hdr \<Rightarrow>
         if \<not> IsRoot hdr \<or> \<not> IsLeaf hdr then failO ErrIndexNotMaintained
         else if unat (KeyPrefixSize hdr) \<noteq> miKeySize idx then failO ErrIndexNotMaintained
         else let leaf = \<lparr>leafBuf = k, leafStride = miKeySize idx + leafEntrySuffixSize, leafKeySize = miKeySize idx,
                    leafComponents = miComponents idx\<rparr> in
           if leafEnd leaf p > length p then failO ErrBookkeepingMismatch else retO leaf))"

text \<open>A method of the leaf that changes its page, or refuses and changes nothing.\<close>

definition editLeaf :: "indexLeaf \<Rightarrow> (byte list \<Rightarrow> byte list result) \<Rightarrow> (tableWriter, unit) op" where
  "editLeaf leaf f = bindO (getO (\<lambda>w. f (wPayload (leafBuf leaf) w))) (\<lambda>r.
     bindO (liftO r) (putPayload (leafBuf leaf)))"

section \<open>Which indexes are kept\<close>

definition tableUserIndexes :: "wenv \<Rightarrow> tableWriter \<Rightarrow> IndexInfo list result" where
  "tableUserIndexes e w = (case tableOpenIndex (weZlib e) (weCodec e) (edDb w) (wTable w) of
     Inr roots \<Rightarrow> Inr (UserIndexes roots)
   | Inl er \<Rightarrow> if er = ErrNoIndex then Inr [] else Inl er)"

definition tableSchemaTail :: "wenv \<Rightarrow> tableWriter \<Rightarrow> (indexRecord list \<times> constraintRecord list) result" where
  "tableSchemaTail e w = wrapErr ErrIndexNotMaintained
     (bindR (schemaPageNo (edDb w) (wTable w)) (\<lambda>no.
      bindR (readSchemaStream (weZlib e) (edDb w) no) (\<lambda>content.
      bindR (parseSchemaTail (weCodec e) content) (\<lambda>(colsEnd, n, records, constraints, tailStart).
        Inr (records, constraints)))))"

definition maintainableIndexColumns :: "indexRecord \<Rightarrow> indexColumn list result" where
  "maintainableIndexColumns rec =
     (if length (irColumns rec) = 0 then Inl ErrIndexNotMaintained
      else if list_ex (\<lambda>c. descending c \<or> (caseInsensitive c \<and> length (irColumns rec) \<noteq> 1)) (irColumns rec)
      then Inl ErrIndexNotMaintained
      else Inr (irColumns rec))"

text \<open>One covered column: its index in the schema and its key component.\<close>

definition describeColumn :: "wenv \<Rightarrow> Column list \<Rightarrow> indexColumn \<Rightarrow> (nat \<times> indexKeyComponent) result" where
  "describeColumn e cols covered =
     bindR (wrapErr ErrIndexNotMaintained (findColumnIndex (weFold e) cols (icName covered))) (\<lambda>i.
     case indexKeyComponentFor i (cols ! i) of
       None \<Rightarrow> Inl ErrIndexNotMaintained
     | Some kc \<Rightarrow>
         if caseInsensitive covered then
           (if kcKind kc \<noteq> indexKeyString then Inl ErrIndexNotMaintained
            else Inr (i, kc\<lparr>kcNoCase := True\<rparr>))
         else Inr (i, kc))"

definition describeIndex :: "wenv \<Rightarrow> indexRecord \<Rightarrow> (tableWriter, maintainedIndex) op" where
  "describeIndex e rec =
     bindO (getO (\<lambda>w. columns (wLayout w))) (\<lambda>cols.
     bindO (liftO (bindR (maintainableIndexColumns rec) (mapR (describeColumn e cols)))) (\<lambda>cs.
     let idx = \<lparr>miObjectID = irObjectID rec, miRootPageNo = sint (rootPageNo rec), miColIdxs = map fst cs,
           miComponents = map snd cs, miKeySize = sum_list (map (kcSize \<circ> snd) cs),
           miUnique = (irUnique rec \<or> irPrimary rec), miPrimary = irPrimary rec\<rparr> in
     bindO (writerIndexLeaf idx) (\<lambda>_. retO idx)))"

definition discoverIndexes ::
    "wenv \<Rightarrow> (indexRecord list \<times> constraintRecord list) result \<Rightarrow> (tableWriter, maintainedIndex list) op" where
  "discoverIndexes e tl' =
     bindO (getO (tableUserIndexes e)) (\<lambda>r.
     bindO (liftO r) (\<lambda>found.
     let records = (case tl' of Inl _ \<Rightarrow> [] | Inr (recs, _) \<Rightarrow> recs) in
     if length found = 0 \<and> length records = 0 then retO []
     else bindO (liftO tl') (\<lambda>_.
       if list_ex (\<lambda>info. int (iiRootPageNo info) \<notin> set (map (\<lambda>rec. sint (rootPageNo rec)) records)) found
       then failO ErrIndexNotMaintained
       else mapO (describeIndex e) records)))"

section \<open>Which constraints are checked\<close>

definition constraintColumnIndex :: "wenv \<Rightarrow> constraintRecord \<Rightarrow> Column list \<Rightarrow> nat result" where
  "constraintColumnIndex e rec cols =
     (if length (crColumns rec) \<noteq> 1 then Inl (ErrText ''constraint covers columns'')
      else findColumnIndex (weFold e) cols (ccName (crColumns rec ! 0)))"

definition boundOf :: "Column \<Rightarrow> nat \<Rightarrow> bool \<Rightarrow> typedValue \<Rightarrow> int option result" where
  "boundOf col width issigned v =
     (if \<not> tvPresent v then Inr None
      else if tvBase v \<noteq> BaseType col \<or> length (tvData v) \<noteq> width then Inl (ErrText ''constraint bound'')
      else Inr (Some (decodeIntegerLE (tvData v) issigned)))"

definition newBoundsCheck :: "constraintRecord \<Rightarrow> Column \<Rightarrow> nat \<Rightarrow> boundsCheck result" where
  "newBoundsCheck rec col colIdx = (case integerStorage col of
     None \<Rightarrow> Inl (ErrText ''constraint bounds a column'')
   | Some (width, issigned) \<Rightarrow>
       bindR (boundOf col width issigned (crMin rec)) (\<lambda>lo.
       bindR (boundOf col width issigned (crMax rec)) (\<lambda>hi.
         Inr \<lparr>bcCol = colIdx, bcMin = lo, bcMax = hi\<rparr>)))"

fun coversSame :: "wenv \<Rightarrow> Column list \<Rightarrow> nat list \<Rightarrow> constraintColumn list \<Rightarrow> unit result" where
  "coversSame e cols (i # is') (c # cs) =
     bindR (findColumnIndex (weFold e) cols (ccName c)) (\<lambda>colIdx.
     if i \<ge> length cols \<or> i \<noteq> colIdx then Inl (ErrText ''constraint column'')
     else coversSame e cols is' cs)"
| "coversSame e cols _ _ = Inr ()"

definition keyIndexEnforces :: "wenv \<Rightarrow> constraintRecord \<Rightarrow> maintainedIndex list \<Rightarrow> Column list \<Rightarrow> unit result" where
  "keyIndexEnforces e rec indexes cols = (case find (\<lambda>idx. miObjectID idx = crOwnerID rec) indexes of
     None \<Rightarrow> Inl (ErrText ''not an index this package maintains'')
   | Some idx \<Rightarrow>
       if \<not> miUnique idx then Inl (ErrText ''not flagged UNIQUE or PRIMARY'')
       else if length (miColIdxs idx) \<noteq> length (crColumns rec) then Inl (ErrText ''covers columns'')
       else coversSame e cols (miColIdxs idx) (crColumns rec))"

definition addCheck ::
    "wenv \<Rightarrow> maintainedIndex list \<Rightarrow> Column list \<Rightarrow> constraintRecord \<Rightarrow> constraintChecks \<Rightarrow> constraintChecks result" where
  "addCheck e indexes cols rec checks =
     (if crKind rec = constraintNotNull then
        bindR (constraintColumnIndex e rec cols) (\<lambda>i. Inr (checks\<lparr>ckNotNull := ckNotNull checks @ [i]\<rparr>))
      else if crKind rec = constraintCheck then
        bindR (constraintColumnIndex e rec cols) (\<lambda>i.
        bindR (newBoundsCheck rec (cols ! i) i) (\<lambda>b. Inr (checks\<lparr>ckBounds := ckBounds checks @ [b]\<rparr>)))
      else if crKind rec = constraintPrimaryKey \<or> crKind rec = constraintUnique then
        bindR (keyIndexEnforces e rec indexes cols) (\<lambda>_. Inr checks)
      else Inl ErrConstraintsNotEnforced)"

fun newConstraintChecks ::
    "wenv \<Rightarrow> maintainedIndex list \<Rightarrow> Column list \<Rightarrow> constraintRecord list \<Rightarrow> constraintChecks \<Rightarrow> constraintChecks result" where
  "newConstraintChecks e indexes cols [] checks = Inr checks"
| "newConstraintChecks e indexes cols (rec # recs) checks =
     bindR (wrapErr ErrConstraintsNotEnforced (addCheck e indexes cols rec checks)) (newConstraintChecks e indexes cols recs)"

definition resolveIndexes :: "wenv \<Rightarrow> (tableWriter, maintainedIndex list) op" where
  "resolveIndexes e =
     bindO (getO (tableSchemaTail e)) (\<lambda>tl'.
     bindO (discoverIndexes e tl') (\<lambda>indexes.
     case tl' of
       Inl _ \<Rightarrow> retO indexes
     | Inr (_, constraints) \<Rightarrow>
         bindO (getO (\<lambda>w. columns (wLayout w))) (\<lambda>cols.
         bindO (liftO (newConstraintChecks e indexes cols constraints \<lparr>ckNotNull = [], ckBounds = []\<rparr>)) (\<lambda>checks.
         bindO (modO (\<lambda>w. w\<lparr>wChecks := checks\<rparr>)) (\<lambda>_. retO indexes)))))"

definition maintainedIndexes :: "wenv \<Rightarrow> (tableWriter, maintainedIndex list) op" where
  "maintainedIndexes e w = (case wIndexes w of
     Some r \<Rightarrow> (r, w)
   | None \<Rightarrow> (case resolveIndexes e w of (r, w') \<Rightarrow> (r, w'\<lparr>wIndexes := Some r\<rparr>)))"

section \<open>Checking a record\<close>

definition recordOver :: "layout \<Rightarrow> byte list \<Rightarrow> rowbytes result" where
  "recordOver l rec =
     (if length rec < nullFlagBytes l + fieldDataSize l then Inl ErrBadLayout else Inr (rowAt l rec 0))"

definition noChecks :: "constraintChecks \<Rightarrow> bool" where
  "noChecks c \<longleftrightarrow> length (ckNotNull c) = 0 \<and> length (ckBounds c) = 0"

definition outOfBounds :: "layout \<Rightarrow> rowbytes \<Rightarrow> boundsCheck \<Rightarrow> bool" where
  "outOfBounds l row b \<longleftrightarrow> \<not> rowIsNull l row (int (bcCol b)) \<and>
     (let v = intValue l row (int (bcCol b)) in
      (case bcMin b of None \<Rightarrow> False | Some lo \<Rightarrow> v < lo) \<or> (case bcMax b of None \<Rightarrow> False | Some hi \<Rightarrow> v > hi))"

definition checkRow :: "layout \<Rightarrow> constraintChecks \<Rightarrow> rowbytes \<Rightarrow> unit result" where
  "checkRow l c row =
     (if list_ex (\<lambda>col. rowIsNull l row (int col)) (ckNotNull c) then Inl ErrNotNullViolated
      else if list_ex (outOfBounds l row) (ckBounds c) then Inl ErrCheckViolated
      else Inr ())"

definition checkConstraints :: "byte list \<Rightarrow> (tableWriter, unit) op" where
  "checkConstraints rec = bindO (getO (\<lambda>w. (wLayout w, wChecks w))) (\<lambda>(l, c).
     if noChecks c then retO () else liftO (bindR (recordOver l rec) (checkRow l c)))"

definition checkKeyIndex :: "wenv \<Rightarrow> maintainedIndex \<Rightarrow> byte list \<Rightarrow> (tableWriter, unit) op" where
  "checkKeyIndex e idx key =
     (if miPrimary idx \<and> compoundKeyHasNull key (miComponents idx) then failO ErrNotNullViolated
      else bindO (writerIndexLeaf idx) (\<lambda>leaf.
           bindO (getO (\<lambda>w. hasKey (weText e) leaf (wPayload (leafBuf leaf) w) key)) (\<lambda>held.
           if held then failO ErrDuplicateKey else retO ())))"

text \<open>\<open>before\<close> is \<open>None\<close> for Go's nil; otherwise it has a key for every index.\<close>

definition checkKeyIndexes ::
    "wenv \<Rightarrow> maintainedIndex list \<Rightarrow> byte list \<Rightarrow> byte list list option \<Rightarrow> (tableWriter, unit) op" where
  "checkKeyIndexes e indexes content before =
     forO [0..<length indexes] (\<lambda>i. let idx = indexes ! i in
       if \<not> miUnique idx then retO ()
       else bindO (getO wLayout) (\<lambda>l.
            bindO (liftO (recordOver l content)) (\<lambda>row.
            let key = indexKeyOf l row (miComponents idx) in
            if (case before of None \<Rightarrow> False | Some ks \<Rightarrow> compareIndexKeys (weText e) (ks ! i) key (miComponents idx) = 0)
            then retO () else checkKeyIndex e idx key)))"

section \<open>Keeping the indexes\<close>

definition indexKeyFor :: "RecordID \<Rightarrow> maintainedIndex \<Rightarrow> (tableWriter, byte list) op" where
  "indexKeyFor rid idx = bindO (writerRecord rid) (\<lambda>row. getO (\<lambda>w. indexKeyOf (wLayout w) row (miComponents idx)))"

definition indexRoom :: "maintainedIndex list \<Rightarrow> (tableWriter, unit) op" where
  "indexRoom indexes = forO indexes (\<lambda>idx. bindO (writerIndexLeaf idx) (\<lambda>leaf.
     bindO (getO (\<lambda>w. leafRoom leaf (wPayload (leafBuf leaf) w))) liftO))"

definition indexInsert :: "wenv \<Rightarrow> maintainedIndex list \<Rightarrow> RecordID \<Rightarrow> (tableWriter, unit) op" where
  "indexInsert e indexes rid = forO indexes (\<lambda>idx.
     bindO (indexKeyFor rid idx) (\<lambda>key.
     bindO (writerIndexLeaf idx) (\<lambda>leaf. editLeaf leaf (leafInsert (weText e) leaf key rid))))"

definition indexRemove :: "maintainedIndex list \<Rightarrow> RecordID \<Rightarrow> (tableWriter, unit) op" where
  "indexRemove indexes rid = forO indexes (\<lambda>idx. bindO (writerIndexLeaf idx) (\<lambda>leaf. editLeaf leaf (leafRemove leaf rid)))"

definition indexKeys :: "maintainedIndex list \<Rightarrow> RecordID \<Rightarrow> (tableWriter, byte list list option) op" where
  "indexKeys indexes rid =
     (if length indexes = 0 then retO None
      else bindO (mapO (indexKeyFor rid) indexes) (\<lambda>keys. retO (Some keys)))"

definition indexReplace :: "wenv \<Rightarrow> maintainedIndex list \<Rightarrow> RecordID \<Rightarrow> byte list list option \<Rightarrow> (tableWriter, unit) op" where
  "indexReplace e indexes rid before =
     forO [0..<length indexes] (\<lambda>i. let idx = indexes ! i in
       bindO (indexKeyFor rid idx) (\<lambda>after.
       if (case before of None \<Rightarrow> [] | Some ks \<Rightarrow> ks) ! i = after then retO ()
       else bindO (writerIndexLeaf idx) (\<lambda>leaf.
            bindO (editLeaf leaf (leafRemove leaf rid)) (\<lambda>_.
            editLeaf leaf (leafInsert (weText e) leaf after rid)))))"

section \<open>AUTOINC counters\<close>

definition tableInfoTrailerSize :: nat where "tableInfoTrailerSize = 8"
definition tableInfoCounterFields :: nat where "tableInfoCounterFields = 8"

definition autoIncCounterBase :: "byte list \<Rightarrow> nat \<Rightarrow> nat result" where
  "autoIncCounterBase payload cols =
     (if length payload < internalFileHeaderSize then Inl ErrBookkeepingMismatch
      else let hdrSize = unat (payload ! 0); stored = unat (getU32 payload 1);
               want = 4 + cols * tableInfoCounterFields + tableInfoTrailerSize in
        if hdrSize < internalFileHeaderSize \<or> stored \<noteq> want \<or> hdrSize + stored > length payload then Inl ErrBookkeepingMismatch
        else if unat (getU32 payload hdrSize) \<noteq> cols then Inl ErrBookkeepingMismatch
        else Inr (hdrSize + 4))"

definition newCounter :: "byte list \<Rightarrow> nat \<Rightarrow> Column list \<Rightarrow> nat \<Rightarrow> autoIncCounter result" where
  "newCounter payload base cols i =
     (let col = cols ! i; opts = autoInc col;
          inc = (if aiKnown opts then increment opts else 1);
          limit = (if aiKnown opts then maxValue opts else 2 ^ 63 - 1);
          off = base + i * tableInfoCounterFields in
      if FieldType col \<noteq> FieldAutoInc \<or> BaseType col \<noteq> BftInt32 then Inl ErrAutoIncNotMaintained
      else if cycled opts then Inl ErrAutoIncNotMaintained
      else if inc \<le> 0 then Inl ErrAutoIncNotMaintained
      else Inr \<lparr>acCol = i, acOff = off, acValue = sint (getU64 payload off), acIncrement = inc, acMax = limit,
             acRaised = False\<rparr>)"

definition readAutoIncCounters :: "(tableWriter, autoIncCounter list) op" where
  "readAutoIncCounters =
     bindO (getO (\<lambda>w. columns (wLayout w))) (\<lambda>cols.
     let wanted = filter (\<lambda>i. IsAutoInc (cols ! i)) [0..<length cols] in
     if wanted = [] then retO []
     else bindO (getO (\<lambda>w. infoPageNo (edDb w) (wTable w))) (\<lambda>r.
          bindO (liftO r) (\<lambda>no.
          if no < 0 then failO ErrAutoIncNotMaintained
          else bindO (writerLoadPage no) (\<lambda>k.
               bindO (getO (wPayload k)) (\<lambda>p.
               liftO (bindR (autoIncCounterBase p (length cols)) (\<lambda>base. mapR (newCounter p base cols) wanted)))))))"

definition autoIncCounters :: "(tableWriter, autoIncCounter list) op" where
  "autoIncCounters w = (case wAutoInc w of
     Some r \<Rightarrow> (r, w)
   | None \<Rightarrow> (case readAutoIncCounters w of (r, w') \<Rightarrow> (r, w'\<lparr>wAutoInc := Some r\<rparr>)))"

text \<open>The sum wraps at 64 bits.\<close>

definition nextCounter :: "autoIncCounter \<Rightarrow> int result" where
  "nextCounter c =
     (let v = sint (word_of_int (acValue c + acIncrement c) :: u64) in
      if v < acValue c \<or> v > acMax c then Inl ErrAutoIncExhausted
      else if v > 2 ^ 31 - 1 then Inl ErrAutoIncExhausted
      else Inr (int32 v))"

fun fillAutoInc :: "autoIncCounter list \<Rightarrow> goval list \<Rightarrow> goval list result" where
  "fillAutoInc [] vs = Inr vs"
| "fillAutoInc (c # cs) vs =
     (if vs ! acCol c \<noteq> GNil then fillAutoInc cs vs
      else bindR (nextCounter c) (\<lambda>v. fillAutoInc cs (vs[acCol c := GInt v])))"

definition assignAutoInc :: "goval list \<Rightarrow> (tableWriter, goval list) op" where
  "assignAutoInc vs =
     bindO autoIncCounters (\<lambda>counters.
     bindO (getO (\<lambda>w. length (columns (wLayout w)))) (\<lambda>n.
     if length vs \<noteq> n then retO vs else liftO (fillAutoInc counters vs)))"

definition raiseCounter :: "layout \<Rightarrow> rowbytes \<Rightarrow> autoIncCounter \<Rightarrow> autoIncCounter" where
  "raiseCounter l row c =
     (let v = rowInt l row (int (acCol c)) in
      if \<not> rowIsNull l row (int (acCol c)) \<and> v > acValue c then c\<lparr>acValue := v, acRaised := True\<rparr> else c)"

definition raiseAutoInc :: "byte list \<Rightarrow> (tableWriter, unit) op" where
  "raiseAutoInc rec =
     bindO autoIncCounters (\<lambda>counters.
     if length counters = 0 then retO ()
     else bindO (getO wLayout) (\<lambda>l.
          bindO (liftO (recordOver l rec)) (\<lambda>row.
          modO (\<lambda>w. w\<lparr>wAutoInc := Some (Inr (map (raiseCounter l row) counters))\<rparr>))))"

definition writeAutoIncCounters :: "(tableWriter, unit) op" where
  "writeAutoIncCounters =
     bindO (getO (\<lambda>w. filter acRaised (case wAutoInc w of Some (Inr cs) \<Rightarrow> cs | _ \<Rightarrow> []))) (\<lambda>moved.
     if moved = [] then retO ()
     else bindO (getO (\<lambda>w. infoPageNo (edDb w) (wTable w))) (\<lambda>r.
          bindO (liftO r) (\<lambda>no.
          bindO (writerLoadPage no) (\<lambda>k.
          bindO (getO (wPayload k)) (\<lambda>p.
            putPayload k (fold (\<lambda>c p. splice (acOff c) (leU64 (word_of_int (acValue c))) p) moved p))))))"

end
