(* ===== verification/Table_Creation.thy ===== *)
theory Table_Creation
  imports Column_Changes Index_Build Writer_Checks
begin

text \<open>
  CREATE TABLE (\<open>ddl_create.go\<close>) as a whole operation: the object ids of a new table, its columns, its
  key indexes and its constraint records; the pages it takes; its internal files; the catalog entry.
  The plan is made before anything is allocated, so that what it refuses leaves no trace.
\<close>

declare EqualFold_equiv(2,3) [simp del]

section \<open>Columns\<close>

definition checkTableNameFree :: "wenv \<Rightarrow> dbfile \<Rightarrow> byte list \<Rightarrow> unit result" where
  "checkTableNameFree e db name =
     bindR (Tables (weZlib e) (weCodec e) db) (\<lambda>tables.
       guardR (\<not> list_ex (\<lambda>t. EqualFold (weFold e) (tiName t) name) tables) ErrTableExists)"

definition assignColumnIDs :: "int \<Rightarrow> Column list \<Rightarrow> Column list" where
  "assignColumnIDs tableID cols =
     map (\<lambda>(i, c). c\<lparr>ColID := word_of_int (tableID + 1 + int i), Position := i\<rparr>) (enumerate 0 cols)"

definition columnByName :: "(nat \<Rightarrow> nat) \<Rightarrow> Column list \<Rightarrow> byte list \<Rightarrow> Column option" where
  "columnByName foldRune cols name = find (\<lambda>c. EqualFold foldRune (Name c) name) cols"

definition knownEmptyIndexComponentSize :: "Column \<Rightarrow> nat option" where
  "knownEmptyIndexComponentSize col = map_option kcSize (indexKeyComponentFor 0 col)"

section \<open>Constraint records\<close>

definition ownerOf :: "(nat \<Rightarrow> nat) \<Rightarrow> Column list \<Rightarrow> constraintColumn \<Rightarrow> Column result" where
  "ownerOf foldRune cols covered = (case columnByName foldRune cols (ccName covered) of
     None \<Rightarrow> Inl ErrConstraintsNotRebuilt | Some oc \<Rightarrow> Inr oc)"

definition constraintOwnerColumns ::
    "(nat \<Rightarrow> nat) \<Rightarrow> byte list \<Rightarrow> constraintRecord \<Rightarrow> Column list \<Rightarrow> Column list result" where
  "constraintOwnerColumns foldRune table rec cols =
     (if crTable rec \<noteq> [] \<and> \<not> EqualFold foldRune (crTable rec) table then Inl ErrConstraintsNotRebuilt
      else let key = keyKind (crKind rec) in
        if length (crColumns rec) = 0 \<or> (\<not> key \<and> length (crColumns rec) \<noteq> 1) then Inl ErrConstraintsNotRebuilt
        else mapR (ownerOf foldRune cols) (crColumns rec))"

definition keyIndexColumn :: "Column \<Rightarrow> indexColumn result" where
  "keyIndexColumn oc = (case knownEmptyIndexComponentSize oc of
     None \<Rightarrow> Inl ErrConstraintsNotRebuilt
   | Some _ \<Rightarrow> Inr \<lparr>icName = Name oc, descending = False, caseInsensitive = False,
       maxIndexedSize = indexColumnMaxIndexedSize\<rparr>)"

definition keyConstraintIndex :: "constraintRecord \<Rightarrow> Column list \<Rightarrow> int \<Rightarrow> indexRecord result" where
  "keyConstraintIndex rec owners objectID =
     (if crIndex rec = [] then Inl ErrConstraintsNotRebuilt
      else if length owners = 1 \<and> \<not> indexableKeyColumn (owners ! 0) then Inl ErrConstraintsNotRebuilt
      else bindR (mapR keyIndexColumn owners) (\<lambda>cols.
           Inr \<lparr>irName = crIndex rec, irObjectID = word_of_int objectID, irUnique = (crKind rec = constraintUnique),
             irPrimary = (crKind rec = constraintPrimaryKey), rootPageNo = 0, irColumns = cols, irStart = 0, irEnd = 0\<rparr>))"

text \<open>The second loop of \<open>planTableConstraints\<close>: one index per key record, ids in order.\<close>

fun planKeyIndexes :: "int \<Rightarrow> (constraintRecord \<times> Column list) list \<Rightarrow> indexRecord list result" where
  "planKeyIndexes nextID [] = Inr []"
| "planKeyIndexes nextID ((rec, owners) # rest) =
     (if \<not> keyKind (crKind rec) then planKeyIndexes nextID rest
      else bindR (keyConstraintIndex rec owners nextID) (\<lambda>idx.
           bindR (planKeyIndexes (nextID + 1) rest) (\<lambda>indexes. Inr (idx # indexes))))"

text \<open>The third loop: every record gets its own id, its owner's, and its columns' ids.\<close>

fun stampConstraints ::
    "int \<Rightarrow> indexRecord list \<Rightarrow> (constraintRecord \<times> Column list) list \<Rightarrow> constraintRecord list" where
  "stampConstraints nextID indexes [] = []"
| "stampConstraints nextID indexes ((rec, owners) # rest) =
     (let key = keyKind (crKind rec) in
      rec\<lparr>crObjectID := word_of_int nextID,
          crOwnerID := (if key then irObjectID (hd indexes) else ColID (hd owners)),
          crStart := 0, crEnd := 0,
          crColumns := map2 (\<lambda>covered oc. covered\<lparr>ccObjectID := ColID oc\<rparr>) (crColumns rec) owners\<rparr>
        # stampConstraints (nextID + 1) (if key then tl indexes else indexes) rest)"

definition planTableConstraints ::
    "(nat \<Rightarrow> nat) \<Rightarrow> byte list \<Rightarrow> int \<Rightarrow> Column list \<Rightarrow> constraintRecord list
     \<Rightarrow> (indexRecord list \<times> constraintRecord list) result" where
  "planTableConstraints foldRune table firstID cols constraints =
     bindR (mapR (\<lambda>rec. constraintOwnerColumns foldRune table rec cols) constraints) (\<lambda>owners.
     bindR (planKeyIndexes firstID (zip constraints owners)) (\<lambda>indexes.
       Inr (indexes, stampConstraints (firstID + int (length indexes)) indexes (zip constraints owners))))"

section \<open>The plan\<close>

record newTablePlan =
  npColumns :: "Column list"
  npIndexes :: "indexRecord list"
  npConstraints :: "constraintRecord list"
  npColDefs :: "byte list"
  npLastObjectID :: int

definition planNewTable ::
    "wenv \<Rightarrow> byte list \<Rightarrow> int \<Rightarrow> Column list \<Rightarrow> constraintRecord list \<Rightarrow> newTablePlan result" where
  "planNewTable e name tableID cols constraints =
     (let assigned = assignColumnIDs tableID cols in
      bindR (serializeColumnDefs (weCodec e) assigned) (\<lambda>colDefs.
      bindR (planTableConstraints (weFold e) name (tableID + int (length assigned) + 1) assigned constraints)
        (\<lambda>(indexes, records).
        Inr \<lparr>npColumns = assigned, npIndexes = indexes, npConstraints = records, npColDefs = colDefs,
          npLastObjectID = tableID + int (length assigned) + int (length indexes) + int (length records)\<rparr>)))"

record newTablePages =
  ntSystem :: "nat list"
  ntSchema :: nat
  ntInfo :: nat
  ntIndex :: nat
  ntKeys :: "nat list"

record tableInternalFiles =
  tfColDefs :: "byte list"
  tfIndexes :: "byte list"
  tfConstraints :: "byte list"
  tfColumnCount :: nat
  tfKeySizes :: "nat list"

definition indexRecordKeySize :: "(nat \<Rightarrow> nat) \<Rightarrow> indexRecord \<Rightarrow> Column list \<Rightarrow> nat result" where
  "indexRecordKeySize foldRune rec cols =
     bindR (mapR (\<lambda>covered. case columnByName foldRune cols (icName covered) of
              None \<Rightarrow> Inl ErrBadSchema
            | Some oc \<Rightarrow> (case knownEmptyIndexComponentSize oc of
                None \<Rightarrow> Inl ErrUnsupportedIndexColumn | Some n \<Rightarrow> Inr n)) (irColumns rec)) (\<lambda>sizes.
       if sum_list sizes = 0 \<or> sum_list sizes > 2 ^ 16 - 1 then Inl ErrValueRange else Inr (sum_list sizes))"

definition rootIndexRecords :: "indexRecord list \<Rightarrow> nat list \<Rightarrow> indexRecord list" where
  "rootIndexRecords indexes pages = map2 (\<lambda>rec no. rec\<lparr>rootPageNo := uint32 (int32 (int no))\<rparr>) indexes pages"

definition internalFiles :: "wenv \<Rightarrow> newTablePlan \<Rightarrow> newTablePages \<Rightarrow> tableInternalFiles result" where
  "internalFiles e p pages =
     bindR (serializeIndexArray (weCodec e) (rootIndexRecords (npIndexes p) (ntKeys pages))) (\<lambda>indexArray.
     bindR (mapR (\<lambda>rec. indexRecordKeySize (weFold e) rec (npColumns p)) (npIndexes p)) (\<lambda>keySizes.
     bindR (serializeConstraintArray (weCodec e) (npConstraints p)) (\<lambda>constraintArray.
       Inr \<lparr>tfColDefs = npColDefs p, tfIndexes = indexArray, tfConstraints = constraintArray,
         tfColumnCount = length (npColumns p), tfKeySizes = keySizes\<rparr>)))"

section \<open>Pages\<close>

definition systemInternalFileSize :: nat where "systemInternalFileSize = 6000"

definition openCatalogForAppend :: "wenv \<Rightarrow> byte list \<Rightarrow> (edit, nat) op" where
  "openCatalogForAppend e name =
     bindO (getO (\<lambda>s. findPageByType (edDb s) PageTypeTableList)) (\<lambda>r.
     bindO (liftO r) (\<lambda>catalogPageNo.
     if catalogPageNo < 0 then failO ErrNoCatalog
     else bindO (load catalogPageNo) (\<lambda>k.
          bindO (getO (\<lambda>s. appendCatalogEntry (weCodec e)
                  \<lparr>tiName = name, tiID = 0, SchemaPageNo = 0, InfoPageNo = 0, systemPageNo = 0\<rparr>
                  (bufPayload (bufAt k s)))) (\<lambda>scratch.
          bindO (liftO scratch) (\<lambda>_. retO k)))))"

definition systemFilePageCount :: "'a dbfile_scheme \<Rightarrow> int" where
  "systemFilePageCount db =
     (let payload = payloadSize db; size = int (systemInternalFileSize + internalFileHeaderSize) in
      if payload \<le> 0 then 1 else max ((size + payload - 1) div payload) 1)"

definition allocateTablePages :: "wenv \<Rightarrow> nat \<Rightarrow> (edit, newTablePages) op" where
  "allocateTablePages e keys =
     bindO (getO (\<lambda>s. systemFilePageCount (edDb s))) (\<lambda>n.
     bindO (allocatePages (weSeed e) n PageTypeSystem (-1)) (\<lambda>systemPages.
     bindO (forO (zip systemPages (tl systemPages)) (\<lambda>(a, b). linkChain (int a) (int b))) (\<lambda>_.
     bindO (allocatePages (weSeed e) 1 PageTypeSchema (-1)) (\<lambda>schemaPages.
     bindO (allocatePages (weSeed e) 1 PageTypeTableInfo (-1)) (\<lambda>infoPages.
     bindO (allocatePages (weSeed e) (1 + int keys) PageTypeIndex (-1)) (\<lambda>indexPages.
       retO \<lparr>ntSystem = systemPages, ntSchema = hd schemaPages, ntInfo = hd infoPages,
         ntIndex = hd indexPages, ntKeys = tl indexPages\<rparr>))))))"

section \<open>Contents\<close>

definition buildZeroInternalFile :: "nat \<Rightarrow> byte list" where
  "buildZeroInternalFile n =
     [word_of_nat internalFileHeaderSize] @ leU32 (word_of_nat n) @ replicate 5 0 @ replicate n 0"

definition buildSystemInternalFile :: "byte list" where
  "buildSystemInternalFile = buildZeroInternalFile systemInternalFileSize"

definition buildTableInfoFile :: "nat \<Rightarrow> byte list" where
  "buildTableInfoFile columnCount =
     leU32 (word_of_nat columnCount) @ replicate (columnCount * tableInfoCounterFields + tableInfoTrailerSize) 0"

definition emptyRootHeader :: "byte list" where
  "emptyRootHeader = [1, 1] @ leU32 noPageNo @ leU32 noPageNo @ [1, 0]
     @ leU16 (word_of_nat systemKeySize) @ leU16 0 @ leU16 0"

definition writeIndexRoot :: "int \<Rightarrow> ('x edit_scheme, unit) op" where
  "writeIndexRoot no = bindO (load no) (\<lambda>k. onPayload k (\<lambda>p.
     if length p < btreeHeaderSize then Inl GoPanic else Inr (splice 0 emptyRootHeader p)))"

definition writeTableInternalFiles :: "wenv \<Rightarrow> newTablePages \<Rightarrow> tableInternalFiles \<Rightarrow> (edit, unit) op" where
  "writeTableInternalFiles e pages files =
     bindO (writeInternalFilePages (weSeed e) (int (hd (ntSystem pages))) buildSystemInternalFile) (\<lambda>_.
     bindO (writeIndexRoot (int (ntIndex pages))) (\<lambda>_.
     bindO (forO (zip (ntKeys pages) (tfKeySizes files)) (\<lambda>(no, size). writeIndexLeafOfSize (int no) size [])) (\<lambda>_.
     bindO (liftO (compressInternalFile (weZlib e)
              (buildSchemaFile (tfColDefs files) (tfIndexes files) (tfConstraints files) (int (ntIndex pages))) 1)) (\<lambda>schemaFile.
     bindO (writeInternalFilePages (weSeed e) (int (ntSchema pages)) schemaFile) (\<lambda>_.
     bindO (liftO (compressInternalFile (weZlib e) (buildTableInfoFile (tfColumnCount files)) 0)) (\<lambda>infoFile.
     writeInternalFilePages (weSeed e) (int (ntInfo pages)) infoFile))))))"

section \<open>The operation\<close>

definition createTablePages :: "wenv \<Rightarrow> byte list \<Rightarrow> int \<Rightarrow> newTablePlan \<Rightarrow> (edit, unit) op" where
  "createTablePages e name tableID plan =
     bindO (openCatalogForAppend e name) (\<lambda>catalog.
     bindO (allocateTablePages e (length (npIndexes plan))) (\<lambda>pages.
     bindO (liftO (internalFiles e plan pages)) (\<lambda>files.
     bindO (writeTableInternalFiles e pages files) (\<lambda>_.
     bindO (onPayload catalog (appendCatalogEntry (weCodec e)
              \<lparr>tiName = name, tiID = tableID, SchemaPageNo = int (ntSchema pages), InfoPageNo = int (ntInfo pages),
               systemPageNo = int (hd (ntSystem pages))\<rparr>)) (\<lambda>_.
     bindO flushPages (\<lambda>_.
     modO (\<lambda>s. s\<lparr>edDb := bumpFileState (setLastObjectID (int32 (npLastObjectID plan)) (edDb s))\<rparr>)))))))"

definition createTable :: "wenv \<Rightarrow> byte list \<Rightarrow> Column list \<Rightarrow> constraintRecord list \<Rightarrow> (dbfile, unit) op" where
  "createTable e name cols constraints db =
     (let tableID = lastObjectID db + 1 in
      case (if \<not> writable db then Inl ErrReadOnly
            else bindR (checkTableNameFree e db name) (\<lambda>_.
                 if length cols = 0 then Inl ErrBadSchema
                 else planNewTable e name tableID cols constraints)) of
        Inl er \<Rightarrow> (Inl er, db)
      | Inr plan \<Rightarrow> (case createTablePages e name tableID plan (newPageEdit db) of (r, s) \<Rightarrow> (r, edDb s)))"

definition CreateTable :: "wenv \<Rightarrow> byte list \<Rightarrow> Column list \<Rightarrow> (dbfile, unit) op" where
  "CreateTable e name cols = createTable e name cols []"

section \<open>What the plan guarantees\<close>

lemma length_assignColumnIDs [simp]: "length (assignColumnIDs t cols) = length cols"
  by (simp add: assignColumnIDs_def)

lemma nth_assignColumnIDs:
  "i < length cols \<Longrightarrow> assignColumnIDs t cols ! i = (cols ! i)\<lparr>ColID := word_of_int (t + 1 + int i), Position := i\<rparr>"
  by (simp add: assignColumnIDs_def nth_enumerate_eq)

text \<open>An empty key index is the record-page index's root with another key size.\<close>

lemma emptyRootHeader_eq: "emptyRootHeader = leafHeader systemKeySize 0"
  by (simp add: emptyRootHeader_def leafHeader_def)

lemma length_buildTableInfoFile: "length (buildTableInfoFile n) = 4 + n * tableInfoCounterFields + tableInfoTrailerSize"
  by (simp add: buildTableInfoFile_def leU32_def)

text \<open>The system file fits the pages reserved for it, so writing it takes no page more.\<close>

lemma systemFile_fits:
  assumes "payloadSize db > 0"
  shows "int (length buildSystemInternalFile) \<le> systemFilePageCount db * payloadSize db"
    and "0 < systemFilePageCount db"
proof -
  let ?p = "payloadSize db" and ?n = "int (systemInternalFileSize + internalFileHeaderSize)"
  have "?n + ?p - 1 = (?n + ?p - 1) div ?p * ?p + (?n + ?p - 1) mod ?p" by simp
  moreover have "(?n + ?p - 1) mod ?p < ?p" using assms by simp
  ultimately have "?n \<le> (?n + ?p - 1) div ?p * ?p" by linarith
  also have "\<dots> \<le> max ((?n + ?p - 1) div ?p) 1 * ?p" using assms by (intro mult_right_mono) auto
  finally show "int (length buildSystemInternalFile) \<le> systemFilePageCount db * ?p"
    using assms by (simp add: systemFilePageCount_def Let_def buildSystemInternalFile_def
        buildZeroInternalFile_def internalFileHeaderSize_def leU32_def)
  show "0 < systemFilePageCount db" by (simp add: systemFilePageCount_def Let_def less_max_iff_disj)
qed

text \<open>
  Whether the records of a table can be written depends on the names and types of its columns only,
  not on object ids: the refusal \<open>planCompactConstraints\<close> makes before a compaction creates its file is the
  one \<open>createTable\<close> would make.
\<close>

definition sameColumn :: "Column \<Rightarrow> Column \<Rightarrow> bool" where
  "sameColumn a b \<longleftrightarrow> (\<exists>i p. b = a\<lparr>ColID := i, Position := p\<rparr>)"

lemma sameColumn_facts:
  assumes "sameColumn a b"
  shows "Name b = Name a" "indexKeyComponentFor n b = indexKeyComponentFor n a"
    "knownEmptyIndexComponentSize b = knownEmptyIndexComponentSize a" "indexableKeyColumn b = indexableKeyColumn a"
proof -
  obtain i p where b: "b = a\<lparr>ColID := i, Position := p\<rparr>" using assms by (auto simp: sameColumn_def)
  show "Name b = Name a" by (simp add: b)
  show k: "indexKeyComponentFor n b = indexKeyComponentFor n a" for n
    by (simp add: b indexKeyComponentFor_def)
  show "knownEmptyIndexComponentSize b = knownEmptyIndexComponentSize a"
    by (simp only: knownEmptyIndexComponentSize_def k)
  show "indexableKeyColumn b = indexableKeyColumn a" by (simp only: indexableKeyColumn_def k)
qed

lemma assigned_same: "list_all2 sameColumn cols (assignColumnIDs t cols)"
proof (rule list_all2_all_nthI)
  fix i assume "i < length cols"
  then have "assignColumnIDs t cols ! i = (cols ! i)\<lparr>ColID := word_of_int (t + 1 + int i), Position := i\<rparr>"
    by (rule nth_assignColumnIDs)
  then show "sameColumn (cols ! i) (assignColumnIDs t cols ! i)" unfolding sameColumn_def by blast
qed simp

lemma columnByName_same:
  "list_all2 sameColumn cols cols' \<Longrightarrow>
   rel_option sameColumn (columnByName f cols n) (columnByName f cols' n)"
proof (induction rule: list_all2_induct)
  case (Cons c cs c' cs')
  have nm: "Name c' = Name c" using Cons.hyps(1) by (rule sameColumn_facts)
  show ?case
  proof (cases "EqualFold f (Name c) n")
    case True
    then show ?thesis using Cons.hyps(1) by (simp only: columnByName_def find.simps nm if_True option.rel_inject)
  next
    case False
    then show ?thesis using Cons.IH by (simp only: columnByName_def find.simps nm if_False)
  qed
qed (simp add: columnByName_def)

lemma ownerOf_same:
  assumes "ownerOf f cols x = Inr y" and same: "list_all2 sameColumn cols cols'"
  shows "\<exists>y'. ownerOf f cols' x = Inr y' \<and> sameColumn y y'"
proof -
  have "columnByName f cols (ccName x) = Some y"
    using assms(1) by (auto simp: ownerOf_def split: option.splits)
  then obtain y' where "columnByName f cols' (ccName x) = Some y'" "sameColumn y y'"
    using columnByName_same [OF same, of f "ccName x"] by (auto simp: option_rel_Some1)
  then show ?thesis by (simp add: ownerOf_def)
qed

lemma keyIndexColumn_same: "sameColumn a b \<Longrightarrow> keyIndexColumn b = keyIndexColumn a"
  by (simp only: keyIndexColumn_def sameColumn_facts(1,3) [of a b])

text \<open>\<open>mapR\<close> of two functions that succeed together.\<close>

lemma mapR_related:
  assumes "mapR f xs = Inr ys" and "\<And>x y. x \<in> set xs \<Longrightarrow> f x = Inr y \<Longrightarrow> \<exists>y'. g x = Inr y' \<and> R y y'"
  shows "\<exists>ys'. mapR g xs = Inr ys' \<and> list_all2 R ys ys'"
  using assms
proof (induction xs arbitrary: ys)
  case (Cons x xs)
  from Cons.prems(1) obtain y zs where x: "f x = Inr y" and xs: "mapR f xs = Inr zs" and ys: "ys = y # zs"
    by (auto simp: bindR_def split: sum.splits)
  obtain y' where "g x = Inr y'" "R y y'" using Cons.prems(2) [OF _ x] by auto
  moreover obtain zs' where "mapR g xs = Inr zs'" "list_all2 R zs zs'"
    using Cons.IH [OF xs] Cons.prems(2) by auto
  ultimately show ?case by (simp add: ys)
qed simp

lemma ownerColumns_same:
  assumes "constraintOwnerColumns f t rec cols = Inr os" and same: "list_all2 sameColumn cols cols'"
  shows "\<exists>os'. constraintOwnerColumns f t rec cols' = Inr os' \<and> list_all2 sameColumn os os'"
proof -
  have m: "mapR (ownerOf f cols) (crColumns rec) = Inr os"
    using assms(1) by (simp add: constraintOwnerColumns_def Let_def split: if_splits)
  obtain os' where "mapR (ownerOf f cols') (crColumns rec) = Inr os'" "list_all2 sameColumn os os'"
    using mapR_related [OF m, of "ownerOf f cols'" sameColumn] ownerOf_same [OF _ same] by blast
  then show ?thesis using assms(1) by (auto simp: constraintOwnerColumns_def Let_def split: if_splits)
qed

lemma keyIndex_same:
  assumes "keyConstraintIndex rec os i = Inr x" and same: "list_all2 sameColumn os os'"
  shows "\<exists>x'. keyConstraintIndex rec os' j = Inr x'"
proof -
  from assms(1) obtain ys where ys: "mapR keyIndexColumn os = Inr ys"
    and guards: "crIndex rec \<noteq> []" "\<not> (length os = 1 \<and> \<not> indexableKeyColumn (os ! 0))"
    by (auto simp: keyConstraintIndex_def bindR_def split: if_splits sum.splits)
  have "mapR keyIndexColumn os' = mapR keyIndexColumn os"
    using same by (induction rule: list_all2_induct) (simp_all add: keyIndexColumn_same)
  moreover have "length os' = length os" using same by (simp add: list_all2_lengthD)
  moreover have "length os = 1 \<Longrightarrow> indexableKeyColumn (os' ! 0) = indexableKeyColumn (os ! 0)"
    using same sameColumn_facts(4) [of "os ! 0" "os' ! 0"] by (simp add: list_all2_nthD)
  ultimately show ?thesis using ys guards by (auto simp: keyConstraintIndex_def)
qed

lemma keyIndexes_same:
  assumes "planKeyIndexes i (zip cs oss) = Inr xs" and "list_all2 (list_all2 sameColumn) oss oss'"
  shows "\<exists>xs'. planKeyIndexes j (zip cs oss') = Inr xs'"
  using assms(2,1)
proof (induction oss oss' arbitrary: cs i j xs rule: list_all2_induct)
  case (Cons os oss os' oss')
  show ?case
  proof (cases cs)
    case (Cons c cs')
    show ?thesis
    proof (cases "keyKind (crKind c)")
      case False
      then show ?thesis using Cons.IH Cons.prems by (auto simp: Cons)
    next
      case True
      with Cons.prems obtain x zs where "keyConstraintIndex c os i = Inr x" "planKeyIndexes (i + 1) (zip cs' oss) = Inr zs"
        by (auto simp: Cons bindR_def split: sum.splits)
      then show ?thesis
        using keyIndex_same [OF _ Cons.hyps(1)] Cons.IH True by (simp add: Cons) (metis bindR_simps(2))
    qed
  qed simp
qed simp

lemma plan_needs_no_ids:
  assumes "planTableConstraints f t i cols cs = Inr x" and same: "list_all2 sameColumn cols cols'"
  shows "\<exists>x'. planTableConstraints f t j cols' cs = Inr x'"
proof -
  from assms(1) obtain oss xs where oss: "mapR (\<lambda>rec. constraintOwnerColumns f t rec cols) cs = Inr oss"
    and xs: "planKeyIndexes i (zip cs oss) = Inr xs"
    by (auto simp: planTableConstraints_def bindR_def split: sum.splits)
  have "\<exists>oss'. mapR (\<lambda>rec. constraintOwnerColumns f t rec cols') cs = Inr oss' \<and> list_all2 (list_all2 sameColumn) oss oss'"
    using oss by (rule mapR_related) (rule ownerColumns_same [OF _ same])
  then obtain oss' where oss': "mapR (\<lambda>rec. constraintOwnerColumns f t rec cols') cs = Inr oss'"
    and rel: "list_all2 (list_all2 sameColumn) oss oss'" by blast
  obtain xs' where "planKeyIndexes j (zip cs oss') = Inr xs'" using keyIndexes_same [OF xs rel] by blast
  then show ?thesis by (simp add: planTableConstraints_def oss')
qed

end
