(* ===== verification/Database_Creation.thy ===== *)
theory Database_Creation
  imports Table_Creation Alloc_Spec
begin

text \<open>
  CREATE DATABASE (\<open>ddl_database.go\<close>): the whole file of a new database, built in memory from its geometry.
  The result is read back by \<open>parseHeader\<close>; the three page states the engine seeds at random come from a
  parameter. Creating the operating system file, which fails when it exists, is not modelled.
\<close>

section \<open>Constants\<close>

definition defaultPageSize :: int where "defaultPageSize = 4096"
definition defaultPageCountInExtent :: int where "defaultPageCountInExtent = 8"
definition defaultMaxConnections :: int where "defaultMaxConnections = 500"
text \<open>\<open>math.Float64bits(7.94)\<close>\<close>
definition createdVersion :: u64 where "createdVersion = 0x401FC28F5C28F5C3"
definition freshDatabasePageCount :: nat where "freshDatabasePageCount = 6"
definition freshLastUsedPageNo :: nat where "freshLastUsedPageNo = 4"
definition freshDatabaseState :: u32 where "freshDatabaseState = 1"
definition freshWriteChangesState :: byte where "freshWriteChangesState = 2"
definition headerSizeOffset :: nat where "headerSizeOffset = 16"
definition versionOffset :: nat where "versionOffset = 18"
definition pageSizeOffset :: nat where "pageSizeOffset = 26"
definition pagesInExtentOffset :: nat where "pagesInExtentOffset = 28"
definition writeChangesOffset :: nat where "writeChangesOffset = 42"
definition trailingHeaderSizeOffset :: nat where "trailingHeaderSizeOffset = 356"
definition trailingHeaderSize :: nat where "trailingHeaderSize = 20"
definition systemFileDirPageNo :: nat where "systemFileDirPageNo = 2"
definition connectionTablePageNo :: nat where "connectionTablePageNo = 3"
definition freshCatalogPageNo :: nat where "freshCatalogPageNo = 4"
definition systemDirKindConnections :: byte where "systemDirKindConnections = 2"
definition systemDirKindCatalog :: byte where "systemDirKindCatalog = 1"

lemmas fresh_consts = defaultPageSize_def defaultPageCountInExtent_def defaultMaxConnections_def
  freshDatabasePageCount_def freshLastUsedPageNo_def freshDatabaseState_def freshWriteChangesState_def
  headerSizeOffset_def versionOffset_def pageSizeOffset_def pagesInExtentOffset_def writeChangesOffset_def
  trailingHeaderSizeOffset_def trailingHeaderSize_def systemFileDirPageNo_def connectionTablePageNo_def
  freshCatalogPageNo_def systemDirKindConnections_def systemDirKindCatalog_def

section \<open>Geometry\<close>

record CreateDatabaseOptions =
  optPageSize :: int
  optPerExtent :: int
  optMaxConnections :: int
  optEncrypted :: bool

record geometry =
  gPageSize :: nat
  gPerExtent :: nat
  gMaxConnections :: nat

definition gPayloadSize :: "geometry \<Rightarrow> int" where
  "gPayloadSize g = int (gPageSize g) - int diskPageHeaderSize"

definition orDefault :: "int \<Rightarrow> int \<Rightarrow> int" where
  "orDefault v fallback = (if v = 0 then fallback else v)"

definition normalize :: "CreateDatabaseOptions \<Rightarrow> geometry result" where
  "normalize opts =
     (let ps = orDefault (optPageSize opts) defaultPageSize;
          pe = orDefault (optPerExtent opts) defaultPageCountInExtent;
          mc = orDefault (optMaxConnections opts) defaultMaxConnections in
      if optEncrypted opts then Inl ErrEncryptionUnsupported
      else if ps < int pageDataOffset \<or> ps > 2 ^ 16 - 1 then Inl ErrBadGeometry
      else if pe < 1 \<or> pe > 2 ^ 16 - 1 then Inl ErrBadGeometry
      else if mc < 1 then Inl ErrBadGeometry
      else if int internalFileHeaderSize + mc > ps - int diskPageHeaderSize then Inl ErrBadGeometry
      else Inr \<lparr>gPageSize = nat ps, gPerExtent = nat pe, gMaxConnections = nat mc\<rparr>)"

section \<open>The img\<close>

definition pageBlockHeaderAt :: "nat \<Rightarrow> nat \<Rightarrow> nat" where
  "pageBlockHeaderAt ps no = no * ps + diskPageHeaderOffset"

definition pagePayload :: "byte list \<Rightarrow> nat \<Rightarrow> nat \<Rightarrow> byte list" where
  "pagePayload img ps no =
     (let off = no * ps + pageDataOffset in slc off (off + ps - diskPageHeaderSize) img)"

definition setPagePayload :: "nat \<Rightarrow> nat \<Rightarrow> byte list \<Rightarrow> byte list \<Rightarrow> byte list" where
  "setPagePayload ps no p img = splice (no * ps + pageDataOffset) p img"

definition buildSystemDirectory :: "int \<Rightarrow> int \<Rightarrow> byte list" where
  "buildSystemDirectory connections catalog =
     [systemDirKindConnections] @ leU32 (uint32 (int32 connections))
       @ [systemDirKindCatalog] @ leU32 (uint32 (int32 catalog))"

definition writeFreshHeader :: "geometry \<Rightarrow> byte list \<Rightarrow> byte list" where
  "writeFreshHeader g img =
     splice trailingHeaderSizeOffset (leU16 (word_of_nat trailingHeaderSize))
     (splice cryptoHeaderOffset (leU16 (word_of_nat cryptoHeaderSize))
     (splice writeChangesOffset [freshWriteChangesState]
     (splice fileStateOffset (leU32 freshDatabaseState)
     (splice lastUsedPageOffset (leU32 (word_of_nat freshLastUsedPageNo))
     (splice totalPageCountOffset (leU32 (word_of_nat freshDatabasePageCount))
     (splice pagesInExtentOffset (leU16 (word_of_nat (gPerExtent g)))
     (splice pageSizeOffset (leU16 (word_of_nat (gPageSize g)))
     (splice versionOffset (leU64 createdVersion)
     (splice headerSizeOffset (leU16 (word_of_nat dbHeaderSize))
     (splice 0 Magic img))))))))))"

definition freshInternalFiles :: "zlib \<Rightarrow> geometry \<Rightarrow> (nat \<times> byte list) list result" where
  "freshInternalFiles z g =
     bindR (compressInternalFile z (buildSystemDirectory (int connectionTablePageNo) (int freshCatalogPageNo)) 0) (\<lambda>directory.
     bindR (compressInternalFile z [] 0) (\<lambda>catalog.
       let files = [(systemFileDirPageNo, directory),
                    (connectionTablePageNo, buildZeroInternalFile (gMaxConnections g)),
                    (freshCatalogPageNo, catalog)] in
       if list_ex (\<lambda>(no, data). int (length data) > gPayloadSize g) files then Inl ErrBadGeometry
       else Inr files))"

text \<open>The body of the loop of \<open>allocateFreshPages\<close>: page \<open>no\<close> is taken.\<close>

definition allocateFreshPage :: "geometry \<Rightarrow> byte list \<times> u32 \<times> u32 \<Rightarrow> nat \<Rightarrow> byte list \<times> u32 \<times> u32" where
  "allocateFreshPage g = (\<lambda>(img, pfsState, eamState) no.
     (let ps = gPageSize g; pfs = orBit no (pagePayload img ps (nat pfsPageNo));
          img1 = setPagePayload ps (nat pfsPageNo) pfs img;
          eam = pagePayload img1 ps (nat eamPageNo);
          extent = no div gPerExtent g;
          state = computeExtentState pfs extent (gPerExtent g) (int freshDatabasePageCount) in
      if extentState eam extent = state then (img1, pfsState + 1, eamState)
      else (setPagePayload ps (nat eamPageNo) (setExtentState eam extent state) img1, pfsState + 1, eamState + 1)))"

definition allocateFreshPages :: "geometry \<Rightarrow> byte list \<Rightarrow> byte list \<times> u32 \<times> u32" where
  "allocateFreshPages g img = foldl (allocateFreshPage g) (img, 0, 0) [0..<freshLastUsedPageNo + 1]"

definition stampPage :: "nat \<Rightarrow> nat \<times> u16 \<times> u32 \<Rightarrow> byte list \<Rightarrow> byte list" where
  "stampPage ps = (\<lambda>(no, pageType, state) img.
     splice (pageBlockHeaderAt ps no) (writeDiskPageHeader state pageType (-1)) img)"

definition freshStamps :: "(nat \<Rightarrow> u32) \<Rightarrow> u32 \<Rightarrow> u32 \<Rightarrow> (nat \<times> u16 \<times> u32) list" where
  "freshStamps seed pfsState eamState =
     [(nat pfsPageNo, PageTypeFileHdr, pfsState),
      (nat eamPageNo, PageTypeSystemDir, eamState),
      (systemFileDirPageNo, pageTypeSystemFileDir, seed systemFileDirPageNo),
      (connectionTablePageNo, pageTypeConnectionTable, seed connectionTablePageNo),
      (freshCatalogPageNo, PageTypeTableList, seed freshCatalogPageNo)]"

definition buildFreshDatabase :: "zlib \<Rightarrow> (nat \<Rightarrow> u32) \<Rightarrow> geometry \<Rightarrow> byte list result" where
  "buildFreshDatabase z seed g =
     (let img = writeFreshHeader g (replicate (freshDatabasePageCount * gPageSize g + diskPageHeaderOffset) 0) in
      bindR (freshInternalFiles z g) (\<lambda>files.
        case allocateFreshPages g img of (img, pfsState, eamState) \<Rightarrow>
          Inr (fold (\<lambda>(no, data). setPagePayload (gPageSize g) no data) files
                (fold (stampPage (gPageSize g)) (freshStamps seed pfsState eamState) img))))"

definition CreateDatabase ::
    "cipherLib \<Rightarrow> zlib \<Rightarrow> (nat \<Rightarrow> u32) \<Rightarrow> CreateDatabaseOptions \<Rightarrow> dbfile result" where
  "CreateDatabase lib z seed opts =
     bindR (normalize opts) (\<lambda>g.
     bindR (buildFreshDatabase z seed g) (parseHeader lib True))"

end
