(* ===== verification/Index_Changes.thy ===== *)
theory Index_Changes
  imports Column_Changes Index_Build Ownership Writer_Checks
begin

text \<open>
  CREATE INDEX and DROP INDEX (\<open>ddl_index.go\<close>) as whole operations: what is planned and refused before
  anything changes, the new leaf and the new schema stream, the freed tree, and the commit.
\<close>

section \<open>Planning\<close>

record createIndexPlan =
  ciTable :: Table
  ciColumns :: "Column list"
  ciComponents :: "indexKeyComponent list"
  ciNoCase :: bool
  ciKeySize :: nat
  ciSchemaPage :: int
  ciContent :: "byte list"
  ciColsEnd :: nat
  ciIndexCount :: nat
  ciTailStart :: nat
  ciConstraintCount :: nat

definition resolveCreateIndexColumn ::
    "(nat \<Rightarrow> nat) \<Rightarrow> Column list \<Rightarrow> nat \<Rightarrow> bool \<Rightarrow> byte list \<Rightarrow> (Column \<times> indexKeyComponent) result" where
  "resolveCreateIndexColumn foldRune cols n nocase name =
     bindR (findColumnIndex foldRune cols name) (\<lambda>i.
     case indexKeyComponentFor i (cols ! i) of
       None \<Rightarrow> Inl ErrUnsupportedIndexColumn
     | Some kc \<Rightarrow>
         if \<not> nocase then Inr (cols ! i, kc)
         else if n \<noteq> 1 then Inl ErrMultiColumnIndex
         else if kcKind kc \<noteq> indexKeyString then Inl ErrUnsupportedIndexColumn
         else Inr (cols ! i, kc\<lparr>kcNoCase := True\<rparr>))"

definition resolveCreateIndexColumns ::
    "(nat \<Rightarrow> nat) \<Rightarrow> Column list \<Rightarrow> byte list list \<Rightarrow> bool \<Rightarrow> (Column list \<times> indexKeyComponent list \<times> nat) result" where
  "resolveCreateIndexColumns foldRune cols names nocase =
     (if length names = 0 \<or> length names > maxSchemaColumns then Inl ErrValueRange
      else bindR (mapR (resolveCreateIndexColumn foldRune cols (length names) nocase) names) (\<lambda>cs.
        let keySize = sum_list (map (kcSize \<circ> snd) cs) in
        if keySize > 2 ^ 16 - 1 then Inl ErrValueRange else Inr (map fst cs, map snd cs, keySize)))"

definition planCreateIndex ::
    "zlib \<Rightarrow> codec \<Rightarrow> (nat \<Rightarrow> nat) \<Rightarrow> dbfile \<Rightarrow> byte list \<Rightarrow> byte list \<Rightarrow> byte list list \<Rightarrow> bool \<Rightarrow> createIndexPlan result" where
  "planCreateIndex z cd foldRune db table index names nocase =
     bindR (fileTable z cd foldRune db table) (\<lambda>t.
     bindR (tableSchema z cd foldRune db t) (\<lambda>cols.
     bindR (resolveCreateIndexColumns foldRune cols names nocase) (\<lambda>(resolved, comps, keySize).
     bindR (schemaPageNo db t) (\<lambda>no.
     bindR (readSchemaStream z db no) (\<lambda>content.
     bindR (parseSchemaTail cd content) (\<lambda>(colsEnd, indexCount, records, constraints, tailStart).
       if list_ex (\<lambda>r. EqualFold foldRune (irName r) index) records then Inl ErrIndexExists
       else Inr \<lparr>ciTable = t, ciColumns = resolved, ciComponents = comps, ciNoCase = nocase, ciKeySize = keySize,
         ciSchemaPage = no, ciContent = content, ciColsEnd = colsEnd, ciIndexCount = indexCount, ciTailStart = tailStart,
         ciConstraintCount = length constraints\<rparr>))))))"

definition planSplice :: "createIndexPlan \<Rightarrow> byte list \<Rightarrow> byte list option \<Rightarrow> byte list" where
  "planSplice p = createIndexSplice (ciContent p) (ciColsEnd p) (ciIndexCount p) (ciTailStart p) (ciConstraintCount p)"

section \<open>The new records\<close>

text \<open>\<open>"C_Unique$" + column\<close>\<close>

definition uniqueConstraintName :: "byte list \<Rightarrow> byte list" where
  "uniqueConstraintName column = [67, 95, 85, 110, 105, 113, 117, 101, 36] @ column"

definition serializeNewIndex ::
    "codec \<Rightarrow> createIndexPlan \<Rightarrow> byte list \<Rightarrow> int \<Rightarrow> int \<Rightarrow> bool \<Rightarrow> (byte list \<times> byte list option) result" where
  "serializeNewIndex cd plan index objectID rootPage uniq =
     (let covered = map (\<lambda>c. \<lparr>icName = Name c, descending = False, caseInsensitive = ciNoCase plan,
            maxIndexedSize = indexColumnMaxIndexedSize\<rparr>) (ciColumns plan);
          first = hd (ciColumns plan) in
      bindR (serializeIndexRecord cd \<lparr>irName = index, irObjectID = word_of_int objectID, irUnique = uniq, irPrimary = False,
          rootPageNo = uint32 (int32 rootPage), irColumns = covered, irStart = 0, irEnd = 0\<rparr>) (\<lambda>recd.
      if \<not> uniq then Inr (recd, None)
      else bindR (serializeConstraintRecord cd \<lparr>crKind = constraintUnique, crName = uniqueConstraintName (Name first),
          crObjectID = word_of_int (objectID + 1), crOwnerID = word_of_int objectID, crTable = [], crIndex = index,
          crColumns = [\<lparr>ccName = Name first, ccObjectID = ColID first\<rparr>], crMin = noValue, crMax = noValue,
          crStart = 0, crEnd = 0\<rparr>) (\<lambda>constr. Inr (recd, Some constr))))"

definition createIndexEntries :: "wenv \<Rightarrow> dbfile \<Rightarrow> createIndexPlan \<Rightarrow> bool \<Rightarrow> BTreeEntry list result" where
  "createIndexEntries e db plan uniq =
     (if uniq \<and> length (ciColumns plan) > 1 then Inl ErrMultiColumnIndex
      else bindR (openTable (weZlib e) (weCodec e) (weFold e) db (ciTable plan)) (buildIndexLeafEntries (weText e) (ciComponents plan)))"

section \<open>Creating\<close>

definition createIndexPages ::
    "wenv \<Rightarrow> createIndexPlan \<Rightarrow> byte list \<Rightarrow> bool \<Rightarrow> BTreeEntry list \<Rightarrow> (edit, unit) op" where
  "createIndexPages e plan index uniq entries =
     bindO (allocatePages (weSeed e) 1 PageTypeIndex (-1)) (\<lambda>pages.
     bindO (writeIndexLeafOfSize (int (hd pages)) (ciKeySize plan) entries) (\<lambda>_.
     bindO (getO (\<lambda>s. lastObjectID (edDb s) + 1)) (\<lambda>objectID.
     bindO (liftO (serializeNewIndex (weCodec e) plan index objectID (int (hd pages)) uniq)) (\<lambda>(recd, constr).
     bindO (writeSchemaStream (weZlib e) (weSeed e) (ciSchemaPage plan) (planSplice plan recd constr)) (\<lambda>_.
     bindO flushPages (\<lambda>_.
     modO (\<lambda>s. s\<lparr>edDb := bumpFileState (setLastObjectID (int32 (if uniq then objectID + 1 else objectID)) (edDb s))\<rparr>)))))))"

definition createIndex ::
    "wenv \<Rightarrow> byte list \<Rightarrow> byte list \<Rightarrow> byte list list \<Rightarrow> bool \<Rightarrow> bool \<Rightarrow> (dbfile, unit) op" where
  "createIndex e table index names uniq nocase db =
     (if \<not> writable db then (Inl ErrReadOnly, db)
      else case bindR (planCreateIndex (weZlib e) (weCodec e) (weFold e) db table index names nocase) (\<lambda>plan.
                bindR (createIndexEntries e db plan uniq) (\<lambda>entries.
                bindR (if uniq then refuseDuplicateEntries (weText e) (ciComponents plan) entries else Inr ()) (\<lambda>_.
                  Inr (plan, entries)))) of
        Inl er \<Rightarrow> (Inl er, db)
      | Inr (plan, entries) \<Rightarrow>
          (case createIndexPages e plan index uniq entries (newPageEdit db) of (r, s) \<Rightarrow> (r, edDb s)))"

definition CreateIndex :: "wenv \<Rightarrow> byte list \<Rightarrow> byte list \<Rightarrow> byte list list \<Rightarrow> (dbfile, unit) op" where
  "CreateIndex e table index names = createIndex e table index names False False"

definition CreateNoCaseIndex :: "wenv \<Rightarrow> byte list \<Rightarrow> byte list \<Rightarrow> byte list \<Rightarrow> (dbfile, unit) op" where
  "CreateNoCaseIndex e table index name = createIndex e table index [name] False True"

definition CreateUniqueIndex :: "wenv \<Rightarrow> byte list \<Rightarrow> byte list \<Rightarrow> byte list list \<Rightarrow> (dbfile, unit) op" where
  "CreateUniqueIndex e table index names = createIndex e table index names True False"

section \<open>Dropping\<close>

definition refuseConstraintIndex :: "indexRecord \<Rightarrow> constraintRecord list \<Rightarrow> unit result" where
  "refuseConstraintIndex rec constraints =
     (if irPrimary rec \<or> irUnique rec then Inl ErrIndexBacksConstraint
      else guardR (\<not> list_ex (\<lambda>c. crOwnerID c = irObjectID rec) constraints) ErrIndexBacksConstraint)"

definition findIndexRecord :: "(nat \<Rightarrow> nat) \<Rightarrow> indexRecord list \<Rightarrow> byte list \<Rightarrow> indexRecord result" where
  "findIndexRecord foldRune records name = (case find (\<lambda>r. EqualFold foldRune (irName r) name) records of
     None \<Rightarrow> Inl ErrNoSuchIndex | Some r \<Rightarrow> Inr r)"

definition DropIndex :: "wenv \<Rightarrow> byte list \<Rightarrow> byte list \<Rightarrow> (dbfile, unit) op" where
  "DropIndex e table index db =
     (if \<not> writable db then (Inl ErrReadOnly, db)
      else case bindR (fileTable (weZlib e) (weCodec e) (weFold e) db table) (\<lambda>t.
                bindR (schemaPageNo db t) (\<lambda>no.
                bindR (readSchemaStream (weZlib e) db no) (\<lambda>content.
                bindR (parseSchemaTail (weCodec e) content) (\<lambda>(colsEnd, indexCount, records, constraints, tailStart).
                bindR (findIndexRecord (weFold e) records index) (\<lambda>rec.
                bindR (refuseConstraintIndex rec constraints) (\<lambda>_.
                bindR (indexTreePages db (sint (rootPageNo rec))) (\<lambda>tree.
                  Inr (no, dropIndexStream content colsEnd indexCount tailStart rec, tree)))))))) of
        Inl er \<Rightarrow> (Inl er, db)
      | Inr (no, content, tree) \<Rightarrow>
          (case bindO (freeChainPages (map nat tree)) (\<lambda>_.
                bindO (writeSchemaStream (weZlib e) (weSeed e) no content) (\<lambda>_.
                bindO flushPages (\<lambda>_.
                modO (\<lambda>s. s\<lparr>edDb := bumpFileState (edDb s)\<rparr>)))) (newPageEdit db) of
             (r, s) \<Rightarrow> (r, edDb s)))"

end
