(* ===== verification/Writer_Ops.thy ===== *)
theory Writer_Ops
  imports Writer_Checks
begin

text \<open>
  The operations of a table writer (\<open>writer.go\<close>, \<open>storeRecordReindexing\<close> of \<open>writer_index.go\<close>): inserting,
  overwriting and deleting records in the buffers, and \<open>Commit\<close>, which brings the engine's counters
  forward and writes the pages.
\<close>

section \<open>Storing a record\<close>

definition allZero :: "byte list \<Rightarrow> bool" where
  "allZero = list_all (\<lambda>b. b = 0)"

definition losesBlob :: "layout \<Rightarrow> byte list \<Rightarrow> byte list \<Rightarrow> nat \<Rightarrow> bool" where
  "losesBlob l old rec i \<longleftrightarrow> IsBLOB (columns l ! i) \<and>
     (let from' = nullFlagBytes l + fieldOffsets l ! i; to' = from' + fieldStoreSizes l ! i in
      \<not> (slc from' to' old = slc from' to' rec \<or> allZero (slc from' to' old)))"

definition checkBlobReferences :: "layout \<Rightarrow> byte list \<Rightarrow> byte list \<Rightarrow> unit result" where
  "checkBlobReferences l old rec =
     guardR (\<not> list_ex (losesBlob l old rec) [0..<length (columns l)]) ErrBlobReferenceLost"

definition validateStore :: "nat \<Rightarrow> nat \<Rightarrow> byte list \<Rightarrow> (tableWriter, unit) op" where
  "validateStore k start rec =
     bindO (getO (\<lambda>w. (wLayout w, wPayload k w))) (\<lambda>(l, p).
     if length rec \<noteq> recordSize l then failO ErrRecordSize
     else liftO (checkBlobReferences l (slc start (start + recordSize l) p) rec))"

definition touch :: "(tableWriter, unit) op" where
  "touch = modO (\<lambda>w. w\<lparr>wTouched := wTouched w + 1\<rparr>)"

definition storeRecord :: "nat \<Rightarrow> nat \<Rightarrow> byte list \<Rightarrow> (tableWriter, unit) op" where
  "storeRecord k start rec =
     bindO (validateStore k start rec) (\<lambda>_.
     bindO (getO (wPayload k)) (\<lambda>p.
     bindO (putPayload k (splice start rec p)) (\<lambda>_. touch)))"

definition storeRecordReindexing :: "wenv \<Rightarrow> RecordID \<Rightarrow> nat \<Rightarrow> nat \<Rightarrow> byte list \<Rightarrow> (tableWriter, unit) op" where
  "storeRecordReindexing e rid k start rec =
     bindO (validateStore k start rec) (\<lambda>_.
     bindO (maintainedIndexes e) (\<lambda>indexes.
     bindO (checkConstraints rec) (\<lambda>_.
     bindO (indexKeys indexes rid) (\<lambda>before.
     bindO (checkKeyIndexes e indexes rec before) (\<lambda>_.
     bindO (storeRecord k start rec) (\<lambda>_.
     indexReplace e indexes rid before))))))"

section \<open>The operations\<close>

definition Update :: "wenv \<Rightarrow> RecordID \<Rightarrow> goval list \<Rightarrow> (tableWriter, unit) op" where
  "Update e rid vs =
     bindO (getO (\<lambda>w. encodeRecord (ansiEncode (weCodec e)) (wLayout w) vs)) (\<lambda>r.
     bindO (liftO r) (\<lambda>rec.
     bindO (slot rid True) (\<lambda>(k, start). storeRecordReindexing e rid k start rec)))"

definition UpdateColumn :: "wenv \<Rightarrow> RecordID \<Rightarrow> int \<Rightarrow> goval \<Rightarrow> (tableWriter, unit) op" where
  "UpdateColumn e rid col v =
     bindO (slot rid True) (\<lambda>(k, start).
     bindO (getO (\<lambda>w. encodeInto (ansiEncode (weCodec e)) (wLayout w)
              (slc start (start + recordSize (wLayout w)) (wPayload k w)) col v)) (\<lambda>r.
     bindO (liftO r) (\<lambda>rec. storeRecordReindexing e rid k start rec)))"

text \<open>The write of \<open>Insert\<close>: the record into its slot, the occupancy bit, and the bookkeeping.\<close>

definition placeRecord :: "RecordID \<Rightarrow> byte list \<Rightarrow> (tableWriter, unit) op" where
  "placeRecord rid rec =
     bindO (slot rid False) (\<lambda>(k, start).
     bindO (getO (\<lambda>w. (wLayout w, wPayload k w))) (\<lambda>(l, p).
     if bitSet p (ridSlot rid) (bitmapBytes l) then failO ErrSlotOccupied
     else bindO (putPayload k (setBit (splice start (take (recordSize l) rec) p) (ridSlot rid) (bitmapBytes l))) (\<lambda>_.
          bindO (modO (\<lambda>w. w\<lparr>wDelta := bumpDelta (ridPage rid) 1 (wDelta w)\<rparr>)) (\<lambda>_. touch))))"

definition Insert :: "wenv \<Rightarrow> goval list \<Rightarrow> (tableWriter, RecordID) op" where
  "Insert e vs =
     bindO (assignAutoInc vs) (\<lambda>vs.
     bindO (getO (\<lambda>w. encodeRecord (ansiEncode (weCodec e)) (wLayout w) vs)) (\<lambda>r.
     bindO (liftO r) (\<lambda>rec.
     bindO (maintainedIndexes e) (\<lambda>indexes.
     bindO (checkConstraints rec) (\<lambda>_.
     bindO (indexRoom indexes) (\<lambda>_.
     bindO (checkKeyIndexes e indexes rec None) (\<lambda>_.
     bindO (freeSlot e) (\<lambda>rid.
     bindO (placeRecord rid rec) (\<lambda>_.
     bindO (raiseAutoInc rec) (\<lambda>_.
     bindO (indexInsert e indexes rid) (\<lambda>_. retO rid)))))))))))"

definition Delete :: "wenv \<Rightarrow> RecordID \<Rightarrow> (tableWriter, unit) op" where
  "Delete e rid =
     bindO (maintainedIndexes e) (\<lambda>indexes.
     bindO (slot rid True) (\<lambda>(k, start).
     bindO (indexRemove indexes rid) (\<lambda>_.
     bindO (getO (\<lambda>w. (wLayout w, wPayload k w))) (\<lambda>(l, p).
     bindO (putPayload k (clearBit p (ridSlot rid) (bitmapBytes l))) (\<lambda>_.
     bindO (modO (\<lambda>w. w\<lparr>wDelta := bumpDelta (ridPage rid) (-1) (wDelta w)\<rparr>)) (\<lambda>_. touch))))))"

section \<open>The engine's counters\<close>

text \<open>The entries of the Go map \<open>readRecordPageEntries\<close> fills; of two for one page the later stands.\<close>

definition recordPageEntries :: "tableWriter \<Rightarrow> byte list \<Rightarrow> BTreePageHeader \<Rightarrow> (int \<times> nat) list option" where
  "recordPageEntries w d hdr =
     (if \<not> IsLeaf hdr \<or> unat (KeyPrefixSize hdr) \<noteq> systemKeySize then None
      else let offs = map (\<lambda>i. btreeHeaderSize + i * recordPageEntrySize) [0..<unat (EntryCount hdr)] in
        if list_ex (\<lambda>off. off + recordPageEntrySize > length d \<or> \<not> isDataPage (getI32 d off) w) offs then None
        else let es = map (\<lambda>off. (getI32 d off, unat (getU16 d (off + 4)))) offs;
                 ks = remdups (map fst es) in
          if length ks \<noteq> length (wDataPages w) then None
          else Some (map (\<lambda>k. (k, the (map_of (rev es) k))) ks))"

definition readRecordPageEntries :: "tableWriter \<Rightarrow> int \<Rightarrow> (int \<times> nat) list option result" where
  "readRecordPageEntries w pageNo =
     bindR (ReadPage (edDb w) pageNo) (\<lambda>p.
     bindR (parseBTreeHeader (Payload p)) (\<lambda>hdr. Inr (recordPageEntries w (Payload p) hdr)))"

fun findRecordPageIndex :: "tableWriter \<Rightarrow> IndexInfo list \<Rightarrow> (int \<times> (int \<times> nat) list) result" where
  "findRecordPageIndex w [] = Inl ErrIndexNotMaintained"
| "findRecordPageIndex w (idx # rest) =
     (if \<not> iiIsInternal idx then findRecordPageIndex w rest
      else bindR (readRecordPageEntries w (int (iiRootPageNo idx))) (\<lambda>es. case es of
          Some counts \<Rightarrow> Inr (int (iiRootPageNo idx), counts)
        | None \<Rightarrow> findRecordPageIndex w rest))"

definition recordPageIndex :: "wenv \<Rightarrow> tableWriter \<Rightarrow> (int \<times> (int \<times> nat) list) result" where
  "recordPageIndex e w = bindR (tableOpenIndex (weZlib e) (weCodec e) (edDb w) (wTable w))
     (\<lambda>roots. findRecordPageIndex w (Indexes roots))"

text \<open>One entry of the page; an index page shorter than its entries say panics.\<close>

definition updatePageCount :: "nat \<Rightarrow> nat \<Rightarrow> (tableWriter, unit) op" where
  "updatePageCount k i =
     bindO (getO (\<lambda>w. (wPayload k w, wDelta w))) (\<lambda>(p, d).
     let off = btreeHeaderSize + i * recordPageEntrySize; entry = getI32 p off in
     if off + 4 > length p then failO GoPanic
     else if deltaOf d entry = 0 then retO ()
     else bindO (occupiedSlots entry) (\<lambda>occupied.
          if off + 6 > length p then failO GoPanic
          else if uint (getU16 p (off + 4)) \<noteq> occupied - deltaOf d entry then failO ErrBookkeepingMismatch
          else if occupied < 0 \<or> occupied > 2 ^ 16 - 1 then failO ErrBookkeepingMismatch
          else bindO (getO (wPayload k)) (\<lambda>p. putPayload k (splice (off + 4) (leU16 (word_of_int occupied)) p))))"

definition updatePageCounts :: "wenv \<Rightarrow> (tableWriter, int) op" where
  "updatePageCounts e =
     bindO (getO (recordPageIndex e)) (\<lambda>r.
     bindO (liftO r) (\<lambda>(pageNo, counts).
     let total = int (sum_list (map snd counts)) in
     bindO (getO wDelta) (\<lambda>d.
     if length d = 0 then retO total
     else bindO (writerLoadPage pageNo) (\<lambda>k.
          bindO (getO (\<lambda>w. leafCount (wPayload k w))) (\<lambda>n.
          bindO (forO [0..<n] (updatePageCount k)) (\<lambda>_. retO total))))))"

definition tableInfoOffsets :: "byte list \<Rightarrow> (nat \<times> nat) result" where
  "tableInfoOffsets payload =
     (if length payload < internalFileHeaderSize then Inl ErrBookkeepingMismatch
      else let hdrSize = unat (payload ! 0); stored = unat (getU32 payload 1); end' = hdrSize + stored in
        if hdrSize < internalFileHeaderSize \<or> stored < tableInfoTrailerSize then Inl ErrBookkeepingMismatch
        else if end' > length payload then Inl ErrBookkeepingMismatch
        else Inr (end' - 8, end' - 4))"

definition updateCounters :: "int \<Rightarrow> (tableWriter, unit) op" where
  "updateCounters before =
     bindO (getO (\<lambda>w. infoPageNo (edDb w) (wTable w))) (\<lambda>r.
     bindO (liftO r) (\<lambda>no.
     if no < 0 then retO ()
     else bindO (writerLoadPage no) (\<lambda>k.
          bindO (getO (\<lambda>w. (wPayload k w, sum_list (map snd (wDelta w)), wTouched w))) (\<lambda>(p, added, touched).
          bindO (liftO (tableInfoOffsets p)) (\<lambda>(changeOff, countOff).
          if getI32 p countOff \<noteq> before then retO ()
          else let total = before + added in
            if total < 0 \<or> total > 2 ^ 31 - 1 then failO ErrBookkeepingMismatch
            else let p1 = splice countOff (leU32 (word_of_int total)) p in
              bindO (updBuf k (setPayload p1)) (\<lambda>_.
              if touched < 0 \<or> touched > 2 ^ 31 - 1 then failO ErrBookkeepingMismatch
              else putPayload k (splice changeOff (leU32 (getU32 p1 changeOff + word_of_int touched)) p1)))))))"

definition updateTableInfo :: "wenv \<Rightarrow> (tableWriter, unit) op" where
  "updateTableInfo e = bindO (updatePageCounts e) (\<lambda>total. bindO (updateCounters total) (\<lambda>_. writeAutoIncCounters))"

section \<open>Commit\<close>

definition Commit :: "wenv \<Rightarrow> (tableWriter, unit) op" where
  "Commit e =
     bindO (getO wClosed) (\<lambda>closed.
     if closed then failO ErrWriterClosed
     else bindO (modO (\<lambda>w. w\<lparr>wClosed := True\<rparr>)) (\<lambda>_.
          bindO (getO modified) (\<lambda>m.
          if \<not> m then retO ()
          else bindO (updateTableInfo e) (\<lambda>_.
               bindO flushPages (\<lambda>_.
               modO (\<lambda>w. w\<lparr>edDb := bumpFileState (edDb w)\<rparr>))))))"

end
