(* ===== verification/Compaction.thy ===== *)
theory Compaction
  imports Database_Creation Index_Changes Writer_Ops
begin

text \<open>
  Compaction (\<open>ddl_compact.go\<close>): the plan read from the source file, its refusals, and the rebuild of every
  table, index and row in a new database, which is cut to its last used page at the end.
\<close>

declare EqualFold_equiv(2,3) [simp del]

section \<open>The plan\<close>

record compactIndex =
  cxName :: "byte list"
  cxColumns :: "byte list list"
  cxNoCase :: bool

record compactTable =
  ctName :: "byte list"
  ctColumns :: "Column list"
  ctIndexes :: "compactIndex list"
  ctConstraints :: "constraintRecord list"

definition maxConnections :: "dbfile \<Rightarrow> int result" where
  "maxConnections db =
     bindR (findPageByType db pageTypeConnectionTable) (\<lambda>pageNo.
       if pageNo < 0 then Inl ErrBadGeometry
       else bindR (ReadPage db pageNo) (\<lambda>p.
         if length (Payload p) < internalFileHeaderSize then Inl ErrBadGeometry
         else let n = getI32 (Payload p) 1 in if n < 1 then Inl ErrBadGeometry else Inr n))"

definition compactionGeometry :: "dbfile \<Rightarrow> CreateDatabaseOptions result" where
  "compactionGeometry db =
     bindR (maxConnections db) (\<lambda>connections.
       Inr \<lparr>optPageSize = int (pageSize db), optPerExtent = int (pagesInExtent db),
         optMaxConnections = connections, optEncrypted = False\<rparr>)"

definition tableIsEmpty :: "wenv \<Rightarrow> dbfile \<Rightarrow> Table \<Rightarrow> bool result" where
  "tableIsEmpty e db t =
     bindR (openTable (weZlib e) (weCodec e) (weFold e) db t) (\<lambda>r.
       case Next r of
         (True, r') \<Rightarrow> Inr False
       | (False, r') \<Rightarrow> (case rdErr r' of Some er \<Rightarrow> Inl er | None \<Rightarrow> Inr True))"

definition keyBackingIndexes :: "constraintRecord list \<Rightarrow> u32 list" where
  "keyBackingIndexes constraints = map crOwnerID (filter (\<lambda>rec. keyKind (crKind rec)) constraints)"

definition schemaTailArrays :: "codec \<Rightarrow> byte list \<Rightarrow> (indexRecord list \<times> constraintRecord list) result" where
  "schemaTailArrays cd content =
     bindR (parseSchemaTail cd content) (\<lambda>(colsEnd, indexCount, records, constraints, tailStart). Inr (records, constraints))"

text \<open>One covered column of the populated compound key of \<open>planCompactConstraints\<close>.\<close>

definition checkKeyColumn :: "wenv \<Rightarrow> Column list \<Rightarrow> constraintColumn \<Rightarrow> unit result" where
  "checkKeyColumn e cols covered =
     bindR (wrapErr ErrConstraintsNotRebuilt (findColumnIndex (weFold e) cols (ccName covered))) (\<lambda>i.
       guardR (indexableKeyColumn (cols ! i)) ErrConstraintsNotRebuilt)"

definition planCompactConstraints ::
    "wenv \<Rightarrow> byte list \<Rightarrow> Column list \<Rightarrow> constraintRecord list \<Rightarrow> bool \<Rightarrow> unit result" where
  "planCompactConstraints e table cols constraints allowMixedEmpty =
     bindR (mapR (\<lambda>rec.
        if \<not> allowMixedEmpty \<and> keyKind (crKind rec) \<and> length (crColumns rec) > 1
        then bindR (mapR (checkKeyColumn e cols) (crColumns rec)) (\<lambda>_. Inr ())
        else Inr ()) constraints) (\<lambda>_.
     bindR (planTableConstraints (weFold e) table 1 cols constraints) (\<lambda>_. Inr ()))"

definition compactIndexColumn :: "wenv \<Rightarrow> Column list \<Rightarrow> nat \<Rightarrow> bool \<Rightarrow> indexColumn \<Rightarrow> byte list result" where
  "compactIndexColumn e cols n allowMixedEmpty col =
     bindR (findColumnIndex (weFold e) cols (icName col)) (\<lambda>i.
       let oc = cols ! i in
       if caseInsensitive col \<and> (case indexKeyComponentFor i oc of None \<Rightarrow> True | Some c \<Rightarrow> kcKind c \<noteq> indexKeyString)
       then Inl ErrUnsupportedIndexColumn
       else if n = 1 \<or> \<not> allowMixedEmpty
       then (if \<not> indexableKeyColumn oc then Inl ErrUnsupportedIndexColumn else Inr (Name oc))
       else (if knownEmptyIndexComponentSize oc = None then Inl ErrUnsupportedIndexColumn else Inr (Name oc)))"

definition compactIndexColumns :: "wenv \<Rightarrow> Column list \<Rightarrow> indexRecord \<Rightarrow> bool \<Rightarrow> byte list list result" where
  "compactIndexColumns e cols rec allowMixedEmpty =
     bindR (maintainableIndexColumns rec) (\<lambda>covered.
       mapR (compactIndexColumn e cols (length covered) allowMixedEmpty) covered)"

fun planCompactIndexes ::
    "wenv \<Rightarrow> Column list \<Rightarrow> indexRecord list \<Rightarrow> u32 list \<Rightarrow> bool \<Rightarrow> compactIndex list result" where
  "planCompactIndexes e cols [] keyed allowMixedEmpty = Inr []"
| "planCompactIndexes e cols (rec # rest) keyed allowMixedEmpty =
     (if irObjectID rec \<in> set keyed then
        if list_ex (\<lambda>col. descending col \<or> caseInsensitive col) (irColumns rec) then Inl ErrConstraintsNotRebuilt
        else planCompactIndexes e cols rest keyed allowMixedEmpty
      else bindR (compactIndexColumns e cols rec allowMixedEmpty) (\<lambda>names.
           bindR (planCompactIndexes e cols rest keyed allowMixedEmpty) (\<lambda>indexes.
           Inr (\<lparr>cxName = irName rec, cxColumns = names,
                 cxNoCase = (length (irColumns rec) = 1 \<and> caseInsensitive (hd (irColumns rec)))\<rparr> # indexes))))"

definition checkCompactColumn :: "Column \<Rightarrow> unit result" where
  "checkCompactColumn c =
     (if \<not> knownColumnType c then Inl ErrUnsupportedColumnType
      else if hasDefault c then Inl ErrColumnDefault
      else if \<not> engineDefault (autoInc c) then Inl ErrColumnAutoIncOptions
      else Inr ())"

definition planCompactTable :: "wenv \<Rightarrow> dbfile \<Rightarrow> Table \<Rightarrow> compactTable result" where
  "planCompactTable e db t =
     bindR (tableSchema (weZlib e) (weCodec e) (weFold e) db t) (\<lambda>cols.
     bindR (mapR checkCompactColumn cols) (\<lambda>_.
     bindR (schemaPageNo db t) (\<lambda>no.
     bindR (readSchemaStream (weZlib e) db no) (\<lambda>content.
     bindR (schemaTailArrays (weCodec e) content) (\<lambda>(records, constraints).
     bindR (tableIsEmpty e db t) (\<lambda>empty.
     bindR (planCompactConstraints e (tiName (tblInfo t)) cols constraints empty) (\<lambda>_.
     bindR (planCompactIndexes e cols records (keyBackingIndexes constraints) empty) (\<lambda>indexes.
       Inr \<lparr>ctName = tiName (tblInfo t), ctColumns = cols, ctIndexes = indexes, ctConstraints = constraints\<rparr>))))))))"

definition planCompaction :: "wenv \<Rightarrow> dbfile \<Rightarrow> compactTable list result" where
  "planCompaction e db =
     (if dbEncrypted db then Inl ErrEncryptionUnsupported
      else bindR (Tables (weZlib e) (weCodec e) db) (\<lambda>tables.
           mapR (\<lambda>info. bindR (fileTable (weZlib e) (weCodec e) (weFold e) db (tiName info)) (planCompactTable e db)) tables))"

section \<open>The rebuild\<close>

text \<open>The body of \<open>bumpFoldedTransactions\<close>: two header transactions per key record.\<close>

definition bumpFoldedTransactions :: "constraintRecord list \<Rightarrow> dbfile \<Rightarrow> dbfile" where
  "bumpFoldedTransactions constraints db =
     (bumpFileState ^^ (2 * length (filter (\<lambda>rec. keyKind (crKind rec)) constraints))) db"

text \<open>The row loop of \<open>copyTableRows\<close>; the fuel is a bound on the number of rows of the reader.\<close>

fun copyRows :: "wenv \<Rightarrow> nat \<Rightarrow> reader \<Rightarrow> (tableWriter, unit) op" where
  "copyRows e 0 r = retO ()"
| "copyRows e (Suc fuel) r = (case Next r of
     (False, r1) \<Rightarrow> (case rdErr r1 of Some er \<Rightarrow> failO er | None \<Rightarrow> retO ())
   | (True, r1) \<Rightarrow>
       bindO (liftO (decodeRowValues (ansiDecode (weCodec e)) (rdLayout r1) (currentRecord r1))) (\<lambda>vs.
       bindO (Insert e vs) (\<lambda>_. copyRows e fuel r1)))"

text \<open>
  The writer is opened on the destination and closed at the end; what an insert has written to the file
  before a failure stays written.
\<close>

definition copyTableRows :: "wenv \<Rightarrow> dbfile \<Rightarrow> byte list \<Rightarrow> (dbfile, unit) op" where
  "copyTableRows e src name dst =
     (case bindR (fileTable (weZlib e) (weCodec e) (weFold e) src name) (\<lambda>st.
           bindR (openTable (weZlib e) (weCodec e) (weFold e) src st) (\<lambda>r.
           bindR (fileTable (weZlib e) (weCodec e) (weFold e) dst name) (\<lambda>dt.
           bindR (OpenWriter e dst dt) (\<lambda>w. Inr (r, w))))) of
        Inl er \<Rightarrow> (Inl er, dst)
      | Inr (r, w) \<Rightarrow>
          (case bindO (copyRows e (Suc (length (dataPages r) * recsPerPage (rdLayout r))) r) (\<lambda>_. Commit e) w of
             (res, w') \<Rightarrow> (res, edDb w')))"

definition shrinkToLastUsedPage :: "(dbfile, unit) op" where
  "shrinkToLastUsedPage =
     bindO (getO writable) (\<lambda>ok.
     if \<not> ok then failO ErrReadOnly
     else bindO (getO (\<lambda>db. (max (lastUsedPageNo db + 1) (int freshDatabasePageCount), PageCount db))) (\<lambda>(total, count).
       if total \<ge> count then retO ()
       else bindO (getO (\<lambda>db. ReadPage db pfsPageNo)) (\<lambda>r.
            bindO (liftO r) (\<lambda>p.
            if list_ex (\<lambda>no. pfsAllocated (Payload p) (int no)) [nat total..<nat count]
            then failO (ErrText ''page is allocated past LastUsedPageNo'')
            else bindO (setTotalPageCount total) (\<lambda>_.
                 modO (\<lambda>db. db\<lparr>disk := truncateTo (nat total * pageSize db + diskPageHeaderOffset) (disk db)\<rparr>))))))"

definition rebuildIndex :: "wenv \<Rightarrow> byte list \<Rightarrow> compactIndex \<Rightarrow> (dbfile, unit) op" where
  "rebuildIndex e table idx =
     (if cxNoCase idx then CreateNoCaseIndex e table (cxName idx) (hd (cxColumns idx))
      else CreateIndex e table (cxName idx) (cxColumns idx))"

definition rebuildTable :: "wenv \<Rightarrow> dbfile \<Rightarrow> compactTable \<Rightarrow> (dbfile, unit) op" where
  "rebuildTable e src tbl =
     bindO (createTable e (ctName tbl) (ctColumns tbl) (ctConstraints tbl)) (\<lambda>_.
     bindO (modO (bumpFoldedTransactions (ctConstraints tbl))) (\<lambda>_.
     bindO (forO (ctIndexes tbl) (rebuildIndex e (ctName tbl))) (\<lambda>_.
     copyTableRows e src (ctName tbl))))"

definition rebuildInto :: "wenv \<Rightarrow> dbfile \<Rightarrow> compactTable list \<Rightarrow> (dbfile, unit) op" where
  "rebuildInto e src plan = bindO (forO plan (rebuildTable e src)) (\<lambda>_. shrinkToLastUsedPage)"

text \<open>
  From the bytes of the source file to those of the new one; on an error the destination is removed. That
  the destination does not exist yet is a matter of the file system and not modelled.
\<close>

definition CompactDatabase :: "cipherLib \<Rightarrow> wenv \<Rightarrow> byte list \<Rightarrow> byte list result" where
  "CompactDatabase lib e srcBytes =
     bindR (parseHeader lib False srcBytes) (\<lambda>src.
     bindR (planCompaction e src) (\<lambda>plan.
     bindR (compactionGeometry src) (\<lambda>opts.
     bindR (CreateDatabase lib (weZlib e) (weSeed e) opts) (\<lambda>dst.
       case rebuildInto e src plan dst of
         (Inl er, _) \<Rightarrow> Inl er
       | (Inr _, dst') \<Rightarrow> Inr (disk dst')))))"

section \<open>What the plan promises\<close>

text \<open>
  The object ids the planner hands out do not matter to it, so a table whose constraint records the plan
  accepted is not refused by the planner of \<open>createTable\<close> when the destination already exists.
\<close>

lemma planned_constraints_accepted:
  assumes "planCompactConstraints e table cols constraints allow = Inr ()"
  shows "\<exists>x. planTableConstraints (weFold e) table firstID (assignColumnIDs tableID cols) constraints = Inr x"
proof -
  from assms obtain x where "planTableConstraints (weFold e) table 1 cols constraints = Inr x"
    by (auto simp: planCompactConstraints_def bindR_def split: sum.splits)
  from plan_needs_no_ids [OF this assigned_same] show ?thesis .
qed

text \<open>The columns pass the serializer's own checks; only a name it cannot encode is left to refuse.\<close>

lemma checkCompactColumn_ok:
  "checkCompactColumn c = Inr () \<longleftrightarrow> knownColumnType c \<and> \<not> hasDefault c \<and> engineDefault (autoInc c)"
  by (simp add: checkCompactColumn_def)

text \<open>The shrunk file has exactly the pages in use, at least six, and no allocated page behind them.\<close>

lemma min_plus_diff: "min a b + (b - a) = (b :: nat)"
  by simp

lemma shrink_result:
  assumes "shrinkToLastUsedPage db = (Inr (), db')" and small: "PageCount db < 2 ^ 31" "0 \<le> lastUsedPageNo db"
    and cut: "max (lastUsedPageNo db + 1) 6 < PageCount db"
  shows "totalPageCount db' = max (lastUsedPageNo db + 1) 6"
    and "length (disk db') = nat (max (lastUsedPageNo db + 1) 6) * pageSize db + 380"
proof -
  let ?t = "max (lastUsedPageNo db + 1) 6"
  have id: "int32 ?t = ?t" using small cut by (intro int32_id) auto
  obtain p where p: "ReadPage db pfsPageNo = Inr p"
    and free: "\<not> list_ex (\<lambda>no. pfsAllocated (Payload p) (int no)) [nat ?t..<nat (PageCount db)]"
    using assms(1) cut
    by (cases "ReadPage db pfsPageNo")
      (auto simp: shrinkToLastUsedPage_def bindO_def freshDatabasePageCount_def split: if_splits)
  show "totalPageCount db' = ?t" "length (disk db') = nat ?t * pageSize db + 380"
    using assms(1) cut small id p free
    by (auto simp: shrinkToLastUsedPage_def bindO_def freshDatabasePageCount_def setTotalPageCount_def
        truncateTo_def layout_consts PageCount_def min_plus_diff split: if_splits)
qed

end
