(* ===== verification/Creation_Props.thy ===== *)
theory Creation_Props
  imports Database_Creation Release_Props
begin

text \<open>
  A new database is a legal state of everything else: \<open>parseHeader\<close> accepts its image with the requested
  geometry, its two allocation maps are consistent, so that the invariant of the allocator holds from
  the first allocation on, and its catalog lists no table.
\<close>

section \<open>Header and payload of a page of the image\<close>

definition headBytes :: "nat \<Rightarrow> byte list \<Rightarrow> nat \<Rightarrow> byte list" where
  "headBytes ps d n = take diskPageHeaderSize (regionOf ps d n)"

definition payBytes :: "nat \<Rightarrow> byte list \<Rightarrow> nat \<Rightarrow> byte list" where
  "payBytes ps d n = drop diskPageHeaderSize (regionOf ps d n)"

lemma splice_in_region:
  assumes "i + length ys \<le> ps" and fits: "hasRegion ps d m"
  shows "regionOf ps (splice (m * ps + diskPageHeaderOffset + i) ys d) n =
    (if n = m then splice i ys (regionOf ps d m) else regionOf ps d n)"
proof (cases "n = m")
  case True
  then show ?thesis
    using assms by (auto intro!: nth_equalityI simp: regionOf_def hasRegion_def nth_slc nth_splice)
next
  case False
  then have "Suc m \<le> n \<or> Suc n \<le> m" by auto
  then have "Suc m * ps \<le> n * ps \<or> Suc n * ps \<le> m * ps" by (metis mult_le_mono1)
  then show ?thesis using False assms(1) by (auto simp: regionOf_def slc_splice_disjoint)
qed

lemma take_splice_behind: "k \<le> i \<Longrightarrow> take k (splice i ys xs) = take k xs"
  by (auto intro!: nth_equalityI simp: nth_splice)

lemma take_splice_front: "length ys = k \<Longrightarrow> k \<le> length xs \<Longrightarrow> take k (splice 0 ys xs) = ys"
  by simp

lemma drop_splice_front: "length ys = k \<Longrightarrow> k \<le> length xs \<Longrightarrow> drop k (splice 0 ys xs) = drop k xs"
  by simp

lemma drop_splice_shift: "drop k (splice (k + i) ys xs) = splice i ys (drop k xs)"
  by (auto intro!: nth_equalityI simp: nth_splice)

lemma length_region: "hasRegion ps d n \<Longrightarrow> length (regionOf ps d n) = ps"
  by (simp add: regionOf_def hasRegion_def)

lemma stamp_view:
  assumes "hasRegion ps d m" and "pageDataOffset \<le> ps"
  shows "headBytes ps (stampPage ps (m, t, s) d) n = (if n = m then writeDiskPageHeader s t (-1) else headBytes ps d n)"
    and "payBytes ps (stampPage ps (m, t, s) d) n = payBytes ps d n"
    and "length (stampPage ps (m, t, s) d) = length d"
    and "take diskPageHeaderOffset (stampPage ps (m, t, s) d) = take diskPageHeaderOffset d"
    and "hasRegion ps (stampPage ps (m, t, s) d) k = hasRegion ps d k"
proof -
  have r: "regionOf ps (stampPage ps (m, t, s) d) n =
      (if n = m then splice 0 (writeDiskPageHeader s t (-1)) (regionOf ps d m) else regionOf ps d n)"
    using splice_in_region [OF _ assms(1), of 0 "writeDiskPageHeader s t (-1)" n] assms(2)
    by (simp add: stampPage_def pageBlockHeaderAt_def layout_consts)
  show "headBytes ps (stampPage ps (m, t, s) d) n = (if n = m then writeDiskPageHeader s t (-1) else headBytes ps d n)"
    "payBytes ps (stampPage ps (m, t, s) d) n = payBytes ps d n"
    using assms by (simp_all add: headBytes_def payBytes_def r layout_consts length_region)
  show "length (stampPage ps (m, t, s) d) = length d"
    "hasRegion ps (stampPage ps (m, t, s) d) k = hasRegion ps d k"
    by (simp_all add: stampPage_def hasRegion_def)
  show "take diskPageHeaderOffset (stampPage ps (m, t, s) d) = take diskPageHeaderOffset d"
    by (simp add: stampPage_def pageBlockHeaderAt_def take_splice_behind)
qed

lemma payload_view:
  assumes "hasRegion ps d m" and "length p + diskPageHeaderSize \<le> ps"
  shows "headBytes ps (setPagePayload ps m p d) n = headBytes ps d n"
    and "payBytes ps (setPagePayload ps m p d) n = (if n = m then splice 0 p (payBytes ps d n) else payBytes ps d n)"
    and "length (setPagePayload ps m p d) = length d"
    and "take diskPageHeaderOffset (setPagePayload ps m p d) = take diskPageHeaderOffset d"
    and "hasRegion ps (setPagePayload ps m p d) k = hasRegion ps d k"
proof -
  have r: "regionOf ps (setPagePayload ps m p d) n =
      (if n = m then splice 40 p (regionOf ps d m) else regionOf ps d n)"
    using splice_in_region [OF _ assms(1), of 40 p n] assms(2)
    by (simp add: setPagePayload_def layout_consts add.commute)
  show "headBytes ps (setPagePayload ps m p d) n = headBytes ps d n"
    by (simp add: headBytes_def r layout_consts take_splice_behind)
  show "payBytes ps (setPagePayload ps m p d) n = (if n = m then splice 0 p (payBytes ps d n) else payBytes ps d n)"
    using drop_splice_shift [of 40 0 p "regionOf ps d m"] by (simp add: payBytes_def r layout_consts del: drop_splice_0)
  show "length (setPagePayload ps m p d) = length d"
    "hasRegion ps (setPagePayload ps m p d) k = hasRegion ps d k"
    by (simp_all add: setPagePayload_def hasRegion_def)
  show "take diskPageHeaderOffset (setPagePayload ps m p d) = take diskPageHeaderOffset d"
    by (simp add: setPagePayload_def take_splice_behind layout_consts)
qed

lemma pagePayload_eq: "pageDataOffset \<le> ps \<Longrightarrow> pagePayload d ps n = payBytes ps d n"
  by (simp add: pagePayload_def payBytes_def regionOf_def slc_def Let_def layout_consts drop_take ac_simps)

lemma length_payBytes: "hasRegion ps d n \<Longrightarrow> length (payBytes ps d n) = ps - diskPageHeaderSize"
  by (simp add: payBytes_def length_region)

section \<open>The maps page by page\<close>

definition takePage :: "nat \<Rightarrow> byte list \<times> byte list \<times> u32 \<times> u32 \<Rightarrow> nat \<Rightarrow> byte list \<times> byte list \<times> u32 \<times> u32" where
  "takePage per = (\<lambda>(P, E, ps, es) no.
     (let P' = orBit no P; st = computeExtentState P' (no div per) per (int freshDatabasePageCount) in
      if extentState E (no div per) = st then (P', E, ps + 1, es)
      else (P', setExtentState E (no div per) st, ps + 1, es + 1)))"

definition exact :: "nat \<Rightarrow> nat \<Rightarrow> nat \<Rightarrow> byte list \<times> byte list \<times> u32 \<times> u32 \<Rightarrow> bool" where
  "exact N per n = (\<lambda>(P, E, ps, es). length P = N \<and> length E = N
     \<and> (\<forall>i. pfsAllocated P (int i) = (i < n))
     \<and> (\<forall>e < 4 * N. extentState E e = computeExtentState P e per (int freshDatabasePageCount)))"


lemma exact_zero: "exact N per 0 (replicate N 0, replicate N 0, 0, 0)"
proof -
  have p: "pfsAllocated (replicate N 0) i = False" for i
    by (simp add: pfsAllocated_def testBit_def not_le)
  show ?thesis by (simp add: exact_def p computeExtentState_def extentState_def Let_def not_le extentFree_def)
qed

lemma exact_step:
  assumes "exact N per n (P, E, a, b)" and "n < 5" and N: "2 \<le> N" and per: "0 < per"
  shows "exact N per (Suc n) (takePage per (P, E, a, b) n)"
proof -
  let ?P = "orBit n P" and ?e = "n div per"
  let ?st = "\<lambda>e. computeExtentState ?P e per (int freshDatabasePageCount)"
  have len: "length P = N" "length E = N" and bits: "\<And>i. pfsAllocated P (int i) = (i < n)"
    and E: "\<And>e. e < 4 * N \<Longrightarrow> extentState E e = computeExtentState P e per (int freshDatabasePageCount)"
    using assms(1) by (auto simp: exact_def)
  have P: "?P = pfs_put True n P" by (simp add: pfs_put_def)
  have n: "n < 8 * length P" using assms(2) N len by simp
  have bits': "pfsAllocated ?P (int i) = (i < Suc n)" for i
  proof -
    have "pfsAllocated (pfs_put True n P) (int i) = (if i = n then True else pfsAllocated P (int i))"
      by (rule pfs.test_put [OF n])
    then show ?thesis unfolding P bits by (simp only: less_Suc_eq) (simp split: if_splits)
  qed
  have e: "?e < 4 * length E" using assms(2) N len div_le_dividend [of n per] by linarith
  have other: "?st e = extentState E e" if "e < 4 * N" "e \<noteq> ?e" for e
  proof -
    have "?st e = computeExtentState P e per (int freshDatabasePageCount)"
    proof (rule computeExtentState_cong [OF per])
      fix no assume "no div per = e"
      then have "no \<noteq> n" using that(2) by auto
      then show "(int no < int freshDatabasePageCount \<and> pfsAllocated ?P (int no)) =
          (int no < int freshDatabasePageCount \<and> pfsAllocated P (int no))"
        using bits' bits by auto
    qed
    then show ?thesis using E that by simp
  qed
  have "extentState (if extentState E ?e = ?st ?e then E else setExtentState E ?e (?st ?e)) e = ?st e"
    if "e < 4 * N" for e
    using eam.get_upd [OF e extent_values_le, of ?P ?e per "int freshDatabasePageCount" e] other [OF that] by auto
  moreover have "length ?P = N" by (simp add: P len)
  ultimately show ?thesis using bits' len by (auto simp: exact_def takePage_def Let_def)
qed

lemma exact_fresh:
  assumes "2 \<le> N" and "0 < per"
  shows "exact N per 5 (foldl (takePage per) (replicate N 0, replicate N 0, 0, 0) [0..<5])"
proof -
  have "n \<le> 5 \<Longrightarrow> exact N per n (foldl (takePage per) (replicate N 0, replicate N 0, 0, 0) [0..<n])" for n
  proof (induction n)
    case (Suc n)
    obtain P E a b where f: "foldl (takePage per) (replicate N 0, replicate N 0, 0, 0) [0..<n] = (P, E, a, b)"
      by (metis prod_cases4)
    show ?case using exact_step [of N per n P E a b] Suc assms by (simp add: f)
  qed (simp add: exact_zero)
  then show ?thesis by simp
qed

lemma exact_maps_ok:
  assumes "exact N per 5 (P, E, a, b)"
  shows "maps_ok P E per 6"
  using assms by (simp add: exact_def maps_ok_def freshDatabasePageCount_def)

section \<open>The image page by page\<close>

definition sameFrame :: "nat \<Rightarrow> byte list \<Rightarrow> byte list \<Rightarrow> bool" where
  "sameFrame ps d d' \<longleftrightarrow> length d' = length d \<and> take diskPageHeaderOffset d' = take diskPageHeaderOffset d
     \<and> (\<forall>n. headBytes ps d' n = headBytes ps d n) \<and> (\<forall>n \<ge> 2. payBytes ps d' n = payBytes ps d n)"

lemma sameFrame_refl: "sameFrame ps d d"
  by (simp add: sameFrame_def)

lemma sameFrame_trans: "sameFrame ps a b \<Longrightarrow> sameFrame ps b c \<Longrightarrow> sameFrame ps a c"
  by (simp add: sameFrame_def)

lemma sameFrame_hasRegion: "sameFrame ps d d' \<Longrightarrow> hasRegion ps d' n = hasRegion ps d n"
  by (simp add: sameFrame_def hasRegion_def)

lemma allocateFreshPage_view:
  assumes ps: "pageDataOffset \<le> gPageSize g" and r: "hasRegion (gPageSize g) d 0" "hasRegion (gPageSize g) d 1"
    and run: "allocateFreshPage g (d, a, b) no = (d', a', b')"
  shows "takePage (gPerExtent g) (payBytes (gPageSize g) d 0, payBytes (gPageSize g) d 1, a, b) no
      = (payBytes (gPageSize g) d' 0, payBytes (gPageSize g) d' 1, a', b') \<and> sameFrame (gPageSize g) d d'"
proof -
  let ?ps = "gPageSize g"
  let ?P = "orBit no (payBytes ?ps d 0)"
  let ?d1 = "setPagePayload ?ps 0 ?P d"
  have lenP: "length ?P = ?ps - 40" using length_payBytes [OF r(1)] by (simp add: layout_consts)
  note v1 = payload_view [OF r(1), of ?P]
  have fit: "length ?P + diskPageHeaderSize \<le> ?ps" using lenP ps by (simp add: layout_consts)
  have p0: "payBytes ?ps ?d1 0 = ?P" and p1: "payBytes ?ps ?d1 1 = payBytes ?ps d 1"
    using v1(2) [OF fit] length_payBytes [OF r(1)] lenP by (simp_all add: layout_consts)
  have f1: "sameFrame ?ps d ?d1" using v1 [OF fit] by (simp add: sameFrame_def)
  let ?e = "no div gPerExtent g"
  let ?st = "computeExtentState ?P ?e (gPerExtent g) (int freshDatabasePageCount)"
  let ?E = "setExtentState (payBytes ?ps d 1) ?e ?st"
  let ?d2 = "setPagePayload ?ps 1 ?E ?d1"
  have r1: "hasRegion ?ps ?d1 1" using r(2) sameFrame_hasRegion [OF f1] by simp
  have lenE: "length ?E = ?ps - 40" using length_payBytes [OF r(2)] by (simp add: layout_consts)
  have fitE: "length ?E + diskPageHeaderSize \<le> ?ps" using lenE ps by (simp add: layout_consts)
  note v2 = payload_view [OF r1 fitE]
  have q0: "payBytes ?ps ?d2 0 = ?P" and q1: "payBytes ?ps ?d2 1 = ?E"
    using v2(2) p0 p1 length_payBytes [OF r(2)] lenE by (simp_all add: layout_consts)
  have f2: "sameFrame ?ps d ?d2" using v2 by (intro sameFrame_trans [OF f1]) (simp add: sameFrame_def)
  have run': "allocateFreshPage g (d, a, b) no =
      (if extentState (payBytes ?ps d 1) ?e = ?st then (?d1, a + 1, b) else (?d2, a + 1, b + 1))"
    by (simp add: allocateFreshPage_def Let_def pagePayload_eq [OF ps] p1 [unfolded One_nat_def] pfsPageNo_def eamPageNo_def)
  show ?thesis
    using run run' p0 p1 q0 q1 f1 f2 by (auto simp: takePage_def Let_def split: if_splits)
qed


lemma allocateFreshPages_view:
  assumes ps: "pageDataOffset \<le> gPageSize g" and r: "hasRegion (gPageSize g) d 0" "hasRegion (gPageSize g) d 1"
    and run: "allocateFreshPages g d = (d', a', b')"
  shows "foldl (takePage (gPerExtent g)) (payBytes (gPageSize g) d 0, payBytes (gPageSize g) d 1, 0, 0) [0..<5]
      = (payBytes (gPageSize g) d' 0, payBytes (gPageSize g) d' 1, a', b') \<and> sameFrame (gPageSize g) d d'"
proof -
  let ?ps = "gPageSize g" and ?per = "gPerExtent g"
  have "foldl (allocateFreshPage g) (d, 0, 0) [0..<n] = (d', a', b') \<Longrightarrow>
      foldl (takePage ?per) (payBytes ?ps d 0, payBytes ?ps d 1, 0, 0) [0..<n]
        = (payBytes ?ps d' 0, payBytes ?ps d' 1, a', b') \<and> sameFrame ?ps d d'" for n
  proof (induction n arbitrary: d' a' b')
    case (Suc n)
    obtain d1 a1 b1 where f: "foldl (allocateFreshPage g) (d, 0, 0) [0..<n] = (d1, a1, b1)" by (metis prod_cases3)
    have ih: "foldl (takePage ?per) (payBytes ?ps d 0, payBytes ?ps d 1, 0, 0) [0..<n]
        = (payBytes ?ps d1 0, payBytes ?ps d1 1, a1, b1)" "sameFrame ?ps d d1"
      using Suc.IH [OF f] by auto
    have step: "allocateFreshPage g (d1, a1, b1) n = (d', a', b')" using Suc.prems by (simp add: f)
    have "hasRegion ?ps d1 0" "hasRegion ?ps d1 1" using r sameFrame_hasRegion [OF ih(2)] by simp_all
    from allocateFreshPage_view [OF ps this step] ih show ?case by (auto intro: sameFrame_trans)
  qed (simp add: sameFrame_refl)
  from this [of 5] run show ?thesis by (simp add: allocateFreshPages_def freshLastUsedPageNo_def)
qed

section \<open>The header\<close>

definition blankImage :: "geometry \<Rightarrow> byte list" where
  "blankImage g = writeFreshHeader g (replicate (freshDatabasePageCount * gPageSize g + diskPageHeaderOffset) 0)"

lemma length_Magic [simp]: "length Magic = 16"
  by (simp add: Magic_def)

lemma length_blankImage [simp]: "length (blankImage g) = 6 * gPageSize g + 380"
  by (simp add: blankImage_def writeFreshHeader_def freshDatabasePageCount_def layout_consts)

lemma blank_region:
  assumes "n < 6"
  shows "regionOf (gPageSize g) (blankImage g) n = replicate (gPageSize g) 0"
proof -
  let ?ps = "gPageSize g"
  have "Suc n * ?ps \<le> 6 * ?ps" using assms by (intro mult_le_mono1) simp
  then have fit: "n * ?ps + 380 + ?ps \<le> 6 * ?ps + 380" by simp
  have "slc (n * ?ps + 380) (n * ?ps + 380 + ?ps) (replicate (6 * ?ps + 380) (0 :: byte)) = replicate ?ps 0"
  proof -
    have "min ?ps (6 * ?ps - n * ?ps) = ?ps" using fit by linarith
    then show ?thesis by (auto intro!: nth_equalityI simp: nth_slc)
  qed
  then show ?thesis
    by (simp add: regionOf_def blankImage_def writeFreshHeader_def slc_splice_disjoint layout_consts fresh_consts
        leU16_def leU32_def leU64_def cryptoHeaderOffset_def del: drop_splice_0)
qed

lemma blank_fields:
  shows "take 16 (blankImage g) = Magic" and "getU16 (blankImage g) 26 = word_of_nat (gPageSize g)"
    and "getU16 (blankImage g) 28 = word_of_nat (gPerExtent g)" and "getU32 (blankImage g) 30 = 6"
    and "getU32 (blankImage g) 34 = 4" and "getU32 (blankImage g) 38 = 1"
    and "blankImage g ! 42 = 2" and "blankImage g ! 43 = 0" and "getU16 (blankImage g) 16 = 76"
    and "getU64 (blankImage g) 18 = createdVersion" and "getU32 (blankImage g) 376 = 0"
proof -
  have m: "take 16 (splice 0 Magic xs) = Magic" if "16 \<le> length xs" for xs
    using that by simp
  show "take 16 (blankImage g) = Magic"
    by (simp add: blankImage_def writeFreshHeader_def take_splice_behind layout_consts fresh_consts
        cryptoHeaderOffset_def m del: drop_splice_0)
  show "getU16 (blankImage g) 26 = word_of_nat (gPageSize g)" "getU16 (blankImage g) 28 = word_of_nat (gPerExtent g)"
    "getU32 (blankImage g) 30 = 6" "getU32 (blankImage g) 34 = 4" "getU32 (blankImage g) 38 = 1"
    "blankImage g ! 42 = 2" "blankImage g ! 43 = 0" "getU16 (blankImage g) 16 = 76"
    "getU64 (blankImage g) 18 = createdVersion" "getU32 (blankImage g) 376 = 0"
    by (simp_all add: blankImage_def writeFreshHeader_def layout_consts fresh_consts get_splice_disjoint
        get_splice_same nth_splice cryptoHeaderOffset_def del: drop_splice_0)
qed


section \<open>The whole image\<close>

definition geometry_ok :: "geometry \<Rightarrow> bool" where
  "geometry_ok g \<longleftrightarrow> 420 \<le> gPageSize g \<and> gPageSize g < 2 ^ 16 \<and> 1 \<le> gPerExtent g \<and> gPerExtent g < 2 ^ 16
     \<and> 1 \<le> gMaxConnections g \<and> gMaxConnections g + 50 \<le> gPageSize g"

lemma normalize_ok: "normalize opts = Inr g \<Longrightarrow> geometry_ok g"
  by (auto simp: normalize_def geometry_ok_def Let_def layout_consts internalFileHeaderSize_def split: if_splits)

definition catalogFile :: "byte list" where
  "catalogFile = [10] @ leU32 0 @ leU32 0 @ [0]"

lemma freshInternalFiles_ok:
  assumes "geometry_ok g"
  shows "\<exists>dir. freshInternalFiles z g = Inr [(2, dir), (3, buildZeroInternalFile (gMaxConnections g)), (4, catalogFile)]
     \<and> length dir = 20"
  using assms
  by (simp add: freshInternalFiles_def compressInternalFile_def buildSystemDirectory_def buildZeroInternalFile_def
      catalogFile_def internalFileHeaderSize_def gPayloadSize_def geometry_ok_def layout_consts fresh_consts Let_def)

lemma image_regions: "geometry_ok g \<Longrightarrow> n < 6 \<Longrightarrow> length d = 6 * gPageSize g + 380 \<Longrightarrow> hasRegion (gPageSize g) d n"
proof -
  assume "geometry_ok g" "n < 6" and len: "length d = 6 * gPageSize g + 380"
  then have "Suc n * gPageSize g \<le> 6 * gPageSize g" by (intro mult_le_mono1) simp
  then show ?thesis by (simp add: hasRegion_def len layout_consts)
qed

lemma buildFreshDatabase_view:
  assumes g: "geometry_ok g"
  obtains d P E a b where "buildFreshDatabase z seed g = Inr d"
    and "length d = 6 * gPageSize g + 380" and "take 380 d = take 380 (blankImage g)"
    and "exact (gPageSize g - 40) (gPerExtent g) 5 (P, E, a, b)"
    and "payBytes (gPageSize g) d 0 = P" and "payBytes (gPageSize g) d 1 = E"
    and "payBytes (gPageSize g) d 4 = splice 0 catalogFile (replicate (gPageSize g - 40) 0)"
    and "\<And>n t s. (n, t, s) \<in> set (freshStamps seed a b) \<Longrightarrow> headBytes (gPageSize g) d n = writeDiskPageHeader s t (-1)"
proof -
  let ?ps = "gPageSize g" and ?Z = "blankImage g"
  have ps: "pageDataOffset \<le> ?ps" "420 \<le> ?ps" using g by (simp_all add: geometry_ok_def layout_consts)
  have blank: "payBytes ?ps ?Z n = replicate (?ps - 40) 0" if "n < 6" for n
    using that by (simp add: payBytes_def blank_region layout_consts)
  have rZ: "hasRegion ?ps ?Z n" if "n < 6" for n using image_regions [OF g that] by simp
  obtain d1 a b where run: "allocateFreshPages g ?Z = (d1, a, b)" by (metis prod_cases3)
  let ?P = "payBytes ?ps d1 0" and ?E = "payBytes ?ps d1 1"
  from allocateFreshPages_view [OF ps(1) rZ rZ run]
  have maps: "foldl (takePage (gPerExtent g)) (replicate (?ps - 40) 0, replicate (?ps - 40) 0, 0, 0) [0..<5] = (?P, ?E, a, b)"
    and frame: "sameFrame ?ps ?Z d1" by (simp_all add: blank)
  have ex: "exact (?ps - 40) (gPerExtent g) 5 (?P, ?E, a, b)"
  proof -
    have "2 \<le> ?ps - 40" using ps(2) by linarith
    moreover have "0 < gPerExtent g" using g by (simp add: geometry_ok_def)
    ultimately show ?thesis using exact_fresh [of "?ps - 40" "gPerExtent g"] by (simp only: maps)
  qed
  have d1: "length d1 = 6 * ?ps + 380" "take 380 d1 = take 380 ?Z"
    using frame by (simp_all add: sameFrame_def layout_consts)
  have r1: "hasRegion ?ps d1 n" if "n < 6" for n using image_regions [OF g that d1(1)] .
  let ?d2 = "fold (stampPage ?ps) (freshStamps seed a b) d1"
  have d2: "length ?d2 = 6 * ?ps + 380" "take 380 ?d2 = take 380 ?Z" "payBytes ?ps ?d2 n = payBytes ?ps d1 n"
    "hasRegion ?ps ?d2 n = hasRegion ?ps d1 n" for n
    using d1 stamp_view(2-5) [OF r1 ps(1)] stamp_view(2-5) [OF _ ps(1)] r1
    by (simp_all add: freshStamps_def pfsPageNo_def eamPageNo_def fresh_consts layout_consts)
  have h2: "headBytes ?ps ?d2 n = writeDiskPageHeader s t (-1)" if "(n, t, s) \<in> set (freshStamps seed a b)" for n t s
    using that stamp_view(1,5) [OF _ ps(1)] r1
    by (auto simp: freshStamps_def pfsPageNo_def eamPageNo_def fresh_consts)
  obtain dir where files: "freshInternalFiles z g =
      Inr [(2, dir), (3, buildZeroInternalFile (gMaxConnections g)), (4, catalogFile)]" and dir: "length dir = 20"
    using freshInternalFiles_ok [OF g] by blast
  let ?d = "setPagePayload ?ps 4 catalogFile (setPagePayload ?ps 3 (buildZeroInternalFile (gMaxConnections g))
      (setPagePayload ?ps 2 dir ?d2))"
  have r2: "hasRegion ?ps ?d2 n" if "n < 6" for n using d2(4) r1 [OF that] by simp
  have fit: "length dir + diskPageHeaderSize \<le> ?ps" "length catalogFile + diskPageHeaderSize \<le> ?ps"
    "length (buildZeroInternalFile (gMaxConnections g)) + diskPageHeaderSize \<le> ?ps"
    using g dir by (simp_all add: geometry_ok_def layout_consts catalogFile_def buildZeroInternalFile_def)
  note v2 = payload_view [OF r2 fit(1), of 2]
  have r3: "hasRegion ?ps (setPagePayload ?ps 2 dir ?d2) n" if "n < 6" for n using v2(5) r2 [OF that] by simp
  note v3 = payload_view [OF r3 fit(3), of 3]
  have r4: "hasRegion ?ps (setPagePayload ?ps 3 (buildZeroInternalFile (gMaxConnections g)) (setPagePayload ?ps 2 dir ?d2)) n"
    if "n < 6" for n using v3(5) r3 [OF that] by simp
  note v4 = payload_view [OF r4 fit(2), of 4]
  have built: "buildFreshDatabase z seed g = Inr ?d"
    by (simp add: buildFreshDatabase_def files run [unfolded blankImage_def] blankImage_def)
  have p4: "payBytes ?ps d1 4 = replicate (?ps - 40) 0" using frame blank [of 4] by (simp add: sameFrame_def)
  show thesis
  proof (rule that [OF built _ _ ex])
    show "length ?d = 6 * ?ps + 380" using v4(3) v3(3) v2(3) d2(1) by simp
    show "take 380 ?d = take 380 ?Z" using v4(4) v3(4) v2(4) d2(2) by (simp add: layout_consts)
    show "payBytes ?ps ?d 0 = ?P" "payBytes ?ps ?d 1 = ?E"
      using v4(2) v3(2) v2(2) d2(3) by simp_all
    show "payBytes ?ps ?d 4 = splice 0 catalogFile (replicate (?ps - 40) 0)"
      using v4(2) v3(2) v2(2) d2(3) p4 by (simp del: drop_splice_0)
    show "headBytes ?ps ?d n = writeDiskPageHeader s t (-1)" if "(n, t, s) \<in> set (freshStamps seed a b)" for n t s
      using v4(1) v3(1) v2(1) h2 [OF that] by simp
  qed
qed


section \<open>The new database\<close>

definition freshDb :: "cipherLib \<Rightarrow> geometry \<Rightarrow> byte list \<Rightarrow> dbfile" where
  "freshDb lib g d = \<lparr>disk = d, writable = True, headerSize = 76, version = createdVersion, pageSize = gPageSize g,
     pagesInExtent = gPerExtent g, totalPageCount = 6, lastUsedPageNo = 4, dbState = 1, writeChangeState = 2,
     dbEncrypted = False, lastObjectID = 0, cryptoHeader = None, decryptionKey = None, cipherlib = lib\<rparr>"

lemma parse_fresh:
  assumes g: "geometry_ok g" and len: "length d = 6 * gPageSize g + 380" and hd: "take 380 d = take 380 (blankImage g)"
  shows "parseHeader lib True d = Inr (freshDb lib g d)"
proof -
  let ?Z = "blankImage g"
  have front: "slc i j d = slc i j ?Z" if "j \<le> 380" for i j
  proof -
    have "slc i j x = slc i j (take 380 x)" for x :: "byte list"
      using that by (simp add: slc_def drop_take min_absorb1)
    then show ?thesis using hd by metis
  qed
  have buf: "readAt 76 0 d = slc 0 76 ?Z" by (simp add: readAt_def front)
  have u: "getU16 (slc 0 76 ?Z) i = getU16 ?Z i" "getU32 (slc 0 76 ?Z) i = getU32 ?Z i" "getU64 (slc 0 76 ?Z) i = getU64 ?Z i"
    if "i + 8 \<le> 76" for i
    using that get_slc [of i 76 0 ?Z] by simp_all
  have b: "slc 0 76 ?Z ! i = ?Z ! i" if "i < 76" for i using that by (simp add: nth_slc)
  have magic: "take 16 (slc 0 76 ?Z) = Magic"
    using blank_fields(1) [of g] by (simp add: slc_def)
  have "getU32 d 376 = getU32 ?Z 376" using front [of 380 376] by (simp add: getU32_def)
  then have oid: "readLastObjectID d = 0"
    using blank_fields(11) [of g] by (simp add: readLastObjectID_def lastObjectIDOffset_def)
  have ps: "unat (word_of_nat (gPageSize g) :: u16) = gPageSize g" "unat (word_of_nat (gPerExtent g) :: u16) = gPerExtent g"
    using g by (simp_all add: geometry_ok_def unat_of_nat)
  have nz: "gPageSize g \<noteq> 0" "\<not> gPageSize g < 420" using g by (auto simp: geometry_ok_def)
  show ?thesis
    using nz by (simp add: parseHeader_def Let_def buf u b magic blank_fields oid ps len layout_consts freshDb_def)
qed

lemma fresh_file_ok: "geometry_ok g \<Longrightarrow> length d = 6 * gPageSize g + 380 \<Longrightarrow> file_ok (freshDb lib g d)"
  by (simp add: file_ok_def freshDb_def geometry_ok_def layout_consts)

lemma parse_stamped:
  assumes "length r = ps" and "420 \<le> ps" and "take 40 r = writeDiskPageHeader st t oid"
  shows "parseDiskPageHeader (replicate diskPageHeaderOffset 0 @ r) = Some (freshHeader st t oid)"
proof -
  let ?z = "replicate 380 (0 :: byte) @ r"
  have "parseDiskPageHeader ?z = parseDiskPageHeader (splice 380 (writeDiskPageHeader st t oid) ?z)"
  proof (rule parseDiskPageHeader_cong)
    show "420 \<le> length ?z" "420 \<le> length (splice 380 (writeDiskPageHeader st t oid) ?z)" using assms by simp_all
    have "slc 380 420 ?z = take 40 r" by (simp add: slc_def)
    then show "slc 380 420 ?z = slc 380 420 (splice 380 (writeDiskPageHeader st t oid) ?z)" using assms by simp
  qed
  then show ?thesis using assms by (simp add: parse_writeDiskPageHeader layout_consts)
qed

lemma fresh_view:
  assumes g: "geometry_ok g" and len: "length d = 6 * gPageSize g + 380" and n: "n < 6"
  shows "pageView (freshDb lib g d) (int n) =
    Inr (payBytes (gPageSize g) d n, parseDiskPageHeader (replicate diskPageHeaderOffset 0 @ regionOf (gPageSize g) d n))"
proof -
  have "pageView (freshDb lib g d) (int n) = viewOf (freshDb lib g d) (int n) (regionOf (gPageSize g) d n)"
    using pageView_region [OF fresh_file_ok [OF g len], of "int n" lib] n by (simp add: freshDb_def)
  then show ?thesis by (simp add: viewOf_def freshDb_def payBytes_def Let_def)
qed

lemma fresh_header:
  assumes g: "geometry_ok g" and len: "length d = 6 * gPageSize g + 380" and n: "n < 6"
    and "headBytes (gPageSize g) d n = writeDiskPageHeader s t (-1)"
  shows "\<exists>p. ReadPage (freshDb lib g d) (int n) = Inr p \<and> Payload p = payBytes (gPageSize g) d n
    \<and> Header p = Some (freshHeader s t (-1))"
proof -
  have "parseDiskPageHeader (replicate diskPageHeaderOffset 0 @ regionOf (gPageSize g) d n) = Some (freshHeader s t (-1))"
    using assms(4) g image_regions [OF g n len]
    by (intro parse_stamped [where ps = "gPageSize g"]) (simp_all add: headBytes_def length_region geometry_ok_def layout_consts)
  with fresh_view [OF g len n, of lib] show ?thesis
    by (cases "ReadPage (freshDb lib g d) (int n)") (auto simp: pageView_def)
qed

end
