(* ===== verification/Creation_Claims.thy ===== *)
theory Creation_Claims
  imports Creation_Props
begin

text \<open>What a new database is to the rest of the package, for every geometry \<open>normalize\<close> accepts.\<close>

lemma catalogFile_bytes: "catalogFile = 10 # replicate 9 0"
  by code_simp

lemma catalog_payload:
  assumes "10 \<le> n"
  shows "splice 0 catalogFile (replicate n 0) = 10 # replicate (n - 1) (0 :: byte)"
  using assms by (auto intro!: nth_equalityI simp: nth_splice catalogFile_bytes nth_Cons' simp del: drop_splice_0)

lemma catalog_content:
  assumes "9 \<le> n"
  shows "decompressInternalFile z (10 # replicate n 0) = Inr []"
    and "getU32 (10 # replicate n (0 :: byte)) 1 = 0"
proof -
  have z: "le_val (replicate m 0) = 0" for m by (induction m) simp_all
  have g: "getU32 (10 # replicate n (0 :: byte)) (Suc i) = 0" for i
    by (simp add: getU32_def slc_def z)
  show "getU32 (10 # replicate n (0 :: byte)) 1 = 0" using g [of 0] by simp
  show "decompressInternalFile z (10 # replicate n 0) = Inr []"
    using assms g [of 0] g [of 4] by (simp add: decompressInternalFile_def internalFileHeaderSize_def Let_def slc_def)
qed

lemma findPageFrom_hit:
  assumes "ReadPage db (int i) = Inr p" and "Header p = Some h"
  shows "findPageFrom db t (i # is) = (if PageType h = t then Inr (int i) else findPageFrom db t is)"
  using assms by simp

lemma fresh_catalog_page:
  assumes g: "geometry_ok g" and len: "length d = 6 * gPageSize g + 380"
    and stamped: "\<And>n t s. (n, t, s) \<in> set (freshStamps seed a b) \<Longrightarrow> headBytes (gPageSize g) d n = writeDiskPageHeader s t (-1)"
  shows "findPageByType (freshDb lib g d) PageTypeTableList = Inr 4"
proof -
  let ?db = "freshDb lib g d"
  have page: "\<exists>p. ReadPage ?db (int n) = Inr p \<and> Header p = Some (freshHeader s t (-1))"
    if "(n, t, s) \<in> set (freshStamps seed a b)" "n < 6" for n t s
    using fresh_header [OF g len that(2) stamped [OF that(1)], of lib] by blast
  have hit: "findPageFrom ?db PageTypeTableList (n # is) =
      (if t = PageTypeTableList then Inr (int n) else findPageFrom ?db PageTypeTableList is)"
    if "(n, t, s) \<in> set (freshStamps seed a b)" "n < 6" for n t s "is"
    using page [OF that] findPageFrom_hit [of ?db n _ "freshHeader s t (-1)"] by (auto simp: freshHeader_def)
  note stamps = freshStamps_def pfsPageNo_def eamPageNo_def fresh_consts
  have "PageCount ?db = 6" by (simp add: PageCount_def freshDb_def)
  then have scan: "findPageByType ?db PageTypeTableList = findPageFrom ?db PageTypeTableList [0, 1, 2, 3, 4, 5]"
  proof -
    have "[0..<6] = [0, 1, 2, 3, 4, 5 :: nat]" by code_simp
    then show ?thesis using \<open>PageCount ?db = 6\<close> by (simp only: findPageByType_def) simp
  qed
  have t: "PageTypeFileHdr \<noteq> PageTypeTableList" "PageTypeSystemDir \<noteq> PageTypeTableList"
    "pageTypeSystemFileDir \<noteq> PageTypeTableList" "pageTypeConnectionTable \<noteq> PageTypeTableList"
    by (simp_all add: PageTypeFileHdr_def PageTypeSystemDir_def PageTypeTableList_def pageTypeSystemFileDir_def
        pageTypeConnectionTable_def)
  have "(0, PageTypeFileHdr, a) \<in> set (freshStamps seed a b)" "(1, PageTypeSystemDir, b) \<in> set (freshStamps seed a b)"
    "(2, pageTypeSystemFileDir, seed 2) \<in> set (freshStamps seed a b)"
    "(3, pageTypeConnectionTable, seed 3) \<in> set (freshStamps seed a b)"
    "(4, PageTypeTableList, seed 4) \<in> set (freshStamps seed a b)"
    by (simp_all add: stamps)
  note hits = this [THEN hit]
  show ?thesis
    unfolding scan using hits t by simp
qed

lemma fresh_no_tables:
  assumes g: "geometry_ok g" and len: "length d = 6 * gPageSize g + 380"
    and stamped: "\<And>n t s. (n, t, s) \<in> set (freshStamps seed a b) \<Longrightarrow> headBytes (gPageSize g) d n = writeDiskPageHeader s t (-1)"
    and cat: "payBytes (gPageSize g) d 4 = splice 0 catalogFile (replicate (gPageSize g - 40) 0)"
  shows "Tables z cd (freshDb lib g d) = Inr []"
proof -
  let ?db = "freshDb lib g d"
  have N: "10 \<le> gPageSize g - 40" "9 \<le> gPageSize g - 41" "\<not> gPageSize g < 50" using g by (auto simp: geometry_ok_def)
  have four: "(4, PageTypeTableList, seed 4) \<in> set (freshStamps seed a b)"
    by (simp add: freshStamps_def fresh_consts)
  obtain p where p: "ReadPage ?db 4 = Inr p" and pay: "Payload p = 10 # replicate (gPageSize g - 41) 0"
    using fresh_header [OF g len _ stamped [OF four], of lib] cat catalog_payload [OF N(1)] by auto
  note c = catalog_content [OF N(2)]
  have "readInternalFilePages ?db 4 = Inr (10 # replicate (gPageSize g - 41) 0)"
    using N by (simp add: readInternalFilePages_def p pay Let_def internalFileHeaderSize_def c(2) [simplified]
        gatherChain.simps)
  then show ?thesis
    by (simp add: Tables_def readCatalog_def fresh_catalog_page [OF g len stamped] c(1) parseTableList_def)
qed

text \<open>C40. For every geometry it accepts, \<open>CreateDatabase\<close> writes a file that opens: the header carries the
  geometry and the counters of a fresh file, the two allocation maps are consistent (so the invariant of
  the allocator holds from the first allocation on), and the catalog lists no table.\<close>

theorem created_database_opens:
  assumes "normalize opts = Inr g"
  shows "\<exists>db. CreateDatabase lib z seed opts = Inr db \<and> consistent (newPageEdit db) \<and> writable db
     \<and> pageSize db = gPageSize g \<and> pagesInExtent db = gPerExtent g \<and> totalPageCount db = 6
     \<and> lastUsedPageNo db = 4 \<and> lastObjectID db = 0 \<and> Tables z cd db = Inr []"
proof (rule buildFreshDatabase_view [OF normalize_ok [OF assms], of z seed])
  fix d P E a b
  assume built: "buildFreshDatabase z seed g = Inr d"
    and len: "length d = 6 * gPageSize g + 380" and hd: "take 380 d = take 380 (blankImage g)"
    and ex: "exact (gPageSize g - 40) (gPerExtent g) 5 (P, E, a, b)"
    and P: "payBytes (gPageSize g) d 0 = P" and E: "payBytes (gPageSize g) d 1 = E"
    and cat: "payBytes (gPageSize g) d 4 = splice 0 catalogFile (replicate (gPageSize g - 40) 0)"
    and st: "\<And>n t s. (n, t, s) \<in> set (freshStamps seed a b) \<Longrightarrow> headBytes (gPageSize g) d n = writeDiskPageHeader s t (-1)"
  have g: "geometry_ok g" using assms by (rule normalize_ok)
  let ?db = "freshDb lib g d"
  have pay: "bindR (ReadPage ?db (int n)) (\<lambda>p. Inr (Payload p)) = Inr (payBytes (gPageSize g) d n)" if "n < 6" for n
    by (simp add: ReadPage_payload fresh_view [OF g len that])
  have "cipher_lawful ?db" by (simp add: cipher_lawful_def payloadCipher_def freshDb_def)
  then have "edit_ok (newPageEdit ?db)" using fresh_file_ok [OF g len] by (rule edit_ok_new [rotated])
  moreover have "editPayload (newPageEdit ?db) 0 = Inr P" "editPayload (newPageEdit ?db) 1 = Inr E"
    using pay [of 0] pay [of 1] by (simp_all add: editPayload_def newPageEdit_def P E [unfolded One_nat_def])
  moreover have "maps_ok P E (gPerExtent g) 6" using ex by (rule exact_maps_ok)
  ultimately have "consistent (newPageEdit ?db)"
    by (auto simp: consistent_def newPageEdit_def freshDb_def)
  moreover have "CreateDatabase lib z seed opts = Inr ?db"
    by (simp add: CreateDatabase_def assms built parse_fresh [OF g len hd])
  moreover have "Tables z cd ?db = Inr []" by (rule fresh_no_tables [OF g len st cat])
  ultimately show ?thesis by (auto simp: freshDb_def)
qed

lemma created_database_opens_witness:
  "\<forall>lib z seed cd. \<exists>db. CreateDatabase lib z seed \<lparr>optPageSize = 2048, optPerExtent = 4, optMaxConnections = 0, optEncrypted = False\<rparr> = Inr db
     \<and> consistent (newPageEdit db) \<and> pageSize db = 2048 \<and> pagesInExtent db = 4 \<and> Tables z cd db = Inr []"
proof -
  have "normalize \<lparr>optPageSize = 2048, optPerExtent = 4, optMaxConnections = 0, optEncrypted = False\<rparr>
      = Inr \<lparr>gPageSize = 2048, gPerExtent = 4, gMaxConnections = 500\<rparr>"
    by (simp add: normalize_def orDefault_def fresh_consts layout_consts internalFileHeaderSize_def)
  note opens = created_database_opens [OF this]
  show ?thesis
  proof (intro allI)
    fix lib z seed cd
    show "\<exists>db. CreateDatabase lib z seed \<lparr>optPageSize = 2048, optPerExtent = 4, optMaxConnections = 0, optEncrypted = False\<rparr> = Inr db
     \<and> consistent (newPageEdit db) \<and> pageSize db = 2048 \<and> pagesInExtent db = 4 \<and> Tables z cd db = Inr []"
      using opens [of lib z seed cd] by auto
  qed
qed

end
