(* ===== verification/Drop_Props.thy ===== *)
theory Drop_Props
  imports Ownership
begin

text \<open>
  What dropping a table writes: the pages of the table become tombstones and leave the Page Free
  Space map, the catalog loses one entry, and no other page of the file changes.
\<close>

section \<open>Buffers that can be flushed\<close>

text \<open>Every encrypted page lies behind page 0 and the key to it is at hand.\<close>

definition opened :: "'a dbfile_scheme \<Rightarrow> bool" where
  "opened db \<longleftrightarrow> (\<forall>n p h. ReadPage db n = Inr p \<longrightarrow> Header p = Some h \<longrightarrow> CRC32 h \<noteq> 0 \<longrightarrow> 0 < n \<and> decryptionKey db \<noteq> None)"

definition all_modes :: "'x edit_scheme \<Rightarrow> bool" where
  "all_modes s \<longleftrightarrow> (\<forall>k \<in> dom (edPages s). buf_mode (edDb s) (bufAt k s))"

lemma parse_ReadPage:
  assumes "file_ok db" and "ReadPage db n = Inr p"
  shows "parseDiskPageHeader (pageRaw p) = Header p"
proof -
  let ?buf = "readAt (pageReadSize db) (nat n * pageSize db) (disk db)"
  have ps: "420 \<le> pageSize db" using assms(1) by (simp add: file_ok_def layout_consts)
  have len: "pageReadSize db \<le> length ?buf" using assms(2) by (auto simp: ReadPage_def Let_def split: if_splits)
  then have long: "420 \<le> length ?buf" using ps by (simp add: pageReadSize_def layout_consts)
  have h: "Header p = parseDiskPageHeader (take (pageSize db) ?buf)"
    using assms(2) by (auto simp: ReadPage_def Let_def split: if_splits)
  have raw: "take 420 (pageRaw p) = take 420 ?buf" "420 \<le> length (pageRaw p)"
    using assms(2) long by (auto simp: ReadPage_def Let_def layout_consts min_absorb1 split: if_splits)
  have "slc 380 420 (pageRaw p) = slc 380 420 (take 420 (pageRaw p))" by (simp add: slc_def take_drop min_def)
  also have "\<dots> = slc 380 420 (take (pageSize db) ?buf)" unfolding raw(1) using ps by (simp add: slc_def take_drop min_def)
  finally show ?thesis
    unfolding h using raw(2) long ps by (intro parseDiskPageHeader_cong) simp_all
qed

lemma load_all_modes:
  assumes ok: "edit_ok s" and op: "opened (edDb s)" and all: "all_modes s" and run: "load no s = (Inr k, s')"
  shows "all_modes s'"
proof -
  note l = load_spec [OF ok loader_intros(1) run]
  have old: "buf_mode (edDb s') (bufAt j s')" if "j \<in> dom (edPages s)" for j
    using l(8) [OF that] l(4) all that by (simp add: all_modes_def)
  have new: "buf_mode (edDb s') (bufAt k s')" if k: "k \<notin> dom (edPages s)"
  proof -
    obtain b where b: "bufferPage (edDb s) no = Inr b" "bufAt k s' = b"
      using run k l(1,2) by (auto simp: load_def loadWith_def bufAt_def putBuf_def split: sum.splits option.splits if_splits)
    then obtain p h where p: "ReadPage (edDb s) no = Inr p" "Header p = Some h"
      and b': "b = \<lparr>bufNumber = nat no, raw = pageRaw p, bufEncrypted = (CRC32 h \<noteq> 0), dirty = False, stateBump = 1\<rparr>"
      by (auto simp: bufferPage_def split: option.splits)
    have "parseDiskPageHeader (pageRaw p) = Some h" using parse_ReadPage [OF edit_okD(1) [OF ok] p(1)] p(2) by simp
    moreover have "CRC32 h \<noteq> 0 \<Longrightarrow> 0 < no \<and> decryptionKey (edDb s) \<noteq> None"
      using op p by (auto simp: opened_def)
    ultimately show ?thesis using b(2) b' l(4) by (auto simp: buf_mode_def)
  qed
  show ?thesis using old new l(7) by (auto simp: all_modes_def)
qed

lemma all_modes_putBuf:
  assumes "all_modes s" and "buf_mode (edDb s) b"
  shows "all_modes (putBuf k b s)"
  using assms by (auto simp: all_modes_def bufAt_def putBuf_def)

lemma buf_mode_setPayload:
  assumes "buf_mode db b" and "420 \<le> length (raw b)"
  shows "buf_mode db (setPayload p b)" and "flushedHeader b = Some h \<Longrightarrow> flushedHeader (setPayload p b) \<noteq> None"
proof -
  have "slc 380 420 (take 420 (raw b) @ p) = slc 380 420 (raw b)"
    using assms(2) by (simp add: slc_append_left) (simp add: slc_def take_drop min_def)
  then have "parseDiskPageHeader (raw (setPayload p b)) = parseDiskPageHeader (raw b)"
    using assms(2) by (intro parseDiskPageHeader_cong) (simp_all add: setPayload_def layout_consts)
  then show "buf_mode db (setPayload p b)" "flushedHeader b = Some h \<Longrightarrow> flushedHeader (setPayload p b) \<noteq> None"
    using assms(1) by (auto simp: buf_mode_def flushedHeader_def split: option.splits)
qed

lemma buf_mode_flags [simp]:
  "buf_mode db (b\<lparr>dirty := d\<rparr>) = buf_mode db b" "buf_mode db (b\<lparr>stateBump := n\<rparr>) = buf_mode db b"
  by (simp_all add: buf_mode_def split: option.split)

section \<open>Tombstones\<close>

definition freedBuf :: "pagebuf \<Rightarrow> pagebuf" where
  "freedBuf b = b\<lparr>raw := splice pageStateOffset (leU32 pageStateFree) (raw b), stateBump := 0, dirty := True\<rparr>"

lemma freedBuf_header:
  assumes "buf_mode db b"
  shows "buf_mode db (freedBuf b)" and "\<exists>h. flushedHeader (freedBuf b) = Some h \<and> State h = pageStateFree"
proof -
  obtain h where h: "parseDiskPageHeader (raw b) = Some h" using assms by (auto simp: buf_mode_def split: option.splits)
  note p = parse_patched_state [OF h, of pageStateFree]
  show "buf_mode db (freedBuf b)" using assms h p by (simp add: buf_mode_def freedBuf_def layout_consts)
  show "\<exists>h. flushedHeader (freedBuf b) = Some h \<and> State h = pageStateFree"
    using p by (simp add: flushedHeader_def freedBuf_def layout_consts)
qed

lemma tombstone_spec:
  assumes "edit_ok s" and "opened (edDb s)" and "all_modes s" and "tombstone ps s = (Inr (), s')"
  shows "edit_ok s' \<and> edDb s' = edDb s \<and> all_modes s' \<and> dom (edPages s') = dom (edPages s) \<union> set ps
    \<and> (\<forall>k. editPayload s' k = editPayload s k)
    \<and> (\<forall>k. k \<notin> set ps \<longrightarrow> bufAt k s' = bufAt k s)
    \<and> (\<forall>k \<in> set ps. dirty (bufAt k s') \<and> (\<exists>h. flushedHeader (bufAt k s') = Some h \<and> State h = pageStateFree))"
  using assms
proof (induction ps arbitrary: s)
  case (Cons no ps)
  obtain k t where ld: "load (int no) s = (Inr k, t)" and rest: "tombstone ps (putBuf k (freedBuf (bufAt k t)) t) = (Inr (), s')"
    using Cons.prems(4) by (auto simp: tombstone_def bindO_eq_Inr updBuf_def freedBuf_def)
  note l = load_spec [OF Cons.prems(1) loader_intros(1) ld]
  have k: "k = no" using l(1) by simp
  have all: "all_modes t" by (rule load_all_modes [OF Cons.prems(1-3) ld])
  then have mode: "buf_mode (edDb t) (bufAt k t)" using l(6) by (simp add: all_modes_def)
  note fr = freedBuf_header [OF mode]
  have b: "buf_ok (edDb t) (bufAt k t)" "bufNumber (bufAt k t) = k" using buf_ok_bufAt [OF l(5,6)] by blast+
  let ?t = "putBuf k (freedBuf (bufAt k t)) t"
  have pay: "bufPayload (freedBuf (bufAt k t)) = bufPayload (bufAt k t)"
    using bufPayload_splice_header [of pageStateOffset "leU32 pageStateFree" "bufAt k t"]
    by (simp add: freedBuf_def layout_consts bufPayload_def)
  have ok: "edit_ok ?t" using l(5,6) b by (intro edit_ok_putBuf) (simp_all add: buf_ok_def freedBuf_def)
  have "opened (edDb ?t)" "all_modes ?t" using Cons.prems(2) l(4) all_modes_putBuf [OF all fr(1)] by simp_all
  note IH = Cons.IH [OF ok this rest]
  have pays: "editPayload ?t j = editPayload s j" for j
    using l(9) [of j] l(9) [of k] l(10) pay by (auto simp: editPayload_putBuf)
  have out: "bufAt j ?t = bufAt j s" if "j \<noteq> k" for j
  proof (cases "j \<in> dom (edPages s)")
    case True
    then show ?thesis using l(8) that by simp
  next
    case False
    then have "j \<notin> dom (edPages t)" using l(7) that by simp
    then show ?thesis using False that by (simp add: bufAt_def domIff)
  qed
  have "dirty (bufAt no s') \<and> (\<exists>h. flushedHeader (bufAt no s') = Some h \<and> State h = pageStateFree)"
  proof (cases "no \<in> set ps")
    case False
    then have "bufAt no s' = freedBuf (bufAt k t)" using IH k by simp
    then show ?thesis using fr(2) by (simp add: freedBuf_def)
  qed (use IH in blast)
  then show ?case using IH pays out k l(4,7) by auto
qed (simp add: tombstone_def)

section \<open>The catalog entry\<close>

lemma putBuf_twice: "putBuf k b (putBuf k a s) = putBuf k b s"
  by (simp add: putBuf_def)

lemma release_all_modes:
  assumes ok: "edit_ok s" and op: "opened (edDb s)" and all: "all_modes s" and run: "releasePages pages s = (Inr l, s')"
  shows "all_modes s'"
proof -
  obtain k0 s1 p k1 s3 where l0: "load pfsPageNo s = (Inr k0, s1)"
    and cl: "clearBits pages (bufPayload (bufAt k0 s1)) = (Inr (), p)"
    and l1: "load eamPageNo (putBuf k0 ((setPayload p (bufAt k0 s1))\<lparr>stateBump := int (length pages),
         dirty := (length pages > 0)\<rparr>) s1) = (Inr k1, s3)"
    and s': "s' = putBuf k1 (downgradeMap (pagesInExtent (edDb s3)) pages (bufAt k1 s3)) s3"
    using run by (auto simp: releasePages_def bindO_eq_Inr clearPages_Inr guardO_def putBuf_twice split: if_splits)
  note ld0 = load_spec [OF ok loader_intros(1) l0]
  have all1: "all_modes s1" by (rule load_all_modes [OF ok op all l0])
  have b1: "buf_ok (edDb s1) (bufAt k0 s1)" "bufNumber (bufAt k0 s1) = k0" using buf_ok_bufAt [OF ld0(5,6)] by blast+
  note raw1 = length_raw [OF edit_okD(1) [OF ld0(5)] b1(1)]
  have m1: "buf_mode (edDb s1) (setPayload p (bufAt k0 s1))"
    using all1 ld0(6) raw1 by (intro buf_mode_setPayload(1)) (simp_all add: all_modes_def)
  let ?b = "(setPayload p (bufAt k0 s1))\<lparr>stateBump := int (length pages), dirty := (length pages > 0)\<rparr>"
  have all2: "all_modes (putBuf k0 ?b s1)" using all1 m1 by (intro all_modes_putBuf) simp_all
  have "length p = length (bufPayload (bufAt k0 s1))" using clearBits_Inr [OF cl] by simp
  then have ok2: "edit_ok (putBuf k0 ?b s1)" using ld0(5,6) b1 raw1 by (intro edit_ok_putBuf) (simp_all add: buf_ok_def)
  have all3: "all_modes s3" using ld0(4) op by (intro load_all_modes [OF ok2 _ all2 l1]) simp
  note ld1 = load_spec [OF ok2 loader_intros(1) l1]
  have raw3: "420 \<le> length (raw (bufAt k1 s3))"
    using length_raw [OF edit_okD(1) [OF ld1(5)]] buf_ok_bufAt [OF ld1(5,6)] by blast
  have "buf_mode (edDb s3) (downgradeMap per pages (bufAt k1 s3))" for per
    using all3 ld1(6) raw3 by (simp add: downgradeMap_def all_modes_def buf_mode_setPayload(1) split: prod.split)
  then show ?thesis unfolding s' by (intro all_modes_putBuf [OF all3])
qed

lemma length_removeCatalogEntry: "removeCatalogEntry position payload = Inr payload' \<Longrightarrow> length payload' = length payload"
  by (auto simp: removeCatalogEntry_def putLens_def Let_def split: if_splits)

lemma dropCatalogEntry_spec:
  assumes ok: "edit_ok s" and op: "opened (edDb s)" and all: "all_modes s" and run: "dropCatalogEntry position s = (Inr (), s')"
  obtains c q q' where "findPageByType (edDb s) PageTypeTableList = Inr (int c)"
    and "editPayload s c = Inr q" and "removeCatalogEntry position q = Inr q'"
    and "edit_ok s'" and "edDb s' = edDb s" and "all_modes s'" and "dom (edPages s') = insert c (dom (edPages s))"
    and "\<forall>j. j \<noteq> c \<longrightarrow> edPages s' j = edPages s j"
    and "dirty (bufAt c s')" and "bufPayload (bufAt c s') = q'"
proof -
  obtain no k t q' where no: "findPageByType (edDb s) PageTypeTableList = Inr no" "0 \<le> no"
    and ld: "load no s = (Inr k, t)" and rem: "removeCatalogEntry position (bufPayload (bufAt k t)) = Inr q'"
    and s': "s' = putBuf k ((setPayload q' (bufAt k t))\<lparr>dirty := True\<rparr>) t"
    using run by (auto simp: dropCatalogEntry_def bindO_eq_Inr liftO_def updBuf_def split: if_splits)
  note l = load_spec [OF ok loader_intros(1) ld]
  have b: "buf_ok (edDb t) (bufAt k t)" "bufNumber (bufAt k t) = k" using buf_ok_bufAt [OF l(5,6)] by blast+
  note raw = length_raw [OF edit_okD(1) [OF l(5)] b(1)]
  note len = length_removeCatalogEntry [OF rem]
  have allt: "all_modes t" by (rule load_all_modes [OF ok op all ld])
  then have mode: "buf_mode (edDb t) (setPayload q' (bufAt k t))"
    using l(6) raw by (intro buf_mode_setPayload(1)) (simp_all add: all_modes_def)
  show thesis
  proof (rule that [of k "bufPayload (bufAt k t)" q'])
    show "findPageByType (edDb s) PageTypeTableList = Inr (int k)" using no l(1) by simp
    show "edit_ok s'" unfolding s' using l(5,6) b raw len by (intro edit_ok_putBuf) (simp_all add: buf_ok_def)
    show "all_modes s'" unfolding s' using mode by (intro all_modes_putBuf [OF allt]) simp
    have "edPages s' j = edPages s j" if "j \<noteq> k" for j
    proof (cases "j \<in> dom (edPages s)")
      case True
      then have "bufAt j t = bufAt j s" "j \<in> dom (edPages t)" using l(7,8) by auto
      then show ?thesis using True that by (auto simp: s' bufAt_def putBuf_def)
    next
      case False
      then have "j \<notin> dom (edPages t)" using l(7) that by simp
      then show ?thesis using False that by (simp add: s' putBuf_def domIff)
    qed
    then show "\<forall>j. j \<noteq> k \<longrightarrow> edPages s' j = edPages s j" by blast
    show "bufPayload (bufAt k s') = q'" using raw by (simp add: s' bufPayload_def setPayload_def layout_consts)
  qed (use l s' rem in auto)
qed

section \<open>The file afterwards\<close>

lemma pageView_setters:
  assumes "file_ok db" and "0 \<le> n" and "n < totalPageCount db"
  shows "pageView (bumpFileState (setLastUsedPageNo l db)) n = pageView db n"
proof -
  let ?db = "bumpFileState (setLastUsedPageNo l db)"
  have ok: "file_ok (setLastUsedPageNo l db)" "file_ok ?db" using assms(1) by simp_all
  have same: "totalPageCount ?db = totalPageCount db" "pageSize ?db = pageSize db" "cryptoHeader ?db = cryptoHeader db"
    "decryptionKey ?db = decryptionKey db" "cipherlib ?db = cipherlib db" by (simp_all add: bumpFileState_def)
  have "regionOf (pageSize db) (disk ?db) (nat n) = regionOf (pageSize db) (disk db) (nat n)" using assms(1) ok(1) by simp
  then show ?thesis
    using pageView_region [OF assms] pageView_region [OF ok(2), of n] assms(2,3) viewOf_cong [OF same(3-5)] same(1,2) by simp
qed

lemma insert_two: "{0, 1} \<subseteq> A \<Longrightarrow> (\<And>k. k \<noteq> 0 \<Longrightarrow> k \<noteq> 1 \<Longrightarrow> k \<in> A \<longleftrightarrow> k \<in> B) \<Longrightarrow> A = insert (0 :: nat) (insert 1 B)"
  by (rule set_eqI) (metis insert_iff insert_subset)

lemma editPayload_dom: "k \<in> dom (edPages s) \<Longrightarrow> editPayload s k = Inr (bufPayload (bufAt k s))"
  by (auto simp: editPayload_def bufAt_def)

lemma release_payloads:
  assumes "edit_ok s" and "releasePages pages s = (Inr l, s')"
  shows "\<exists>P E. editPayload s 0 = Inr P \<and> editPayload s 1 = Inr E"
proof -
  obtain k0 s1 p k1 s3 where l0: "load pfsPageNo s = (Inr k0, s1)"
    and cl: "clearBits pages (bufPayload (bufAt k0 s1)) = (Inr (), p)"
    and l1: "load eamPageNo (putBuf k0 ((setPayload p (bufAt k0 s1))\<lparr>stateBump := int (length pages),
         dirty := (length pages > 0)\<rparr>) s1) = (Inr k1, s3)"
    using assms(2) by (auto simp: releasePages_def bindO_eq_Inr clearPages_Inr guardO_def putBuf_twice split: if_splits)
  note ld0 = load_spec [OF assms(1) loader_intros(1) l0]
  have k0: "k0 = 0" using ld0(1) by (simp add: pfsPageNo_def)
  have b1: "buf_ok (edDb s1) (bufAt k0 s1)" "bufNumber (bufAt k0 s1) = k0" using buf_ok_bufAt [OF ld0(5,6)] by blast+
  note raw1 = length_raw [OF edit_okD(1) [OF ld0(5)] b1(1)]
  have "length p = length (bufPayload (bufAt k0 s1))" using clearBits_Inr [OF cl] by simp
  then have ok2: "edit_ok (putBuf k0 ((setPayload p (bufAt k0 s1))\<lparr>stateBump := int (length pages), dirty := (length pages > 0)\<rparr>) s1)"
    using ld0(5,6) b1 raw1 by (intro edit_ok_putBuf) (simp_all add: buf_ok_def)
  note ld1 = load_spec [OF ok2 loader_intros(1) l1]
  have "k1 = 1" using ld1(1) by (simp add: eamPageNo_def)
  then have "editPayload s 1 = Inr (bufPayload (bufAt 1 s3))"
    using ld1(10) ld0(9) [of 1] k0 by (simp add: editPayload_putBuf)
  then show ?thesis using ld0(10) k0 by blast
qed

text \<open>C38. Dropping a table from a file whose pages can be read, when it succeeds, leaves every page that is
  not the table's, the catalog or an allocation map exactly as it was; the table's pages keep their
  contents and carry the mark of a freed page; the catalog page holds the old catalog less the entry; and
  exactly the bits of the table's pages are cleared in the Page Free Space map.\<close>

theorem drop_touches_own_pages_only:
  assumes ok: "file_ok db" "cipher_lawful db" "opened db"
    and cat: "findPageByType db PageTypeTableList = Inr (int c)" "1 < c"
    and own: "{0, 1, c} \<inter> set pages = {}"
    and run: "applyDrop position pages db = (Inr (), db')"
  shows "(\<forall>n. 0 \<le> n \<longrightarrow> n < totalPageCount db \<longrightarrow> nat n \<notin> {0, 1, c} \<union> set pages \<longrightarrow> pageView db' n = pageView db n)
    \<and> (\<forall>k \<in> set pages. \<exists>d h h'. pageView db (int k) = Inr (d, h) \<and> pageView db' (int k) = Inr (d, Some h') \<and> State h' = pageStateFree)
    \<and> (\<exists>q q' h h'. pageView db (int c) = Inr (q, h) \<and> removeCatalogEntry position q = Inr q' \<and> pageView db' (int c) = Inr (q', h'))
    \<and> (\<exists>P P' h h'. pageView db 0 = Inr (P, h) \<and> pageView db' 0 = Inr (P', h')
        \<and> (\<forall>j. pfsAllocated P' (int j) \<longleftrightarrow> j \<notin> set pages \<and> pfsAllocated P (int j)))"
proof -
  let ?s = "newPageEdit db"
  obtain s1 s2 s3 s4 l where r1: "tombstone pages ?s = (Inr (), s1)" and r2: "dropCatalogEntry position s1 = (Inr (), s2)"
    and r3: "releasePages pages s2 = (Inr l, s3)" and r4: "flushPages s3 = (Inr (), s4)"
    and db': "db' = bumpFileState (setLastUsedPageNo l (edDb s4))"
    using run by (auto simp: applyDrop_def bindO_eq_Inr split: prod.splits)
  have ok0: "edit_ok ?s" "opened (edDb ?s)" "all_modes ?s" "edPages ?s = Map.empty"
    using ok edit_ok_new [OF ok(1,2)] by simp_all (simp_all add: all_modes_def newPageEdit_def)
  note t = tombstone_spec [OF ok0(1-3) r1]
  have tp: "editPayload s1 k = editPayload ?s k" for k using t by blast
  have op1: "opened (edDb s1)" using t ok0(2) by simp
  have ok1: "edit_ok s1" "all_modes s1" using t by blast+
  obtain c0 q q' where
    f: "findPageByType (edDb s1) PageTypeTableList = Inr (int c0)" and q: "editPayload s1 c0 = Inr q" "removeCatalogEntry position q = Inr q'"
    and s2: "edit_ok s2" "edDb s2 = edDb s1" "all_modes s2" "dom (edPages s2) = insert c0 (dom (edPages s1))"
      "\<forall>j. j \<noteq> c0 \<longrightarrow> edPages s2 j = edPages s1 j" "dirty (bufAt c0 s2)" "bufPayload (bufAt c0 s2) = q'"
    by (rule dropCatalogEntry_spec [OF ok1(1) op1 ok1(2) r2]) (rule that)
  have c0: "c0 = c" using f t cat(1) by simp
  obtain P E where PE: "editPayload s2 0 = Inr P" "editPayload s2 1 = Inr E" using release_payloads [OF s2(1) r3] by blast
  have op2: "opened (edDb s2)" using op1 s2(2) by simp
  have all3: "all_modes s3" by (rule release_all_modes [OF s2(1) op2 s2(3) r3])
  obtain "edit_ok s3" and db3: "edDb s3 = edDb s2" and bits: "\<And>no. no \<in> set pages \<Longrightarrow> pfsAllocated P (int no)"
    and P3: "editPayload s3 0 = Inr (fold (pfs_put False) pages P)" and out3: "\<And>k. k \<noteq> 0 \<Longrightarrow> k \<noteq> 1 \<Longrightarrow> edPages s3 k = edPages s2 k"
    and dom3: "{0, 1} \<subseteq> dom (edPages s3)" and dirty0: "dirty (bufAt 0 s3) = (pages \<noteq> [])"
    by (rule releasePages_run [OF s2(1) PE r3]) blast
  have modes: "modes_ok s3" using all3 edit_okD(5) [OF \<open>edit_ok s3\<close>] by (simp add: modes_ok_def all_modes_def)
  have db: "edDb s3 = db" using db3 s2(2) t by (simp add: newPageEdit_def)
  have view: "pageView db' n = (if nat n \<in> dom (edPages s3) \<and> dirty (bufAt (nat n) s3)
      then Inr (bufPayload (bufAt (nat n) s3), flushedHeader (bufAt (nat n) s3)) else pageView db n)"
    if n: "0 \<le> n" "n < totalPageCount db" for n
  proof -
    have "edit_ok s4 \<and> totalPageCount (edDb s4) = totalPageCount db"
      using flush_list [of s3 "edOrder s3" s4] \<open>edit_ok s3\<close> modes r4 db edit_okD(5,6) [OF \<open>edit_ok s3\<close>]
      by (simp add: flushPages_def modes_ok_def)
    then have "pageView db' n = pageView (edDb s4) n"
      unfolding db' using n edit_okD(1) by (intro pageView_setters) auto
    then show ?thesis using flushPages_view [OF \<open>edit_ok s3\<close> modes r4, of n] n db by simp
  qed
  have range: "int k < totalPageCount db" if "k \<in> dom (edPages s3)" for k
    using buf_ok_bufAt [OF \<open>edit_ok s3\<close> that] db by (simp add: buf_ok_def)
  have pay: "\<exists>h. pageView db (int k) = Inr (d, h)" if "editPayload ?s k = Inr d" for k d
    using that by (auto simp: editPayload_def newPageEdit_def pageView_def)
  have same: "bufAt k s3 = bufAt k s2" if "k \<noteq> 0" "k \<noteq> 1" for k using out3 that by (simp add: bufAt_def)
  have dom: "dom (edPages s3) = insert 0 (insert 1 (insert c (set pages)))"
  proof -
    have "k \<in> dom (edPages s3) \<longleftrightarrow> k \<in> dom (edPages s2)" if "k \<noteq> 0" "k \<noteq> 1" for k using out3 that by (simp add: domIff)
    moreover have "dom (edPages s2) = insert c (set pages)" using s2(4) t ok0(4) c0 by simp
    ultimately show ?thesis using insert_two [OF dom3, of "dom (edPages s2)"] by simp
  qed
  have others: "pageView db' n = pageView db n" if "0 \<le> n" "n < totalPageCount db" "nat n \<notin> {0, 1, c} \<union> set pages" for n
    using view [OF that(1,2)] that(3) dom by simp
  have out: "0 \<notin> set pages" "1 \<notin> set pages" "c \<notin> set pages" using own by simp_all
  have freed: "\<exists>d h h'. pageView db (int k) = Inr (d, h) \<and> pageView db' (int k) = Inr (d, Some h') \<and> State h' = pageStateFree"
    if k: "k \<in> set pages" for k
  proof -
    have ne: "k \<noteq> 0" "k \<noteq> 1" "k \<noteq> c" using k out(1) out(2) out(3) by metis+
    have b: "bufAt k s3 = bufAt k s1" using same [OF ne(1,2)] spec [OF s2(5), of k] ne(3) c0 by (simp add: bufAt_def)
    have d: "k \<in> dom (edPages s3)" using dom k by simp
    have "k \<in> dom (edPages s1)" using t k by simp
    then have "editPayload ?s k = Inr (bufPayload (bufAt k s1))" using editPayload_dom [of k s1] tp by simp
    then obtain h where "pageView db (int k) = Inr (bufPayload (bufAt k s1), h)" using pay by blast
    then show ?thesis using view [of "int k"] range [OF d] d t k b by auto
  qed
  have catalog: "\<exists>q q' h h'. pageView db (int c) = Inr (q, h) \<and> removeCatalogEntry position q = Inr q' \<and> pageView db' (int c) = Inr (q', h')"
  proof -
    have d: "c \<in> dom (edPages s3)" using dom by simp
    have "editPayload ?s c = Inr q" using q(1) t c0 by simp
    then obtain h where "pageView db (int c) = Inr (q, h)" using pay by blast
    moreover have "bufAt c s3 = bufAt c s2" using same cat(2) by simp
    ultimately show ?thesis using view [of "int c"] range [OF d] d s2(6,7) q(2) c0 by auto
  qed
  have maps: "\<exists>P P' h h'. pageView db 0 = Inr (P, h) \<and> pageView db' 0 = Inr (P', h')
        \<and> (\<forall>j. pfsAllocated P' (int j) \<longleftrightarrow> j \<notin> set pages \<and> pfsAllocated P (int j))"
  proof -
    have P1: "editPayload s1 0 = Inr P" using PE(1) spec [OF s2(5), of 0] c0 cat(2)
      by (simp add: editPayload_def s2(2) cong: option.case_cong)
    then have "editPayload ?s 0 = Inr P" using t by simp
    then obtain h where h: "pageView db 0 = Inr (P, h)" using pay [of 0] by auto
    let ?P = "fold (pfs_put False) pages P"
    have "pfsAllocated ?P (int j) \<longleftrightarrow> j \<notin> set pages \<and> pfsAllocated P (int j)" for j
      using pfs.test_fold [of pages P False j] bits pfs.test_cap by auto
    moreover have d: "0 \<in> dom (edPages s3)" using dom3 by simp
    moreover have "bufPayload (bufAt 0 s3) = ?P" using P3 editPayload_dom [OF d] by simp
    moreover have "\<exists>h'. pageView db' 0 = Inr (?P, h')"
    proof (cases "pages = []")
      case True
      then show ?thesis using view [of 0] range [OF d] h dirty0 by simp
    next
      case False
      then show ?thesis using view [of 0] range [OF d] d dirty0 \<open>bufPayload (bufAt 0 s3) = ?P\<close> by simp
    qed
    ultimately show ?thesis using h by blast
  qed
  show ?thesis using others freed catalog maps by blast
qed

end
