(* ===== verification/Stream_Shape.thy ===== *)
theory Stream_Shape
  imports Schema_Stream
begin

text \<open>
  The shape of a column-definition stream: three counted arrays and a trailer. A stream that
  parses has it, and one that has it parses, whatever wrote its records; the surgical edits
  then are edits of the arrays.
\<close>

section \<open>Column definitions as pieces of a stream\<close>

definition columnBytes :: "codec \<Rightarrow> Column \<Rightarrow> byte list \<Rightarrow> bool" where
  "columnBytes cd c bs \<longleftrightarrow> (\<forall>i. reads (parseColumnDef cd i) (c\<lparr>Position := i\<rparr>) bs)"

lemma columnBytesD: "columnBytes cd c bs \<Longrightarrow> reads (parseColumnDef cd i) (c\<lparr>Position := i\<rparr>) bs"
  by (simp add: columnBytes_def)

lemma columnBytes_position [simp]: "columnBytes cd (c\<lparr>Position := i\<rparr>) = columnBytes cd c"
  by (simp add: columnBytes_def fun_eq_iff)

lemma column_reindex:
  "parseColumnDef cd i data pos = Inr (c, p) \<Longrightarrow> parseColumnDef cd j data pos = Inr (c\<lparr>Position := j\<rparr>, p)"
  unfolding parseColumnDef_def by (fastforce simp only: bindP_eq_Inr prim_eq_Inr prod.inject Column.simps)

lemma column_local:
  assumes "parseColumnDef cd i data pos = Inr (c, p)" and "pos \<le> length data"
  shows "columnBytes cd c (slc pos p data)" and "pos \<le> p" and "p \<le> length data" and "Position c = i"
proof -
  show "columnBytes cd c (slc pos p data)"
    unfolding columnBytes_def using localD(1) [OF local_column(3) column_reindex [OF assms(1)] assms(2)] by blast
  show "pos \<le> p" "p \<le> length data" using localD [OF local_column(3) assms] by auto
  show "Position c = i"
    using column_reindex [OF assms(1), of i] assms(1) by (cases c) simp
qed

lemma reads_length: "reads m x b \<Longrightarrow> consumes m (\<lambda>y bs. k \<le> length bs) \<Longrightarrow> k \<le> length b"
  using consumesD(3) [of m "\<lambda>y bs. k \<le> length bs" b 0 x "length b"] readsD [of m x b "[]" "[]"] by simp

lemma columnBytes_length: "columnBytes cd c b \<Longrightarrow> minColumnDefSize \<le> length b"
  by (rule reads_length [OF columnBytesD consumes_column])

lemma read_columns:
  assumes "list_all2 (columnBytes cd) cs bss"
  shows "manyP (parseColumnDef cd) i (length cs) (pre @ concat bss @ post) (length pre)
    = Inr (renumber i cs, length pre + length (concat bss))"
  using assms
proof (induction cs bss arbitrary: pre i rule: list_all2_induct)
  case (Cons c cs b bss)
  have "parseColumnDef cd i (pre @ b @ concat bss @ post) (length pre) = Inr (c\<lparr>Position := i\<rparr>, length pre + length b)"
    by (rule readsD [OF columnBytesD]) fact
  moreover have "manyP (parseColumnDef cd) (Suc i) (length cs) (pre @ b @ concat bss @ post) (length pre + length b)
    = Inr (renumber (Suc i) cs, length pre + length b + length (concat bss))"
    using Cons.IH [of "Suc i" "pre @ b"] by simp
  ultimately show ?case by (simp add: add.assoc)
qed simp

lemma columns_parts:
  assumes "manyP (parseColumnDef cd) i n data pos = Inr (cs, p)" and "pos \<le> length data"
  obtains bss where "list_all2 (columnBytes cd) cs bss" and "concat bss = slc pos p data" and "pos \<le> p"
    and "p \<le> length data" and "cs = renumber i cs"
  using assms
proof (induction n arbitrary: i pos cs thesis)
  case 0
  then show ?case by (auto intro: 0(1) [of "[]"] simp: slc_def)
next
  case (Suc n)
  from Suc.prems(2) obtain c q ds where g: "parseColumnDef cd i data pos = Inr (c, q)"
    and rest: "manyP (parseColumnDef cd) (Suc i) n data q = Inr (ds, p)" and cs: "cs = c # ds" by auto
  note 1 = column_local [OF g Suc.prems(3)]
  obtain bss where 2: "list_all2 (columnBytes cd) ds bss" "concat bss = slc q p data" "q \<le> p" "p \<le> length data"
    "ds = renumber (Suc i) ds"
    using Suc.IH [OF _ rest] 1(3) by blast
  have "slc pos p data = slc pos q data @ slc q p data" using 1 2 slc_join by metis
  moreover have "c = c\<lparr>Position := i\<rparr>" using 1(4) by (cases c) simp
  ultimately show ?case
    using 1 2 by (intro Suc.prems(1) [of "slc pos q data # bss"]) (simp_all add: cs)
qed

text \<open>The spans are where the definitions lie.\<close>

fun spansFrom :: "nat \<Rightarrow> byte list list \<Rightarrow> (nat \<times> nat) list" where
  "spansFrom pos [] = []"
| "spansFrom pos (b # bss) = (pos, pos + length b) # spansFrom (pos + length b) bss"

lemma length_spansFrom [simp]: "length (spansFrom pos bss) = length bss"
  by (induction bss arbitrary: pos) auto

lemma nth_spansFrom:
  "k < length bss \<Longrightarrow> spansFrom pos bss ! k = (pos + length (concat (take k bss)), pos + length (concat (take (Suc k) bss)))"
  by (induction bss arbitrary: pos k) (auto simp: nth_Cons split: nat.splits)

lemma columnSpanP_Inr [simp]:
  "columnSpanP cd i data pos = Inr r \<longleftrightarrow> (\<exists>c p. parseColumnDef cd i data pos = Inr (c, p) \<and> r = ((pos, p), p))"
  by (auto simp: columnSpanP_def)

lemma read_spans:
  assumes "list_all2 (columnBytes cd) cs bss"
  shows "manyP (columnSpanP cd) i (length cs) (pre @ concat bss @ post) (length pre)
    = Inr (spansFrom (length pre) bss, length pre + length (concat bss))"
  using assms
proof (induction cs bss arbitrary: pre i rule: list_all2_induct)
  case (Cons c cs b bss)
  have "parseColumnDef cd i (pre @ b @ concat bss @ post) (length pre) = Inr (c\<lparr>Position := i\<rparr>, length pre + length b)"
    by (rule readsD [OF columnBytesD]) fact
  moreover have "manyP (columnSpanP cd) (Suc i) (length cs) (pre @ b @ concat bss @ post) (length pre + length b)
    = Inr (spansFrom (length pre + length b) bss, length pre + length b + length (concat bss))"
    using Cons.IH [of "Suc i" "pre @ b"] by simp
  ultimately show ?case by (simp add: add.assoc)
qed simp

section \<open>The shape\<close>

definition countBytes :: "nat \<Rightarrow> byte list" where
  "countBytes n = leU32 (word_of_nat n)"

lemma length_countBytes [simp]: "length (countBytes n) = 4"
  by (simp add: countBytes_def)

definition streamOf :: "byte list list \<Rightarrow> byte list list \<Rightarrow> byte list list \<Rightarrow> byte list \<Rightarrow> byte list" where
  "streamOf cbs ibs kbs trailer =
     countBytes (length cbs) @ concat cbs @ countBytes (length ibs) @ concat ibs @ countBytes (length kbs) @ concat kbs @ trailer"

definition shaped ::
    "codec \<Rightarrow> Column list \<Rightarrow> indexRecord list \<Rightarrow> constraintRecord list \<Rightarrow>
     byte list list \<Rightarrow> byte list list \<Rightarrow> byte list list \<Rightarrow> byte list \<Rightarrow> bool" where
  "shaped cd cols irs krs cbs ibs kbs trailer \<longleftrightarrow>
     list_all2 (columnBytes cd) cols cbs \<and> list_all2 (reads (parseIndexRecord cd)) irs ibs
     \<and> list_all2 (reads (parseConstraintRecord cd)) krs kbs \<and> length trailer = systemIndexRootsSize
     \<and> length cols \<le> maxSchemaColumns \<and> length irs < 2 ^ 31 \<and> length krs < 2 ^ 31"

lemma countBytes_u32: "n < 2 ^ 32 \<Longrightarrow> unat (getU32 (countBytes n) 0) = n"
  unfolding countBytes_def by (simp add: unat_u32_len)

lemma countBytes_i32:
  assumes "n < 2 ^ 31"
  shows "sint (getU32 (countBytes n) 0) = int n"
proof -
  have "sint (word_of_nat n :: u32) = int n"
    using assms by (simp add: signed_of_nat signed_take_bit_int_eq_self)
  then show ?thesis by (simp add: countBytes_def)
qed

lemma reads_count:
  assumes "n < 2 ^ 31" and "n \<le> length b" and "reads (f n) y b"
  shows "reads (bindP readArrayCount f) y (countBytes n @ b)"
proof -
  note n = countBytes_i32 [OF assms(1)]
  have "bindP readArrayCount f (pre @ (countBytes n @ b) @ post) (length pre)
    = Inr (y, length pre + length (countBytes n @ b))" for pre post
  proof -
    have "readArrayCount (pre @ (countBytes n @ b) @ post) (length pre) = Inr (n, length pre + 4)"
      using n assms(2) by (simp add: readArrayCount_def slc_def)
    moreover have "f n ((pre @ countBytes n) @ b @ post) (length (pre @ countBytes n)) = Inr (y, length (pre @ countBytes n) + length b)"
      by (rule readsD [OF assms(3)])
    ultimately show ?thesis by (simp add: bindP_def add.assoc)
  qed
  then show ?thesis by (simp add: reads_def)
qed

section \<open>A stream of that shape parses\<close>

lemma concat_at_least:
  "list_all2 R xs bss \<Longrightarrow> (\<And>x b. R x b \<Longrightarrow> k \<le> length b) \<Longrightarrow> k * length xs \<le> length (concat bss)"
  by (induction xs bss rule: list_all2_induct) (auto simp: add_mono)

lemma consumes_index_record: "consumes (parseIndexRecord cd) (\<lambda>x bs. 1 + 0 \<le> length bs)"
  unfolding parseIndexRecord_def
  by (rule consumes_then [OF consumes_pascal], rule consumes_at_least(3)) (auto intro!: safe_intros split: prod.splits)

lemma consumes_constraint_record: "consumes (parseConstraintRecord cd) (\<lambda>x bs. 1 + 0 \<le> length bs)"
  unfolding parseConstraintRecord_def Let_def
  by (rule consumes_then [OF consumes_at_least(1)], rule consumes_at_least(3)) (auto intro!: safe_intros)

lemma shape_lengths:
  assumes shape: "shaped cd cols irs krs cbs ibs kbs trailer"
  shows "length cbs = length cols" "length ibs = length irs" "length kbs = length krs"
  using shape by (auto simp: shaped_def dest: list_all2_lengthD)

lemma shape_room:
  assumes shape: "shaped cd cols irs krs cbs ibs kbs trailer"
  shows "minColumnDefSize * length cols \<le> length (concat cbs)" "length irs \<le> length (concat ibs)"
    "length krs \<le> length (concat kbs)"
  using shape concat_at_least [of "columnBytes cd" cols cbs minColumnDefSize]
    concat_at_least [of "reads (parseIndexRecord cd)" irs ibs 1] concat_at_least [of "reads (parseConstraintRecord cd)" krs kbs 1]
    columnBytes_length reads_length [OF _ consumes_index_record] reads_length [OF _ consumes_constraint_record]
  by (auto simp: shaped_def)

lemma shape_count:
  assumes shape: "shaped cd cols irs krs cbs ibs kbs trailer"
  shows "schemaColumnCount (streamOf cbs ibs kbs trailer) = Inr (length cols)"
proof -
  let ?d = "streamOf cbs ibs kbs trailer"
  have "unat (getU32 ?d 0) = length cols"
    using shape countBytes_u32 [of "length cols"] shape_lengths [OF shape]
    by (simp add: streamOf_def get_append shaped_def maxSchemaColumns_def)
  moreover have "length cols \<le> length ?d div minColumnDefSize"
    using shape_room(1) [OF shape] by (simp add: streamOf_def minColumnDefSize_def autoIncBlockSize_def less_eq_div_iff_mult_less_eq mult.commute)
  moreover have "4 \<le> length ?d" by (simp add: streamOf_def)
  ultimately show ?thesis using shape by (simp add: schemaColumnCount_def Let_def shaped_def)
qed

lemma shape_columns:
  assumes shape: "shaped cd cols irs krs cbs ibs kbs trailer"
  shows "parseSchema cd (streamOf cbs ibs kbs trailer) = Inr (renumber 0 cols)"
  "schemaColumnsEnd cd (streamOf cbs ibs kbs trailer) = Inr (4 + length (concat cbs))"
  "schemaColumnSpans cd (streamOf cbs ibs kbs trailer) = Inr (spansFrom 4 cbs, 4 + length (concat cbs))"
proof -
  let ?post = "countBytes (length ibs) @ concat ibs @ countBytes (length kbs) @ concat kbs @ trailer"
  have d: "streamOf cbs ibs kbs trailer = countBytes (length cbs) @ concat cbs @ ?post" by (simp add: streamOf_def)
  have cs: "list_all2 (columnBytes cd) cols cbs" using shape by (simp add: shaped_def)
  note c = read_columns [OF cs, of 0 "countBytes (length cbs)" ?post, folded d, simplified]
    read_spans [OF cs, of 0 "countBytes (length cbs)" ?post, folded d, simplified]
  show "parseSchema cd (streamOf cbs ibs kbs trailer) = Inr (renumber 0 cols)"
    "schemaColumnsEnd cd (streamOf cbs ibs kbs trailer) = Inr (4 + length (concat cbs))"
    "schemaColumnSpans cd (streamOf cbs ibs kbs trailer) = Inr (spansFrom 4 cbs, 4 + length (concat cbs))"
    unfolding parseSchema_def schemaColumnsEnd_def schemaColumnSpans_def shape_count [OF shape]
    using c by (simp_all add: wrapP_def)
qed

definition tailOf :: "nat \<Rightarrow> indexRecord list \<Rightarrow> constraintRecord list \<Rightarrow> byte list list \<Rightarrow> byte list list \<Rightarrow>
     nat \<times> indexRecord list \<times> constraintRecord list \<times> nat" where
  "tailOf colsEnd irs krs ibs kbs =
     (let tailStart = colsEnd + 4 + length (concat ibs) in
      (length irs, placed placeIndex (colsEnd + 4) irs ibs, placed placeConstraint (tailStart + 4) krs kbs, tailStart))"

lemma array_count:
  assumes "n < 2 ^ 31" and "n \<le> length b"
  shows "readArrayCount (pre @ countBytes n @ b) (length pre) = Inr (n, length pre + 4)"
  using countBytes_i32 [OF assms(1)] assms(2) by (simp add: readArrayCount_def slc_def)

lemma shape_tail:
  assumes shape: "shaped cd cols irs krs cbs ibs kbs trailer"
  defines "colsEnd \<equiv> 4 + length (concat cbs)"
  shows "parseSchemaTail cd (streamOf cbs ibs kbs trailer) = Inr (colsEnd, tailOf colsEnd irs krs ibs kbs)"
proof -
  let ?d = "streamOf cbs ibs kbs trailer"
  let ?p1 = "countBytes (length cbs) @ concat cbs" let ?p2 = "?p1 @ countBytes (length ibs)"
  let ?p3 = "?p2 @ concat ibs" let ?p4 = "?p3 @ countBytes (length kbs)"
  note len = shape_lengths [OF shape]
  have s: "list_all2 (reads (parseIndexRecord cd)) irs ibs" "list_all2 (reads (parseConstraintRecord cd)) krs kbs"
    "length irs < 2 ^ 31" "length krs < 2 ^ 31" "length trailer = systemIndexRootsSize"
    using shape by (auto simp: shaped_def)
  have ce: "schemaColumnsEnd cd ?d = Inr (length ?p1)" using shape_columns(2) [OF shape] by simp
  have 1: "readArrayCount ?d (length ?p1) = Inr (length irs, length ?p2)"
    using array_count [of "length irs" "concat ibs @ countBytes (length kbs) @ concat kbs @ trailer" ?p1]
      s(3) shape_room(2) [OF shape] len by (simp add: streamOf_def)
  have 2: "parseIndexRecords cd (length irs) ?d (length ?p2)
    = Inr (placed placeIndex (length ?p2) irs ibs, length ?p3)"
    using index_array.read_array [OF s(1), of 0 ?p2 "countBytes (length kbs) @ concat kbs @ trailer"]
    by (simp add: parseIndexRecords_def streamOf_def)
  have 3: "readArrayCount ?d (length ?p3) = Inr (length krs, length ?p4)"
    using array_count [of "length krs" "concat kbs @ trailer" ?p3] s(4) shape_room(3) [OF shape] len
    by (simp add: streamOf_def)
  have 4: "parseConstraintRecords cd (length krs) ?d (length ?p4)
    = Inr (placed placeConstraint (length ?p4) krs kbs, length ?p4 + length (concat kbs))"
    using constraint_array.read_array [OF s(2), of 0 ?p4 trailer]
    by (simp add: parseConstraintRecords_def streamOf_def)
  have 5: "remainingP systemIndexRootsSize e ?d (length ?p4 + length (concat kbs)) = Inr ((), length ?p4 + length (concat kbs))" for e
    using s(5) by (simp add: remainingP_def streamOf_def)
  have "schemaTailP cd ?d (length ?p1) = Inr ((length irs, placed placeIndex (length ?p2) irs ibs,
      placed placeConstraint (length ?p4) krs kbs, length ?p3), length ?p4 + length (concat kbs))"
    unfolding schemaTailP_def bindP_eq_Inr prim_eq_Inr
    by (intro exI conjI; (rule 1 2 3 4 5 refl)?)
  then show ?thesis
    using ce by (simp add: parseSchemaTail_def tailOf_def Let_def colsEnd_def)
qed

section \<open>A stream that parses has the shape\<close>

lemma array_count_Inr:
  assumes "readArrayCount data pos = Inr (n, p)"
  shows "p = pos + 4" and "p \<le> length data" and "countBytes n = slc pos p data" and "n < 2 ^ 31"
proof -
  obtain b where b: "b = slc pos (pos + 4) data" "pos + 4 \<le> length data" "0 \<le> sint (getU32 b 0)" "n = nat (sint (getU32 b 0))" "p = pos + 4"
    using assms by (auto simp: readArrayCount_def Let_def)
  show "p = pos + 4" "p \<le> length data" using b by auto
  have "sint (getU32 b 0) < 2 ^ 31" using sint_lt [of "getU32 b 0"] by simp
  then show "n < 2 ^ 31" using b(3) by (simp add: b(4) nat_less_iff)
  have "word_of_nat n = getU32 b 0" unfolding b(4) of_nat_nat [OF b(3)] by simp
  then show "countBytes n = slc pos p data"
    using b(1,2,5) leU_getU(2) [of 0 b] by (simp add: countBytes_def slc_slc)
qed

lemma column_count_Inr:
  assumes "schemaColumnCount data = Inr n"
  shows "countBytes n = take 4 data" and "4 \<le> length data" and "n \<le> maxSchemaColumns"
proof -
  have n: "n = unat (getU32 data 0)" "4 \<le> length data" "n \<le> maxSchemaColumns"
    using assms by (auto simp: schemaColumnCount_def Let_def split: if_splits)
  then show "4 \<le> length data" "n \<le> maxSchemaColumns" by auto
  show "countBytes n = take 4 data"
    using n leU_getU(2) [of 0 data] by (simp add: countBytes_def slc_0)
qed

theorem tail_shape:
  assumes "parseSchemaTail cd data = Inr (colsEnd, n, records, constraints, tailStart)"
  obtains cols irs krs cbs ibs kbs trailer where "shaped cd cols irs krs cbs ibs kbs trailer"
    and "data = streamOf cbs ibs kbs trailer" and "colsEnd = 4 + length (concat cbs)"
    and "tailOf colsEnd irs krs ibs kbs = (n, records, constraints, tailStart)" and "cols = renumber 0 cols"
proof -
  obtain nc cols where c: "schemaColumnCount data = Inr nc" "manyP (parseColumnDef cd) 0 nc data 4 = Inr (cols, colsEnd)"
    and t: "\<exists>p. schemaTailP cd data colsEnd = Inr ((n, records, constraints, tailStart), p)"
    using assms by (auto simp: parseSchemaTail_def schemaColumnsEnd_def)
  note cc = column_count_Inr [OF c(1)]
  obtain cbs where cb: "list_all2 (columnBytes cd) cols cbs" "concat cbs = slc 4 colsEnd data" "4 \<le> colsEnd"
    "colsEnd \<le> length data" "cols = renumber 0 cols"
    using columns_parts [OF c(2) cc(2)] .
  obtain p1 m p2 p3 where r1: "readArrayCount data colsEnd = Inr (n, p1)"
    and ir: "parseIndexRecords cd n data p1 = Inr (records, tailStart)"
    and r2: "readArrayCount data tailStart = Inr (m, p2)"
    and kr: "parseConstraintRecords cd m data p2 = Inr (constraints, p3)"
    and rem: "length data - p3 = systemIndexRootsSize"
    using t by (auto simp: schemaTailP_def remainingP_def split: if_splits)
  note a1 = array_count_Inr [OF r1] and a2 = array_count_Inr [OF r2]
  obtain irs ibs where i: "list_all2 (reads (parseIndexRecord cd)) irs ibs" "concat ibs = slc p1 tailStart data"
    "p1 \<le> tailStart" "tailStart \<le> length data" "length irs = n" "records = placed placeIndex p1 irs ibs"
    using index_array.array_parts [OF ir [unfolded parseIndexRecords_def] a1(2)] .
  obtain krs kbs where k: "list_all2 (reads (parseConstraintRecord cd)) krs kbs" "concat kbs = slc p2 p3 data"
    "p2 \<le> p3" "p3 \<le> length data" "length krs = m" "constraints = placed placeConstraint p2 krs kbs"
    using constraint_array.array_parts [OF kr [unfolded parseConstraintRecords_def] a2(2)] .
  have ln: "length cbs = nc" "length ibs = n" "length kbs = m"
    using list_all2_lengthD [OF cb(1)] list_all2_lengthD [OF i(1)] list_all2_lengthD [OF k(1)] i(5) k(5) length_manyP [OF c(2)]
    by auto
  have tl: "slc p3 (length data) data = drop p3 data" by (simp add: slc_def)
  have "data = slc 0 4 data @ slc 4 colsEnd data @ slc colsEnd p1 data @ slc p1 tailStart data @ slc tailStart p2 data
      @ slc p2 p3 data @ slc p3 (length data) data"
    using a1 a2 cb i k cc(2) by (simp add: slc_join)
  then have data: "data = streamOf cbs ibs kbs (drop p3 data)"
    using cc(1) a1(3) a2(3) cb(2) i(2) k(2) ln tl by (simp add: streamOf_def slc_0)
  have lens: "colsEnd = 4 + length (concat cbs)" "tailStart = p1 + length (concat ibs)"
    using cb(2-4) i(2-4) by simp_all
  show thesis
  proof (rule that [OF _ data lens(1) _ cb(5)])
    show "shaped cd cols irs krs cbs ibs kbs (drop p3 data)"
      using cb(1) i(1,5) k(1,5) rem cc(3) a1(4) a2(4) length_manyP [OF c(2)] by (simp add: shaped_def)
    show "tailOf colsEnd irs krs ibs kbs = (n, records, constraints, tailStart)"
      using a1(1) a2(1) lens(2) i(5,6) k(6) by (simp add: tailOf_def Let_def)
  qed
qed

end
