(* ===== verification/Stream_Edits.thy ===== *)
theory Stream_Edits
  imports Stream_Shape
begin

text \<open>
  The surgical edits of the stream: dropping and adding an index record, dropping and adding a
  column. Each leaves a stream that parses to the edited arrays; what it does not edit keeps
  its contents, moved. \<open>bareIndex\<close> and \<open>bareConstraint\<close> forget where a record lies.
\<close>

definition bareIndex :: "indexRecord \<Rightarrow> indexRecord" where
  "bareIndex = placeIndex 0 0"

definition bareConstraint :: "constraintRecord \<Rightarrow> constraintRecord" where
  "bareConstraint = placeConstraint 0 0"

text \<open>The eight bytes that close the stream: the roots \<open>systemIndexRoots\<close> reads.\<close>

definition streamTrailer :: "byte list \<Rightarrow> byte list" where
  "streamTrailer data = drop (length data - systemIndexRootsSize) data"

section \<open>Placed records\<close>

lemma bare_idem [simp]: "bareIndex (bareIndex r) = bareIndex r" "bareConstraint (bareConstraint k) = bareConstraint k"
  by (simp_all add: bareIndex_def bareConstraint_def placeIndex_def placeConstraint_def)

lemma map_placed:
  "(\<And>s e x. f (place s e x) = f x) \<Longrightarrow> length bss = length xs \<Longrightarrow> map f (placed place pos xs bss) = map f xs"
  by (induction place pos xs bss rule: placed.induct) auto

lemma nth_placed:
  "length bss = length xs \<Longrightarrow> k < length xs \<Longrightarrow> placed place pos xs bss ! k
    = place (pos + length (concat (take k bss))) (pos + length (concat (take (Suc k) bss))) (xs ! k)"
proof (induction place pos xs bss arbitrary: k rule: placed.induct)
  case (1 place pos x xs bs bss)
  then show ?case by (cases k) (simp_all add: add.assoc)
qed auto

lemma bare_placed [simp]:
  "length bss = length xs \<Longrightarrow> map bareIndex (placed placeIndex pos xs bss) = map bareIndex xs"
  "length kss = length ys \<Longrightarrow> map bareConstraint (placed placeConstraint pos ys kss) = map bareConstraint ys"
  by (rule map_placed; simp add: bareIndex_def bareConstraint_def placeIndex_def placeConstraint_def)+

lemma concat_cut: "k < length bss \<Longrightarrow> concat bss = concat (take k bss) @ bss ! k @ concat (drop (Suc k) bss)"
  by (metis append_assoc concat.simps(2) concat_append id_take_nth_drop)

lemma length_take_Suc: "k < length bss \<Longrightarrow> length (concat (take (Suc k) bss)) = length (concat (take k bss)) + length (bss ! k)"
  by (simp add: take_Suc_conv_app_nth)

lemma list_all2_cut: "list_all2 R xs ys \<Longrightarrow> list_all2 R (take k xs @ drop (Suc k) xs) (take k ys @ drop (Suc k) ys)"
  by (intro list_all2_appendI list_all2_takeI list_all2_dropI)

lemma map_cut: "map f (take k xs @ drop (Suc k) xs) = take k (map f xs) @ drop (Suc k) (map f xs)"
  by (simp add: take_map drop_map)

lemma trailer_streamOf:
  "length trailer = systemIndexRootsSize \<Longrightarrow> streamTrailer (streamOf cbs ibs kbs trailer) = trailer"
  by (simp add: streamTrailer_def streamOf_def)

lemma uint32_count: "uint32 (int n) = word_of_nat n"
  by (simp add: uint32_def)

section \<open>Index records\<close>

text \<open>C23. Dropping an index from the schema stream removes exactly its record: the edited stream
  parses, with the same columns, the same constraint records and the same trailing page numbers,
  and every other index record keeps its contents and its place in the order.\<close>

theorem drop_index_removes_one_record:
  assumes parsed: "parseSchemaTail cd data = Inr (colsEnd, n, records, constraints, tailStart)" and k: "k < n"
  defines "data' \<equiv> dropIndexStream data colsEnd n tailStart (records ! k)"
  shows "\<exists>records' constraints' tailStart'.
    parseSchemaTail cd data' = Inr (colsEnd, n - 1, records', constraints', tailStart')
    \<and> map bareIndex records' = map bareIndex (take k records @ drop (Suc k) records)
    \<and> map bareConstraint constraints' = map bareConstraint constraints
    \<and> parseSchema cd data' = parseSchema cd data \<and> streamTrailer data' = streamTrailer data"
proof -
  obtain cols irs krs cbs ibs kbs trailer where sh: "shaped cd cols irs krs cbs ibs kbs trailer"
    and data: "data = streamOf cbs ibs kbs trailer" and ce: "colsEnd = 4 + length (concat cbs)"
    and tl: "tailOf colsEnd irs krs ibs kbs = (n, records, constraints, tailStart)"
    using tail_shape [OF parsed] .
  note len = shape_lengths [OF sh]
  have n: "n = length irs" and recs: "records = placed placeIndex (colsEnd + 4) irs ibs"
    and ts: "tailStart = colsEnd + 4 + length (concat ibs)"
    and cons: "constraints = placed placeConstraint (tailStart + 4) krs kbs"
    using tl by (auto simp: tailOf_def Let_def)
  let ?ir = "take k irs @ drop (Suc k) irs" let ?ib = "take k ibs @ drop (Suc k) ibs"
  have kb: "k < length ibs" using k n len by simp
  have span: "irStart (records ! k) = colsEnd + 4 + length (concat (take k ibs))"
    "irEnd (records ! k) = colsEnd + 4 + (length (concat (take k ibs)) + length (ibs ! k))"
    using nth_placed [of ibs irs k placeIndex "colsEnd + 4"] kb len length_take_Suc [OF kb]
    by (simp_all add: recs placeIndex_def)
  have cut: "concat ibs = concat (take k ibs) @ ibs ! k @ concat (drop (Suc k) ibs)" by (rule concat_cut [OF kb])
  have cnt: "uint32 (int n - 1) = word_of_nat (length ?ib)"
    using kb len n uint32_count [of "length ?ib"] by (simp add: of_nat_diff)
  have data': "data' = streamOf cbs ?ib kbs trailer"
    unfolding data'_def dropIndexStream_def spliceIndexRecord_def span cnt ts data ce streamOf_def cut
    by (simp add: slc_def countBytes_def)
  have sh': "shaped cd cols ?ir krs cbs ?ib kbs trailer"
    using sh list_all2_cut [of "reads (parseIndexRecord cd)" irs ibs k] by (auto simp: shaped_def)
  have "parseSchemaTail cd data' = Inr (colsEnd, tailOf colsEnd ?ir krs ?ib kbs)"
    unfolding data' using shape_tail [OF sh'] ce by simp
  moreover have "length ?ir = n - 1" using k n by simp
  moreover have "parseSchema cd data' = parseSchema cd data"
    unfolding data data' using shape_columns(1) [OF sh] shape_columns(1) [OF sh'] by simp
  moreover have "streamTrailer data' = streamTrailer data"
    using sh by (simp add: data data' trailer_streamOf shaped_def)
  moreover have "map bareIndex (take k records @ drop (Suc k) records) = map bareIndex ?ir"
    unfolding map_cut recs by (simp only: bare_placed(1) [OF len(2)])
  ultimately show ?thesis
    using len by (simp add: tailOf_def Let_def cons)
qed

text \<open>C24. Adding an index appends exactly its record to the index array, and for a unique index its
  constraint record to the constraint array: the spliced stream parses to both arrays with the
  new records last, and the columns and the trailing page numbers are untouched.\<close>

theorem create_index_appends_one_record:
  assumes parsed: "parseSchemaTail cd data = Inr (colsEnd, n, records, constraints, tailStart)"
    and law: "lawful_codec cd" and ok: "index_ok cd r" "serializeIndexRecord cd r = Inr bs"
    and key: "\<forall>c. con = Some c \<longrightarrow> constraint_ok cd c" "\<forall>c. con = Some c \<longrightarrow> serializeConstraintRecord cd c = Inr cbs'"
    and small: "n + 1 < 2 ^ 31" "length constraints + 1 < 2 ^ 31"
  defines "data' \<equiv> createIndexSplice data colsEnd n tailStart (length constraints) bs (map_option (\<lambda>_. cbs') con)"
  shows "\<exists>records' constraints' tailStart'.
    parseSchemaTail cd data' = Inr (colsEnd, n + 1, records', constraints', tailStart')
    \<and> map bareIndex records' = map bareIndex (records @ [r])
    \<and> map bareConstraint constraints' = map bareConstraint (constraints @ (case con of None \<Rightarrow> [] | Some c \<Rightarrow> [c]))
    \<and> parseSchema cd data' = parseSchema cd data \<and> streamTrailer data' = streamTrailer data"
proof -
  obtain cols irs krs cbs ibs kbs trailer where sh: "shaped cd cols irs krs cbs ibs kbs trailer"
    and data: "data = streamOf cbs ibs kbs trailer" and ce: "colsEnd = 4 + length (concat cbs)"
    and tl: "tailOf colsEnd irs krs ibs kbs = (n, records, constraints, tailStart)"
    using tail_shape [OF parsed] .
  note len = shape_lengths [OF sh]
  have n: "n = length irs" and recs: "records = placed placeIndex (colsEnd + 4) irs ibs"
    and ts: "tailStart = colsEnd + 4 + length (concat ibs)"
    and cons: "constraints = placed placeConstraint (tailStart + 4) krs kbs"
    using tl by (auto simp: tailOf_def Let_def)
  have tr: "length trailer = systemIndexRootsSize" using sh by (simp add: shaped_def)
  define kr where "kr = krs @ (case con of None \<Rightarrow> [] | Some c \<Rightarrow> [bareConstraint c])"
  define kb where "kb = kbs @ (case con of None \<Rightarrow> [] | Some c \<Rightarrow> [cbs'])"
  have cnt: "uint32 (int n + 1) = word_of_nat (length (ibs @ [bs]))"
    using n len uint32_count [of "length (ibs @ [bs])"] by (simp add: add.commute)
  have data': "data' = streamOf cbs (ibs @ [bs]) kb trailer"
    unfolding data'_def createIndexSplice_def spliceIndexRecord_def cnt ts data ce streamOf_def Let_def kb_def
    using tr len cons by (cases con) (simp_all add: slc_def countBytes_def del: of_nat_Suc)
  have sh': "shaped cd cols (irs @ [bareIndex r]) kr cbs (ibs @ [bs]) kb trailer"
    using sh index_record_reads [OF law ok] constraint_record_reads [OF law] key small n len cons
    by (cases con) (auto simp: shaped_def kr_def kb_def bareIndex_def bareConstraint_def intro!: list_all2_appendI)
  have "parseSchemaTail cd data' = Inr (colsEnd, tailOf colsEnd (irs @ [bareIndex r]) kr (ibs @ [bs]) kb)"
    unfolding data' using shape_tail [OF sh'] ce by simp
  moreover have "parseSchema cd data' = parseSchema cd data"
    unfolding data data' using shape_columns(1) [OF sh] shape_columns(1) [OF sh'] by simp
  moreover have "streamTrailer data' = streamTrailer data"
    using tr by (simp add: data data' trailer_streamOf)
  moreover have "length kb = length kr" using len by (cases con) (simp_all add: kr_def kb_def)
  moreover have "map bareConstraint kr = map bareConstraint (krs @ (case con of None \<Rightarrow> [] | Some c \<Rightarrow> [c]))"
    by (cases con) (simp_all add: kr_def bareConstraint_def placeConstraint_def)
  ultimately show ?thesis
    using len n by (simp add: tailOf_def Let_def recs cons)
qed

end
