(* ===== verification/Column_Edits.thy ===== *)
theory Column_Edits
  imports Stream_Edits
begin

text \<open>
  Column definitions written and read back, the columns of a stream edited in place, and the
  stream \<open>CREATE TABLE\<close> builds.
\<close>

section \<open>A column definition reads back\<close>

definition engineAutoInc :: autoIncOptions where
  "engineAutoInc = \<lparr>increment = 1, initialValue = 0, minValue = 0, maxValue = 2 ^ 63 - 1, cycled = False, aiKnown = True\<rparr>"

text \<open>What a stored definition keeps of a column: everything but what the serializer refuses or drops.\<close>

definition storedColumn :: "Column \<Rightarrow> Column" where
  "storedColumn c = c\<lparr>hasDefault := False, autoInc := engineAutoInc, blob := noBlob, notNull := False, nullabilityKnown := False\<rparr>"

lemma leU64_word: "getU64 (leU64 w @ bs) 0 = w"
  by (simp add: get_append)

lemma autoinc_block:
  fixes vs :: "int list"
  defines "blk \<equiv> concat (map (\<lambda>v. leU64 (word_of_int v)) [1, 0, 0, 2 ^ 63 - 1]) @ [0]"
  shows "length blk = autoIncBlockSize" and "sint (getU64 blk 0) = 1" and "sint (getU64 blk 8) = 0"
    and "sint (getU64 blk 16) = 0" and "sint (getU64 blk 24) = 2 ^ 63 - 1" and "blk ! 32 = 0"
  by (simp_all add: blk_def autoIncBlockSize_def get_append nth_append)

lemma not_blob: "knownColumnType c \<Longrightarrow> \<not> (BaseType c = BftBlob \<or> BaseType c = BftClob \<or> BaseType c = BftWideClob)"
  by (simp add: knownColumnType_def IsBLOB_def)

theorem column_def_reads:
  assumes "lawful_codec cd" and "storable cd 255 (Name c)" and "serializeColumnDef cd c = Inr d"
  shows "columnBytes cd (storedColumn c) d"
proof -
  let ?blk = "concat (map (\<lambda>v. leU64 (word_of_int v)) [1, 0, 0, 2 ^ 63 - 1]) @ [0 :: byte]"
  obtain t where t: "ansiEncode cd (Name c) = Some t" and lt: "length t \<le> 255" and k: "knownColumnType c"
    and d: "d = word_of_nat (length t) # t @ leU32 (ColID c) @ [BaseType c, FieldType c] @ leU32 (Size c) @ ?blk @ [BaseType c, typedValueAbsent]"
    using assms(3) by (auto simp: serializeColumnDef_def split: option.splits if_splits)
  have nm: "decodeANSI (ansiDecode cd) t = Name c"
    using assms(2) t by (auto simp: storable_def intro: decodeANSI_encoded [OF assms(1)])
  have n: "unat (word_of_nat (length t) :: byte) = length t" using lt by (rule unat_byte_len)
  note blk = autoinc_block
  have "reads (parseColumnDef cd i) ((storedColumn c)\<lparr>Position := i\<rparr>)
      ([word_of_nat (length t)] @ t @ leU32 (ColID c) @ [BaseType c, FieldType c] @ leU32 (Size c) @ [] @ ?blk @ [BaseType c] @ [typedValueAbsent] @ [])" for i
  proof -
    have bl: "reads (blobSettingsP ([BaseType c, FieldType c] ! 0)) noBlob []"
      using not_blob [OF k] by (simp add: blobSettingsP_def reads_ret)
    have df: "reads columnDefaultEnd False ([typedValueAbsent] @ [])"
      unfolding columnDefaultEnd_def by (rule reads_bind [OF reads_byte]) (simp add: reads_ret)
    have v: "(storedColumn c)\<lparr>Position := i\<rparr> = \<lparr>Name = decodeANSI (ansiDecode cd) t, ColID = getU32 (leU32 (ColID c)) 0,
       BaseType = [BaseType c, FieldType c] ! 0, FieldType = [BaseType c, FieldType c] ! 1, Size = getU32 (leU32 (Size c)) 0,
       Position = i, hasDefault = False,
       autoInc = \<lparr>increment = sint (getU64 ?blk 0), initialValue = sint (getU64 ?blk 8), minValue = sint (getU64 ?blk 16),
         maxValue = sint (getU64 ?blk 24), cycled = (?blk ! 32 \<noteq> 0), aiKnown = True\<rparr>,
       blob = noBlob, notNull = False, nullabilityKnown = False\<rparr>"
      unfolding blk nm by (simp add: storedColumn_def engineAutoInc_def)
    show ?thesis
      unfolding parseColumnDef_def v
      by (rule reads_bind [OF reads_byte], rule reads_bind [OF reads_bytes], rule n,
          rule reads_bind [OF reads_bytes], simp, rule reads_bind [OF reads_bytes], simp, rule reads_bind [OF reads_bytes], simp,
          rule reads_bind [OF bl], rule reads_bind [OF reads_bytes], rule blk(1) [symmetric], rule reads_bind [OF reads_byte],
          rule reads_bind [OF df [simplified]], rule reads_ret)
  qed
  then show ?thesis by (simp add: columnBytes_def d)
qed

lemma columns_written:
  assumes "lawful_codec cd" and "\<forall>c \<in> set cols. storable cd 255 (Name c)" and "mapR (serializeColumnDef cd) cols = Inr ds"
  shows "list_all2 (columnBytes cd) (map storedColumn cols) ds"
  using assms(2,3) column_def_reads [OF assms(1)]
  by (simp add: mapR_Inr list_all2_map1 list_all2_conv_all_nth)

section \<open>Editing the columns of a stream\<close>

lemma dropColumnAt_cut: "dropColumnAt cols k = renumber 0 (take k cols @ drop (Suc k) cols)"
  by (simp add: dropColumnAt_def)

text \<open>C25. Dropping a column from the schema stream removes exactly its definition: the edited stream
  parses to the remaining columns, renumbered as \<open>dropColumnAt\<close> does, and the index records, the
  constraint records and the trailing page numbers are what they were.\<close>

theorem splice_drops_one_column:
  assumes tail: "parseSchemaTail cd data = Inr (colsEnd, n, records, constraints, tailStart)"
    and cols: "parseSchema cd data = Inr cols" and k: "k < length cols"
  shows "\<exists>data' colsEnd' records' constraints' tailStart'.
    spliceColumns cd data (int k) None = Inr data'
    \<and> parseSchema cd data' = Inr (dropColumnAt cols k)
    \<and> parseSchemaTail cd data' = Inr (colsEnd', n, records', constraints', tailStart')
    \<and> map bareIndex records' = map bareIndex records
    \<and> map bareConstraint constraints' = map bareConstraint constraints
    \<and> streamTrailer data' = streamTrailer data"
proof -
  obtain cs irs krs cbs ibs kbs trailer where sh: "shaped cd cs irs krs cbs ibs kbs trailer"
    and data: "data = streamOf cbs ibs kbs trailer"
    and tl: "tailOf colsEnd irs krs ibs kbs = (n, records, constraints, tailStart)" and ren: "cs = renumber 0 cs"
    using tail_shape [OF tail] .
  note len = shape_lengths [OF sh]
  have cs: "cols = cs" using cols shape_columns(1) [OF sh] data ren by simp
  have kb: "k < length cbs" using k cs len by simp
  let ?cb = "take k cbs @ drop (Suc k) cbs"
  let ?data' = "streamOf ?cb ibs kbs trailer"
  have cut: "concat cbs = concat (take k cbs) @ cbs ! k @ concat (drop (Suc k) cbs)" by (rule concat_cut [OF kb])
  have cnt: "countBytes (length ?cb) = leU32 (word_of_nat (length cbs - 1))" using kb by (simp add: countBytes_def)
  have span: "spansFrom 4 cbs ! k = (4 + length (concat (take k cbs)), 4 + (length (concat (take k cbs)) + length (cbs ! k)))"
    using nth_spansFrom [OF kb] length_take_Suc [OF kb] by simp
  have "spliceColumns cd data (int k) None = Inr ?data'"
    unfolding spliceColumns_def data shape_columns(3) [OF sh] bindR_simps prod.case length_spansFrom nat_int span
    using kb cnt by (simp add: streamOf_def cut slc_def)
  moreover have sh': "shaped cd (take k cs @ drop (Suc k) cs) irs krs ?cb ibs kbs trailer"
    using sh list_all2_cut [of "columnBytes cd" cs cbs k] by (auto simp: shaped_def)
  moreover have "streamTrailer ?data' = streamTrailer data" using sh by (simp add: data trailer_streamOf shaped_def)
  ultimately show ?thesis
    using shape_columns(1) [OF sh'] shape_tail [OF sh'] tl len
    by (auto simp: tailOf_def Let_def cs dropColumnAt_cut)
qed

text \<open>C26. Adding a column appends exactly its definition: the edited stream parses to the old columns
  followed by the new one, and the tail is what it was.\<close>

theorem splice_appends_one_column:
  assumes tail: "parseSchemaTail cd data = Inr (colsEnd, n, records, constraints, tailStart)"
    and cols: "parseSchema cd data = Inr cols" and room: "length cols < maxSchemaColumns"
    and law: "lawful_codec cd" and new: "storable cd 255 (Name c)" "serializeColumnDef cd c = Inr d"
  shows "\<exists>data' colsEnd' records' constraints' tailStart'.
    spliceColumns cd data (-1) (Some d) = Inr data'
    \<and> parseSchema cd data' = Inr (cols @ [(storedColumn c)\<lparr>Position := length cols\<rparr>])
    \<and> parseSchemaTail cd data' = Inr (colsEnd', n, records', constraints', tailStart')
    \<and> map bareIndex records' = map bareIndex records
    \<and> map bareConstraint constraints' = map bareConstraint constraints
    \<and> streamTrailer data' = streamTrailer data"
proof -
  obtain cs irs krs cbs ibs kbs trailer where sh: "shaped cd cs irs krs cbs ibs kbs trailer"
    and data: "data = streamOf cbs ibs kbs trailer"
    and tl: "tailOf colsEnd irs krs ibs kbs = (n, records, constraints, tailStart)" and ren: "cs = renumber 0 cs"
    using tail_shape [OF tail] .
  note len = shape_lengths [OF sh]
  have cs: "cols = cs" using cols shape_columns(1) [OF sh] data ren by simp
  let ?data' = "streamOf (cbs @ [d]) ibs kbs trailer"
  have "spliceColumns cd data (-1) (Some d) = Inr ?data'"
    unfolding spliceColumns_def data shape_columns(3) [OF sh] bindR_simps prod.case length_spansFrom
    by (simp add: streamOf_def slc_def countBytes_def del: of_nat_Suc)
  moreover have sh': "shaped cd (cs @ [storedColumn c]) irs krs (cbs @ [d]) ibs kbs trailer"
    using sh column_def_reads [OF law new] room cs by (auto simp: shaped_def intro!: list_all2_appendI)
  moreover have "renumber i (xs @ ys) = renumber i xs @ renumber (i + length xs) ys" for i xs ys
    by (induction xs arbitrary: i) auto
  moreover have "streamTrailer ?data' = streamTrailer data" using sh by (simp add: data trailer_streamOf shaped_def)
  ultimately show ?thesis
    using shape_columns(1) [OF sh'] shape_tail [OF sh'] tl len ren
    by (auto simp: tailOf_def Let_def cs)
qed

section \<open>A new table's stream\<close>

lemma built_shape:
  assumes law: "lawful_codec cd" and names: "\<forall>c \<in> set cols. storable cd 255 (Name c)"
    and recs: "\<forall>r \<in> set irs. index_ok cd r" "\<forall>k \<in> set krs. constraint_ok cd k"
    and small: "length irs < 2 ^ 31"
    and built: "serializeColumnDefs cd cols = Inr colDefs" "serializeIndexArray cd irs = Inr indexes"
      "serializeConstraintArray cd krs = Inr constrs"
  obtains ds xs ks trailer where "buildSchemaFile colDefs indexes constrs root = streamOf ds xs ks trailer"
    and "shaped cd (map storedColumn cols) (map bareIndex irs) (map bareConstraint krs) ds xs ks trailer"
proof -
  obtain ds where ds: "mapR (serializeColumnDef cd) cols = Inr ds" and dn: "length cols \<le> maxSchemaColumns"
    and cd': "colDefs = countBytes (length cols) @ concat ds"
    using built(1) by (auto simp: serializeColumnDefs_def countBytes_def)
  obtain xs where xs: "mapR (serializeIndexRecord cd) irs = Inr xs" and ib: "indexes = countBytes (length irs) @ concat xs"
    using built(2) by (auto simp: serializeIndexArray_def countBytes_def)
  obtain ks where ks: "mapR (serializeConstraintRecord cd) krs = Inr ks" and kn: "length krs \<le> maxSchemaColumns"
    and kb: "constrs = countBytes (length krs) @ concat ks"
    using built(3) by (auto simp: serializeConstraintArray_def countBytes_def)
  let ?tr = "leU32 (uint32 (int32 root)) @ leU32 noPageNo"
  have i: "list_all2 (reads (parseIndexRecord cd)) (map bareIndex irs) xs"
    using xs recs(1) index_record_reads [OF law]
    by (simp add: mapR_Inr list_all2_map1 list_all2_conv_all_nth bareIndex_def)
  have k: "list_all2 (reads (parseConstraintRecord cd)) (map bareConstraint krs) ks"
    using ks recs(2) constraint_record_reads [OF law]
    by (simp add: mapR_Inr list_all2_map1 list_all2_conv_all_nth bareConstraint_def)
  show thesis
  proof (rule that [of ds xs ks ?tr])
    show "buildSchemaFile colDefs indexes constrs root = streamOf ds xs ks ?tr"
      using length_mapR [OF ds] length_mapR [OF xs] length_mapR [OF ks]
      by (simp add: buildSchemaFile_def streamOf_def cd' ib kb)
    show "shaped cd (map storedColumn cols) (map bareIndex irs) (map bareConstraint krs) ds xs ks ?tr"
      using i k columns_written [OF law names ds] dn kn small
      by (simp add: shaped_def systemIndexRootsSize_def maxSchemaColumns_def)
  qed
qed

text \<open>C27. The stream \<open>CREATE TABLE\<close> writes reads back: the columns come back as given, numbered in order,
  and the tail parses to the index and constraint records it was built from.\<close>

theorem created_schema_reads_back:
  assumes "lawful_codec cd" and "\<forall>c \<in> set cols. storable cd 255 (Name c)"
    and "\<forall>r \<in> set irs. index_ok cd r" and "\<forall>k \<in> set krs. constraint_ok cd k" and "length irs < 2 ^ 31"
    and "serializeColumnDefs cd cols = Inr colDefs" and "serializeIndexArray cd irs = Inr indexes"
    and "serializeConstraintArray cd krs = Inr constrs"
  shows "parseSchema cd (buildSchemaFile colDefs indexes constrs root) = Inr (renumber 0 (map storedColumn cols))
    \<and> (\<exists>colsEnd irs' krs' tailStart.
      parseSchemaTail cd (buildSchemaFile colDefs indexes constrs root) = Inr (colsEnd, length irs, irs', krs', tailStart)
      \<and> map bareIndex irs' = map bareIndex irs \<and> map bareConstraint krs' = map bareConstraint krs)"
proof -
  obtain ds xs ks tr where st: "buildSchemaFile colDefs indexes constrs root = streamOf ds xs ks tr"
    and sh: "shaped cd (map storedColumn cols) (map bareIndex irs) (map bareConstraint krs) ds xs ks tr"
    by (rule built_shape [OF assms])
  show ?thesis
    unfolding st shape_columns(1) [OF sh] shape_tail [OF sh] using shape_lengths [OF sh]
    by (simp add: tailOf_def Let_def comp_def)
qed

section \<open>What the parsers report\<close>

text \<open>\<open>fails E m\<close>: the errors of \<open>m\<close> are those of \<open>E\<close>, and a result lies inside the stream.\<close>

definition fails :: "err set \<Rightarrow> 'a scan \<Rightarrow> bool" where
  "fails E m \<longleftrightarrow> (\<forall>data pos. pos \<le> length data \<longrightarrow>
     (case m data pos of Inl e \<Rightarrow> e \<in> E | Inr (x, p) \<Rightarrow> pos \<le> p \<and> p \<le> length data))"

lemma failsD:
  assumes "fails E m" and "pos \<le> length data"
  shows "(\<exists>x p. m data pos = Inr (x, p) \<and> pos \<le> p \<and> p \<le> length data) \<or> (\<exists>e \<in> E. m data pos = Inl e)"
  using assms(1) [unfolded fails_def, rule_format, OF assms(2)] by (cases "m data pos") auto

lemma fails_wrap: "safe m \<Longrightarrow> fails {e} (wrapP e m)"
  unfolding fails_def
proof (intro allI impI)
  fix data :: "byte list" and pos assume m: "safe m" and le: "pos \<le> length data"
  show "case wrapP e m data pos of Inl e' \<Rightarrow> e' \<in> {e} | Inr (x, p) \<Rightarrow> pos \<le> p \<and> p \<le> length data"
    using safeD [OF m le] by (cases "m data pos") (auto simp: wrapP_def)
qed

lemma fails_bind:
  assumes "fails E m" and "\<And>x. fails E (f x)"
  shows "fails E (bindP m f)"
  unfolding fails_def
proof (intro allI impI)
  fix data :: "byte list" and pos assume le: "pos \<le> length data"
  from failsD [OF assms(1) le] show "case bindP m f data pos of Inl e \<Rightarrow> e \<in> E | Inr (x, p) \<Rightarrow> pos \<le> p \<and> p \<le> length data"
  proof (elim disjE exE conjE bexE)
    fix x p assume m: "m data pos = Inr (x, p)" and p: "pos \<le> p" "p \<le> length data"
    from failsD [OF assms(2) [of x] p(2)] show ?thesis using m p by (auto simp: bindP_def)
  qed (simp add: bindP_def)
qed

lemma fails_mono: "fails E m \<Longrightarrow> E \<subseteq> F \<Longrightarrow> fails F m"
  unfolding fails_def by (intro allI impI) (drule spec, drule spec, drule (1) mp, auto split: sum.split_asm)

lemma fails_prims: "fails E (retP x)" "fails E posP" "e \<in> E \<Longrightarrow> fails E (guardP ok e)" "e \<in> E \<Longrightarrow> fails E (roomP n e)"
  "e \<in> E \<Longrightarrow> fails E (nextBytes n e)" "e \<in> E \<Longrightarrow> fails E (remainingP n e)"
  by (simp_all add: fails_def retP_def posP_def guardP_def next_runs remainingP_def)

lemma fails_count: "ErrBadSchema \<in> E \<Longrightarrow> fails E readArrayCount"
  unfolding readArrayCount_def Let_def by (intro fails_bind fails_prims)

lemma fails_tail: "fails {ErrBadSchema, ErrSchemaTailNotUnderstood} (schemaTailP cd)"
proof -
  have "safe (parseIndexRecords cd k)" "safe (parseConstraintRecords cd k)" for k
    unfolding parseIndexRecords_def parseConstraintRecords_def by (intro safe_intros)+
  then show ?thesis
    unfolding schemaTailP_def
    by (intro fails_bind fails_count fails_prims) (auto intro: fails_mono [OF fails_wrap])
qed

lemma count_cases: "(\<exists>n. schemaColumnCount data = Inr n \<and> 4 \<le> length data) \<or> schemaColumnCount data = Inl ErrBadSchema"
  by (auto simp: schemaColumnCount_def Let_def)

text \<open>C28. Whatever bytes a schema page holds, the stream parsers end with a result or with one of the two
  errors the package documents for it: no index leaves the stream, so nothing panics.\<close>

theorem schema_parsers_report_only_their_errors:
  "((\<exists>cols. parseSchema cd data = Inr cols) \<or> parseSchema cd data = Inl ErrBadSchema)
   \<and> ((\<exists>r. parseSchemaTail cd data = Inr r) \<or> parseSchemaTail cd data = Inl ErrBadSchema
      \<or> parseSchemaTail cd data = Inl ErrSchemaTailNotUnderstood)"
proof (cases "schemaColumnCount data")
  case (Inl e)
  then show ?thesis using count_cases [of data] by (auto simp: parseSchemaTail_def parseSchema_def schemaColumnsEnd_def)
next
  case (Inr n)
  then have le: "4 \<le> length data" using count_cases [of data] by auto
  have "fails {ErrBadSchema} (wrapP ErrBadSchema (manyP (parseColumnDef cd) 0 n))"
    by (intro fails_wrap safe_intros)
  from failsD [OF this le] show ?thesis
  proof (elim disjE exE conjE bexE)
    fix cols p assume m: "wrapP ErrBadSchema (manyP (parseColumnDef cd) 0 n) data 4 = Inr (cols, p)" and p: "p \<le> length data"
    then have "parseSchema cd data = Inr cols" "schemaColumnsEnd cd data = Inr p"
      using Inr by (simp_all add: parseSchema_def schemaColumnsEnd_def)
    then show ?thesis using failsD [OF fails_tail p, of cd] by (auto simp: parseSchemaTail_def)
  qed (simp add: Inr parseSchemaTail_def parseSchema_def schemaColumnsEnd_def)
qed

end
