(* ===== verification/Stream_Witnesses.thy ===== *)
theory Stream_Witnesses
  imports Column_Edits
begin

text \<open>
  A small table's stream on which the properties of the stream are instantiated: two columns,
  one index, one NOT NULL record; and the one name length the constraint records cannot hold.
  The codec of the samples stores every byte as itself.
\<close>

definition byteCodec :: codec where
  "byteCodec = \<lparr>ansiEncode = Some, ansiDecode = Some\<rparr>"

lemma byteCodec_lawful: "lawful_codec byteCodec"
  by (simp add: byteCodec_def lawful_codec_def)

lemma byteCodec_storable: "storable byteCodec n s \<longleftrightarrow> 0 \<notin> set s \<and> length s \<le> n"
  by (simp add: storable_def byteCodec_def)

definition intColumn :: "byte \<Rightarrow> u32 \<Rightarrow> Column" where
  "intColumn name colID = \<lparr>Name = [name], ColID = colID, BaseType = BftInt32, FieldType = FieldInteger, Size = 0, Position = 0,
     hasDefault = False, autoInc = engineAutoInc, blob = noBlob, notNull = False, nullabilityKnown = False\<rparr>"

definition twoColumns :: "Column list" where
  "twoColumns = [intColumn 65 2, (intColumn 66 3)\<lparr>Position := 1\<rparr>]"

definition oneIndex :: "byte \<Rightarrow> indexRecord" where
  "oneIndex name = \<lparr>irName = [name], irObjectID = 4, irUnique = False, irPrimary = False, rootPageNo = 9,
     irColumns = [\<lparr>icName = [65], descending = False, caseInsensitive = False, maxIndexedSize = indexColumnMaxIndexedSize\<rparr>],
     irStart = 0, irEnd = 0\<rparr>"

definition notNullRecord :: "byte list \<Rightarrow> constraintRecord" where
  "notNullRecord table = \<lparr>crKind = constraintNotNull, crName = [78], crObjectID = 5, crOwnerID = 2, crTable = table, crIndex = [],
     crColumns = [\<lparr>ccName = [65], ccObjectID = 0\<rparr>], crMin = noValue, crMax = noValue, crStart = 0, crEnd = 0\<rparr>"

lemma sample_names:
  "\<forall>c \<in> set twoColumns. storable byteCodec 255 (Name c)"
  "name \<noteq> 0 \<Longrightarrow> index_ok byteCodec (oneIndex name)"
  "constraint_ok byteCodec (notNullRecord [84])"
  by (simp_all add: twoColumns_def intColumn_def byteCodec_storable index_ok_def oneIndex_def constraint_ok_def
      notNullRecord_def keyKind_def column_ok_def constraint_consts value_ok_def noValue_def)

lemma sample_serialized:
  "\<exists>ds. serializeColumnDefs byteCodec twoColumns = Inr ds"
  "\<exists>bs. serializeIndexRecord byteCodec (oneIndex name) = Inr bs"
  "\<exists>bs. serializeIndexArray byteCodec [oneIndex name] = Inr bs"
  "\<exists>bs. serializeConstraintArray byteCodec [notNullRecord [84]] = Inr bs"
  by (simp_all add: serializeColumnDefs_def twoColumns_def intColumn_def serializeColumnDef_def knownColumnType_def
      knownColumnTypes_def IsBLOB_def bft_consts FieldInteger_def engineDefault_def engineAutoInc_def byteCodec_def
      maxSchemaColumns_def serializeIndexRecord_def encodePascalName_def encodeOptionalPascalName_def oneIndex_def
      serializeIndexArray_def serializeConstraintArray_def serializeConstraintRecord_def notNullRecord_def keyKind_def
      columnKind_def constraint_consts Let_def appendColumnConstraintBody_def appendSizedString8_def)

definition sampleStream :: "byte list" where
  "sampleStream = buildSchemaFile (projr (serializeColumnDefs byteCodec twoColumns))
     (projr (serializeIndexArray byteCodec [oneIndex 73])) (projr (serializeConstraintArray byteCodec [notNullRecord [84]])) 7"

lemma sample_stored: "map storedColumn twoColumns = twoColumns" "renumber 0 twoColumns = twoColumns"
  by (simp_all add: twoColumns_def storedColumn_def intColumn_def)

lemma sample_parses:
  obtains colsEnd records constraints tailStart where
    "parseSchemaTail byteCodec sampleStream = Inr (colsEnd, 1, records, constraints, tailStart)"
    "length records = 1" "map bareIndex records = [oneIndex 73]" "map bareConstraint constraints = [notNullRecord [84]]"
    "parseSchema byteCodec sampleStream = Inr twoColumns"
proof -
  obtain ds xs ks where b: "serializeColumnDefs byteCodec twoColumns = Inr ds"
    "serializeIndexArray byteCodec [oneIndex 73] = Inr xs" "serializeConstraintArray byteCodec [notNullRecord [84]] = Inr ks"
    using sample_serialized by blast
  then have s: "sampleStream = buildSchemaFile ds xs ks 7" by (simp add: sampleStream_def)
  obtain cbs ibs kbs tr where st: "sampleStream = streamOf cbs ibs kbs tr"
    and sh: "shaped byteCodec (map storedColumn twoColumns) (map bareIndex [oneIndex 73]) (map bareConstraint [notNullRecord [84]]) cbs ibs kbs tr"
    unfolding s by (rule built_shape [OF byteCodec_lawful sample_names(1) _ _ _ b]) (simp_all add: sample_names)
  have bare: "bareIndex (oneIndex 73) = oneIndex 73" "bareConstraint (notNullRecord [84]) = notNullRecord [84]"
    by (simp_all add: bareIndex_def bareConstraint_def placeIndex_def placeConstraint_def oneIndex_def notNullRecord_def)
  have len: "length ibs = 1" "length kbs = 1" using shape_lengths [OF sh] by simp_all
  show thesis
    by (rule that [where colsEnd = "4 + length (concat cbs)" and
          records = "placed placeIndex (4 + length (concat cbs) + 4) [oneIndex 73] ibs" and
          constraints = "placed placeConstraint (4 + length (concat cbs) + 4 + length (concat ibs) + 4) [notNullRecord [84]] kbs" and
          tailStart = "4 + length (concat cbs) + 4 + length (concat ibs)"])
      (use shape_columns(1) [OF sh] shape_tail [OF sh] st sample_stored bare len in \<open>simp_all add: tailOf_def Let_def\<close>)
qed

theorem created_schema_reads_back_witness:
  "\<exists>ds xs ks. serializeColumnDefs byteCodec twoColumns = Inr ds
     \<and> parseSchema byteCodec (buildSchemaFile ds xs ks 7) = Inr twoColumns"
proof -
  obtain ds xs ks where b: "serializeColumnDefs byteCodec twoColumns = Inr ds"
    "serializeIndexArray byteCodec [oneIndex 73] = Inr xs" "serializeConstraintArray byteCodec [notNullRecord [84]] = Inr ks"
    using sample_serialized by blast
  have "parseSchema byteCodec (buildSchemaFile ds xs ks 7) = Inr (renumber 0 (map storedColumn twoColumns))"
    using created_schema_reads_back [OF byteCodec_lawful sample_names(1) _ _ _ b, of 7] by (simp add: sample_names)
  then show ?thesis using b sample_stored by auto
qed

theorem drop_index_removes_one_record_witness:
  "\<exists>colsEnd records constraints tailStart records' constraints' tailStart'.
     parseSchemaTail byteCodec sampleStream = Inr (colsEnd, 1, records, constraints, tailStart)
     \<and> parseSchemaTail byteCodec (dropIndexStream sampleStream colsEnd 1 tailStart (records ! 0))
       = Inr (colsEnd, 0, records', constraints', tailStart')
     \<and> records' = [] \<and> map bareConstraint constraints' = [notNullRecord [84]]"
proof -
  obtain ce rs cs ts where p: "parseSchemaTail byteCodec sampleStream = Inr (ce, 1, rs, cs, ts)" "length rs = 1"
    "map bareConstraint cs = [notNullRecord [84]]"
    by (rule sample_parses)
  show ?thesis using drop_index_removes_one_record [OF p(1), of 0] p by auto
qed

theorem create_index_appends_one_record_witness:
  "\<exists>colsEnd records constraints tailStart bs records' constraints' tailStart'.
     parseSchemaTail byteCodec sampleStream = Inr (colsEnd, 1, records, constraints, tailStart)
     \<and> serializeIndexRecord byteCodec (oneIndex 74) = Inr bs
     \<and> parseSchemaTail byteCodec (createIndexSplice sampleStream colsEnd 1 tailStart 1 bs None)
       = Inr (colsEnd, 2, records', constraints', tailStart')
     \<and> map bareIndex records' = [oneIndex 73, oneIndex 74]"
proof -
  obtain ce rs cs ts where p: "parseSchemaTail byteCodec sampleStream = Inr (ce, 1, rs, cs, ts)"
    "map bareIndex rs = [oneIndex 73]" "map bareConstraint cs = [notNullRecord [84]]"
    by (rule sample_parses)
  obtain bs where bs: "serializeIndexRecord byteCodec (oneIndex 74) = Inr bs" using sample_serialized(2) by blast
  have cs: "length cs = 1" using p(3) by (metis length_map length_Cons list.size(3) One_nat_def)
  have bare: "bareIndex (oneIndex 74) = oneIndex 74" by (simp add: bareIndex_def placeIndex_def oneIndex_def)
  have ok: "index_ok byteCodec (oneIndex 74)" by (rule sample_names(2)) simp
  obtain rs' cs' ts' where "parseSchemaTail byteCodec (createIndexSplice sampleStream ce 1 ts 1 bs None) = Inr (ce, 2, rs', cs', ts')"
    "map bareIndex rs' = [oneIndex 73, oneIndex 74]"
    using create_index_appends_one_record [OF p(1) byteCodec_lawful ok bs, of None undefined] p(2) cs bare by auto
  then show ?thesis using p(1) bs by (intro exI conjI)
qed

theorem splice_drops_one_column_witness:
  "\<exists>data'. spliceColumns byteCodec sampleStream 0 None = Inr data'
     \<and> parseSchema byteCodec data' = Inr [(intColumn 66 3)\<lparr>Position := 0\<rparr>]"
proof -
  obtain ce rs cs ts where p: "parseSchemaTail byteCodec sampleStream = Inr (ce, 1, rs, cs, ts)"
    "parseSchema byteCodec sampleStream = Inr twoColumns"
    by (rule sample_parses)
  have "dropColumnAt twoColumns 0 = [(intColumn 66 3)\<lparr>Position := 0\<rparr>]"
    by (simp add: dropColumnAt_def twoColumns_def)
  then show ?thesis using splice_drops_one_column [OF p, of 0] by (auto simp: twoColumns_def)
qed

theorem splice_appends_one_column_witness:
  "\<exists>d data'. serializeColumnDef byteCodec (intColumn 67 6) = Inr d
     \<and> spliceColumns byteCodec sampleStream (-1) (Some d) = Inr data'
     \<and> parseSchema byteCodec data' = Inr (twoColumns @ [(intColumn 67 6)\<lparr>Position := 2\<rparr>])"
proof -
  obtain ce rs cs ts where p: "parseSchemaTail byteCodec sampleStream = Inr (ce, 1, rs, cs, ts)"
    "parseSchema byteCodec sampleStream = Inr twoColumns"
    by (rule sample_parses)
  obtain d where d: "serializeColumnDef byteCodec (intColumn 67 6) = Inr d"
    by (simp add: intColumn_def serializeColumnDef_def knownColumnType_def knownColumnTypes_def IsBLOB_def bft_consts
        FieldInteger_def engineDefault_def engineAutoInc_def byteCodec_def)
  have c: "storable byteCodec 255 (Name (intColumn 67 6))" "storedColumn (intColumn 67 6) = intColumn 67 6"
    by (simp_all add: byteCodec_storable intColumn_def storedColumn_def)
  have l: "length twoColumns = 2" by (simp add: twoColumns_def)
  show ?thesis using splice_appends_one_column [OF p _ byteCodec_lawful c(1) d] c(2) d l
    by (auto simp: maxSchemaColumns_def)
qed

section \<open>The length a counting byte cannot hold\<close>

text \<open>\<open>refuses m bs\<close>: wherever the bytes stand, \<open>m\<close> reports an error for them.\<close>

definition refuses :: "'a scan \<Rightarrow> byte list \<Rightarrow> bool" where
  "refuses m bs \<longleftrightarrow> (\<forall>pre post. \<exists>msg. m (pre @ bs @ post) (length pre) = Inl (ErrText msg))"

lemma refuses_bind:
  assumes "reads m x a" and "refuses (f x) b"
  shows "refuses (bindP m f) (a @ b)"
  unfolding refuses_def
proof (intro allI)
  fix pre post
  have m: "m (pre @ a @ b @ post) (length pre) = Inr (x, length (pre @ a))" using readsD [OF assms(1)] by simp
  obtain msg where "f x ((pre @ a) @ b @ post) (length (pre @ a)) = Inl (ErrText msg)"
    using assms(2) unfolding refuses_def by blast
  then show "\<exists>msg. bindP m f (pre @ (a @ b) @ post) (length pre) = Inl (ErrText msg)"
    using m by (simp add: bindP_def)
qed

lemma refuses_guard: "ok \<Longrightarrow> refuses (f ()) b \<Longrightarrow> refuses (bindP (guardP ok e) f) b"
  using refuses_bind [of "guardP ok e" "()" "[]" f b] by (simp add: reads_def)

lemma refuses_first: "refuses m a \<Longrightarrow> refuses (bindP m f) (a @ b)"
  unfolding refuses_def
proof (intro allI)
  fix pre post assume "\<forall>pre post. \<exists>msg. m (pre @ a @ post) (length pre) = Inl (ErrText msg)"
  then obtain msg where "m (pre @ a @ b @ post) (length pre) = Inl (ErrText msg)" by blast
  then show "\<exists>msg. bindP m f (pre @ (a @ b) @ post) (length pre) = Inl (ErrText msg)" by (simp add: bindP_def)
qed

text \<open>C29. A NOT NULL or CHECK record counts its table name in one byte, length byte included. For a name
  of 255 bytes that count is written as 0, in front of the name's own length byte 255, and the record that
  was written is refused by the parser: its size field no longer agrees with the string.\<close>

theorem long_table_name_breaks_constraint:
  assumes kind: "columnKind (crKind r)" and law: "lawful_codec cd" and name: "storable cd 255 (crName r)"
    and long: "ansiEncode cd (crTable r) = Some t" "length t = 255"
    and written: "serializeConstraintRecord cd r = Inr bs"
  shows "(\<exists>nt tl. encodePascalName cd (crName r) = Inr nt
      \<and> bs = [crKind r] @ (word_of_nat (length nt) # nt) @ leU32 (crObjectID r) @ replicate constraintReservedSize 0
          @ leU32 (crOwnerID r) @ [word_of_nat constraintBodyCount, 0] @ ([0, 255] @ t) @ tl)
    \<and> (\<exists>msg. parseConstraintRecord cd (pre @ bs @ post) (length pre) = Inl (ErrText msg))"
proof -
  have nk: "\<not> keyKind (crKind r)" using kind by (auto simp: columnKind_def keyKind_def constraint_consts)
  obtain nt out where nt: "encodePascalName cd (crName r) = Inr nt"
    and b: "appendColumnConstraintBody cd (appendPascalString [crKind r] nt @ leU32 (crObjectID r)
       @ replicate constraintReservedSize 0 @ leU32 (crOwnerID r)) r = Inr bs"
    using written kind nk by (auto simp: serializeConstraintRecord_def Let_def)
  have nm: "named cd (crName r) nt" using named_encode(2) [OF law name nt] by simp
  have "encodePascalName cd (crTable r) = Inr t"
    using long by (auto simp: encodePascalName_def encodeOptionalPascalName_def)
  then obtain rest where bs: "bs = [crKind r] @ (word_of_nat (length nt) # nt) @ leU32 (crObjectID r)
       @ replicate constraintReservedSize 0 @ leU32 (crOwnerID r) @ [1] @ [0] @ ([0] @ word_of_nat (length t) # t) @ rest"
  proof -
    have pre: "\<exists>rest. x = y @ rest" if "appendSizedString8 cd y s = Inr x" for x y s
      using that by (auto simp: appendSizedString8_def appendPascalString_def)
    have prev: "\<exists>rest. x = y @ rest" if "appendTypedValue y v = Inr x" for x y v
      using that by (auto simp: appendTypedValue_def split: if_splits)
    obtain o1 o2 where o1: "appendSizedString8 cd ((appendPascalString [crKind r] nt @ leU32 (crObjectID r)
       @ replicate constraintReservedSize 0 @ leU32 (crOwnerID r)) @ [word_of_nat constraintBodyCount, 0]) (crTable r) = Inr o1"
      and o2: "appendSizedString8 cd o1 (ccName (crColumns r ! 0)) = Inr o2"
      and rest: "(if crKind r \<noteq> constraintCheck then Inr o2
         else bindR (appendTypedValue o2 (crMin r)) (\<lambda>out. appendTypedValue out (crMax r))) = Inr bs"
      using b unfolding appendColumnConstraintBody_def bindR_eq_Inr guardR_eq_Inr by blast
    have "\<exists>rest. bs = o2 @ rest"
      using rest by (auto split: if_splits dest!: prev)
    then obtain tl where "bs = o1 @ tl" using pre [OF o2] by auto
    then show thesis
      using that o1 \<open>encodePascalName cd (crTable r) = Inr t\<close> long(2)
      by (auto simp: appendSizedString8_def appendPascalString_def constraintBodyCount_def)
  qed
  have t: "named cd (decodeANSI (ansiDecode cd) t) t" using long(2) by (simp add: named_def)
  have body: "refuses (readSizedString8 cd) ([0] @ word_of_nat (length t) # t)"
    unfolding readSizedString8_def
  proof (rule refuses_bind [OF reads_byte])
    show "refuses (readSizedStringBody cd (unat (0 :: byte))) (word_of_nat (length t) # t)"
      unfolding refuses_def using readsD [OF reads_pascal [OF t]] by (auto simp: readSizedStringBody_def)
  qed
  have one: "unat (1 :: byte) = constraintBodyCount" by (simp add: constraintBodyCount_def)
  let ?h = "\<lparr>crKind = crKind r, crName = crName r, crObjectID = crObjectID r, crOwnerID = crOwnerID r, crTable = [], crIndex = [],
       crColumns = [], crMin = noValue, crMax = noValue, crStart = 0, crEnd = 0\<rparr>"
  have "refuses (parseColumnConstraintBody cd ?h) ([1] @ [0] @ ([0] @ word_of_nat (length t) # t) @ rest)"
    unfolding parseColumnConstraintBody_def
    by (rule refuses_bind [OF reads_byte], rule refuses_guard, rule one, rule refuses_bind [OF reads_zeros], simp, simp,
        rule refuses_first [OF body])
  then have "refuses (parseConstraintRecord cd) bs"
    unfolding parseConstraintRecord_def Let_def bs using nk kind
    by (intro refuses_bind [OF reads_byte] refuses_bind [OF reads_pascal [OF nm]] refuses_bind [OF reads_u32]
        refuses_bind [OF reads_zeros]) simp_all
  then have "\<exists>msg. parseConstraintRecord cd (pre @ bs @ post) (length pre) = Inl (ErrText msg)"
    unfolding refuses_def by blast
  moreover have "word_of_nat (length t) = (255 :: byte)" using long(2) by simp
  ultimately show ?thesis using nt bs by (auto simp: constraintBodyCount_def)
qed

theorem long_table_name_breaks_constraint_witness:
  "\<exists>bs msg. serializeConstraintRecord byteCodec (notNullRecord (replicate 255 84)) = Inr bs
     \<and> (\<exists>hd tl. bs = hd @ ([0, 255] @ replicate 255 84) @ tl)
     \<and> parseConstraintRecord byteCodec bs 0 = Inl (ErrText msg)"
proof -
  let ?r = "notNullRecord (replicate 255 84)"
  obtain bs where bs: "serializeConstraintRecord byteCodec ?r = Inr bs"
    by (simp add: serializeConstraintRecord_def notNullRecord_def keyKind_def encodePascalName_def encodeOptionalPascalName_def
        byteCodec_def columnKind_def constraint_consts Let_def appendColumnConstraintBody_def appendSizedString8_def)
  have r: "columnKind (crKind ?r)" "storable byteCodec 255 (crName ?r)"
    by (simp_all add: notNullRecord_def columnKind_def byteCodec_storable)
  have t: "ansiEncode byteCodec (crTable ?r) = Some (replicate 255 84)" by (simp add: notNullRecord_def byteCodec_def)
  from long_table_name_breaks_constraint [OF r(1) byteCodec_lawful r(2) t _ bs, of "[]" "[]"]
  obtain nt tl msg where "bs = ([crKind ?r] @ (word_of_nat (length nt) # nt) @ leU32 (crObjectID ?r) @ replicate constraintReservedSize 0
      @ leU32 (crOwnerID ?r) @ [word_of_nat constraintBodyCount, 0]) @ ([0, 255] @ replicate 255 84) @ tl"
    "parseConstraintRecord byteCodec bs 0 = Inl (ErrText msg)" by auto
  then show ?thesis using bs by blast
qed

end
