(* ===== verification/Catalog_Props.thy ===== *)
theory Catalog_Props
  imports Catalog Internal_Trips Stream_Witnesses
begin

text \<open>
  Editing the table catalog in place: what \<open>appendCatalogEntry\<close> and \<open>removeCatalogEntry\<close> leave,
  read by \<open>decompressInternalFile\<close> and \<open>parseTableList\<close>.
\<close>

definition catalogOf :: "zlib \<Rightarrow> codec \<Rightarrow> byte list \<Rightarrow> TableInfo list result" where
  "catalogOf z cd payload = bindR (decompressInternalFile z payload) (parseTableList cd)"

text \<open>A catalog of \<open>n\<close> entries stored uncompressed behind a header of \<open>hdr\<close> bytes.\<close>

definition stored_catalog :: "nat \<Rightarrow> nat \<Rightarrow> byte list \<Rightarrow> bool" where
  "stored_catalog hdr n payload \<longleftrightarrow> 10 \<le> hdr \<and> unat (payload ! 0) = hdr \<and> payload ! 9 = 0 \<and> n \<le> maxCatalogTables
     \<and> getU32 payload 1 = word_of_nat (n * 272) \<and> getU32 payload 5 = word_of_nat (n * 272) \<and> hdr + n * 272 \<le> length payload"

definition slots :: "nat \<Rightarrow> nat \<Rightarrow> byte list \<Rightarrow> byte list list" where
  "slots hdr n payload = map (\<lambda>i. slc (hdr + i * 272) (hdr + i * 272 + 272) payload) [0..<n]"

lemma length_slots [simp]: "length (slots hdr n payload) = n"
  by (simp add: slots_def)

lemma stored_len:
  assumes "n \<le> maxCatalogTables" and "w = (word_of_nat (n * 272) :: u32)"
  shows "unat w = n * 272" "sint w = int (n * 272)"
proof -
  have b: "n * 272 < 2 ^ 31" using assms(1) by (simp add: maxCatalogTables_def)
  then show u: "unat w = n * 272" unfolding assms(2) unat_of_nat by simp
  have "uint w = int (n * 272)" using u by (simp add: uint_nat)
  then show "sint w = int (n * 272)"
    using b by (simp add: sint_uint signed_take_bit_eq_if_positive signed_take_bit_int_eq_self)
qed

lemma catalogOf_stored:
  assumes "stored_catalog hdr n payload"
  shows "catalogOf z cd payload = Inr (map (tableEntry cd) (slots hdr n payload))"
proof -
  note s = assms [unfolded stored_catalog_def]
  have l: "unat (getU32 payload 1) = n * 272" using stored_len(1) s by blast
  have d: "decompressInternalFile z payload = Inr (slc hdr (hdr + n * 272) payload)"
    using s l by (simp add: decompressInternalFile_def internalFileHeaderSize_def Let_def)
  have e: "entryBytes (slc hdr (hdr + n * 272) payload) i = slc (hdr + i * 272) (hdr + i * 272 + 272) payload" if "i < n" for i
  proof -
    have "(i + 1) * 272 \<le> n * 272" using that by (intro mult_le_mono1) simp
    then show ?thesis by (simp add: entryBytes_def tableListEntrySize_def slc_slc add.commute add.left_commute)
  qed
  have "n * 272 \<le> length payload - hdr" using s by linarith
  then have "length (slc hdr (hdr + n * 272) payload) = n * 272" by (simp add: min_def)
  then show ?thesis
    using s e by (simp add: catalogOf_def d parseTableList_def slots_def comp_def tableListEntrySize_def)
qed

text \<open>What a readable catalog that either edit accepts looks like.\<close>

lemma catalog_stored:
  assumes "catalogOf z cd payload = Inr ts" and "10 \<le> length payload" and "payload ! 9 = 0" and "getI32 payload 1 = getI32 payload 5"
  shows "stored_catalog (unat (payload ! 0)) (length ts) payload" and "getI32 payload 1 = int (length ts * 272)"
proof -
  let ?n = "unat (getU32 payload 1)"
  have d: "10 \<le> unat (payload ! 0)" "unat (payload ! 0) + ?n \<le> length payload" "?n mod 272 = 0"
    "?n div 272 \<le> maxCatalogTables" "length ts = ?n div 272"
    using assms by (auto simp: catalogOf_def decompressInternalFile_def parseTableList_def internalFileHeaderSize_def
        tableListEntrySize_def Let_def not_less split: if_splits)
  then have n: "length ts * 272 = ?n" by auto
  have "word_of_int (sint (getU32 payload 5)) = (word_of_int (sint (getU32 payload 1)) :: u32)"
    using assms(4) by (simp only: getI32_def)
  then have "getU32 payload 5 = getU32 payload 1" by simp
  moreover have w: "getU32 payload 1 = word_of_nat (length ts * 272)" unfolding n by simp
  ultimately show "stored_catalog (unat (payload ! 0)) (length ts) payload"
    using assms(3) d n by (simp add: stored_catalog_def)
  show "getI32 payload 1 = int (length ts * 272)" using stored_len(2) [OF _ w] d by (simp add: getI32_def)
qed

lemma nth_slots: "i < n \<Longrightarrow> slots hdr n payload ! i = slc (hdr + i * 272) (hdr + i * 272 + 272) payload"
  by (simp add: slots_def)

lemma putLens_stored:
  assumes "10 \<le> hdr" and "hdr + m * 272 \<le> length payload" and "unat (payload ! 0) = hdr" and "payload ! 9 = 0" and "m \<le> maxCatalogTables"
  shows "stored_catalog hdr m (putLens (word_of_nat (m * 272)) payload)" and "slots hdr m (putLens w payload) = slots hdr m payload"
proof -
  have "10 \<le> length payload" using assms(1,2) by linarith
  moreover from this have "payload \<noteq> []" by auto
  ultimately show "stored_catalog hdr m (putLens (word_of_nat (m * 272)) payload)"
    using assms by (auto simp: stored_catalog_def putLens_def nth_splice get_splice_disjoint)
  show "slots hdr m (putLens w payload) = slots hdr m payload"
    using assms(1) by (simp add: slots_def putLens_def slc_splice_disjoint)
qed

lemma slc_splice_within:
  assumes "i \<le> a" and "b \<le> i + length ys" and "b \<le> length xs"
  shows "slc a b (splice i ys xs) = slc (a - i) (b - i) ys"
  using assms by (auto intro!: nth_equalityI simp: nth_slc nth_splice min_def split: if_splits)

lemma slc_slc2: "j \<le> m - i \<Longrightarrow> slc a j (slc i m xs) = slc (i + a) (i + j) xs"
  by (auto intro!: nth_equalityI simp: nth_slc min_def add.assoc split: if_splits)

lemma word_len: "(word_of_int (int (n * 272)) :: u32) = word_of_nat (n * 272)"
  by simp

lemma removed_catalog:
  assumes "stored_catalog hdr n payload" and "k < n"
  shows "\<exists>payload'. removeCatalogEntry (int k) payload = Inr payload' \<and> stored_catalog hdr (n - 1) payload'
    \<and> slots hdr (n - 1) payload' = take k (slots hdr n payload) @ drop (Suc k) (slots hdr n payload)"
proof -
  note s = assms(1) [unfolded stored_catalog_def]
  have bound: "hdr + n * 272 \<le> length payload" and h: "10 \<le> hdr" using s by auto
  let ?at = "hdr + k * 272" and ?m = "n - 1"
  let ?moved = "slc (?at + 272) (hdr + n * 272) payload"
  let ?sp = "splice ?at ?moved payload"
  have "payload \<noteq> []" using h bound by auto
  have i32: "getI32 payload 1 = int (n * 272)" "getI32 payload 5 = int (n * 272)"
    using stored_len(2) [of n "getU32 payload 1"] stored_len(2) [of n "getU32 payload 5"] s unfolding getI32_def by blast+
  have size: "int (n * 272) - 272 = int (?m * 272)" using assms(2) by (simp add: nat_diff_split)
  have "(k + 1) * 272 \<le> n * 272" using assms(2) by (intro mult_le_mono1) simp
  then have fit: "k * 272 + 272 \<le> n * 272" by simp
  have len: "length ?moved = (n - 1 - k) * 272" using fit bound by (simp add: diff_mult_distrib) 
  have run: "removeCatalogEntry (int k) payload = Inr (putLens (word_of_nat (?m * 272)) ?sp)"
  proof -
    have "10 \<le> length payload" using h bound by linarith
    moreover have "int (n * 272) div 272 = int n" "int (n * 272) mod 272 = 0" by simp_all
    moreover have "0 < int (n * 272)" "int hdr + int (n * 272) \<le> int (length payload)" using assms(2) bound by linarith+
    ultimately show ?thesis
      using s h assms(2) i32
      by (simp add: removeCatalogEntry_def catalog_sizes Let_def size word_len del: of_nat_mult)
  qed
  have keep: "unat (?sp ! 0) = hdr" "?sp ! 9 = 0" "hdr + ?m * 272 \<le> length ?sp" "?m \<le> maxCatalogTables"
    using s h bound \<open>payload \<noteq> []\<close> by (auto simp: nth_splice)
  note put = putLens_stored [OF h keep(3,1,2,4)]
  have "slots hdr ?m ?sp = take k (slots hdr n payload) @ drop (Suc k) (slots hdr n payload)"
  proof (rule nth_equalityI)
    fix i assume "i < length (slots hdr ?m ?sp)"
    then have i: "i < n - 1" by simp
    show "slots hdr ?m ?sp ! i = (take k (slots hdr n payload) @ drop (Suc k) (slots hdr n payload)) ! i"
    proof (cases "i < k")
      case True
      then have "(i + 1) * 272 \<le> k * 272" by (intro mult_le_mono1) simp
      then show ?thesis using True i assms(2) by (simp add: nth_slots nth_append slc_splice_disjoint)
    next
      case False
      have "(i + 2) * 272 \<le> n * 272" "k * 272 \<le> i * 272" using i False by (intro mult_le_mono1; simp)+
      then have "slc (hdr + i * 272) (hdr + i * 272 + 272) ?sp = slc (hdr + Suc i * 272) (hdr + Suc i * 272 + 272) payload"
        using len bound fit
        by (subst slc_splice_within) (simp_all add: slc_slc2 diff_mult_distrib)
      then show ?thesis using False i by (simp add: nth_slots nth_append)
    qed
  qed (use assms(2) in simp)
  then show ?thesis using run put(1) put(2) by (intro exI [of _ "putLens (word_of_nat (?m * 272)) ?sp"]) simp
qed

lemma removed_range:
  assumes "stored_catalog hdr n payload" and "n \<le> k" and "0 < n"
  shows "removeCatalogEntry (int k) payload = Inl ErrNoSuchTable"
proof -
  note s = assms(1) [unfolded stored_catalog_def]
  have i32: "getI32 payload 1 = int (n * 272)" "getI32 payload 5 = int (n * 272)"
    using stored_len(2) [of n "getU32 payload 1"] stored_len(2) [of n "getU32 payload 5"] s unfolding getI32_def by blast+
  have "10 \<le> length payload" using s by linarith
  moreover have "int (n * 272) div 272 = int n" "int (n * 272) mod 272 = 0" by simp_all
  moreover have "0 < int (n * 272)" "int hdr + int (n * 272) \<le> int (length payload)" using assms(3) s by linarith+
  ultimately show ?thesis
    using s assms(2) i32 by (simp add: removeCatalogEntry_def catalog_sizes Let_def del: of_nat_mult)
qed

text \<open>The bytes \<open>appendCatalogEntry\<close> puts down parse as the entry it was given, its numbers cut to an int32.\<close>

definition storedInfo :: "TableInfo \<Rightarrow> TableInfo" where
  "storedInfo info = info\<lparr>tiID := int32 (tiID info), SchemaPageNo := int32 (SchemaPageNo info),
     InfoPageNo := int32 (InfoPageNo info), systemPageNo := int32 (systemPageNo info)\<rparr>"

abbreviation infoFields :: "TableInfo \<Rightarrow> byte list" where
  "infoFields info \<equiv> leU32 (word_of_int (tiID info)) @ leU32 (word_of_int (SchemaPageNo info))
     @ leU32 (word_of_int (InfoPageNo info)) @ leU32 (word_of_int (systemPageNo info))"

lemma decode_name:
  assumes "lawful_codec cd" and "ansiEncode cd name = Some bs" and "0 \<notin> set bs"
  shows "decodeANSI (ansiDecode cd) bs = name"
proof -
  have "takeWhile (\<lambda>b. b \<noteq> 0) bs = bs" using assms(3) unfolding takeWhile_eq_all_conv by blast
  moreover have "ansiDecode cd bs = Some name" using assms(1,2) by (simp add: lawful_codec_def)
  moreover have "bs = [] \<Longrightarrow> name = []" using calculation(2) assms(1) by (auto simp: lawful_codec_def)
  ultimately show ?thesis unfolding decodeANSI_def Let_def by (simp only: option.case split: if_splits) simp
qed

lemma entry_parses:
  assumes "length e = 272" and name: "length name < 256" "decodeANSI (ansiDecode cd) name = tiName info"
    and "e' = splice 256 (infoFields info) (splice 1 name (splice 0 [word_of_nat (length name)] e))"
  shows "tableEntry cd e' = storedInfo info"
proof -
  let ?e1 = "splice 0 [word_of_nat (length name)] e"
  have "drop 256 e' = infoFields info" using slc_splice_same [of 272 256 "infoFields info" "splice 1 name ?e1"] assms(1,4) by (simp add: slc_def)
  moreover have "getU32 (infoFields info) 0 = word_of_int (tiID info)" "getU32 (infoFields info) 4 = word_of_int (SchemaPageNo info)"
    "getU32 (infoFields info) 8 = word_of_int (InfoPageNo info)" "getU32 (infoFields info) 12 = word_of_int (systemPageNo info)"
    by (simp_all add: get_append)
  moreover have "e' ! 0 = word_of_nat (length name)"
  proof -
    have "e \<noteq> []" using assms(1) by auto
    then show ?thesis using assms(1,4) by (simp add: nth_splice)
  qed
  moreover have "slc 1 (1 + length name) e' = name"
    using assms(1,4) name(1) by (simp add: slc_splice_disjoint)
  ultimately show ?thesis
    using name by (simp add: tableEntry_def tableNameFieldSize_def getI32_def int32_def storedInfo_def unat_of_nat)
qed

lemma slc_splice_shift:
  assumes "i + length ys \<le> n" and "a + n \<le> length xs"
  shows "slc a (a + n) (splice (a + i) ys xs) = splice i ys (slc a (a + n) xs)"
  using assms by (intro nth_equalityI) (auto simp: nth_slc nth_splice min_def add.assoc split: if_splits)

lemma appended_catalog:
  assumes st: "stored_catalog hdr n payload" and "n < maxCatalogTables"
    and run: "appendCatalogEntry cd info payload = Inr payload'"
    and name: "\<And>bs. ansiEncode cd (tiName info) = Some bs \<Longrightarrow> decodeANSI (ansiDecode cd) bs = tiName info"
  shows "stored_catalog hdr (Suc n) payload'" and "map (tableEntry cd) (slots hdr (Suc n) payload') = map (tableEntry cd) (slots hdr n payload) @ [storedInfo info]"
proof -
  note s = st [unfolded stored_catalog_def]
  have h: "10 \<le> hdr" using s by simp
  have i32: "getI32 payload 1 = int (n * 272)" "getI32 payload 5 = int (n * 272)"
    using stored_len(2) [of n "getU32 payload 1"] stored_len(2) [of n "getU32 payload 5"] s unfolding getI32_def by blast+
  let ?at = "hdr + n * 272"
  obtain name where enc: "ansiEncode cd (tiName info) = Some name" "length name < 256"
    and room: "?at + 272 \<le> length payload"
    and p': "payload' = putLens (word_of_nat (Suc n * 272)) (splice (?at + 256) (infoFields info)
        (splice (?at + 1) name (splice ?at [word_of_nat (length name)] payload)))"
  proof -
    have nn: "nat (int (n * 272)) = n * 272" "word_of_int (int (n * 272) + 272) = (word_of_nat (Suc n * 272) :: u32)" by simp_all
    from run i32 obtain name where "int hdr + int (n * 272) + 272 \<le> int (length payload)" "ansiEncode cd (tiName info) = Some name"
      "length name < 256" "payload' = putLens (word_of_int (int (n * 272) + 272)) (splice (hdr + nat (int (n * 272)) + 256) (infoFields info)
        (splice (hdr + nat (int (n * 272)) + 1) name (splice (hdr + nat (int (n * 272))) [word_of_nat (length name)] payload)))"
      using s by (auto simp: appendCatalogEntry_def catalog_sizes Let_def not_le not_less
          simp del: of_nat_mult split: if_splits option.splits)
    then show thesis using that [of name] unfolding nn by linarith
  qed
  let ?new = "splice (?at + 256) (infoFields info) (splice (?at + 1) name (splice ?at [word_of_nat (length name)] payload))"
  have "payload \<noteq> []" using room by auto
  then have keep: "unat (?new ! 0) = hdr" "?new ! 9 = 0" "hdr + Suc n * 272 \<le> length ?new" "Suc n \<le> maxCatalogTables"
    using s h room assms(2) by (auto simp: nth_splice)
  note put = putLens_stored [OF h keep(3,1,2,4)]
  show "stored_catalog hdr (Suc n) payload'" unfolding p' by (rule put(1))
  have old: "slots hdr n ?new = slots hdr n payload"
  proof (rule nth_equalityI)
    fix i assume "i < length (slots hdr n ?new)"
    then have i: "i < n" by simp
    then have "(i + 1) * 272 \<le> n * 272" by (intro mult_le_mono1) simp
    then show "slots hdr n ?new ! i = slots hdr n payload ! i" using i by (simp add: nth_slots slc_splice_disjoint)
  qed simp
  have "slc ?at (?at + 272) ?new = splice 256 (infoFields info) (splice 1 name (splice 0 [word_of_nat (length name)] (slc ?at (?at + 272) payload)))"
    using room enc(2) slc_splice_shift [of 256 "infoFields info" 272 ?at] slc_splice_shift [of 1 name 272 ?at]
      slc_splice_shift [of 0 "[word_of_nat (length name)]" 272 ?at payload]
    by (simp del: drop_splice_0)
  moreover have "length (slc ?at (?at + 272) payload) = 272" using room by simp
  ultimately have "tableEntry cd (slc ?at (?at + 272) ?new) = storedInfo info"
    by (rule entry_parses [OF _ enc(2) name [OF enc(1)], rotated])
  then show "map (tableEntry cd) (slots hdr (Suc n) payload') = map (tableEntry cd) (slots hdr n payload) @ [storedInfo info]"
    unfolding p' put(2) using old by (simp add: slots_def)
qed

text \<open>C36. \<open>appendCatalogEntry\<close> adds exactly the table it is given behind the tables the catalog lists,
  and \<open>removeCatalogEntry\<close> then takes out exactly the entry at the position it is given, for every
  position; past the end it reports \<open>ErrNoSuchTable\<close>. The name must hold no NUL, at which the reader
  stops, and the list must not be at the reader's limit.\<close>

theorem catalog_edits_one_entry:
  assumes old: "catalogOf z cd payload = Inr ts" and limit: "length ts < maxCatalogTables"
    and run: "appendCatalogEntry cd info payload = Inr payload'"
    and codec: "lawful_codec cd" "\<forall>bs. ansiEncode cd (tiName info) = Some bs \<longrightarrow> 0 \<notin> set bs"
  shows "catalogOf z cd payload' = Inr (ts @ [storedInfo info])
    \<and> (\<forall>k. bindR (removeCatalogEntry (int k) payload') (catalogOf z cd)
        = (if k \<le> length ts then Inr (take k (ts @ [storedInfo info]) @ drop (Suc k) (ts @ [storedInfo info])) else Inl ErrNoSuchTable))"
proof -
  have head: "10 \<le> length payload" "payload ! 9 = 0" "getI32 payload 1 = getI32 payload 5"
    using run by (auto simp: appendCatalogEntry_def internalFileHeaderSize_def Let_def split: if_splits)
  let ?hdr = "unat (payload ! 0)"
  note st = catalog_stored(1) [OF old head]
  have ts: "ts = map (tableEntry cd) (slots ?hdr (length ts) payload)" using catalogOf_stored [OF st] old by simp
  have name: "\<And>bs. ansiEncode cd (tiName info) = Some bs \<Longrightarrow> decodeANSI (ansiDecode cd) bs = tiName info"
    using decode_name codec by blast
  note app = appended_catalog [OF st limit run name]
  have all: "map (tableEntry cd) (slots ?hdr (Suc (length ts)) payload') = ts @ [storedInfo info]"
    using app(2) ts by simp
  have rem: "bindR (removeCatalogEntry (int k) payload') (catalogOf z cd)
      = Inr (take k (ts @ [storedInfo info]) @ drop (Suc k) (ts @ [storedInfo info]))" if k: "k \<le> length ts" for k
  proof -
    obtain p where p: "removeCatalogEntry (int k) payload' = Inr p" "stored_catalog ?hdr (length ts) p"
      "slots ?hdr (length ts) p = take k (slots ?hdr (Suc (length ts)) payload') @ drop (Suc k) (slots ?hdr (Suc (length ts)) payload')"
      using removed_catalog [OF app(1), of k] k by auto
    have "catalogOf z cd p = Inr (take k (ts @ [storedInfo info]) @ drop (Suc k) (ts @ [storedInfo info]))"
      using catalogOf_stored [OF p(2)] p(3) by (simp only: map_append take_map [symmetric] drop_map [symmetric] all)
    then show ?thesis using p(1) by simp
  qed
  have out: "removeCatalogEntry (int k) payload' = Inl ErrNoSuchTable" if "length ts < k" for k
    using removed_range [OF app(1), of k] that by simp
  show ?thesis using catalogOf_stored [OF app(1)] all rem out by (simp add: not_le)
qed

definition emptyCatalog :: "byte list" where
  "emptyCatalog = [10, 0, 0, 0, 0, 0, 0, 0, 0, 0] @ replicate 300 7"

lemma emptyCatalog_reads [simp]:
  "length emptyCatalog = 310" "emptyCatalog ! 0 = 10" "emptyCatalog ! 9 = 0" "getU32 emptyCatalog (Suc 0) = 0" "getU32 emptyCatalog 5 = 0"
  by (simp_all add: emptyCatalog_def getU32_def slc_def numeral_eq_Suc)

lemma catalog_edits_one_entry_witness:
  "\<exists>payload'. appendCatalogEntry byteCodec \<lparr>tiName = [84], tiID = 9, SchemaPageNo = 3, InfoPageNo = 4, systemPageNo = 5\<rparr> emptyCatalog = Inr payload'
     \<and> catalogOf storeLib byteCodec payload' = Inr [\<lparr>tiName = [84], tiID = 9, SchemaPageNo = 3, InfoPageNo = 4, systemPageNo = 5\<rparr>]
     \<and> bindR (removeCatalogEntry 0 payload') (catalogOf storeLib byteCodec) = Inr []"
proof -
  let ?info = "\<lparr>tiName = [84], tiID = 9, SchemaPageNo = 3, InfoPageNo = 4, systemPageNo = 5\<rparr>"
  have old: "catalogOf storeLib byteCodec emptyCatalog = Inr []"
    using catalogOf_stored [of 10 0 emptyCatalog] by (simp add: stored_catalog_def slots_def)
  obtain payload' where run: "appendCatalogEntry byteCodec ?info emptyCatalog = Inr payload'"
    by (simp add: appendCatalogEntry_def catalog_sizes Let_def getI32_def byteCodec_def)
  have info: "storedInfo ?info = ?info" by (simp add: storedInfo_def int32_def)
  have "catalogOf storeLib byteCodec payload' = Inr ([] @ [storedInfo ?info])
    \<and> (\<forall>k. bindR (removeCatalogEntry (int k) payload') (catalogOf storeLib byteCodec)
        = (if k \<le> length ([] :: TableInfo list) then Inr (take k ([] @ [storedInfo ?info]) @ drop (Suc k) ([] @ [storedInfo ?info])) else Inl ErrNoSuchTable))"
    by (rule catalog_edits_one_entry [OF old _ run byteCodec_lawful]) (simp_all add: maxCatalogTables_def byteCodec_def)
  from conjunct1 [OF this] conjunct2 [OF this, THEN spec [of _ 0]] show ?thesis using run info by simp
qed

end
