(* ===== verification/Drop_Witness.thy ===== *)
theory Drop_Witness
  imports Drop_Props Catalog_Props
begin

text \<open>Dropping the only catalog entry of a small file with two data pages.\<close>

section \<open>The operations succeed\<close>

lemma tombstone_total:
  assumes "edit_ok s" and "\<forall>no \<in> set ps. bufferable s no"
  shows "\<exists>s'. tombstone ps s = (Inr (), s')"
  using assms
proof (induction ps arbitrary: s)
  case (Cons no ps)
  obtain t where t: "load (int no) s = (Inr no, t)" using load_total [of s no] Cons.prems(2) by auto
  note l = load_spec [OF Cons.prems(1) loader_intros(1) t]
  let ?t = "putBuf no (freedBuf (bufAt no t)) t"
  have b: "buf_ok (edDb t) (bufAt no t)" "bufNumber (bufAt no t) = no" using buf_ok_bufAt [OF l(5,6)] by blast+
  have "edit_ok ?t" using l(5,6) b by (intro edit_ok_putBuf) (simp_all add: buf_ok_def freedBuf_def)
  moreover have "\<forall>j \<in> set ps. bufferable ?t j"
    using bufferable_load [OF Cons.prems(1) loader_intros(1) t] Cons.prems(2) by (auto simp: bufferable_iff)
  ultimately obtain s' where "tombstone ps ?t = (Inr (), s')" using Cons.IH by blast
  then show ?case using t by (auto simp: tombstone_def bindO_Inr updBuf_def freedBuf_def)
qed (simp add: tombstone_def)

lemma flush_clear:
  assumes "\<forall>k \<in> set xs. \<not> bufEncrypted (bufAt k s)" and "writable (edDb s)"
  shows "\<exists>s'. forO xs flushPage s = (Inr (), s')"
  using assms
proof (induction xs arbitrary: s)
  case (Cons k xs)
  obtain t where t: "flushPage k s = (Inr (), t)" "writable (edDb t)" "\<forall>j. bufEncrypted (bufAt j t) = bufEncrypted (bufAt j s)"
  proof (cases "dirty (bufAt k s)")
    case True
    have "\<not> bufEncrypted (bufAt k s)" using Cons.prems(1) by simp
    let ?b = "bumpPageState (bufAt k s)"
    let ?t = "(putBuf k ?b (putBuf k ?b s))\<lparr>edDb := writeRegion ?b (edDb s)\<rparr>"
    have "writePageBuf (edDb s, ?b) = (Inr (), (writeRegion ?b (edDb s), ?b))"
      using \<open>\<not> bufEncrypted (bufAt k s)\<close> Cons.prems(2) by (simp add: writePageBuf_def)
    then have "flushPage k s = (Inr (), ?t)" using True by (simp add: flushPage_def writeBuf_def updBuf_def bindO_Inr)
    moreover have "writable (edDb ?t)" "\<forall>j. bufEncrypted (bufAt j ?t) = bufEncrypted (bufAt j s)"
      using Cons.prems(2) by (simp_all add: bufAt_def putBuf_def)
    ultimately show thesis by (rule that)
  next
    case False
    then show thesis using that [of s] Cons.prems by (simp add: flushPage_def)
  qed
  then obtain s' where "forO xs flushPage t = (Inr (), s')" using Cons.IH [of t] Cons.prems by auto
  then show ?case using t(1) by (simp add: bindO_Inr)
qed simp

section \<open>The file\<close>

definition oneTable :: "byte list" where
  "oneTable = [10] @ leU32 272 @ leU32 272 @ [0] @ replicate 272 0"

definition dropPages :: "(u16 \<times> byte list) list" where
  "dropPages = [(3, [0x1F]), (2, [0x3F]), (6, oneTable), (10, [7]), (10, [8]), (10, [])]"

definition dropFile :: dbfile where "dropFile = sampleFile 2 dropPages"

lemma dropPages_ok: "samplePages dropPages" "length dropPages = 6"
  by (simp_all add: samplePages_def dropPages_def oneTable_def)

lemma oneTable_reads:
  "length oneTable = 282" "oneTable ! 0 = 10" "oneTable ! 9 = 0" "getU32 (oneTable @ r) 1 = 272" "getU32 (oneTable @ r) 5 = 272"
proof -
  show "length oneTable = 282" "oneTable ! 0 = 10" by (simp_all add: oneTable_def)
  have 9: "oneTable = ([10] @ leU32 272 @ leU32 272) @ [0] @ replicate 272 0" by (simp add: oneTable_def)
  show "oneTable ! 9 = 0" unfolding 9 by (subst nth_append) simp
  have 1: "oneTable @ r = [10] @ leU32 272 @ (leU32 272 @ [0] @ replicate 272 0 @ r)"
    and 5: "oneTable @ r = ([10] @ leU32 272) @ leU32 272 @ ([0] @ replicate 272 0 @ r)" by (simp_all add: oneTable_def)
  show "getU32 (oneTable @ r) 1 = 272" unfolding 1 by (simp add: get_append del: append_Cons)
  show "getU32 (oneTable @ r) 5 = 272" unfolding 5 by (simp add: get_append del: append_Cons append_assoc)
qed

lemma drop_opened: "opened dropFile"
  unfolding opened_def
proof (intro allI impI)
  fix n p h assume r: "ReadPage dropFile n = Inr p" "Header p = Some h" "CRC32 h \<noteq> 0"
  have "0 \<le> n" "n < 6" using ReadPage_ok [OF r(1)] dropPages_ok(2) by (auto simp: dropFile_def)
  then have "nat n < length dropPages" using dropPages_ok(2) by simp
  then obtain q where "ReadPage dropFile (int (nat n)) = Inr q" "Header q = Some (freshHeader 7 (fst (dropPages ! nat n)) 0)"
    unfolding dropFile_def by (rule sample_read [OF dropPages_ok(1)])
  then have "h = freshHeader 7 (fst (dropPages ! nat n)) 0" using r(1,2) \<open>0 \<le> n\<close> by simp
  then show "0 < n \<and> decryptionKey dropFile \<noteq> None" using r(3) by (simp add: freshHeader_def)
qed

lemma drop_find: "findPageByType dropFile PageTypeTableList = Inr (int 2)"
proof -
  have page: "\<exists>p. ReadPage dropFile (int n) = Inr p \<and> Header p = Some (freshHeader 7 (fst (dropPages ! n)) 0)" if "n < 6" for n
    using sample_read [OF dropPages_ok(1), of n 2] that dropPages_ok(2) unfolding dropFile_def by metis
  from page [of 0] page [of 1] page [of 2] show ?thesis
    by (auto simp: findPageByType_def dropFile_def PageCount_def dropPages_ok upt_rec PageTypeTableList_def freshHeader_def dropPages_def)
qed

lemma drop_run: "\<exists>db'. applyDrop 0 [3, 4] dropFile = (Inr (), db')"
proof -
  let ?s = "newPageEdit dropFile"
  have ok: "edit_ok ?s" unfolding dropFile_def by (rule sampleEdit_ok [OF dropPages_ok(1)])
  have buf: "bufferable ?s n" if "n < 6" for n
    using sample_bufferable [OF dropPages_ok(1), of n 2] that dropPages_ok(2) by (simp add: dropFile_def)
  have op: "opened (edDb ?s)" "all_modes ?s" using drop_opened by (simp_all add: all_modes_def newPageEdit_def)
  obtain s1 where r1: "tombstone [3, 4] ?s = (Inr (), s1)" using tombstone_total [OF ok, of "[3, 4]"] buf by auto
  note t = tombstone_spec [OF ok op r1]
  have db1: "edDb s1 = dropFile" "edit_ok s1" "all_modes s1" using t by simp_all
  have dom1: "dom (edPages s1) = {3, 4}" using t by (simp add: newPageEdit_def insert_commute)
  have buf1: "bufferable s1 n" if "n < 6" for n
    using buf [OF that] db1(1) dom1 by (auto simp: bufferable_iff newPageEdit_def)
  have pay: "editPayload s1 n = Inr (padTo 380 (snd (dropPages ! n)))" if "n < 6" for n
    using t sample_payload [OF dropPages_ok(1), of n 2] that dropPages_ok(2) by (simp add: dropFile_def)
  have b2: "bufferable s1 2" by (rule buf1) simp
  obtain u where ld: "load (int 2) s1 = (Inr 2, u)" by (rule load_total [OF b2])
  note l = load_spec [OF db1(2) loader_intros(1) ld]
  have "padTo 380 oneTable = oneTable @ replicate 98 0" by (simp add: padTo_def oneTable_reads)
  then have cat: "bufPayload (bufAt 2 u) = oneTable @ replicate 98 0"
    using l(10) pay [of 2] by (simp add: dropPages_def)
  have st: "stored_catalog 10 1 (oneTable @ replicate 98 0)"
    using oneTable_reads by (simp add: stored_catalog_def maxCatalogTables_def nth_append)
  obtain q' where q': "removeCatalogEntry 0 (bufPayload (bufAt 2 u)) = Inr q'"
    using removed_catalog [OF st, of 0] cat by auto
  let ?s2 = "putBuf 2 ((setPayload q' (bufAt 2 u))\<lparr>dirty := True\<rparr>) u"
  have r2: "dropCatalogEntry 0 s1 = (Inr (), ?s2)"
    using drop_find ld q' db1(1) by (simp add: dropCatalogEntry_def bindO_Inr liftO_def updBuf_def)
  obtain c q q'' where s2: "edit_ok ?s2" "edDb ?s2 = edDb s1" "all_modes ?s2" "dom (edPages ?s2) = insert c (dom (edPages s1))"
    "\<forall>j. j \<noteq> c \<longrightarrow> edPages ?s2 j = edPages s1 j" and c: "findPageByType (edDb s1) PageTypeTableList = Inr (int c)"
    by (rule dropCatalogEntry_spec [OF db1(2) _ db1(3) r2]) (use op db1(1) in \<open>auto simp: newPageEdit_def\<close>)
  have "c = 2" using c drop_find db1(1) by simp
  then have P: "editPayload ?s2 0 = Inr (padTo 380 [0x1F])"
    using s2(2) spec [OF s2(5), of 0] pay [of 0] by (simp add: editPayload_def dropPages_def cong: option.case_cong)
  have bits: "pfsAllocated (padTo 380 [0x1F]) (int no)" if "no \<in> set [3, 4]" for no
    using that by (auto simp: pfsAllocated_def padTo_def testBit_def bitMask_def)
  have "bufferable ?s2 n" if "n < 6" for n
    using buf1 [OF that] s2(2,4) by (auto simp: bufferable_iff)
  then obtain l' s3 where r3: "releasePages [3, 4] ?s2 = (Inr l', s3)"
    using releasePages_total [OF s2(1) _ _ P, of "[3, 4]"] bits s2(2) db1(1) by (auto simp: dropFile_def)
  have op2: "opened (edDb ?s2)" using op(1) s2(2) db1(1) by (simp add: newPageEdit_def)
  have modes: "all_modes s3" by (rule release_all_modes [OF s2(1) op2 s2(3) r3])
  obtain E where E: "editPayload ?s2 1 = Inr E" using release_payloads [OF s2(1) r3] by blast
  have db3: "edDb s3 = edDb ?s2" "edit_ok s3" by (rule releasePages_run [OF s2(1) P E r3], blast)+
  have "\<forall>k \<in> set (edOrder s3). \<not> bufEncrypted (bufAt k s3)"
  proof
    fix k assume "k \<in> set (edOrder s3)"
    then have "buf_mode (edDb s3) (bufAt k s3)" using modes edit_okD(5) [OF db3(2)] by (simp add: all_modes_def)
    moreover have "decryptionKey (edDb s3) = None" using db3(1) s2(2) db1(1) by (simp add: dropFile_def)
    ultimately show "\<not> bufEncrypted (bufAt k s3)" by (auto simp: buf_mode_def split: option.splits)
  qed
  moreover have "writable (edDb s3)" using db3(1) s2(2) db1(1) by (simp add: dropFile_def)
  ultimately obtain s4 where r4: "flushPages s3 = (Inr (), s4)" using flush_clear [of "edOrder s3" s3] by (auto simp: flushPages_def)
  show ?thesis using r1 r2 r3 r4 by (simp add: applyDrop_def bindO_Inr)
qed

lemma drop_touches_own_pages_only_witness:
  "\<exists>db'. applyDrop 0 [3, 4] dropFile = (Inr (), db') \<and> pageView db' 5 = pageView dropFile 5
     \<and> (\<exists>h. pageView db' 3 = Inr (padTo 380 [7], Some h) \<and> State h = pageStateFree)"
proof -
  obtain db' where run: "applyDrop 0 [3, 4] dropFile = (Inr (), db')" using drop_run by blast
  have ok: "file_ok dropFile" "cipher_lawful dropFile"
    by (simp_all add: dropFile_def sampleFile_file_ok dropPages_ok sampleFile_lawful)
  have "totalPageCount dropFile = 6" by (simp add: dropFile_def dropPages_ok)
  moreover have "pageView dropFile (int 3) = Inr (padTo 380 [7], Some (freshHeader 7 10 0))"
    using sample_view [OF dropPages_ok(1), of 3 2] dropPages_ok(2) by (simp add: dropFile_def dropPages_def)
  ultimately show ?thesis
    using drop_touches_own_pages_only [OF ok drop_opened drop_find _ _ run] run
    by (intro exI [of _ db'] conjI) auto
qed

end
