(* ===== verification/Header_Props.thy ===== *)
theory Header_Props
  imports Page_Props
begin

text \<open>
  The database header in memory and on disk: \<open>parseHeader\<close> of the file gives the state held in memory
  at every moment, whatever pages were allocated, released, linked or flushed, on the error paths too.
\<close>

definition header_ok :: "dbfile \<Rightarrow> bool" where
  "header_ok db \<longleftrightarrow> parseHeader (cipherlib db) (writable db) (disk db) = Inr (db\<lparr>decryptionKey := None\<rparr>)"

section \<open>What the parser reads\<close>

lemma int32_range: "- (2 ^ 31) \<le> int32 x" "int32 x < 2 ^ 31"
  using sint_range_size [of "word_of_int x :: u32"] by (simp_all add: int32_def word_size)

lemma int32_int32 [simp]: "int32 (int32 x) = int32 x"
  by (simp add: int32_def)

lemma int32_sint [simp]: "int32 (sint (w :: u32)) = sint w"
  by (simp add: int32_def)

lemma if_Inl: "((if a then Inl e else r) = Inr x) = (\<not> a \<and> r = Inr x)"
  by simp

lemma header_ok_iff: "header_ok db \<longleftrightarrow>
   76 \<le> length (disk db) \<and> take 16 (disk db) = Magic \<and> pageSize db \<noteq> 0 \<and> 420 \<le> pageSize db
   \<and> pageSize db \<le> length (disk db) \<and> 0 \<le> totalPageCount db
   \<and> totalPageCount db * int (pageSize db) + 380 \<le> int (length (disk db))
   \<and> headerSize db = getU16 (disk db) 16 \<and> version db = getU64 (disk db) 18
   \<and> pageSize db = unat (getU16 (disk db) 26) \<and> pagesInExtent db = unat (getU16 (disk db) 28)
   \<and> totalPageCount db = sint (getU32 (disk db) 30) \<and> lastUsedPageNo db = sint (getU32 (disk db) 34)
   \<and> dbState db = getU32 (disk db) 38 \<and> writeChangeState db = disk db ! 42 \<and> dbEncrypted db = (disk db ! 43 \<noteq> 0)
   \<and> lastObjectID db = readLastObjectID (disk db)
   \<and> cryptoHeader db = (if disk db ! 43 \<noteq> 0 then parseCryptoHeader (readAt (pageSize db) 0 (disk db)) else None)"
proof (cases "76 \<le> length (disk db)")
  case True
  let ?buf = "readAt dbHeaderSize 0 (disk db)"
  have g: "getU16 ?buf 16 = getU16 (disk db) 16" "getU64 ?buf 18 = getU64 (disk db) 18"
    "getU16 ?buf 26 = getU16 (disk db) 26" "getU16 ?buf 28 = getU16 (disk db) 28"
    "getU32 ?buf 30 = getU32 (disk db) 30" "getU32 ?buf 34 = getU32 (disk db) 34" "getU32 ?buf 38 = getU32 (disk db) 38"
    using get_slc [of _ 76 0 "disk db"] by (simp_all add: readAt_def layout_consts)
  have b: "?buf ! 42 = disk db ! 42" "?buf ! 43 = disk db ! 43" "take 16 ?buf = take 16 (disk db)"
    using True by (simp_all add: readAt_def layout_consts nth_slc slc_def min_def)
  have e: "(x = db\<lparr>decryptionKey := None\<rparr>) = (disk x = disk db \<and> writable x = writable db \<and> headerSize x = headerSize db
      \<and> version x = version db \<and> pageSize x = pageSize db \<and> pagesInExtent x = pagesInExtent db
      \<and> totalPageCount x = totalPageCount db \<and> lastUsedPageNo x = lastUsedPageNo db \<and> dbState x = dbState db
      \<and> writeChangeState x = writeChangeState db \<and> dbEncrypted x = dbEncrypted db \<and> lastObjectID x = lastObjectID db
      \<and> cryptoHeader x = cryptoHeader db \<and> decryptionKey x = None \<and> cipherlib x = cipherlib db)" for x :: dbfile
    by (cases db, cases x) simp
  show ?thesis
    unfolding header_ok_def parseHeader_def Let_def g b if_Inl sum.inject e
    using True
    by (simp only: dbfile.select_convs layout_consts not_less refl simp_thms of_nat_numeral)
      (rule iffI; elim conjE; intro conjI; (assumption | rule sym, assumption | metis))
next
  case False
  then show ?thesis by (simp add: header_ok_def parseHeader_def Let_def layout_consts)
qed

text \<open>Writes that spare everything but the counters of the header.\<close>

definition spares :: "byte list \<Rightarrow> byte list \<Rightarrow> bool" where
  "spares d d' \<longleftrightarrow> slc 0 30 d' = slc 0 30 d \<and> slc 42 376 d' = slc 42 376 d"

lemma spares_header:
  assumes "spares d d'" and "420 \<le> ps" and "ps \<le> length d" and len: "ps \<le> length d'"
  shows "take 16 d' = take 16 d" and "getU16 d' 16 = getU16 d 16" and "getU64 d' 18 = getU64 d 18"
    and "getU16 d' 26 = getU16 d 26" and "getU16 d' 28 = getU16 d 28" and "d' ! 42 = d ! 42" and "d' ! 43 = d ! 43"
    and "parseCryptoHeader (readAt ps 0 d') = parseCryptoHeader (readAt ps 0 d)"
proof -
  have head: "slc 0 30 d' = slc 0 30 d" and mid: "slc 42 376 d' = slc 42 376 d"
    using assms by (simp_all add: spares_def)
  have t16: "take 16 x = take 16 (slc 0 30 x)" for x :: "byte list" by (simp add: slc_def min_def)
  show "take 16 d' = take 16 d" unfolding t16 [of d] t16 [of d'] head ..
  have lo16: "off + 2 \<le> 30 \<Longrightarrow> getU16 x off = getU16 (slc 0 30 x) off"
    and lo64: "off + 8 \<le> 30 \<Longrightarrow> getU64 x off = getU64 (slc 0 30 x) off" for x off
    using get_slc [of off 30 0 x] by simp_all
  show "getU16 d' 16 = getU16 d 16" "getU64 d' 18 = getU64 d 18" "getU16 d' 26 = getU16 d 26" "getU16 d' 28 = getU16 d 28"
    using lo16 [of 16 d] lo16 [of 16 d'] lo64 [of 18 d] lo64 [of 18 d'] lo16 [of 26 d] lo16 [of 26 d']
      lo16 [of 28 d] lo16 [of 28 d'] by (simp_all add: head)
  have nth: "x ! (42 + k) = slc 42 376 x ! k" if "k < 334" "420 \<le> length x" for x :: "byte list" and k
    using that by (simp add: nth_slc)
  have m: "d' ! (42 + k) = d ! (42 + k)" if "k < 334" for k
    using nth [of k d] nth [of k d'] that assms(2,3) len mid by simp
  show "d' ! 42 = d ! 42" "d' ! 43 = d ! 43" using m [of 0] m [of 1] by simp_all
  have c16: "getU16 d' 76 = getU16 d 76" and c32: "getU32 d' 336 = getU32 d 336"
    using get_slc(1) [of 34 334 42 d] get_slc(1) [of 34 334 42 d'] get_slc(2) [of 294 334 42 d] get_slc(2) [of 294 334 42 d']
    by (simp_all add: mid)
  have cb: "slc 80 336 d' = slc 80 336 d"
    using slc_slc [of 294 334 38 42 d] slc_slc [of 294 334 38 42 d'] by (simp add: mid)
  have r16: "getU16 (slc 0 ps x) 76 = getU16 x 76" and r32: "getU32 (slc 0 ps x) 336 = getU32 x 336"
    and rcb: "slc 80 336 (slc 0 ps x) = slc 80 336 x" for x :: "byte list"
    using get_slc(1) [of 76 ps 0 x] get_slc(2) [of 336 ps 0 x] slc_slc [of 336 ps 80 0 x] assms(2) by simp_all
  have rn: "slc 0 ps x ! 78 = x ! 78" "slc 0 ps x ! 79 = x ! 79" if "ps \<le> length x" for x :: "byte list"
    using that assms(2) by (simp_all add: nth_slc)
  show "parseCryptoHeader (readAt ps 0 d') = parseCryptoHeader (readAt ps 0 d)"
    using m [of 36] m [of 37] assms(2,3) len
    by (simp add: parseCryptoHeader_def Let_def readAt_def cryptoHeaderOffset_def cryptoHeaderSize_def controlBlockSize_def
        r16 r32 rcb c16 c32 cb rn)
qed

lemma header_ok_update:
  assumes "header_ok db" and "spares (disk db) (disk db')"
    and "db' = db\<lparr>disk := disk db', totalPageCount := sint (getU32 (disk db') 30),
          lastUsedPageNo := sint (getU32 (disk db') 34), dbState := getU32 (disk db') 38,
          lastObjectID := readLastObjectID (disk db')\<rparr>"
    and "0 \<le> totalPageCount db'" and "totalPageCount db' * int (pageSize db) + 380 \<le> int (length (disk db'))"
    and len: "pageSize db \<le> length (disk db')"
  shows "header_ok db'"
proof -
  have f: "pageSize db' = pageSize db" "headerSize db' = headerSize db" "version db' = version db"
    "pagesInExtent db' = pagesInExtent db" "writeChangeState db' = writeChangeState db" "dbEncrypted db' = dbEncrypted db"
    "cryptoHeader db' = cryptoHeader db" "totalPageCount db' = sint (getU32 (disk db') 30)"
    "lastUsedPageNo db' = sint (getU32 (disk db') 34)" "dbState db' = getU32 (disk db') 38"
    "lastObjectID db' = readLastObjectID (disk db')"
    by (subst assms(3), simp)+
  note h = assms(1) [unfolded header_ok_iff]
  have "420 \<le> pageSize db" "pageSize db \<le> length (disk db)" using h by simp_all
  note sp = spares_header [OF assms(2) this len]
  show ?thesis
    using h len assms(4,5) unfolding header_ok_iff f(1-7) sp f(8-11) [symmetric] by simp
qed

section \<open>Every header write\<close>

lemma spares_counter:
  assumes "380 \<le> length d" and "off \<in> {30, 34, 38, 376}"
  shows "spares d (writeAt (leU32 w) off d)"
  using assms by (auto simp: spares_def writeAt_inside slc_splice_disjoint)

lemma getU32_writeAt:
  assumes "off + 4 \<le> length d" and "k + 4 \<le> length d" and "k = off \<or> k + 4 \<le> off \<or> off + 4 \<le> k"
  shows "getU32 (writeAt (leU32 w) off d) k = (if k = off then w else getU32 d k)"
  using assms by (auto simp: writeAt_inside get_splice_disjoint)

lemma header_long: "header_ok db \<Longrightarrow> 420 \<le> length (disk db)"
  by (simp add: header_ok_iff)

lemma header_counters:
  assumes "header_ok db"
  shows "getU32 (disk db) 30 = uint32 (totalPageCount db)" "getU32 (disk db) 34 = uint32 (lastUsedPageNo db)"
    "getU32 (disk db) 38 = dbState db" "getU32 (disk db) 376 = uint32 (lastObjectID db)"
  using assms header_long [OF assms] by (simp_all add: header_ok_iff readLastObjectID_def layout_consts uint32_def)

lemma header_eq:
  assumes "header_ok db"
  shows "sint (getU32 (disk db) 30) = totalPageCount db" "sint (getU32 (disk db) 34) = lastUsedPageNo db"
    "getU32 (disk db) 38 = dbState db" "readLastObjectID (disk db) = lastObjectID db"
    "0 \<le> totalPageCount db" "totalPageCount db * int (pageSize db) + 380 \<le> int (length (disk db))"
  using assms unfolding header_ok_iff by argo+

lemma readLast_writeAt:
  assumes "420 \<le> length d" "off \<in> {30, 34, 38, 376}"
  shows "readLastObjectID (writeAt (leU32 w) off d) = (if off = 376 then sint w else readLastObjectID d)"
  using assms by (auto simp: readLastObjectID_def layout_consts writeAt_inside get_splice_disjoint)

lemma header_setters:
  assumes "header_ok db"
  shows "header_ok (setLastUsedPageNo l db)"
    and "int32 oid = oid \<Longrightarrow> header_ok (setLastObjectID oid db)"
    and "header_ok (bumpFileState db)"
proof -
  note long = header_long [OF assms] and eq = header_eq [OF assms]
  have ps: "pageSize db \<le> length (disk db)" using assms by (simp add: header_ok_iff)
  show "header_ok (setLastUsedPageNo l db)"
  proof (cases "int32 l = lastUsedPageNo db")
    case False
    then show ?thesis
      using long eq ps
      by (intro header_ok_update [OF assms])
        (simp_all add: setLastUsedPageNo_def layout_consts spares_counter getU32_writeAt readLast_writeAt)
  qed (use assms in \<open>simp add: setLastUsedPageNo_def\<close>)
  show "header_ok (setLastObjectID oid db)" if "int32 oid = oid"
  proof (cases "oid = lastObjectID db")
    case False
    then show ?thesis
      using long eq ps that
      by (intro header_ok_update [OF assms])
        (simp_all add: setLastObjectID_def layout_consts spares_counter getU32_writeAt readLast_writeAt)
  qed (use assms in \<open>simp add: setLastObjectID_def\<close>)
  show "header_ok (bumpFileState db)"
    using long eq ps
    by (intro header_ok_update [OF assms])
      (simp_all add: bumpFileState_def layout_consts spares_counter getU32_writeAt readLast_writeAt)
qed

lemma slc_low:
  assumes "j \<le> 380" and "420 \<le> length d"
  shows "380 \<le> off \<Longrightarrow> slc i j (writeAt bs off d) = slc i j d" and "380 \<le> n \<Longrightarrow> slc i j (truncateTo n d) = slc i j d"
proof -
  have "slc i j (d @ xs) = slc i j d" for xs using assms by (intro slc_append_left) simp
  then show "slc i j (writeAt bs off d) = slc i j d" if "380 \<le> off"
    using that assms(1) by (simp add: writeAt_def slc_splice_disjoint)
  have "slc i j (take n d) = slc i j d" if "380 \<le> n"
    using that assms by (auto simp: slc_def drop_take min_def)
  moreover have "slc i j (take n d @ xs) = slc i j (take n d)" if "380 \<le> n" for xs
    using that assms by (intro slc_append_left) simp
  ultimately show "slc i j (truncateTo n d) = slc i j d" if "380 \<le> n"
    using that by (simp add: truncateTo_def)
qed

lemma header_low:
  assumes "header_ok db" and "\<And>i j. j \<le> 380 \<Longrightarrow> slc i j d' = slc i j (disk db)" and "420 \<le> length d'"
    and "pageSize db \<le> length d'" and "totalPageCount db * int (pageSize db) + 380 \<le> int (length d')"
  shows "header_ok (db\<lparr>disk := d'\<rparr>)"
proof -
  note eq = header_eq [OF assms(1)]
  have gets: "getU32 d' k = getU32 (disk db) k" if "k + 4 \<le> 380" for k
    using assms(2) [of "k + 4" k] that by (simp add: getU32_def)
  have last: "readLastObjectID d' = readLastObjectID (disk db)"
    using gets [of 376] assms(3) header_long [OF assms(1)] by (simp add: readLastObjectID_def layout_consts)
  show ?thesis
    using eq assms(2-5) gets [of 30] gets [of 34] gets [of 38] last
    by (intro header_ok_update [OF assms(1)]) (simp_all add: spares_def)
qed

lemma header_regions:
  assumes "header_ok db"
  shows "header_ok (writeRegion p db)" and "header_ok (snd (extendFile shortfall db))"
proof -
  note long = header_long [OF assms] and eq = header_eq [OF assms]
  have ps: "420 \<le> pageSize db" "pageSize db \<le> length (disk db)" using assms by (simp_all add: header_ok_iff)
  have grow: "length d \<le> length (writeAt bs off d)" for bs off and d :: "byte list" by (simp add: writeAt_def)
  show "header_ok (writeRegion p db)"
    unfolding writeRegion_def layout_consts
    using slc_low(1) [OF _ long] ps eq(6) grow [of "disk db"]
    by (intro header_low [OF assms]) (auto intro: order_trans simp del: of_nat_le_iff)
  let ?per = "int (pagesInExtent db)"
  let ?ext = "(shortfall + ?per - 1) div ?per"
  let ?tot = "PageCount db + ?ext * ?per"
  show "header_ok (snd (extendFile shortfall db))"
  proof (cases "writable db \<and> 0 < shortfall \<and> 0 < ?per \<and> ?tot \<le> mappablePages db")
    case False
    then show ?thesis using assms by (auto simp: extendFile_def Let_def)
  next
    case True
    have "?per \<le> shortfall + ?per - 1" using True by simp
    then have "1 \<le> ?ext" using True by (simp add: pos_imp_zdiv_pos_iff int_one_le_iff_zero_less)
    then have "?per \<le> ?ext * ?per" using True by simp
    then have tot: "totalPageCount db < ?tot" using True by (simp add: PageCount_def)
    let ?n = "nat ?tot * pageSize db + 380"
    let ?db = "db\<lparr>disk := truncateTo ?n (disk db)\<rparr>"
    have run: "extendFile shortfall db = setTotalPageCount ?tot ?db"
      using True by (simp add: extendFile_def Let_def layout_consts)
    have "1 \<le> nat ?tot" using tot eq(5) by linarith
    then have n: "pageSize db + 380 \<le> ?n" by simp
    have len: "length (truncateTo ?n (disk db)) = ?n" by (simp add: truncateTo_def)
    have room: "totalPageCount db * int (pageSize db) \<le> ?tot * int (pageSize db)"
      using tot by (intro mult_right_mono) simp_all
    have ntot: "int (nat ?tot) = ?tot" using tot eq(5) by simp
    have ok: "header_ok ?db"
    proof (rule header_low [OF assms])
      show "totalPageCount db * int (pageSize db) + 380 \<le> int (length (truncateTo ?n (disk db)))"
        unfolding len of_nat_add of_nat_mult ntot using room by simp
      show "420 \<le> length (truncateTo ?n (disk db))" "pageSize db \<le> length (truncateTo ?n (disk db))"
        unfolding len using n ps(1) by linarith+
      show "slc i j (truncateTo ?n (disk db)) = slc i j (disk db)" if "j \<le> 380" for i j
        by (rule slc_low(2) [OF that long]) simp
    qed
    note eq' = header_eq [OF ok] and long' = header_long [OF ok]
    show ?thesis
    proof (cases "?tot > 2 ^ 31 - 1 \<or> int32 ?tot = totalPageCount ?db")
      case True
      then show ?thesis using ok unfolding run setTotalPageCount_def by auto
    next
      case False
      have i32: "int32 ?tot = ?tot"
        using False tot eq(5) by (intro int32_id) auto
      have ps': "pageSize db \<le> ?n" using n by linarith
      have "header_ok (?db\<lparr>totalPageCount := int32 ?tot,
              disk := writeAt (leU32 (uint32 (int32 ?tot))) 30 (disk ?db)\<rparr>)"
      proof (rule header_ok_update [OF ok])
        show "0 \<le> totalPageCount (?db\<lparr>totalPageCount := int32 ?tot, disk := writeAt (leU32 (uint32 (int32 ?tot))) 30 (disk ?db)\<rparr>)"
          using i32 tot eq(5) by simp
        show "totalPageCount (?db\<lparr>totalPageCount := int32 ?tot, disk := writeAt (leU32 (uint32 (int32 ?tot))) 30 (disk ?db)\<rparr>)
            * int (pageSize ?db) + 380 \<le> int (length (disk (?db\<lparr>totalPageCount := int32 ?tot,
              disk := writeAt (leU32 (uint32 (int32 ?tot))) 30 (disk ?db)\<rparr>)))"
          using len long' ntot by (simp add: writeAt_inside i32)
      qed (use long' eq' len n ps' in \<open>simp_all add: spares_counter getU32_writeAt readLast_writeAt\<close>)
      moreover have "0 \<le> ?tot" using tot eq(5) by simp
      ultimately show ?thesis using False unfolding run setTotalPageCount_def layout_consts by simp
    qed
  qed
qed

section \<open>Operations\<close>

text \<open>An operation on an edit keeps the header, on its error paths too.\<close>

definition keeps_header :: "(edit, 'a) op \<Rightarrow> bool" where
  "keeps_header m \<longleftrightarrow> (\<forall>s. header_ok (edDb s) \<longrightarrow> header_ok (edDb (snd (m s))))"

lemma keeps_bindO: "keeps_header m \<Longrightarrow> (\<And>x. keeps_header (f x)) \<Longrightarrow> keeps_header (bindO m f)"
  by (force simp: keeps_header_def bindO_def split: prod.splits sum.splits)

lemma keeps_same: "(\<And>s. edDb (snd (m s)) = edDb s) \<Longrightarrow> keeps_header m"
  by (simp add: keeps_header_def)

lemma keeps_basic [simp, intro]:
  "keeps_header (retO x)" "keeps_header (failO e)" "keeps_header (getO g)" "keeps_header (liftO r)"
  "keeps_header (guardO b e)" "keeps_header (updBuf k u)" "keeps_header (clearPages k pages)"
  by (rule keeps_same; simp add: retO_def failO_def getO_def liftO_def guardO_def updBuf_def modO_def clearPages_def
        split: sum.splits prod.splits)+

lemma keeps_loadWith: "keeps_header (loadWith fetch no)"
  by (rule keeps_same) (auto simp: loadWith_def split: option.splits sum.splits)

lemma keeps_load [simp, intro]: "keeps_header (load no)" "keeps_header (loadFresh no)"
  by (simp_all add: load_def loadFresh_def keeps_loadWith)

lemma keeps_modO: "(\<And>s. header_ok (edDb s) \<Longrightarrow> header_ok (edDb (f s))) \<Longrightarrow> keeps_header (modO f)"
  by (simp add: keeps_header_def modO_def)

lemma keeps_onDb: "(\<And>db. header_ok db \<Longrightarrow> header_ok (snd (m db))) \<Longrightarrow> keeps_header (onDb m)"
  by (auto simp: keeps_header_def onDb_def split: prod.splits) (metis snd_conv)

lemma keeps_forO: "(\<And>x. keeps_header (body x)) \<Longrightarrow> keeps_header (forO xs body)"
  by (induction xs) (simp_all add: keeps_bindO)

lemma keeps_writeBuf: "keeps_header (writeBuf k)"
proof -
  have "header_ok (fst (snd (writePageBuf (db, p))))" if "header_ok db" for db p
    using that header_regions(1)
    by (auto simp: writePageBuf_def Let_def split: sum.splits)
  then show ?thesis
    by (auto simp: keeps_header_def writeBuf_def split: prod.splits) (metis fst_conv snd_conv)
qed

lemmas keeps_intros = keeps_bindO keeps_basic keeps_load keeps_modO keeps_onDb keeps_forO keeps_writeBuf

lemma keeps_chooseFreePages: "keeps_header (chooseFreePages pfs n)"
  unfolding chooseFreePages_def by (intro keeps_intros) (auto intro!: keeps_intros header_regions)

lemma keeps_allocatePages: "keeps_header (allocatePages seed n t oid)"
  unfolding allocatePages_def initNewPages_def
  by (intro keeps_intros keeps_chooseFreePages) (simp_all add: header_setters)

lemma keeps_releasePages: "keeps_header (releasePages pages)"
  unfolding releasePages_def by (intro keeps_intros)

lemma keeps_freeChainPages: "keeps_header (freeChainPages pages)"
  unfolding freeChainPages_def tombstone_def
  by (intro keeps_intros keeps_releasePages) (simp add: header_setters)

lemma keeps_linkChain: "keeps_header (linkChain no nxt)"
  unfolding linkChain_def by (intro keeps_intros)

lemma keeps_growChain: "keeps_header (growChain seed m t oid pages)"
  by (induction m arbitrary: pages) (auto intro!: keeps_bindO keeps_allocatePages keeps_linkChain)

lemma keeps_resizeChain: "keeps_header (resizeChain seed pages n t oid)"
  unfolding resizeChain_def
  by (auto intro!: keeps_bindO keeps_growChain keeps_linkChain keeps_freeChainPages)

lemma keeps_flushPages: "keeps_header flushPages"
  unfolding flushPages_def flushPage_def by (auto intro!: keeps_intros)

text \<open>The edits a program can reach from an opened file, failed operations included.\<close>

inductive edit_run :: "dbfile \<Rightarrow> edit \<Rightarrow> bool" for db where
  opened: "edit_run db (newPageEdit db)"
| fresh: "edit_run db s \<Longrightarrow> edit_run db (newPageEdit (edDb s))"
| allocate: "edit_run db s \<Longrightarrow> edit_run db (snd (allocatePages seed n t oid s))"
| release: "edit_run db s \<Longrightarrow> edit_run db (snd (releasePages pages s))"
| free: "edit_run db s \<Longrightarrow> edit_run db (snd (freeChainPages pages s))"
| link: "edit_run db s \<Longrightarrow> edit_run db (snd (linkChain no nxt s))"
| resize: "edit_run db s \<Longrightarrow> edit_run db (snd (resizeChain seed pages m t oid s))"
| flush: "edit_run db s \<Longrightarrow> edit_run db (snd (flushPages s))"
| bump: "edit_run db s \<Longrightarrow> edit_run db (s\<lparr>edDb := bumpFileState (edDb s)\<rparr>)"
| last_page: "edit_run db s \<Longrightarrow> edit_run db (s\<lparr>edDb := setLastUsedPageNo l (edDb s)\<rparr>)"
| last_object: "edit_run db s \<Longrightarrow> int32 oid = oid \<Longrightarrow> edit_run db (s\<lparr>edDb := setLastObjectID oid (edDb s)\<rparr>)"

lemma edit_run_header:
  "edit_run db s \<Longrightarrow> header_ok db \<Longrightarrow> header_ok (edDb s)"
proof (induction rule: edit_run.induct)
  case (allocate s seed n t oid)
  then show ?case using keeps_allocatePages by (simp add: keeps_header_def)
next
  case (release s pages)
  then show ?case using keeps_releasePages by (simp add: keeps_header_def)
next
  case (free s pages)
  then show ?case using keeps_freeChainPages by (simp add: keeps_header_def)
next
  case (link s no nxt)
  then show ?case using keeps_linkChain by (simp add: keeps_header_def)
next
  case (resize s seed pages m t oid)
  then show ?case using keeps_resizeChain by (simp add: keeps_header_def)
next
  case (flush s)
  then show ?case using keeps_flushPages by (simp add: keeps_header_def)
qed (simp_all add: header_setters newPageEdit_def)

lemma parsed_header:
  assumes "parseHeader lib rdwr d = Inr db"
  shows "header_ok db"
proof -
  have f: "disk db = d" "cipherlib db = lib" "writable db = rdwr" "decryptionKey db = None"
    using assms by (auto simp: parseHeader_def Let_def split: if_splits)
  have "db\<lparr>decryptionKey := None\<rparr> = db" using f(4) by (cases db) simp
  then show ?thesis using assms f by (simp add: header_ok_def)
qed

text \<open>C12. The header on disk never falls behind the one in memory: from an opened file, after any sequence
  of allocations, releases, chain edits, flushes and header writes, failed ones included, opening the
  bytes again gives the very state held in memory (the key of an encrypted file apart).\<close>

theorem reopening_gives_memory_state:
  assumes "parseHeader lib rdwr d = Inr db" and "edit_run db s"
  shows "parseHeader (cipherlib (edDb s)) (writable (edDb s)) (disk (edDb s)) = Inr ((edDb s)\<lparr>decryptionKey := None\<rparr>)"
  using edit_run_header [OF assms(2) parsed_header [OF assms(1)]] by (simp add: header_ok_def)

text \<open>A file with no pages yet: 420-byte pages in extents of two.\<close>

definition emptyFile :: "byte list" where
  "emptyFile = Magic @ replicate 10 0 @ leU16 420 @ leU16 2 @ replicate 400 0"

lemma emptyFile_opens: "\<exists>db. parseHeader noLib True emptyFile = Inr db \<and> dbState db = 0"
proof -
  have len: "length Magic = 16" by (simp add: Magic_def)
  have u16: "getU16 emptyFile 26 = 420"
    by (simp add: emptyFile_def get_append len)
  have z: "getU32 emptyFile 30 = 0" "getU32 emptyFile 38 = 0"
    by (simp_all add: emptyFile_def get_append len getU32_def slc_def numeral_eq_Suc)
  have g: "getU16 (readAt dbHeaderSize 0 emptyFile) 26 = 420" "getU32 (readAt dbHeaderSize 0 emptyFile) 30 = 0"
    "getU32 (readAt dbHeaderSize 0 emptyFile) 38 = 0"
    using get_slc [of _ 76 0 emptyFile] u16 z by (simp_all add: readAt_def layout_consts)
  have m: "take 16 (readAt dbHeaderSize 0 emptyFile) = Magic"
    by (simp add: readAt_def layout_consts slc_def emptyFile_def len)
  have l: "length emptyFile = 430" by (simp add: emptyFile_def len)
  show ?thesis by (simp add: parseHeader_def g [unfolded layout_consts] m [unfolded layout_consts] l Let_def layout_consts)
qed

lemma reopening_gives_memory_state_witness:
  "\<exists>db. parseHeader noLib True emptyFile = Inr db \<and>
     parseHeader noLib True (disk (bumpFileState (setLastUsedPageNo 5 db)))
       = Inr (bumpFileState (setLastUsedPageNo 5 db))
     \<and> dbState (bumpFileState (setLastUsedPageNo 5 db)) = 1"
proof -
  obtain db where db: "parseHeader noLib True emptyFile = Inr db" "dbState db = 0" using emptyFile_opens by blast
  have f: "cipherlib db = noLib" "writable db" "decryptionKey db = None"
    using db(1) by (auto simp: parseHeader_def Let_def split: if_splits)
  have "edit_run db (newPageEdit (bumpFileState (setLastUsedPageNo 5 db)))"
    using edit_run.fresh [OF edit_run.bump [OF edit_run.last_page [OF edit_run.opened], of db 5]] by (simp add: newPageEdit_def)
  from reopening_gives_memory_state [OF db(1) this] f db show ?thesis
    by (auto simp: newPageEdit_def bumpFileState_def setLastUsedPageNo_def)
qed

end
