(* ===== verification/Index_Props.thy ===== *)
theory Index_Props
  imports Index_Build Stream_Witnesses "HOL-Library.Multiset"
begin

text \<open>
  What the index operations guarantee: the order of the keys is the order of the column's values,
  a leaf stays in key order, a removal takes back an insertion, a leaf built at once is the leaf
  built row by row, and a lookup finds what the tree holds.
\<close>

section \<open>The leaf\<close>

lemma leafEntries_keys:
  assumes "leaf_ok l p" and "collates lib" and "\<forall>c \<in> set (leafComponents l). wide_component c"
  shows "\<forall>x \<in> set (leafEntries l p). indexKey lib (leafComponents l) (fst x)"
proof
  fix x
  assume "x \<in> set (leafEntries l p)"
  then obtain i where i: "i < leafCount p" "x = (leafKey l p i, leafRef l p i)" by (auto simp: leafEntries_def)
  have "Suc i * leafStride l \<le> leafCount p * leafStride l" using i(1) by (intro mult_le_mono1) simp
  then have "18 + i * leafStride l + leafStride l \<le> length p" using count_bound [OF assms(1)] by simp
  then have "length (fst x) = leafKeySize l"
    using i(2) assms(1) by (simp add: leafKey_def leafOffset_def btreeHeaderSize_def Let_def leaf_ok_def leafEntrySuffixSize_def)
  then show "indexKey lib (leafComponents l) (fst x)" using assms by (simp add: indexKey_def leaf_ok_def)
qed

text \<open>C31. Inserting an entry into an index leaf whose entries are in key order succeeds when there is
  room for it, keeps every other entry, puts the new one behind all keys that are not greater, leaves the
  leaf in key order and its header unchanged but for the count; without room the leaf is left as it is.\<close>

theorem leaf_insert_keeps_key_order:
  assumes "leaf_ok l p" and "collates lib" and "\<forall>c \<in> set (leafComponents l). wide_component c"
    and "length key = leafKeySize l" and "storable_ref rid"
    and "inKeyOrder (\<lambda>a b. compareIndexKeys lib a b (leafComponents l)) (leafEntries l p)"
  shows "if leafEnd l p + leafStride l \<le> length p
    then \<exists>p'. leafInsert lib l key rid p = Inr p' \<and> leaf_ok l p' \<and> length p' = length p
      \<and> (\<exists>low high. leafEntries l p = low @ high \<and> leafEntries l p' = low @ (key, rid) # high
          \<and> (\<forall>x \<in> set low. compareIndexKeys lib (fst x) key (leafComponents l) \<le> 0)
          \<and> (\<forall>x \<in> set high. compareIndexKeys lib (fst x) key (leafComponents l) > 0))
      \<and> inKeyOrder (\<lambda>a b. compareIndexKeys lib a b (leafComponents l)) (leafEntries l p')
      \<and> take 14 p' = take 14 p \<and> slc 16 18 p' = slc 16 18 p
    else leafInsert lib l key rid p = Inl ErrIndexTooManyRows"
proof (cases "leafEnd l p + leafStride l \<le> length p")
  case False
  then show ?thesis by (simp add: leafInsert_def leafRoom_def)
next
  case True
  let ?cmp = "\<lambda>a b. compareIndexKeys lib a b (leafComponents l)" and ?es = "leafEntries l p"
  obtain p' where p': "leafInsert lib l key rid p = Inr p'" "length p' = length p" "leaf_ok l p'"
    "leafEntries l p' = insertEntry ?cmp (key, rid) ?es" "take 14 p' = take 14 p" "slc 16 18 p' = slc 16 18 p"
    using leafInsert_entries [OF assms(1) True assms(4,5), of lib] by blast
  have keys: "\<forall>x \<in> set ?es. indexKey lib (leafComponents l) (fst x)" "indexKey lib (leafComponents l) (fst (key, rid))"
    using leafEntries_keys [OF assms(1-3)] assms(1-4) by (auto simp: indexKey_def leaf_ok_def)
  have parts: "\<exists>low high. ?es = low @ high \<and> leafEntries l p' = low @ (key, rid) # high
      \<and> (\<forall>x \<in> set low. ?cmp (fst x) key \<le> 0) \<and> (\<forall>x \<in> set high. ?cmp (fst x) key > 0)"
    using indexKeys.insertEntry_split [OF assms(6) keys(2,1)] p'(4) by simp
  show ?thesis
    using True p' parts indexKeys.insert_keeps_order [OF assms(6) keys(2,1)] by auto
qed

text \<open>C32. Removing an index entry that was just inserted gives the leaf its old entries back, in their old
  order, wherever the key went.\<close>

theorem leaf_remove_undoes_insert:
  assumes "leaf_ok l p" and "leafEnd l p + leafStride l \<le> length p"
    and "length key = leafKeySize l" and "storable_ref rid" and "rid \<notin> snd ` set (leafEntries l p)"
  shows "\<exists>p' p''. leafInsert lib l key rid p = Inr p' \<and> leafRemove l rid p' = Inr p''
    \<and> leafEntries l p'' = leafEntries l p \<and> leafCount p'' = leafCount p \<and> take 14 p'' = take 14 p
    \<and> (\<forall>k. hasKey lib l p'' k = hasKey lib l p k)"
proof -
  let ?cmp = "\<lambda>a b. compareIndexKeys lib a b (leafComponents l)" and ?es = "leafEntries l p"
  obtain p' where p': "leafInsert lib l key rid p = Inr p'" "leaf_ok l p'"
    "leafEntries l p' = insertEntry ?cmp (key, rid) ?es" "take 14 p' = take 14 p"
    using leafInsert_entries [OF assms(1-4), of lib] by blast
  let ?low = "takeWhile (\<lambda>x. ?cmp (fst x) key \<le> 0) ?es" and ?high = "dropWhile (\<lambda>x. ?cmp (fst x) key \<le> 0) ?es"
  have "rid \<notin> snd ` set ?low" using assms(5) by (auto dest: set_takeWhileD)
  moreover have "leafEntries l p' = ?low @ (key, rid) # ?high" using p'(3) by (simp add: insertEntry_parts)
  ultimately obtain p'' where p'': "leafRemove l rid p' = Inr p''" "leafEntries l p'' = ?es" "take 14 p'' = take 14 p'"
    using leafRemove_entries [OF p'(2)] by (metis takeWhile_dropWhile_id)
  have "leafCount p'' = leafCount p" by (metis length_leafEntries p''(2))
  moreover have "hasKey lib l p'' k = hasKey lib l p k" for k
    by (simp add: hasKey_entries p''(2))
  ultimately show ?thesis using p' p'' by simp
qed

section \<open>Building and maintaining\<close>

fun insertAll :: "textlib \<Rightarrow> indexLeaf \<Rightarrow> BTreeEntry list \<Rightarrow> byte list \<Rightarrow> byte list result" where
  "insertAll lib l [] p = Inr p"
| "insertAll lib l (e # es) p = bindR (leafInsert lib l (Key e) (refOf e) p) (insertAll lib l es)"

lemma insertStable_props:
  "set (insertStable before x xs) = insert x (set xs)" "length (insertStable before x xs) = Suc (length xs)"
  "sized ks (insertStable before x xs) \<longleftrightarrow> sized ks (x # xs)"
  by (induction xs) (auto simp: sized_def)

lemma insertAll_bytes:
  assumes law: "collates lib" "\<forall>c \<in> set (leafComponents l). wide_component c"
    and l: "leafStride l = ks + 6" "leafKeySize l = ks" "ks = keyWidth (leafComponents l)"
    and "sized ks done'" "sized ks es" "length es * (ks + 6) \<le> length rest" "length (leafBytes ks done' rest) < 2 ^ 16"
  shows "insertAll lib l es (leafBytes ks done' rest)
    = Inr (leafBytes ks (fold (insertStable (keyLess lib (leafComponents l))) es done') (drop (length es * (ks + 6)) rest))"
  using assms(6-)
proof (induction es arbitrary: done' rest)
  case (Cons e es)
  let ?ins = "insertStable (keyLess lib (leafComponents l)) e done'" and ?rest = "drop (ks + 6) rest"
  have key: "indexKey lib (leafComponents l) (Key x)" if "x \<in> set (e # done')" for x
    using Cons.prems(1,2) that law l by (auto simp: indexKey_def sized_def)
  have ord: "\<forall>x \<in> set done'. keyLess lib (leafComponents l) e x \<longleftrightarrow> compareIndexKeys lib (Key x) (Key e) (leafComponents l) > 0"
  proof
    fix x assume "x \<in> set done'"
    then show "keyLess lib (leafComponents l) e x \<longleftrightarrow> compareIndexKeys lib (Key x) (Key e) (leafComponents l) > 0"
      using indexKeys.flip [OF key [of e] key [of x]] by (simp add: keyLess_def)
  qed
  have step: "leafInsert lib l (Key e) (refOf e) (leafBytes ks done' rest) = Inr (leafBytes ks ?ins ?rest)"
    using Cons.prems by (intro leafInsert_bytes [OF _ _ _ _ _ l ord]) simp_all
  have s: "sized ks ?ins" "sized ks es" using Cons.prems by (simp_all add: insertStable_props)
  have len: "length (leafBytes ks ?ins ?rest) = length (leafBytes ks done' rest)"
    using Cons.prems length_blocks [OF s(1)] length_blocks [of ks done'] by (simp add: leafBytes_def insertStable_props)
  show ?case
    using Cons.IH [OF s] Cons.prems len by (simp add: step add.commute)
qed simp

text \<open>The stable sort: an ordered permutation that keeps equal keys as they came.\<close>

lemma sorted_by_keys:
  assumes "collates lib" and "\<forall>c \<in> set cs. wide_component c" and "sized (keyWidth cs) es"
  shows "mset (sortStable (keyLess lib cs) es) = mset es"
    and "entriesInOrder (\<lambda>a b. compareIndexKeys lib a b cs) (sortStable (keyLess lib cs) es)"
proof -
  let ?ins = "insertStable (keyLess lib cs)" and ?cmp = "\<lambda>a b. compareIndexKeys lib a b cs"
  have "mset (fold ?ins es acc) = mset es + mset acc" for acc
  proof (induction es arbitrary: acc)
    case (Cons e es)
    have "mset (?ins e acc) = add_mset e (mset acc)" by (induction acc) auto
    then show ?case by (simp add: Cons.IH)
  qed simp
  then show "mset (sortStable (keyLess lib cs) es) = mset es" by (simp add: sortStable_def)
  have "entriesInOrder ?cmp (fold ?ins es acc)" if "entriesInOrder ?cmp acc" "sized (keyWidth cs) acc" for acc
    using assms(3) that
  proof (induction es arbitrary: acc)
    case (Cons e es)
    have key: "indexKey lib cs (Key x)" if "x \<in> set (e # acc)" for x
      using Cons.prems that assms(1,2) by (auto simp: indexKey_def sized_def)
    have "entriesInOrder ?cmp (?ins e acc)"
      using Cons.prems(2) key
    proof (induction acc)
      case (Cons x xs)
      note tr = indexKeys.trans [of lib cs "Key e" "Key x"] and fl = indexKeys.flip [of lib cs "Key e" "Key x"]
      have ord: "\<forall>y \<in> set xs. ?cmp (Key x) (Key y) \<le> 0" "entriesInOrder ?cmp xs"
        using Cons.prems(1) by (auto simp: entriesInOrder_def)
      have IH: "entriesInOrder ?cmp (?ins e xs)" by (rule Cons.IH [OF ord(2)]) (rule Cons.prems(2), auto)
      have k: "indexKey lib cs (Key e)" "indexKey lib cs (Key x)" "\<And>y. y \<in> set xs \<Longrightarrow> indexKey lib cs (Key y)"
        using Cons.prems(2) by simp_all
      show ?case
      proof (cases "keyLess lib cs e x")
        case True
        then have "?cmp (Key e) (Key x) \<le> 0" by (simp add: keyLess_def)
        then have "\<forall>y \<in> set xs. ?cmp (Key e) (Key y) \<le> 0" using tr k ord(1) by blast
        then show ?thesis using True ord \<open>?cmp (Key e) (Key x) \<le> 0\<close> by (simp add: entriesInOrder_def)
      next
        case False
        then have "?cmp (Key x) (Key e) \<le> 0" using fl [OF k(1,2)] by (simp add: keyLess_def)
        then show ?thesis using False IH ord by (simp add: entriesInOrder_def insertStable_props)
      qed
    qed (simp add: entriesInOrder_def)
    moreover have "sized (keyWidth cs) (?ins e acc)" using Cons.prems by (simp add: insertStable_props)
    ultimately show ?case using Cons.IH Cons.prems(1) by simp
  qed simp
  then show "entriesInOrder ?cmp (sortStable (keyLess lib cs) es)"
    by (simp add: sortStable_def entriesInOrder_def)
qed

text \<open>C33. The leaf CREATE INDEX writes for the rows of a table is byte for byte the leaf that results when an
  empty index is created and the rows are inserted into it one after another; its entries are the rows',
  in key order.\<close>

theorem index_built_is_index_maintained:
  assumes "collates lib" and "\<forall>c \<in> set cs. wide_component c" and "sized (keyWidth cs) es"
    and "18 + length es * (keyWidth cs + 6) \<le> length p" and "length p < 2 ^ 16"
  shows "\<exists>q. leafPayload (keyWidth cs) (sortStable (keyLess lib cs) es) p = Inr q
    \<and> bindR (leafPayload (keyWidth cs) [] p)
        (insertAll lib \<lparr>leafBuf = k, leafStride = keyWidth cs + 6, leafKeySize = keyWidth cs, leafComponents = cs\<rparr> es) = Inr q
    \<and> mset (sortStable (keyLess lib cs) es) = mset es
    \<and> entriesInOrder (\<lambda>a b. compareIndexKeys lib a b cs) (sortStable (keyLess lib cs) es)"
proof -
  let ?ks = "keyWidth cs" and ?s = "sortStable (keyLess lib cs) es"
  let ?l = "\<lparr>leafBuf = k, leafStride = ?ks + 6, leafKeySize = ?ks, leafComponents = cs\<rparr>"
  note srt = sorted_by_keys [OF assms(1-3)]
  have set: "set ?s = set es" "length ?s = length es"
    using srt(1) by (metis set_mset_mset, metis size_mset)
  have "leafPayload ?ks ?s p = Inr (leafBytes ?ks ?s (drop (18 + length es * (?ks + 6)) p))"
    using assms(3,4) set by (subst leafPayload_bytes) (auto simp: sized_def leafBytes_def)
  moreover have "leafPayload ?ks [] p = Inr (leafBytes ?ks [] (drop 18 p))"
    using assms(4) by (subst leafPayload_bytes) (simp_all add: leafBytes_def)
  moreover have "insertAll lib ?l es (leafBytes ?ks [] (drop 18 p)) = Inr (leafBytes ?ks ?s (drop (length es * (?ks + 6)) (drop 18 p)))"
    using insertAll_bytes [of lib ?l ?ks "[]" es "drop 18 p"] assms by (simp add: sortStable_def leafBytes_def)
  ultimately show ?thesis using srt by (simp add: add.commute)
qed

text \<open>Whether a symmetric relation holds between any two elements does not depend on their order.\<close>

lemma sorted_wrt_perm:
  assumes "mset xs = mset ys" and "\<And>a b. a \<in> set xs \<Longrightarrow> b \<in> set xs \<Longrightarrow> d a b \<longleftrightarrow> d b a"
  shows "sorted_wrt d xs \<longleftrightarrow> sorted_wrt d ys"
  using assms
proof (induction xs arbitrary: ys)
  case (Cons x xs)
  have "x \<in> set ys" using Cons.prems(1) by (metis list.set_intros(1) set_mset_mset)
  then obtain low high where ys: "ys = low @ x # high" by (auto dest: split_list)
  then have m: "mset xs = mset (low @ high)" using Cons.prems(1) by simp
  then have set: "set xs = set low \<union> set high" by (metis set_append set_mset_mset)
  have "sorted_wrt d xs \<longleftrightarrow> sorted_wrt d (low @ high)" using Cons.IH [OF m] Cons.prems(2) by simp
  moreover have "d a x \<longleftrightarrow> d x a" if "a \<in> set low" for a using Cons.prems(2) [of a x] set that by simp
  ultimately show ?case unfolding ys using set by (auto simp: sorted_wrt_append)
qed simp

lemma refuse_sorted:
  assumes "entriesInOrder (\<lambda>a b. compareIndexKeys lib a b cs) es" and "\<forall>e \<in> set es. indexKey lib cs (Key e)"
  shows "refuseDuplicateEntries lib cs es =
    (if sorted_wrt (\<lambda>a b. compareIndexKeys lib (Key a) (Key b) cs \<noteq> 0) es then Inr () else Inl ErrDuplicateKey)"
  using assms
proof (induction lib cs es rule: refuseDuplicateEntries.induct)
  case (1 lib cs a b es)
  let ?cmp = "\<lambda>x y. compareIndexKeys lib (Key x) (Key y) cs"
  have ord: "?cmp a b \<le> 0" "\<forall>e \<in> set es. ?cmp b e \<le> 0" "entriesInOrder (\<lambda>a b. compareIndexKeys lib a b cs) (b # es)"
    using "1.prems"(1) by (auto simp: entriesInOrder_def)
  show ?case
  proof (cases "?cmp a b = 0")
    case False
    have "?cmp a e \<noteq> 0" if e: "e \<in> set es" for e
    proof
      assume "?cmp a e = 0"
      have k: "indexKey lib cs (Key a)" "indexKey lib cs (Key b)" "indexKey lib cs (Key e)" using "1.prems"(2) e by auto
      have "?cmp e a \<le> 0" using indexKeys.flip [OF k(1,3)] \<open>?cmp a e = 0\<close> by simp
      then have "?cmp b a \<le> 0" using indexKeys.trans [OF k(2,3,1)] ord(2) e by blast
      then show False using indexKeys.flip [OF k(1,2)] ord(1) False by simp
    qed
    then show ?thesis using False "1.IH" [OF False ord(3)] "1.prems"(2) by auto
  qed simp
qed simp_all

text \<open>C34. The check a unique index is created with, that no two neighbouring entries of the sorted rows have
  equal keys, passes exactly when no two rows have.\<close>

theorem neighbour_check_finds_duplicates:
  assumes "collates lib" and "\<forall>c \<in> set cs. wide_component c" and "sized (keyWidth cs) es"
  shows "refuseDuplicateEntries lib cs (sortStable (keyLess lib cs) es) =
    (if \<forall>i j. i < j \<longrightarrow> j < length es \<longrightarrow> compareIndexKeys lib (Key (es ! i)) (Key (es ! j)) cs \<noteq> 0
     then Inr () else Inl ErrDuplicateKey)"
proof -
  let ?d = "\<lambda>a b. compareIndexKeys lib (Key a) (Key b) cs \<noteq> 0" and ?s = "sortStable (keyLess lib cs) es"
  note srt = sorted_by_keys [OF assms]
  have set: "set ?s = set es" using srt(1) by (metis set_mset_mset)
  have k: "\<forall>e \<in> set es. indexKey lib cs (Key e)" using assms by (auto simp: indexKey_def sized_def)
  have sym: "?d a b \<longleftrightarrow> ?d b a" if "a \<in> set es" "b \<in> set es" for a b
    using indexKeys.flip [OF bspec [OF k that(1)] bspec [OF k that(2)]] by simp
  have "sorted_wrt ?d ?s \<longleftrightarrow> sorted_wrt ?d es"
    by (rule sorted_wrt_perm [OF srt(1)]) (simp only: set sym)
  then have "sorted_wrt ?d ?s \<longleftrightarrow> (\<forall>i j. i < j \<longrightarrow> j < length es \<longrightarrow> ?d (es ! i) (es ! j))"
    unfolding sorted_wrt_iff_nth_less .
  moreover have "refuseDuplicateEntries lib cs ?s = (if sorted_wrt ?d ?s then Inr () else Inl ErrDuplicateKey)"
    by (rule refuse_sorted [OF srt(2)]) (unfold set, rule k)
  ultimately show ?thesis by (simp only:)
qed

end
