(* ===== verification/Index_Witnesses.thy ===== *)
theory Index_Witnesses
  imports Index_Props
begin

text \<open>
  Looking a primary key up in a tree of pages, and the samples on which the properties of the
  indexes are instantiated: a collator that orders texts by their bytes, a leaf of two Int32 keys,
  and a file whose index has a root page and two leaves.
\<close>

section \<open>Lookup by primary key\<close>

lemma search_key_value: "getU32 (splice 1 (leU32 (uint32 key)) (zeros 5)) 1 = uint32 key"
  by (simp add: zeros_def)

lemma search_key_not_null: "splice 1 (leU32 w) (zeros 5) ! 0 = 0"
  by (simp add: nth_splice zeros_def)

text \<open>C30. On a well-formed index tree of any depth the descent allows, looking up a primary key returns the
  reference of the first entry, in key order, that is not NULL and holds that value, and reports
  ErrKeyNotFound exactly when there is none.\<close>

theorem primary_key_lookup:
  assumes "PrimaryKeyIndex roots = Inr root" and "- (2 ^ 31) \<le> key" "key < 2 ^ 31"
    and "indexTree db compareInt32Keys (\<lambda>k. 5 \<le> length k) n (int (iiRootPageNo root)) es" and "n \<le> 64"
  shows "FindByPrimaryKey db roots key =
    (case find (\<lambda>e. Key e ! 0 = 0 \<and> sint (getU32 (Key e) 1) = key) es of
       Some e \<Rightarrow> Inr (PageNo e, ItemNo e) | None \<Rightarrow> Inl ErrKeyNotFound)"
proof -
  let ?k = "splice 1 (leU32 (uint32 key)) (zeros 5)"
  have len: "length ?k = 5" by (simp add: zeros_def)
  have v: "\<forall>e \<in> set es. 5 \<le> length (Key e)" using tree_valid [OF assms(4)] by blast
  have eq: "compareInt32Keys (Key e) ?k = 0 \<longleftrightarrow> Key e ! 0 = 0 \<and> sint (getU32 (Key e) 1) = key" if "e \<in> set es" for e
    using v that len assms(2,3) search_key_value [of key] search_key_not_null [of "uint32 key"]
    by (auto simp: compareInt32Keys_def primaryKeySize_def Let_def int32_id)
  have "searchTree db (int (iiRootPageNo root)) ?k compareInt32Keys = lookupKey compareInt32Keys ?k es"
    unfolding searchTree_def using int32Search.tree_lookup [OF assms(4) _ assms(5) [folded maxTreeDepth_value], of ?k] len by simp
  moreover have "find (\<lambda>e. compareInt32Keys (Key e) ?k = 0) es = find (\<lambda>e. Key e ! 0 = 0 \<and> sint (getU32 (Key e) 1) = key) es"
    by (rule find_cong [OF refl]) (rule eq)
  ultimately show ?thesis
    using assms(1) by (simp add: FindByPrimaryKey_def primaryKeySize_def lookupKey_def split: option.split)
qed

section \<open>Samples\<close>

definition byteLib :: textlib where
  "byteLib = \<lparr>textCodec = byteCodec, collateText = (\<lambda>_. bytesCompare)\<rparr>"

lemma byteLib_collates: "collates byteLib"
proof -
  have "bytesCompare b a = - bytesCompare a b" for a b by (induction a b rule: bytesCompare.induct) auto
  moreover have "bytesCompare a b \<le> 0 \<Longrightarrow> bytesCompare b c \<le> 0 \<Longrightarrow> bytesCompare a c \<le> 0" for a b c
  proof (induction a c arbitrary: b rule: bytesCompare.induct)
    case (4 x xs y ys)
    then obtain z zs where "b = z # zs" by (cases b) auto
    then show ?case using 4 by (auto split: if_splits)
  next
    case (3 x xs)
    then show ?case by (cases b) auto
  qed auto
  ultimately show ?thesis unfolding collates_def byteLib_def textlib.simps using bytesCompare_same by blast
qed

definition int32Part :: indexKeyComponent where
  "int32Part = \<lparr>kcCol = 0, kcSize = 5, kcKind = indexKeyInt32, kcNoCase = False\<rparr>"

lemma int32Part_wide: "\<forall>c \<in> set [int32Part]. wide_component c" "keyWidth [int32Part] = 5"
  by (simp_all add: int32Part_def wide_component_def)

lemma int32Part_size [simp]: "kcSize int32Part = 5"
  by (simp add: int32Part_def)

definition int32Entry :: "byte \<Rightarrow> BTreeEntry" where
  "int32Entry v = \<lparr>Key = [0, v, 0, 0, 0], PageNo = 10, ItemNo = ucast v\<rparr>"

definition sampleLeaf :: indexLeaf where
  "sampleLeaf = \<lparr>leafBuf = 9, leafStride = 11, leafKeySize = 5, leafComponents = [int32Part]\<rparr>"

definition leafPage :: "byte list" where
  "leafPage = leafBytes 5 [int32Entry 3, int32Entry 9] (replicate 30 0)"

lemma int32Entry_sized: "sized 5 [int32Entry v, int32Entry w]" "storable_ref (refOf (int32Entry v))"
proof -
  have "uint (ucast v :: u16) < 2 ^ 16" using uint_lt2p [of "ucast v :: u16"] by simp
  moreover have "uint (ucast w :: u16) < 2 ^ 16" using uint_lt2p [of "ucast w :: u16"] by simp
  ultimately show "sized 5 [int32Entry v, int32Entry w]" "storable_ref (refOf (int32Entry v))"
    by (simp_all add: int32Entry_def storable_ref_def refOf_def)
qed

lemma sampleLeaf_fields:
  "leafStride sampleLeaf = 5 + 6" "leafKeySize sampleLeaf = 5" "leafComponents sampleLeaf = [int32Part]"
  by (simp_all add: sampleLeaf_def)

lemma length_leafPage: "length leafPage = 70"
  using length_blocks [OF int32Entry_sized(1), of 3 9] by (simp add: leafPage_def leafBytes_def)

lemma leafPage_ok:
  "leaf_ok sampleLeaf leafPage" "leafCount leafPage = 2"
  "leafEntries sampleLeaf leafPage = [(Key (int32Entry 3), refOf (int32Entry 3)), (Key (int32Entry 9), refOf (int32Entry 9))]"
proof -
  have "length leafPage < 2 ^ 16" "5 = keyWidth (leafComponents sampleLeaf)"
    by (simp_all add: length_leafPage sampleLeaf_fields int32Part_wide)
  note ok = leafBytes_ok [OF int32Entry_sized(1) this(1) [unfolded leafPage_def] sampleLeaf_fields(1,2) this(2), folded leafPage_def]
  show "leaf_ok sampleLeaf leafPage" by (rule ok(1))
  show "leafCount leafPage = 2" using ok(2) by simp
  show "leafEntries sampleLeaf leafPage = [(Key (int32Entry 3), refOf (int32Entry 3)), (Key (int32Entry 9), refOf (int32Entry 9))]"
    using ok(3) by simp
qed

lemma compare_int32:
  "compareIndexKeys lib [0, v, 0, 0, 0] [0, w, 0, 0, 0] [int32Part] = compareInt32Keys [0, v, 0, 0, 0] [0, w, 0, 0, 0]"
  by (simp add: compareIndexKeys_def int32Part_def compareComponent_def slc_def Let_def)

lemma compare_samples:
  "compareInt32Keys [0, 3, 0, 0, 0] [0, 9, 0, 0, 0] = -1"
  by (simp add: compareInt32Keys_def primaryKeySize_def getU32_def slc_def)

lemma leafPage_order: "inKeyOrder (\<lambda>a b. compareIndexKeys byteLib a b (leafComponents sampleLeaf)) (leafEntries sampleLeaf leafPage)"
  by (simp add: inKeyOrder_def leafPage_ok sampleLeaf_fields int32Entry_def compare_int32 compare_samples)

lemma leafPage_room: "leafEnd sampleLeaf leafPage + leafStride sampleLeaf \<le> length leafPage"
  by (simp add: leafEnd_def btreeHeaderSize_def leafPage_ok sampleLeaf_fields length_leafPage)

lemma leaf_insert_keeps_key_order_witness:
  "\<exists>p'. leafInsert byteLib sampleLeaf (Key (int32Entry 5)) (refOf (int32Entry 5)) leafPage = Inr p'
    \<and> inKeyOrder (\<lambda>a b. compareIndexKeys byteLib a b [int32Part]) (leafEntries sampleLeaf p')"
  using leaf_insert_keeps_key_order [OF leafPage_ok(1) byteLib_collates _ _ int32Entry_sized(2) leafPage_order, of "Key (int32Entry 5)" 5]
    leafPage_room int32Part_wide(1) by (auto simp: sampleLeaf_fields int32Entry_def)

lemma leaf_remove_undoes_insert_witness:
  "\<exists>p' p''. leafInsert byteLib sampleLeaf (Key (int32Entry 5)) (refOf (int32Entry 5)) leafPage = Inr p'
    \<and> leafRemove sampleLeaf (refOf (int32Entry 5)) p' = Inr p'' \<and> leafEntries sampleLeaf p'' = leafEntries sampleLeaf leafPage"
  using leaf_remove_undoes_insert [OF leafPage_ok(1) leafPage_room _ int32Entry_sized(2), of "Key (int32Entry 5)" 5 byteLib]
  by (fastforce simp: sampleLeaf_fields leafPage_ok(3) refOf_def int32Entry_def)

lemma sizedEntries: "sized (keyWidth [int32Part]) [int32Entry 9, int32Entry 3]"
  using int32Entry_sized(1) by (simp add: int32Part_wide)

lemma index_built_is_index_maintained_witness:
  "\<exists>q. leafPayload 5 (sortStable (keyLess byteLib [int32Part]) [int32Entry 9, int32Entry 3]) (replicate 60 0) = Inr q
    \<and> bindR (leafPayload 5 [] (replicate 60 0)) (insertAll byteLib sampleLeaf [int32Entry 9, int32Entry 3]) = Inr q"
proof -
  have l: "\<lparr>leafBuf = 9, leafStride = 5 + 6, leafKeySize = 5, leafComponents = [int32Part]\<rparr> = sampleLeaf"
    by (simp add: sampleLeaf_def)
  have room: "18 + length [int32Entry 9, int32Entry 3] * (keyWidth [int32Part] + 6) \<le> length (replicate 60 (0 :: byte))"
    "length (replicate 60 (0 :: byte)) < 2 ^ 16" by simp_all
  show ?thesis
    using index_built_is_index_maintained [OF byteLib_collates int32Part_wide(1) sizedEntries room, of 9]
    unfolding int32Part_wide(2) l by blast
qed

lemma neighbour_check_finds_duplicates_witness:
  "refuseDuplicateEntries byteLib [int32Part] (sortStable (keyLess byteLib [int32Part]) [int32Entry 9, int32Entry 3]) = Inr ()"
proof -
  have "compareInt32Keys [0, 9, 0, 0, 0] [0, 3, 0, 0, 0] \<noteq> 0"
    by (simp add: compareInt32Keys_def primaryKeySize_def getU32_def slc_def)
  then show ?thesis
    using neighbour_check_finds_duplicates [OF byteLib_collates int32Part_wide(1) sizedEntries]
    by (simp add: less_Suc_eq int32Entry_def compare_int32)
qed

section \<open>A tree of two levels\<close>

definition nodeHeader :: "bool \<Rightarrow> bool \<Rightarrow> byte \<Rightarrow> byte list" where
  "nodeHeader root leaf n = [of_bool root, of_bool leaf, 0xFF, 0xFF, 0xFF, 0xFF, 0xFF, 0xFF, 0xFF, 0xFF, 1, 0, 5, 0, n, 0, 0, 0]"

definition treePages :: "(u16 \<times> byte list) list" where
  "treePages = [(2, []),
     (12, nodeHeader True False 2 @ [0, 1, 0, 0, 0, 2, 0, 0, 0, 0, 5, 0, 0, 0, 3, 0, 0, 0]),
     (12, nodeHeader False True 1 @ [0, 1, 0, 0, 0, 10, 0, 0, 0, 1, 0]),
     (12, nodeHeader False True 2 @ [0, 5, 0, 0, 0, 10, 0, 0, 0, 5, 0, 0, 7, 0, 0, 0, 10, 0, 0, 0, 7, 0])]"

abbreviation treeFile :: dbfile where "treeFile \<equiv> sampleFile 4 treePages"

definition nodeFields :: "bool \<Rightarrow> bool \<Rightarrow> u16 \<Rightarrow> BTreePageHeader" where
  "nodeFields root leaf n = \<lparr>IsRoot = root, IsLeaf = leaf, LeftPageNo = -1, RightPageNo = -1, HasKeys = True, HasSuffixes = False,
     KeyPrefixSize = 5, EntryCount = n, PagePrefixSize = 0\<rparr>"

lemma nodeFields_leaf [simp]: "IsLeaf (nodeFields root leaf n) = leaf"
  by (simp add: nodeFields_def)

lemma nodeHeader_parses: "parseBTreeHeader (nodeHeader root leaf n @ xs) = Inr (nodeFields root leaf (word_of_nat (unat n)))"
  by (cases root; cases leaf) (simp_all add: parseBTreeHeader_def btreeHeaderSize_def nodeHeader_def nodeFields_def getU32_def getU16_def slc_def)

lemma treePages_ok: "samplePages treePages" "length treePages = 4"
  by (simp_all add: samplePages_def treePages_def nodeHeader_def)

lemma tree_page:
  assumes "n < 4" and "treePages ! n = (12, nodeHeader root leaf k @ xs)"
  shows "indexPage treeFile (int n) = Inr (padTo 380 (nodeHeader root leaf k @ xs), nodeFields root leaf (word_of_nat (unat k)))"
proof -
  obtain p where "ReadPage treeFile (int n) = Inr p" "Payload p = padTo 380 (snd (treePages ! n))"
    using sample_read [OF treePages_ok(1), of n 4] assms(1) treePages_ok(2) by auto
  then show ?thesis using assms(2) by (simp add: indexPage_def padTo_def nodeHeader_parses)
qed

lemma tree_entries:
  "readBTreeEntries (padTo 380 (nodeHeader True False 2 @ [0, 1, 0, 0, 0, 2, 0, 0, 0, 0, 5, 0, 0, 0, 3, 0, 0, 0])) (nodeFields True False 2)
     = Inr [\<lparr>Key = [0, 1, 0, 0, 0], PageNo = 2, ItemNo = 0\<rparr>, \<lparr>Key = [0, 5, 0, 0, 0], PageNo = 3, ItemNo = 0\<rparr>]"
  "readBTreeEntries (padTo 380 (nodeHeader False True 1 @ [0, 1, 0, 0, 0, 10, 0, 0, 0, 1, 0])) (nodeFields False True 1)
     = Inr [int32Entry 1]"
  "readBTreeEntries (padTo 380 (nodeHeader False True 2 @ [0, 5, 0, 0, 0, 10, 0, 0, 0, 5, 0, 0, 7, 0, 0, 0, 10, 0, 0, 0, 7, 0])) (nodeFields False True 2)
     = Inr [int32Entry 5, int32Entry 7]"
  by (simp_all add: readBTreeEntries_def entryStride_def btreeHeaderSize_def internalEntrySuffixSize_def leafEntrySuffixSize_def
      nodeHeader_def nodeFields_def padTo_def upt_rec getU32_def getU16_def slc_def int32Entry_def Let_def)

lemma tree_keys:
  "compareInt32Keys [0, 1, 0, 0, 0] [0, 5, 0, 0, 0] = -1" "compareInt32Keys [0, 5, 0, 0, 0] [0, 7, 0, 0, 0] = -1"
  "compareInt32Keys [0, 5, 0, 0, 0] [0, 1, 0, 0, 0] = 1" "compareInt32Keys k k = 0"
  by (simp_all add: compareInt32Keys_def primaryKeySize_def getU32_def slc_def bytesCompare_same)

lemma sampleTree:
  "indexTree treeFile compareInt32Keys (\<lambda>k. 5 \<le> length k) 2 1 [int32Entry 1, int32Entry 5, int32Entry 7]"
proof -
  let ?v = "\<lambda>k :: byte list. 5 \<le> length k"
  have pages: "indexPage treeFile 1 = Inr (padTo 380 (snd (treePages ! 1)), nodeFields True False 2)"
    "indexPage treeFile 2 = Inr (padTo 380 (snd (treePages ! 2)), nodeFields False True 1)"
    "indexPage treeFile 3 = Inr (padTo 380 (snd (treePages ! 3)), nodeFields False True 2)"
    using tree_page [of 1 True False 2] tree_page [of 2 False True 1] tree_page [of 3 False True 2] by (simp_all add: treePages_def)
  have low: "indexTree treeFile compareInt32Keys ?v 1 2 [int32Entry 1]"
    by (rule indexTree.leaf [OF pages(2)])
      (simp, simp add: treePages_def tree_entries, simp_all add: entriesInOrder_def int32Entry_def)
  have high: "indexTree treeFile compareInt32Keys ?v 1 3 [int32Entry 5, int32Entry 7]"
    by (rule indexTree.leaf [OF pages(3)])
      (simp, simp add: treePages_def tree_entries, simp_all add: entriesInOrder_def int32Entry_def tree_keys)
  have "indexTree treeFile compareInt32Keys ?v (Suc 1) 1 (concat [[int32Entry 1], [int32Entry 5, int32Entry 7]])"
  proof (rule indexTree.node [OF pages(1)])
    show "readBTreeEntries (padTo 380 (snd (treePages ! 1))) (nodeFields True False 2) =
        Inr [\<lparr>Key = [0, 1, 0, 0, 0], PageNo = 2, ItemNo = 0\<rparr>, \<lparr>Key = [0, 5, 0, 0, 0], PageNo = 3, ItemNo = 0\<rparr>]"
      by (simp add: treePages_def tree_entries)
  qed (auto simp: low [simplified int32Entry_def, simplified] high [simplified int32Entry_def, simplified]
      entriesInOrder_def tree_keys less_Suc_eq int32Entry_def)
  then show ?thesis by (simp add: numeral_2_eq_2)
qed

definition sampleRoot :: indexRoot where
  "sampleRoot = \<lparr>irtPageNo = 1, irtHeader = nodeFields True False 2, irtKeySize = 5, irtName = [80], irtColumns = [[65]],
     irtPrimary = True, irtNoCase = False\<rparr>"

lemma primary_key_lookup_witness:
  "FindByPrimaryKey treeFile [sampleRoot] 7 = Inr (10, 7) \<and> FindByPrimaryKey treeFile [sampleRoot] 6 = Inl ErrKeyNotFound"
proof -
  have root: "PrimaryKeyIndex [sampleRoot] = Inr (rootInfo sampleRoot)" "iiRootPageNo (rootInfo sampleRoot) = 1"
    by (simp_all add: PrimaryKeyIndex_def rootInfo_def sampleRoot_def)
  have find: "FindByPrimaryKey treeFile [sampleRoot] key = (case find (\<lambda>e. Key e ! 0 = 0 \<and> sint (getU32 (Key e) 1) = key)
      [int32Entry 1, int32Entry 5, int32Entry 7] of Some e \<Rightarrow> Inr (PageNo e, ItemNo e) | None \<Rightarrow> Inl ErrKeyNotFound)"
    if "- (2 ^ 31) \<le> key" "key < 2 ^ 31" for key
    using primary_key_lookup [OF root(1) that, of treeFile 2] sampleTree root(2) by simp
  have keys: "sint (getU32 [0, 1, 0, 0, 0] 1) = 1" "sint (getU32 [0, 5, 0, 0, 0] 1) = 5" "sint (getU32 [0, 7, 0, 0, 0] 1) = 7"
    by (simp_all add: getU32_def slc_def)
  show ?thesis by (simp add: find int32Entry_def keys [unfolded One_nat_def])
qed

end
