(* ===== verification/Ripemd.thy ===== *)
theory Ripemd
  imports Prelude
begin

text \<open>
  The password hashes of \<open>internal/ripemd\<close>: RIPEMD-128 and RIPEMD-256. A digest is the byte
  list of the little endian chaining words; a message is processed in blocks of 64 bytes
  after the padding, by the two parallel lines of sixty-four steps.
\<close>

section \<open>The schedule\<close>

definition ripemd128RL :: "nat list" where
  "ripemd128RL =
    [0, 1, 2, 3, 4, 5, 6, 7, 8, 9, 10, 11, 12, 13, 14, 15,
     7, 4, 13, 1, 10, 6, 15, 3, 12, 0, 9, 5, 2, 14, 11, 8,
     3, 10, 14, 4, 9, 15, 8, 1, 2, 7, 0, 6, 13, 11, 5, 12,
     1, 9, 11, 10, 0, 8, 12, 4, 13, 3, 7, 15, 14, 5, 6, 2]"

definition ripemd128RR :: "nat list" where
  "ripemd128RR =
    [5, 14, 7, 0, 9, 2, 11, 4, 13, 6, 15, 8, 1, 10, 3, 12,
     6, 11, 3, 7, 0, 13, 5, 10, 14, 15, 8, 12, 4, 9, 1, 2,
     15, 5, 1, 3, 7, 14, 6, 9, 11, 8, 12, 2, 10, 0, 4, 13,
     8, 6, 4, 1, 3, 11, 15, 0, 5, 12, 2, 13, 9, 7, 10, 14]"

definition ripemd128SL :: "nat list" where
  "ripemd128SL =
    [11, 14, 15, 12, 5, 8, 7, 9, 11, 13, 14, 15, 6, 7, 9, 8,
     7, 6, 8, 13, 11, 9, 7, 15, 7, 12, 15, 9, 11, 7, 13, 12,
     11, 13, 6, 7, 14, 9, 13, 15, 14, 8, 13, 6, 5, 12, 7, 5,
     11, 12, 14, 15, 14, 15, 9, 8, 9, 14, 5, 6, 8, 6, 5, 12]"

definition ripemd128SR :: "nat list" where
  "ripemd128SR =
    [8, 9, 9, 11, 13, 15, 15, 5, 7, 7, 8, 11, 14, 14, 12, 6,
     9, 13, 15, 7, 12, 8, 9, 11, 7, 7, 12, 7, 6, 15, 13, 11,
     9, 7, 15, 11, 8, 6, 6, 14, 12, 13, 5, 14, 13, 13, 7, 5,
     15, 5, 8, 11, 14, 14, 6, 14, 6, 9, 12, 9, 12, 5, 15, 8]"

lemmas ripemd_tables = ripemd128RL_def ripemd128RR_def ripemd128SL_def ripemd128SR_def

section \<open>One step\<close>

type_synonym line = "u32 \<times> u32 \<times> u32 \<times> u32"

text \<open>The round functions and constants of step \<open>j\<close>, left line then right line.\<close>

definition ripemd256Round ::
    "nat \<Rightarrow> u32 \<Rightarrow> u32 \<Rightarrow> u32 \<Rightarrow> u32 \<Rightarrow> u32 \<Rightarrow> u32 \<Rightarrow> u32 \<times> u32 \<times> u32 \<times> u32" where
  "ripemd256Round j bl cl dl br cr dr =
     (let k = j div 16 in
      if k = 0 then
        (bl XOR cl XOR dl, (br AND dr) OR (cr AND NOT dr), 0x00000000, 0x50A28BE6)
      else if k = 1 then
        ((bl AND cl) OR (NOT bl AND dl), (br OR NOT cr) XOR dr, 0x5A827999, 0x5C4DD124)
      else if k = 2 then
        ((bl OR NOT cl) XOR dl, (br AND cr) OR (NOT br AND dr), 0x6ED9EBA1, 0x6D703EF3)
      else
        ((bl AND dl) OR (cl AND NOT dl), br XOR cr XOR dr, 0x8F1BBCDC, 0x00000000))"

text \<open>The body of the loop of \<open>ripemd128Block\<close>; the working words rotate places.\<close>

definition ripemd128Step :: "u32 list \<Rightarrow> line \<times> line \<Rightarrow> nat \<Rightarrow> line \<times> line" where
  "ripemd128Step x = (\<lambda>((al, bl, cl, dl), (ar, br, cr, dr)) j.
     (case ripemd256Round j bl cl dl br cr dr of (fl, fr, kl, kr) \<Rightarrow>
        let tl = word_rotl (ripemd128SL ! j) (al + fl + x ! (ripemd128RL ! j) + kl);
            tr = word_rotl (ripemd128SR ! j) (ar + fr + x ! (ripemd128RR ! j) + kr) in
        ((dl, tl, bl, cl), (dr, tr, br, cr))))"

definition ripemd128Block :: "u32 list \<Rightarrow> line \<Rightarrow> line \<times> line" where
  "ripemd128Block x h = foldl (ripemd128Step x) (h, h) [0..<64]"

text \<open>RIPEMD-256 swaps one working word between the lines after every round.\<close>

definition ripemd256Swap :: "nat \<Rightarrow> line \<times> line \<Rightarrow> line \<times> line" where
  "ripemd256Swap j = (\<lambda>((al, bl, cl, dl), (ar, br, cr, dr)).
     if j = 15 then ((ar, bl, cl, dl), (al, br, cr, dr))
     else if j = 31 then ((al, br, cl, dl), (ar, bl, cr, dr))
     else if j = 47 then ((al, bl, cr, dl), (ar, br, cl, dr))
     else if j = 63 then ((al, bl, cl, dr), (ar, br, cr, dl))
     else ((al, bl, cl, dl), (ar, br, cr, dr)))"

definition addLine :: "line \<Rightarrow> line \<Rightarrow> line" where
  "addLine = (\<lambda>(h0, h1, h2, h3) (a, b, c, d). (h0 + a, h1 + b, h2 + c, h3 + d))"

definition ripemd256Block :: "u32 list \<Rightarrow> line \<times> line \<Rightarrow> line \<times> line" where
  "ripemd256Block x = (\<lambda>(hl, hr).
     (case foldl (\<lambda>s j. ripemd256Swap j (ripemd128Step x s j)) (hl, hr) [0..<64] of
        (l, r) \<Rightarrow> (addLine hl l, addLine hr r)))"

section \<open>Padding and the message loop\<close>

definition ripemdPadLen :: "nat \<Rightarrow> nat" where
  "ripemdPadLen msgLen = (let padLen = 64 - (msgLen + 9) mod 64 in if padLen = 64 then 0 else padLen)"

definition ripemd128Pad :: "byte list \<Rightarrow> byte list" where
  "ripemd128Pad data =
     data @ 0x80 # replicate (ripemdPadLen (length data)) 0
       @ putUintLE 8 (length data * 8 mod 2 ^ 64)"

definition ripemd256Pad :: "byte list \<Rightarrow> byte list" where
  "ripemd256Pad data =
     (let msgLen = length data in
      data @ [0x80] @ replicate (ripemdPadLen msgLen) 0 @ putUintLE 8 (msgLen * 8 mod 2 ^ 64))"

text \<open>The two copies of the padding in the package do the same.\<close>

lemma ripemd256Pad_eq: "ripemd256Pad data = ripemd128Pad data"
  by (simp add: ripemd256Pad_def ripemd128Pad_def Let_def)

lemma padding_mod: "(n + (64 - (n + 9) mod 64) + 9) mod 64 = (0 :: nat)"
  by presburger

lemma padded_mod: "(n + ripemdPadLen n + 9) mod 64 = 0"
proof (cases "(n + 9) mod 64 = 0")
  case True
  then show ?thesis by (simp add: ripemdPadLen_def)
next
  case False
  then have "ripemdPadLen n = 64 - (n + 9) mod 64" by (simp add: ripemdPadLen_def Let_def)
  then show ?thesis by (metis padding_mod)
qed

text \<open>The padded message is a whole number of blocks, so no slice of the loop is short.\<close>

lemma length_ripemd128Pad: "length (ripemd128Pad data) mod 64 = 0"
  using padded_mod [of "length data"] by (simp add: ripemd128Pad_def ac_simps)

definition blockWords :: "byte list \<Rightarrow> nat \<Rightarrow> u32 list" where
  "blockWords padded i = map (\<lambda>j. getU32 padded (i + j * 4)) [0..<16]"

definition blockStarts :: "byte list \<Rightarrow> nat list" where
  "blockStarts padded = map (\<lambda>k. k * 64) [0..<length padded div 64]"

definition mixLines :: "line \<Rightarrow> line \<times> line \<Rightarrow> line" where
  "mixLines = (\<lambda>(h0, h1, h2, h3) ((al, bl, cl, dl), (ar, br, cr, dr)).
     (h1 + cl + dr, h2 + dl + ar, h3 + al + br, h0 + bl + cr))"

definition lineBytes :: "line \<Rightarrow> byte list" where
  "lineBytes = (\<lambda>(a, b, c, d). leU32 a @ leU32 b @ leU32 c @ leU32 d)"

definition Sum128 :: "byte list \<Rightarrow> byte list" where
  "Sum128 data =
     (let padded = ripemd128Pad data in
      lineBytes (foldl (\<lambda>h i. mixLines h (ripemd128Block (blockWords padded i) h))
        (0x67452301, 0xefcdab89, 0x98badcfe, 0x10325476) (blockStarts padded)))"

definition Sum256 :: "byte list \<Rightarrow> byte list" where
  "Sum256 data =
     (let padded = ripemd256Pad data in
      (case foldl (\<lambda>h i. ripemd256Block (blockWords padded i) h)
         ((0x67452301, 0xEFCDAB89, 0x98BADCFE, 0x10325476),
          (0x76543210, 0xFEDCBA98, 0x89ABCDEF, 0x01234567)) (blockStarts padded) of
         (l, r) \<Rightarrow> lineBytes l @ lineBytes r))"

lemma length_lineBytes [simp]: "length (lineBytes h) = 16"
  by (cases h) (simp add: lineBytes_def leU32_def)

lemma length_Sum128 [simp]: "length (Sum128 data) = 16"
  by (simp add: Sum128_def Let_def)

lemma length_Sum256 [simp]: "length (Sum256 data) = 32"
  by (simp add: Sum256_def Let_def split: prod.splits)

text \<open>
  Every slice the loop takes lies inside the padded message: \<open>x[j]\<close> is four bytes of the
  block that starts at \<open>i\<close>.
\<close>

lemma blockStarts_in_range:
  assumes "i \<in> set (blockStarts (ripemd128Pad data))" and "j < 16"
  shows "i + j * 4 + 4 \<le> length (ripemd128Pad data)"
proof -
  obtain k where "i = k * 64" "k < length (ripemd128Pad data) div 64"
    using assms(1) by (auto simp: blockStarts_def)
  then show ?thesis using assms(2) by simp
qed

end
