(* ===== verification/Unlocking.thy ===== *)
theory Unlocking
  imports Disk Ripemd
begin

text \<open>
  Opening an encrypted file, the part of \<open>crypto.go\<close> between the password and the page
  cipher: the key is the truncated digest of the password, the control block of the crypto
  header tells a wrong password from the right one, and \<open>Unlock\<close> installs the key the page
  reader and the page writer then use. A password is its byte list.
\<close>

section \<open>Algorithm names\<close>

definition algorithmNames :: "string list" where
  "algorithmNames =
     [''Rijndael-128'', ''Rijndael-256'', ''DES-Single'', ''DES-Triple'',
      ''Blowfish'', ''Twofish-128'', ''Twofish-256'', ''Square'']"

fun decimal :: "nat \<Rightarrow> string" where
  "decimal n = (if n < 10 then [char_of (48 + n)] else decimal (n div 10) @ [char_of (48 + n mod 10)])"

declare decimal.simps [simp del]

definition algorithmString :: "byte \<Rightarrow> string" where
  "algorithmString a =
     (if length algorithmNames \<le> unat a then ''CryptoAlgorithm('' @ decimal (unat a) @ '')''
      else algorithmNames ! unat a)"

section \<open>Keys\<close>

text \<open>
  \<open>deriveKey\<close>: \<open>None\<close> is the nil slice it returns for an algorithm it does not know. The
  specification of \<open>cipherSpecs\<close> does not depend on the library, only its constructor does.
\<close>

definition deriveKey :: "cipherLib \<Rightarrow> byte \<Rightarrow> byte list \<Rightarrow> byte list option" where
  "deriveKey lib algo password =
     (case cipherSpecs lib algo of
        None \<Rightarrow> None
      | Some (h, keySize, newBlock) \<Rightarrow>
          if h = hashRipeMD256 then Some (take keySize (Sum256 password))
          else Some (take keySize (Sum128 password)))"

text \<open>\<open>len(key)\<close> and \<open>key\<close> of a nil slice are those of the empty one.\<close>

definition keyBytes :: "byte list option \<Rightarrow> byte list" where
  "keyBytes k = (case k of None \<Rightarrow> [] | Some bs \<Rightarrow> bs)"

definition checkPassword :: "'a dbfile_scheme \<Rightarrow> byte list \<Rightarrow> unit result" where
  "checkPassword db password =
     (case (dbEncrypted db, cryptoHeader db) of
        (True, Some ch) \<Rightarrow>
          if Mode ch \<noteq> cryptoModeCTS then Inl ErrUnsupportedCipherMode
          else bindR (newCipherBlock (cipherlib db) (Algorithm ch)
                       (keyBytes (deriveKey (cipherlib db) (Algorithm ch) password)))
            (\<lambda>block.
               if absCRC32 (decryptCTS block (ControlBlock ch)) \<noteq> ControlCRC ch
               then Inl ErrWrongPassword else Inr ())
      | _ \<Rightarrow> Inr ())"

definition VerifyPassword :: "'a dbfile_scheme \<Rightarrow> byte list \<Rightarrow> bool" where
  "VerifyPassword db password \<longleftrightarrow>
     dbEncrypted db \<and> cryptoHeader db \<noteq> None \<and> checkPassword db password = Inr ()"

definition Unlock :: "'a dbfile_scheme \<Rightarrow> byte list \<Rightarrow> 'a dbfile_scheme result" where
  "Unlock db password =
     (case (dbEncrypted db, cryptoHeader db) of
        (True, Some ch) \<Rightarrow>
          bindR (checkPassword db password)
            (\<lambda>_. Inr (db\<lparr>decryptionKey := deriveKey (cipherlib db) (Algorithm ch) password\<rparr>))
      | _ \<Rightarrow> Inr db)"

text \<open>\<open>OpenWithPassword\<close>: a file whose password is refused is not opened.\<close>

definition OpenWithPassword :: "cipherLib \<Rightarrow> byte list \<Rightarrow> byte list \<Rightarrow> dbfile result" where
  "OpenWithPassword lib d password = bindR (parseHeader lib False d) (\<lambda>db. Unlock db password)"

section \<open>What the derived key is good for\<close>

lemma cipherSpecs_cases:
  assumes "cipherSpecs lib algo = Some (h, keySize, newBlock)"
  shows "(h = hashRipeMD128 \<longrightarrow> keySize \<le> 16) \<and> (h = hashRipeMD256 \<longrightarrow> keySize \<le> 32)"
  using assms by (simp add: cipherSpecs_def split: if_splits)

text \<open>
  No slice of a digest is out of range, and the derived key always has the size the cipher
  asks for: the key-length error of \<open>newCipherBlock\<close> is unreachable from a password.
\<close>

lemma length_deriveKey:
  assumes "cipherSpecs lib algo = Some (h, keySize, newBlock)"
  shows "length (keyBytes (deriveKey lib algo password)) = keySize"
proof (cases h)
  case hashRipeMD128
  then show ?thesis using assms cipherSpecs_cases [OF assms] by (simp add: deriveKey_def keyBytes_def)
next
  case hashRipeMD256
  then show ?thesis using assms cipherSpecs_cases [OF assms] by (simp add: deriveKey_def keyBytes_def)
qed

lemma newCipherBlock_derived:
  "newCipherBlock lib algo (keyBytes (deriveKey lib algo password)) =
     (case cipherSpecs lib algo of
        None \<Rightarrow> Inl ErrUnsupportedCipher
      | Some (h, keySize, newBlock) \<Rightarrow> newBlock (keyBytes (deriveKey lib algo password)))"
proof (cases "cipherSpecs lib algo")
  case (Some s)
  then show ?thesis
    using length_deriveKey [of lib algo "fst s" "fst (snd s)" "snd (snd s)" password]
    by (simp add: newCipherBlock_def split: prod.splits)
qed (simp add: newCipherBlock_def)

section \<open>Unlocking\<close>

lemma Unlock_plain:
  "\<not> dbEncrypted db \<or> cryptoHeader db = None \<Longrightarrow> Unlock db password = Inr db"
  by (auto simp: Unlock_def split: bool.splits option.splits)

text \<open>
  A successful \<open>Unlock\<close> leaves a file whose page cipher exists: the cipher the control block
  was decrypted with is the one every page is read and written with.
\<close>

lemma Unlock_cipher:
  assumes "Unlock db password = Inr db'" "dbEncrypted db" "cryptoHeader db = Some ch"
  obtains c where "payloadCipher db' = Inr c"
    and "absCRC32 (decryptCTS c (ControlBlock ch)) = ControlCRC ch"
    and "db' = db\<lparr>decryptionKey := deriveKey (cipherlib db) (Algorithm ch) password\<rparr>"
proof -
  let ?k = "deriveKey (cipherlib db) (Algorithm ch) password"
  let ?b = "newCipherBlock (cipherlib db) (Algorithm ch) (keyBytes ?k)"
  have db': "db' = db\<lparr>decryptionKey := ?k\<rparr>" and ok: "checkPassword db password = Inr ()"
    using assms by (auto simp: Unlock_def bindR_def split: sum.splits)
  from ok assms(2,3) obtain c where c: "?b = Inr c" and mode: "Mode ch = cryptoModeCTS"
    and crc: "absCRC32 (decryptCTS c (ControlBlock ch)) = ControlCRC ch"
    by (auto simp: checkPassword_def bindR_def split: if_splits sum.splits)
  have "payloadCipher db' = ?b"
    using mode assms(3) by (simp add: db' payloadCipher_def keyBytes_def)
  then show thesis using that c crc db' by simp
qed

text \<open>\<open>VerifyPassword\<close> and \<open>Unlock\<close> agree on an encrypted file.\<close>

lemma VerifyPassword_iff_Unlock:
  assumes "dbEncrypted db" "cryptoHeader db = Some ch"
  shows "VerifyPassword db password \<longleftrightarrow> (\<exists>db'. Unlock db password = Inr db')"
  using assms by (cases "checkPassword db password") (simp_all add: VerifyPassword_def Unlock_def bindR_def)

text \<open>\<open>Unlock\<close> changes the key only, never the file.\<close>

lemma Unlock_disk: "Unlock db password = Inr db' \<Longrightarrow> disk db' = disk db"
  by (auto simp: Unlock_def bindR_def split: sum.splits bool.splits option.splits)

end
