(* ===== verification/Writer_Steps.thy ===== *)
theory Writer_Steps
  imports Writer_Ops Drop_Props
begin

text \<open>
  How the operations of a table writer move from one state to the next. The locale \<open>step_rel\<close> composes
  relations between the states before and after an operation, on the paths that fail too; \<open>calm\<close> is
  the one all reading, checking and index maintenance keep: the file, the records on the data pages and
  the counts of changes stay what they are.
\<close>

section \<open>Relations kept by operations\<close>

locale step_rel =
  fixes R :: "'s \<Rightarrow> 's \<Rightarrow> bool"
  assumes trans: "R a b \<Longrightarrow> R b c \<Longrightarrow> R a c"
    and again: "R a b \<Longrightarrow> R b b"
begin

lemma bind:
  assumes "R w (snd (m w))" and "\<And>x w'. m w = (Inr x, w') \<Longrightarrow> R w w' \<Longrightarrow> R w' (snd (f x w'))"
  shows "R w (snd (bindO m f w))"
proof (cases "m w")
  case (Pair r w')
  show ?thesis
  proof (cases r)
    case (Inl e)
    then show ?thesis using assms(1) Pair by (simp add: bindO_def)
  next
    case (Inr x)
    then have "R w w'" and "R w' (snd (f x w'))" using assms Pair by auto
    then show ?thesis using Pair Inr trans by (auto simp: bindO_def)
  qed
qed

lemma bind_free: "R w w \<Longrightarrow> (\<And>x. m w = (Inr x, w) \<Longrightarrow> R w (snd (f x w))) \<Longrightarrow> snd (m w) = w \<Longrightarrow> R w (snd (bindO m f w))"
  by (rule bind) (metis snd_conv)+

lemma loop: "R w w \<Longrightarrow> (\<And>x w'. x \<in> set xs \<Longrightarrow> R w w' \<Longrightarrow> R w' (snd (f x w'))) \<Longrightarrow> R w (snd (forO xs f w))"
proof (induction xs arbitrary: w)
  case (Cons x xs)
  have "R w (snd (f x w))" using Cons.prems by simp
  then have "R w (snd (bindO (f x) (\<lambda>_. forO xs f) w))"
  proof (rule bind)
    fix u w' assume w': "R w w'"
    show "R w' (snd (forO xs f w'))"
    proof (rule Cons.IH)
      show "R w' w'" by (rule again [OF w'])
      fix y v assume "y \<in> set xs" and "R w' v"
      then show "R v (snd (f y v))" using Cons.prems(2) [of y v] trans [OF w'] by simp
    qed
  qed
  then show ?case by simp
qed simp

lemma map_loop: "R w w \<Longrightarrow> (\<And>x w'. x \<in> set xs \<Longrightarrow> R w w' \<Longrightarrow> R w' (snd (f x w'))) \<Longrightarrow> R w (snd (mapO f xs w))"
proof (induction xs arbitrary: w)
  case (Cons x xs)
  have "R w (snd (f x w))" using Cons.prems by simp
  then have "R w (snd (bindO (f x) (\<lambda>y. bindO (mapO f xs) (\<lambda>ys. retO (y # ys))) w))"
  proof (rule bind)
    fix y w' assume w': "R w w'"
    have "R w' (snd (mapO f xs w'))"
    proof (rule Cons.IH)
      show "R w' w'" by (rule again [OF w'])
      fix y v assume "y \<in> set xs" and "R w' v"
      then show "R v (snd (f y v))" using Cons.prems(2) [of y v] trans [OF w'] by simp
    qed
    then show "R w' (snd (bindO (mapO f xs) (\<lambda>ys. retO (y # ys)) w'))"
      by (rule bind) (use again in auto)
  qed
  then show ?case by simp
qed simp

end

lemma mapO_results:
  assumes "\<And>x w y w'. x \<in> set xs \<Longrightarrow> f x w = (Inr y, w') \<Longrightarrow> Q y" and "mapO f xs w = (Inr ys, w')"
  shows "\<forall>y \<in> set ys. Q y"
  using assms
proof (induction xs arbitrary: w ys w')
  case (Cons x xs)
  then obtain y w1 zs w2 where "f x w = (Inr y, w1)" "mapO f xs w1 = (Inr zs, w2)" "ys = y # zs"
    by (auto elim!: bindO_InrE)
  moreover have "\<forall>z \<in> set zs. Q z" by (rule Cons.IH [OF _ calculation(2)]) (use Cons.prems(1) in auto)
  ultimately show ?case using Cons.prems(1) [of x w y w1] by simp
qed simp

section \<open>A writer in order\<close>

text \<open>The indexes the schema names are rooted outside the table's data pages.\<close>

definition indexesApart :: "wenv \<Rightarrow> tableWriter \<Rightarrow> bool" where
  "indexesApart e w \<longleftrightarrow> (\<forall>records constraints. tableSchemaTail e w = Inr (records, constraints) \<longrightarrow>
     (\<forall>r \<in> set records. \<not> isDataPage (sint (rootPageNo r)) w))"

definition writer_ok :: "wenv \<Rightarrow> tableWriter \<Rightarrow> bool" where
  "writer_ok e w \<longleftrightarrow> edit_ok w \<and> \<not> wGone w \<and> indexesApart e w
     \<and> (\<forall>idxs. wIndexes w = Some (Inr idxs) \<longrightarrow> (\<forall>i \<in> set idxs. \<not> isDataPage (miRootPageNo i) w))"

text \<open>The file and the table a writer works on are the same.\<close>

definition same_table :: "tableWriter \<Rightarrow> tableWriter \<Rightarrow> bool" where
  "same_table w w' \<longleftrightarrow> edDb w' = edDb w \<and> wTable w' = wTable w \<and> wLayout w' = wLayout w \<and> wDataPages w' = wDataPages w"

definition calm :: "wenv \<Rightarrow> tableWriter \<Rightarrow> tableWriter \<Rightarrow> bool" where
  "calm e w w' \<longleftrightarrow> writer_ok e w' \<and> same_table w w' \<and> wDelta w' = wDelta w
     \<and> dom (edPages w) \<subseteq> dom (edPages w')
     \<and> (\<forall>no \<in> set (wDataPages w). editPayload w' no = editPayload w no)"

interpretation calm: step_rel "calm e" for e
proof unfold_locales
  show "calm e a b \<Longrightarrow> calm e b c \<Longrightarrow> calm e a c" for a b c
    using subset_trans [of "dom (edPages a)" "dom (edPages b)" "dom (edPages c)"] by (simp add: calm_def same_table_def)
  show "calm e a b \<Longrightarrow> calm e b b" for a b
    by (simp add: calm_def same_table_def)
qed

lemma calm_refl [simp]: "calm e w w = writer_ok e w"
  by (simp add: calm_def same_table_def)

lemma calm_ok [elim]: "calm e w w' \<Longrightarrow> writer_ok e w'"
  by (simp add: calm_def)

lemma isDataPage_same: "same_table w w' \<Longrightarrow> isDataPage no w' = isDataPage no w"
  by (simp add: isDataPage_def same_table_def)

lemma tableSchemaTail_same: "same_table w w' \<Longrightarrow> tableSchemaTail e w' = tableSchemaTail e w"
  by (simp add: tableSchemaTail_def same_table_def)

lemma indexesApart_same: "same_table w w' \<Longrightarrow> indexesApart e w' = indexesApart e w"
  by (simp add: indexesApart_def tableSchemaTail_same isDataPage_same)

lemma writer_okI:
  "writer_ok e w \<Longrightarrow> same_table w w' \<Longrightarrow> edit_ok w' \<Longrightarrow> \<not> wGone w' \<Longrightarrow> wIndexes w' = wIndexes w \<Longrightarrow> writer_ok e w'"
  by (simp add: writer_ok_def indexesApart_same isDataPage_same)

lemma putBuf_writer [simp]:
  "wTable (putBuf k b w) = wTable w" "wLayout (putBuf k b w) = wLayout w" "wDataPages (putBuf k b w) = wDataPages w"
  "wDelta (putBuf k b w) = wDelta w" "wIndexes (putBuf k b w) = wIndexes w" "wGone (putBuf k b w) = wGone w"
  "wTouched (putBuf k b w) = wTouched w" "wClosed (putBuf k b w) = wClosed w" "wChecks (putBuf k b w) = wChecks w"
  "wAutoInc (putBuf k b w) = wAutoInc w"
  by (simp_all add: putBuf_def)

section \<open>Loading\<close>

lemma load_writer:
  assumes "load no w = (r, w')"
  shows "wTable w' = wTable w \<and> wLayout w' = wLayout w \<and> wDataPages w' = wDataPages w \<and> wDelta w' = wDelta w
    \<and> wIndexes w' = wIndexes w \<and> wGone w' = wGone w"
  using assms by (auto simp: load_def loadWith_alt split: if_splits sum.splits)

lemma writerLoadPage_calm:
  assumes "writer_ok e w"
  shows "calm e w (snd (writerLoadPage no w))"
proof (cases "load no w")
  case (Pair r w')
  have ok: "edit_ok w" and gone: "\<not> wGone w" using assms by (simp_all add: writer_ok_def)
  show ?thesis
  proof (cases r)
    case (Inl er)
    then have "w' = w" using load_failed [of load no w er w'] Pair by simp
    then show ?thesis using Pair gone assms by (simp add: writerLoadPage_def)
  next
    case (Inr k)
    note spec = load_spec [OF ok loader_intros(1) Pair [unfolded Inr]]
    have same: "same_table w w'" using load_writer [OF Pair] spec(4) by (simp add: same_table_def)
    have "writer_ok e w'" using writer_okI [OF assms same] spec(5) load_writer [OF Pair] gone by simp
    then show ?thesis using Pair gone same load_writer [OF Pair] spec(7,9) by (auto simp: writerLoadPage_def calm_def)
  qed
qed

lemma writerLoadPage_result:
  assumes "writer_ok e w" and "writerLoadPage no w = (Inr k, w')"
  shows "k = nat no" and "0 \<le> no" and "k \<in> dom (edPages w')" and "calm e w w'"
proof -
  have run: "load no w = (Inr k, w')" and ok: "edit_ok w"
    using assms by (auto simp: writerLoadPage_def writer_ok_def split: if_splits sum.splits)
  note spec = load_spec [OF ok loader_intros(1) run]
  show "k = nat no" "0 \<le> no" "k \<in> dom (edPages w')" using spec(1,2,6) by auto
  show "calm e w w'" using writerLoadPage_calm [OF assms(1), of no] assms(2) by simp
qed

lemma dataPage_result:
  assumes "writer_ok e w" and "dataPage no w = (Inr k, w')"
  shows "no = int k" and "k \<in> set (wDataPages w)" and "k \<in> dom (edPages w')" and "calm e w w'"
proof -
  have own: "isDataPage no w" and run: "writerLoadPage no w = (Inr k, w')"
    using assms(2) by (auto simp: dataPage_def split: if_splits)
  note res = writerLoadPage_result [OF assms(1) run]
  show "no = int k" "k \<in> set (wDataPages w)" using own res(1,2) by (auto simp: isDataPage_def)
  show "k \<in> dom (edPages w')" "calm e w w'" using res by auto
qed

lemma dataPage_calm: "writer_ok e w \<Longrightarrow> calm e w (snd (dataPage no w))"
  by (simp add: dataPage_def writerLoadPage_calm)

section \<open>Slots\<close>

definition slotAt :: "tableWriter \<Rightarrow> RecordID \<Rightarrow> nat \<Rightarrow> nat \<Rightarrow> bool" where
  "slotAt w rid k start \<longleftrightarrow> ridPage rid = int k \<and> k \<in> set (wDataPages w) \<and> k \<in> dom (edPages w)
     \<and> 0 \<le> ridSlot rid \<and> ridSlot rid < int (recsPerPage (wLayout w))
     \<and> start = slotOffset (wLayout w) (nat (ridSlot rid))
     \<and> start + recordSize (wLayout w) \<le> length (wPayload k w)"

lemma slot_calm: "writer_ok e w \<Longrightarrow> calm e w (snd (slot rid must w))"
proof -
  assume ok: "writer_ok e w"
  have "calm e w (snd (bindO (dataPage (ridPage rid)) (\<lambda>k. bindO (getO (wPayload k)) (\<lambda>p.
      let start = bitmapBytes (wLayout w) + nat (ridSlot rid) * recordSize (wLayout w) in
          if start + recordSize (wLayout w) > length p then failO ErrNoRecord
          else if must \<and> \<not> bitSet p (ridSlot rid) (bitmapBytes (wLayout w)) then failO ErrNoRecord
          else retO (k, start))) w))"
    by (rule calm.bind) (auto simp: dataPage_calm ok Let_def)
  then show ?thesis using ok by (simp add: slot_def)
qed

lemma slot_result:
  assumes "writer_ok e w" and "slot rid must w = (Inr (k, start), w')"
  shows "slotAt w' rid k start" and "must \<longrightarrow> bitSet (wPayload k w') (ridSlot rid) (bitmapBytes (wLayout w'))"
    and "calm e w w'"
proof -
  let ?l = "wLayout w"
  obtain k' w1 where load: "dataPage (ridPage rid) w = (Inr k', w1)"
    and rng: "0 \<le> ridSlot rid" "ridSlot rid < int (recsPerPage ?l)"
    and rest: "(let start = bitmapBytes ?l + nat (ridSlot rid) * recordSize ?l in
          if start + recordSize ?l > length (wPayload k' w1) then failO ErrNoRecord
          else if must \<and> \<not> bitSet (wPayload k' w1) (ridSlot rid) (bitmapBytes ?l) then failO ErrNoRecord
          else retO (k', start)) w1 = (Inr (k, start), w')"
    using assms(2) by (auto simp: slot_def not_less split: if_splits elim!: bindO_InrE)
  note res = dataPage_result [OF assms(1) load]
  have eq: "k' = k" "w1 = w'" "start = bitmapBytes ?l + nat (ridSlot rid) * recordSize ?l"
    "start + recordSize ?l \<le> length (wPayload k w')"
    "must \<longrightarrow> bitSet (wPayload k w') (ridSlot rid) (bitmapBytes ?l)"
    using rest by (auto simp: Let_def not_less split: if_splits)
  have "wLayout w' = ?l" "wDataPages w' = wDataPages w" using res(4) eq(2) by (simp_all add: calm_def same_table_def)
  then show "slotAt w' rid k start" "must \<longrightarrow> bitSet (wPayload k w') (ridSlot rid) (bitmapBytes (wLayout w'))" "calm e w w'"
    using res eq rng by (auto simp: slotAt_def slotOffset_def)
qed

lemma writerRecord_calm: "writer_ok e w \<Longrightarrow> calm e w (snd (writerRecord rid w))"
  unfolding writerRecord_def by (rule calm.bind) (auto simp: slot_calm split: prod.splits)

end
