(* ===== verification/Writer_Calm.thy ===== *)
theory Writer_Calm
  imports Writer_Steps
begin

text \<open>
  Resolving and maintaining indexes, checking constraints, and counting AUTOINC values leave the records
  and the file alone: every operation of \<open>Writer_Checks\<close> is a calm step.
\<close>

lemmas calm_free = calm.bind_free [where m = "getO f" for f, simplified] calm.bind_free [where m = "liftO r" for r, simplified]

section \<open>Editing an index page\<close>

lemma putPayload_ok:
  assumes "writer_ok e w" and "k \<in> dom (edPages w)" and "length p = length (wPayload k w)"
  shows "writer_ok e (snd (putPayload k p w))" and "same_table w (snd (putPayload k p w))"
    and "wDelta (snd (putPayload k p w)) = wDelta w" and "dom (edPages (snd (putPayload k p w))) = dom (edPages w)"
    and "editPayload (snd (putPayload k p w)) j = (if j = k then Inr p else editPayload w j)"
    and "wPayload j (snd (putPayload k p w)) = (if j = k then p else wPayload j w)"
proof -
  let ?b = "(setPayload p (bufAt k w))\<lparr>dirty := True\<rparr>"
  have run: "snd (putPayload k p w) = putBuf k ?b w" by (simp add: putPayload_def)
  have ok: "edit_ok w" using assms(1) by (simp add: writer_ok_def)
  have buf: "buf_ok (edDb w) (bufAt k w)" "bufNumber (bufAt k w) = k" using buf_ok_bufAt [OF ok assms(2)] by auto
  have long: "420 \<le> length (raw (bufAt k w))" by (rule length_raw [OF edit_okD(1) [OF ok] buf(1)])
  have ok': "edit_ok (putBuf k ?b w)"
    using buf long assms(3) by (intro edit_ok_putBuf ok assms(2)) (simp_all add: buf_ok_def wPayload_def)
  have same: "same_table w (putBuf k ?b w)" by (simp add: same_table_def)
  show "same_table w (snd (putPayload k p w))" "wDelta (snd (putPayload k p w)) = wDelta w"
    using same run by simp_all
  show "writer_ok e (snd (putPayload k p w))"
    unfolding run using writer_okI [OF assms(1) same ok'] assms(1) by (simp add: writer_ok_def)
  show "dom (edPages (snd (putPayload k p w))) = dom (edPages w)" using assms(2) run by auto
  show "editPayload (snd (putPayload k p w)) j = (if j = k then Inr p else editPayload w j)"
    unfolding run using long by (simp add: editPayload_def bufPayload_def setPayload_def layout_consts split: option.split)
  show "wPayload j (snd (putPayload k p w)) = (if j = k then p else wPayload j w)"
    using long run by (simp add: wPayload_def bufPayload_def setPayload_def layout_consts)
qed

lemma putPayload_calm:
  assumes "writer_ok e w" and "k \<in> dom (edPages w)" and "length p = length (wPayload k w)" and "k \<notin> set (wDataPages w)"
  shows "calm e w (snd (putPayload k p w))"
  using putPayload_ok [OF assms(1-3)] assms(4) by (auto simp: calm_def)

lemma writerIndexLeaf_calm: "writer_ok e w \<Longrightarrow> calm e w (snd (writerIndexLeaf idx w))"
  unfolding writerIndexLeaf_def
  by (rule calm.bind) (auto simp: writerLoadPage_calm Let_def split: sum.splits)

text \<open>A leaf the writer works on: a buffered page that is none of the table's data pages.\<close>

definition leafApart :: "tableWriter \<Rightarrow> indexLeaf \<Rightarrow> bool" where
  "leafApart w leaf \<longleftrightarrow> leafBuf leaf \<in> dom (edPages w) \<and> leafBuf leaf \<notin> set (wDataPages w)"

lemma leafApart_calm: "leafApart w leaf \<Longrightarrow> calm e w w' \<Longrightarrow> leafApart w' leaf"
  by (auto simp: leafApart_def calm_def same_table_def)

lemma writerIndexLeaf_result:
  assumes "writer_ok e w" and "writerIndexLeaf idx w = (Inr leaf, w')" and "\<not> isDataPage (miRootPageNo idx) w"
  shows "leafApart w' leaf"
proof -
  obtain k where load: "writerLoadPage (miRootPageNo idx) w = (Inr k, w')" and leaf: "leafBuf leaf = k"
    using assms(2) by (auto simp: writerIndexLeaf_def Let_def split: sum.splits if_splits elim!: bindO_InrE)
  note res = writerLoadPage_result [OF assms(1) load]
  then have "wDataPages w' = wDataPages w" by (simp add: calm_def same_table_def)
  then show ?thesis using res assms(3) leaf by (simp add: leafApart_def isDataPage_def)
qed

lemma length_leafInsert: "leafInsert lib l key rid p = Inr p' \<Longrightarrow> length p' = length p"
  by (auto simp: leafInsert_def Let_def setCount_def)

lemma length_leafRemove: "leafRemove l rid p = Inr p' \<Longrightarrow> length p' = length p"
  by (auto simp: leafRemove_def Let_def setCount_def split: option.splits)

lemma editLeaf_calm:
  assumes "writer_ok e w" and "leafApart w leaf" and "\<And>p p'. f p = Inr p' \<Longrightarrow> length p' = length p"
  shows "calm e w (snd (editLeaf leaf f w))"
proof (cases "f (wPayload (leafBuf leaf) w)")
  case (Inl er)
  then show ?thesis using assms(1) by (simp add: editLeaf_def)
next
  case (Inr p)
  have "calm e w (snd (putPayload (leafBuf leaf) p w))"
    using assms(2,3) Inr by (intro putPayload_calm assms(1)) (auto simp: leafApart_def)
  then show ?thesis using Inr by (simp add: editLeaf_def)
qed

section \<open>Resolving the indexes\<close>

lemma describeIndex_calm: "writer_ok e w \<Longrightarrow> calm e w (snd (describeIndex e rec w))"
proof -
  assume ok: "writer_ok e w"
  have "calm e w (snd (bindO (writerIndexLeaf idx) (\<lambda>_. retO idx) w))" for idx
    by (rule calm.bind) (auto simp: writerIndexLeaf_calm ok)
  then show ?thesis using ok by (auto simp: describeIndex_def Let_def bindO_def liftO_def split: sum.splits)
qed

lemma describeIndex_root: "describeIndex e rec w = (Inr idx, w') \<Longrightarrow> miRootPageNo idx = sint (rootPageNo rec)"
  by (auto simp: describeIndex_def Let_def elim!: bindO_InrE)

lemma discoverIndexes_calm: "writer_ok e w \<Longrightarrow> calm e w (snd (discoverIndexes e tl' w))"
proof -
  assume ok: "writer_ok e w"
  have "calm e w (snd (mapO (describeIndex e) records w))" for records
    using ok by (intro calm.map_loop) (auto intro: describeIndex_calm dest: calm_ok)
  then show ?thesis
    using ok by (auto simp: discoverIndexes_def Let_def bindO_def liftO_def split: sum.splits)
qed

lemma discoverIndexes_roots:
  assumes "discoverIndexes e (Inr (records, constraints)) w = (Inr idxs, w')" and "\<forall>r \<in> set records. \<not> isDataPage (sint (rootPageNo r)) w"
  shows "\<forall>i \<in> set idxs. \<not> isDataPage (miRootPageNo i) w"
proof -
  have "idxs = [] \<or> (mapO (describeIndex e) records w = (Inr idxs, w'))"
    using assms(1) by (auto simp: discoverIndexes_def Let_def split: if_splits elim!: bindO_InrE)
  then show ?thesis
  proof
    assume run: "mapO (describeIndex e) records w = (Inr idxs, w')"
    show ?thesis by (rule mapO_results [OF _ run]) (metis assms(2) describeIndex_root)
  qed simp
qed

lemma discoverIndexes_no_tail: "discoverIndexes e (Inl er) w = (Inr idxs, w') \<Longrightarrow> idxs = []"
  by (auto simp: discoverIndexes_def Let_def split: if_splits elim!: bindO_InrE)

text \<open>The memoised parts of the state are free to change, an index list when it is apart.\<close>

lemma calm_memo:
  assumes "calm e w w'" and "edDb v = edDb w'" "edPages v = edPages w'" "edOrder v = edOrder w'" "wTable v = wTable w'"
    "wLayout v = wLayout w'" "wDataPages v = wDataPages w'" "wDelta v = wDelta w'" "wGone v = wGone w'"
    and "\<forall>idxs. wIndexes v = Some (Inr idxs) \<longrightarrow> (\<forall>i \<in> set idxs. \<not> isDataPage (miRootPageNo i) w')"
  shows "calm e w v"
proof -
  have t: "same_table w' v" using assms(2,5-7) by (simp add: same_table_def)
  have "edit_ok v" using assms(1-4) by (simp add: calm_def writer_ok_def edit_ok_def)
  then have "writer_ok e v"
    using assms(1,9,10) t by (simp add: calm_def writer_ok_def indexesApart_same [OF t] isDataPage_same [OF t])
  moreover have "editPayload v no = editPayload w' no" for no
    unfolding editPayload_def using assms(2,3) by (simp split: option.split)
  ultimately show ?thesis using assms(1-8) by (simp add: calm_def same_table_def)
qed

lemma wChecks_calm: "calm e w w' \<Longrightarrow> calm e w (w'\<lparr>wChecks := c\<rparr>)"
  by (rule calm_memo [where w' = w']) (auto simp: calm_def writer_ok_def)

lemma resolveIndexes_calm: "writer_ok e w \<Longrightarrow> calm e w (snd (resolveIndexes e w))"
proof -
  assume ok: "writer_ok e w"
  let ?t = "tableSchemaTail e w"
  have "calm e w (snd (bindO (discoverIndexes e ?t) (\<lambda>indexes.
     case ?t of Inl _ \<Rightarrow> retO indexes
     | Inr (_, constraints) \<Rightarrow>
         bindO (getO (\<lambda>w. columns (wLayout w))) (\<lambda>cols.
         bindO (liftO (newConstraintChecks e indexes cols constraints \<lparr>ckNotNull = [], ckBounds = []\<rparr>)) (\<lambda>checks.
         bindO (modO (\<lambda>w. w\<lparr>wChecks := checks\<rparr>)) (\<lambda>_. retO indexes)))) w))"
  proof (rule calm.bind)
    show "calm e w (snd (discoverIndexes e ?t w))" by (rule discoverIndexes_calm [OF ok])
    fix idxs w' assume "calm e w w'"
    then have "calm e w' w'" by (simp add: calm_ok)
    then show "calm e w' (snd ((case ?t of Inl _ \<Rightarrow> retO idxs
     | Inr (_, constraints) \<Rightarrow>
         bindO (getO (\<lambda>w. columns (wLayout w))) (\<lambda>cols.
         bindO (liftO (newConstraintChecks e idxs cols constraints \<lparr>ckNotNull = [], ckBounds = []\<rparr>)) (\<lambda>checks.
         bindO (modO (\<lambda>w. w\<lparr>wChecks := checks\<rparr>)) (\<lambda>_. retO idxs)))) w'))"
      using wChecks_calm by (auto simp: bindO_def liftO_def split: sum.splits prod.splits)
  qed
  then show ?thesis by (simp add: resolveIndexes_def)
qed

lemma resolveIndexes_roots:
  assumes "writer_ok e w" and "resolveIndexes e w = (Inr idxs, w')"
  shows "\<forall>i \<in> set idxs. \<not> isDataPage (miRootPageNo i) w"
proof -
  obtain w1 where run: "discoverIndexes e (tableSchemaTail e w) w = (Inr idxs, w1)"
    using assms(2) by (auto simp: resolveIndexes_def split: sum.splits elim!: bindO_InrE)
  show ?thesis
  proof (cases "tableSchemaTail e w")
    case (Inl er)
    then show ?thesis using discoverIndexes_no_tail run by fastforce
  next
    case (Inr rc)
    then obtain records constraints where rc: "tableSchemaTail e w = Inr (records, constraints)" by (cases rc) simp
    then have "\<forall>r \<in> set records. \<not> isDataPage (sint (rootPageNo r)) w"
      using assms(1) by (auto simp: writer_ok_def indexesApart_def)
    then show ?thesis using discoverIndexes_roots run rc by metis
  qed
qed

lemma maintainedIndexes_calm:
  assumes "writer_ok e w" shows "calm e w (snd (maintainedIndexes e w))"
proof (cases "wIndexes w")
  case (Some r)
  then show ?thesis using assms by (simp add: maintainedIndexes_def)
next
  case None
  obtain r w' where run: "resolveIndexes e w = (r, w')" by (cases "resolveIndexes e w")
  have c: "calm e w w'" using resolveIndexes_calm [OF assms] run by simp
  have "\<forall>i \<in> set idxs. \<not> isDataPage (miRootPageNo i) w'" if "r = Inr idxs" for idxs
    using resolveIndexes_roots [OF assms] run that c isDataPage_same by (auto simp: calm_def)
  then have "calm e w (w'\<lparr>wIndexes := Some r\<rparr>)"
    by (intro calm_memo [OF c]) auto
  then show ?thesis using None run by (simp add: maintainedIndexes_def)
qed

lemma maintainedIndexes_roots:
  assumes "writer_ok e w" and "maintainedIndexes e w = (Inr idxs, w')"
  shows "\<forall>i \<in> set idxs. \<not> isDataPage (miRootPageNo i) w'"
proof -
  have "same_table w w'" using maintainedIndexes_calm [OF assms(1)] assms(2) by (simp add: calm_def)
  moreover have "\<forall>i \<in> set idxs. \<not> isDataPage (miRootPageNo i) w"
    using assms resolveIndexes_roots [OF assms(1)]
    by (auto simp: maintainedIndexes_def writer_ok_def split: option.splits prod.splits)
  ultimately show ?thesis by (simp add: isDataPage_same)
qed

definition idxsApart :: "tableWriter \<Rightarrow> maintainedIndex list \<Rightarrow> bool" where
  "idxsApart w idxs \<longleftrightarrow> (\<forall>i \<in> set idxs. \<not> isDataPage (miRootPageNo i) w)"

lemma isDataPage_calm: "calm e w w' \<Longrightarrow> isDataPage no w' = isDataPage no w"
  by (rule isDataPage_same) (simp add: calm_def)

lemma idxsApart_calm: "calm e w w' \<Longrightarrow> idxsApart w' idxs = idxsApart w idxs"
  by (simp add: idxsApart_def isDataPage_calm)

section \<open>Checks\<close>

lemma pure_calm: "writer_ok e w \<Longrightarrow> snd (m w) = w \<Longrightarrow> calm e w (snd (m w))"
  by simp

lemma checkConstraints_calm: "writer_ok e w \<Longrightarrow> calm e w (snd (checkConstraints rec w))"
  by (simp add: checkConstraints_def)

lemma checkKeyIndex_calm: "writer_ok e w \<Longrightarrow> calm e w (snd (checkKeyIndex e idx key w))"
proof -
  assume ok: "writer_ok e w"
  have "calm e w (snd (bindO (writerIndexLeaf idx) (\<lambda>leaf.
           bindO (getO (\<lambda>w. hasKey (weText e) leaf (wPayload (leafBuf leaf) w) key)) (\<lambda>held.
           if held then failO ErrDuplicateKey else retO ())) w))"
    by (rule calm.bind) (auto simp: writerIndexLeaf_calm ok)
  then show ?thesis using ok by (simp add: checkKeyIndex_def)
qed

lemma checkKeyIndexes_calm: "writer_ok e w \<Longrightarrow> calm e w (snd (checkKeyIndexes e idxs content before w))"
  unfolding checkKeyIndexes_def
proof (rule calm.loop)
  fix i w' assume "calm e w w'"
  then have ok: "writer_ok e w'" by (rule calm_ok)
  then show "calm e w' (snd ((let idx = idxs ! i in
       if \<not> miUnique idx then retO ()
       else bindO (getO wLayout) (\<lambda>l.
            bindO (liftO (recordOver l content)) (\<lambda>row.
            let key = indexKeyOf l row (miComponents idx) in
            if (case before of None \<Rightarrow> False | Some ks \<Rightarrow> compareIndexKeys (weText e) (ks ! i) key (miComponents idx) = 0)
            then retO () else checkKeyIndex e idx key))) w'))"
    by (auto simp: Let_def bindO_def liftO_def checkKeyIndex_calm split: sum.splits)
qed simp

lemma indexRoom_calm: "writer_ok e w \<Longrightarrow> calm e w (snd (indexRoom idxs w))"
  unfolding indexRoom_def
proof (rule calm.loop)
  fix idx w' assume "calm e w w'"
  then have ok: "writer_ok e w'" by (rule calm_ok)
  show "calm e w' (snd (bindO (writerIndexLeaf idx) (\<lambda>leaf. bindO (getO (\<lambda>w. leafRoom leaf (wPayload (leafBuf leaf) w))) liftO) w'))"
    by (rule calm.bind) (auto simp: writerIndexLeaf_calm ok)
qed simp

lemma indexKeyFor_calm: "writer_ok e w \<Longrightarrow> calm e w (snd (indexKeyFor rid idx w))"
  unfolding indexKeyFor_def by (rule calm.bind) (auto simp: writerRecord_calm)

lemma indexKeys_calm: "writer_ok e w \<Longrightarrow> calm e w (snd (indexKeys idxs rid w))"
proof -
  assume ok: "writer_ok e w"
  have "calm e w (snd (bindO (mapO (indexKeyFor rid) idxs) (\<lambda>keys. retO (Some keys)) w))"
    by (intro calm.bind calm.map_loop) (auto simp: ok intro: indexKeyFor_calm)
  then show ?thesis using ok by (simp add: indexKeys_def)
qed

section \<open>Index maintenance\<close>

text \<open>One edit of one index leaf.\<close>

lemma leaf_edit_calm:
  assumes "writer_ok e w" and "\<not> isDataPage (miRootPageNo idx) w"
    and "\<And>leaf v. leafApart v leaf \<Longrightarrow> writer_ok e v \<Longrightarrow> calm e v (snd (g leaf v))"
  shows "calm e w (snd (bindO (writerIndexLeaf idx) g w))"
proof (rule calm.bind)
  show "calm e w (snd (writerIndexLeaf idx w))" by (rule writerIndexLeaf_calm [OF assms(1)])
  fix leaf w' assume "writerIndexLeaf idx w = (Inr leaf, w')" and c: "calm e w w'"
  then have "leafApart w' leaf" using assms(1,2) by (intro writerIndexLeaf_result)
  then show "calm e w' (snd (g leaf w'))" using assms(3) calm_ok [OF c] by blast
qed

lemma indexInsert_calm:
  assumes "writer_ok e w" and "idxsApart w idxs" shows "calm e w (snd (indexInsert e idxs rid w))"
  unfolding indexInsert_def
proof (rule calm.loop)
  show "calm e w w" using assms by simp
  fix idx w' assume idx: "idx \<in> set idxs" and c: "calm e w w'"
  show "calm e w' (snd (bindO (indexKeyFor rid idx) (\<lambda>key. bindO (writerIndexLeaf idx)
      (\<lambda>leaf. editLeaf leaf (leafInsert (weText e) leaf key rid))) w'))"
  proof (rule calm.bind)
    show "calm e w' (snd (indexKeyFor rid idx w'))" by (rule indexKeyFor_calm [OF calm_ok [OF c]])
    fix key v assume v: "calm e w' v"
    have "\<not> isDataPage (miRootPageNo idx) v"
      using assms(2) idx isDataPage_calm [OF c] isDataPage_calm [OF v] by (simp add: idxsApart_def)
    then show "calm e v (snd (bindO (writerIndexLeaf idx) (\<lambda>leaf. editLeaf leaf (leafInsert (weText e) leaf key rid)) v))"
      by (intro leaf_edit_calm calm_ok [OF v] editLeaf_calm) (auto intro: length_leafInsert)
  qed
qed

lemma indexRemove_calm:
  assumes "writer_ok e w" and "idxsApart w idxs" shows "calm e w (snd (indexRemove idxs rid w))"
  unfolding indexRemove_def
proof (rule calm.loop)
  show "calm e w w" using assms by simp
  fix idx w' assume idx: "idx \<in> set idxs" and c: "calm e w w'"
  have "\<not> isDataPage (miRootPageNo idx) w'" using assms(2) idx isDataPage_calm [OF c] by (simp add: idxsApart_def)
  then show "calm e w' (snd (bindO (writerIndexLeaf idx) (\<lambda>leaf. editLeaf leaf (leafRemove leaf rid)) w'))"
    by (intro leaf_edit_calm calm_ok [OF c] editLeaf_calm) (auto intro: length_leafRemove)
qed

lemma indexReplace_calm:
  assumes "writer_ok e w" and "idxsApart w idxs" shows "calm e w (snd (indexReplace e idxs rid before w))"
  unfolding indexReplace_def
proof (rule calm.loop)
  show "calm e w w" using assms by simp
  fix i w' assume i: "i \<in> set [0..<length idxs]" and c: "calm e w w'"
  let ?idx = "idxs ! i"
  have "calm e w' (snd (bindO (indexKeyFor rid ?idx) (\<lambda>after.
       if (case before of None \<Rightarrow> [] | Some ks \<Rightarrow> ks) ! i = after then retO ()
       else bindO (writerIndexLeaf ?idx) (\<lambda>leaf.
            bindO (editLeaf leaf (leafRemove leaf rid)) (\<lambda>_.
            editLeaf leaf (leafInsert (weText e) leaf after rid)))) w'))"
  proof (rule calm.bind)
    show "calm e w' (snd (indexKeyFor rid ?idx w'))" by (rule indexKeyFor_calm [OF calm_ok [OF c]])
    fix after v assume v: "calm e w' v"
    have apart: "\<not> isDataPage (miRootPageNo ?idx) v"
      using assms(2) i isDataPage_calm [OF c] isDataPage_calm [OF v] by (simp add: idxsApart_def)
    have "calm e u (snd (bindO (editLeaf leaf (leafRemove leaf rid)) (\<lambda>_. editLeaf leaf (leafInsert (weText e) leaf after rid)) u))"
      if "leafApart u leaf" and "writer_ok e u" for leaf u
    proof (rule calm.bind)
      show "calm e u (snd (editLeaf leaf (leafRemove leaf rid) u))"
        by (rule editLeaf_calm [OF that(2,1)]) (rule length_leafRemove)
      fix x u' assume u': "calm e u u'"
      show "calm e u' (snd (editLeaf leaf (leafInsert (weText e) leaf after rid) u'))"
        by (rule editLeaf_calm [OF calm_ok [OF u'] leafApart_calm [OF that(1) u']]) (rule length_leafInsert)
    qed
    then have "calm e v (snd (bindO (writerIndexLeaf ?idx) (\<lambda>leaf. bindO (editLeaf leaf (leafRemove leaf rid))
        (\<lambda>_. editLeaf leaf (leafInsert (weText e) leaf after rid))) v))"
      by (intro leaf_edit_calm calm_ok [OF v] apart)
    then show "calm e v (snd ((if (case before of None \<Rightarrow> [] | Some ks \<Rightarrow> ks) ! i = after then retO ()
       else bindO (writerIndexLeaf ?idx) (\<lambda>leaf. bindO (editLeaf leaf (leafRemove leaf rid))
        (\<lambda>_. editLeaf leaf (leafInsert (weText e) leaf after rid)))) v))"
      using calm_ok [OF v] by simp
  qed
  then show "calm e w' (snd ((let idx = idxs ! i in
       bindO (indexKeyFor rid idx) (\<lambda>after.
       if (case before of None \<Rightarrow> [] | Some ks \<Rightarrow> ks) ! i = after then retO ()
       else bindO (writerIndexLeaf idx) (\<lambda>leaf.
            bindO (editLeaf leaf (leafRemove leaf rid)) (\<lambda>_.
            editLeaf leaf (leafInsert (weText e) leaf after rid))))) w'))" by (simp only: Let_def)
qed

section \<open>Counters\<close>

lemma wAutoInc_calm: "calm e w w' \<Longrightarrow> calm e w (w'\<lparr>wAutoInc := c\<rparr>)"
  by (rule calm_memo [where w' = w']) (auto simp: calm_def writer_ok_def)

lemma readAutoIncCounters_calm: "writer_ok e w \<Longrightarrow> calm e w (snd (readAutoIncCounters w))"
proof -
  assume ok: "writer_ok e w"
  have "calm e w (snd (bindO (writerLoadPage no) (\<lambda>k. bindO (getO (wPayload k)) (\<lambda>p.
      liftO (bindR (autoIncCounterBase p n) (\<lambda>base. mapR (newCounter p base cols) wanted)))) w))" for no n cols wanted
    by (rule calm.bind) (auto simp: writerLoadPage_calm ok)
  then show ?thesis using ok by (auto simp: readAutoIncCounters_def Let_def bindO_def liftO_def split: sum.splits)
qed

lemma autoIncCounters_calm: "writer_ok e w \<Longrightarrow> calm e w (snd (autoIncCounters w))"
  using readAutoIncCounters_calm [of e w] wAutoInc_calm
  by (auto simp: autoIncCounters_def split: option.split prod.splits)

lemma assignAutoInc_calm: "writer_ok e w \<Longrightarrow> calm e w (snd (assignAutoInc vs w))"
  unfolding assignAutoInc_def by (rule calm.bind) (auto simp: autoIncCounters_calm)

lemma raiseAutoInc_calm: "writer_ok e w \<Longrightarrow> calm e w (snd (raiseAutoInc rec w))"
  unfolding raiseAutoInc_def
proof (rule calm.bind)
  assume "writer_ok e w" then show "calm e w (snd (autoIncCounters w))" by (rule autoIncCounters_calm)
  fix counters w' assume "calm e w w'"
  then have "calm e w' w'" by (simp add: calm_ok)
  then show "calm e w' (snd ((if length counters = 0 then retO ()
     else bindO (getO wLayout) (\<lambda>l. bindO (liftO (recordOver l rec)) (\<lambda>row.
          modO (\<lambda>w. w\<lparr>wAutoInc := Some (Inr (map (raiseCounter l row) counters))\<rparr>)))) w'))"
    using wAutoInc_calm by (auto simp: bindO_def liftO_def split: sum.splits)
qed

lemma validateStore_calm: "writer_ok e w \<Longrightarrow> calm e w (snd (validateStore k start rec w))"
  by (simp add: validateStore_def)

lemma freeSlotIn_calm: "writer_ok e w \<Longrightarrow> calm e w (snd (freeSlotIn nos w))"
proof (induction nos arbitrary: w)
  case (Cons no nos)
  show ?case unfolding freeSlotIn.simps
  proof (rule calm.bind)
    show "calm e w (snd (dataPage (int no) w))" by (rule dataPage_calm [OF Cons.prems])
    fix k w' assume "calm e w w'"
    then have "writer_ok e w'" by (rule calm_ok)
    then show "calm e w' (snd (bindO (getO (\<lambda>w. freeIn (wLayout w) (wPayload k w))) (\<lambda>found.
       case found of Some i \<Rightarrow> retO (Some \<lparr>ridPage = int no, ridSlot = int i\<rparr>) | None \<Rightarrow> freeSlotIn nos) w'))"
      using Cons.IH by (auto split: option.split)
  qed
qed simp

end
