(* ===== verification/Writer_Props.thy ===== *)
theory Writer_Props
  imports Writer_Calm
begin

text \<open>
  What a table writer does between opening and committing: the file stays untouched, and the counts it
  keeps for each data page follow the records in its buffers, whatever succeeds or fails on the way.
\<close>

section \<open>Counting records\<close>

definition occupiedCount :: "layout \<Rightarrow> byte list \<Rightarrow> nat" where
  "occupiedCount l p = length (filter (\<lambda>i. bitSet p (int i) (bitmapBytes l)) [0..<recsPerPage l])"

lemma occupiedCount_card: "occupiedCount l p = card {i. i < recsPerPage l \<and> bitSet p (int i) (bitmapBytes l)}"
  by (simp add: occupiedCount_def length_filter_conv_card cong: conj_cong)

lemma bitSet_splice_behind:
  assumes "n \<le> start" and "start \<le> length p"
  shows "bitSet (splice start rec p) b n = bitSet p b n"
proof -
  have "splice start rec p ! j = p ! j" if "j < start" for j
    using that assms by (simp add: splice_def nth_append)
  then show ?thesis using assms by (auto simp: bitSet_def testBit_def not_le)
qed

lemma occupiedCount_splice:
  "bitmapBytes l \<le> start \<Longrightarrow> start \<le> length p \<Longrightarrow> occupiedCount l (splice start rec p) = occupiedCount l p"
  by (simp add: occupiedCount_def bitSet_splice_behind)

lemma occupiedCount_setBit:
  assumes "i < recsPerPage l" and "i < 8 * bitmapBytes l" and "i < 8 * length p"
    and "\<not> bitSet p (int i) (bitmapBytes l)"
  shows "occupiedCount l (setBit p (int i) (bitmapBytes l)) = occupiedCount l p + 1"
proof -
  let ?n = "bitmapBytes l"
  have "bitSet (setBit p (int i) ?n) (int j) ?n = (j = i \<or> bitSet p (int j) ?n)" for j
    using occupancy.test_put [of i ?n p True j] assms by (simp add: occ_put_def)
  then have "{j. j < recsPerPage l \<and> bitSet (setBit p (int i) ?n) (int j) ?n}
      = insert i {j. j < recsPerPage l \<and> bitSet p (int j) ?n}"
    using assms(1) by auto
  then show ?thesis using assms(4) by (simp add: occupiedCount_card)
qed

lemma occupiedCount_clearBit:
  assumes "i < recsPerPage l" and "bitSet p (int i) (bitmapBytes l)"
  shows "occupiedCount l (clearBit p (int i) (bitmapBytes l)) + 1 = occupiedCount l p"
proof -
  let ?n = "bitmapBytes l"
  have "i < 8 * min ?n (length p)" using assms(2) by (auto simp: bitSet_def not_le div_8_less split: if_splits)
  then have "bitSet (clearBit p (int i) ?n) (int j) ?n = (j \<noteq> i \<and> bitSet p (int j) ?n)" for j
    using occupancy.test_put [of i ?n p False j] by (simp add: occ_put_def)
  then have "{j. j < recsPerPage l \<and> bitSet p (int j) ?n}
      = insert i {j. j < recsPerPage l \<and> bitSet (clearBit p (int i) ?n) (int j) ?n}"
      and "i \<notin> {j. j < recsPerPage l \<and> bitSet (clearBit p (int i) ?n) (int j) ?n}"
    using assms by auto
  then show ?thesis by (simp add: occupiedCount_card)
qed

lemma deltaOf_bump: "deltaOf (bumpDelta no n d) m = deltaOf d m + (if m = no then n else 0)"
proof -
  have "map_of (filter (\<lambda>(k, _). k \<noteq> no) d) m = (if m = no then None else map_of d m)"
    by (induction d) auto
  then show ?thesis by (simp add: bumpDelta_def deltaOf_def)
qed

section \<open>The counts kept\<close>

text \<open>The records of a data page, on the file and as the writer sees them.\<close>

definition countIn :: "layout \<Rightarrow> byte list result \<Rightarrow> int" where
  "countIn l r = (case r of Inl e \<Rightarrow> 0 | Inr p \<Rightarrow> int (occupiedCount l p))"

definition storedCount :: "tableWriter \<Rightarrow> nat \<Rightarrow> int" where
  "storedCount w no = countIn (wLayout w) (bindR (ReadPage (edDb w) (int no)) (\<lambda>p. Inr (Payload p)))"

definition bufferedCount :: "tableWriter \<Rightarrow> nat \<Rightarrow> int" where
  "bufferedCount w no = countIn (wLayout w) (editPayload w no)"

definition settled :: "wenv \<Rightarrow> tableWriter \<Rightarrow> tableWriter \<Rightarrow> bool" where
  "settled e w0 w \<longleftrightarrow> writer_ok e w \<and> same_table w0 w \<and> recsPerPage (wLayout w) \<le> 8 * bitmapBytes (wLayout w)
     \<and> (\<forall>no \<in> set (wDataPages w). bufferedCount w no = storedCount w no + deltaOf (wDelta w) (int no))"

definition onward :: "wenv \<Rightarrow> tableWriter \<Rightarrow> tableWriter \<Rightarrow> tableWriter \<Rightarrow> bool" where
  "onward e w0 w w' \<longleftrightarrow> settled e w0 w' \<and> dom (edPages w) \<subseteq> dom (edPages w') \<and> same_table w w'"

interpretation onward: step_rel "onward e w0" for e w0
proof unfold_locales
  show "onward e w0 a b \<Longrightarrow> onward e w0 b c \<Longrightarrow> onward e w0 a c" for a b c
    using subset_trans [of "dom (edPages a)" "dom (edPages b)" "dom (edPages c)"] by (simp add: onward_def same_table_def)
  show "onward e w0 a b \<Longrightarrow> onward e w0 b b" for a b by (simp add: onward_def same_table_def)
qed

lemma onward_refl [simp]: "onward e w0 w w = settled e w0 w"
  by (simp add: onward_def same_table_def)

lemma onwardD: "onward e w0 w w' \<Longrightarrow> settled e w0 w'" "onward e w0 w w' \<Longrightarrow> writer_ok e w'"
  by (simp_all add: onward_def settled_def)

lemma onward_calm: "settled e w0 w \<Longrightarrow> calm e w w' \<Longrightarrow> onward e w0 w w'"
  by (auto simp: onward_def settled_def calm_def same_table_def bufferedCount_def storedCount_def)

lemma isDataPage_onward: "onward e w0 w w' \<Longrightarrow> isDataPage no w' = isDataPage no w"
  by (rule isDataPage_same) (simp add: onward_def)

lemma settled_length:
  assumes "writer_ok e w" and "k \<in> dom (edPages w)"
  shows "length (wPayload k w) = pageSize (edDb w) - 40"
proof -
  have ok: "edit_ok w" using assms(1) by (simp add: writer_ok_def)
  show ?thesis
    unfolding wPayload_def using buf_ok_bufAt [OF ok assms(2)] by (intro length_payload edit_okD(1) [OF ok]) simp
qed

lemma slotAt_calm:
  assumes "slotAt w rid k start" and "writer_ok e w" and "calm e w w'"
  shows "slotAt w' rid k start"
proof -
  have k: "k \<in> dom (edPages w)" "k \<in> dom (edPages w')" using assms(1,3) by (auto simp: slotAt_def calm_def)
  have t: "same_table w w'" "writer_ok e w'" using assms(3) by (simp_all add: calm_def)
  have "length (wPayload k w') = length (wPayload k w)"
    using settled_length [OF assms(2) k(1)] settled_length [OF t(2) k(2)] t(1) by (simp add: same_table_def)
  then show ?thesis using assms(1) k(2) t(1) by (simp add: slotAt_def same_table_def)
qed

text \<open>A change of one data page's bitmap that the counts are told of.\<close>

lemma put_onward:
  assumes s: "settled e w0 w" and k: "k \<in> dom (edPages w)" "k \<in> set (wDataPages w)" and len: "length p = length (wPayload k w)"
    and n: "int (occupiedCount (wLayout w) p) = int (occupiedCount (wLayout w) (wPayload k w)) + n"
    and v: "v = (snd (putPayload k p w))\<lparr>wDelta := d, wTouched := t\<rparr>"
    and d: "\<And>no. deltaOf d no = deltaOf (wDelta w) no + (if no = int k then n else 0)"
  shows "onward e w0 w v"
proof -
  let ?u = "snd (putPayload k p w)"
  have ok: "writer_ok e w" using s by (simp add: settled_def)
  note put = putPayload_ok [OF ok k(1) len]
  have v_fields: "edDb v = edDb ?u" "edPages v = edPages ?u" "edOrder v = edOrder ?u" "wTable v = wTable ?u"
    "wLayout v = wLayout ?u" "wDataPages v = wDataPages ?u" "wIndexes v = wIndexes ?u" "wGone v = wGone ?u" "wDelta v = d"
    unfolding v by simp_all
  have pay: "editPayload v j = editPayload ?u j" for j
    unfolding editPayload_def v_fields(1,2) by (rule refl)
  have t: "same_table w v" using put(2) v_fields by (simp add: same_table_def)
  have uv: "same_table ?u v" using v_fields by (simp add: same_table_def)
  have "edit_ok v" using put(1) v_fields(1-3) by (simp add: writer_ok_def edit_ok_def)
  then have okv: "writer_ok e v" using writer_okI [OF put(1) uv] put(1) v_fields by (simp add: writer_ok_def)
  have "bufferedCount v no = storedCount v no + deltaOf (wDelta v) (int no)" if no: "no \<in> set (wDataPages v)" for no
  proof -
    have l: "wLayout v = wLayout w" "edDb v = edDb w" "wDataPages v = wDataPages w" using t by (simp_all add: same_table_def)
    have old: "bufferedCount w no = storedCount w no + deltaOf (wDelta w) (int no)" using s no l by (simp add: settled_def)
    have st: "storedCount v no = storedCount w no" using l by (simp add: storedCount_def)
    have "bufferedCount v no = bufferedCount w no + (if no = k then n else 0)"
      using put(5) n k(1) l by (auto simp: bufferedCount_def countIn_def pay editPayload_dom wPayload_def)
    then show ?thesis using old st d [of "int no"] v_fields(9) by simp
  qed
  moreover have "recsPerPage (wLayout v) \<le> 8 * bitmapBytes (wLayout v)" using s t by (auto simp: settled_def same_table_def)
  moreover have "same_table w0 v" using s t by (auto simp: settled_def same_table_def)
  ultimately show ?thesis using okv t put(4) v_fields(2) by (simp add: onward_def settled_def)
qed

section \<open>The operations\<close>

lemma slotAt_bounds:
  assumes "slotAt w rid k start" and "settled e w0 w"
  shows "nat (ridSlot rid) < recsPerPage (wLayout w)" and "nat (ridSlot rid) < 8 * bitmapBytes (wLayout w)"
    and "bitmapBytes (wLayout w) \<le> start" and "start \<le> length (wPayload k w)" and "ridSlot rid = int (nat (ridSlot rid))"
    and "k \<in> dom (edPages w)" and "k \<in> set (wDataPages w)"
  using assms by (auto simp: slotAt_def settled_def slotOffset_def)

lemma storeRecord_onward:
  assumes "settled e w0 w" and "slotAt w rid k start"
  shows "onward e w0 w (snd (storeRecord k start rec w))"
proof (cases "fst (validateStore k start rec w)")
  case (Inl er)
  then have "storeRecord k start rec w = (Inl er, w)"
    by (auto simp: storeRecord_def bindO_def validateStore_def split: if_splits prod.splits sum.splits)
  then show ?thesis using assms(1) by simp
next
  case (Inr u)
  let ?p = "splice start rec (wPayload k w)"
  have "validateStore k start rec w = (Inr u, w)"
    using Inr by (auto simp: validateStore_def split: if_splits)
  then have "snd (storeRecord k start rec w) = (snd (putPayload k ?p w))\<lparr>wDelta := wDelta w, wTouched := wTouched w + 1\<rparr>"
    by (simp add: storeRecord_def bindO_def touch_def putPayload_def putBuf_def)
  moreover note b = slotAt_bounds [OF assms(2,1)]
  ultimately show ?thesis
    using put_onward [OF assms(1) b(6,7) _ _ refl, where p = ?p and n = 0 and d = "wDelta w" and t = "wTouched w + 1"] b(3,4)
    by (simp add: occupiedCount_splice)
qed

lemma placeRecord_onward:
  assumes "settled e w0 w"
  shows "onward e w0 w (snd (placeRecord rid rec w))"
  unfolding placeRecord_def
proof (rule onward.bind)
  have ok: "writer_ok e w" using assms by (simp add: settled_def)
  show "onward e w0 w (snd (slot rid False w))" by (rule onward_calm [OF assms slot_calm [OF ok]])
  fix ks w' assume run: "slot rid False w = (Inr ks, w')" and on: "onward e w0 w w'"
  obtain k start where ks: "ks = (k, start)" by (cases ks)
  have s: "settled e w0 w'" and at: "slotAt w' rid k start"
    using onwardD [OF on] slot_result [OF ok] run ks by auto
  note b = slotAt_bounds [OF at s]
  let ?l = "wLayout w'" and ?i = "nat (ridSlot rid)"
  let ?p1 = "splice start (take (recordSize ?l) rec) (wPayload k w')"
  let ?p = "setBit ?p1 (ridSlot rid) (bitmapBytes ?l)"
  show "onward e w0 w' (snd ((case ks of (k, start) \<Rightarrow>
     bindO (getO (\<lambda>w. (wLayout w, wPayload k w))) (\<lambda>(l, p).
     if bitSet p (ridSlot rid) (bitmapBytes l) then failO ErrSlotOccupied
     else bindO (putPayload k (setBit (splice start (take (recordSize l) rec) p) (ridSlot rid) (bitmapBytes l))) (\<lambda>_.
          bindO (modO (\<lambda>w. w\<lparr>wDelta := bumpDelta (ridPage rid) 1 (wDelta w)\<rparr>)) (\<lambda>_. touch)))) w'))"
  proof (cases "bitSet (wPayload k w') (ridSlot rid) (bitmapBytes ?l)")
    case True
    then show ?thesis using s ks by simp
  next
    case False
    obtain i where i: "ridSlot rid = int i" using b(5) by metis
    have "occupiedCount ?l ?p = occupiedCount ?l ?p1 + 1"
      unfolding i using b False i by (intro occupiedCount_setBit) (auto simp: bitSet_splice_behind)
    then have n: "int (occupiedCount ?l ?p) = int (occupiedCount ?l (wPayload k w')) + 1"
      using b by (simp add: occupiedCount_splice)
    have "ridPage rid = int k" using at by (simp add: slotAt_def)
    moreover have "snd ((case ks of (k, start) \<Rightarrow>
     bindO (getO (\<lambda>w. (wLayout w, wPayload k w))) (\<lambda>(l, p).
     if bitSet p (ridSlot rid) (bitmapBytes l) then failO ErrSlotOccupied
     else bindO (putPayload k (setBit (splice start (take (recordSize l) rec) p) (ridSlot rid) (bitmapBytes l))) (\<lambda>_.
          bindO (modO (\<lambda>w. w\<lparr>wDelta := bumpDelta (ridPage rid) 1 (wDelta w)\<rparr>)) (\<lambda>_. touch)))) w')
      = (snd (putPayload k ?p w'))\<lparr>wDelta := bumpDelta (ridPage rid) 1 (wDelta w'), wTouched := wTouched w' + 1\<rparr>"
      using False ks by (simp add: bindO_def touch_def putPayload_def)
    ultimately show ?thesis
      using put_onward [OF s b(6,7) _ n refl, where d = "bumpDelta (int k) 1 (wDelta w')" and t = "wTouched w' + 1"] by (simp add: deltaOf_bump)
  qed
qed

text \<open>A calm operation first, under a condition that calm operations keep.\<close>

definition lasting :: "wenv \<Rightarrow> (tableWriter \<Rightarrow> bool) \<Rightarrow> bool" where
  "lasting e P \<longleftrightarrow> (\<forall>a b. P a \<longrightarrow> writer_ok e a \<longrightarrow> calm e a b \<longrightarrow> P b)"

lemma lasting_True: "lasting e (\<lambda>w. True)"
  by (simp add: lasting_def)

lemma lasting_slotAt: "lasting e (\<lambda>w. slotAt w rid k start)"
  using slotAt_calm by (auto simp: lasting_def)

lemma lasting_idxs: "lasting e (\<lambda>w. idxsApart w idxs)"
  by (auto simp: lasting_def idxsApart_calm)

lemma lasting_and: "lasting e P \<Longrightarrow> lasting e Q \<Longrightarrow> lasting e (\<lambda>w. P w \<and> Q w)"
  unfolding lasting_def by blast

lemma calm_then:
  assumes "settled e w0 w" and "P w" and "lasting e P" and "\<And>v. writer_ok e v \<Longrightarrow> calm e v (snd (m v))"
    and "\<And>x v. settled e w0 v \<Longrightarrow> P v \<Longrightarrow> onward e w0 v (snd (f x v))"
  shows "onward e w0 w (snd (bindO m f w))"
proof (rule onward.bind)
  have ok: "writer_ok e w" using assms(1) by (simp add: settled_def)
  note c = assms(4) [OF ok]
  show "onward e w0 w (snd (m w))" by (rule onward_calm [OF assms(1) c])
  fix x w' assume "m w = (Inr x, w')" and on: "onward e w0 w w'"
  then have "P w'" using assms(2,3) ok c by (auto simp: lasting_def)
  then show "onward e w0 w' (snd (f x w'))" by (rule assms(5) [OF onwardD(1) [OF on]])
qed

lemma indexes_then:
  assumes "settled e w0 w" and "P w" and "lasting e P"
    and "\<And>idxs v. settled e w0 v \<Longrightarrow> P v \<Longrightarrow> idxsApart v idxs \<Longrightarrow> onward e w0 v (snd (f idxs v))"
  shows "onward e w0 w (snd (bindO (maintainedIndexes e) f w))"
proof (rule onward.bind)
  have ok: "writer_ok e w" using assms(1) by (simp add: settled_def)
  note c = maintainedIndexes_calm [OF ok]
  show "onward e w0 w (snd (maintainedIndexes e w))" by (rule onward_calm [OF assms(1) c])
  fix idxs w' assume run: "maintainedIndexes e w = (Inr idxs, w')" and on: "onward e w0 w w'"
  have "P w'" using assms(2,3) ok c run unfolding lasting_def by (metis snd_conv)
  moreover have "idxsApart w' idxs" using maintainedIndexes_roots [OF ok run] by (simp add: idxsApart_def)
  moreover note onwardD(1) [OF on]
  ultimately show "onward e w0 w' (snd (f idxs w'))" using assms(4) by blast
qed

lemma storeRecordReindexing_onward:
  assumes "settled e w0 w" and "slotAt w rid k start"
  shows "onward e w0 w (snd (storeRecordReindexing e rid k start rec w))"
  unfolding storeRecordReindexing_def
proof (rule calm_then [OF assms lasting_slotAt validateStore_calm], assumption, rule indexes_then [OF _ _ lasting_slotAt], assumption+)
  fix idxs v
  let ?P = "\<lambda>w. slotAt w rid k start \<and> idxsApart w idxs"
  note P = lasting_and [OF lasting_slotAt lasting_idxs, of e rid k start idxs]
  have last: "onward e w0 v (snd (bindO (storeRecord k start rec) (\<lambda>_. indexReplace e idxs rid before) v))"
    if "settled e w0 v" and "?P v" for before v
  proof (rule onward.bind)
    show "onward e w0 v (snd (storeRecord k start rec v))" using that by (intro storeRecord_onward [where rid = rid]) simp_all
    fix u v' assume on: "onward e w0 v v'"
    have "idxsApart v' idxs" using that(2) isDataPage_onward [OF on] by (simp add: idxsApart_def)
    then show "onward e w0 v' (snd (indexReplace e idxs rid before v'))"
      using onwardD [OF on] by (intro onward_calm indexReplace_calm)
  qed
  assume "settled e w0 v" "slotAt v rid k start" "idxsApart v idxs"
  then show "onward e w0 v (snd (bindO (checkConstraints rec) (\<lambda>_. bindO (indexKeys idxs rid) (\<lambda>before.
       bindO (checkKeyIndexes e idxs rec before) (\<lambda>_. bindO (storeRecord k start rec) (\<lambda>_. indexReplace e idxs rid before)))) v))"
    by (intro calm_then [where P = ?P, OF _ _ P] checkConstraints_calm indexKeys_calm checkKeyIndexes_calm last) simp_all
qed

text \<open>Finding the slot of an existing record, then going on with it.\<close>

lemma slot_then:
  assumes "settled e w0 w" and "P w" and "lasting e P"
    and "\<And>k start v. settled e w0 v \<Longrightarrow> P v \<Longrightarrow> slotAt v rid k start \<Longrightarrow>
       bitSet (wPayload k v) (ridSlot rid) (bitmapBytes (wLayout v)) \<Longrightarrow> onward e w0 v (snd (f (k, start) v))"
  shows "onward e w0 w (snd (bindO (slot rid True) f w))"
proof (rule onward.bind)
  have ok: "writer_ok e w" using assms(1) by (simp add: settled_def)
  show "onward e w0 w (snd (slot rid True w))" by (rule onward_calm [OF assms(1) slot_calm [OF ok]])
  fix ks w' assume run: "slot rid True w = (Inr ks, w')" and on: "onward e w0 w w'"
  obtain k start where ks: "ks = (k, start)" by (cases ks)
  have "P w'" using assms(2,3) ok slot_calm [OF ok] run unfolding lasting_def by (metis snd_conv)
  then show "onward e w0 w' (snd (f ks w'))"
    using slot_result [OF ok run [unfolded ks]] onwardD(1) [OF on] assms(4) ks by auto
qed

lemma Update_onward: "settled e w0 w \<Longrightarrow> onward e w0 w (snd (Update e rid vs w))"
proof -
  assume s: "settled e w0 w"
  have "onward e w0 w (snd (bindO (slot rid True) (\<lambda>(k, start). storeRecordReindexing e rid k start rec) w))" for rec
    by (rule slot_then [OF s TrueI lasting_True]) (simp add: storeRecordReindexing_onward)
  then show ?thesis using s by (auto simp: Update_def bindO_def liftO_def split: sum.splits)
qed

lemma UpdateColumn_onward: "settled e w0 w \<Longrightarrow> onward e w0 w (snd (UpdateColumn e rid col v w))"
  unfolding UpdateColumn_def
  by (rule slot_then [OF _ TrueI lasting_True]) (auto simp: bindO_def liftO_def storeRecordReindexing_onward split: sum.splits)

end
