(* ===== verification/Writer_Counts.thy ===== *)
theory Writer_Counts
  imports Writer_Props
begin

text \<open>
  Deleting and inserting, sequences of operations, and what \<open>updatePageCounts\<close> writes at commit.
\<close>

section \<open>Deleting\<close>

lemma calm_payload:
  assumes "calm e w w'" and "k \<in> dom (edPages w)" and "k \<in> set (wDataPages w)"
  shows "wPayload k w' = wPayload k w"
proof -
  have "editPayload w' k = editPayload w k" "k \<in> dom (edPages w')" using assms by (auto simp: calm_def)
  then show ?thesis using assms(2) by (simp add: editPayload_dom wPayload_def)
qed

lemma clear_onward:
  assumes s: "settled e w0 w" and at: "slotAt w rid k start"
    and bit: "bitSet (wPayload k w) (ridSlot rid) (bitmapBytes (wLayout w))"
  shows "onward e w0 w (snd (bindO (getO (\<lambda>w. (wLayout w, wPayload k w))) (\<lambda>(l, p).
     bindO (putPayload k (clearBit p (ridSlot rid) (bitmapBytes l))) (\<lambda>_.
     bindO (modO (\<lambda>w. w\<lparr>wDelta := bumpDelta (ridPage rid) (-1) (wDelta w)\<rparr>)) (\<lambda>_. touch))) w))"
proof -
  let ?l = "wLayout w"
  let ?p = "clearBit (wPayload k w) (ridSlot rid) (bitmapBytes ?l)"
  note b = slotAt_bounds [OF at s]
  obtain i where i: "ridSlot rid = int i" using b(5) by metis
  have n: "int (occupiedCount ?l ?p) = int (occupiedCount ?l (wPayload k w)) + - 1"
    using occupiedCount_clearBit [of i ?l "wPayload k w"] b(1) bit by (simp add: i)
  have "ridPage rid = int k" using at by (simp add: slotAt_def)
  then have "snd (bindO (getO (\<lambda>w. (wLayout w, wPayload k w))) (\<lambda>(l, p).
     bindO (putPayload k (clearBit p (ridSlot rid) (bitmapBytes l))) (\<lambda>_.
     bindO (modO (\<lambda>w. w\<lparr>wDelta := bumpDelta (ridPage rid) (-1) (wDelta w)\<rparr>)) (\<lambda>_. touch))) w)
     = (snd (putPayload k ?p w))\<lparr>wDelta := bumpDelta (int k) (- 1) (wDelta w), wTouched := wTouched w + 1\<rparr>"
    by (simp add: bindO_def touch_def putPayload_def)
  then show ?thesis
    using put_onward [OF s b(6,7) _ n refl, where d = "bumpDelta (int k) (- 1) (wDelta w)" and t = "wTouched w + 1"]
    by (simp add: deltaOf_bump)
qed

lemma Delete_onward: "settled e w0 w \<Longrightarrow> onward e w0 w (snd (Delete e rid w))"
  unfolding Delete_def
proof (rule indexes_then [OF _ TrueI lasting_True], assumption, rule slot_then [OF _ _ lasting_idxs], assumption+)
  fix idxs k start v
  assume s: "settled e w0 v" and apart: "idxsApart v idxs" and at: "slotAt v rid k start"
    and bit: "bitSet (wPayload k v) (ridSlot rid) (bitmapBytes (wLayout v))"
  let ?P = "\<lambda>w. slotAt w rid k start \<and> bitSet (wPayload k w) (ridSlot rid) (bitmapBytes (wLayout w))"
  have ok: "writer_ok e v" using s by (simp add: settled_def)
  have "onward e w0 v (snd (bindO (indexRemove idxs rid) (\<lambda>_. bindO (getO (\<lambda>w. (wLayout w, wPayload k w))) (\<lambda>(l, p).
     bindO (putPayload k (clearBit p (ridSlot rid) (bitmapBytes l))) (\<lambda>_.
     bindO (modO (\<lambda>w. w\<lparr>wDelta := bumpDelta (ridPage rid) (-1) (wDelta w)\<rparr>)) (\<lambda>_. touch)))) v))"
  proof (rule onward.bind)
    note c = indexRemove_calm [OF ok apart]
    show "onward e w0 v (snd (indexRemove idxs rid v))" by (rule onward_calm [OF s c])
    fix u v' assume run: "indexRemove idxs rid v = (Inr u, v')" and on: "onward e w0 v v'"
    have c': "calm e v v'" using c [of rid] run by simp
    have "slotAt v' rid k start" by (rule slotAt_calm [OF at ok c'])
    moreover have "wPayload k v' = wPayload k v" using at by (intro calm_payload [OF c']) (simp_all add: slotAt_def)
    moreover have "wLayout v' = wLayout v" using c' by (simp add: calm_def same_table_def)
    ultimately show "onward e w0 v' (snd (bindO (getO (\<lambda>w. (wLayout w, wPayload k w))) (\<lambda>(l, p).
     bindO (putPayload k (clearBit p (ridSlot rid) (bitmapBytes l))) (\<lambda>_.
     bindO (modO (\<lambda>w. w\<lparr>wDelta := bumpDelta (ridPage rid) (-1) (wDelta w)\<rparr>)) (\<lambda>_. touch))) v'))"
      using bit onwardD(1) [OF on] by (intro clear_onward) simp_all
  qed
  then show "onward e w0 v (snd ((case (k, start) of (k, start) \<Rightarrow> bindO (indexRemove idxs rid) (\<lambda>_.
     bindO (getO (\<lambda>w. (wLayout w, wPayload k w))) (\<lambda>(l, p).
     bindO (putPayload k (clearBit p (ridSlot rid) (bitmapBytes l))) (\<lambda>_.
     bindO (modO (\<lambda>w. w\<lparr>wDelta := bumpDelta (ridPage rid) (-1) (wDelta w)\<rparr>)) (\<lambda>_. touch))))) v))" by simp
qed

section \<open>Inserting where there is room\<close>

definition roomIn :: "tableWriter \<Rightarrow> bool" where
  "roomIn w \<longleftrightarrow> (\<exists>no \<in> set (wDataPages w). \<exists>p. editPayload w no = Inr p \<and> freeIn (wLayout w) p \<noteq> None)"

lemma roomIn_calm: "calm e w w' \<Longrightarrow> roomIn w' = roomIn w"
  by (auto simp: roomIn_def calm_def same_table_def)

lemma lasting_room: "lasting e roomIn"
  by (simp add: lasting_def roomIn_calm)

lemma freeSlotIn_none:
  assumes "writer_ok e w" and "set nos \<subseteq> set (wDataPages w)" and "freeSlotIn nos w = (Inr None, w')" and "no \<in> set nos"
    and "editPayload w no = Inr p"
  shows "freeIn (wLayout w) p = None"
  using assms
proof (induction nos arbitrary: w)
  case (Cons n nos)
  obtain k w1 where load: "dataPage (int n) w = (Inr k, w1)"
    and rest: "freeIn (wLayout w1) (wPayload k w1) = None" "freeSlotIn nos w1 = (Inr None, w')"
    using Cons.prems(3) by (auto elim!: bindO_InrE split: option.splits)
  note res = dataPage_result [OF Cons.prems(1) load]
  have same: "wLayout w1 = wLayout w" "wDataPages w1 = wDataPages w" "\<forall>no \<in> set (wDataPages w). editPayload w1 no = editPayload w no"
    using res(4) by (simp_all add: calm_def same_table_def)
  show ?case
  proof (cases "no = n")
    case True
    have "editPayload w1 k = Inr (wPayload k w1)" using res(3) by (simp add: editPayload_dom wPayload_def)
    then show ?thesis using True res(1,2) same rest(1) Cons.prems(5) by simp
  next
    case False
    then show ?thesis
      using Cons.IH [OF calm_ok [OF res(4)] _ rest(2)] Cons.prems(2,4,5) same by auto
  qed
qed simp

lemma freeSlot_calm:
  assumes "writer_ok e w" and "roomIn w"
  shows "calm e w (snd (freeSlot e w))"
proof -
  have c: "calm e w (snd (freeSlotIn (wDataPages w) w))" by (rule freeSlotIn_calm [OF assms(1)])
  have "fst (freeSlotIn (wDataPages w) w) \<noteq> Inr None"
  proof
    assume "fst (freeSlotIn (wDataPages w) w) = Inr None"
    then have run: "freeSlotIn (wDataPages w) w = (Inr None, snd (freeSlotIn (wDataPages w) w))" by (metis prod.collapse)
    from assms(2) obtain no p where no: "no \<in> set (wDataPages w)" "editPayload w no = Inr p" "freeIn (wLayout w) p \<noteq> None"
      by (auto simp: roomIn_def)
    then show False using freeSlotIn_none [OF assms(1) subset_refl run no(1,2)] by simp
  qed
  then have "snd (freeSlot e w) = snd (freeSlotIn (wDataPages w) w)"
    by (cases "freeSlotIn (wDataPages w) w") (auto simp: freeSlot_def bindO_def split: sum.splits option.splits)
  then show ?thesis using c by simp
qed

lemma Insert_tail_onward:
  assumes "settled e w0 w" and "idxsApart w idxs"
  shows "onward e w0 w (snd (bindO (placeRecord rid rec) (\<lambda>_. bindO (raiseAutoInc rec) (\<lambda>_.
     bindO (indexInsert e idxs rid) (\<lambda>_. retO rid))) w))"
proof (rule onward.bind)
  show "onward e w0 w (snd (placeRecord rid rec w))" by (rule placeRecord_onward [OF assms(1)])
  fix u w' assume on: "onward e w0 w w'"
  have apart: "idxsApart w' idxs" using assms(2) isDataPage_onward [OF on] by (simp add: idxsApart_def)
  show "onward e w0 w' (snd (bindO (raiseAutoInc rec) (\<lambda>_. bindO (indexInsert e idxs rid) (\<lambda>_. retO rid)) w'))"
  proof (rule calm_then [OF onwardD(1) [OF on] apart lasting_idxs raiseAutoInc_calm])
    fix u v assume s: "settled e w0 v" and "idxsApart v idxs"
    then have "onward e w0 v (snd (indexInsert e idxs rid v))"
      by (intro onward_calm indexInsert_calm) (simp_all add: settled_def)
    then show "onward e w0 v (snd (bindO (indexInsert e idxs rid) (\<lambda>_. retO rid) v))"
      by (rule onward.bind) (simp add: onwardD)
  qed
qed

lemma Insert_onward:
  assumes "settled e w0 w" and "roomIn w"
  shows "onward e w0 w (snd (Insert e vs w))"
  unfolding Insert_def
proof (rule calm_then [OF assms lasting_room assignAutoInc_calm], assumption)
  fix vs' v assume s: "settled e w0 v" and room: "roomIn v"
  have "onward e w0 v (snd (bindO (maintainedIndexes e) (\<lambda>indexes. bindO (checkConstraints rec) (\<lambda>_.
     bindO (indexRoom indexes) (\<lambda>_. bindO (checkKeyIndexes e indexes rec None) (\<lambda>_.
     bindO (freeSlot e) (\<lambda>rid. bindO (placeRecord rid rec) (\<lambda>_. bindO (raiseAutoInc rec) (\<lambda>_.
     bindO (indexInsert e indexes rid) (\<lambda>_. retO rid)))))))) v))" for rec
  proof (rule indexes_then [OF s room lasting_room])
    fix idxs u
    let ?P = "\<lambda>w. roomIn w \<and> idxsApart w idxs"
    note P = lasting_and [OF lasting_room lasting_idxs, of e idxs]
    have last: "onward e w0 x (snd (bindO (freeSlot e) (\<lambda>rid. bindO (placeRecord rid rec) (\<lambda>_. bindO (raiseAutoInc rec) (\<lambda>_.
       bindO (indexInsert e idxs rid) (\<lambda>_. retO rid)))) x))" if "settled e w0 x" and "?P x" for x
    proof (rule onward.bind)
      have ok: "writer_ok e x" using that(1) by (simp add: settled_def)
      show "onward e w0 x (snd (freeSlot e x))" using that ok by (intro onward_calm freeSlot_calm) simp_all
      fix rid x' assume on: "onward e w0 x x'"
      show "onward e w0 x' (snd (bindO (placeRecord rid rec) (\<lambda>_. bindO (raiseAutoInc rec) (\<lambda>_.
         bindO (indexInsert e idxs rid) (\<lambda>_. retO rid))) x'))"
        using that(2) isDataPage_onward [OF on] by (intro Insert_tail_onward onwardD(1) [OF on]) (simp add: idxsApart_def)
    qed
    assume "settled e w0 u" "roomIn u" "idxsApart u idxs"
    then show "onward e w0 u (snd (bindO (checkConstraints rec) (\<lambda>_. bindO (indexRoom idxs) (\<lambda>_.
       bindO (checkKeyIndexes e idxs rec None) (\<lambda>_. bindO (freeSlot e) (\<lambda>rid. bindO (placeRecord rid rec) (\<lambda>_.
       bindO (raiseAutoInc rec) (\<lambda>_. bindO (indexInsert e idxs rid) (\<lambda>_. retO rid))))))) u))"
      by (intro calm_then [where P = ?P, OF _ _ P] checkConstraints_calm indexRoom_calm checkKeyIndexes_calm last) simp_all
  qed
  then show "onward e w0 v (snd (bindO (getO (\<lambda>w. encodeRecord (ansiEncode (weCodec e)) (wLayout w) vs')) (\<lambda>r.
     bindO (liftO r) (\<lambda>rec. bindO (maintainedIndexes e) (\<lambda>indexes. bindO (checkConstraints rec) (\<lambda>_.
     bindO (indexRoom indexes) (\<lambda>_. bindO (checkKeyIndexes e indexes rec None) (\<lambda>_.
     bindO (freeSlot e) (\<lambda>rid. bindO (placeRecord rid rec) (\<lambda>_. bindO (raiseAutoInc rec) (\<lambda>_.
     bindO (indexInsert e indexes rid) (\<lambda>_. retO rid)))))))))) v))"
    using s by (auto simp: bindO_def [of "liftO r" for r] liftO_def split: sum.splits)
qed

section \<open>Sequences of operations\<close>

text \<open>Any operations in any order, the ones that fail included; an insertion finds a free slot.\<close>

inductive writes :: "wenv \<Rightarrow> tableWriter \<Rightarrow> tableWriter \<Rightarrow> bool" for e w0 where
  opened: "writes e w0 w0"
| inserted: "writes e w0 w \<Longrightarrow> roomIn w \<Longrightarrow> Insert e vs w = (r, w') \<Longrightarrow> writes e w0 w'"
| updated: "writes e w0 w \<Longrightarrow> Update e rid vs w = (r, w') \<Longrightarrow> writes e w0 w'"
| column_updated: "writes e w0 w \<Longrightarrow> UpdateColumn e rid col v w = (r, w') \<Longrightarrow> writes e w0 w'"
| deleted: "writes e w0 w \<Longrightarrow> Delete e rid w = (r, w') \<Longrightarrow> writes e w0 w'"
| looked_up: "writes e w0 w \<Longrightarrow> writerRecord rid w = (r, w') \<Longrightarrow> writes e w0 w'"

lemma writes_settled:
  assumes "writes e w0 w" and "settled e w0 w0"
  shows "settled e w0 w"
  using assms(1)
proof induction
  case (inserted w vs r w')
  then show ?case using onwardD(1) [OF Insert_onward [of e w0 w vs]] by simp
next
  case (updated w rid vs r w')
  then show ?case using onwardD(1) [OF Update_onward [of e w0 w rid vs]] by simp
next
  case (column_updated w rid col v r w')
  then show ?case using onwardD(1) [OF UpdateColumn_onward [of e w0 w rid col v]] by simp
next
  case (deleted w rid r w')
  then show ?case using onwardD(1) [OF Delete_onward [of e w0 w rid]] by simp
next
  case (looked_up w rid r w')
  then show ?case
    using onwardD(1) [OF onward_calm, of e w0 w w'] writerRecord_calm [of e w rid] by (simp add: settled_def)
qed (rule assms(2))

end
