(* ===== verification/Writer_Claims.thy ===== *)
theory Writer_Claims
  imports Writer_Counts Samples
begin

text \<open>
  The property of the table writer: from opening on, whatever is inserted, updated and deleted, the file
  stays as it was and the counts of changes follow the records, so that the counters written at commit
  are those of the records.
\<close>

section \<open>A writer as it is opened\<close>

definition freshWriter :: "tableWriter \<Rightarrow> bool" where
  "freshWriter w \<longleftrightarrow> edPages w = Map.empty \<and> edOrder w = [] \<and> wDelta w = [] \<and> wIndexes w = None \<and> \<not> wGone w
     \<and> (\<exists>cols. wLayout w = computeLayout (payloadSize (edDb w)) cols)
     \<and> (\<forall>no \<in> set (wDataPages w). \<exists>p. ReadPage (edDb w) (int no) = Inr p \<and> Header p \<noteq> None)"

lemma seekOccupied_fields:
  "rdLayout (snd (seekOccupied r)) = rdLayout r \<and> dataPages (snd (seekOccupied r)) = dataPages r"
proof (induction r rule: seekOccupied.induct)
  case (1 r)
  let ?i = "seekSlot (rdLayout r) (pageData r) (recordIdx r)"
  let ?r1 = "r\<lparr>recordIdx := ?i, pageIdx := pageIdx r + 1\<rparr>"
  show ?case
  proof (cases "?i < recsPerPage (rdLayout r) \<or> pageIdx ?r1 \<ge> length (dataPages ?r1)")
    case True
    then show ?thesis by (subst (1 2) seekOccupied.simps) (auto simp: Let_def)
  next
    case False
    obtain x r2 where load: "Reader.loadPage ?r1 = (x, r2)" by (cases "Reader.loadPage ?r1")
    note f = loadPage_fields [OF load]
    show ?thesis
    proof (cases x)
      case (Inl e)
      then show ?thesis using False load f by (subst (1 2) seekOccupied.simps) (auto simp: Let_def)
    next
      case (Inr u)
      have "seekOccupied r = seekOccupied r2" using False load Inr by (subst seekOccupied.simps) (auto simp: Let_def)
      then show ?thesis using 1 [OF refl _ refl _ load [symmetric]] False Inr f by auto
    qed
  qed
qed

lemma Next_fields: "rdLayout (snd (Next r)) = rdLayout r \<and> dataPages (snd (Next r)) = dataPages r"
proof -
  obtain x r1 where load: "Reader.loadPage (r\<lparr>started := True, pageIdx := 0\<rparr>) = (x, r1)"
    by (cases "Reader.loadPage (r\<lparr>started := True, pageIdx := 0\<rparr>)")
  have "rdLayout r1 = rdLayout r \<and> dataPages r1 = dataPages r" using loadPage_fields [OF load] by simp
  then show ?thesis by (cases x) (simp_all add: Next_def load seekOccupied_fields)
qed

lemma validateLayout_fields: "rdLayout (snd (validateLayout r)) = rdLayout r \<and> dataPages (snd (validateLayout r)) = dataPages r"
  using Next_fields [of r] by (cases "Next r") (simp add: validateLayout_def Let_def)

lemma dataPagesFrom_read:
  "dataPagesFrom db t nos = Inr pages \<Longrightarrow> no \<in> set pages \<Longrightarrow> \<exists>p. ReadPage db (int no) = Inr p \<and> Header p \<noteq> None"
proof (induction nos arbitrary: pages)
  case (Cons n nos)
  then show ?case by (auto simp: ownDataPage_def split: if_splits option.splits)
qed simp

lemma OpenWriter_fresh: "OpenWriter e db t = Inr w \<Longrightarrow> freshWriter w \<and> edDb w = db"
proof -
  assume run: "OpenWriter e db t = Inr w"
  then obtain r where opened: "openTable (weZlib e) (weCodec e) (weFold e) db t = Inr r"
    and w: "w = \<lparr>edDb = db, edPages = Map.empty, edOrder = [], wTable = t, wLayout = rdLayout r,
          wDataPages = dataPages r, wDelta = [], wIndexes = None, wChecks = \<lparr>ckNotNull = [], ckBounds = []\<rparr>,
          wAutoInc = None, wTouched = 0, wClosed = False, wGone = False\<rparr>"
    by (auto simp: OpenWriter_def split: if_splits)
  obtain cols pages where pages: "tableDataPages db t = Inr pages"
    and run: "(case validateLayout (newLayoutReader db cols pages) of (Some e, r) \<Rightarrow> Inl e | (None, r) \<Rightarrow> Inr r) = Inr r"
    using opened by (auto simp: openTable_def)
  then have val: "validateLayout (newLayoutReader db cols pages) = (None, r)"
    by (cases "validateLayout (newLayoutReader db cols pages)") (auto split: option.splits)
  have "rdLayout r = computeLayout (payloadSize db) cols" "dataPages r = pages"
    using validateLayout_fields [of "newLayoutReader db cols pages"] val by (simp_all add: newLayoutReader_def)
  then show ?thesis
    using w dataPagesFrom_read pages by (auto simp: freshWriter_def tableDataPages_def)
qed

lemma bitmap_covers: "recsPerPage (computeLayout p cols) \<le> 8 * bitmapBytes (computeLayout p cols)"
  by simp

lemma fresh_settled:
  assumes "freshWriter w" and "file_ok (edDb w)" and "cipher_lawful (edDb w)" and "indexesApart e w"
  shows "settled e w w"
proof -
  have f: "edPages w = Map.empty" "edOrder w = []" "wDelta w = []" "wIndexes w = None" "\<not> wGone w"
    using assms(1) by (simp_all add: freshWriter_def)
  obtain cols where l: "wLayout w = computeLayout (payloadSize (edDb w)) cols" using assms(1) by (auto simp: freshWriter_def)
  have "writer_ok e w" using assms(2-4) f by (simp add: writer_ok_def edit_ok_def)
  moreover have "bufferedCount w no = storedCount w no + deltaOf (wDelta w) (int no)" for no
    by (simp add: bufferedCount_def storedCount_def editPayload_def f deltaOf_def)
  ultimately show ?thesis unfolding settled_def using bitmap_covers [of "payloadSize (edDb w)" cols] l by (simp add: same_table_def)
qed

section \<open>The count of a page\<close>

lemma writerLoadPage_runs:
  assumes "writer_ok e w" and "ReadPage (edDb w) (int no) = Inr p" and "Header p \<noteq> None"
  obtains w1 where "writerLoadPage (int no) w = (Inr no, w1)"
proof -
  obtain h where "Header p = Some h" using assms(3) by blast
  then have "\<exists>b. bufferPage (edDb w) (int no) = Inr b" using assms(2) by (simp add: bufferPage_def)
  then have "\<exists>w1. writerLoadPage (int no) w = (Inr no, w1)"
    using assms(1) by (auto simp: writerLoadPage_def writer_ok_def load_def loadWith_alt)
  then show ?thesis using that by blast
qed

lemma updatePageCount_run:
  assumes ok: "writer_ok e w" and no: "no \<in> set (wDataPages w)" and p: "ReadPage (edDb w) (int no) = Inr p" "Header p \<noteq> None"
    and q: "editPayload w no = Inr q" and k: "k \<in> dom (edPages w)"
    and off: "off = btreeHeaderSize + i * recordPageEntrySize" "off + 6 \<le> length (wPayload k w)"
    and entry: "getI32 (wPayload k w) off = int no"
    and old: "int (unat (getU16 (wPayload k w) (off + 4))) = int (occupiedCount (wLayout w) q) - deltaOf (wDelta w) (int no)"
    and small: "occupiedCount (wLayout w) q < 2 ^ 16"
  shows "\<exists>w'. updatePageCount k i w = (Inr (), w') \<and> unat (getU16 (wPayload k w') (off + 4)) = occupiedCount (wLayout w) q"
proof (cases "deltaOf (wDelta w) (int no) = 0")
  case True
  then have "updatePageCount k i w = (Inr (), w)" using off entry by (simp add: updatePageCount_def Let_def)
  moreover have "unat (getU16 (wPayload k w) (off + 4)) = occupiedCount (wLayout w) q"
    using old by (simp only: True diff_0_right of_nat_eq_iff)
  ultimately show ?thesis by blast
next
  case False
  let ?n = "occupiedCount (wLayout w) q"
  obtain w1 where load: "writerLoadPage (int no) w = (Inr no, w1)" using writerLoadPage_runs [OF ok p] by blast
  note res = writerLoadPage_result [OF ok load]
  have dp: "dataPage (int no) w = (Inr no, w1)" using no load by (simp add: dataPage_def isDataPage_def)
  have edit: "edit_ok w" using ok by (simp add: writer_ok_def)
  have run: "load (int no) w = (Inr no, w1)" using load ok by (simp add: writerLoadPage_def writer_ok_def)
  have same: "wPayload k w1 = wPayload k w"
    using load_spec(8) [OF edit loader_intros(1) run k] by (simp add: wPayload_def)
  have "editPayload w1 no = Inr q" and lay: "wLayout w1 = wLayout w" using res(4) no q by (simp_all add: calm_def same_table_def)
  then have "wPayload no w1 = q" using res(3) by (simp add: editPayload_dom wPayload_def)
  then have occ: "occupiedSlots (int no) w = (Inr (int ?n), w1)"
    using dp lay by (simp add: occupiedSlots_def bindO_def occupiedCount_def)
  have k1: "k \<in> dom (edPages w1)" using res(4) k by (auto simp: calm_def)
  let ?p = "splice (off + 4) (leU16 (word_of_int (int ?n))) (wPayload k w1)"
  have "updatePageCount k i w = putPayload k ?p w1"
    using occ off entry old False small same
    by (simp add: updatePageCount_def Let_def bindO_def [of "occupiedSlots x" for x] of_nat_unat)
  moreover have "wPayload k (snd (putPayload k ?p w1)) = ?p"
    using putPayload_ok(6) [OF calm_ok [OF res(4)] k1, of ?p k] by simp
  moreover have "fst (putPayload k ?p w1) = Inr ()" by (simp add: putPayload_def)
  moreover have "unat (getU16 ?p (off + 4)) = ?n"
    using off(2) same small by (simp add: unat_of_nat)
  ultimately show ?thesis by (metis prod.collapse)
qed

text \<open>C39. Between opening a table for writing and committing, whatever sequence of insertions (where there is
  a free slot), updates, column updates, deletions and lookups is run, the failing ones included, the file is
  not touched, and for each data page the number of records in the buffers is the number on the file plus the
  change the writer has counted; so an entry of the record-page index that holds the number on the file is
  brought to the number of records, and never reported as a mismatch.\<close>

theorem counts_follow_records:
  assumes "freshWriter w0" and "file_ok (edDb w0)" and "cipher_lawful (edDb w0)" and "indexesApart e w0"
    and "writes e w0 w" and "no \<in> set (wDataPages w0)"
  shows "edDb w = edDb w0 \<and> wDataPages w = wDataPages w0 \<and> (\<exists>p q. ReadPage (edDb w0) (int no) = Inr p \<and> editPayload w no = Inr q
    \<and> int (occupiedCount (wLayout w) q) = int (occupiedCount (wLayout w) (Payload p)) + deltaOf (wDelta w) (int no)
    \<and> (\<forall>k i. let off = btreeHeaderSize + i * recordPageEntrySize in
        k \<in> dom (edPages w) \<and> off + 6 \<le> length (wPayload k w) \<and> getI32 (wPayload k w) off = int no
        \<and> unat (getU16 (wPayload k w) (off + 4)) = occupiedCount (wLayout w) (Payload p)
        \<and> occupiedCount (wLayout w) q < 2 ^ 16 \<longrightarrow>
        (\<exists>w'. updatePageCount k i w = (Inr (), w')
          \<and> unat (getU16 (wPayload k w') (off + 4)) = occupiedCount (wLayout w) q)))"
proof -
  have s: "settled e w0 w" by (rule writes_settled [OF assms(5) fresh_settled [OF assms(1-4)]])
  then have ok: "writer_ok e w" and same: "edDb w = edDb w0" "wDataPages w = wDataPages w0" by (simp_all add: settled_def same_table_def)
  obtain p where p: "ReadPage (edDb w0) (int no) = Inr p" "Header p \<noteq> None" using assms(1,6) by (auto simp: freshWriter_def)
  obtain q where q: "editPayload w no = Inr q"
    using p(1) same(1) by (cases "edPages w no") (auto simp: editPayload_def)
  have count: "int (occupiedCount (wLayout w) q) = int (occupiedCount (wLayout w) (Payload p)) + deltaOf (wDelta w) (int no)"
  proof -
    have "bufferedCount w no = storedCount w no + deltaOf (wDelta w) (int no)" using s assms(6) same(2) by (simp add: settled_def)
    then show ?thesis using p q same(1) by (simp add: bufferedCount_def storedCount_def countIn_def)
  qed
  show ?thesis
  proof (intro conjI exI [of _ p] exI [of _ q] allI)
    fix k i
    let ?off = "btreeHeaderSize + i * recordPageEntrySize"
    have no: "no \<in> set (wDataPages w)" and pw: "ReadPage (edDb w) (int no) = Inr p" using assms(6) same p by simp_all
    have old: "int n = int (occupiedCount (wLayout w) q) - deltaOf (wDelta w) (int no)"
      if "n = occupiedCount (wLayout w) (Payload p)" for n using count that by simp
    note run = updatePageCount_run [OF ok no pw p(2) q, of k ?off i, OF _ refl _ _ old]
    show "let off = ?off in k \<in> dom (edPages w) \<and> off + 6 \<le> length (wPayload k w) \<and> getI32 (wPayload k w) off = int no
        \<and> unat (getU16 (wPayload k w) (off + 4)) = occupiedCount (wLayout w) (Payload p)
        \<and> occupiedCount (wLayout w) q < 2 ^ 16 \<longrightarrow>
        (\<exists>w'. updatePageCount k i w = (Inr (), w') \<and> unat (getU16 (wPayload k w') (off + 4)) = occupiedCount (wLayout w) q)"
      unfolding Let_def by (intro impI, elim conjE, rule run)
  qed (use same p q count in simp_all)
qed

section \<open>A deletion\<close>

definition deskPages :: "(u16 \<times> byte list) list" where
  "deskPages = [(2, []), (10, [1]), (10, []), (10, [3])]"

definition deskWriter :: tableWriter where
  "deskWriter = \<lparr>edDb = sampleFile 2 deskPages, edPages = Map.empty, edOrder = [],
     wTable = \<lparr>tblInfo = noInfo, sole = False, unlisted = True\<rparr>,
     wLayout = computeLayout 380 [sampleColumn 87 BftChar FieldString 180 1], wDataPages = [1, 2, 3], wDelta = [],
     wIndexes = None, wChecks = \<lparr>ckNotNull = [], ckBounds = []\<rparr>, wAutoInc = None, wTouched = 0, wClosed = False,
     wGone = False\<rparr>"

lemma desk_pages: "samplePages deskPages" "length deskPages = 4"
  by (simp_all add: deskPages_def samplePages_def)

lemma desk_read:
  assumes "n < 4"
  obtains p where "ReadPage (sampleFile 2 deskPages) (int n) = Inr p" and "Payload p = padTo 380 (snd (deskPages ! n))"
    and "Header p = Some (freshHeader 7 (fst (deskPages ! n)) 0)" and "fst (deskPages ! n) = 2 \<or> fst (deskPages ! n) = 10"
proof -
  have "n = 0 \<or> n = 1 \<or> n = 2 \<or> n = 3" using assms by linarith
  then have "fst (deskPages ! n) = 2 \<or> fst (deskPages ! n) = 10" by (auto simp: deskPages_def)
  moreover obtain p where "ReadPage (sampleFile 2 deskPages) (int n) = Inr p" "Payload p = padTo 380 (snd (deskPages ! n))"
    "Header p = Some (freshHeader 7 (fst (deskPages ! n)) 0)"
    using sample_read [OF desk_pages(1), of n 2] assms desk_pages(2) by metis
  ultimately show ?thesis using that by blast
qed

lemma desk_no_schema: "set nos \<subseteq> {..<4} \<Longrightarrow> findPageFrom (sampleFile 2 deskPages) PageTypeSchema nos = Inr (-1)"
proof (induction nos)
  case (Cons n nos)
  then obtain p where "ReadPage (sampleFile 2 deskPages) (int n) = Inr p" and "Header p = Some (freshHeader 7 (fst (deskPages ! n)) 0)"
    and "fst (deskPages ! n) = 2 \<or> fst (deskPages ! n) = 10"
    using desk_read [of n] by auto
  then show ?case using Cons by (auto simp: PageTypeSchema_def freshHeader_def)
qed simp

lemma desk_no_index: "set nos \<subseteq> {..<4} \<Longrightarrow> scanIndexPages (sampleFile 2 deskPages) nos = Inr ([], [])"
proof (induction nos)
  case (Cons n nos)
  then obtain p where "ReadPage (sampleFile 2 deskPages) (int n) = Inr p" and "Header p = Some (freshHeader 7 (fst (deskPages ! n)) 0)"
    and "fst (deskPages ! n) = 2 \<or> fst (deskPages ! n) = 10"
    using desk_read [of n] by auto
  then show ?case using Cons by (auto simp: PageTypeSchema_def PageTypeIndex_def freshHeader_def)
qed simp

lemma desk_fields:
  "edDb deskWriter = sampleFile 2 deskPages" "wDataPages deskWriter = [1, 2, 3]" "wIndexes deskWriter = None"
  "wClosed deskWriter = False" "wGone deskWriter = False" "edPages deskWriter = Map.empty" "wDelta deskWriter = []"
  "wTable deskWriter = \<lparr>tblInfo = noInfo, sole = False, unlisted = True\<rparr>" "edOrder deskWriter = []"
  "wLayout deskWriter = computeLayout 380 [sampleColumn 87 BftChar FieldString 180 1]"
  by (simp_all add: deskWriter_def)

lemma desk_tail: "tableSchemaTail e deskWriter = Inl ErrIndexNotMaintained"
  using desk_no_schema [of "[0..<4]"] desk_pages(2)
  by (simp add: tableSchemaTail_def schemaPageNo_def findPageByType_def PageCount_def desk_fields wrapErr_def atLeast0LessThan)

lemma desk_indexes: "maintainedIndexes e deskWriter = (Inr [], deskWriter\<lparr>wIndexes := Some (Inr [])\<rparr>)"
proof -
  have "schemas = [] \<Longrightarrow> applySchemas z cd db schemas [] = []" for z cd db schemas by simp
  then have "tableUserIndexes e deskWriter = Inr []"
    using desk_no_index [of "[0..<4]"] desk_pages(2)
    by (simp add: tableUserIndexes_def tableOpenIndex_def OpenIndex_def PageCount_def desk_fields UserIndexes_def atLeast0LessThan)
  then show ?thesis
    by (simp add: maintainedIndexes_def resolveIndexes_def desk_tail discoverIndexes_def desk_fields bindO_def Let_def)
qed

lemma desk_layout: "recsPerPage (wLayout deskWriter) = 2" "recordSize (wLayout deskWriter) = 182" "bitmapBytes (wLayout deskWriter) = 1"
proof -
  have two: "rppLoop 380 182 2 = 2" unfolding numeral_2_eq_2 by simp
  show "recsPerPage (wLayout deskWriter) = 2" "recordSize (wLayout deskWriter) = 182" "bitmapBytes (wLayout deskWriter) = 1"
    by (simp_all add: desk_fields computeLayout_def sampleColumn_def fieldStoreSize_def fixedFieldStoreSize_def
        bft_consts recordsPerPage_def Let_def two)
qed

lemma desk_fresh: "freshWriter deskWriter"
proof -
  have "\<exists>p. ReadPage (sampleFile 2 deskPages) (int no) = Inr p \<and> Header p \<noteq> None" if "no < 4" for no
    using desk_read [OF that] by blast
  from this [of 1] this [of 2] this [of 3]
  have "\<forall>no \<in> set [1, 2, 3]. \<exists>p. ReadPage (sampleFile 2 deskPages) (int no) = Inr p \<and> Header p \<noteq> None" by simp
  moreover have "payloadSize (sampleFile 2 deskPages) = 380" by (simp add: payloadSize_def layout_consts)
  ultimately show ?thesis unfolding freshWriter_def desk_fields by auto
qed

lemma desk_delete:
  "\<exists>w. Delete e \<lparr>ridPage = 3, ridSlot = 0\<rparr> deskWriter = (Inr (), w) \<and> wDelta w = [(3, -1)]"
proof -
  let ?w = "deskWriter\<lparr>wIndexes := Some (Inr [])\<rparr>" and ?rid = "\<lparr>ridPage = 3, ridSlot = 0\<rparr>"
  have three: "snd (deskPages ! 3) = [3]" by (simp add: deskPages_def)
  obtain p where p: "ReadPage (sampleFile 2 deskPages) 3 = Inr p" "Payload p = padTo 380 [3]"
    and h: "\<exists>h. Header p = Some h"
  proof (rule desk_read [of 3], simp)
    fix p assume a: "ReadPage (sampleFile 2 deskPages) (int 3) = Inr p" "Payload p = padTo 380 (snd (deskPages ! 3))"
      "Header p = Some (freshHeader 7 (fst (deskPages ! 3)) 0)"
    show thesis by (rule that [of p]) (use a three in simp_all)
  qed
  obtain b where b: "bufferPage (sampleFile 2 deskPages) 3 = Inr b" "bufPayload b = padTo 380 [3]"
    using p h by (auto simp: bufferPage_def Payload_def bufPayload_def)
  let ?w1 = "(putBuf 3 b ?w)\<lparr>edOrder := [3]\<rparr>"
  have load: "writerLoadPage 3 ?w = (Inr 3, ?w1)"
    using b(1) by (simp add: writerLoadPage_def load_def loadWith_def desk_fields)
  have "wPayload 3 ?w1 = padTo 380 [3]" using b(2) by (simp add: wPayload_def)
  moreover have "bitSet (padTo 380 [3 :: byte]) 0 1" by (simp add: bitSet_def testBit_def padTo_def bitMask_def)
  ultimately have "slot ?rid True ?w = (Inr (3, 1), ?w1)"
    using load by (simp add: slot_def dataPage_def isDataPage_def desk_fields(2,4) desk_layout bindO_def Let_def)
  then show ?thesis
    by (simp add: Delete_def desk_indexes bindO_def indexRemove_def putPayload_def touch_def desk_fields bumpDelta_def deltaOf_def)
qed

lemma counts_follow_records_witness:
  "\<forall>e. \<exists>w p q. Delete e \<lparr>ridPage = 3, ridSlot = 0\<rparr> deskWriter = (Inr (), w) \<and> edDb w = sampleFile 2 deskPages
     \<and> ReadPage (sampleFile 2 deskPages) 3 = Inr p \<and> editPayload w 3 = Inr q
     \<and> int (occupiedCount (wLayout w) q) = int (occupiedCount (wLayout w) (Payload p)) - 1"
proof
  fix e
  obtain w where w: "Delete e \<lparr>ridPage = 3, ridSlot = 0\<rparr> deskWriter = (Inr (), w)" "wDelta w = [(3, -1)]"
    using desk_delete by blast
  have "writes e deskWriter w" by (rule writes.deleted [OF writes.opened w(1)])
  moreover have "indexesApart e deskWriter" by (simp add: indexesApart_def desk_tail)
  ultimately show "\<exists>w p q. Delete e \<lparr>ridPage = 3, ridSlot = 0\<rparr> deskWriter = (Inr (), w) \<and> edDb w = sampleFile 2 deskPages
     \<and> ReadPage (sampleFile 2 deskPages) 3 = Inr p \<and> editPayload w 3 = Inr q
     \<and> int (occupiedCount (wLayout w) q) = int (occupiedCount (wLayout w) (Payload p)) - 1"
    using counts_follow_records [OF desk_fresh, of e w 3] w sampleFile_file_ok [OF desk_pages(1)] sampleFile_lawful
    by (auto simp: desk_fields deltaOf_def)
qed

section \<open>A writer that was rolled back\<close>

text \<open>The page map of a writer that was rolled back is nil; an insertion panics instead of refusing.\<close>

lemma rolled_back_insert_panics:
  assumes "encodeRecord (ansiEncode (weCodec e)) (wLayout w) vs = Inr rec" and "wAutoInc w = Some (Inr [])"
    and "wIndexes w = Some (Inr [])" and "noChecks (wChecks w)" and "wDataPages w = no # nos" and "bufferPage (edDb w) (int no) = Inr b"
  shows "Insert e vs (Rollback w) = (Inl GoPanic, Rollback w)"
proof -
  let ?w = "Rollback w"
  have f: "wAutoInc ?w = Some (Inr [])" "wIndexes ?w = Some (Inr [])" "wChecks ?w = wChecks w" "wDataPages ?w = no # nos"
    "edDb ?w = edDb w" "wGone ?w" "wLayout ?w = wLayout w" using assms by (simp_all add: Rollback_def)
  have "freeSlot e ?w = (Inl GoPanic, ?w)"
    using f assms(6) by (simp add: freeSlot_def bindO_def dataPage_def isDataPage_def writerLoadPage_def)
  moreover have "assignAutoInc vs ?w = (Inr vs, ?w)" using f by (simp add: assignAutoInc_def autoIncCounters_def bindO_def)
  moreover have "maintainedIndexes e ?w = (Inr [], ?w)" using f by (simp add: maintainedIndexes_def)
  moreover have "checkConstraints rec ?w = (Inr (), ?w)" using f assms(4) by (simp add: checkConstraints_def bindO_def)
  ultimately show ?thesis
    using assms(1) f by (simp add: Insert_def bindO_def indexRoom_def checkKeyIndexes_def)
qed

end
