(* ===== verification/Zlib_Tables.thy ===== *)
theory Zlib_Tables
  imports Prelude
begin

text \<open>
  The constants and code tables of the level 1 compressor (\<open>internal/zlib1/tables.go\<close>), the bit
  writer (\<open>bits.go\<close>) and the assignment of canonical codes (\<open>genCodes\<close> of \<open>trees.go\<close>). Arrays are lists;
  an index is never outside its array in the code as in zlib.
\<close>

section \<open>Constants\<close>

definition maxBits :: nat where "maxBits = 15"
definition maxBlBits :: nat where "maxBlBits = 7"
definition literals :: nat where "literals = 256"
definition lengthCodes :: nat where "lengthCodes = 29"
definition lCodes :: nat where "lCodes = literals + 1 + lengthCodes"
definition dCodes :: nat where "dCodes = 30"
definition blCodes :: nat where "blCodes = 19"
definition heapSize :: nat where "heapSize = 2 * lCodes + 1"
definition endBlock :: nat where "endBlock = 256"
definition rep36 :: nat where "rep36 = 16"
definition repz310 :: nat where "repz310 = 17"
definition repz11138 :: nat where "repz11138 = 18"
definition storedBlock :: u32 where "storedBlock = 0"
definition staticTrees :: u32 where "staticTrees = 1"
definition dynTrees :: u32 where "dynTrees = 2"
definition bufSize :: nat where "bufSize = 16"
definition minMatch :: nat where "minMatch = 3"
definition maxMatch :: nat where "maxMatch = 258"

lemmas zlib_consts = maxBits_def maxBlBits_def literals_def lengthCodes_def lCodes_def dCodes_def blCodes_def
  heapSize_def endBlock_def rep36_def repz310_def repz11138_def bufSize_def minMatch_def maxMatch_def

definition extraLbits :: "nat list" where
  "extraLbits =
    [0, 0, 0, 0, 0, 0, 0, 0, 1, 1, 1, 1, 2, 2, 2, 2,
     3, 3, 3, 3, 4, 4, 4, 4, 5, 5, 5, 5, 0]"

definition extraDbits :: "nat list" where
  "extraDbits =
    [0, 0, 0, 0, 1, 1, 2, 2, 3, 3, 4, 4, 5, 5, 6, 6,
     7, 7, 8, 8, 9, 9, 10, 10, 11, 11, 12, 12, 13, 13]"

definition extraBlbits :: "nat list" where
  "extraBlbits = [0, 0, 0, 0, 0, 0, 0, 0, 0, 0, 0, 0, 0, 0, 0, 0, 2, 3, 7]"

definition blOrder :: "nat list" where
  "blOrder = [16, 17, 18, 0, 8, 7, 9, 6, 10, 5, 11, 4, 12, 3, 13, 2, 14, 1, 15]"

section \<open>The bit writer\<close>

record bitWriter =
  bwOut :: "byte list"
  biBuf :: u16
  biValid :: nat

definition putByte :: "byte \<Rightarrow> 'a bitWriter_scheme \<Rightarrow> 'a bitWriter_scheme" where
  "putByte b w = w\<lparr>bwOut := bwOut w @ [b]\<rparr>"

definition putShort :: "u16 \<Rightarrow> 'a bitWriter_scheme \<Rightarrow> 'a bitWriter_scheme" where
  "putShort v w = w\<lparr>bwOut := bwOut w @ [ucast v, ucast (drop_bit 8 v)]\<rparr>"

definition sendBits :: "u32 \<Rightarrow> nat \<Rightarrow> 'a bitWriter_scheme \<Rightarrow> 'a bitWriter_scheme" where
  "sendBits value len w =
     (let val = ucast value :: u16 in
      if biValid w > bufSize - len then
        let w1 = w\<lparr>biBuf := biBuf w OR push_bit (biValid w) val\<rparr>; w2 = putShort (biBuf w1) w1 in
        w2\<lparr>biBuf := drop_bit (bufSize - biValid w2) val, biValid := biValid w2 + len - bufSize\<rparr>
      else w\<lparr>biBuf := biBuf w OR push_bit (biValid w) val, biValid := biValid w + len\<rparr>)"

definition biFlush :: "'a bitWriter_scheme \<Rightarrow> 'a bitWriter_scheme" where
  "biFlush w =
     (if biValid w = bufSize then (putShort (biBuf w) w)\<lparr>biBuf := 0, biValid := 0\<rparr>
      else if biValid w \<ge> 8 then (putByte (ucast (biBuf w)) w)\<lparr>biBuf := drop_bit 8 (biBuf w), biValid := biValid w - 8\<rparr>
      else w)"

definition biWindup :: "'a bitWriter_scheme \<Rightarrow> 'a bitWriter_scheme" where
  "biWindup w =
     (let w1 = if biValid w > 8 then putShort (biBuf w) w
               else if biValid w > 0 then putByte (ucast (biBuf w)) w
               else w in
      w1\<lparr>biBuf := 0, biValid := 0\<rparr>)"

fun biReverseLoop :: "u32 \<Rightarrow> nat \<Rightarrow> u32 \<Rightarrow> u32" where
  "biReverseLoop code 0 res = drop_bit 1 res"
| "biReverseLoop code (Suc len) res = biReverseLoop (drop_bit 1 code) len (push_bit 1 (res OR (code AND 1)))"

definition biReverse :: "u32 \<Rightarrow> nat \<Rightarrow> u32" where
  "biReverse code len = biReverseLoop code len 0"

section \<open>Code trees\<close>

record ctData =
  freq :: u16
  ctCode :: u16
  dad :: u16
  ctLen :: u16

definition noCt :: ctData where
  "noCt = \<lparr>freq = 0, ctCode = 0, dad = 0, ctLen = 0\<rparr>"

text \<open>Changing one entry of a tree.\<close>

definition editCt :: "nat \<Rightarrow> (ctData \<Rightarrow> ctData) \<Rightarrow> ctData list \<Rightarrow> ctData list" where
  "editCt n f tree = tree[n := f (tree ! n)]"

text \<open>The first code of every length: the loop over \<open>bits\<close> of \<open>genCodes\<close>.\<close>

definition firstCodes :: "u16 list \<Rightarrow> u16 list" where
  "firstCodes blCount =
     snd (foldl (\<lambda>(code, next) bits. let code' = push_bit 1 (code + blCount ! (bits - 1)) in (code', next[bits := code']))
       (0, replicate (maxBits + 1) 0) [1..<maxBits + 1])"

definition genCode :: "ctData list \<times> u16 list \<Rightarrow> nat \<Rightarrow> ctData list \<times> u16 list" where
  "genCode = (\<lambda>(tree, next) n.
     (let len = unat (ctLen (tree ! n)) in
      if len = 0 then (tree, next)
      else (editCt n (\<lambda>c. c\<lparr>ctCode := ucast (biReverse (ucast (next ! len)) len)\<rparr>) tree,
            next[len := next ! len + 1])))"

definition genCodes :: "nat \<Rightarrow> u16 list \<Rightarrow> ctData list \<Rightarrow> ctData list" where
  "genCodes maxCode blCount tree = fst (foldl genCode (tree, firstCodes blCount) [0..<maxCode + 1])"

section \<open>Tables\<close>

definition buildBaseLength :: "nat list" where
  "buildBaseLength =
     fst (foldl (\<lambda>(base, len) code. (base[code := len], len + 2 ^ (extraLbits ! code)))
       (replicate lengthCodes 0, 0) [0..<lengthCodes - 1])"

definition buildLengthCode :: "byte list" where
  "buildLengthCode =
     (let (codes, len) = foldl (\<lambda>(codes, len) code.
            (splice len (replicate (2 ^ (extraLbits ! code)) (word_of_nat code)) codes, len + 2 ^ (extraLbits ! code)))
          (replicate (maxMatch - minMatch + 1) 0, 0) [0..<lengthCodes - 1] in
      codes[len - 1 := word_of_nat (lengthCodes - 1)])"

definition buildBaseDist :: "nat list" where
  "buildBaseDist =
     (let (base, dist) = foldl (\<lambda>(base, dist) code. (base[code := dist], dist + 2 ^ (extraDbits ! code)))
            (replicate dCodes 0, 0) [0..<16] in
      fst (foldl (\<lambda>(base, dist) code. (base[code := dist * 2 ^ 7], dist + 2 ^ (extraDbits ! code - 7)))
            (base, dist div 2 ^ 7) [16..<dCodes]))"

definition buildDistCode :: "byte list" where
  "buildDistCode =
     (let (codes, dist) = foldl (\<lambda>(codes, dist) code.
            (splice dist (replicate (2 ^ (extraDbits ! code)) (word_of_nat code)) codes, dist + 2 ^ (extraDbits ! code)))
          (replicate 512 0, 0) [0..<16] in
      fst (foldl (\<lambda>(codes, dist) code.
            (splice (256 + dist) (replicate (2 ^ (extraDbits ! code - 7)) (word_of_nat code)) codes,
             dist + 2 ^ (extraDbits ! code - 7)))
          (codes, dist div 2 ^ 7) [16..<dCodes]))"

definition baseLength :: "nat list" where "baseLength = buildBaseLength"
definition lengthCode :: "byte list" where "lengthCode = buildLengthCode"
definition baseDist :: "nat list" where "baseDist = buildBaseDist"
definition distCode :: "byte list" where "distCode = buildDistCode"

definition dCode :: "nat \<Rightarrow> nat" where
  "dCode dist = (if dist < 256 then unat (distCode ! dist) else unat (distCode ! (256 + dist div 2 ^ 7)))"

definition setLens :: "nat \<Rightarrow> nat \<Rightarrow> u16 \<Rightarrow> ctData list \<times> u16 list \<Rightarrow> ctData list \<times> u16 list" where
  "setLens from to' bits = (\<lambda>(tree, blCount).
     (fold (\<lambda>n. editCt n (\<lambda>c. c\<lparr>ctLen := bits\<rparr>)) [from..<to' + 1] tree,
      blCount[unat bits := blCount ! unat bits + word_of_nat (to' + 1 - from)]))"

definition buildStaticLtree :: "ctData list" where
  "buildStaticLtree =
     (case setLens 280 287 8 (setLens 256 279 7 (setLens 144 255 9 (setLens 0 143 8
             (replicate (lCodes + 2) noCt, replicate (maxBits + 1) 0)))) of
        (tree, blCount) \<Rightarrow> genCodes (lCodes + 1) blCount tree)"

definition buildStaticDtree :: "ctData list" where
  "buildStaticDtree = map (\<lambda>n. noCt\<lparr>ctLen := 5, ctCode := ucast (biReverse (word_of_nat n) 5)\<rparr>) [0..<dCodes]"

definition staticLtree :: "ctData list" where "staticLtree = buildStaticLtree"
definition staticDtree :: "ctData list" where "staticDtree = buildStaticDtree"

section \<open>What the bit writer writes\<close>

text \<open>
  The stream a writer stands for: the bits of the bytes put out, low bit first, and the bits still in the
  accumulator. \<open>sendBits\<close> appends the low bits of its value and nothing else.
\<close>

definition bitsOf :: "nat \<Rightarrow> 'a::len word \<Rightarrow> bool list" where
  "bitsOf n x = map (bit x) [0..<n]"

definition stream :: "'a bitWriter_scheme \<Rightarrow> bool list" where
  "stream w = concat (map (bitsOf 8) (bwOut w)) @ bitsOf (biValid w) (biBuf w)"

definition writer_ok :: "'a bitWriter_scheme \<Rightarrow> bool" where
  "writer_ok w \<longleftrightarrow> biValid w \<le> bufSize \<and> (\<forall>i \<ge> biValid w. \<not> bit (biBuf w) i)"

lemma length_bitsOf [simp]: "length (bitsOf n x) = n"
  by (simp add: bitsOf_def)

lemma nth_bitsOf [simp]: "i < n \<Longrightarrow> bitsOf n x ! i = bit x i"
  by (simp add: bitsOf_def)

lemma bitsOf_0 [simp]: "bitsOf 0 x = []"
  by (simp add: bitsOf_def)

text \<open>Cutting the bits of a value in two.\<close>

lemma bitsOf_split:
  assumes "\<And>i. i < n \<Longrightarrow> bit a i = bit x i" and "\<And>i. i < k \<Longrightarrow> bit b i = bit x (n + i)"
  shows "bitsOf n a @ bitsOf k b = bitsOf (n + k) x"
proof (rule nth_equalityI)
  fix i assume i: "i < length (bitsOf n a @ bitsOf k b)"
  show "(bitsOf n a @ bitsOf k b) ! i = bitsOf (n + k) x ! i"
  proof (cases "i < n")
    case True
    then show ?thesis using assms(1) by (simp add: nth_append)
  next
    case False
    then show ?thesis using assms(2) [of "i - n"] i by (simp add: nth_append)
  qed
qed simp

lemma two_bytes: "bitsOf 8 (ucast v :: byte) @ bitsOf 8 (ucast (drop_bit 8 v) :: byte) = bitsOf 16 (v :: u16)"
  using bitsOf_split [of 8 "ucast v :: byte" v 8 "ucast (drop_bit 8 v) :: byte"] by (simp add: bit_simps)

lemma stream_putShort:
  "stream (putShort v w) = concat (map (bitsOf 8) (bwOut w)) @ bitsOf 16 v @ bitsOf (biValid w) (biBuf w)"
  by (simp add: stream_def putShort_def two_bytes [symmetric])

lemma bits_or_push:
  assumes "n + k \<le> 16" and "\<forall>i \<ge> n. \<not> bit (x :: u16) i"
  shows "bitsOf (n + k) (x OR push_bit n v) = bitsOf n x @ bitsOf k v"
  using assms by (intro bitsOf_split [symmetric]) (auto simp: bit_simps)

lemma sendBits_cases:
  "biValid w > 16 - len \<Longrightarrow> sendBits value len w =
     w\<lparr>bwOut := bwOut (putShort (biBuf w OR push_bit (biValid w) (ucast value)) w),
       biBuf := drop_bit (16 - biValid w) (ucast value), biValid := biValid w + len - 16\<rparr>"
  "\<not> biValid w > 16 - len \<Longrightarrow> sendBits value len w =
     w\<lparr>biBuf := biBuf w OR push_bit (biValid w) (ucast value), biValid := biValid w + len\<rparr>"
  by (simp_all add: sendBits_def putShort_def bufSize_def Let_def)

lemma sendBits_appends:
  assumes ok: "writer_ok w" and len: "len \<le> 16" and val: "\<forall>i \<ge> len. \<not> bit (ucast value :: u16) i"
  shows "stream (sendBits value len w) = stream w @ bitsOf len (ucast value :: u16)"
    and "writer_ok (sendBits value len w)"
proof -
  let ?v = "ucast value :: u16" and ?n = "biValid w"
  let ?buf = "biBuf w OR push_bit ?n ?v"
  have n: "?n \<le> 16" and z: "\<forall>i \<ge> ?n. \<not> bit (biBuf w) i" using ok by (auto simp: writer_ok_def bufSize_def)
  have "stream (sendBits value len w) = stream w @ bitsOf len ?v \<and> writer_ok (sendBits value len w)"
  proof (cases "?n > 16 - len")
    case False
    then have le: "?n + len \<le> 16" using len by simp
    have "\<not> bit ?buf i" if "?n + len \<le> i" for i
    proof -
      have "\<not> bit (biBuf w) i" using z that by simp
      moreover have "\<not> bit ?v (i - ?n)" using val that by simp
      ultimately show ?thesis by (simp add: bit_simps)
    qed
    then show ?thesis
      using bits_or_push [OF le z, of ?v] le
      by (simp add: sendBits_cases(2) [OF False] stream_def writer_ok_def bufSize_def)
  next
    case True
    let ?k = "16 - ?n"
    have cut: "bitsOf ?k ?v @ bitsOf (?n + len - 16) (drop_bit ?k ?v) = bitsOf len ?v"
    proof -
      have "?k + (?n + len - 16) = len" using True len n by simp
      then show ?thesis using bitsOf_split [of ?k ?v ?v "?n + len - 16" "drop_bit ?k ?v"] by (simp add: bit_simps)
    qed
    have full: "bitsOf 16 ?buf = bitsOf ?n (biBuf w) @ bitsOf ?k ?v"
      using bits_or_push [of ?n ?k "biBuf w" ?v] n z by simp
    have "\<not> bit (drop_bit ?k ?v) i" if "?n + len - 16 \<le> i" for i
    proof -
      have "len \<le> ?k + i" using that n by linarith
      then show ?thesis using val by (simp add: bit_simps)
    qed
    moreover have "?n + len - 16 \<le> 16" using n len by linarith
    moreover have "stream (sendBits value len w) = stream w @ bitsOf len ?v"
    proof -
      obtain b where b: "?buf = b" by blast
      show ?thesis
        unfolding cut [symmetric] using two_bytes [of b] full
        by (simp add: sendBits_cases(1) [OF True] stream_def putShort_def b)
    qed
    ultimately show ?thesis by (simp add: sendBits_cases(1) [OF True] writer_ok_def bufSize_def)
  qed
  then show "stream (sendBits value len w) = stream w @ bitsOf len ?v" "writer_ok (sendBits value len w)" by auto
qed

text \<open>\<open>biWindup\<close> pads the stream with fewer than eight zeros, to the next byte boundary.\<close>

lemma bitsOf_zero:
  assumes "\<forall>i \<ge> n. \<not> bit x i"
  shows "bitsOf (n + k) x = bitsOf n x @ replicate k False"
proof -
  have "bitsOf k (0 :: u16) = replicate k False" by (rule nth_equalityI) simp_all
  then show ?thesis using bitsOf_split [of n x x k "0 :: u16"] assms by simp
qed

lemma biWindup_pads:
  assumes ok: "writer_ok w"
  shows "\<exists>k < 8. stream (biWindup w) = stream w @ replicate k False"
    and "length (stream (biWindup w)) = 8 * length (bwOut (biWindup w))" and "writer_ok (biWindup w)"
proof -
  have n: "biValid w \<le> 16" and z: "\<forall>i \<ge> biValid w. \<not> bit (biBuf w) i"
    using ok by (auto simp: writer_ok_def bufSize_def)
  have low: "bitsOf 8 (ucast (biBuf w) :: byte) = bitsOf 8 (biBuf w)"
    using bitsOf_split [of 8 "ucast (biBuf w) :: byte" "biBuf w" 0 "0 :: byte"] by (simp add: bit_simps)
  consider "8 < biValid w" | "0 < biValid w" "biValid w \<le> 8" | "biValid w = 0" by linarith
  then show "\<exists>k < 8. stream (biWindup w) = stream w @ replicate k False"
  proof cases
    case 1
    have "stream (biWindup w) = stream w @ replicate (16 - biValid w) False"
      using bitsOf_zero [OF z, of "16 - biValid w"] 1 n
      by (simp add: biWindup_def stream_def putShort_def two_bytes Let_def)
    then show ?thesis using 1 n by (intro exI [of _ "16 - biValid w"]) simp
  next
    case 2
    have "stream (biWindup w) = stream w @ replicate (8 - biValid w) False"
      using bitsOf_zero [OF z, of "8 - biValid w"] 2 low
      by (simp add: biWindup_def stream_def putByte_def Let_def)
    then show ?thesis using 2 by (intro exI [of _ "8 - biValid w"]) simp
  next
    case 3
    then show ?thesis by (intro exI [of _ 0]) (simp add: biWindup_def stream_def)
  qed
  have "length (concat (map (bitsOf 8) (bs :: byte list))) = 8 * length bs" for bs by (induction bs) simp_all
  then show "length (stream (biWindup w)) = 8 * length (bwOut (biWindup w))"
    by (simp add: stream_def) (simp add: biWindup_def Let_def)
  show "writer_ok (biWindup w)" by (simp add: writer_ok_def biWindup_def Let_def)
qed

end
