(* ===== verification/Zlib_Trees.thy ===== *)
theory Zlib_Trees
  imports Zlib_Tables
begin

text \<open>
  The Huffman trees of the level 1 compressor (\<open>internal/zlib1/trees.go\<close>) over the compressor's state
  (\<open>deflate.go\<close>). A tree descriptor of the code points at one of the three trees of the state; here it is
  named by \<open>treeName\<close>.
\<close>

section \<open>The state\<close>

datatype treeName = LTree | DTree | BlTree

record deflateState = bitWriter +
  srcBytes :: "byte list"
  srcPos :: nat
  window :: "byte list"
  prevPos :: "u16 list"
  headPos :: "u16 list"
  highWater :: nat
  insH :: u32
  strstart :: nat
  lookahead :: nat
  insertCount :: nat
  blockStart :: int
  matchStart :: int
  matchLen :: nat
  prevLength :: nat
  symBuf :: "byte list"
  symNext :: nat
  matches :: nat
  dynLtree :: "ctData list"
  dynDtree :: "ctData list"
  blTree :: "ctData list"
  lMaxCode :: int
  dMaxCode :: int
  blMaxCode :: int
  blCount :: "u16 list"
  heap :: "nat list"
  depth :: "byte list"
  heapLen :: nat
  heapMax :: nat
  optLen :: u64
  staticLen :: u64
  maxBlindex :: nat

record staticTreeDesc =
  sdTree :: "ctData list option"
  sdExtraBits :: "nat list"
  sdExtraBase :: nat
  sdElems :: nat
  sdMaxLength :: nat

definition staticLDesc :: staticTreeDesc where
  "staticLDesc = \<lparr>sdTree = Some staticLtree, sdExtraBits = extraLbits, sdExtraBase = literals + 1,
     sdElems = lCodes, sdMaxLength = maxBits\<rparr>"

definition staticDDesc :: staticTreeDesc where
  "staticDDesc = \<lparr>sdTree = Some staticDtree, sdExtraBits = extraDbits, sdExtraBase = 0,
     sdElems = dCodes, sdMaxLength = maxBits\<rparr>"

definition staticBlDesc :: staticTreeDesc where
  "staticBlDesc = \<lparr>sdTree = None, sdExtraBits = extraBlbits, sdExtraBase = 0,
     sdElems = blCodes, sdMaxLength = maxBlBits\<rparr>"

text \<open>The fields of a \<open>treeDesc\<close>: the tree it points at, its static descriptor, and its \<open>maxCode\<close>.\<close>

fun descStat :: "treeName \<Rightarrow> staticTreeDesc" where
  "descStat LTree = staticLDesc"
| "descStat DTree = staticDDesc"
| "descStat BlTree = staticBlDesc"

fun dynTree :: "treeName \<Rightarrow> deflateState \<Rightarrow> ctData list" where
  "dynTree LTree s = dynLtree s"
| "dynTree DTree s = dynDtree s"
| "dynTree BlTree s = blTree s"

fun putTree :: "treeName \<Rightarrow> ctData list \<Rightarrow> deflateState \<Rightarrow> deflateState" where
  "putTree LTree t s = s\<lparr>dynLtree := t\<rparr>"
| "putTree DTree t s = s\<lparr>dynDtree := t\<rparr>"
| "putTree BlTree t s = s\<lparr>blTree := t\<rparr>"

fun descMaxCode :: "treeName \<Rightarrow> deflateState \<Rightarrow> int" where
  "descMaxCode LTree s = lMaxCode s"
| "descMaxCode DTree s = dMaxCode s"
| "descMaxCode BlTree s = blMaxCode s"

fun putMaxCode :: "treeName \<Rightarrow> int \<Rightarrow> deflateState \<Rightarrow> deflateState" where
  "putMaxCode LTree m s = s\<lparr>lMaxCode := m\<rparr>"
| "putMaxCode DTree m s = s\<lparr>dMaxCode := m\<rparr>"
| "putMaxCode BlTree m s = s\<lparr>blMaxCode := m\<rparr>"

definition onTree :: "treeName \<Rightarrow> nat \<Rightarrow> (ctData \<Rightarrow> ctData) \<Rightarrow> deflateState \<Rightarrow> deflateState" where
  "onTree t n f s = putTree t (editCt n f (dynTree t s)) s"

section \<open>The heap\<close>

definition smaller :: "deflateState \<Rightarrow> ctData list \<Rightarrow> nat \<Rightarrow> nat \<Rightarrow> bool" where
  "smaller s tree n m \<longleftrightarrow>
     freq (tree ! n) < freq (tree ! m) \<or> (freq (tree ! n) = freq (tree ! m) \<and> depth s ! n \<le> depth s ! m)"

text \<open>
  The loop of \<open>pqdownheap\<close>: \<open>v\<close> moves down from \<open>k\<close>, \<open>j\<close> is the left son of \<open>k\<close>. The sons' numbers grow, so
  the length of the heap is fuel enough.
\<close>

fun pqLoop :: "nat \<Rightarrow> ctData list \<Rightarrow> nat \<Rightarrow> nat \<Rightarrow> nat \<Rightarrow> deflateState \<Rightarrow> deflateState" where
  "pqLoop 0 tree v k j s = s\<lparr>heap := (heap s)[k := v]\<rparr>"
| "pqLoop (Suc fuel) tree v k j s =
     (if j \<le> heapLen s then
        let j = (if j < heapLen s \<and> smaller s tree (heap s ! (j + 1)) (heap s ! j) then j + 1 else j) in
        if smaller s tree v (heap s ! j) then s\<lparr>heap := (heap s)[k := v]\<rparr>
        else pqLoop fuel tree v j (2 * j) (s\<lparr>heap := (heap s)[k := heap s ! j]\<rparr>)
      else s\<lparr>heap := (heap s)[k := v]\<rparr>)"

definition pqdownheap :: "treeName \<Rightarrow> nat \<Rightarrow> deflateState \<Rightarrow> deflateState" where
  "pqdownheap t k s = pqLoop (heapLen s) (dynTree t s) (heap s ! k) k (2 * k) s"

text \<open>The first loop of \<open>initHeap\<close>: the symbols that occur become leaves.\<close>

definition heapLeaf :: "treeName \<Rightarrow> deflateState \<times> int \<Rightarrow> nat \<Rightarrow> deflateState \<times> int" where
  "heapLeaf t = (\<lambda>(s, maxCode) n.
     if freq (dynTree t s ! n) \<noteq> 0
     then (s\<lparr>heapLen := heapLen s + 1, heap := (heap s)[heapLen s + 1 := n], depth := (depth s)[n := 0]\<rparr>, int n)
     else (onTree t n (\<lambda>c. c\<lparr>ctLen := 0\<rparr>) s, maxCode))"

text \<open>The second: at least two leaves, each turn adding one. It runs at most twice.\<close>

definition forceLeaf :: "treeName \<Rightarrow> deflateState \<times> int \<Rightarrow> deflateState \<times> int" where
  "forceLeaf t = (\<lambda>(s, maxCode).
     (let node = (if maxCode < 2 then nat (maxCode + 1) else 0);
          s1 = s\<lparr>heapLen := heapLen s + 1, heap := (heap s)[heapLen s + 1 := node]\<rparr>;
          s2 = onTree t node (\<lambda>c. c\<lparr>freq := 1\<rparr>) s1 in
      (s2\<lparr>depth := (depth s2)[node := 0], optLen := optLen s2 - 1,
          staticLen := (case sdTree (descStat t) of None \<Rightarrow> staticLen s2
            | Some stree \<Rightarrow> staticLen s2 - ucast (ctLen (stree ! node)))\<rparr>,
       if maxCode < 2 then maxCode + 1 else maxCode)))"

fun forceLeaves :: "nat \<Rightarrow> treeName \<Rightarrow> deflateState \<times> int \<Rightarrow> deflateState \<times> int" where
  "forceLeaves 0 t r = r"
| "forceLeaves (Suc fuel) t r = (if heapLen (fst r) < 2 then forceLeaves fuel t (forceLeaf t r) else r)"

definition initHeap :: "treeName \<Rightarrow> deflateState \<Rightarrow> deflateState \<times> int" where
  "initHeap t s =
     forceLeaves 2 t (foldl (heapLeaf t) (s\<lparr>heapLen := 0, heapMax := heapSize\<rparr>, -1) [0..<sdElems (descStat t)])"

section \<open>Code lengths\<close>

definition assignBitlen :: "treeName \<Rightarrow> deflateState \<times> nat \<Rightarrow> nat \<Rightarrow> deflateState \<times> nat" where
  "assignBitlen t = (\<lambda>(s, overflow) h.
     (let n = heap s ! h; tree = dynTree t s; stat = descStat t;
          deep = unat (ctLen (tree ! unat (dad (tree ! n)))) + 1;
          bits = (if deep > sdMaxLength stat then sdMaxLength stat else deep);
          overflow = (if deep > sdMaxLength stat then overflow + 1 else overflow);
          s1 = onTree t n (\<lambda>c. c\<lparr>ctLen := word_of_nat bits\<rparr>) s in
      if int n > descMaxCode t s then (s1, overflow)
      else
        let xbits = (if n \<ge> sdExtraBase stat then sdExtraBits stat ! (n - sdExtraBase stat) else 0);
            f = ucast (freq (tree ! n)) :: u64 in
        (s1\<lparr>blCount := (blCount s1)[bits := blCount s1 ! bits + 1],
            optLen := optLen s1 + f * word_of_nat (bits + xbits),
            staticLen := (case sdTree stat of None \<Rightarrow> staticLen s1
              | Some stree \<Rightarrow> staticLen s1 + f * word_of_nat (unat (ctLen (stree ! n)) + xbits))\<rparr>, overflow)))"

definition assignBitlens :: "treeName \<Rightarrow> deflateState \<Rightarrow> deflateState \<times> nat" where
  "assignBitlens t s = foldl (assignBitlen t) (s, 0) [heapMax s + 1..<heapSize]"

text \<open>\<open>for s.blCount[bits] == 0 { bits-- }\<close>\<close>

fun lastRoom :: "u16 list \<Rightarrow> nat \<Rightarrow> nat" where
  "lastRoom counts 0 = 0"
| "lastRoom counts (Suc bits) = (if counts ! Suc bits = 0 then lastRoom counts bits else Suc bits)"

fun splitCodes :: "nat \<Rightarrow> nat \<Rightarrow> u16 list \<Rightarrow> u16 list" where
  "splitCodes maxLength overflow counts =
     (if overflow > 0 then
        let bits = lastRoom counts (maxLength - 1);
            c1 = counts[bits := counts ! bits - 1];
            c2 = c1[bits + 1 := c1 ! (bits + 1) + 2];
            c3 = c2[maxLength := c2 ! maxLength - 1] in
        splitCodes maxLength (overflow - 2) c3
      else counts)"

declare splitCodes.simps [simp del]

text \<open>The walk down the heap that gives \<open>n\<close> symbols the length \<open>bits\<close>; inner nodes are passed over.\<close>

fun relength :: "treeName \<Rightarrow> nat \<Rightarrow> nat \<Rightarrow> nat list \<Rightarrow> deflateState \<Rightarrow> nat list \<times> deflateState" where
  "relength t bits 0 ms s = (ms, s)"
| "relength t bits (Suc n) [] s = ([], s)"
| "relength t bits (Suc n) (m # ms) s =
     (if int m > descMaxCode t s then relength t bits (Suc n) ms s
      else let c = dynTree t s ! m in
        if unat (ctLen c) \<noteq> bits
        then relength t bits n ms (onTree t m (\<lambda>c. c\<lparr>ctLen := word_of_nat bits\<rparr>)
               (s\<lparr>optLen := optLen s + (word_of_nat bits - ucast (ctLen c)) * ucast (freq c)\<rparr>))
        else relength t bits n ms s)"

definition repairOverflow :: "treeName \<Rightarrow> nat \<Rightarrow> deflateState \<Rightarrow> deflateState" where
  "repairOverflow t overflow s =
     (let maxLength = sdMaxLength (descStat t);
          s1 = s\<lparr>blCount := splitCodes maxLength overflow (blCount s)\<rparr> in
      snd (foldl (\<lambda>(ms, s) bits. relength t bits (unat (blCount s ! bits)) ms s)
            (rev (heap s1), s1) (rev [1..<maxLength + 1])))"

definition genBitlen :: "treeName \<Rightarrow> deflateState \<Rightarrow> deflateState" where
  "genBitlen t s =
     (let s1 = s\<lparr>blCount := replicate (maxBits + 1) 0\<rparr>;
          s2 = onTree t (heap s1 ! heapMax s1) (\<lambda>c. c\<lparr>ctLen := 0\<rparr>) s1 in
      case assignBitlens t s2 of
        (s3, overflow) \<Rightarrow> if overflow = 0 then s3 else repairOverflow t overflow s3)"

section \<open>Building a tree\<close>

text \<open>One turn of the loop of \<open>buildTree\<close>: the two least frequent nodes become the sons of \<open>node\<close>.\<close>

definition joinLeast :: "treeName \<Rightarrow> nat \<Rightarrow> deflateState \<Rightarrow> deflateState" where
  "joinLeast t node s =
     (let n = heap s ! 1;
          s1 = pqdownheap t 1 (s\<lparr>heap := (heap s)[1 := heap s ! heapLen s], heapLen := heapLen s - 1\<rparr>);
          m = heap s1 ! 1;
          s2 = s1\<lparr>heapMax := heapMax s1 - 2, heap := (heap s1)[heapMax s1 - 1 := n, heapMax s1 - 2 := m]\<rparr>;
          tree = dynTree t s2;
          s3 = onTree t node (\<lambda>c. c\<lparr>freq := freq (tree ! n) + freq (tree ! m)\<rparr>) s2;
          s4 = s3\<lparr>depth := (depth s3)[node := (if depth s3 ! n \<ge> depth s3 ! m then depth s3 ! n + 1 else depth s3 ! m + 1)]\<rparr>;
          s5 = onTree t m (\<lambda>c. c\<lparr>dad := word_of_nat node\<rparr>) (onTree t n (\<lambda>c. c\<lparr>dad := word_of_nat node\<rparr>) s4) in
      pqdownheap t 1 (s5\<lparr>heap := (heap s5)[1 := node]\<rparr>))"

text \<open>The loop runs until one node is left: every turn removes one node from the heap.\<close>

fun joinAll :: "nat \<Rightarrow> treeName \<Rightarrow> nat \<Rightarrow> deflateState \<Rightarrow> deflateState" where
  "joinAll 0 t node s = s"
| "joinAll (Suc fuel) t node s =
     (let s1 = joinLeast t node s in if heapLen s1 < 2 then s1 else joinAll fuel t (node + 1) s1)"

definition buildTree :: "treeName \<Rightarrow> deflateState \<Rightarrow> deflateState" where
  "buildTree t s =
     (case initHeap t s of (s1, maxCode) \<Rightarrow>
        let s2 = putMaxCode t maxCode s1;
            s3 = fold (pqdownheap t) (rev [1..<heapLen s2 div 2 + 1]) s2;
            s4 = joinAll (heapLen s3) t (sdElems (descStat t)) s3;
            s5 = s4\<lparr>heapMax := heapMax s4 - 1, heap := (heap s4)[heapMax s4 - 1 := heap s4 ! 1]\<rparr>;
            s6 = genBitlen t s5 in
        putTree t (genCodes (nat maxCode) (blCount s6) (dynTree t s6)) s6)"

section \<open>The loops' fuel\<close>

lemma tree_fields [simp]:
  "heapLen (putTree t x s) = heapLen s" "heap (putTree t x s) = heap s" "heapMax (putTree t x s) = heapMax s"
  "dynTree t (putTree t x s) = x" "dynTree t (s\<lparr>heap := h\<rparr>) = dynTree t s" "bwOut (putTree t x s) = bwOut s"
  "lookahead (putTree t x s) = lookahead s" "srcPos (putTree t x s) = srcPos s" "srcBytes (putTree t x s) = srcBytes s"
  by (cases t; simp)+

lemma pqLoop_heapLen [simp]: "heapLen (pqLoop fuel tree v k j s) = heapLen s"
  by (induction fuel arbitrary: k j s) (simp_all add: Let_def)

lemma pqdownheap_heapLen [simp]: "heapLen (pqdownheap t k s) = heapLen s"
  by (simp add: pqdownheap_def)

text \<open>More fuel than the heap is long changes nothing: the son's number passes the end of the heap first.\<close>

lemma pqLoop_enough:
  "0 < j \<Longrightarrow> heapLen s < j + fuel \<Longrightarrow> heapLen s < j + fuel' \<Longrightarrow> pqLoop fuel tree v k j s = pqLoop fuel' tree v k j s"
proof (induction fuel arbitrary: fuel' k j s)
  case 0
  then show ?case by (cases fuel') simp_all
next
  case (Suc fuel)
  show ?case
  proof (cases fuel')
    case 0
    then show ?thesis using Suc.prems by simp
  next
    case (Suc n)
    have "pqLoop fuel tree v i (2 * i) (s\<lparr>heap := h\<rparr>) = pqLoop n tree v i (2 * i) (s\<lparr>heap := h\<rparr>)"
      if "i = j \<or> i = j + 1" for i h
      by (rule Suc.IH) (use that Suc.prems \<open>fuel' = Suc n\<close> in auto)
    then show ?thesis unfolding Suc by (simp add: Let_def)
  qed
qed

lemma joinLeast_shrinks: "heapLen (joinLeast t node s) = heapLen s - 1"
  by (simp add: joinLeast_def Let_def onTree_def)

lemma joinAll_done: "heapLen s \<le> fuel + 1 \<Longrightarrow> 2 \<le> heapLen s \<Longrightarrow> heapLen (joinAll fuel t node s) < 2"
proof (induction fuel arbitrary: node s)
  case (Suc fuel)
  then show ?case by (simp add: Let_def joinLeast_shrinks)
qed simp

lemma forceLeaf_heapLen: "heapLen (fst (forceLeaf t r)) = Suc (heapLen (fst r))"
  by (cases r) (simp add: forceLeaf_def Let_def onTree_def)

lemma two_leaves: "2 \<le> heapLen (fst (forceLeaves 2 t r))"
  by (simp add: numeral_2_eq_2 forceLeaf_heapLen)

end
