(* ===== verification/Zlib_Blocks.thy ===== *)
theory Zlib_Blocks
  imports Zlib_Trees
begin

text \<open>
  Blocks of the level 1 compressor (\<open>internal/zlib1/flush.go\<close>): the symbol buffer and the frequencies it
  counts, the transmission of the trees, the three encodings of a block and the choice between them.
\<close>

section \<open>The symbol buffer\<close>

definition litBufsize :: nat where "litBufsize = 2 ^ 14"
definition symEnd :: nat where "symEnd = (litBufsize - 1) * 3"

definition clearFreqs :: "nat \<Rightarrow> ctData list \<Rightarrow> ctData list" where
  "clearFreqs n tree = map (\<lambda>c. c\<lparr>freq := 0\<rparr>) (take n tree) @ drop n tree"

definition initBlock :: "deflateState \<Rightarrow> deflateState" where
  "initBlock s = s\<lparr>dynLtree := editCt endBlock (\<lambda>c. c\<lparr>freq := 1\<rparr>) (clearFreqs lCodes (dynLtree s)),
     dynDtree := clearFreqs dCodes (dynDtree s), blTree := clearFreqs blCodes (blTree s),
     optLen := 0, staticLen := 0, symNext := 0, matches := 0\<rparr>"

definition bumpFreq :: "ctData \<Rightarrow> ctData" where
  "bumpFreq c = c\<lparr>freq := freq c + 1\<rparr>"

definition putSymbol :: "byte \<Rightarrow> byte \<Rightarrow> byte \<Rightarrow> deflateState \<Rightarrow> deflateState" where
  "putSymbol a b c s =
     s\<lparr>symBuf := (symBuf s)[symNext s := a, symNext s + 1 := b, symNext s + 2 := c], symNext := symNext s + 3\<rparr>"

definition tallyLit :: "byte \<Rightarrow> deflateState \<Rightarrow> bool \<times> deflateState" where
  "tallyLit c s =
     (let s1 = onTree LTree (unat c) bumpFreq (putSymbol 0 0 c s) in (symNext s1 = symEnd, s1))"

definition tallyDist :: "nat \<Rightarrow> nat \<Rightarrow> deflateState \<Rightarrow> bool \<times> deflateState" where
  "tallyDist dist lc s =
     (let s1 = putSymbol (word_of_nat dist) (word_of_nat (dist div 2 ^ 8)) (word_of_nat lc) s;
          s2 = s1\<lparr>matches := matches s1 + 1\<rparr>;
          s3 = onTree LTree (unat (lengthCode ! lc) + literals + 1) bumpFreq s2;
          s4 = onTree DTree (dCode (dist - 1)) bumpFreq s3 in
      (symNext s4 = symEnd, s4))"

definition sendCode :: "nat \<Rightarrow> ctData list \<Rightarrow> deflateState \<Rightarrow> deflateState" where
  "sendCode c tree = sendBits (ucast (ctCode (tree ! c))) (unat (ctLen (tree ! c)))"

section \<open>Sending the trees\<close>

record scanState =
  prevlen :: int
  curlen :: nat
  nextlen :: nat
  runCount :: nat
  maxCount :: nat
  minCount :: nat

definition newScanState :: "ctData list \<Rightarrow> scanState" where
  "newScanState tree =
     (let n = unat (ctLen (tree ! 0)) in
      \<lparr>prevlen = -1, curlen = 0, nextlen = n, runCount = 0, maxCount = (if n = 0 then 138 else 7),
       minCount = (if n = 0 then 3 else 4)\<rparr>)"

definition advance :: "ctData list \<Rightarrow> nat \<Rightarrow> scanState \<Rightarrow> bool \<times> scanState" where
  "advance tree n st =
     (let st1 = st\<lparr>curlen := nextlen st, nextlen := unat (ctLen (tree ! (n + 1))), runCount := runCount st + 1\<rparr> in
      (runCount st1 \<ge> maxCount st1 \<or> curlen st1 \<noteq> nextlen st1, st1))"

definition endRun :: "scanState \<Rightarrow> scanState" where
  "endRun st =
     (let st1 = st\<lparr>runCount := 0, prevlen := int (curlen st)\<rparr> in
      if nextlen st1 = 0 then st1\<lparr>maxCount := 138, minCount := 3\<rparr>
      else if curlen st1 = nextlen st1 then st1\<lparr>maxCount := 6, minCount := 3\<rparr>
      else st1\<lparr>maxCount := 7, minCount := 4\<rparr>)"

definition scanRun :: "scanState \<Rightarrow> deflateState \<Rightarrow> deflateState" where
  "scanRun st s =
     (if runCount st < minCount st
      then onTree BlTree (curlen st) (\<lambda>c. c\<lparr>freq := freq c + word_of_nat (runCount st)\<rparr>) s
      else if curlen st \<noteq> 0 then
        onTree BlTree rep36 bumpFreq
          (if int (curlen st) \<noteq> prevlen st then onTree BlTree (curlen st) bumpFreq s else s)
      else if runCount st \<le> 10 then onTree BlTree repz310 bumpFreq s
      else onTree BlTree repz11138 bumpFreq s)"

definition scanStep :: "ctData list \<Rightarrow> scanState \<times> deflateState \<Rightarrow> nat \<Rightarrow> scanState \<times> deflateState" where
  "scanStep tree = (\<lambda>(st, s) n. (case advance tree n st of
     (ended, st1) \<Rightarrow> if \<not> ended then (st1, s) else (endRun st1, scanRun st1 s)))"

text \<open>The guard is written into the tree first: no run can extend past \<open>maxCode\<close>.\<close>

definition scanTree :: "treeName \<Rightarrow> int \<Rightarrow> deflateState \<Rightarrow> deflateState" where
  "scanTree t maxCode s =
     (let st = newScanState (dynTree t s);
          s1 = onTree t (nat (maxCode + 1)) (\<lambda>c. c\<lparr>ctLen := 0xffff\<rparr>) s in
      snd (foldl (scanStep (dynTree t s1)) (st, s1) [0..<nat (maxCode + 1)]))"

definition sendRun :: "scanState \<Rightarrow> deflateState \<Rightarrow> deflateState" where
  "sendRun st s =
     (let bl = blTree s in
      if runCount st < minCount st then (sendCode (curlen st) bl ^^ runCount st) s
      else if curlen st \<noteq> 0 then
        (let first = int (curlen st) \<noteq> prevlen st;
             s1 = (if first then sendCode (curlen st) bl s else s);
             count = (if first then runCount st - 1 else runCount st) in
         sendBits (word_of_nat (count - 3)) 2 (sendCode rep36 bl s1))
      else if runCount st \<le> 10 then sendBits (word_of_nat (runCount st - 3)) 3 (sendCode repz310 bl s)
      else sendBits (word_of_nat (runCount st - 11)) 7 (sendCode repz11138 bl s))"

definition sendStep :: "ctData list \<Rightarrow> scanState \<times> deflateState \<Rightarrow> nat \<Rightarrow> scanState \<times> deflateState" where
  "sendStep tree = (\<lambda>(st, s) n. (case advance tree n st of
     (ended, st1) \<Rightarrow> if \<not> ended then (st1, s) else (endRun st1, sendRun st1 s)))"

definition sendTree :: "ctData list \<Rightarrow> int \<Rightarrow> deflateState \<Rightarrow> deflateState" where
  "sendTree tree maxCode s = snd (foldl (sendStep tree) (newScanState tree, s) [0..<nat (maxCode + 1)])"

text \<open>\<open>for ; maxBlindex >= 3; maxBlindex--\<close> up to a code that has a length.\<close>

fun trimBl :: "ctData list \<Rightarrow> nat \<Rightarrow> nat" where
  "trimBl tree n = (if n < 3 then n else if ctLen (tree ! (blOrder ! n)) \<noteq> 0 then n else trimBl tree (n - 1))"

declare trimBl.simps [simp del]

definition buildBlTree :: "deflateState \<Rightarrow> deflateState \<times> nat" where
  "buildBlTree s =
     (let s1 = scanTree LTree (lMaxCode s) s; s2 = scanTree DTree (dMaxCode s1) s1; s3 = buildTree BlTree s2;
          m = trimBl (blTree s3) (blCodes - 1) in
      (s3\<lparr>optLen := optLen s3 + word_of_nat (3 * (m + 1)) + 5 + 5 + 4\<rparr>, m))"

definition sendAllTrees :: "int \<Rightarrow> int \<Rightarrow> nat \<Rightarrow> deflateState \<Rightarrow> deflateState" where
  "sendAllTrees lcodes dcodes blcodes s =
     (let s1 = sendBits (word_of_int (lcodes - 257)) 5 s;
          s2 = sendBits (word_of_int (dcodes - 1)) 5 s1;
          s3 = sendBits (word_of_int (int blcodes - 4)) 4 s2;
          s4 = fold (\<lambda>rank s. sendBits (ucast (ctLen (blTree s ! (blOrder ! rank)))) 3 s) [0..<blcodes] s3 in
      sendTree (dynDtree s4) (dcodes - 1) (sendTree (dynLtree s4) (lcodes - 1) s4))"

section \<open>The three encodings\<close>

definition sendSymbol :: "ctData list \<Rightarrow> ctData list \<Rightarrow> nat \<Rightarrow> deflateState \<Rightarrow> deflateState" where
  "sendSymbol ltree dtree sx s =
     (let dist = unat (symBuf s ! sx) + unat (symBuf s ! (sx + 1)) * 2 ^ 8; lc = unat (symBuf s ! (sx + 2)) in
      if dist = 0 then sendCode lc ltree s
      else
        let code = unat (lengthCode ! lc);
            s1 = sendCode (code + literals + 1) ltree s;
            s2 = (if extraLbits ! code \<noteq> 0 then sendBits (word_of_int (int lc - int (baseLength ! code))) (extraLbits ! code) s1 else s1);
            dcode = dCode (dist - 1);
            s3 = sendCode dcode dtree s2 in
        if extraDbits ! dcode \<noteq> 0
        then sendBits (word_of_int (int (dist - 1) - int (baseDist ! dcode))) (extraDbits ! dcode) s3 else s3)"

definition compressBlock :: "ctData list \<Rightarrow> ctData list \<Rightarrow> deflateState \<Rightarrow> deflateState" where
  "compressBlock ltree dtree s =
     sendCode endBlock ltree (fold (\<lambda>i. sendSymbol ltree dtree (3 * i)) [0..<(symNext s + 2) div 3] s)"

definition trStoredBlock :: "byte list \<Rightarrow> u32 \<Rightarrow> deflateState \<Rightarrow> deflateState" where
  "trStoredBlock buf fin s =
     (let s1 = biWindup (sendBits (push_bit 1 storedBlock + fin) 3 s); len = word_of_nat (length buf) :: u16;
          s2 = putShort (NOT len) (putShort len s1) in
      s2\<lparr>bwOut := bwOut s2 @ buf\<rparr>)"

definition blockLengths :: "deflateState \<Rightarrow> deflateState \<times> u64 \<times> u64" where
  "blockLengths s =
     (case buildBlTree (buildTree DTree (buildTree LTree s)) of (s1, m) \<Rightarrow>
        let optLenb = drop_bit 3 (optLen s1 + 3 + 7); staticLenb = drop_bit 3 (staticLen s1 + 3 + 7) in
        (s1\<lparr>maxBlindex := m\<rparr>, if staticLenb \<le> optLenb then staticLenb else optLenb, staticLenb))"

definition trFlushBlock :: "byte list option \<Rightarrow> int \<Rightarrow> u32 \<Rightarrow> deflateState \<Rightarrow> deflateState" where
  "trFlushBlock buf storedLen fin s =
     (case blockLengths s of (s1, optLenb, staticLenb) \<Rightarrow>
        let s2 = (if (word_of_int storedLen :: u64) + 4 \<le> optLenb \<and> buf \<noteq> None then trStoredBlock (the buf) fin s1
              else if staticLenb = optLenb
              then compressBlock staticLtree staticDtree (sendBits (push_bit 1 staticTrees + fin) 3 s1)
              else let s2 = sendAllTrees (lMaxCode s1 + 1) (dMaxCode s1 + 1) (maxBlindex s1 + 1)
                         (sendBits (push_bit 1 dynTrees + fin) 3 s1) in
                compressBlock (dynLtree s2) (dynDtree s2) s2);
            s3 = initBlock s2 in
        if fin \<noteq> 0 then biWindup s3 else s3)"

definition flushBlock :: "u32 \<Rightarrow> deflateState \<Rightarrow> deflateState" where
  "flushBlock fin s =
     (let storedLen = int (strstart s) - blockStart s;
          buf = (if blockStart s \<ge> 0 then Some (slc (nat (blockStart s)) (strstart s) (window s)) else None);
          s1 = trFlushBlock buf storedLen fin s in
      s1\<lparr>blockStart := int (strstart s1)\<rparr>)"

end
