(* ===== verification/Zlib_Deflate.thy ===== *)
theory Zlib_Deflate
  imports Zlib_Blocks
begin

text \<open>
  The level 1 compressor (\<open>internal/zlib1/deflate.go\<close>, \<open>zlib1.go\<close>): the sliding window and its hash chains,
  the search for a match, the main loop, and \<open>Compress\<close>. The loops over the input are given the length of
  the input plus one as fuel: every turn takes at least one byte (\<open>Zlib_Runs\<close>).
\<close>

section \<open>Geometry\<close>

definition wSize :: nat where "wSize = 2 ^ 15"
definition windowSize :: nat where "windowSize = 2 * wSize"
definition minLookahead :: nat where "minLookahead = maxMatch + minMatch + 1"
definition maxDist :: nat where "maxDist = wSize - minLookahead"
definition hashBits :: nat where "hashBits = 15"
definition hashSize :: nat where "hashSize = 2 ^ hashBits"
definition hashMask :: u32 where "hashMask = 2 ^ 15 - 1"
definition hashShift :: nat where "hashShift = 5"
definition winInit :: nat where "winInit = maxMatch"
definition goodMatch :: nat where "goodMatch = 4"
definition maxInsertLen :: nat where "maxInsertLen = 4"
definition niceMatchLevel :: nat where "niceMatchLevel = 8"
definition maxChainLength :: nat where "maxChainLength = 4"

lemmas window_consts = wSize_def windowSize_def minLookahead_def maxDist_def hashBits_def hashSize_def
  hashShift_def winInit_def goodMatch_def maxInsertLen_def niceMatchLevel_def maxChainLength_def
  minMatch_def maxMatch_def

definition newDeflateState :: "byte list \<Rightarrow> deflateState" where
  "newDeflateState src = initBlock
     \<lparr>bwOut = [], biBuf = 0, biValid = 0, srcBytes = src, srcPos = 0, window = replicate (windowSize + maxMatch) 0,
      prevPos = replicate wSize 0, headPos = replicate hashSize 0, highWater = 0, insH = 0, strstart = 0,
      lookahead = 0, insertCount = 0, blockStart = 0, matchStart = 0, matchLen = minMatch - 1,
      prevLength = minMatch - 1, symBuf = replicate (litBufsize * 3) 0, symNext = 0, matches = 0,
      dynLtree = replicate heapSize noCt, dynDtree = replicate (2 * dCodes + 1) noCt,
      blTree = replicate (2 * blCodes + 1) noCt, lMaxCode = 0, dMaxCode = 0, blMaxCode = 0,
      blCount = replicate (maxBits + 1) 0, heap = replicate heapSize 0, depth = replicate heapSize 0,
      heapLen = 0, heapMax = 0, optLen = 0, staticLen = 0, maxBlindex = 0\<rparr>"

section \<open>Hash chains\<close>

definition updateHash :: "u32 \<Rightarrow> byte \<Rightarrow> u32" where
  "updateHash h c = (push_bit hashShift h XOR ucast c) AND hashMask"

text \<open>Pushing position \<open>str\<close> onto the chain of the current hash.\<close>

definition chainPosition :: "nat \<Rightarrow> deflateState \<Rightarrow> deflateState" where
  "chainPosition str s =
     s\<lparr>prevPos := (prevPos s)[str mod wSize := headPos s ! unat (insH s)],
       headPos := (headPos s)[unat (insH s) := word_of_nat str]\<rparr>"

definition insertString :: "nat \<Rightarrow> deflateState \<Rightarrow> nat \<times> deflateState" where
  "insertString str s =
     (let s1 = s\<lparr>insH := updateHash (insH s) (window s ! (str + minMatch - 1))\<rparr> in
      (unat (headPos s1 ! unat (insH s1)), chainPosition str s1))"

definition rebase :: "u16 \<Rightarrow> u16" where
  "rebase m = (if unat m \<ge> wSize then m - word_of_nat wSize else 0)"

definition slideHash :: "deflateState \<Rightarrow> deflateState" where
  "slideHash s = s\<lparr>headPos := map rebase (headPos s), prevPos := map rebase (prevPos s)\<rparr>"

section \<open>Filling the window\<close>

definition readBuf :: "nat \<Rightarrow> nat \<Rightarrow> deflateState \<Rightarrow> nat \<times> deflateState" where
  "readBuf start size' s =
     (let n = min (length (srcBytes s) - srcPos s) size' in
      (n, s\<lparr>window := splice start (slc (srcPos s) (srcPos s + n) (srcBytes s)) (window s), srcPos := srcPos s + n\<rparr>))"

definition slideWindow :: "nat \<Rightarrow> deflateState \<Rightarrow> nat \<times> deflateState" where
  "slideWindow room s =
     (let s1 = s\<lparr>window := splice 0 (slc wSize (wSize + wSize - room) (window s)) (window s),
                 matchStart := matchStart s - int wSize, strstart := strstart s - wSize,
                 blockStart := blockStart s - int wSize\<rparr>;
          s2 = (if insertCount s1 > strstart s1 then s1\<lparr>insertCount := strstart s1\<rparr> else s1) in
      (room + wSize, slideHash s2))"

text \<open>The loop of \<open>hashPending\<close>: one position per turn, until none is left or too little is known.\<close>

fun hashLoop :: "nat \<Rightarrow> nat \<Rightarrow> deflateState \<Rightarrow> deflateState" where
  "hashLoop 0 str s = s\<lparr>insertCount := 0\<rparr>"
| "hashLoop (Suc pending) str s =
     (let s1 = chainPosition str (s\<lparr>insH := updateHash (insH s) (window s ! (str + minMatch - 1))\<rparr>);
          s2 = s1\<lparr>insertCount := pending\<rparr> in
      if lookahead s2 + pending < minMatch then s2 else hashLoop pending (str + 1) s2)"

definition hashPending :: "deflateState \<Rightarrow> deflateState" where
  "hashPending s =
     (if lookahead s + insertCount s < minMatch then s
      else let str = strstart s - insertCount s in
        hashLoop (insertCount s) str (s\<lparr>insH := updateHash (ucast (window s ! str)) (window s ! (str + 1))\<rparr>))"

definition zeroHighWater :: "deflateState \<Rightarrow> deflateState" where
  "zeroHighWater s =
     (if highWater s \<ge> windowSize then s
      else let curr = strstart s + lookahead s in
        if highWater s < curr then
          let n = min (windowSize - curr) winInit in
          s\<lparr>window := splice curr (replicate n 0) (window s), highWater := curr + n\<rparr>
        else if highWater s < curr + winInit then
          let n = min (curr + winInit - highWater s) (windowSize - highWater s) in
          s\<lparr>window := splice (highWater s) (replicate n 0) (window s), highWater := highWater s + n\<rparr>
        else s)"

text \<open>A turn of the loop of \<open>fillWindow\<close>, up to its last test; a turn that goes on has read something.\<close>

definition fillTurn :: "deflateState \<Rightarrow> deflateState" where
  "fillTurn s =
     (let room = windowSize - lookahead s - strstart s;
          (room, s) = (if strstart s \<ge> wSize + maxDist then slideWindow room s else (room, s)) in
      if srcPos s = length (srcBytes s) then s
      else case readBuf (strstart s + lookahead s) room s of
        (n, s) \<Rightarrow> hashPending (s\<lparr>lookahead := lookahead s + n\<rparr>))"

fun fillLoop :: "nat \<Rightarrow> deflateState \<Rightarrow> deflateState" where
  "fillLoop 0 s = s"
| "fillLoop (Suc fuel) s =
     (let s1 = fillTurn s in
      if lookahead s1 \<ge> minLookahead \<or> srcPos s1 = length (srcBytes s1) then s1 else fillLoop fuel s1)"

definition fillWindow :: "deflateState \<Rightarrow> deflateState" where
  "fillWindow s = zeroHighWater (fillLoop (length (srcBytes s) + 1) s)"

section \<open>Matching\<close>

function runFrom :: "byte list \<Rightarrow> nat \<Rightarrow> nat \<Rightarrow> nat \<Rightarrow> nat" where
  "runFrom w scan match n = (if n < maxMatch \<and> w ! (scan + n) = w ! (match + n) then runFrom w scan match (n + 1) else n)"
  by pat_completeness auto
termination by (relation "measure (\<lambda>(w, scan, match, n). maxMatch - n)") auto

declare runFrom.simps [simp del]

definition matchRun :: "deflateState \<Rightarrow> nat \<Rightarrow> nat \<Rightarrow> nat \<Rightarrow> byte \<Rightarrow> byte \<Rightarrow> nat" where
  "matchRun s scan match bestLen scanEnd1 scanEnd =
     (if window s ! (match + bestLen) \<noteq> scanEnd \<or> window s ! (match + bestLen - 1) \<noteq> scanEnd1
         \<or> window s ! match \<noteq> window s ! scan \<or> window s ! (match + 1) \<noteq> window s ! (scan + 1)
      then 0 else runFrom (window s) scan match 3)"

text \<open>
  The walk along the hash chain: \<open>chain\<close> candidates may still be looked at. The end bytes compared are those
  of the string at \<open>scan\<close> behind the best length so far.
\<close>

fun chainWalk :: "nat \<Rightarrow> nat \<Rightarrow> nat \<Rightarrow> nat \<Rightarrow> nat \<Rightarrow> deflateState \<Rightarrow> nat \<times> deflateState" where
  "chainWalk 0 limit nice curMatch bestLen s = (bestLen, s)"
| "chainWalk (Suc chain) limit nice curMatch bestLen s =
     (let scan = strstart s;
          n = matchRun s scan curMatch bestLen (window s ! (scan + bestLen - 1)) (window s ! (scan + bestLen));
          s1 = (if n > bestLen then s\<lparr>matchStart := int curMatch\<rparr> else s);
          best = (if n > bestLen then n else bestLen);
          next = unat (prevPos s1 ! (curMatch mod wSize)) in
      if n > bestLen \<and> n \<ge> nice then (best, s1)
      else if next \<le> limit then (best, s1)
      else chainWalk chain limit nice next best s1)"

definition longestMatch :: "nat \<Rightarrow> deflateState \<Rightarrow> nat \<times> deflateState" where
  "longestMatch curMatch s =
     (let chain = (if prevLength s \<ge> goodMatch then maxChainLength div 4 else maxChainLength);
          nice = (if niceMatchLevel > lookahead s then lookahead s else niceMatchLevel);
          limit = (if strstart s > maxDist then strstart s - maxDist else 0) in
      case chainWalk chain limit nice curMatch (prevLength s) s of
        (bestLen, s1) \<Rightarrow> (if bestLen \<le> lookahead s1 then bestLen else lookahead s1, s1))"

text \<open>The inner loop of \<open>insertMatchInterior\<close>, once per remaining position of the match.\<close>

fun insertInterior :: "nat \<Rightarrow> deflateState \<Rightarrow> deflateState" where
  "insertInterior 0 s = s"
| "insertInterior (Suc n) s =
     (let s1 = s\<lparr>strstart := strstart s + 1\<rparr>; s2 = snd (insertString (strstart s1) s1) in
      insertInterior n (s2\<lparr>matchLen := n\<rparr>))"

definition insertMatchInterior :: "deflateState \<Rightarrow> deflateState" where
  "insertMatchInterior s =
     (if matchLen s \<le> maxInsertLen \<and> lookahead s \<ge> minMatch then
        let s1 = insertInterior (matchLen s - 1) s in s1\<lparr>strstart := strstart s1 + 1\<rparr>
      else let s1 = s\<lparr>strstart := strstart s + matchLen s, matchLen := 0\<rparr> in
        s1\<lparr>insH := updateHash (ucast (window s1 ! strstart s1)) (window s1 ! (strstart s1 + 1))\<rparr>)"

section \<open>The main loop\<close>

text \<open>A turn of \<open>deflateFast\<close> once there is lookahead: one symbol, and the block when its buffer is full.\<close>

definition findMatch :: "deflateState \<Rightarrow> deflateState" where
  "findMatch s =
     (case (if lookahead s \<ge> minMatch then insertString (strstart s) s else (0, s)) of
        (hashHead, s1) \<Rightarrow>
          if hashHead \<noteq> 0 \<and> int (strstart s1) - int hashHead \<le> int maxDist
          then (case longestMatch hashHead s1 of (n, s2) \<Rightarrow> s2\<lparr>matchLen := n\<rparr>)
          else s1)"

definition emitSymbol :: "deflateState \<Rightarrow> bool \<times> deflateState" where
  "emitSymbol s =
     (if matchLen s \<ge> minMatch then
        (case tallyDist (nat (int (strstart s) - matchStart s)) (matchLen s - minMatch) s of
           (bflush, s1) \<Rightarrow> (bflush, insertMatchInterior (s1\<lparr>lookahead := lookahead s1 - matchLen s1\<rparr>)))
      else
        (case tallyLit (window s ! strstart s) s of
           (bflush, s1) \<Rightarrow> (bflush, s1\<lparr>lookahead := lookahead s1 - 1, strstart := strstart s1 + 1\<rparr>)))"

definition deflateTurn :: "deflateState \<Rightarrow> deflateState" where
  "deflateTurn s = (case emitSymbol (findMatch s) of (bflush, s1) \<Rightarrow> if bflush then flushBlock 0 s1 else s1)"

fun deflateLoop :: "nat \<Rightarrow> deflateState \<Rightarrow> deflateState" where
  "deflateLoop 0 s = s"
| "deflateLoop (Suc fuel) s =
     (let s1 = (if lookahead s < minLookahead then fillWindow s else s) in
      if lookahead s1 = 0 then s1 else deflateLoop fuel (deflateTurn s1))"

definition deflateFast :: "deflateState \<Rightarrow> deflateState" where
  "deflateFast s =
     (let s1 = deflateLoop (length (srcBytes s) + 1) s in
      flushBlock 1 (s1\<lparr>insertCount := min (strstart s1) (minMatch - 1)\<rparr>))"

text \<open>\<open>hash/adler32\<close>\<close>

definition adler32 :: "byte list \<Rightarrow> u32" where
  "adler32 data =
     (case foldl (\<lambda>(a, b) x. let a' = (a + unat x) mod 65521 in (a', (b + a') mod 65521)) (1, 0) data of
        (a, b) \<Rightarrow> word_of_nat (b * 2 ^ 16 + a))"

definition zlibHeader :: "byte list" where "zlibHeader = [0x78, 0x01]"

definition Compress :: "byte list \<Rightarrow> byte list" where
  "Compress src =
     (let s = newDeflateState src; s1 = deflateFast (s\<lparr>bwOut := bwOut s @ zlibHeader\<rparr>); sum = adler32 src in
      bwOut s1 @ [ucast (drop_bit 24 sum), ucast (drop_bit 16 sum), ucast (drop_bit 8 sum), ucast sum])"

end
