(* ===== verification/Zlib_Window.thy ===== *)
theory Zlib_Window
  imports Zlib_Deflate
begin

text \<open>
  The string matching of the compressor: what its halves leave alone, the hash chains and the search on them,
  and the window that holds the input around the current position.
\<close>

chapter \<open>Frames\<close>

text \<open>
  What the two halves of the compressor leave alone: flushing a block keeps the window, the hash chains and the
  positions; \<open>core\<close> is the state without what a flush may change.
\<close>

definition core :: "deflateState \<Rightarrow> deflateState" where
  "core s = s\<lparr>bwOut := [], biBuf := 0, biValid := 0, blockStart := 0, symNext := 0, matches := 0, dynLtree := [],
     dynDtree := [], blTree := [], lMaxCode := 0, dMaxCode := 0, blMaxCode := 0, blCount := [], heap := [],
     depth := [], heapLen := 0, heapMax := 0, optLen := 0, staticLen := 0, maxBlindex := 0\<rparr>"

lemma core_updates [simp]:
  "core (s\<lparr>bwOut := a1\<rparr>) = core s" "core (s\<lparr>biBuf := a2\<rparr>) = core s" "core (s\<lparr>biValid := a3\<rparr>) = core s"
  "core (s\<lparr>blockStart := a4\<rparr>) = core s" "core (s\<lparr>symNext := a5\<rparr>) = core s" "core (s\<lparr>matches := a6\<rparr>) = core s"
  "core (s\<lparr>dynLtree := a7\<rparr>) = core s" "core (s\<lparr>dynDtree := a8\<rparr>) = core s" "core (s\<lparr>blTree := a9\<rparr>) = core s"
  "core (s\<lparr>lMaxCode := b1\<rparr>) = core s" "core (s\<lparr>dMaxCode := b2\<rparr>) = core s" "core (s\<lparr>blMaxCode := b3\<rparr>) = core s"
  "core (s\<lparr>blCount := b4\<rparr>) = core s" "core (s\<lparr>heap := b5\<rparr>) = core s" "core (s\<lparr>depth := b6\<rparr>) = core s"
  "core (s\<lparr>heapLen := b7\<rparr>) = core s" "core (s\<lparr>heapMax := b8\<rparr>) = core s" "core (s\<lparr>optLen := b9\<rparr>) = core s"
  "core (s\<lparr>staticLen := c1\<rparr>) = core s" "core (s\<lparr>maxBlindex := c2\<rparr>) = core s"
  by (simp_all add: core_def)

lemma core_reads:
  "srcBytes (core s) = srcBytes s" "srcPos (core s) = srcPos s" "window (core s) = window s" "prevPos (core s) = prevPos s"
  "headPos (core s) = headPos s" "highWater (core s) = highWater s" "insH (core s) = insH s" "strstart (core s) = strstart s"
  "lookahead (core s) = lookahead s" "insertCount (core s) = insertCount s" "matchStart (core s) = matchStart s"
  "matchLen (core s) = matchLen s" "prevLength (core s) = prevLength s" "symBuf (core s) = symBuf s"
  by (simp_all add: core_def)

lemma core_fields:
  assumes "core s = core t"
  shows "srcBytes s = srcBytes t" "srcPos s = srcPos t" "window s = window t" "prevPos s = prevPos t"
    "headPos s = headPos t" "highWater s = highWater t" "insH s = insH t" "strstart s = strstart t"
    "lookahead s = lookahead t" "insertCount s = insertCount t" "matchStart s = matchStart t" "matchLen s = matchLen t"
    "prevLength s = prevLength t" "symBuf s = symBuf t"
  using assms by (metis core_reads)+

lemma core_bits [simp]:
  "core (putByte b s) = core s" "core (putShort v s) = core s" "core (sendBits x n s) = core s" "core (biWindup s) = core s"
  by (simp_all add: putByte_def putShort_def sendBits_def biWindup_def Let_def)

lemma core_putTree [simp]: "core (putTree t x s) = core s"
  by (cases t) simp_all

lemma core_putMaxCode [simp]: "core (putMaxCode t x s) = core s"
  by (cases t) simp_all

lemma core_onTree [simp]: "core (onTree t n f s) = core s"
  by (simp add: onTree_def)

lemma core_fold:
  "(\<And>x s. core (f x s) = core s) \<Longrightarrow> core (fold f xs s) = core s"
  by (induction xs arbitrary: s) simp_all

lemma core_foldl_fst:
  "(\<And>r x. core (fst (f r x)) = core (fst r)) \<Longrightarrow> core (fst (foldl f r xs)) = core (fst r)"
  by (induction xs arbitrary: r) simp_all

lemma core_foldl_snd:
  "(\<And>r x. core (snd (f r x)) = core (snd r)) \<Longrightarrow> core (snd (foldl f r xs)) = core (snd r)"
  by (induction xs arbitrary: r) simp_all

lemma core_pqLoop [simp]: "core (pqLoop fuel tree v k j s) = core s"
  by (induction fuel arbitrary: k j s) (simp_all add: Let_def)

lemma core_pqdownheap [simp]: "core (pqdownheap t k s) = core s"
  by (simp add: pqdownheap_def)

lemma core_heapLeaf: "core (fst (heapLeaf t r n)) = core (fst r)"
  by (cases r) (simp add: heapLeaf_def)

lemma core_forceLeaf: "core (fst (forceLeaf t r)) = core (fst r)"
  by (cases r) (simp add: forceLeaf_def Let_def)

lemma core_forceLeaves: "core (fst (forceLeaves n t r)) = core (fst r)"
  by (induction n arbitrary: r) (simp_all add: core_forceLeaf)

lemma core_initHeap: "core (fst (initHeap t s)) = core s"
  by (simp add: initHeap_def core_forceLeaves core_foldl_fst core_heapLeaf)

lemma core_assignBitlen: "core (fst (assignBitlen t r h)) = core (fst r)"
  by (cases r) (simp add: assignBitlen_def Let_def)

lemma core_relength: "core (snd (relength t bits n ms s)) = core s"
  by (induction t bits n ms s rule: relength.induct) (simp_all add: Let_def)

lemma core_repairOverflow [simp]: "core (repairOverflow t overflow s) = core s"
  by (simp add: repairOverflow_def Let_def core_foldl_snd core_relength split: prod.splits)

lemma core_genBitlen [simp]: "core (genBitlen t s) = core s"
proof -
  have "core (fst (assignBitlens t s)) = core s" for s
    by (simp add: assignBitlens_def core_foldl_fst core_assignBitlen)
  then show ?thesis by (simp add: genBitlen_def Let_def case_prod_beta)
qed

lemma core_joinLeast [simp]: "core (joinLeast t node s) = core s"
  by (simp add: joinLeast_def Let_def)

lemma core_joinAll [simp]: "core (joinAll n t node s) = core s"
  by (induction n arbitrary: node s) (simp_all add: Let_def)

lemma core_buildTree [simp]: "core (buildTree t s) = core s"
  by (simp add: buildTree_def Let_def case_prod_beta core_fold core_initHeap)

lemma core_initBlock [simp]: "core (initBlock s) = core s"
  by (simp add: initBlock_def)

lemma core_scanRun [simp]: "core (scanRun st s) = core s"
  by (simp add: scanRun_def)

lemma core_sendCode [simp]: "core (sendCode n tree s) = core s"
  by (simp add: sendCode_def)

lemma core_sendRun [simp]: "core (sendRun st s) = core s"
proof -
  have "core ((sendCode c bl ^^ n) s) = core s" for c bl n by (induction n) simp_all
  then show ?thesis by (simp add: sendRun_def Let_def)
qed

lemma core_scanTree [simp]: "core (scanTree t m s) = core s"
proof -
  have "core (snd (scanStep tree r n)) = core (snd r)" for tree r n
    by (cases r) (simp add: scanStep_def case_prod_beta)
  then show ?thesis by (simp add: scanTree_def Let_def core_foldl_snd)
qed

lemma core_sendTree [simp]: "core (sendTree tree m s) = core s"
proof -
  have "core (snd (sendStep tree r n)) = core (snd r)" for tree r n
    by (cases r) (simp add: sendStep_def case_prod_beta)
  then show ?thesis by (simp add: sendTree_def core_foldl_snd)
qed

lemma core_sendAllTrees [simp]: "core (sendAllTrees l d b s) = core s"
  by (simp add: sendAllTrees_def Let_def core_fold)

lemma core_sendSymbol [simp]: "core (sendSymbol l d sx s) = core s"
  by (simp add: sendSymbol_def Let_def)

lemma core_compressBlock [simp]: "core (compressBlock l d s) = core s"
  by (simp add: compressBlock_def core_fold)

lemma core_trStoredBlock [simp]: "core (trStoredBlock buf fin s) = core s"
  by (simp add: trStoredBlock_def Let_def)

lemma core_blockLengths [simp]: "core (fst (blockLengths s)) = core s"
  by (simp add: blockLengths_def buildBlTree_def Let_def case_prod_beta)

lemma core_trFlushBlock [simp]: "core (trFlushBlock buf n fin s) = core s"
proof (cases "blockLengths s")
  case (fields s1 a b)
  then have "core s1 = core s" using core_blockLengths [of s] by simp
  then show ?thesis using fields by (simp add: trFlushBlock_def Let_def)
qed

lemma core_flushBlock [simp]: "core (flushBlock fin s) = core s"
  by (simp add: flushBlock_def Let_def)

lemmas flush_fields = core_fields [OF core_flushBlock]

lemma trFlushBlock_symNext [simp]: "symNext (trFlushBlock buf n fin s) = 0"
proof -
  have "symNext (biWindup w) = symNext w" for w :: deflateState by (simp add: biWindup_def putShort_def putByte_def Let_def)
  then show ?thesis by (simp add: trFlushBlock_def Let_def case_prod_beta initBlock_def del: One_nat_def)
qed

lemma flushBlock_resets: "symNext (flushBlock fin s) = 0" "blockStart (flushBlock fin s) = int (strstart s)"
  by (simp_all add: flushBlock_def Let_def core_fields(8) [OF core_trFlushBlock])

chapter \<open>Hash chains\<close>

text \<open>
  The hash chains of the compressor and the search on them: a position on a chain starts with the same three
  bytes' hash, and what \<open>longestMatch\<close> returns is a match.
\<close>

section \<open>The rolling hash\<close>

definition hash3 :: "byte list \<Rightarrow> nat \<Rightarrow> u32" where
  "hash3 w p = updateHash (updateHash (updateHash 0 (w ! p)) (w ! (p + 1))) (w ! (p + 2))"

text \<open>The hash has taken in the two bytes at \<open>p\<close>.\<close>

definition rolled :: "byte list \<Rightarrow> u32 \<Rightarrow> nat \<Rightarrow> bool" where
  "rolled w h p \<longleftrightarrow> (\<forall>c. updateHash h c = updateHash (updateHash (updateHash 0 (w ! p)) (w ! (p + 1))) c)"

lemma bit_updateHash: "bit (updateHash h c) n \<longleftrightarrow> n < 15 \<and> ((5 \<le> n \<and> bit h (n - 5)) \<noteq> bit c n)"
proof -
  have "hashMask = mask 15" by (simp add: hashMask_def mask_eq_exp_minus_1)
  moreover have "bit (mask 15 :: u32) n \<longleftrightarrow> n < 15" by (subst bit_mask_iff) auto
  ultimately have "bit hashMask n \<longleftrightarrow> n < 15" by metis
  then show ?thesis by (auto simp: updateHash_def hashShift_def bit_simps)
qed

lemma updateHash_forgets:
  "updateHash (updateHash (updateHash (updateHash 0 a) b) c) d = updateHash (updateHash (updateHash 0 b) c) d"
  by (rule bit_word_eqI) (auto simp: bit_updateHash dest: bit_imp_le_length)

lemma updateHash_inject: "updateHash h c = updateHash h d \<Longrightarrow> c = d"
proof (rule bit_word_eqI)
  fix n assume "updateHash h c = updateHash h d" and n: "n < LENGTH(8)"
  then have "bit (updateHash h c) n = bit (updateHash h d) n" by simp
  then show "bit c n = bit d n" using n by (auto simp: bit_updateHash)
qed

lemma updateHash_0: "updateHash 0 c = ucast c"
  by (rule bit_word_eqI) (auto simp: bit_updateHash bit_simps dest: bit_imp_le_length)

lemma updateHash_bound: "unat (updateHash h c) < hashSize"
proof -
  have "updateHash h c = take_bit 15 (updateHash h c)" by (rule bit_word_eqI) (auto simp: bit_updateHash bit_simps)
  then have "unat (updateHash h c) < 2 ^ 15" using take_bit_word_beyond_length_eq by (metis unsigned_take_bit_eq take_bit_nat_less_exp)
  then show ?thesis by (simp add: hashSize_def hashBits_def)
qed

lemma rolled_hash: "rolled w h p \<Longrightarrow> updateHash h (w ! (p + 2)) = hash3 w p"
  by (simp add: rolled_def hash3_def)

lemma rolled_step: "rolled w h p \<Longrightarrow> rolled w (updateHash h (w ! (p + 2))) (p + 1)"
  by (simp add: rolled_def updateHash_forgets eval_nat_numeral)

lemma rolled_start: "rolled w (updateHash (ucast (w ! p)) (w ! (p + 1))) p"
  by (simp add: rolled_def updateHash_0)

lemma rolled_cong: "w' ! p = w ! q \<Longrightarrow> w' ! (p + 1) = w ! (q + 1) \<Longrightarrow> rolled w h q \<Longrightarrow> rolled w' h p"
  by (simp add: rolled_def)

lemma hash3_third:
  "hash3 w p = hash3 w q \<Longrightarrow> w ! p = w ! q \<Longrightarrow> w ! (p + 1) = w ! (q + 1) \<Longrightarrow> w ! (p + 2) = w ! (q + 2)"
  unfolding hash3_def by (auto dest: updateHash_inject)

lemma hash3_cong:
  assumes "\<And>i. i < 3 \<Longrightarrow> w' ! (p + i) = w ! (q + i)"
  shows "hash3 w' p = hash3 w q"
  using assms [of 0] assms [of 1] assms [of 2] by (simp add: hash3_def)

section \<open>Chains\<close>

text \<open>
  The positions \<open>I\<close> were put on the chains, all below \<open>f\<close> and with their three bytes below \<open>e\<close>. A head is
  such a position with its hash; the entry of a position not yet overwritten is an earlier one of the same hash.
\<close>

definition chains :: "byte list \<Rightarrow> nat \<Rightarrow> nat \<Rightarrow> nat set \<Rightarrow> u16 list \<Rightarrow> u16 list \<Rightarrow> bool" where
  "chains w e f I heads prevs \<longleftrightarrow> length heads = hashSize \<and> length prevs = wSize
     \<and> (\<forall>p \<in> I. 0 < p \<and> p < f \<and> p + 2 < e)
     \<and> (\<forall>h < hashSize. unat (heads ! h) = 0 \<or> (unat (heads ! h) \<in> I \<and> unat (hash3 w (unat (heads ! h))) = h))
     \<and> (\<forall>p \<in> I. f \<le> p + wSize \<longrightarrow> (let q = unat (prevs ! (p mod wSize)) in q = 0 \<or> (q \<in> I \<and> q < p \<and> hash3 w q = hash3 w p)))"

lemma chains_cong:
  assumes "chains w e f I heads prevs" and "\<And>i. i < e \<Longrightarrow> w' ! i = w ! i" and "e \<le> e'" and "f \<le> f'"
  shows "chains w' e' f' I heads prevs"
proof -
  have h: "hash3 w' p = hash3 w p" if "p \<in> I" for p
    using assms(1,2) that by (intro hash3_cong) (auto simp: chains_def)
  show ?thesis using assms(1,3,4) unfolding chains_def Let_def by (auto simp: h)
qed

lemma chains_head:
  "chains w e f I heads prevs \<Longrightarrow> h < hashSize \<Longrightarrow> unat (heads ! h) \<noteq> 0 \<Longrightarrow>
    unat (heads ! h) \<in> I \<and> unat (hash3 w (unat (heads ! h))) = h"
  by (auto simp: chains_def)

lemma chains_prev:
  "chains w e f I heads prevs \<Longrightarrow> p \<in> I \<Longrightarrow> f \<le> p + wSize \<Longrightarrow> q = unat (prevs ! (p mod wSize)) \<Longrightarrow> q \<noteq> 0 \<Longrightarrow>
    q \<in> I \<and> q < p \<and> hash3 w q = hash3 w p"
  by (auto simp: chains_def Let_def)

lemma chains_range: "chains w e f I heads prevs \<Longrightarrow> p \<in> I \<Longrightarrow> 0 < p \<and> p < f \<and> p + 2 < e"
  by (auto simp: chains_def)

lemma mod_apart:
  assumes "p < q" and "q < p + w"
  shows "p mod w \<noteq> q mod (w :: nat)"
proof
  assume "p mod w = q mod w"
  then have "w dvd q - p" using assms(1) by (metis less_imp_le_nat mod_eq_dvd_iff_nat)
  then show False using assms by (auto dest: dvd_imp_le)
qed

lemma chains_insert:
  assumes c: "chains w e str I heads prevs" and e: "str + 2 < e" and small: "str < 2 ^ 16"
  defines "h \<equiv> unat (hash3 w str)"
  shows "chains w e (str + 1) (if str = 0 then I else insert str I)
    (heads[h := word_of_nat str]) (prevs[str mod wSize := heads ! h])" (is "chains w e _ ?I ?hd ?pv")
proof -
  have len: "length heads = hashSize" "length prevs = wSize" using c by (auto simp: chains_def)
  have h: "h < hashSize" by (simp add: h_def hash3_def updateHash_bound)
  have w: "0 < wSize" by (simp add: wSize_def)
  have str: "unat (word_of_nat str :: u16) = str" using small by (simp add: unat_of_nat)
  have "unat (?hd ! k) = 0 \<or> (unat (?hd ! k) \<in> ?I \<and> unat (hash3 w (unat (?hd ! k))) = k)" if "k < hashSize" for k
    using chains_head [OF c that] len h that str by (cases "k = h") (auto simp: h_def)
  moreover have "q \<in> ?I \<and> q < p \<and> hash3 w q = hash3 w p"
    if p: "p \<in> ?I" "str + 1 \<le> p + wSize" "q = unat (?pv ! (p mod wSize))" "q \<noteq> 0" for p q
  proof (cases "p = str")
    case True
    then have "q = unat (heads ! h)" using p(3) len w by simp
    moreover from this have "q \<in> I" "unat (hash3 w q) = h" using chains_head [OF c h] p(4) by auto
    ultimately show ?thesis using True chains_range [OF c] by (auto simp: h_def word_unat_eq_iff)
  next
    case False
    then have "p \<in> I" using p(1) by (auto split: if_splits)
    moreover from this have "p < str" using chains_range [OF c] by auto
    moreover from this have "p mod wSize \<noteq> str mod wSize" using p(2) by (intro mod_apart) auto
    ultimately show ?thesis using chains_prev [OF c, of p q] p by auto
  qed
  moreover have "0 < p \<and> p < str + 1 \<and> p + 2 < e" if "p \<in> ?I" for p
    using chains_range [OF c, of p] e that by (cases "str = 0"; cases "p = str") auto
  moreover have "length ?hd = hashSize" "length ?pv = wSize" using len by simp_all
  ultimately show ?thesis unfolding chains_def Let_def by blast
qed

section \<open>The search\<close>

lemma runFrom_matches:
  assumes "n \<le> maxMatch" and "\<forall>k < n. w ! (m + k) = w ! (scan + k)"
  shows "n \<le> runFrom w scan m n \<and> runFrom w scan m n \<le> maxMatch \<and> (\<forall>k < runFrom w scan m n. w ! (m + k) = w ! (scan + k))"
  using assms
proof (induction w scan m n rule: runFrom.induct)
  case (1 w scan m n)
  note step = runFrom.simps [of w scan m n]
  show ?case
  proof (cases "n < maxMatch \<and> w ! (scan + n) = w ! (m + n)")
    case True
    then have "\<forall>k < n + 1. w ! (m + k) = w ! (scan + k)" using 1(3) by (auto simp: less_Suc_eq)
    moreover have "runFrom w scan m n = runFrom w scan m (n + 1)" using step True by simp
    ultimately show ?thesis using 1(1) [OF True] True by auto
  next
    case False
    then have "runFrom w scan m n = n" using step by auto
    then show ?thesis using 1(2,3) by simp
  qed
qed

lemma matchRun_matches:
  assumes "hash3 (window s) m = hash3 (window s) scan" and "n = matchRun s scan m best a b" and "0 < n"
  shows "3 \<le> n \<and> n \<le> maxMatch \<and> (\<forall>k < n. window s ! (m + k) = window s ! (scan + k))"
proof -
  let ?w = "window s"
  have n: "n = runFrom ?w scan m 3" "?w ! m = ?w ! scan" "?w ! (m + 1) = ?w ! (scan + 1)"
    using assms(2,3) by (auto simp: matchRun_def split: if_splits)
  moreover from this have "?w ! (m + 2) = ?w ! (scan + 2)" using hash3_third assms(1) by metis
  ultimately have "\<forall>k < 3. ?w ! (m + k) = ?w ! (scan + k)" by (auto simp: numeral_3_eq_3 less_Suc_eq numeral_2_eq_2)
  then show ?thesis using runFrom_matches [of 3 ?w m scan] n(1) by (simp add: maxMatch_def)
qed

text \<open>A match of length \<open>n\<close> for the string at \<open>scan\<close>, near enough to be coded.\<close>

definition isMatch :: "byte list \<Rightarrow> nat \<Rightarrow> nat \<Rightarrow> nat \<Rightarrow> bool" where
  "isMatch w scan m n \<longleftrightarrow> 0 < m \<and> m < scan \<and> scan \<le> m + maxDist \<and> 3 \<le> n \<and> n \<le> maxMatch
     \<and> (\<forall>k < n. w ! (m + k) = w ! (scan + k))"

lemma chainWalk_matches:
  assumes "chains (window s) e (strstart s + 1) I (headPos s) (prevPos s)"
    and "cur \<in> I" and "cur < strstart s" and "strstart s \<le> cur + maxDist"
    and "hash3 (window s) cur = hash3 (window s) (strstart s)"
    and "best = 2 \<or> (\<exists>m. matchStart s = int m \<and> isMatch (window s) (strstart s) m best)"
    and "strstart s \<le> limit + maxDist"
  shows "\<exists>n x. chainWalk chain limit nice cur best s = (n, s\<lparr>matchStart := x\<rparr>)
    \<and> (n = 2 \<or> (\<exists>m. x = int m \<and> isMatch (window s) (strstart s) m n))"
  using assms
proof (induction chain arbitrary: cur best s)
  case 0
  then show ?case by (auto intro: exI [of _ "matchStart s"])
next
  case (Suc chain)
  let ?scan = "strstart s" and ?w = "window s"
  let ?n = "matchRun s ?scan cur best (?w ! (?scan + best - 1)) (?w ! (?scan + best))"
  let ?s = "if ?n > best then s\<lparr>matchStart := int cur\<rparr> else s" and ?b = "if ?n > best then ?n else best"
  let ?next = "unat (prevPos s ! (cur mod wSize))"
  have s: "?s = s\<lparr>matchStart := (if ?n > best then int cur else matchStart s)\<rparr>" by simp
  have cur: "0 < cur" using Suc.prems(1,2) by (auto simp: chains_def)
  have best: "?b = 2 \<or> (\<exists>m. matchStart ?s = int m \<and> isMatch ?w ?scan m ?b)"
  proof (cases "?n > best")
    case True
    then have "isMatch ?w ?scan cur ?n"
      using matchRun_matches [OF Suc.prems(5), of ?n best "?w ! (?scan + best - 1)" "?w ! (?scan + best)"] Suc.prems(3,4) cur
      by (simp add: isMatch_def)
    then show ?thesis using True by simp
  next
    case False
    then show ?thesis using Suc.prems(6) by simp
  qed
  have step: "chainWalk (Suc chain) limit nice cur best s =
      (if ?n > best \<and> ?n \<ge> nice then (?b, ?s) else if ?next \<le> limit then (?b, ?s) else chainWalk chain limit nice ?next ?b ?s)"
    by (simp add: Let_def)
  show ?case
  proof (cases "(?n > best \<and> ?n \<ge> nice) \<or> ?next \<le> limit")
    case True
    then have "chainWalk (Suc chain) limit nice cur best s = (?b, ?s)" using step by metis
    then show ?thesis using best unfolding s by (intro exI [of _ ?b] exI) auto
  next
    case False
    then have walk: "chainWalk (Suc chain) limit nice cur best s = chainWalk chain limit nice ?next ?b ?s" using step by metis
    have near: "?scan + 1 \<le> cur + wSize" using Suc.prems(4) by (simp add: window_consts)
    have "?next \<in> I \<and> ?next < cur \<and> hash3 ?w ?next = hash3 ?w cur"
      using chains_prev [OF Suc.prems(1,2) near refl] False by auto
    moreover have "\<exists>n x. chainWalk chain limit nice ?next ?b ?s = (n, ?s\<lparr>matchStart := x\<rparr>)
        \<and> (n = 2 \<or> (\<exists>m. x = int m \<and> isMatch (window ?s) (strstart ?s) m n))"
      by (rule Suc.IH) (use Suc.prems False best calculation in \<open>simp_all split: if_splits\<close>)
    ultimately show ?thesis unfolding walk s by simp
  qed
qed

chapter \<open>The window\<close>

text \<open>
  The window of the compressor: it holds the input around the current position, and the chains hold
  positions of it. Filling, sliding and hashing keep this; they leave the block under construction alone.
\<close>

section \<open>What the window functions leave alone\<close>

definition block :: "deflateState \<Rightarrow> deflateState" where
  "block s = s\<lparr>srcPos := 0, window := [], prevPos := [], headPos := [], highWater := 0, insH := 0, strstart := 0,
     lookahead := 0, insertCount := 0, blockStart := 0, matchStart := 0, matchLen := 0, prevLength := 0\<rparr>"

lemma block_updates [simp]:
  "block (s\<lparr>srcPos := a1\<rparr>) = block s" "block (s\<lparr>window := a2\<rparr>) = block s" "block (s\<lparr>prevPos := a3\<rparr>) = block s"
  "block (s\<lparr>headPos := a4\<rparr>) = block s" "block (s\<lparr>highWater := a5\<rparr>) = block s" "block (s\<lparr>insH := a6\<rparr>) = block s"
  "block (s\<lparr>strstart := a7\<rparr>) = block s" "block (s\<lparr>lookahead := a8\<rparr>) = block s" "block (s\<lparr>insertCount := a9\<rparr>) = block s"
  "block (s\<lparr>blockStart := b1\<rparr>) = block s" "block (s\<lparr>matchStart := b2\<rparr>) = block s" "block (s\<lparr>matchLen := b3\<rparr>) = block s"
  "block (s\<lparr>prevLength := b4\<rparr>) = block s"
  by (simp_all add: block_def)

lemma block_reads:
  "srcBytes (block s) = srcBytes s" "symBuf (block s) = symBuf s" "symNext (block s) = symNext s" "matches (block s) = matches s"
  "dynLtree (block s) = dynLtree s" "dynDtree (block s) = dynDtree s" "blTree (block s) = blTree s"
  "bwOut (block s) = bwOut s" "biBuf (block s) = biBuf s" "biValid (block s) = biValid s"
  "blCount (block s) = blCount s" "heap (block s) = heap s" "depth (block s) = depth s"
  by (simp_all add: block_def)

lemma block_fields:
  assumes "block s = block t"
  shows "srcBytes s = srcBytes t" "symBuf s = symBuf t" "symNext s = symNext t" "matches s = matches t"
    "dynLtree s = dynLtree t" "dynDtree s = dynDtree t" "blTree s = blTree t"
    "bwOut s = bwOut t" "biBuf s = biBuf t" "biValid s = biValid t"
    "blCount s = blCount t" "heap s = heap t" "depth s = depth t"
  using assms by (metis block_reads)+

section \<open>The invariant\<close>

text \<open>How much of the input has been taken.\<close>

definition consumed :: "deflateState \<Rightarrow> nat" where
  "consumed s = srcPos s - lookahead s"

abbreviation dataEnd :: "deflateState \<Rightarrow> nat" where
  "dataEnd s \<equiv> strstart s + lookahead s"

definition winOK :: "deflateState \<Rightarrow> bool" where
  "winOK s \<longleftrightarrow> length (window s) = windowSize + maxMatch \<and> srcPos s \<le> length (srcBytes s) \<and> dataEnd s \<le> srcPos s
     \<and> dataEnd s \<le> windowSize \<and> (\<forall>i < dataEnd s. window s ! i = srcBytes s ! (srcPos s - dataEnd s + i))"

definition idle :: "deflateState \<Rightarrow> bool" where
  "idle s \<longleftrightarrow> insertCount s = 0 \<and> prevLength s = 2 \<and> matchLen s < 3"

definition hashing :: "deflateState \<Rightarrow> bool" where
  "hashing s \<longleftrightarrow> (3 \<le> lookahead s \<longrightarrow> rolled (window s) (insH s) (strstart s))"

definition onChains :: "nat set \<Rightarrow> deflateState \<Rightarrow> bool" where
  "onChains I s \<longleftrightarrow> chains (window s) (dataEnd s) (strstart s) I (headPos s) (prevPos s)"

definition searching :: "deflateState \<Rightarrow> bool" where
  "searching s \<longleftrightarrow> winOK s \<and> idle s \<and> hashing s \<and> (\<exists>I. onChains I s)"

text \<open>What a step that only refills the window keeps.\<close>

definition refilled :: "deflateState \<Rightarrow> deflateState \<Rightarrow> bool" where
  "refilled s t \<longleftrightarrow> searching t \<and> block t = block s \<and> consumed t = consumed s
     \<and> int (strstart t) - blockStart t = int (strstart s) - blockStart s"

lemma refilled_refl: "searching s \<Longrightarrow> refilled s s"
  by (simp add: refilled_def)

lemma refilled_trans: "refilled s t \<Longrightarrow> refilled t u \<Longrightarrow> refilled s u"
  by (simp add: refilled_def)

lemma refilled_bytes: "refilled s t \<Longrightarrow> srcBytes t = srcBytes s"
  unfolding refilled_def using block_fields(1) by blast

section \<open>Sliding\<close>

lemma rebase_unat: "unat (rebase m) = (if wSize \<le> unat m then unat m - wSize else 0)"
proof (cases "wSize \<le> unat m")
  case True
  then have "unat (m - word_of_nat wSize) = unat m - wSize"
    by (subst unat_sub) (simp_all add: word_le_nat_alt wSize_def)
  then show ?thesis using True by (simp add: rebase_def)
qed (simp add: rebase_def)

lemma chains_slide:
  assumes c: "chains w e f I heads prevs" and e: "wSize \<le> f" "f \<le> e" and w': "\<And>i. i < e - wSize \<Longrightarrow> w' ! i = w ! (i + wSize)"
  shows "chains w' (e - wSize) (f - wSize) {p. 0 < p \<and> p + wSize \<in> I} (map rebase heads) (map rebase prevs)"
    (is "chains _ _ _ ?I ?hd ?pv")
proof -
  have len: "length heads = hashSize" "length prevs = wSize" using c by (auto simp: chains_def)
  have hash: "hash3 w' p = hash3 w (p + wSize)" if "p + wSize \<in> I" for p
  proof (rule hash3_cong)
    fix i :: nat assume "i < 3"
    then have "p + i < e - wSize" using chains_range [OF c that] by linarith
    then show "w' ! (p + i) = w ! (p + wSize + i)" using w' by (simp add: ac_simps)
  qed
  have "unat (?hd ! h) = 0 \<or> (unat (?hd ! h) \<in> ?I \<and> unat (hash3 w' (unat (?hd ! h))) = h)" if h: "h < hashSize" for h
    using chains_head [OF c h] len h hash [of "unat (heads ! h) - wSize"] by (auto simp: rebase_unat)
  moreover have "q \<in> ?I \<and> q < p \<and> hash3 w' q = hash3 w' p"
    if p: "p \<in> ?I" "f - wSize \<le> p + wSize" "q = unat (?pv ! (p mod wSize))" "q \<noteq> 0" for p q
  proof -
    let ?q = "unat (prevs ! ((p + wSize) mod wSize))"
    have "p mod wSize < length prevs" using len by (simp add: wSize_def)
    then have q: "?q = q + wSize" using p(3,4) by (simp add: rebase_unat split: if_splits)
    have le: "f \<le> p + wSize + wSize" using p(2) by linarith
    from q have "?q \<in> I \<and> ?q < p + wSize \<and> hash3 w ?q = hash3 w (p + wSize)"
      using chains_prev [OF c _ le refl] p(1,4) by auto
    then show ?thesis using p(1,4) hash [of p] hash [of q] q by simp
  qed
  moreover have "0 < p \<and> p < f - wSize \<and> p + 2 < e - wSize" if "p \<in> ?I" for p
    using chains_range [OF c, of "p + wSize"] that by auto
  moreover have "length ?hd = hashSize" "length ?pv = wSize" using len by simp_all
  ultimately show ?thesis unfolding chains_def Let_def by blast
qed

lemma slideWindow_slides:
  assumes s: "searching s" and at: "wSize + maxDist \<le> strstart s" and room: "room = windowSize - dataEnd s"
  defines "t \<equiv> snd (slideWindow room s)"
  shows "refilled s t" and "strstart t = strstart s - wSize" and "lookahead t = lookahead s" and "srcPos t = srcPos s"
    and "fst (slideWindow room s) = windowSize - dataEnd t"
proof -
  have win: "winOK s" "idle s" using s by (auto simp: searching_def)
  have end': "dataEnd s \<le> windowSize" "length (window s) = windowSize + maxMatch" using win by (auto simp: winOK_def)
  have room': "wSize + wSize - room = dataEnd s" using room end' by (simp add: windowSize_def)
  have big: "wSize < strstart s" using at by (simp add: window_consts)
  have t: "window t = splice 0 (slc wSize (dataEnd s) (window s)) (window s)" "strstart t = strstart s - wSize"
    "lookahead t = lookahead s" "srcPos t = srcPos s" "insertCount t = 0" "insH t = insH s"
    "headPos t = map rebase (headPos s)" "prevPos t = map rebase (prevPos s)" "blockStart t = blockStart s - int wSize"
    "matchLen t = matchLen s" "prevLength t = prevLength s" "block t = block s"
    using win(2) room' by (simp_all add: t_def slideWindow_def slideHash_def Let_def idle_def)
  from t show "strstart t = strstart s - wSize" "lookahead t = lookahead s" "srcPos t = srcPos s" by auto
  have fits: "dataEnd s - wSize \<le> length (window s)" using end' by simp
  have moved: "window t ! i = window s ! (i + wSize)" if "i < dataEnd s - wSize" for i
    using that end' fits unfolding t(1) by (subst nth_splice) (auto simp: nth_slc ac_simps)
  have dt: "dataEnd t = dataEnd s - wSize" using big t by simp
  have "winOK t"
  proof -
    have "window t ! i = srcBytes t ! (srcPos t - dataEnd t + i)" if "i < dataEnd t" for i
    proof -
      have i: "i + wSize < dataEnd s" "i < dataEnd s - wSize" using that dt by auto
      have "window t ! i = srcBytes s ! (srcPos s - dataEnd s + (i + wSize))"
        using win(1) i by (simp add: moved winOK_def)
      moreover have "srcPos s - dataEnd s + (i + wSize) = srcPos s - dataEnd t + i"
        using win(1) dt big by (simp add: winOK_def)
      ultimately show ?thesis using block_fields(1) [OF t(12)] t(4) by simp
    qed
    moreover have "dataEnd t \<le> dataEnd s" using dt by simp
    moreover have "length (window t) = length (window s)" using t(1) by simp
    ultimately show ?thesis using win(1) t(4) block_fields(1) [OF t(12)] unfolding winOK_def by auto
  qed
  moreover have "hashing t"
  proof -
    have "rolled (window t) (insH s) (strstart t)" if "3 \<le> lookahead s"
    proof (rule rolled_cong)
      show "rolled (window s) (insH s) (strstart s)" using s that by (simp add: searching_def hashing_def)
    qed (use that big t dt moved [of "strstart t"] moved [of "strstart t + 1"] in auto)
    then show ?thesis using t by (simp add: hashing_def)
  qed
  moreover have "\<exists>I. onChains I t"
  proof -
    obtain I where "onChains I s" using s by (auto simp: searching_def)
    then have "chains (window t) (dataEnd s - wSize) (strstart s - wSize) {p. 0 < p \<and> p + wSize \<in> I} (headPos t) (prevPos t)"
      unfolding t onChains_def [of I s] by (rule chains_slide) (use big moved t in auto)
    then show ?thesis using t dt by (auto simp: onChains_def)
  qed
  moreover have "idle t" using win(2) t by (simp add: idle_def)
  moreover have "consumed t = consumed s" using t by (simp add: consumed_def)
  moreover have "int (strstart t) - blockStart t = int (strstart s) - blockStart s" using t(2,9) big by simp
  ultimately show "refilled s t" using t(12) by (simp add: refilled_def searching_def)
  have "fst (slideWindow room s) = room + wSize" by (simp add: slideWindow_def Let_def)
  then show "fst (slideWindow room s) = windowSize - dataEnd t" using room end' dt big by simp
qed

section \<open>Filling\<close>

lemma winOK_read:
  assumes win: "winOK s" and t: "t = (case readBuf (dataEnd s) (windowSize - dataEnd s) s of (n, s) \<Rightarrow> s\<lparr>lookahead := lookahead s + n\<rparr>)"
  shows "winOK t" and "\<And>i. i < dataEnd s \<Longrightarrow> window t ! i = window s ! i"
    and "srcPos t = srcPos s + min (length (srcBytes s) - srcPos s) (windowSize - dataEnd s)" and "strstart t = strstart s"
    and "lookahead t = lookahead s + (srcPos t - srcPos s)" and "insertCount t = insertCount s" and "insH t = insH s"
    and "headPos t = headPos s" and "prevPos t = prevPos s" and "blockStart t = blockStart s" and "matchLen t = matchLen s"
    and "prevLength t = prevLength s" and "block t = block s" and "consumed t = consumed s"
proof -
  let ?n = "min (length (srcBytes s) - srcPos s) (windowSize - dataEnd s)"
  have t': "window t = splice (dataEnd s) (slc (srcPos s) (srcPos s + ?n) (srcBytes s)) (window s)"
    "srcPos t = srcPos s + ?n" "strstart t = strstart s" "lookahead t = lookahead s + ?n" "insertCount t = insertCount s"
    "insH t = insH s" "headPos t = headPos s" "prevPos t = prevPos s" "blockStart t = blockStart s" "matchLen t = matchLen s"
    "prevLength t = prevLength s" "block t = block s"
    by (simp_all add: t readBuf_def Let_def)
  then show "srcPos t = srcPos s + ?n" "strstart t = strstart s" "insertCount t = insertCount s" "insH t = insH s"
    "headPos t = headPos s" "prevPos t = prevPos s" "blockStart t = blockStart s" "matchLen t = matchLen s"
    "prevLength t = prevLength s" "block t = block s" "lookahead t = lookahead s + (srcPos t - srcPos s)" by simp_all
  show "consumed t = consumed s" using t'(2,4) by (simp add: consumed_def)
  have len: "length (window s) = windowSize + maxMatch" "dataEnd s \<le> windowSize" "srcPos s \<le> length (srcBytes s)"
    "dataEnd s \<le> srcPos s" using win by (auto simp: winOK_def)
  have slc: "length (slc (srcPos s) (srcPos s + ?n) (srcBytes s)) = ?n" using len by simp
  show old: "window t ! i = window s ! i" if "i < dataEnd s" for i
    using that len unfolding t'(1) by (subst nth_splice) auto
  have new: "window t ! i = srcBytes s ! (srcPos s + (i - dataEnd s))" if "dataEnd s \<le> i" "i < dataEnd s + ?n" for i
  proof -
    have "i - dataEnd s < ?n" "i < length (window s)" "srcPos s + (i - dataEnd s) < length (srcBytes s)" using that len by auto
    then show ?thesis using that len slc unfolding t'(1) by (subst nth_splice) (auto simp: nth_slc)
  qed
  have "window t ! i = srcBytes s ! (srcPos t - dataEnd t + i)" if "i < dataEnd t" for i
  proof (cases "i < dataEnd s")
    case True
    then show ?thesis using win old t' by (simp add: winOK_def)
  next
    case False
    moreover have "srcPos t - dataEnd t + i = srcPos s + (i - dataEnd s)" using False len t' by simp
    moreover have "i < dataEnd s + ?n" using that t'(3,4) by simp
    ultimately show ?thesis using new [of i] by (metis not_le)
  qed
  moreover have "srcPos t \<le> length (srcBytes s)" "dataEnd t \<le> srcPos t" "dataEnd t \<le> windowSize"
    using len t'(2,3,4) by linarith+
  moreover have "length (window t) = length (window s)" using t'(1) by simp
  moreover have "srcBytes t = srcBytes s" by (rule block_fields(1) [OF t'(12)])
  ultimately show "winOK t" using len(1) unfolding winOK_def by auto
qed

lemma insert_kept: "insertCount s = 0 \<Longrightarrow> s\<lparr>insH := h, insertCount := 0\<rparr> = s\<lparr>insH := h\<rparr>"
  by (cases s) simp

lemma hashPending_hashes:
  assumes "winOK s" and "idle s" and "onChains I s"
  defines "t \<equiv> hashPending s"
  shows "searching t" and "block t = block s" and "consumed t = consumed s" and "dataEnd t = dataEnd s" and "srcPos t = srcPos s"
    and "strstart t = strstart s" and "blockStart t = blockStart s" and "lookahead t = lookahead s"
proof -
  have t: "t = (if lookahead s < 3 then s else s\<lparr>insH := updateHash (ucast (window s ! strstart s)) (window s ! (strstart s + 1))\<rparr>)"
    using assms(2) by (simp add: t_def hashPending_def idle_def minMatch_def Let_def insert_kept)
  show "block t = block s" "dataEnd t = dataEnd s" "srcPos t = srcPos s" "consumed t = consumed s" "strstart t = strstart s"
    "blockStart t = blockStart s" "lookahead t = lookahead s"
    using t by (simp_all add: consumed_def)
  have "hashing t" unfolding hashing_def t using rolled_start [of "window s" "strstart s"] by simp
  moreover have "winOK t" "idle t" "onChains I t" using assms(1,2,3) t by (simp_all add: winOK_def idle_def onChains_def)
  ultimately show "searching t" by (auto simp: searching_def)
qed

lemma fillTurn_refills:
  assumes s: "searching s" and low: "lookahead s < minLookahead"
  defines "t \<equiv> fillTurn s"
  shows "refilled s t" and "srcPos s < length (srcBytes s) \<Longrightarrow> srcPos s < srcPos t" and "strstart t < wSize + maxDist"
    and "srcPos s \<le> srcPos t"
proof -
  let ?room = "windowSize - dataEnd s"
  define u where "u = (if strstart s \<ge> wSize + maxDist then snd (slideWindow ?room s) else s)"
  have win: "winOK s" using s by (simp add: searching_def)
  have u: "refilled s u" "srcPos u = srcPos s" "lookahead u = lookahead s" "strstart u < wSize + maxDist"
  proof -
    have "dataEnd s \<le> 2 * wSize" using win by (simp add: winOK_def windowSize_def)
    then have "strstart s - wSize < wSize + maxDist" by (simp add: window_consts)
    then show "refilled s u" "srcPos u = srcPos s" "lookahead u = lookahead s" "strstart u < wSize + maxDist"
      using slideWindow_slides [OF s _ refl] refilled_refl [OF s] by (auto simp: u_def)
  qed
  have pair: "(if strstart s \<ge> wSize + maxDist then slideWindow ?room s else (?room, s)) = (windowSize - dataEnd u, u)"
    using slideWindow_slides(5) [OF s _ refl] by (auto simp: u_def prod_eq_iff)
  have bytes: "srcBytes u = srcBytes s" by (rule refilled_bytes [OF u(1)])
  have t: "t = (if srcPos u = length (srcBytes u) then u
    else hashPending (case readBuf (dataEnd u) (windowSize - dataEnd u) u of (n, s) \<Rightarrow> s\<lparr>lookahead := lookahead s + n\<rparr>))"
  proof -
    have "windowSize - lookahead s - strstart s = ?room" by simp
    then show ?thesis unfolding t_def fillTurn_def Let_def by (simp only: pair prod.case) (simp split: prod.split)
  qed
  have "refilled s t \<and> (srcPos s < length (srcBytes s) \<longrightarrow> srcPos s < srcPos t) \<and> strstart t < wSize + maxDist \<and> srcPos s \<le> srcPos t"
  proof (cases "srcPos u = length (srcBytes u)")
    case True
    then show ?thesis using t u bytes by simp
  next
    case False
    define v where "v = (case readBuf (dataEnd u) (windowSize - dataEnd u) u of (n, s) \<Rightarrow> s\<lparr>lookahead := lookahead s + n\<rparr>)"
    have su: "searching u" using u(1) by (simp add: refilled_def)
    then have wu: "winOK u" by (simp add: searching_def)
    note v = winOK_read [OF wu v_def]
    obtain I where "onChains I u" using su by (auto simp: searching_def)
    then have "onChains I v" unfolding onChains_def v(4,8,9) by (rule chains_cong) (use v(2,5) in auto)
    moreover have "idle v" using su v by (simp add: searching_def idle_def)
    ultimately have t': "searching t" "block t = block v" "consumed t = consumed v" "srcPos t = srcPos v"
      "strstart t = strstart v" "blockStart t = blockStart v"
      using hashPending_hashes [OF v(1), of I] t False v_def by simp_all
    have "0 < windowSize - dataEnd u" using u(3,4) low by (simp add: window_consts)
    then have "srcPos u < srcPos v" if "srcPos u < length (srcBytes u)" using that v(3) by simp
    moreover have "refilled u t" using t' v by (simp add: refilled_def)
    ultimately show ?thesis using refilled_trans [OF u(1)] u t' v(3,4) bytes by simp
  qed
  then show "refilled s t" "srcPos s < length (srcBytes s) \<Longrightarrow> srcPos s < srcPos t" "strstart t < wSize + maxDist" "srcPos s \<le> srcPos t" by auto
qed

lemma fillLoop_refills:
  assumes "searching s" and "lookahead s < minLookahead" and "length (srcBytes s) - srcPos s < fuel"
  shows "refilled s (fillLoop fuel s)
    \<and> (minLookahead \<le> lookahead (fillLoop fuel s) \<or> srcPos (fillLoop fuel s) = length (srcBytes s))
    \<and> strstart (fillLoop fuel s) < wSize + maxDist"
  using assms
proof (induction fuel arbitrary: s)
  case (Suc fuel)
  let ?t = "fillTurn s"
  note t = fillTurn_refills [OF Suc.prems(1,2)]
  have bytes: "srcBytes ?t = srcBytes s" by (rule refilled_bytes [OF t(1)])
  show ?case
  proof (cases "lookahead ?t \<ge> minLookahead \<or> srcPos ?t = length (srcBytes ?t)")
    case True
    then have "fillLoop (Suc fuel) s = ?t" by (auto simp: Let_def)
    then show ?thesis using t True bytes by auto
  next
    case False
    have le: "srcPos s \<le> length (srcBytes s)" "srcPos ?t \<le> length (srcBytes s)"
      using Suc.prems(1) t(1) bytes by (auto simp: searching_def winOK_def refilled_def)
    moreover have "srcPos s < length (srcBytes s)"
    proof (rule ccontr)
      assume "\<not> srcPos s < length (srcBytes s)"
      then have "srcPos ?t = length (srcBytes ?t)" using le t(4) bytes by simp
      then show False using False by simp
    qed
    ultimately have "length (srcBytes ?t) - srcPos ?t < fuel" using t(2) Suc.prems(3) bytes by simp
    then have "refilled ?t (fillLoop fuel ?t) \<and>
      (minLookahead \<le> lookahead (fillLoop fuel ?t) \<or> srcPos (fillLoop fuel ?t) = length (srcBytes ?t))
      \<and> strstart (fillLoop fuel ?t) < wSize + maxDist"
      using Suc.IH [of ?t] t(1) False by (simp add: refilled_def)
    moreover have "fillLoop (Suc fuel) s = fillLoop fuel ?t" using False by (auto simp: Let_def)
    ultimately show ?thesis using refilled_trans [OF t(1)] bytes by simp
  qed
qed simp

lemma zeroHighWater_refills:
  assumes "searching s"
  shows "refilled s (zeroHighWater s) \<and> lookahead (zeroHighWater s) = lookahead s \<and> srcPos (zeroHighWater s) = srcPos s
    \<and> strstart (zeroHighWater s) = strstart s"
proof -
  obtain start n hw where z: "zeroHighWater s = s\<lparr>window := splice start (replicate n 0) (window s), highWater := hw\<rparr>"
    and start: "dataEnd s \<le> start" "start \<le> length (window s)"
  proof -
    have d: "dataEnd s \<le> length (window s)" "dataEnd s \<le> windowSize" "length (window s) = windowSize + maxMatch"
      using assms by (simp_all add: searching_def winOK_def)
    have id: "splice (dataEnd s) (replicate 0 0) (window s) = window s" by (simp add: splice_def)
    consider "highWater s \<ge> windowSize \<or> (dataEnd s \<le> highWater s \<and> dataEnd s + winInit \<le> highWater s)"
      | "highWater s < windowSize" "highWater s < dataEnd s"
      | "highWater s < windowSize" "dataEnd s \<le> highWater s" "highWater s < dataEnd s + winInit" by linarith
    then show ?thesis
    proof cases
      case 1
      then have "zeroHighWater s = s\<lparr>window := splice (dataEnd s) (replicate 0 0) (window s), highWater := highWater s\<rparr>"
        unfolding id by (auto simp: zeroHighWater_def Let_def)
      then show ?thesis using that d by blast
    next
      case 2
      let ?n = "min (windowSize - dataEnd s) winInit"
      have "zeroHighWater s = s\<lparr>window := splice (dataEnd s) (replicate ?n 0) (window s), highWater := dataEnd s + ?n\<rparr>"
        using 2 unfolding zeroHighWater_def Let_def by (simp only: if_True if_False not_le [symmetric] simp_thms)
      then show ?thesis using that d by blast
    next
      case 3
      let ?n = "min (dataEnd s + winInit - highWater s) (windowSize - highWater s)"
      have "zeroHighWater s = s\<lparr>window := splice (highWater s) (replicate ?n 0) (window s), highWater := highWater s + ?n\<rparr>"
      proof -
        have "\<not> windowSize \<le> highWater s" "\<not> highWater s < dataEnd s" using 3 by simp_all
        then show ?thesis using 3(3) unfolding zeroHighWater_def Let_def by (simp only: if_True if_False simp_thms)
      qed
      moreover have "highWater s \<le> length (window s)" using 3(1) d by simp
      ultimately show ?thesis using that 3(2) by blast
    qed
  qed
  let ?t = "zeroHighWater s"
  have same: "window ?t ! i = window s ! i" if "i < dataEnd s" for i
    using that start unfolding z by simp (subst nth_splice, auto)
  have t: "lookahead ?t = lookahead s" "srcPos ?t = srcPos s" "strstart ?t = strstart s" "block ?t = block s"
    "blockStart ?t = blockStart s" "headPos ?t = headPos s" "prevPos ?t = prevPos s" "insH ?t = insH s"
    "insertCount ?t = insertCount s" "prevLength ?t = prevLength s" "matchLen ?t = matchLen s"
    "length (window ?t) = length (window s)"
    unfolding z by simp_all
  obtain I where "onChains I s" using assms by (auto simp: searching_def)
  then have "onChains I ?t" unfolding onChains_def t by (rule chains_cong) (use same in auto)
  moreover have "winOK ?t"
  proof -
    have w: "winOK s" using assms by (simp add: searching_def)
    then have "window ?t ! i = srcBytes s ! (srcPos s - dataEnd s + i)" if "i < dataEnd s" for i
      using same [OF that] that by (simp add: winOK_def)
    then show ?thesis using w unfolding winOK_def t(1,2,3,12) block_fields(1) [OF t(4)] by simp
  qed
  moreover have "idle ?t" using assms t by (simp add: searching_def idle_def)
  moreover have "hashing ?t"
  proof -
    have "rolled (window ?t) (insH s) (strstart s)" if "3 \<le> lookahead s"
      by (rule rolled_cong [of _ _ "window s" "strstart s"])
        (use that same [of "strstart s"] same [of "strstart s + 1"] assms in \<open>auto simp: searching_def hashing_def\<close>)
    then show ?thesis using t by (simp add: hashing_def)
  qed
  ultimately show ?thesis using t by (auto simp: refilled_def searching_def consumed_def)
qed

lemma fillWindow_refills:
  assumes "searching s" and "lookahead s < minLookahead"
  shows "refilled s (fillWindow s)"
    and "minLookahead \<le> lookahead (fillWindow s) \<or> srcPos (fillWindow s) = length (srcBytes s)"
    and "strstart (fillWindow s) < wSize + maxDist"
proof -
  let ?t = "fillLoop (length (srcBytes s) + 1) s"
  have "length (srcBytes s) - srcPos s < length (srcBytes s) + 1" by simp
  note f = fillLoop_refills [OF assms this]
  have "searching ?t" using f by (simp add: refilled_def)
  note z = zeroHighWater_refills [OF this]
  show "refilled s (fillWindow s)" using f z by (auto simp: fillWindow_def intro: refilled_trans)
  show "minLookahead \<le> lookahead (fillWindow s) \<or> srcPos (fillWindow s) = length (srcBytes s)"
    "strstart (fillWindow s) < wSize + maxDist" using f z by (simp_all add: fillWindow_def)
qed

end
