(* ===== verification/Zlib_Runs.thy ===== *)
theory Zlib_Runs
  imports Zlib_Window
begin

text \<open>
  The symbols the compressor collects, what a turn of its main loop adds, and what whole runs give: the symbols of
  all blocks expand to the input.
\<close>

chapter \<open>Symbols\<close>

text \<open>
  The symbols a block collects: literals and matches. Expanding them after the input before the block gives
  the input up to the current position, and every turn of the main loop adds one.
\<close>

section \<open>Symbols and what they stand for\<close>

text \<open>A symbol is a distance and a length; a literal has the distance 0 and its byte.\<close>

type_synonym symbol = "nat \<times> nat"

definition symbolAt :: "byte list \<Rightarrow> nat \<Rightarrow> symbol" where
  "symbolAt buf i = (unat (buf ! (3 * i)) + unat (buf ! (3 * i + 1)) * 2 ^ 8, unat (buf ! (3 * i + 2)))"

definition symbols :: "deflateState \<Rightarrow> symbol list" where
  "symbols s = map (symbolAt (symBuf s)) [0..<symNext s div 3]"

fun copyBack :: "nat \<Rightarrow> nat \<Rightarrow> byte list \<Rightarrow> byte list" where
  "copyBack d 0 out = out"
| "copyBack d (Suc n) out = copyBack d n (out @ [out ! (length out - d)])"

definition expandSymbol :: "byte list \<Rightarrow> symbol \<Rightarrow> byte list" where
  "expandSymbol out = (\<lambda>(d, l). if d = 0 then out @ [word_of_nat l] else copyBack d (l + minMatch) out)"

definition expand :: "byte list \<Rightarrow> symbol list \<Rightarrow> byte list" where
  "expand = foldl expandSymbol"

lemma expand_Nil [simp]: "expand out [] = out"
  by (simp add: expand_def)

lemma expand_snoc [simp]: "expand out (syms @ [y]) = expandSymbol (expand out syms) y"
  by (simp add: expand_def)

text \<open>Copying back over an input that repeats itself continues it.\<close>

lemma copyBack_continues:
  assumes "0 < d" and "d \<le> n" and "n + k \<le> length src" and "\<forall>i < k. src ! (n - d + i) = src ! (n + i)"
  shows "copyBack d k (take n src) = take (n + k) src"
  using assms
proof (induction k arbitrary: n)
  case (Suc k)
  have "take n src ! (length (take n src) - d) = src ! n"
    using Suc.prems(1,2,3) Suc.prems(4) [rule_format, of 0] by (simp add: min_def)
  then have "take n src @ [take n src ! (length (take n src) - d)] = take (Suc n) src"
    using Suc.prems(3) by (simp add: take_Suc_conv_app_nth)
  moreover have "copyBack d k (take (Suc n) src) = take (Suc n + k) src"
  proof (rule Suc.IH)
    show "\<forall>i < k. src ! (Suc n - d + i) = src ! (Suc n + i)"
    proof (intro allI impI)
      fix i assume "i < k"
      then show "src ! (Suc n - d + i) = src ! (Suc n + i)"
        using Suc.prems(4) [rule_format, of "Suc i"] Suc.prems(2) by (simp add: Suc_diff_le)
    qed
  qed (use Suc.prems in auto)
  ultimately show ?case by simp
qed simp

section \<open>Adding a symbol\<close>

definition tally :: "symbol \<Rightarrow> deflateState \<Rightarrow> deflateState" where
  "tally = (\<lambda>(d, l) s. if d = 0 then snd (tallyLit (word_of_nat l) s) else snd (tallyDist d l s))"

text \<open>A symbol whose parts fit the three bytes kept of it.\<close>

definition codable :: "symbol \<Rightarrow> bool" where
  "codable = (\<lambda>(d, l). d < 2 ^ 15 \<and> l < 2 ^ 8)"

definition roomy :: "deflateState \<Rightarrow> bool" where
  "roomy s \<longleftrightarrow> length (symBuf s) = litBufsize * 3 \<and> 3 dvd symNext s \<and> symNext s < symEnd"

lemma onTree_symBuf [simp]:
  "symBuf (onTree t n f s) = symBuf s" "symNext (onTree t n f s) = symNext s" "block (onTree t n f s) = onTree t n f (block s)"
  by (cases t; simp add: onTree_def block_def)+

lemma tally_buffer:
  "symBuf (tally (d, l) s) = (symBuf s)[symNext s := (if d = 0 then 0 else word_of_nat d),
     symNext s + 1 := (if d = 0 then 0 else word_of_nat (d div 2 ^ 8)), symNext s + 2 := word_of_nat l]"
  "symNext (tally (d, l) s) = symNext s + 3"
  by (simp_all add: tally_def tallyLit_def tallyDist_def putSymbol_def Let_def)

lemma tally_symbols:
  assumes "roomy s" and "codable y"
  shows "symbols (tally y s) = symbols s @ [y]"
proof -
  obtain d l where y: "y = (d, l)" by (cases y)
  obtain n where n: "symNext s = 3 * n" using assms(1) by (auto simp: roomy_def)
  have len: "3 * n + 2 < length (symBuf s)" using assms(1) n by (simp add: roomy_def symEnd_def litBufsize_def)
  let ?b = "symBuf (tally y s)"
  have old: "symbolAt ?b i = symbolAt (symBuf s) i" if "i < n" for i
  proof -
    have "?b ! j = symBuf s ! j" if "j < 3 * n" for j using that by (simp add: y tally_buffer n)
    then show ?thesis using that by (simp add: symbolAt_def)
  qed
  have "symbolAt ?b n = (d, l)"
  proof -
    have d: "unat (word_of_nat d :: byte) + unat (word_of_nat (d div 2 ^ 8) :: byte) * 2 ^ 8 = d"
    proof -
      have "d < 2 ^ 8 * 2 ^ 8" using assms(2) y by (simp add: codable_def)
      then have "d div 2 ^ 8 < 2 ^ 8" by (rule less_mult_imp_div_less)
      then show ?thesis by (simp add: unat_of_nat)
    qed
    have "?b ! (3 * n) = (if d = 0 then 0 else word_of_nat d)" "?b ! (3 * n + 1) = (if d = 0 then 0 else word_of_nat (d div 2 ^ 8))"
      "?b ! (3 * n + 2) = word_of_nat l" using len by (simp_all add: y tally_buffer n)
    moreover have "unat (word_of_nat l :: byte) = l" using assms(2) y by (simp add: codable_def unat_of_nat)
    ultimately show ?thesis using d by (auto simp: symbolAt_def)
  qed
  moreover have "symNext (tally y s) div 3 = Suc n" by (simp add: y tally_buffer n)
  ultimately show ?thesis using old by (simp add: symbols_def n y)
qed

lemma block_put:
  "block (s\<lparr>symBuf := a, symNext := b\<rparr>) = (block s)\<lparr>symBuf := a, symNext := b\<rparr>"
  "block (s\<lparr>symBuf := a, symNext := b, matches := c\<rparr>) = (block s)\<lparr>symBuf := a, symNext := b, matches := c\<rparr>"
  by (cases s; simp add: block_def)+

lemma tally_block: "block (tally y s) = tally y (block s)"
  by (cases y) (simp add: tally_def tallyLit_def tallyDist_def putSymbol_def Let_def block_put block_reads)

lemma tally_window:
  "window (tally y s) = window s" "strstart (tally y s) = strstart s" "lookahead (tally y s) = lookahead s"
  "srcPos (tally y s) = srcPos s" "srcBytes (tally y s) = srcBytes s" "prevPos (tally y s) = prevPos s"
  "headPos (tally y s) = headPos s" "insH (tally y s) = insH s" "insertCount (tally y s) = insertCount s"
  "prevLength (tally y s) = prevLength s" "matchLen (tally y s) = matchLen s" "matchStart (tally y s) = matchStart s"
  "blockStart (tally y s) = blockStart s"
proof -
  have f: "core (tally y s) = core (s\<lparr>symBuf := symBuf (tally y s)\<rparr>)"
  proof (cases y)
    case (Pair d l)
    have "core (s\<lparr>symBuf := x, symNext := y\<rparr>) = core (s\<lparr>symBuf := x\<rparr>)" for x y by (simp add: core_def)
    then show ?thesis by (simp add: Pair tally_def tallyLit_def tallyDist_def putSymbol_def Let_def)
  qed
  note g = core_fields [OF f]
  show "window (tally y s) = window s" "strstart (tally y s) = strstart s" "lookahead (tally y s) = lookahead s"
    "srcPos (tally y s) = srcPos s" "srcBytes (tally y s) = srcBytes s" "prevPos (tally y s) = prevPos s"
    "headPos (tally y s) = headPos s" "insH (tally y s) = insH s" "insertCount (tally y s) = insertCount s"
    "prevLength (tally y s) = prevLength s" "matchLen (tally y s) = matchLen s" "matchStart (tally y s) = matchStart s"
    using g by simp_all
  have "blockStart (onTree t n f s) = blockStart s" for t n f and s :: deflateState by (cases t) (simp_all add: onTree_def)
  then show "blockStart (tally y s) = blockStart s"
    by (cases y) (simp add: tally_def tallyLit_def tallyDist_def putSymbol_def Let_def)
qed

section \<open>Finding a match\<close>

lemma insertString_inserts:
  assumes c: "chains (window s) e str I (headPos s) (prevPos s)" and r: "rolled (window s) (insH s) str"
    and e: "str + 2 < e" "e \<le> windowSize" and ins: "insertString str s = (h, t)"
  shows "chains (window s) e (str + 1) (if str = 0 then I else insert str I) (headPos t) (prevPos t)"
    and "rolled (window s) (insH t) (str + 1)" and "h \<noteq> 0 \<Longrightarrow> h \<in> I \<and> hash3 (window s) h = hash3 (window s) str"
    and "\<exists>a b c. t = s\<lparr>insH := a, prevPos := b, headPos := c\<rparr>"
proof -
  let ?h = "hash3 (window s) str"
  have upd: "updateHash (insH s) (window s ! (str + minMatch - 1)) = ?h"
    using rolled_hash [OF r] by (simp add: minMatch_def)
  have t: "t = s\<lparr>insH := ?h, prevPos := (prevPos s)[str mod wSize := headPos s ! unat ?h],
      headPos := (headPos s)[unat ?h := word_of_nat str]\<rparr>" and h: "h = unat (headPos s ! unat ?h)"
    using ins unfolding insertString_def chainPosition_def Let_def upd by auto
  have small: "str < 2 ^ 16" using e by (simp add: window_consts)
  show "chains (window s) e (str + 1) (if str = 0 then I else insert str I) (headPos t) (prevPos t)"
    using chains_insert [OF c e(1) small] by (simp add: t)
  show "rolled (window s) (insH t) (str + 1)" using rolled_step [OF r] rolled_hash [OF r] by (simp add: t)
  have bound: "unat ?h < hashSize" by (simp add: hash3_def updateHash_bound)
  show "h \<in> I \<and> hash3 (window s) h = ?h" if "h \<noteq> 0"
    using chains_head [OF c bound] that h by (simp add: word_unat_eq_iff)
  show "\<exists>a b c. t = s\<lparr>insH := a, prevPos := b, headPos := c\<rparr>" unfolding t by blast
qed

lemma longestMatch_matches:
  assumes "chains (window s) e (strstart s + 1) I (headPos s) (prevPos s)" and "cur \<in> I" and "cur < strstart s"
    and "strstart s \<le> cur + maxDist" and "hash3 (window s) cur = hash3 (window s) (strstart s)" and "prevLength s = 2"
    and "3 \<le> lookahead s" and "longestMatch cur s = (n, t)"
  shows "\<exists>x. t = s\<lparr>matchStart := x\<rparr>
    \<and> (n < 3 \<or> (\<exists>m. x = int m \<and> isMatch (window s) (strstart s) m n \<and> n \<le> lookahead s))"
proof -
  let ?limit = "if strstart s > maxDist then strstart s - maxDist else 0"
  let ?nice = "if niceMatchLevel > lookahead s then lookahead s else niceMatchLevel"
  have lim: "strstart s \<le> ?limit + maxDist" by simp
  obtain k x where w: "chainWalk maxChainLength ?limit ?nice cur 2 s = (k, s\<lparr>matchStart := x\<rparr>)"
    and k: "k = 2 \<or> (\<exists>m. x = int m \<and> isMatch (window s) (strstart s) m k)"
    using chainWalk_matches [OF assms(1-5) disjI1 [OF refl] lim] by blast
  have n: "n = (if k \<le> lookahead s then k else lookahead s)" "t = s\<lparr>matchStart := x\<rparr>"
    using assms(6,8) w by (simp_all add: longestMatch_def goodMatch_def Let_def split: if_splits)
  show ?thesis
  proof (cases "k = 2")
    case True
    then show ?thesis using n by auto
  next
    case False
    then obtain m where m: "x = int m" "isMatch (window s) (strstart s) m k" using k by auto
    then have "isMatch (window s) (strstart s) m n" using n assms(7) by (auto simp: isMatch_def)
    then show ?thesis using n m(1) by auto
  qed
qed

text \<open>After \<open>findMatch\<close>: the string at the current position is on its chain, and a match of length 3 or more is one.\<close>

definition found :: "deflateState \<Rightarrow> deflateState \<Rightarrow> bool" where
  "found s t \<longleftrightarrow> window t = window s \<and> strstart t = strstart s \<and> lookahead t = lookahead s \<and> srcPos t = srcPos s
     \<and> insertCount t = insertCount s \<and> prevLength t = prevLength s \<and> blockStart t = blockStart s \<and> block t = block s
     \<and> (\<exists>I. chains (window s) (dataEnd s) (strstart s + 1) I (headPos t) (prevPos t))
     \<and> (3 \<le> lookahead s \<longrightarrow> rolled (window s) (insH t) (strstart s + 1))
     \<and> (matchLen t < 3 \<or> (3 \<le> lookahead s \<and> matchLen t \<le> lookahead s
          \<and> (\<exists>m. matchStart t = int m \<and> isMatch (window s) (strstart s) m (matchLen t))))"

lemma findMatch_found:
  assumes s: "searching s"
  shows "found s (findMatch s)"
proof -
  obtain I where I: "chains (window s) (dataEnd s) (strstart s) I (headPos s) (prevPos s)"
    using s by (auto simp: searching_def onChains_def)
  have idle: "prevLength s = 2" "matchLen s < 3" using s by (auto simp: searching_def idle_def)
  show ?thesis
  proof (cases "3 \<le> lookahead s")
    case False
    moreover have "chains (window s) (dataEnd s) (strstart s + 1) I (headPos s) (prevPos s)"
      by (rule chains_cong [OF I]) auto
    moreover have "findMatch s = s" using False by (simp add: findMatch_def minMatch_def)
    ultimately show ?thesis using idle by (auto simp: found_def)
  next
    case True
    obtain h u where ins: "insertString (strstart s) s = (h, u)" by (cases "insertString (strstart s) s")
    have r: "rolled (window s) (insH s) (strstart s)" using s True by (simp add: searching_def hashing_def)
    have e: "strstart s + 2 < dataEnd s" "dataEnd s \<le> windowSize" using s True by (auto simp: searching_def winOK_def)
    note i = insertString_inserts [OF I r e ins]
    obtain a b c where u: "u = s\<lparr>insH := a, prevPos := b, headPos := c\<rparr>" using i(4) by blast
    have find: "findMatch s = (if h \<noteq> 0 \<and> int (strstart s) - int h \<le> int maxDist
        then (case longestMatch h u of (n, t) \<Rightarrow> t\<lparr>matchLen := n\<rparr>) else u)"
      using True ins u by (simp add: findMatch_def minMatch_def)
    let ?J = "if strstart s = 0 then I else insert (strstart s) I"
    show ?thesis
    proof (cases "h \<noteq> 0 \<and> int (strstart s) - int h \<le> int maxDist")
      case no: False
      then show ?thesis using find i(1,2) idle unfolding found_def u by auto
    next
      case yes: True
      obtain n t where l: "longestMatch h u = (n, t)" by (cases "longestMatch h u")
      have h: "h \<in> I" "hash3 (window s) h = hash3 (window s) (strstart s)" "h < strstart s"
        using i(3) yes chains_range [OF I] by auto
      have "\<exists>x. t = u\<lparr>matchStart := x\<rparr>
          \<and> (n < 3 \<or> (\<exists>m. x = int m \<and> isMatch (window u) (strstart u) m n \<and> n \<le> lookahead u))"
        by (rule longestMatch_matches [OF _ _ _ _ _ _ _ l, of "dataEnd s" ?J])
          (use h i(1) yes idle True u in auto)
      then obtain x where x: "t = u\<lparr>matchStart := x\<rparr>"
        "n < 3 \<or> (\<exists>m. x = int m \<and> isMatch (window s) (strstart s) m n \<and> n \<le> lookahead s)" using u by auto
      have "findMatch s = u\<lparr>matchStart := x, matchLen := n\<rparr>" using find yes l x(1) by simp
      then show ?thesis using i(1,2) x(2) True unfolding found_def u by auto
    qed
  qed
qed

chapter \<open>Turns\<close>

text \<open>
  The turns of the main loop: each adds one symbol, which expands to the input it takes, so that at every
  flush the block's symbols expand to the input since the last one.
\<close>

section \<open>One symbol\<close>

definition turned :: "deflateState \<Rightarrow> symbol \<Rightarrow> deflateState \<Rightarrow> bool" where
  "turned s y t \<longleftrightarrow> searching t \<and> block t = tally y (block s) \<and> codable y \<and> consumed s < consumed t
     \<and> consumed t \<le> length (srcBytes s) \<and> expandSymbol (take (consumed s) (srcBytes s)) y = take (consumed t) (srcBytes s)
     \<and> int (strstart t) - blockStart t = int (strstart s) - blockStart s + int (consumed t - consumed s)"

lemma insertInterior_inserts:
  assumes "chains (window s) e (strstart s + 1) I (headPos s) (prevPos s)" and "rolled (window s) (insH s) (strstart s + 1)"
    and "strstart s + n + 2 < e" and "e \<le> windowSize"
  shows "\<exists>I. chains (window s) e (strstart s + n + 1) I (headPos (insertInterior n s)) (prevPos (insertInterior n s))"
    and "rolled (window s) (insH (insertInterior n s)) (strstart s + n + 1)"
    and "window (insertInterior n s) = window s \<and> strstart (insertInterior n s) = strstart s + n
      \<and> lookahead (insertInterior n s) = lookahead s \<and> srcPos (insertInterior n s) = srcPos s
      \<and> insertCount (insertInterior n s) = insertCount s \<and> prevLength (insertInterior n s) = prevLength s
      \<and> blockStart (insertInterior n s) = blockStart s \<and> block (insertInterior n s) = block s
      \<and> matchLen (insertInterior n s) = (if n = 0 then matchLen s else 0)"
proof -
  have "(\<exists>I. chains (window s) e (strstart s + n + 1) I (headPos (insertInterior n s)) (prevPos (insertInterior n s)))
    \<and> rolled (window s) (insH (insertInterior n s)) (strstart s + n + 1)
    \<and> window (insertInterior n s) = window s \<and> strstart (insertInterior n s) = strstart s + n
      \<and> lookahead (insertInterior n s) = lookahead s \<and> srcPos (insertInterior n s) = srcPos s
      \<and> insertCount (insertInterior n s) = insertCount s \<and> prevLength (insertInterior n s) = prevLength s
      \<and> blockStart (insertInterior n s) = blockStart s \<and> block (insertInterior n s) = block s
      \<and> matchLen (insertInterior n s) = (if n = 0 then matchLen s else 0)"
    using assms
  proof (induction n arbitrary: s I)
    case (Suc n)
    let ?s = "s\<lparr>strstart := strstart s + 1\<rparr>"
    obtain h t where ins: "insertString (strstart s + 1) ?s = (h, t)" by (cases "insertString (strstart s + 1) ?s")
    let ?t = "t\<lparr>matchLen := n\<rparr>"
    have step: "insertInterior (Suc n) s = insertInterior n ?t" using ins by (simp add: Let_def)
    have c: "chains (window ?s) e (strstart s + 1) I (headPos ?s) (prevPos ?s)" "rolled (window ?s) (insH ?s) (strstart s + 1)"
      "strstart s + 1 + 2 < e" using Suc.prems by auto
    note i = insertString_inserts [OF c Suc.prems(4) ins]
    obtain a b d where t: "t = ?s\<lparr>insH := a, prevPos := b, headPos := d\<rparr>" using i(4) by blast
    have "chains (window ?t) e (strstart ?t + 1) (insert (strstart s + 1) I) (headPos ?t) (prevPos ?t)"
      "rolled (window ?t) (insH ?t) (strstart ?t + 1)" "strstart ?t + n + 2 < e"
      using i(1,2) Suc.prems(3) t by simp_all
    note ih = Suc.IH [OF this Suc.prems(4)]
    have same: "strstart ?t = strstart s + 1" "window ?t = window s" "lookahead ?t = lookahead s" "srcPos ?t = srcPos s"
      "insertCount ?t = insertCount s" "prevLength ?t = prevLength s" "blockStart ?t = blockStart s" "block ?t = block s"
      "matchLen ?t = n" using t by simp_all
    show ?case using ih unfolding step same by (auto simp: add.assoc split: if_splits)
  qed auto
  then show "\<exists>I. chains (window s) e (strstart s + n + 1) I (headPos (insertInterior n s)) (prevPos (insertInterior n s))"
    "rolled (window s) (insH (insertInterior n s)) (strstart s + n + 1)"
    "window (insertInterior n s) = window s \<and> strstart (insertInterior n s) = strstart s + n
      \<and> lookahead (insertInterior n s) = lookahead s \<and> srcPos (insertInterior n s) = srcPos s
      \<and> insertCount (insertInterior n s) = insertCount s \<and> prevLength (insertInterior n s) = prevLength s
      \<and> blockStart (insertInterior n s) = blockStart s \<and> block (insertInterior n s) = block s
      \<and> matchLen (insertInterior n s) = (if n = 0 then matchLen s else 0)" by blast+
qed

text \<open>Past a match of length \<open>n\<close>: \<open>s\<close> is the state with the lookahead already reduced.\<close>

lemma insertMatchInterior_moves:
  assumes c: "chains (window s) e (strstart s + 1) I (headPos s) (prevPos s)"
    and r: "rolled (window s) (insH s) (strstart s + 1)"
    and e: "e = strstart s + matchLen s + lookahead s" "e \<le> windowSize" and n: "3 \<le> matchLen s"
  defines "t \<equiv> insertMatchInterior s"
  shows "\<exists>J. chains (window s) e (strstart t) J (headPos t) (prevPos t)"
    and "3 \<le> lookahead s \<Longrightarrow> rolled (window s) (insH t) (strstart t)"
    and "window t = window s \<and> strstart t = strstart s + matchLen s \<and> lookahead t = lookahead s \<and> srcPos t = srcPos s
      \<and> insertCount t = insertCount s \<and> prevLength t = prevLength s \<and> blockStart t = blockStart s \<and> block t = block s \<and> matchLen t = 0"
proof -
  have "(\<exists>J. chains (window s) e (strstart t) J (headPos t) (prevPos t))
    \<and> (3 \<le> lookahead s \<longrightarrow> rolled (window s) (insH t) (strstart t))
    \<and> window t = window s \<and> strstart t = strstart s + matchLen s \<and> lookahead t = lookahead s \<and> srcPos t = srcPos s
      \<and> insertCount t = insertCount s \<and> prevLength t = prevLength s \<and> blockStart t = blockStart s \<and> block t = block s \<and> matchLen t = 0"
  proof (cases "matchLen s \<le> maxInsertLen \<and> lookahead s \<ge> minMatch")
    case True
    then have "strstart s + (matchLen s - 1) + 2 < e" using e n by (simp add: minMatch_def)
    note i = insertInterior_inserts [OF c r this e(2)]
    have "t = (insertInterior (matchLen s - 1) s)\<lparr>strstart := strstart (insertInterior (matchLen s - 1) s) + 1\<rparr>"
      using True unfolding t_def insertMatchInterior_def Let_def by (simp only: if_True simp_thms)
    moreover have "strstart s + (matchLen s - 1) + 1 = strstart s + matchLen s" "matchLen s - 1 \<noteq> 0" using n by simp_all
    ultimately show ?thesis using i by (auto simp del: One_nat_def)
  next
    case False
    let ?p = "strstart s + matchLen s"
    have t: "t = s\<lparr>strstart := ?p, matchLen := 0, insH := updateHash (ucast (window s ! ?p)) (window s ! (?p + 1))\<rparr>"
      using False by (auto simp add: t_def insertMatchInterior_def Let_def)
    have "chains (window s) e ?p I (headPos s) (prevPos s)" by (rule chains_cong [OF c]) (use n in auto)
    moreover have "rolled (window s) (insH t) ?p" using rolled_start unfolding t by simp
    ultimately show ?thesis unfolding t by auto
  qed
  then show "\<exists>J. chains (window s) e (strstart t) J (headPos t) (prevPos t)"
    "3 \<le> lookahead s \<Longrightarrow> rolled (window s) (insH t) (strstart t)"
    "window t = window s \<and> strstart t = strstart s + matchLen s \<and> lookahead t = lookahead s \<and> srcPos t = srcPos s
      \<and> insertCount t = insertCount s \<and> prevLength t = prevLength s \<and> blockStart t = blockStart s \<and> block t = block s \<and> matchLen t = 0"
    by blast+
qed

text \<open>Moving the position inside the same window.\<close>

lemma winOK_move:
  assumes "winOK s" and "window t = window s" and "dataEnd t = dataEnd s" and "srcPos t = srcPos s" and "srcBytes t = srcBytes s"
  shows "winOK t"
  using assms by (simp add: winOK_def)

lemma tally_src: "srcBytes (tally y s) = srcBytes s"
  by (rule tally_window(5))

lemma turned_src: "turned s y t \<Longrightarrow> srcBytes t = srcBytes s"
  unfolding turned_def by (metis block_reads(1) tally_src)

lemma emitSymbol_turns:
  assumes s: "searching s" and la: "0 < lookahead s" and emit: "emitSymbol (findMatch s) = (full, u)"
  shows "\<exists>y. turned s y u" and "full \<longleftrightarrow> symNext u = symEnd"
proof -
  let ?t = "findMatch s" and ?src = "srcBytes s"
  have f: "found s ?t" by (rule findMatch_found [OF s])
  then have t: "window ?t = window s" "strstart ?t = strstart s" "lookahead ?t = lookahead s" "srcPos ?t = srcPos s"
    "insertCount ?t = insertCount s" "prevLength ?t = prevLength s" "blockStart ?t = blockStart s" "block ?t = block s"
    by (auto simp: found_def)
  obtain I where I: "chains (window s) (dataEnd s) (strstart s + 1) I (headPos ?t) (prevPos ?t)"
    using f by (auto simp: found_def)
  have win: "winOK s" and idle: "insertCount s = 0" "prevLength s = 2" using s by (auto simp: searching_def idle_def)
  then have len: "srcPos s \<le> length ?src" "dataEnd s \<le> srcPos s" "dataEnd s \<le> windowSize" by (auto simp: winOK_def)
  have data: "window s ! i = ?src ! (consumed s - strstart s + i)" if "i < dataEnd s" for i
    using win that la by (simp add: winOK_def consumed_def add.commute)
  have here: "strstart s \<le> consumed s" "consumed s + lookahead s = srcPos s" using len by (auto simp: consumed_def)
  have src: "srcBytes ?t = ?src" using block_fields(1) [OF t(8)] .
  have "(\<exists>y. turned s y u) \<and> (full \<longleftrightarrow> symNext u = symEnd)"
  proof (cases "matchLen ?t < 3")
    case True
    let ?y = "(0, unat (window s ! strstart s))" and ?v = "tally (0, unat (window s ! strstart s)) ?t"
    have lit: "tallyLit (window s ! strstart s) ?t = (symNext ?v = symEnd, ?v)"
      by (simp add: tally_def tallyLit_def Let_def)
    have u: "u = ?v\<lparr>lookahead := lookahead s - 1, strstart := strstart s + 1\<rparr>" "full = (symNext u = symEnd)"
      using emit True lit t by (auto simp: emitSymbol_def minMatch_def tally_window)
    have uw: "window u = window s" "dataEnd u = dataEnd s" "srcPos u = srcPos s" "srcBytes u = ?src" "strstart u = strstart s + 1"
      "lookahead u = lookahead s - 1" "headPos u = headPos ?t" "prevPos u = prevPos ?t" "insH u = insH ?t"
      "blockStart u = blockStart s" "insertCount u = 0" "prevLength u = 2" "matchLen u = matchLen ?t"
      using la t src idle by (simp_all add: u(1) tally_window)
    have "block u = tally ?y (block s)" by (simp add: u(1) tally_block t)
    moreover have "searching u"
    proof -
      have "onChains I u" using I unfolding onChains_def uw(2) unfolding uw(1,5,7,8) .
      moreover have "hashing u" using f uw by (auto simp: hashing_def found_def)
      moreover have "idle u" using uw True by (simp add: idle_def)
      ultimately show ?thesis using winOK_move [OF win uw(1,2,3,4)] by (auto simp: searching_def)
    qed
    moreover have c: "consumed u = consumed s + 1" using uw la here by (simp add: consumed_def)
    moreover have "codable ?y" using unsigned_less [of "window s ! strstart s"] by (simp add: codable_def)
    moreover have "expandSymbol (take (consumed s) ?src) ?y = take (consumed u) ?src"
    proof -
      have "window s ! strstart s = ?src ! consumed s" using data [of "strstart s"] here la by simp
      then show ?thesis using here len la by (simp add: expandSymbol_def c take_Suc_conv_app_nth)
    qed
    ultimately show ?thesis using u(2) uw here len la by (auto simp: turned_def)
  next
    case False
    let ?n = "matchLen ?t"
    obtain m where m: "matchStart ?t = int m" "isMatch (window s) (strstart s) m ?n" "?n \<le> lookahead s" "3 \<le> lookahead s"
      using f False by (auto simp: found_def)
    let ?d = "strstart s - m"
    have d: "0 < ?d" "?d \<le> maxDist" "?n \<le> maxMatch" using m by (auto simp: isMatch_def)
    let ?y = "(?d, ?n - 3)" and ?v = "tally (?d, ?n - 3) ?t"
    have dist: "nat (int (strstart s) - int m) = ?d" by simp
    have tl: "tallyDist ?d (?n - 3) ?t = (symNext ?v = symEnd, ?v)"
      using d by (simp add: tally_def tallyDist_def Let_def)
    define v where "v = ?v\<lparr>lookahead := lookahead s - ?n\<rparr>"
    have u: "u = insertMatchInterior v" and full: "full = (symNext ?v = symEnd)"
      using emit False tl t m(1) dist by (auto simp: emitSymbol_def minMatch_def tally_window v_def)
    have v: "window v = window s" "strstart v = strstart s" "lookahead v = lookahead s - ?n" "srcPos v = srcPos s"
      "insertCount v = 0" "prevLength v = 2" "blockStart v = blockStart s" "matchLen v = ?n" "headPos v = headPos ?t"
      "prevPos v = prevPos ?t" "insH v = insH ?t" "block v = tally ?y (block s)"
      using t idle by (simp_all add: v_def tally_window tally_block)
    have e: "dataEnd s = strstart v + matchLen v + lookahead v" "3 \<le> matchLen v" using v m(3) False by simp_all
    have "chains (window v) (dataEnd s) (strstart v + 1) I (headPos v) (prevPos v)" "rolled (window v) (insH v) (strstart v + 1)"
      using I f m(4) v by (auto simp: found_def)
    note mv = insertMatchInterior_moves [OF this e(1) len(3) e(2), folded u]
    have uw: "window u = window s" "dataEnd u = dataEnd s" "srcPos u = srcPos s" "strstart u = strstart s + ?n"
      "lookahead u = lookahead s - ?n" "blockStart u = blockStart s" "insertCount u = 0" "prevLength u = 2" "matchLen u = 0"
      "block u = tally ?y (block s)" using mv(3) v e(1) by simp_all
    have su: "srcBytes u = ?src" using arg_cong [OF uw(10), of srcBytes] by (simp add: block_reads tally_src)
    have "searching u"
    proof -
      have "\<exists>J. onChains J u" using mv(1) unfolding onChains_def uw(1,2) v(1) by simp
      moreover have "hashing u" using mv(2) uw v by (simp add: hashing_def)
      moreover have "idle u" using uw by (simp add: idle_def)
      ultimately show ?thesis using winOK_move [OF win uw(1,2,3) su] by (auto simp: searching_def)
    qed
    moreover have c: "consumed u = consumed s + ?n" using uw m(3) here by (simp add: consumed_def)
    moreover have "codable ?y" using d by (auto simp: codable_def window_consts)
    moreover have "expandSymbol (take (consumed s) ?src) ?y = take (consumed u) ?src"
    proof -
      have "?src ! (consumed s - ?d + i) = ?src ! (consumed s + i)" if i: "i < ?n" for i
      proof -
        have "window s ! (m + i) = window s ! (strstart s + i)" using m(2) i by (simp add: isMatch_def)
        moreover have "m < strstart s" using m(2) by (simp add: isMatch_def)
        moreover from this have "consumed s - strstart s + (m + i) = consumed s - ?d + i"
          "consumed s - strstart s + (strstart s + i) = consumed s + i" using here by simp_all
        ultimately show ?thesis using data [of "m + i"] data [of "strstart s + i"] i m(3) by simp
      qed
      then have "copyBack ?d ?n (take (consumed s) ?src) = take (consumed s + ?n) ?src"
        using d here len m(3) by (intro copyBack_continues) auto
      moreover have "?n - 3 + 3 = ?n" using False by simp
      ultimately show ?thesis using d by (simp add: expandSymbol_def minMatch_def c)
    qed
    moreover have "symNext u = symNext ?v"
      using arg_cong [OF uw(10), of symNext] arg_cong [OF t(8), of symNext] by (simp add: block_reads tally_buffer)
    ultimately show ?thesis using full uw here len m(3) False by (auto simp: turned_def)
  qed
  then show "\<exists>y. turned s y u" "full \<longleftrightarrow> symNext u = symEnd" by auto
qed

chapter \<open>Runs\<close>

text \<open>
  Whole runs of the main loop: with one turn more than the input has bytes it takes the whole input, and the
  symbols handed over block by block expand to it.
\<close>

section \<open>The invariant of the loop\<close>

text \<open>Where in the input the block under construction begins.\<close>

definition blockPos :: "deflateState \<Rightarrow> nat" where
  "blockPos s = consumed s - nat (int (strstart s) - blockStart s)"

definition deflating :: "deflateState \<Rightarrow> bool" where
  "deflating s \<longleftrightarrow> searching s \<and> roomy s \<and> 0 \<le> int (strstart s) - blockStart s
     \<and> int (strstart s) - blockStart s \<le> int (consumed s) \<and> (\<forall>y \<in> set (symbols s). codable y)
     \<and> expand (take (blockPos s) (srcBytes s)) (symbols s) = take (consumed s) (srcBytes s)"

lemma expand_append [simp]: "expand out (xs @ ys) = expand (expand out xs) ys"
  by (simp add: expand_def)

lemma expand_Cons [simp]: "expand out (y # ys) = expand (expandSymbol out y) ys"
  by (simp add: expand_def)

lemma symbols_block: "symbols (block s) = symbols s"
  by (simp add: symbols_def block_reads)

lemma roomy_block: "roomy (block s) = roomy s"
  by (simp add: roomy_def block_reads)

lemma refilled_deflating:
  assumes d: "deflating s" and r: "refilled s t"
  shows "deflating t" and "blockPos t = blockPos s" and "symbols t = symbols s" and "consumed t = consumed s"
proof -
  have b: "block t = block s" and c: "consumed t = consumed s"
    and p: "int (strstart t) - blockStart t = int (strstart s) - blockStart s" and st: "searching t"
    using r by (auto simp: refilled_def)
  show y: "symbols t = symbols s" using symbols_block b by metis
  show "consumed t = consumed s" by (rule c)
  show bp: "blockPos t = blockPos s" unfolding blockPos_def c p ..
  have "roomy t = roomy s" using roomy_block b by metis
  then show "deflating t" using d st unfolding deflating_def p c y bp refilled_bytes [OF r] by simp
qed

text \<open>A turn up to its flush: the block's symbols expand to what the turn has taken.\<close>

lemma turned_extends:
  assumes d: "deflating s" and t: "turned s y u"
  shows "searching u" and "symbols u = symbols s @ [y]" and "\<forall>y \<in> set (symbols u). codable y"
    and "blockPos u = blockPos s" and "0 \<le> int (strstart u) - blockStart u"
    and "int (strstart u) - blockStart u \<le> int (consumed u)" and "srcBytes u = srcBytes s"
    and "expand (take (blockPos u) (srcBytes s)) (symbols u) = take (consumed u) (srcBytes s)"
    and "consumed s < consumed u" and "consumed u \<le> length (srcBytes s)" and "symNext u = symNext s + 3"
    and "length (symBuf u) = litBufsize * 3"
proof -
  have s: "roomy s" "0 \<le> int (strstart s) - blockStart s" "int (strstart s) - blockStart s \<le> int (consumed s)"
    using d by (auto simp: deflating_def)
  have u: "block u = tally y (block s)" "codable y"
    "int (strstart u) - blockStart u = int (strstart s) - blockStart s + int (consumed u - consumed s)"
    "expandSymbol (take (consumed s) (srcBytes s)) y = take (consumed u) (srcBytes s)"
    using t by (auto simp: turned_def)
  show "searching u" "consumed s < consumed u" "consumed u \<le> length (srcBytes s)" using t by (auto simp: turned_def)
  then have lt: "consumed s < consumed u" by simp
  show "srcBytes u = srcBytes s" by (rule turned_src [OF t])
  show sy: "symbols u = symbols s @ [y]"
    using tally_symbols [of "block s" y] u(1,2) s(1) symbols_block roomy_block by metis
  show "\<forall>y \<in> set (symbols u). codable y" using d u(2) sy by (auto simp: deflating_def)
  show bp: "blockPos u = blockPos s" using u(3) s lt unfolding blockPos_def by linarith
  show "0 \<le> int (strstart u) - blockStart u" "int (strstart u) - blockStart u \<le> int (consumed u)"
    using u(3) s lt by linarith+
  show "expand (take (blockPos u) (srcBytes s)) (symbols u) = take (consumed u) (srcBytes s)"
    unfolding sy bp using d u(4) by (simp add: deflating_def)
  obtain d l where y: "y = (d, l)" by (cases y)
  have "symNext (block u) = symNext (block s) + 3" "length (symBuf (block u)) = length (symBuf (block s))"
    unfolding u(1) y by (simp_all add: tally_buffer)
  then show "symNext u = symNext s + 3" "length (symBuf u) = litBufsize * 3"
    using s(1) by (simp_all add: block_reads roomy_def)
qed

lemma emit_deflating:
  assumes d: "deflating s" and t: "turned s y u" and open': "symNext u \<noteq> symEnd"
  shows "deflating u"
proof -
  note u = turned_extends [OF d t]
  obtain k where k: "symNext s = 3 * k" "3 * k < symEnd" using d by (auto simp: deflating_def roomy_def)
  moreover have "symEnd = 3 * 16383" by (simp add: symEnd_def litBufsize_def)
  ultimately have "symNext u < symEnd" using open' u(11) by presburger
  moreover have "3 dvd symNext u" using u(11) k(1) by simp
  ultimately show ?thesis using u by (simp add: deflating_def roomy_def)
qed

lemma flush_deflating:
  assumes d: "deflating s" and t: "turned s y u"
  shows "deflating (flushBlock 0 u)" and "blockPos (flushBlock 0 u) = consumed u" and "consumed (flushBlock 0 u) = consumed u"
proof -
  let ?f = "flushBlock 0 u"
  note u = turned_extends [OF d t]
  note same = flush_fields [of 0 u]
  show c: "consumed ?f = consumed u" by (simp add: consumed_def same)
  show bp: "blockPos ?f = consumed u" by (simp add: blockPos_def c flushBlock_resets same)
  have "searching ?f"
    using u(1) by (simp add: searching_def winOK_def idle_def hashing_def onChains_def same)
  moreover have "roomy ?f" using u(12) by (simp add: roomy_def same flushBlock_resets symEnd_def litBufsize_def)
  moreover have "symbols ?f = []" by (simp add: symbols_def flushBlock_resets)
  ultimately show "deflating ?f" by (simp add: deflating_def bp c same flushBlock_resets)
qed

section \<open>Runs\<close>

text \<open>The symbols of each block, as the loop hands them over.\<close>

fun blocksOf :: "nat \<Rightarrow> deflateState \<Rightarrow> symbol list list" where
  "blocksOf 0 s = []"
| "blocksOf (Suc fuel) s =
     (let s1 = (if lookahead s < minLookahead then fillWindow s else s) in
      if lookahead s1 = 0 then [symbols s1]
      else case emitSymbol (findMatch s1) of (full, u) \<Rightarrow>
        if full then symbols u # blocksOf fuel (flushBlock 0 u) else blocksOf fuel u)"

lemma filled:
  assumes "deflating s"
  defines "t \<equiv> if lookahead s < minLookahead then fillWindow s else s"
  shows "refilled s t" and "lookahead t = 0 \<Longrightarrow> consumed t = length (srcBytes s)"
proof -
  have s: "searching s" using assms(1) by (simp add: deflating_def)
  show "refilled s t" using fillWindow_refills(1) [OF s] refilled_refl [OF s] by (simp add: t_def)
  assume "lookahead t = 0"
  moreover from this have "srcPos t = length (srcBytes s)"
    using fillWindow_refills(2) [OF s] by (auto simp: t_def window_consts split: if_splits)
  ultimately show "consumed t = length (srcBytes s)" by (simp add: consumed_def)
qed

text \<open>One turn of the loop, and of its blocks.\<close>

lemma loop_turn:
  assumes d: "deflating s" and go: "lookahead (if lookahead s < minLookahead then fillWindow s else s) \<noteq> 0"
  obtains full u t where "t = (if full then flushBlock 0 u else u)" and "deflating t" and "srcBytes t = srcBytes s"
    and "consumed s < consumed t" and "consumed t \<le> length (srcBytes s)"
    and "blockPos t = (if full then consumed t else blockPos s)"
    and "expand (take (blockPos s) (srcBytes s)) (symbols u) = take (consumed t) (srcBytes s)"
    and "\<And>fuel. deflateLoop (Suc fuel) s = deflateLoop fuel t"
    and "\<And>fuel. blocksOf (Suc fuel) s = (if full then symbols u # blocksOf fuel t else blocksOf fuel t)"
proof -
  let ?f = "if lookahead s < minLookahead then fillWindow s else s"
  note f = filled [OF d]
  note t = refilled_deflating [OF d f(1)]
  note src = refilled_bytes [OF f(1)]
  obtain full u where emit: "emitSymbol (findMatch ?f) = (full, u)" by (cases "emitSymbol (findMatch ?f)")
  have st: "searching ?f" "0 < lookahead ?f" using t(1) go by (simp_all add: deflating_def)
  obtain y where y: "turned ?f y u" using emitSymbol_turns(1) [OF st emit] by blast
  have full: "full \<longleftrightarrow> symNext u = symEnd" by (rule emitSymbol_turns(2) [OF st emit])
  note u = turned_extends [OF t(1) y]
  let ?t = "if full then flushBlock 0 u else u"
  have c: "consumed ?t = consumed u" using flush_deflating(3) [OF t(1) y] by simp
  show ?thesis
  proof (rule that [OF refl])
    show "deflating ?t" using flush_deflating(1) [OF t(1) y] emit_deflating [OF t(1) y] full by simp
    show "srcBytes ?t = srcBytes s" using flush_fields(1) [of 0 u] u(7) src by simp
    show "consumed s < consumed ?t" "consumed ?t \<le> length (srcBytes s)" using u(9,10) t(4) src c by simp_all
    show "blockPos ?t = (if full then consumed ?t else blockPos s)" using flush_deflating(2,3) [OF t(1) y] u(4) t(2) by simp
    show "expand (take (blockPos s) (srcBytes s)) (symbols u) = take (consumed ?t) (srcBytes s)"
      using u(4,8) t(2) src c by simp
    show "deflateLoop (Suc fuel) s = deflateLoop fuel ?t" for fuel using go emit by (simp add: Let_def deflateTurn_def)
    show "blocksOf (Suc fuel) s = (if full then symbols u # blocksOf fuel ?t else blocksOf fuel ?t)" for fuel
      using go emit by (simp add: Let_def)
  qed
qed

text \<open>The loop takes the whole input, and the blocks' symbols expand to it.\<close>

lemma deflateLoop_run:
  assumes "deflating s" and "length (srcBytes s) - consumed s < fuel"
  shows "consumed (deflateLoop fuel s) = length (srcBytes s)"
    and "expand (take (blockPos s) (srcBytes s)) (concat (blocksOf fuel s)) = srcBytes s"
    and "last (blocksOf fuel s) = symbols (deflateLoop fuel s)"
    and "deflateLoop (fuel + k) s = deflateLoop fuel s"
proof -
  have "consumed (deflateLoop fuel s) = length (srcBytes s)
    \<and> expand (take (blockPos s) (srcBytes s)) (concat (blocksOf fuel s)) = srcBytes s
    \<and> blocksOf fuel s \<noteq> [] \<and> last (blocksOf fuel s) = symbols (deflateLoop fuel s)
    \<and> deflateLoop (fuel + k) s = deflateLoop fuel s"
    using assms
  proof (induction fuel arbitrary: s)
    case (Suc fuel)
    let ?f = "if lookahead s < minLookahead then fillWindow s else s"
    note f = filled [OF Suc.prems(1)]
    note t = refilled_deflating [OF Suc.prems(1) f(1)]
    show ?case
    proof (cases "lookahead ?f = 0")
      case True
      then have "deflateLoop (Suc fuel') s = ?f" "blocksOf (Suc fuel) s = [symbols ?f]" for fuel' by (simp_all add: Let_def)
      moreover have "expand (take (blockPos ?f) (srcBytes ?f)) (symbols ?f) = take (consumed ?f) (srcBytes ?f)"
        using t(1) by (simp add: deflating_def)
      ultimately show ?thesis using t f(2) [OF True] refilled_bytes [OF f(1)] by simp
    next
      case False
      show ?thesis
      proof (rule loop_turn [OF Suc.prems(1) False])
        fix full u t
        assume g: "t = (if full then flushBlock 0 u else u)" "deflating t" "srcBytes t = srcBytes s"
        "consumed s < consumed t" "consumed t \<le> length (srcBytes s)" "blockPos t = (if full then consumed t else blockPos s)"
        "expand (take (blockPos s) (srcBytes s)) (symbols u) = take (consumed t) (srcBytes s)"
        "\<And>fuel. deflateLoop (Suc fuel) s = deflateLoop fuel t"
        "\<And>fuel. blocksOf (Suc fuel) s = (if full then symbols u # blocksOf fuel t else blocksOf fuel t)"
        have "length (srcBytes t) - consumed t < fuel" unfolding g(3) using Suc.prems(2) g(4,5) by linarith
        note ih = Suc.IH [OF g(2) this]
        then show ?thesis using g by (cases full) simp_all
      qed
    qed
  qed simp
  then show "consumed (deflateLoop fuel s) = length (srcBytes s)"
    "expand (take (blockPos s) (srcBytes s)) (concat (blocksOf fuel s)) = srcBytes s"
    "last (blocksOf fuel s) = symbols (deflateLoop fuel s)" "deflateLoop (fuel + k) s = deflateLoop fuel s" by blast+
qed

section \<open>From the first state\<close>

lemma new_deflating: "deflating (newDeflateState src\<lparr>bwOut := out\<rparr>)" (is "deflating ?s")
proof -
  let ?n = "newDeflateState src"
  have core: "window ?s = replicate (windowSize + maxMatch) 0" "srcPos ?s = 0" "srcBytes ?s = src" "strstart ?s = 0"
    "lookahead ?s = 0" "insertCount ?s = 0" "prevLength ?s = 2" "matchLen ?s = 2" "headPos ?s = replicate hashSize 0"
    "prevPos ?s = replicate wSize 0" "blockStart ?s = 0" "symBuf ?s = replicate (litBufsize * 3) 0" "symNext ?s = 0"
    by (simp_all add: newDeflateState_def initBlock_def minMatch_def)
  have "chains (window ?s) 0 0 {} (headPos ?s) (prevPos ?s)" by (simp add: chains_def core)
  then have "onChains {} ?s" by (simp add: onChains_def core)
  then have "searching ?s" by (auto simp: searching_def winOK_def idle_def hashing_def core)
  moreover have "symbols ?s = []" by (simp add: symbols_def core)
  moreover have "roomy ?s" by (simp add: roomy_def core symEnd_def litBufsize_def)
  ultimately show ?thesis by (simp add: deflating_def core blockPos_def consumed_def)
qed

text \<open>
  The symbols of all the blocks of \<open>Compress src\<close>, the last one flushed after the loop included, expand to
  \<open>src\<close>; the loop ends with the whole of \<open>src\<close> taken, and more fuel than \<open>deflateFast\<close> gives it changes nothing.
\<close>

theorem compressed_symbols_expand:
  fixes src :: "byte list"
  defines "s \<equiv> newDeflateState src\<lparr>bwOut := bwOut (newDeflateState src) @ zlibHeader\<rparr>" and "fuel \<equiv> length src + 1"
  shows "expand [] (concat (blocksOf fuel s)) = src" and "last (blocksOf fuel s) = symbols (deflateLoop fuel s)"
    and "consumed (deflateLoop fuel s) = length src" and "deflateLoop (fuel + k) s = deflateLoop fuel s"
proof -
  have d: "deflating s" unfolding s_def by (rule new_deflating)
  have s: "srcBytes s = src" "consumed s = 0" "blockPos s = 0"
    by (simp_all add: s_def newDeflateState_def initBlock_def consumed_def blockPos_def)
  have "length (srcBytes s) - consumed s < fuel" by (simp add: s fuel_def)
  note run = deflateLoop_run [OF d this, unfolded s]
  from run show "expand [] (concat (blocksOf fuel s)) = src" "last (blocksOf fuel s) = symbols (deflateLoop fuel s)"
    "consumed (deflateLoop fuel s) = length src" "deflateLoop (fuel + k) s = deflateLoop fuel s" by simp_all
qed

end
