(* ===== verification/Spec2Isabelle.thy ===== *)
theory Spec2Isabelle
  imports Alter_Props Blobs Compaction Creation_Claims Drop_Witness Header_Props Index_Witnesses Unlocking Writer_Claims Zlib_Runs
begin

text \<open>
  A verification development for the Go package \<open>absdb\<close>, which reads and writes files of ComponentAce's
  Absolute Database. A file is a header and a sequence of pages of one size; each page has a block header,
  a payload and, when its cipher flag is set, an encrypted payload. Tables, indexes, schemas and the two
  allocation maps are all chains of such pages.

  \<^bold>\<open>The program's parts and how they meet.\<close> A \<open>DB\<close> (\<open>absdb.go\<close>) reads and writes pages through the cipher of
  \<open>crypto.go\<close>. Everything that changes a file does so in a set of buffered pages, a \<open>pageEdit\<close> of \<open>ddl.go\<close> or
  the page map of a \<open>TableWriter\<close>, which is flushed at the end. The table catalog and each table's schema are
  internal files, compressed and spread over pages (\<open>schema.go\<close>, \<open>catalog.go\<close>). Records are laid out in
  slots of data pages (\<open>reader.go\<close>, \<open>encode.go\<close>), indexes are B-tree pages over encoded keys (\<open>index.go\<close>). A
  \<open>TableWriter\<close> keeps records, indexes, constraints and counters together; the DDL operations allocate and
  release pages and edit schema streams.

  \<^bold>\<open>The theories.\<close> A function of the code is a definition of the same name; where a method of one type and of another
  share a name, the definition carries the type's name too. A Go method that changes state is an
  operation of type \<open>op\<close> (Prelude): it takes the state and returns a result \<open>err + 'a\<close> with the state it
  leaves behind, on the error paths as well. A run-time panic is the error value \<open>GoPanic\<close>, so that its
  absence is a theorem. Bytes, block numbers and checksums are words; Go's \<open>int\<close> is \<open>int\<close>, or \<open>nat\<close>
  where the code keeps it non-negative.

  \<^item> Prelude: words, slices, \<open>copy\<close>, little-endian integers, errors, the two result disciplines.
  \<^item> Crc (\<open>crc.go\<close>); Square, Twofish, Rijndael (\<open>internal/deccrypto\<close>, with Triple DES over a DES parameter);
    Cipher_Modes (the cmCTS mode of \<open>cryptowrite.go\<close>, \<open>crypto.go\<close>); Ripemd (\<open>internal/ripemd\<close>); Unlocking (the password part of \<open>crypto.go\<close>).
  \<^item> Bitmaps (the bitmaps of \<open>reader.go\<close>, \<open>encode.go\<close>, \<open>ddl.go\<close>), Disk (\<open>absdb.go\<close>, \<open>crypto.go\<close>, \<open>cryptowrite.go\<close>), Pages (\<open>pageWriteBuf\<close> of
    \<open>writer.go\<close>), Edit (\<open>pageEdit\<close> of \<open>ddl.go\<close>); Page_Props and Header_Props hold what they guarantee.
  \<^item> Alloc (\<open>ddl.go\<close>, \<open>ddl_grow.go\<close>) with Alloc_Spec, Alloc_Total, Alloc_Props; Release, Release_Props.
  \<^item> Layout, Reader, Row (\<open>schema.go\<close>, \<open>reader.go\<close>); Go_Text, Go_Floats, Go_Times (what the codec uses of Go's
    text, float and time libraries); Encode (\<open>encode.go\<close>), Encode_Props, Record_Props; Alter, Alter_Props (\<open>ddl_alter.go\<close>, the
    rewrite of data pages); Blobs (\<open>blob.go\<close>).
  \<^item> Streams, Parsers, Schema_Stream, Index_Records, Constraint_Records, Constraint_Trips, Column_Edits,
    Stream_Shape, Stream_Edits, Stream_Witnesses: the schema stream (\<open>schema.go\<close>, \<open>ddl_index.go\<close>,
    \<open>ddl_constraint.go\<close>, \<open>ddl_constraint_write.go\<close>), its parsers, its writers and its surgical edits.
  \<^item> Internal_Files, Internal_Trips, Catalog, Catalog_Props (\<open>schema.go\<close>, \<open>catalog.go\<close>); Ownership, Drop_Props,
    Drop_Witness (\<open>DropTable\<close> of \<open>ddl.go\<close>).
  \<^item> Index_Keys, Index_Leaf, Index_Tree, Index_Build (\<open>index.go\<close>, \<open>writer_index.go\<close>, \<open>ddl_index.go\<close>); Leaf_Spec,
    Tree_Search, Index_Props, Index_Witnesses.
  \<^item> Writer, Writer_Checks, Writer_Ops, Writer_Counts (\<open>writer.go\<close>, \<open>writer_index.go\<close>, \<open>writer_constraint.go\<close>,
    \<open>writer_autoinc.go\<close>); Writer_Steps, Writer_Calm, Writer_Props, Writer_Claims.
  \<^item> Column_Changes (\<open>AddColumn\<close>, \<open>DropColumn\<close>), Index_Changes (\<open>CreateIndex\<close>, \<open>DropIndex\<close>), Table_Creation (\<open>ddl_create.go\<close>),
    Database_Creation (\<open>ddl_database.go\<close>) with Creation_Props and Creation_Claims, Compaction (\<open>ddl_compact.go\<close>): the whole DDL operations.
  \<^item> Zlib_Tables, Zlib_Trees, Zlib_Blocks, Zlib_Deflate (\<open>internal/zlib1\<close>): the level 1 compressor; Zlib_Window and
    Zlib_Runs prove its string matching correct.
  \<^item> Samples and the witness theories: small files and streams on which the properties are instantiated.

  \<^bold>\<open>What is shown.\<close>

  \<^item> Allocation: which pages are taken and what both maps hold afterwards, success exactly when there is room,
    growth by whole extents, no panic, release as the inverse of allocation, the two maps consistent in every reachable
    state (rule induction over allocations and releases), and how a second release in one edit loses an update.
  \<^item> Pages: a written page reads back, in the clear and encrypted; a flushed edit is what a later reader sees; header in
    memory and on disk agree after reopening; a buffer written twice is encrypted twice.
  \<^item> Records: the layout packs a page; encoding touches one column; an encoded record decodes to the stored values; a scan visits
    the occupied slots; ADD and DROP COLUMN keep every row in its slot.
  \<^item> Schema streams: every edit of the bytes is the edit of one element of the parsed lists; parsers report only their own
    errors on any bytes; written streams parse back.
  \<^item> Indexes: key order is value order; leaf insertion and removal as list operations; a built leaf is the maintained leaf; a lookup in a
    well-formed tree finds the first match.
  \<^item> Files: internal files over page chains, the catalog as a list, DROP TABLE changes only the table's pages, a new database
    opens and is consistent, a table writer's counts follow its records and the file is untouched before commit, BLOB
    sizes are bounded, the checksum is the polynomial division and detects bursts.
  \<^item> The compressor: the symbols of all blocks (literals and matches) expand to the input, the main loop takes the whole
    input (\<open>compressed_symbols_expand\<close>), and the bits its writer puts out are the bits it was given, padded to a byte at the
    end of the stream. That the Huffman codes chosen for the symbols decode is not proved.

  Contracts between components are locales, interpreted on the model's definitions in the theory of the
  provider: \<open>bit_store\<close> and \<open>entry_store\<close> (bitmaps), \<open>block_device\<close> (page regions), \<open>block_cipher\<close>,
  \<open>key_order\<close> and \<open>search_order\<close> (index keys), \<open>record_array\<close> (counted arrays of a stream), \<open>step_rel\<close> (what the
  steps of a writer keep).

  \<^bold>\<open>Bounds and fuel.\<close> Bounds of the code are kept: \<open>maxTreeDepth\<close> 64, \<open>maxCatalogPages\<close> 64, \<open>maxBlobChainPages\<close> 65536,
  the inflate limits of \<open>schema.go\<close> and \<open>blob.go\<close>; walking past one is the code's error. The scan loops
  (\<open>visit\<close>, \<open>copyRows\<close>, \<open>indexRows\<close>) take one more than the number of record slots as fuel, which a scan cannot exceed: it
  moves strictly forward, and \<open>scan_visits_occupied_slots\<close> shows that it ends. The heap loops of Zlib_Trees take the
  heap's length (\<open>pqLoop_enough\<close>, \<open>joinAll_done\<close>), the loops of Zlib_Deflate one more than the input's length (\<open>deflateLoop_run\<close>: more fuel changes nothing).

  \<^bold>\<open>Parameters.\<close> Code outside the repository's files is an argument of the definitions that use it: AES, DES and
  Blowfish of the cipher libraries (\<open>cipherlib\<close>), the Windows-1252 codec of \<open>golang.org/x/text\<close> (\<open>codec\<close>), Unicode folding of a rune, collation (\<open>collator\<close>), \<open>compress/zlib\<close>
  (\<open>zlib\<close>, whose writer side is the in-tree \<open>Compress\<close>), and the random state values of new pages (the
  seed). What a theorem needs of them is a premise of it, such as that decompressing a compressed text gives the text.

  \<^bold>\<open>Not modelled.\<close> Operating system calls (opening, locking, exclusive creation, removing a half-written copy) and short writes: a file is
  the list of its bytes. The texts of errors: a wrapped error is its sentinel. The command line under \<open>cmd/absdb\<close>, which
  prints what the package returns. Concurrency: the package has none. What a record buffer holds after \<open>encodeInto\<close>
  refused a value: its caller drops it. The conversion of a float outside the range of \<open>int64\<close>, which Go leaves to
  the implementation, is that of amd64.
\<close>

end
